(* ===== verification/Naulon_Prelude.thy ===== *)
theory Naulon_Prelude
  imports Complex_Main "HOL-Library.AList" "HOL-Library.Char_ord" "HOL-Library.List_Lexorder"
    "HOL-Library.Product_Lexorder" "HOL-Library.Sublist" "HOL-Library.Multiset"
begin

text \<open>
  Prelude of the naulon development: how the JavaScript values of the source are read in HOL, and
  the lemmas on them that several components share.

  A JavaScript \<open>Map\<close> iterates in insertion order and \<open>set\<close> on a key it holds keeps the key's
  place, which is exactly \<open>AList.update\<close>; \<open>delete\<close> is \<open>AList.delete\<close> and \<open>get\<close> is \<open>map_of\<close>.
  \<open>Array.prototype.sort\<close> is stable, and so is \<open>sort_key\<close>; a descending numeric comparator is
  \<open>sort_key\<close> on the negated key. A thrown error is the left part of a sum. Strings are lists of
  (8 bit) characters: every string the modelled code inspects is ASCII on the wire. Amounts and
  shares that the source holds in doubles are exact rationals here, so rounding error of floating
  point arithmetic is outside the model.
\<close>

named_theorems js_simps \<open>unfolding rules for the JavaScript operations of the model\<close>

type_synonym ('k, 'v) js_map = "('k \<times> 'v) list"

section \<open>Errors as values\<close>

fun bind_sum :: "'e + 'a \<Rightarrow> ('a \<Rightarrow> 'e + 'b) \<Rightarrow> 'e + 'b" where
  "bind_sum (Inl e) f = Inl e"
| "bind_sum (Inr a) f = f a"

lemma bind_sum_Inr_iff: "bind_sum m f = Inr b \<longleftrightarrow> (\<exists>a. m = Inr a \<and> f a = Inr b)"
  by (cases m) auto

lemma bind_sum_Inl_iff:
  "bind_sum m f = Inl e \<longleftrightarrow> m = Inl e \<or> (\<exists>a. m = Inr a \<and> f a = Inl e)"
  by (cases m) auto

section \<open>Insertion-ordered maps\<close>

lemma map_of_update: "map_of (AList.update k v m) = (map_of m)(k \<mapsto> v)"
  by (rule update_conv')

lemma keys_update: "fst ` set (AList.update k v m) = insert k (fst ` set m)"
  by (induction m) auto

lemma update_fresh: "k \<notin> fst ` set m \<Longrightarrow> AList.update k v m = m @ [(k, v)]"
  by (induction m) auto

lemma distinct_keys_update:
  "distinct (map fst m) \<Longrightarrow> distinct (map fst (AList.update k v m))"
  by (rule distinct_update)

lemma distinct_keys_delete:
  "distinct (map fst m) \<Longrightarrow> distinct (map fst (AList.delete k m))"
  by (rule distinct_delete)

lemma length_update:
  "length (AList.update k v m) = (if k \<in> fst ` set m then length m else Suc (length m))"
  by (induction m) auto

text \<open>Accumulating a number under a key: \<open>m.set(k, (m.get(k) ?? 0) + q)\<close>.\<close>

definition map_add_at :: "'k \<Rightarrow> 'v::comm_monoid_add \<Rightarrow> ('k, 'v) js_map \<Rightarrow> ('k, 'v) js_map" where
  "map_add_at k q m = AList.update k ((case map_of m k of None \<Rightarrow> 0 | Some x \<Rightarrow> x) + q) m"

lemma sum_update_found:
  fixes m :: "('k \<times> 'v::ab_group_add) list"
  assumes "map_of m k = Some x"
  shows "sum_list (map snd (AList.update k y m)) = sum_list (map snd m) - x + y"
  using assms by (induction m) (auto simp: algebra_simps split: if_splits)

lemma sum_map_add_at:
  fixes m :: "('k \<times> 'v::ab_group_add) list"
  shows "sum_list (map snd (map_add_at k q m)) = sum_list (map snd m) + q"
proof (cases "map_of m k")
  case None
  then have "k \<notin> fst ` set m" by (simp add: map_of_eq_None_iff)
  with None show ?thesis by (simp add: map_add_at_def update_fresh)
next
  case (Some x)
  then show ?thesis by (simp add: map_add_at_def sum_update_found)
qed

lemma distinct_map_add_at:
  "distinct (map fst m) \<Longrightarrow> distinct (map fst (map_add_at k q m))"
  by (simp add: map_add_at_def distinct_keys_update)

lemma keys_map_add_at: "fst ` set (map_add_at k q m) = insert k (fst ` set m)"
  by (simp add: map_add_at_def keys_update)

lemma map_of_map_add_at:
  "map_of (map_add_at k q m) k' =
     (if k' = k then Some ((case map_of m k of None \<Rightarrow> 0 | Some x \<Rightarrow> x) + q) else map_of m k')"
  by (simp add: map_add_at_def map_of_update)

text \<open>The entry of one key and the entries of the others, as sums.\<close>

lemma sum_split_key:
  fixes m :: "('k \<times> 'v::ab_group_add) list"
  assumes "distinct (map fst m)" "map_of m k = Some x"
  shows "sum_list (map snd m) = x + sum_list (map snd (filter (\<lambda>e. fst e \<noteq> k) m))"
  using assms
proof (induction m)
  case Nil
  then show ?case by simp
next
  case (Cons e m)
  obtain k' y where e: "e = (k', y)" by (cases e)
  show ?case
  proof (cases "k' = k")
    case True
    with Cons.prems e have "k \<notin> fst ` set m" by auto
    then have "filter (\<lambda>e. fst e \<noteq> k) m = m" by (induction m) auto
    with True Cons.prems e show ?thesis by simp
  next
    case False
    with Cons e show ?thesis by (simp add: algebra_simps)
  qed
qed

lemma sum_list_upd:
  fixes xs :: "'v::ab_group_add list"
  shows "j < length xs \<Longrightarrow> sum_list (xs[j := y]) = sum_list xs - xs ! j + y"
proof (induction xs arbitrary: j)
  case Nil
  then show ?case by simp
next
  case (Cons x xs)
  then show ?case by (cases j) (auto simp: algebra_simps)
qed

section \<open>Stable sorting\<close>

lemma sum_list_map_sort_key:
  fixes f :: "'a \<Rightarrow> 'b::comm_monoid_add"
  shows "sum_list (map f (sort_key k xs)) = sum_list (map f xs)"
proof -
  have "mset (map f (sort_key k xs)) = mset (map f xs)"
    by (metis mset_map mset_sort)
  then show ?thesis by (metis sum_mset_sum_list)
qed

lemma sort_key_hd_min:
  assumes "xs \<noteq> []" "x \<in> set xs"
  shows "k (hd (sort_key k xs)) \<le> k x"
proof -
  have s: "sorted (map k (sort_key k xs))" by simp
  have ne: "sort_key k xs \<noteq> []" using assms(1) by (metis set_empty set_sort)
  have "x \<in> set (sort_key k xs)" using assms(2) by simp
  then show ?thesis using s ne by (cases "sort_key k xs") auto
qed

lemma hd_sort_key_in: "xs \<noteq> [] \<Longrightarrow> hd (sort_key k xs) \<in> set xs"
  by (metis hd_in_set set_empty set_sort)

section \<open>Strings\<close>

definition js_lower_char :: "char \<Rightarrow> char" where
  "js_lower_char c = (if of_char c \<ge> (65::nat) \<and> of_char c \<le> (90::nat) then char_of (of_char c + 32 :: nat) else c)"

definition js_lower :: "string \<Rightarrow> string" where
  "js_lower s = map js_lower_char s"

definition is_digit :: "char \<Rightarrow> bool" where
  "is_digit c \<longleftrightarrow> CHR ''0'' \<le> c \<and> c \<le> CHR ''9''"

definition js_is_space :: "char \<Rightarrow> bool" where
  "js_is_space c \<longleftrightarrow> of_char c \<in> {9, 10, 11, 12, 13, 32, 160 :: nat}"

definition js_trim :: "string \<Rightarrow> string" where
  "js_trim s = rev (dropWhile js_is_space (rev (dropWhile js_is_space s)))"

text \<open>\<open>s.includes(f)\<close>, \<open>s.startsWith(f)\<close>, \<open>s.endsWith(f)\<close> are the library's \<open>sublist f s\<close>,
  \<open>prefix f s\<close> and \<open>suffix f s\<close>, all of them executable.\<close>

fun js_split :: "char \<Rightarrow> string \<Rightarrow> string list" where
  "js_split c [] = [[]]"
| "js_split c (x # xs) =
     (if x = c then [] # js_split c xs
      else (case js_split c xs of [] \<Rightarrow> [[x]] | p # ps \<Rightarrow> (x # p) # ps))"

lemma js_split_nonempty [simp]: "js_split c s \<noteq> []"
  by (induction s) (auto split: list.splits)

lemma js_split_notin: "c \<notin> set s \<Longrightarrow> js_split c s = [s]"
  by (induction s) auto

lemma js_split_append: "c \<notin> set s \<Longrightarrow> js_split c (s @ c # t) = s # js_split c t"
  by (induction s) auto

lemma js_lower_char_idem [simp]: "js_lower_char (js_lower_char c) = js_lower_char c"
  by (simp add: js_lower_char_def)

lemma js_lower_idem [simp]: "js_lower (js_lower s) = js_lower s"
  by (simp add: js_lower_def)

lemma length_js_lower [simp]: "length (js_lower s) = length s"
  by (simp add: js_lower_def)

lemma js_lower_append: "js_lower (s @ t) = js_lower s @ js_lower t"
  by (simp add: js_lower_def)

lemma js_trim_id:
  assumes "s = [] \<or> (\<not> js_is_space (hd s) \<and> \<not> js_is_space (last s))"
  shows "js_trim s = s"
proof (cases s)
  case Nil
  then show ?thesis by (simp add: js_trim_def)
next
  case (Cons c cs)
  with assms have "dropWhile js_is_space s = s" and "dropWhile js_is_space (rev s) = rev s"
    by (auto simp: dropWhile_eq_self_iff hd_rev simp del: rev.simps)
  then show ?thesis by (simp add: js_trim_def)
qed

lemma js_trim_ends:
  assumes "js_trim s \<noteq> []"
  shows "\<not> js_is_space (hd (js_trim s)) \<and> \<not> js_is_space (last (js_trim s))"
proof -
  let ?a = "dropWhile js_is_space s" and ?b = "dropWhile js_is_space (rev (dropWhile js_is_space s))"
  have ne: "?b \<noteq> []" using assms by (simp add: js_trim_def)
  then have l: "\<not> js_is_space (hd ?b)" by (metis hd_dropWhile dropWhile_eq_Nil_conv)
  have a: "?a \<noteq> []" using ne by (metis dropWhile.simps(1) rev.simps(1))
  then have h: "\<not> js_is_space (hd ?a)" by (metis hd_dropWhile dropWhile_eq_Nil_conv)
  have "suffix ?b (rev ?a)" by (rule suffix_dropWhile)
  then have "prefix (rev ?b) ?a" by (simp add: suffix_to_prefix)
  then have "hd (rev ?b) = hd ?a" using ne by (metis hd_append2 prefixE rev_is_Nil_conv)
  with l h show ?thesis using ne by (simp add: js_trim_def last_rev)
qed

lemma js_trim_idem [simp]: "js_trim (js_trim s) = js_trim s"
  using js_trim_ends [of s] by (intro js_trim_id) blast

section \<open>Parsed JSON\<close>

text \<open>Parsed JSON, with the absent property and the numbers that are not finite (which only a caller
  in the same process can pass).\<close>

datatype json = JUndefined | JNull | JBool bool | JNumber rat | JNotFinite | JString string
  | JArray "json list" | JObject "(string \<times> json) list"

definition json_field :: "(string \<times> json) list \<Rightarrow> string \<Rightarrow> json" where
  "json_field o' k = (case map_of o' k of None \<Rightarrow> JUndefined | Some v \<Rightarrow> v)"

text \<open>\<open>typeof j === "object" && j !== null\<close>, and reading a property of such a value (an array has none
  of the names the code reads).\<close>

definition json_is_object :: "json \<Rightarrow> bool" where
  "json_is_object j = (case j of JObject _ \<Rightarrow> True | JArray _ \<Rightarrow> True | _ \<Rightarrow> False)"

definition json_prop :: "json \<Rightarrow> string \<Rightarrow> json" where
  "json_prop j k = (case j of JObject fs \<Rightarrow> json_field fs k | _ \<Rightarrow> JUndefined)"

fun json_strings :: "json list \<Rightarrow> string list option" where
  "json_strings [] = Some []"
| "json_strings (j # js) = (case j of JString s \<Rightarrow> map_option (Cons s) (json_strings js) | _ \<Rightarrow> None)"

lemma json_strings_Some: "json_strings js = Some ss \<longleftrightarrow> js = map JString ss"
  by (induction js arbitrary: ss) (auto split: json.splits)

end
