(* ===== verification/Attribution.thy ===== *)
theory Attribution
  imports Naulon_Prelude
begin

text \<open>
  Attribution as settlement: \<open>packages/shared/src/attribution.ts\<close> (credits graph to author shares,
  the single on-chain recipient, the integer split of a toll and its settlement legs) and the
  publisher contract it consumes, \<open>packages/sdk/src/contract/credits.ts\<close> and \<open>wallet.ts\<close>.
\<close>

section \<open>Data\<close>

text \<open>
  A contributor is a leaf (a wallet, or none yet: a delegated payee) or a composite with members.
  The code reads absent members and an empty member list alike, so both are the empty list.
\<close>

datatype contributor =
  Contributor (c_author: string) (c_weight: "rat option") (c_wallet: "string option")
    (c_members: "contributor list")

record author_share =
  authorId :: string
  wallet :: string
  share :: rat

datatype attribution_error = ZeroWeights | SharesMalformed | NoPayees

section \<open>The publisher contract (credits.ts, wallet.ts)\<close>

definition is_hex_digit :: "char \<Rightarrow> bool" where
  "is_hex_digit c \<longleftrightarrow> (let n = of_char c :: nat in
     48 \<le> n \<and> n \<le> 57 \<or> 97 \<le> n \<and> n \<le> 102 \<or> 65 \<le> n \<and> n \<le> 70)"

definition wallet_re :: "string \<Rightarrow> bool" where
  "wallet_re s \<longleftrightarrow> length s = 42 \<and> take 2 s = ''0x'' \<and> list_all is_hex_digit (drop 2 s)"

definition burn_address :: string where
  "burn_address = ''0x'' @ replicate 40 (CHR ''0'')"

definition is_burn_address :: "string \<Rightarrow> bool" where
  "is_burn_address s \<longleftrightarrow> js_lower (js_trim s) = burn_address"

definition payee_wallet_schema :: "string \<Rightarrow> bool" where
  "payee_wallet_schema s \<longleftrightarrow> wallet_re s \<and> \<not> is_burn_address s"

fun contributor_schema :: "contributor \<Rightarrow> bool" where
  "contributor_schema (Contributor a w wal ms) \<longleftrightarrow>
     a \<noteq> [] \<and>
     (case w of None \<Rightarrow> True | Some q \<Rightarrow> 0 < q) \<and>
     (case wal of None \<Rightarrow> True | Some s \<Rightarrow> payee_wallet_schema s) \<and>
     list_all contributor_schema ms \<and>
     (wal = None \<or> ms = [])"

definition credits_schema :: "contributor list \<Rightarrow> bool" where
  "credits_schema cs \<longleftrightarrow> cs \<noteq> [] \<and> list_all contributor_schema cs"

section \<open>Resolving the graph\<close>

fun is_payable :: "contributor \<Rightarrow> bool" where
  "is_payable (Contributor a w wal ms) =
     (if ms \<noteq> [] then list_ex is_payable ms else wal \<noteq> None)"

definition weight_of :: "contributor \<Rightarrow> rat" where
  "weight_of c = (case c_weight c of None \<Rightarrow> 1 | Some w \<Rightarrow> w)"

text \<open>
  \<open>resolve_loop\<close> is the \<open>for\<close> loop over the payable contributors; an error thrown below
  stops it. The empty wallet string is falsy, so a leaf that carries it is counted as payable and
  then not pushed.
\<close>

function resolve_contributors :: "contributor list \<Rightarrow> rat \<Rightarrow> attribution_error + author_share list"
  and resolve_loop :: "contributor list \<Rightarrow> rat \<Rightarrow> rat \<Rightarrow> attribution_error + author_share list" where
  "resolve_contributors cs parentShare =
     (let payable = filter is_payable cs in
      if payable = [] then Inr []
      else let totalWeight = sum_list (map weight_of payable) in
      if totalWeight \<le> 0 then Inl ZeroWeights
      else resolve_loop payable totalWeight parentShare)"
| "resolve_loop [] totalWeight parentShare = Inr []"
| "resolve_loop (c # cs) totalWeight parentShare =
     (let localShare = weight_of c / totalWeight * parentShare in
      bind_sum
        (if c_members c \<noteq> [] then resolve_contributors (c_members c) localShare
         else (case c_wallet c of
                 None \<Rightarrow> Inr []
               | Some w \<Rightarrow> if w = [] then Inr []
                   else Inr [\<lparr>authorId = c_author c, wallet = w, share = localShare\<rparr>]))
        (\<lambda>out. bind_sum (resolve_loop cs totalWeight parentShare) (\<lambda>rest. Inr (out @ rest))))"
  by pat_completeness auto
termination
proof (relation "measure (case_sum (\<lambda>(cs, p). 2 * size_list size cs + 1) (\<lambda>(cs, t, p). 2 * size_list size cs))",
    goal_cases)
  case 1
  then show ?case by simp
next
  case (2 cs p x t)
  have "size_list size (filter is_payable cs) \<le> size_list size cs"
    by (induction cs) auto
  with 2 show ?case by simp
next
  case (3 c cs t p x)
  have "size_list size (c_members c) < size c" by (cases c) simp
  then show ?case by simp
next
  case (4 c cs t p x xa)
  then show ?case by simp
qed

declare resolve_contributors.simps [simp del]

text \<open>The key of the merge, with its NUL separator.\<close>

definition payee_key :: "string \<Rightarrow> string \<Rightarrow> string" where
  "payee_key a w = a @ CHR 0x00 # w"

definition merge_share :: "author_share \<Rightarrow> (string, author_share) js_map \<Rightarrow> (string, author_share) js_map" where
  "merge_share r m = (let k = payee_key (authorId r) (wallet r) in
     case map_of m k of
       Some e \<Rightarrow> AList.update k (e\<lparr>share := share e + share r\<rparr>) m
     | None \<Rightarrow> AList.update k r m)"

definition merge_shares :: "author_share list \<Rightarrow> author_share list" where
  "merge_shares rs = map snd (fold merge_share rs [])"

definition share_epsilon :: rat where
  "share_epsilon = 1 / 10 ^ 9"

definition resolve_payees :: "contributor list \<Rightarrow> attribution_error + author_share list" where
  "resolve_payees contributors =
     bind_sum (resolve_contributors contributors 1) (\<lambda>raw.
       let merged = merge_shares raw in
       if merged = [] then Inr merged
       else if \<bar>sum_list (map share merged) - 1\<bar> > share_epsilon then Inl SharesMalformed
       else Inr merged)"

section \<open>The on-chain recipient\<close>

datatype tie_break = TieWallet | TieInput

definition wallet_totals :: "author_share list \<Rightarrow> (string, rat) js_map" where
  "wallet_totals payees = fold (\<lambda>p m. map_add_at (wallet p) (share p) m) payees []"

definition primary_payee :: "author_share list \<Rightarrow> tie_break \<Rightarrow> attribution_error + string" where
  "primary_payee payees tb =
     (if payees = [] then Inl NoPayees
      else Inr (case tb of
          TieWallet \<Rightarrow> fst (hd (sort_key (\<lambda>(w, s). (- s, w)) (wallet_totals payees)))
        | TieInput \<Rightarrow> fst (hd (sort_key (\<lambda>(w, s). - s) (wallet_totals payees)))))"

section \<open>The integer split\<close>

record micro_allocation =
  ma_wallet :: string
  ma_authorId :: string
  micro :: int

definition floor_allocation :: "int \<Rightarrow> author_share \<Rightarrow> micro_allocation" where
  "floor_allocation totalMicro p =
     \<lparr>ma_wallet = wallet p, ma_authorId = authorId p, micro = \<lfloor>of_int totalMicro * share p\<rfloor>\<rparr>"

text \<open>
  \<open>order\<close> is a sorted list of references into \<open>allocations\<close>, so the loop's \<open>micro += 1\<close> shows
  in \<open>allocations\<close>. Here \<open>order\<close> is the sorted list of positions. The loop adds one unit per
  round to position \<open>i mod n\<close> while the remainder is positive, so \<open>hand_out\<close> is that loop.
\<close>

definition bump_at :: "nat \<Rightarrow> micro_allocation list \<Rightarrow> micro_allocation list" where
  "bump_at j as = (if j < length as then as[j := (as ! j)\<lparr>micro := micro (as ! j) + 1\<rparr>] else as)"

function hand_out :: "nat list \<Rightarrow> nat \<Rightarrow> int \<Rightarrow> micro_allocation list \<Rightarrow> micro_allocation list" where
  "hand_out order i remainder as =
     (if remainder > 0 \<and> order \<noteq> []
      then hand_out order (i + 1) (remainder - 1) (bump_at (order ! (i mod length order)) as)
      else as)"
  by pat_completeness auto
termination
  by (relation "measure (\<lambda>(order, i, r, as). nat r)") auto

declare hand_out.simps [simp del]

lemma hand_out_step:
  "r > 0 \<Longrightarrow> order \<noteq> [] \<Longrightarrow>
     hand_out order i r as = hand_out order (i + 1) (r - 1) (bump_at (order ! (i mod length order)) as)"
  by (subst hand_out.simps) simp

lemma hand_out_stop: "\<not> (r > 0 \<and> order \<noteq> []) \<Longrightarrow> hand_out order i r as = as"
  by (subst hand_out.simps) auto

definition desc_order :: "micro_allocation list \<Rightarrow> nat list" where
  "desc_order as = sort_key (\<lambda>j. - micro (as ! j)) [0..<length as]"

definition split_micro :: "int \<Rightarrow> author_share list \<Rightarrow> micro_allocation list" where
  "split_micro totalMicro payees =
     (let allocations = map (floor_allocation totalMicro) payees;
          assigned = sum_list (map micro allocations)
      in hand_out (desc_order allocations) 0 (totalMicro - assigned) allocations)"

definition fold_micro_by_wallet :: "micro_allocation list \<Rightarrow> (string, int) js_map" where
  "fold_micro_by_wallet as = fold (\<lambda>a m. map_add_at (ma_wallet a) (micro a) m) as []"

text \<open>\<open>Math.round\<close> rounds half up; an amount on the wire is a whole number of micro-units over a million.\<close>

definition js_round :: "rat \<Rightarrow> int" where
  "js_round x = \<lfloor>x + 1 / 2\<rfloor>"

definition micro_unit :: rat where
  "micro_unit = 1000000"

definition split_amount :: "rat \<Rightarrow> author_share list \<Rightarrow> (string \<times> string \<times> rat) list" where
  "split_amount amountUsdc payees =
     map (\<lambda>a. (ma_wallet a, ma_authorId a, of_int (micro a) / micro_unit))
       (split_micro (js_round (amountUsdc * micro_unit)) payees)"

section \<open>Settlement legs\<close>

record author_leg_split =
  primaryPayTo :: string
  primaryAmountMicro :: int
  coauthorLegs :: "(string \<times> int) list"

fun leg_loop :: "string \<Rightarrow> (string \<times> int) list \<Rightarrow> int \<Rightarrow> (string \<times> int) list \<Rightarrow> int \<times> (string \<times> int) list" where
  "leg_loop primary [] amount legs = (amount, legs)"
| "leg_loop primary ((w, m) # rest) amount legs =
     (if w = primary then leg_loop primary rest m legs
      else if m > 0 then leg_loop primary rest amount (legs @ [(w, m)])
      else leg_loop primary rest amount legs)"

definition split_author_legs :: "author_share list \<Rightarrow> int \<Rightarrow> tie_break \<Rightarrow> attribution_error + author_leg_split" where
  "split_author_legs payees atomicPrice tb =
     bind_sum (primary_payee payees tb) (\<lambda>primary.
       let perWallet = fold_micro_by_wallet (split_micro atomicPrice payees);
           (amount, legs) = leg_loop primary perWallet 0 []
       in Inr \<lparr>primaryPayTo = primary, primaryAmountMicro = amount, coauthorLegs = legs\<rparr>)"


section \<open>The split of a graph is exact\<close>

fun wallets_nonempty :: "contributor \<Rightarrow> bool" where
  "wallets_nonempty (Contributor a w wal ms) \<longleftrightarrow> wal \<noteq> Some [] \<and> list_all wallets_nonempty ms"

fun weights_positive :: "contributor \<Rightarrow> bool" where
  "weights_positive (Contributor a w wal ms) \<longleftrightarrow>
     (case w of None \<Rightarrow> True | Some q \<Rightarrow> 0 < q) \<and> list_all weights_positive ms"

lemma schema_wallets_nonempty: "contributor_schema c \<Longrightarrow> wallets_nonempty c"
  by (induction c) (auto simp: list_all_iff payee_wallet_schema_def wallet_re_def split: option.splits)

lemma schema_weights_positive: "contributor_schema c \<Longrightarrow> weights_positive c"
  by (induction c) (auto simp: list_all_iff split: option.splits)

lemma weight_of_pos: "weights_positive c \<Longrightarrow> 0 < weight_of c"
  by (cases c) (auto simp: weight_of_def split: option.splits)

lemma sum_weights_pos:
  "cs \<noteq> [] \<Longrightarrow> list_all weights_positive cs \<Longrightarrow> 0 < sum_list (map weight_of cs)"
proof (induction cs)
  case Nil
  then show ?case by simp
next
  case (Cons c cs)
  then show ?case
    by (cases "cs = []") (auto simp: weight_of_pos add_pos_pos)
qed

lemma members_props:
  "wallets_nonempty c \<Longrightarrow> list_all wallets_nonempty (c_members c)"
  "weights_positive c \<Longrightarrow> list_all weights_positive (c_members c)"
  "is_payable c \<Longrightarrow> c_members c \<noteq> [] \<Longrightarrow> \<exists>m \<in> set (c_members c). is_payable m"
  "is_payable c \<Longrightarrow> c_members c = [] \<Longrightarrow> c_wallet c \<noteq> None"
  "wallets_nonempty c \<Longrightarrow> c_wallet c \<noteq> Some []"
  by (cases c; auto simp: list_ex_iff split: if_splits)+

lemma list_all_filter: "list_all P xs \<Longrightarrow> list_all P (filter Q xs)"
  by (simp add: list_all_iff)

text \<open>No branch of the resolution throws when every weight is positive.\<close>

lemma resolve_total:
  "list_all weights_positive cs \<Longrightarrow> \<exists>out. resolve_contributors cs p = Inr out"
  "list_all weights_positive cs \<Longrightarrow> \<exists>out. resolve_loop cs t p = Inr out"
proof (induction cs p and cs t p rule: resolve_contributors_resolve_loop.induct)
  case (1 cs p)
  show ?case
  proof (cases "filter is_payable cs = []")
    case True
    then show ?thesis by (simp add: resolve_contributors.simps)
  next
    case False
    have w: "list_all weights_positive (filter is_payable cs)" using 1(2) by (rule list_all_filter)
    with False have "\<not> sum_list (map weight_of (filter is_payable cs)) \<le> 0"
      using sum_weights_pos by fastforce
    with 1 False w show ?thesis by (simp add: resolve_contributors.simps Let_def)
  qed
next
  case (2 t p)
  then show ?case by simp
next
  case (3 c cs t p)
  obtain rest where rest: "resolve_loop cs t p = Inr rest" using 3 by auto
  have "\<exists>out. (if c_members c \<noteq> [] then resolve_contributors (c_members c) (weight_of c / t * p)
      else (case c_wallet c of None \<Rightarrow> Inr [] | Some w \<Rightarrow> if w = [] then Inr []
             else Inr [\<lparr>authorId = c_author c, wallet = w, share = weight_of c / t * p\<rparr>])) = Inr out"
    using 3 by (auto simp: members_props split: option.splits)
  then show ?case by (auto simp: Let_def rest simp del: times_divide_eq_left)
qed

text \<open>What flows into a subtree is what its leaves receive.\<close>

lemma resolve_conserves:
  "list_all wallets_nonempty cs \<Longrightarrow> resolve_contributors cs p = Inr out \<Longrightarrow>
     sum_list (map share out) = (if filter is_payable cs = [] then 0 else p)"
  "list_all wallets_nonempty cs \<Longrightarrow> list_all is_payable cs \<Longrightarrow> t \<noteq> 0 \<Longrightarrow>
     resolve_loop cs t p = Inr out \<Longrightarrow>
     sum_list (map share out) = sum_list (map weight_of cs) / t * p"
proof (induction cs p and cs t p arbitrary: out and out
    rule: resolve_contributors_resolve_loop.induct)
  case (1 cs p)
  show ?case
  proof (cases "filter is_payable cs = []")
    case True
    with 1 show ?thesis by (auto simp: resolve_contributors.simps)
  next
    case False
    let ?pay = "filter is_payable cs" and ?t = "sum_list (map weight_of (filter is_payable cs))"
    from False "1.prems"(2) have t: "?t > 0" and r: "resolve_loop ?pay ?t p = Inr out"
      by (auto simp: resolve_contributors.simps Let_def split: if_splits)
    have "sum_list (map share out) = ?t / ?t * p"
      using "1.IH"[OF refl False refl _ _ _ _ r] t list_all_filter [OF "1.prems"(1)]
      by (simp add: list_all_iff)
    with t False show ?thesis by simp
  qed
next
  case (2 t p)
  then show ?case by simp
next
  case (3 c cs t p)
  let ?q = "weight_of c / t * p"
  from "3.prems"(4) obtain o1 rest where rest: "resolve_loop cs t p = Inr rest"
    and out: "out = o1 @ rest"
    and o1: "(if c_members c \<noteq> [] then resolve_contributors (c_members c) ?q
      else (case c_wallet c of None \<Rightarrow> Inr [] | Some w \<Rightarrow> if w = [] then Inr []
             else Inr [\<lparr>authorId = c_author c, wallet = w, share = ?q\<rparr>])) = Inr o1"
    by (auto simp: Let_def bind_sum_Inr_iff simp del: times_divide_eq_left)
  have "sum_list (map share rest) = sum_list (map weight_of cs) / t * p"
    using "3.IH"(2)[OF refl _ _ _ rest] "3.prems" o1 by simp
  moreover have "sum_list (map share o1) = ?q"
  proof (cases "c_members c = []")
    case True
    with o1 "3.prems" members_props(4,5)[of c] show ?thesis by (auto split: if_splits)
  next
    case False
    with o1 have r: "resolve_contributors (c_members c) ?q = Inr o1" by simp
    have "filter is_payable (c_members c) \<noteq> []"
      using members_props(3)[of c] False "3.prems"(2) by (auto simp: filter_empty_conv)
    with "3.IH"(1)[OF refl False _ r] members_props(1)[of c] "3.prems"(1) show ?thesis by simp
  qed
  ultimately show ?case using out "3.prems"(3) by (simp add: field_simps)
qed


text \<open>Merging equal (author, wallet) entries neither creates nor loses share.\<close>

lemma sum_share_update_found:
  assumes "map_of m k = Some e"
  shows "sum_list (map (share \<circ> snd) (AList.update k e' m)) =
    sum_list (map (share \<circ> snd) m) - share e + share e'"
  using assms by (induction m) (auto simp: algebra_simps split: if_splits)

lemma sum_merge_share:
  "sum_list (map (share \<circ> snd) (merge_share r m)) = sum_list (map (share \<circ> snd) m) + share r"
proof (cases "map_of m (payee_key (authorId r) (wallet r))")
  case None
  then have "payee_key (authorId r) (wallet r) \<notin> fst ` set m" by (simp add: map_of_eq_None_iff)
  with None show ?thesis by (simp add: merge_share_def update_fresh Let_def)
next
  case (Some e)
  then show ?thesis by (simp add: merge_share_def Let_def sum_share_update_found)
qed

lemma sum_fold_merge_share:
  "sum_list (map (share \<circ> snd) (fold merge_share rs m)) =
     sum_list (map (share \<circ> snd) m) + sum_list (map share rs)"
  by (induction rs arbitrary: m) (simp_all add: sum_merge_share)

lemma sum_merge_shares: "sum_list (map share (merge_shares rs)) = sum_list (map share rs)"
  using sum_fold_merge_share [of rs "[]"] by (simp add: merge_shares_def)

text \<open>Every merged entry sits under its own key, and the keys are those of the raw entries.\<close>

definition keyed :: "(string, author_share) js_map \<Rightarrow> bool" where
  "keyed m \<longleftrightarrow> distinct (map fst m) \<and> (\<forall>(k, e) \<in> set m. k = payee_key (authorId e) (wallet e))"

lemma keyed_update:
  assumes "keyed m" "k = payee_key (authorId e) (wallet e)"
  shows "keyed (AList.update k e m)"
proof -
  have sub: "set (AList.update k e m) \<subseteq> insert (k, e) (set m)" by (induction m) auto
  have "k' = payee_key (authorId e') (wallet e')" if "(k', e') \<in> set (AList.update k e m)" for k' e'
  proof (cases "(k', e') = (k, e)")
    case True
    with assms(2) show ?thesis by simp
  next
    case False
    with sub that have "(k', e') \<in> set m" by blast
    with assms(1) show ?thesis by (auto simp: keyed_def)
  qed
  moreover have "distinct (map fst (AList.update k e m))"
    using assms(1) by (simp add: keyed_def distinct_keys_update)
  ultimately show ?thesis by (auto simp: keyed_def)
qed

lemma keyed_merge_share: "keyed m \<Longrightarrow> keyed (merge_share r m)"
proof -
  assume k: "keyed m"
  let ?k = "payee_key (authorId r) (wallet r)"
  have "?k = payee_key (authorId e) (wallet e)" if "map_of m ?k = Some e" for e
    using k map_of_SomeD [OF that] by (auto simp: keyed_def)
  with k show ?thesis by (auto simp: merge_share_def Let_def intro!: keyed_update split: option.splits)
qed

lemma keyed_fold_merge: "keyed m \<Longrightarrow> keyed (fold merge_share rs m)"
  by (induction rs arbitrary: m) (auto simp: keyed_merge_share)

lemma distinct_payees: "distinct (map (\<lambda>p. payee_key (authorId p) (wallet p)) (merge_shares rs))"
proof -
  have k: "keyed (fold merge_share rs [])" by (rule keyed_fold_merge) (simp add: keyed_def)
  then have "map (\<lambda>p. payee_key (authorId p) (wallet p)) (merge_shares rs) = map fst (fold merge_share rs [])"
    by (auto simp: merge_shares_def keyed_def)
  with k show ?thesis by (simp add: keyed_def)
qed

lemma keys_merge_share:
  "fst ` set (merge_share r m) = insert (payee_key (authorId r) (wallet r)) (fst ` set m)"
  by (auto simp: merge_share_def Let_def keys_update split: option.splits)

lemma merge_shares_empty_iff: "merge_shares rs = [] \<longleftrightarrow> rs = []"
proof -
  have "fst ` set (fold merge_share rs m) = (\<lambda>r. payee_key (authorId r) (wallet r)) ` set rs \<union> fst ` set m" for m
    by (induction rs arbitrary: m) (auto simp: keys_merge_share)
  from this [of "[]"] show ?thesis by (auto simp: merge_shares_def)
qed

section \<open>The integer split is exact\<close>

lemma sum_bump_at:
  "j < length as \<Longrightarrow> sum_list (map micro (bump_at j as)) = sum_list (map micro as) + 1"
  by (simp add: bump_at_def map_update sum_list_upd)

lemma length_bump_at [simp]: "length (bump_at j as) = length as"
  by (simp add: bump_at_def)

lemma bump_at_frame:
  "map ma_wallet (bump_at j as) = map ma_wallet as"
  "map ma_authorId (bump_at j as) = map ma_authorId as"
  by (auto simp: bump_at_def map_update list_update_same_conv)

lemma hand_out_sum:
  "set order \<subseteq> {..<length as} \<Longrightarrow>
     sum_list (map micro (hand_out order i r as)) =
       sum_list (map micro as) + (if order = [] then 0 else max 0 r)"
proof (induction order i r as rule: hand_out.induct)
  case (1 order i r as)
  show ?case
  proof (cases "r > 0 \<and> order \<noteq> []")
    case True
    then have j: "order ! (i mod length order) < length as" using 1(2)
      by (metis lessThan_iff length_greater_0_conv mod_less_divisor nth_mem subsetD)
    from True show ?thesis
      using "1.IH" [OF True] 1(2) sum_bump_at [OF j]
      by (subst hand_out.simps) auto
  next
    case False
    then show ?thesis by (subst hand_out.simps) auto
  qed
qed

lemma hand_out_frame:
  "map ma_wallet (hand_out order i r as) = map ma_wallet as \<and>
   map ma_authorId (hand_out order i r as) = map ma_authorId as \<and>
   length (hand_out order i r as) = length as"
proof (induction order i r as rule: hand_out.induct)
  case (1 order i r as)
  then show ?case by (subst (1 2 3) hand_out.simps) (auto simp: bump_at_frame)
qed

lemma desc_order_set [simp]: "set (desc_order as) = {..<length as}"
  by (auto simp: desc_order_def)

lemma length_desc_order [simp]: "length (desc_order as) = length as"
  by (simp add: desc_order_def)

lemma distinct_desc_order: "distinct (desc_order as)"
  by (simp add: desc_order_def)

definition assigned_micro :: "int \<Rightarrow> author_share list \<Rightarrow> int" where
  "assigned_micro t ps = sum_list (map (\<lambda>p. \<lfloor>of_int t * share p\<rfloor>) ps)"

lemma micro_floor_allocation: "map micro (map (floor_allocation t) ps) = map (\<lambda>p. \<lfloor>of_int t * share p\<rfloor>) ps"
  by (simp add: floor_allocation_def)

lemma sum_split_micro:
  assumes "ps \<noteq> []" "assigned_micro t ps \<le> t"
  shows "sum_list (map micro (split_micro t ps)) = t"
proof -
  let ?as = "map (floor_allocation t) ps"
  have a: "sum_list (map micro ?as) = assigned_micro t ps"
    unfolding micro_floor_allocation assigned_micro_def ..
  have "desc_order ?as \<noteq> []" using assms(1) by (metis length_desc_order length_map length_0_conv)
  then show ?thesis using assms(2) a
    by (simp add: split_micro_def Let_def hand_out_sum)
qed

text \<open>The floors never exceed the total, and the remainder is smaller than the number of payees.\<close>

lemma floors_bounds:
  "of_int (assigned_micro t ps) \<le> of_int t * sum_list (map share ps)"
  "ps \<noteq> [] \<Longrightarrow> of_int t * sum_list (map share ps) < of_int (assigned_micro t ps) + of_nat (length ps)"
proof -
  show "of_int (assigned_micro t ps) \<le> of_int t * sum_list (map share ps)"
    by (induction ps) (auto simp: assigned_micro_def distrib_left intro: add_mono)
  show "ps \<noteq> [] \<Longrightarrow> of_int t * sum_list (map share ps) < of_int (assigned_micro t ps) + of_nat (length ps)"
  proof (induction ps)
    case Nil
    then show ?case by simp
  next
    case (Cons p ps)
    have f: "of_int t * share p < of_int \<lfloor>of_int t * share p\<rfloor> + (1::rat)" by linarith
    show ?case
    proof (cases "ps = []")
      case True
      with f show ?thesis by (simp add: assigned_micro_def)
    next
      case False
      with Cons.IH f show ?thesis by (simp add: assigned_micro_def distrib_left algebra_simps)
    qed
  qed
qed

lemma normalized_assigned:
  assumes "ps \<noteq> []" "sum_list (map share ps) = 1"
  shows "assigned_micro t ps \<le> t" "t - assigned_micro t ps < int (length ps)"
proof -
  have "of_int (assigned_micro t ps) \<le> (of_int t :: rat)" using floors_bounds(1)[of t ps] assms by simp
  then show "assigned_micro t ps \<le> t" by linarith
  have "(of_int t :: rat) < of_int (assigned_micro t ps) + of_nat (length ps)"
    using floors_bounds(2)[OF assms(1), of t] assms(2) by simp
  then have "(of_int t :: rat) < of_int (assigned_micro t ps + int (length ps))" by simp
  then show "t - assigned_micro t ps < int (length ps)" by linarith
qed


text \<open>With at most one unit per payee left to hand out, every allocation is its floor or one more.\<close>

lemma bump_at_nth:
  "k < length as \<Longrightarrow> micro (bump_at j as ! k) = micro (as ! k) + (if j = k then 1 else 0)"
  by (auto simp: bump_at_def nth_list_update)

lemma hand_out_ge:
  "k < length as \<Longrightarrow> micro (as ! k) \<le> micro (hand_out order i r as ! k)"
proof (induction order i r as rule: hand_out.induct)
  case (1 order i r as)
  show ?case
  proof (cases "r > 0 \<and> order \<noteq> []")
    case True
    then have "micro (bump_at (order ! (i mod length order)) as ! k) \<le> micro (hand_out order i r as ! k)"
      using "1.IH" [OF True] "1.prems" True by (simp add: hand_out_step)
    with "1.prems" show ?thesis by (simp add: bump_at_nth split: if_splits)
  next
    case False
    then show ?thesis by (simp add: hand_out_stop)
  qed
qed

lemma hand_out_le_once:
  assumes "distinct order" "i + nat r \<le> length order" "k < length as"
  shows "micro (hand_out order i r as ! k) \<le> micro (as ! k) + (if k \<in> set (drop i order) then 1 else 0)"
  using assms
proof (induction order i r as rule: hand_out.induct)
  case (1 order i r as)
  show ?case
  proof (cases "r > 0 \<and> order \<noteq> []")
    case True
    with "1.prems" have i: "i < length order" and m: "i mod length order = i" by auto
    have d: "drop i order = order ! i # drop (Suc i) order" using i by (rule Cons_nth_drop_Suc [symmetric])
    have notin: "order ! i \<notin> set (drop (Suc i) order)"
      using "1.prems"(1) d by (metis distinct.simps(2) distinct_drop)
    have "micro (hand_out order (i + 1) (r - 1) (bump_at (order ! i) as) ! k) \<le>
        micro (bump_at (order ! i) as ! k) + (if k \<in> set (drop (i + 1) order) then 1 else 0)"
      using "1.IH" [OF True] "1.prems" True m by (auto simp: nat_diff_distrib)
    with True m d notin "1.prems"(3) show ?thesis
      by (auto simp: hand_out_step bump_at_nth split: if_splits)
  next
    case False
    then show ?thesis by (simp add: hand_out_stop)
  qed
qed

lemma split_micro_length [simp]: "length (split_micro t ps) = length ps"
  by (simp add: split_micro_def Let_def hand_out_frame)

lemma split_micro_wallets: "map ma_wallet (split_micro t ps) = map wallet ps"
  by (simp add: split_micro_def Let_def hand_out_frame floor_allocation_def comp_def)

lemma split_micro_authors: "map ma_authorId (split_micro t ps) = map authorId ps"
  by (simp add: split_micro_def Let_def hand_out_frame floor_allocation_def comp_def)

lemma split_micro_ge: "k < length ps \<Longrightarrow> \<lfloor>of_int t * share (ps ! k)\<rfloor> \<le> micro (split_micro t ps ! k)"
  using hand_out_ge [of k "map (floor_allocation t) ps"]
  by (simp add: split_micro_def Let_def floor_allocation_def)

lemma split_micro_le:
  assumes "ps \<noteq> []" "sum_list (map share ps) = 1" "k < length ps"
  shows "micro (split_micro t ps ! k) \<le> \<lfloor>of_int t * share (ps ! k)\<rfloor> + 1"
proof -
  let ?as = "map (floor_allocation t) ps"
  have "nat (t - sum_list (map micro ?as)) \<le> length (desc_order ?as)"
    using normalized_assigned(2) [OF assms(1,2), of t]
    unfolding micro_floor_allocation assigned_micro_def by simp
  then have "micro (hand_out (desc_order ?as) 0 (t - sum_list (map micro ?as)) ?as ! k) \<le> micro (?as ! k) + 1"
    using hand_out_le_once [OF distinct_desc_order [of ?as], of 0 "t - sum_list (map micro ?as)" k ?as] assms(3)
    by (simp split: if_splits)
  with assms(3) show ?thesis by (simp add: split_micro_def Let_def floor_allocation_def)
qed

lemma split_micro_nonneg:
  assumes "\<forall>p \<in> set ps. 0 \<le> share p" "0 \<le> t" "a \<in> set (split_micro t ps)"
  shows "0 \<le> micro a"
proof -
  obtain k where k: "k < length ps" "a = split_micro t ps ! k"
    using assms(3) by (metis in_set_conv_nth split_micro_length)
  have "0 \<le> of_int t * share (ps ! k)" using assms(1,2) k(1) by simp
  then have "0 \<le> \<lfloor>of_int t * share (ps ! k)\<rfloor>" by simp
  also have "\<dots> \<le> micro a" using split_micro_ge [OF k(1), of t] k(2) by simp
  finally show ?thesis .
qed

section \<open>Folding onto wallets\<close>

lemma fold_map_add_at:
  fixes g :: "'a \<Rightarrow> 'v::ab_group_add"
  shows "sum_list (map snd (fold (\<lambda>a m. map_add_at (f a) (g a) m) as m0)) =
      sum_list (map snd m0) + sum_list (map g as)"
    and "distinct (map fst m0) \<Longrightarrow> distinct (map fst (fold (\<lambda>a m. map_add_at (f a) (g a) m) as m0))"
    and "fst ` set (fold (\<lambda>a m. map_add_at (f a) (g a) m) as m0) = f ` set as \<union> fst ` set m0"
  by (induction as arbitrary: m0)
    (simp_all add: sum_map_add_at distinct_map_add_at keys_map_add_at algebra_simps)

lemma fold_micro_sum: "sum_list (map snd (fold_micro_by_wallet as)) = sum_list (map micro as)"
  by (simp add: fold_micro_by_wallet_def fold_map_add_at)

lemma fold_micro_distinct: "distinct (map fst (fold_micro_by_wallet as))"
  by (simp add: fold_micro_by_wallet_def fold_map_add_at)

lemma fold_micro_keys: "fst ` set (fold_micro_by_wallet as) = ma_wallet ` set as"
  by (simp add: fold_micro_by_wallet_def fold_map_add_at)

lemma wallet_totals_keys: "fst ` set (wallet_totals ps) = wallet ` set ps"
  by (simp add: wallet_totals_def fold_map_add_at)

lemma wallet_totals_distinct: "distinct (map fst (wallet_totals ps))"
  by (simp add: wallet_totals_def fold_map_add_at)

lemma wallet_totals_sum: "sum_list (map snd (wallet_totals ps)) = sum_list (map share ps)"
  by (simp add: wallet_totals_def fold_map_add_at)

definition values_nonneg :: "('k, 'v::{zero,ord}) js_map \<Rightarrow> bool" where
  "values_nonneg m \<longleftrightarrow> list_all (\<lambda>e. 0 \<le> snd e) m"

lemma values_nonneg_update: "values_nonneg m \<Longrightarrow> 0 \<le> y \<Longrightarrow> values_nonneg (AList.update k y m)"
  by (induction m) (auto simp: values_nonneg_def)

lemma values_nonneg_add_at:
  fixes q :: "'v::ordered_ab_group_add"
  assumes "values_nonneg m" "0 \<le> q"
  shows "values_nonneg (map_add_at k q m)"
proof -
  have "0 \<le> x" if "map_of m k = Some x" for x
    using assms(1) map_of_SomeD [OF that] by (auto simp: values_nonneg_def list_all_iff)
  then show ?thesis using assms
    by (auto simp: map_add_at_def intro!: values_nonneg_update split: option.splits)
qed

lemma values_nonneg_fold:
  fixes g :: "'a \<Rightarrow> 'v::ordered_ab_group_add"
  shows "values_nonneg m0 \<Longrightarrow> \<forall>a \<in> set as. 0 \<le> g a \<Longrightarrow>
    values_nonneg (fold (\<lambda>a m. map_add_at (f a) (g a) m) as m0)"
  by (induction as arbitrary: m0) (auto simp: values_nonneg_add_at)

lemma fold_micro_nonneg:
  "\<forall>a \<in> set as. 0 \<le> micro a \<Longrightarrow> values_nonneg (fold_micro_by_wallet as)"
  unfolding fold_micro_by_wallet_def by (rule values_nonneg_fold) (auto simp: values_nonneg_def)


section \<open>Settlement legs pay the price out exactly\<close>

lemma leg_loop_absent:
  "primary \<notin> fst ` set m \<Longrightarrow>
     leg_loop primary m a legs = (a, legs @ filter (\<lambda>e. snd e > 0) m)"
  by (induction m arbitrary: legs) auto

lemma leg_loop_eq:
  "distinct (map fst m) \<Longrightarrow> map_of m primary = Some v \<Longrightarrow>
     leg_loop primary m a legs = (v, legs @ filter (\<lambda>e. fst e \<noteq> primary \<and> snd e > 0) m)"
proof (induction m arbitrary: a legs)
  case Nil
  then show ?case by simp
next
  case (Cons e m)
  obtain w x where e: "e = (w, x)" by (cases e)
  show ?case
  proof (cases "w = primary")
    case True
    with Cons.prems e have np: "primary \<notin> fst ` set m" and v: "v = x" by auto
    have "filter (\<lambda>e. fst e \<noteq> primary \<and> snd e > 0) m = filter (\<lambda>e. snd e > 0) m"
      using np by (intro filter_cong) auto
    with True e np v show ?thesis by (simp add: leg_loop_absent)
  next
    case False
    with Cons e show ?thesis by auto
  qed
qed

lemma sum_filter_pos:
  "values_nonneg m \<Longrightarrow>
     sum_list (map snd (filter (\<lambda>e. P e \<and> snd e > (0::int)) m)) = sum_list (map snd (filter P m))"
  by (induction m) (auto simp: values_nonneg_def)

lemma primary_payee_total: "ps \<noteq> [] \<Longrightarrow> \<exists>w. primary_payee ps tb = Inr w"
  by (simp add: primary_payee_def)

lemma primary_payee_in:
  assumes "primary_payee ps tb = Inr w"
  shows "w \<in> wallet ` set ps"
proof -
  have ne: "ps \<noteq> []" using assms by (auto simp: primary_payee_def)
  then have "wallet_totals ps \<noteq> []" using wallet_totals_keys [of ps] by auto
  then have "fst (hd (sort_key f (wallet_totals ps))) \<in> wallet ` set ps" for f :: "string \<times> rat \<Rightarrow> rat \<times> string"
    using hd_sort_key_in [of "wallet_totals ps" f] wallet_totals_keys [of ps] by blast
  moreover have "fst (hd (sort_key f (wallet_totals ps))) \<in> wallet ` set ps" for f :: "string \<times> rat \<Rightarrow> rat"
    using hd_sort_key_in [of "wallet_totals ps" f] wallet_totals_keys [of ps] \<open>wallet_totals ps \<noteq> []\<close> by blast
  ultimately show ?thesis using assms ne by (auto simp: primary_payee_def split: tie_break.splits)
qed

lemma split_author_legs_sum:
  assumes "ps \<noteq> []" "sum_list (map share ps) = 1" "\<forall>p \<in> set ps. 0 \<le> share p" "0 \<le> price"
  obtains s where "split_author_legs ps price tb = Inr s"
    and "primaryAmountMicro s + sum_list (map snd (coauthorLegs s)) = price"
    and "distinct (map fst (coauthorLegs s))"
    and "primaryPayTo s \<notin> fst ` set (coauthorLegs s)"
    and "\<forall>(w, m) \<in> set (coauthorLegs s). 0 < m \<and> w \<in> wallet ` set ps"
    and "primary_payee ps tb = Inr (primaryPayTo s)"
    and "0 \<le> primaryAmountMicro s"
proof -
  let ?m = "fold_micro_by_wallet (split_micro price ps)"
  obtain w where w: "primary_payee ps tb = Inr w" using primary_payee_total [OF assms(1)] by blast
  have keys: "fst ` set ?m = wallet ` set ps"
    by (metis fold_micro_keys list.set_map split_micro_wallets)
  obtain v where v: "map_of ?m w = Some v"
    using primary_payee_in [OF w] keys by (metis map_of_eq_None_iff not_None_eq)
  let ?legs = "filter (\<lambda>e. fst e \<noteq> w \<and> snd e > 0) ?m"
  let ?s = "\<lparr>primaryPayTo = w, primaryAmountMicro = v, coauthorLegs = ?legs\<rparr>"
  have s: "split_author_legs ps price tb = Inr ?s"
    by (simp add: split_author_legs_def w Let_def leg_loop_eq [OF fold_micro_distinct v])
  have nn: "values_nonneg ?m"
    using split_micro_nonneg [OF assms(3,4)] by (intro fold_micro_nonneg) blast
  have "sum_list (map snd ?m) = price"
    using sum_split_micro [OF assms(1) normalized_assigned(1) [OF assms(1,2)]] by (simp add: fold_micro_sum)
  then have sum: "v + sum_list (map snd ?legs) = price"
    using sum_split_key [OF fold_micro_distinct v] sum_filter_pos [OF nn, of "\<lambda>e. fst e \<noteq> w"] by simp
  have d: "distinct (map fst ?legs)" by (rule distinct_map_filter) (rule fold_micro_distinct)
  have "\<forall>(w, m) \<in> set ?legs. 0 < m \<and> w \<in> wallet ` set ps" using keys by force
  moreover have "0 \<le> v" using nn map_of_SomeD [OF v] by (auto simp: values_nonneg_def list_all_iff)
  ultimately show ?thesis using s sum d w by (intro that [of ?s]) auto
qed

lemma weight_share_nonneg:
  assumes "list_all weights_positive cs" "0 \<le> p"
  shows "resolve_contributors cs p = Inr out \<Longrightarrow> \<forall>r \<in> set out. 0 \<le> share r"
    and "0 < t \<Longrightarrow> resolve_loop cs t p = Inr out \<Longrightarrow> \<forall>r \<in> set out. 0 \<le> share r"
  using assms
proof (induction cs p and cs t p arbitrary: out and out rule: resolve_contributors_resolve_loop.induct)
  case (1 cs p)
  show ?case
  proof (cases "filter is_payable cs = []")
    case True
    with 1 show ?thesis by (auto simp: resolve_contributors.simps)
  next
    case False
    with 1 show ?thesis
      by (auto simp: resolve_contributors.simps Let_def list_all_filter split: if_splits)
  qed
next
  case (2 t p)
  then show ?case by simp
next
  case (3 c cs t p)
  let ?q = "weight_of c / t * p"
  from "3.prems"(2) obtain o1 rest where rest: "resolve_loop cs t p = Inr rest" and out: "out = o1 @ rest"
    and o1: "(if c_members c \<noteq> [] then resolve_contributors (c_members c) ?q
      else (case c_wallet c of None \<Rightarrow> Inr [] | Some w \<Rightarrow> if w = [] then Inr []
             else Inr [\<lparr>authorId = c_author c, wallet = w, share = ?q\<rparr>])) = Inr o1"
    by (auto simp: Let_def bind_sum_Inr_iff simp del: times_divide_eq_left)
  have q: "0 \<le> ?q" using "3.prems" weight_of_pos [of c] by simp
  have "\<forall>r \<in> set o1. 0 \<le> share r"
  proof (cases "c_members c = []")
    case True
    with o1 q show ?thesis by (auto split: option.splits if_splits)
  next
    case False
    with o1 "3.IH"(1) [OF refl False _ _ q] "3.prems"(3) members_props(2) [of c] show ?thesis by simp
  qed
  with "3.IH"(2) [OF refl "3.prems"(1) rest] "3.prems" out show ?case by auto
qed

lemma all_entries_update:
  "list_all (\<lambda>e. P (snd e)) m \<Longrightarrow> P y \<Longrightarrow> list_all (\<lambda>e. P (snd e)) (AList.update k y m)"
  by (induction m) auto

lemma merge_share_nonneg:
  assumes "list_all (\<lambda>e. 0 \<le> share (snd e)) m" "0 \<le> share r"
  shows "list_all (\<lambda>e. 0 \<le> share (snd e)) (merge_share r m)"
proof (cases "map_of m (payee_key (authorId r) (wallet r))")
  case None
  with assms show ?thesis
    by (simp add: merge_share_def Let_def all_entries_update [where P = "\<lambda>e. 0 \<le> share e"])
next
  case (Some e)
  then have "0 \<le> share e" using assms(1) map_of_SomeD [OF Some] by (force simp: list_all_iff)
  with Some assms show ?thesis
    by (simp add: merge_share_def Let_def all_entries_update [where P = "\<lambda>e. 0 \<le> share e"])
qed

lemma merge_shares_nonneg:
  assumes "\<forall>r \<in> set rs. 0 \<le> share r"
  shows "\<forall>r \<in> set (merge_shares rs). 0 \<le> share r"
proof -
  have "list_all (\<lambda>e. 0 \<le> share (snd e)) (fold merge_share rs m)"
    if "list_all (\<lambda>e. 0 \<le> share (snd e)) m" for m
    using assms that by (induction rs arbitrary: m) (simp_all add: merge_share_nonneg)
  from this [of "[]"] show ?thesis by (auto simp: merge_shares_def list_all_iff)
qed

section \<open>The recipient depends on who is credited, not on the order\<close>

definition wallet_share :: "author_share list \<Rightarrow> string \<Rightarrow> rat" where
  "wallet_share ps w = sum_list (map share (filter (\<lambda>p. wallet p = w) ps))"

lemma map_of_fold_add_at:
  fixes g :: "'a \<Rightarrow> 'v::ab_group_add"
  shows "map_of (fold (\<lambda>a m. map_add_at (f a) (g a) m) as m0) k =
    (if k \<in> f ` set as \<or> map_of m0 k \<noteq> None
     then Some ((case map_of m0 k of None \<Rightarrow> 0 | Some x \<Rightarrow> x) + sum_list (map g (filter (\<lambda>a. f a = k) as)))
     else None)"
  by (induction as arbitrary: m0) (auto simp: map_of_map_add_at algebra_simps split: option.splits)

lemma set_wallet_totals: "set (wallet_totals ps) = (\<lambda>w. (w, wallet_share ps w)) ` wallet ` set ps"
proof -
  have m: "map_of (wallet_totals ps) w = (if w \<in> wallet ` set ps then Some (wallet_share ps w) else None)" for w
    by (simp add: wallet_totals_def map_of_fold_add_at wallet_share_def)
  have "(w, s) \<in> set (wallet_totals ps) \<longleftrightarrow> map_of (wallet_totals ps) w = Some s" for w s
    using map_of_eq_Some_iff [OF wallet_totals_distinct] by metis
  then have "(w, s) \<in> set (wallet_totals ps) \<longleftrightarrow> w \<in> wallet ` set ps \<and> s = wallet_share ps w" for w s
    by (auto simp: m)
  then show ?thesis by auto
qed

lemma wallet_share_perm:
  assumes "mset ps = mset ps'"
  shows "wallet_share ps w = wallet_share ps' w"
proof -
  have "mset (map share (filter (\<lambda>p. wallet p = w) ps)) = mset (map share (filter (\<lambda>p. wallet p = w) ps'))"
    using assms by (simp only: mset_map mset_filter)
  then show ?thesis unfolding wallet_share_def by (metis sum_mset_sum_list)
qed

lemma hd_sort_key_eq:
  assumes "set xs = set ys" "xs \<noteq> []" "inj_on k (set xs)"
  shows "hd (sort_key k xs) = hd (sort_key k ys)"
proof -
  have ne: "ys \<noteq> []" using assms by auto
  have "k (hd (sort_key k xs)) \<le> k (hd (sort_key k ys))"
    using sort_key_hd_min [OF assms(2)] hd_sort_key_in [OF ne] assms(1) by metis
  moreover have "k (hd (sort_key k ys)) \<le> k (hd (sort_key k xs))"
    using sort_key_hd_min [OF ne] hd_sort_key_in [OF assms(2)] assms(1) by metis
  ultimately have "k (hd (sort_key k xs)) = k (hd (sort_key k ys))" by simp
  then show ?thesis
    using assms hd_sort_key_in [OF assms(2)] hd_sort_key_in [OF ne] by (metis inj_onD)
qed

lemma primary_payee_max:
  assumes "primary_payee ps tb = Inr w" "q \<in> set ps"
  shows "wallet_share ps (wallet q) \<le> wallet_share ps w"
proof -
  have ne: "wallet_totals ps \<noteq> []" using assms(2) wallet_totals_keys [of ps] by auto
  have q: "(wallet q, wallet_share ps (wallet q)) \<in> set (wallet_totals ps)"
    using assms(2) by (auto simp: set_wallet_totals)
  have pne: "ps \<noteq> []" using assms(2) by auto
  have top: "e \<in> set (wallet_totals ps) \<Longrightarrow> snd e = wallet_share ps (fst e)" for e
    by (auto simp: set_wallet_totals)
  show ?thesis
  proof (cases tb)
    case TieWallet
    let ?k = "\<lambda>(w, s). (- s, w) :: rat \<times> string" and ?h = "hd (sort_key (\<lambda>(w, s). (- s, w)) (wallet_totals ps))"
    have "?k ?h \<le> ?k (wallet q, wallet_share ps (wallet q))" by (rule sort_key_hd_min [OF ne q])
    then have "wallet_share ps (wallet q) \<le> snd ?h" by (cases ?h) (auto simp: less_eq_prod_def)
    with top [OF hd_sort_key_in [OF ne, of ?k]] assms(1) pne TieWallet show ?thesis
      by (auto simp: primary_payee_def)
  next
    case TieInput
    let ?k = "\<lambda>(w, s). - s :: rat" and ?h = "hd (sort_key (\<lambda>(w, s). - s) (wallet_totals ps))"
    have "?k ?h \<le> ?k (wallet q, wallet_share ps (wallet q))" by (rule sort_key_hd_min [OF ne q])
    then have "wallet_share ps (wallet q) \<le> snd ?h" by (cases ?h) auto
    with top [OF hd_sort_key_in [OF ne, of ?k]] assms(1) pne TieInput show ?thesis
      by (auto simp: primary_payee_def)
  qed
qed

lemma primary_payee_perm:
  assumes "mset ps = mset ps'"
  shows "primary_payee ps TieWallet = primary_payee ps' TieWallet"
proof (cases "ps = []")
  case True
  then show ?thesis using assms by simp
next
  case False
  then have ne: "wallet_totals ps \<noteq> []" using wallet_totals_keys [of ps] by auto
  have "set ps = set ps'" using assms by (metis set_mset_mset)
  then have "set (wallet_totals ps) = set (wallet_totals ps')"
    using wallet_share_perm [OF assms] by (simp add: set_wallet_totals)
  moreover have "inj_on (\<lambda>(w, s). (- s, w)) (set (wallet_totals ps))" by (auto simp: inj_on_def)
  ultimately show ?thesis
    using hd_sort_key_eq [OF _ ne, of "wallet_totals ps'" "\<lambda>(w, s). (- s, w)"] False assms
    by (auto simp: primary_payee_def)
qed

section \<open>Properties\<close>

lemma resolve_payees_cases:
  assumes "credits_schema cs"
  obtains ps where "resolve_payees cs = Inr ps"
    and "ps = [] \<longleftrightarrow> \<not> list_ex is_payable cs"
    and "ps \<noteq> [] \<Longrightarrow> sum_list (map share ps) = 1"
    and "\<forall>p \<in> set ps. 0 \<le> share p"
    and "distinct (map (\<lambda>p. payee_key (authorId p) (wallet p)) ps)"
proof -
  have w: "list_all wallets_nonempty cs" and p: "list_all weights_positive cs"
    using assms by (auto simp: credits_schema_def list_all_iff schema_wallets_nonempty schema_weights_positive)
  obtain raw where raw: "resolve_contributors cs 1 = Inr raw" using resolve_total(1) [OF p] by blast
  have sum: "sum_list (map share raw) = (if filter is_payable cs = [] then 0 else 1)"
    by (rule resolve_conserves(1) [OF w raw])
  have none: "raw = [] \<longleftrightarrow> filter is_payable cs = []"
    using sum raw by (auto simp: resolve_contributors.simps split: if_splits)
  have r: "resolve_payees cs = Inr (merge_shares raw)"
    using raw sum none by (auto simp: resolve_payees_def Let_def sum_merge_shares merge_shares_empty_iff share_epsilon_def)
  show ?thesis
    using that [OF r] none sum weight_share_nonneg(1) [OF p _ raw]
    by (auto simp: merge_shares_empty_iff sum_merge_shares merge_shares_nonneg distinct_payees
        filter_empty_conv list_ex_iff)
qed


text \<open>Concrete data for the witnesses: two wallets, and a credits graph with a nested team.\<close>

definition wallet_a :: string where "wallet_a = ''0x'' @ replicate 40 (CHR ''a'')"

definition wallet_b :: string where "wallet_b = ''0x'' @ replicate 40 (CHR ''b'')"

definition sample_credits :: "contributor list" where
  "sample_credits =
     [Contributor ''lead'' (Some 2) (Some wallet_b) [],
      Contributor ''team'' None None
        [Contributor ''writer'' None (Some wallet_a) [], Contributor ''ghost'' None None []]]"

lemma sample_credits_ok:
  "credits_schema sample_credits" "list_ex is_payable sample_credits"
  by code_simp+



text \<open>Resolving a graph that satisfies the contract never throws. It yields no payee exactly
  when nobody below is payable; otherwise the shares sum to one. Shares are never negative, and an
  (author, wallet) pair appears once.\<close>

theorem resolve_payees_normalized:
  assumes "credits_schema cs"
  shows "\<exists>ps. resolve_payees cs = Inr ps \<and> (ps = [] \<longleftrightarrow> \<not> list_ex is_payable cs) \<and>
    (ps = [] \<or> sum_list (map share ps) = 1) \<and> list_all (\<lambda>p. 0 \<le> share p) ps \<and>
    distinct (map (\<lambda>p. payee_key (authorId p) (wallet p)) ps)"
  by (rule resolve_payees_cases [OF assms]) (auto simp: list_all_iff)

theorem resolve_payees_normalized_witness:
  "\<exists>ps. resolve_payees sample_credits = Inr ps \<and> ps \<noteq> [] \<and> sum_list (map share ps) = 1"
  using resolve_payees_normalized [OF sample_credits_ok(1)] sample_credits_ok(2) by auto

text \<open>Splitting a total over payees whose shares sum to one keeps every unit: the allocations
  sum to the total, stay in the order of the payees, and each is the floor of its exact share or
  one unit more.\<close>

theorem split_micro_exact:
  assumes "ps \<noteq> []" "sum_list (map share ps) = 1"
  shows "sum_list (map micro (split_micro t ps)) = t \<and>
    map ma_wallet (split_micro t ps) = map wallet ps \<and>
    map ma_authorId (split_micro t ps) = map authorId ps \<and>
    (\<forall>k < length ps. micro (split_micro t ps ! k) - \<lfloor>of_int t * share (ps ! k)\<rfloor> \<in> {0, 1})"
proof -
  have "micro (split_micro t ps ! k) - \<lfloor>of_int t * share (ps ! k)\<rfloor> \<in> {0, 1}" if "k < length ps" for k
    using split_micro_ge [OF that, of t] split_micro_le [OF assms that, of t] by auto
  then show ?thesis
    using sum_split_micro [OF assms(1) normalized_assigned(1) [OF assms]] split_micro_wallets split_micro_authors
    by auto
qed

definition sample_payees :: "author_share list" where
  "sample_payees =
     [\<lparr>authorId = ''b'', wallet = wallet_b, share = 1 / 2\<rparr>,
      \<lparr>authorId = ''a'', wallet = wallet_a, share = 1 / 2\<rparr>]"

theorem split_micro_exact_witness:
  "map micro (split_micro 7 sample_payees) = [4, 3] \<and> sum_list (map micro (split_micro 7 sample_payees)) = 7"
proof -
  have "map micro (split_micro 7 sample_payees) = [4, 3]" by code_simp
  moreover have "sum_list (map micro (split_micro 7 sample_payees)) = 7"
    using split_micro_exact [of sample_payees 7] by (simp add: sample_payees_def)
  ultimately show ?thesis ..
qed

text \<open>The on-chain recipient is a credited wallet of the largest total share, and with the
  default tie-break it does not depend on the order in which the payees are listed.\<close>

theorem primary_payee_canonical:
  assumes "mset ps = mset ps'" "ps \<noteq> []"
  shows "\<exists>w. primary_payee ps TieWallet = Inr w \<and> primary_payee ps' TieWallet = Inr w \<and>
    w \<in> wallet ` set ps \<and> (\<forall>q \<in> set ps. wallet_share ps (wallet q) \<le> wallet_share ps w)"
proof -
  obtain w where w: "primary_payee ps TieWallet = Inr w" using primary_payee_total [OF assms(2)] by blast
  moreover have "primary_payee ps' TieWallet = Inr w" using w primary_payee_perm [OF assms(1)] by simp
  ultimately show ?thesis using primary_payee_in [OF w] primary_payee_max [OF w] by blast
qed

theorem primary_payee_canonical_witness:
  "primary_payee sample_payees TieWallet = Inr wallet_a \<and>
   primary_payee (rev sample_payees) TieWallet = Inr wallet_a"
proof -
  have "primary_payee sample_payees TieWallet = Inr wallet_a" by code_simp
  with primary_payee_canonical [of sample_payees "rev sample_payees"] show ?thesis
    by (simp add: sample_payees_def)
qed

text \<open>Units dropped by rounding go to the first of the largest allocations, not to the primary
  recipient: with a one-unit toll and equal shares the primary leg can be zero while a co-author
  takes the whole toll.\<close>

lemma rounding_unit_misses_primary:
  "split_author_legs sample_payees 1 TieWallet =
     Inr \<lparr>primaryPayTo = wallet_a, primaryAmountMicro = 0, coauthorLegs = [(wallet_b, 1)]\<rparr>"
  by code_simp

end
