(* ===== verification/Batch.thy ===== *)
theory Batch
  imports Attribution
begin

text \<open>
  Batching of cuts into payouts: \<open>packages/attribution/src/batch.ts\<close>. Events are expanded into one
  cut per payee, cuts accrue per wallet, and a wallet is paid once it clears the minimum.
\<close>

section \<open>Model\<close>

definition micro_per_usdc :: rat where
  "micro_per_usdc = 1000000"

record attributed_event =
  ev_id :: string
  ev_amount :: rat
  ev_payees :: "author_share list"

record cut =
  cut_eventId :: string
  cut_authorId :: string
  cut_wallet :: string
  cut_micro :: int

record payout =
  po_authorId :: string
  po_wallet :: string
  po_micro :: int
  po_eventIds :: "string list"

text \<open>The \<open>forEach\<close> over the sorted parts: \<open>remainder\<close> is decremented for every part.\<close>

fun for_each_bump :: "nat list \<Rightarrow> int \<Rightarrow> micro_allocation list \<Rightarrow> micro_allocation list" where
  "for_each_bump [] r as = as"
| "for_each_bump (j # js) r as = for_each_bump js (r - 1) (if r > 0 then bump_at j as else as)"

definition expand_parts :: "int \<Rightarrow> author_share list \<Rightarrow> micro_allocation list" where
  "expand_parts totalMicro payees =
     (let parts = map (floor_allocation totalMicro) payees;
          remainder = totalMicro - sum_list (map micro parts)
      in for_each_bump (desc_order parts) remainder parts)"

definition expand_event :: "attributed_event \<Rightarrow> cut list" where
  "expand_event e =
     map (\<lambda>p. \<lparr>cut_eventId = ev_id e, cut_authorId = ma_authorId p, cut_wallet = ma_wallet p,
               cut_micro = micro p\<rparr>)
       (expand_parts (js_round (ev_amount e * micro_per_usdc)) (ev_payees e))"

definition expand_cuts :: "attributed_event list \<Rightarrow> cut list" where
  "expand_cuts events = concat (map expand_event events)"

text \<open>The first cut seen for a wallet fixes its author; later ones add money and event ids.\<close>

definition accrue :: "cut \<Rightarrow> (string, payout) js_map \<Rightarrow> (string, payout) js_map" where
  "accrue c m = (case map_of m (cut_wallet c) of
     Some acc \<Rightarrow> AList.update (cut_wallet c)
       (acc\<lparr>po_micro := po_micro acc + cut_micro c, po_eventIds := po_eventIds acc @ [cut_eventId c]\<rparr>) m
   | None \<Rightarrow> AList.update (cut_wallet c)
       \<lparr>po_authorId = cut_authorId c, po_wallet = cut_wallet c, po_micro = cut_micro c,
        po_eventIds = [cut_eventId c]\<rparr> m)"

text \<open>The amount a payout carries on the wire is \<open>micro / 1e6\<close>; the sort is on it, descending.\<close>

definition amount_usdc :: "payout \<Rightarrow> rat" where
  "amount_usdc p = of_int (po_micro p) / micro_per_usdc"

definition batch_cuts :: "cut list \<Rightarrow> rat \<Rightarrow> payout list \<times> payout list" where
  "batch_cuts cuts minPayoutUsdc =
     (let byWallet = fold accrue cuts [];
          minMicro = js_round (minPayoutUsdc * micro_per_usdc);
          values = map snd byWallet
      in (sort_key (\<lambda>p. - amount_usdc p) (filter (\<lambda>a. po_micro a \<ge> minMicro) values),
          filter (\<lambda>a. \<not> po_micro a \<ge> minMicro) values))"

definition batch_payouts :: "attributed_event list \<Rightarrow> rat \<Rightarrow> payout list \<times> payout list" where
  "batch_payouts events minPayoutUsdc = batch_cuts (expand_cuts events) minPayoutUsdc"

section \<open>The two splits agree\<close>

lemma for_each_bump_nonpos: "r \<le> 0 \<Longrightarrow> for_each_bump js r as = as"
  by (induction js arbitrary: r) auto

lemma for_each_bump_hand_out:
  assumes "i + nat r \<le> length order"
  shows "for_each_bump (drop i order) r as = hand_out order i r as"
  using assms
proof (induction order i r as rule: hand_out.induct)
  case (1 order i r as)
  show ?case
  proof (cases "r > 0")
    case True
    with 1(2) have i: "i < length order" by auto
    then have ne: "order \<noteq> []" by auto
    have d: "drop i order = order ! i # drop (i + 1) order"
      using i Cons_nth_drop_Suc [of i order] by simp
    have "for_each_bump (drop (i + 1) order) (r - 1) (bump_at (order ! i) as) =
        hand_out order (i + 1) (r - 1) (bump_at (order ! i) as)"
      using 1(1) ne True 1(2) i by (simp add: nat_diff_distrib)
    with True d i ne show ?thesis by (simp add: hand_out_step)
  next
    case False
    then show ?thesis by (simp add: for_each_bump_nonpos hand_out_stop)
  qed
qed

lemma expand_parts_split_micro:
  assumes "ps \<noteq> []" "sum_list (map share ps) = 1"
  shows "expand_parts t ps = split_micro t ps"
proof -
  let ?as = "map (floor_allocation t) ps"
  have "0 + nat (t - sum_list (map micro ?as)) \<le> length (desc_order ?as)"
    using normalized_assigned(2) [OF assms, of t]
    unfolding micro_floor_allocation assigned_micro_def by simp
  from for_each_bump_hand_out [OF this, of ?as] show ?thesis
    by (simp add: expand_parts_def split_micro_def Let_def)
qed

section \<open>Accrual\<close>

lemma sum_accrue: "sum_list (map (po_micro \<circ> snd) (accrue c m)) = sum_list (map (po_micro \<circ> snd) m) + cut_micro c"
proof (cases "map_of m (cut_wallet c)")
  case None
  then have "cut_wallet c \<notin> fst ` set m" by (simp add: map_of_eq_None_iff)
  with None show ?thesis by (simp add: accrue_def update_fresh)
next
  case (Some acc)
  have "sum_list (map (po_micro \<circ> snd) (AList.update k y m)) =
      sum_list (map (po_micro \<circ> snd) m) - po_micro x + po_micro y" if "map_of m k = Some x" for k x y
    using that by (induction m) (auto split: if_splits)
  with Some show ?thesis by (simp add: accrue_def)
qed

lemma sum_fold_accrue:
  "sum_list (map (po_micro \<circ> snd) (fold accrue cs m)) =
     sum_list (map (po_micro \<circ> snd) m) + sum_list (map cut_micro cs)"
  by (induction cs arbitrary: m) (simp_all add: sum_accrue)

definition wallet_keyed :: "(string, payout) js_map \<Rightarrow> bool" where
  "wallet_keyed m \<longleftrightarrow> distinct (map fst m) \<and> list_all (\<lambda>e. po_wallet (snd e) = fst e) m"

lemma wallet_keyed_update:
  "wallet_keyed m \<Longrightarrow> po_wallet p = k \<Longrightarrow> wallet_keyed (AList.update k p m)"
proof -
  assume a: "wallet_keyed m" "po_wallet p = k"
  have "list_all (\<lambda>e. po_wallet (snd e) = fst e) m \<Longrightarrow>
      list_all (\<lambda>e. po_wallet (snd e) = fst e) (AList.update k p m)"
    using a(2) by (induction m) auto
  with a show ?thesis by (simp add: wallet_keyed_def distinct_keys_update)
qed

lemma wallet_keyed_accrue: "wallet_keyed m \<Longrightarrow> wallet_keyed (accrue c m)"
proof (cases "map_of m (cut_wallet c)")
  case None
  assume "wallet_keyed m"
  with None show ?thesis by (simp add: accrue_def wallet_keyed_update)
next
  case (Some acc)
  assume k: "wallet_keyed m"
  then have "po_wallet acc = cut_wallet c"
    using map_of_SomeD [OF Some] by (auto simp: wallet_keyed_def list_all_iff)
  with Some k show ?thesis by (simp add: accrue_def wallet_keyed_update)
qed

lemma wallet_keyed_fold: "wallet_keyed m \<Longrightarrow> wallet_keyed (fold accrue cs m)"
  by (induction cs arbitrary: m) (simp_all add: wallet_keyed_accrue)

lemma keys_fold_accrue: "fst ` set (fold accrue cs m) = cut_wallet ` set cs \<union> fst ` set m"
  by (induction cs arbitrary: m) (auto simp: accrue_def keys_update split: option.splits)

lemma wallet_keyed_wallets: "wallet_keyed m \<Longrightarrow> map po_wallet (map snd m) = map fst m"
  by (induction m) (auto simp: wallet_keyed_def)

text \<open>Every event id credited to a wallet is one of its cuts, and each cut is credited once.\<close>

lemma accrue_events:
  "map_of (fold accrue cs m) w =
     (if w \<in> cut_wallet ` set cs \<or> map_of m w \<noteq> None then
        Some \<lparr>po_authorId = (case map_of m w of Some p \<Rightarrow> po_authorId p
                | None \<Rightarrow> cut_authorId (hd (filter (\<lambda>c. cut_wallet c = w) cs))),
              po_wallet = (case map_of m w of Some p \<Rightarrow> po_wallet p | None \<Rightarrow> w),
              po_micro = (case map_of m w of Some p \<Rightarrow> po_micro p | None \<Rightarrow> 0) +
                sum_list (map cut_micro (filter (\<lambda>c. cut_wallet c = w) cs)),
              po_eventIds = (case map_of m w of Some p \<Rightarrow> po_eventIds p | None \<Rightarrow> []) @
                map cut_eventId (filter (\<lambda>c. cut_wallet c = w) cs)\<rparr>
      else None)"
proof (induction cs arbitrary: m)
  case Nil
  then show ?case by (cases "map_of m w") auto
next
  case (Cons c cs)
  then show ?case
    by (cases "map_of m w"; cases "cut_wallet c = w")
      (auto simp: accrue_def map_of_update split: option.splits)
qed

lemma batch_values:
  "set (map snd (fold accrue cuts [])) =
     {p. map_of (fold accrue cuts []) (po_wallet p) = Some p}"
proof -
  have k: "wallet_keyed (fold accrue cuts [])" by (rule wallet_keyed_fold) (simp add: wallet_keyed_def)
  then have d: "distinct (map fst (fold accrue cuts []))" by (simp add: wallet_keyed_def)
  have "p \<in> set (map snd (fold accrue cuts [])) \<longleftrightarrow> (po_wallet p, p) \<in> set (fold accrue cuts [])" for p
    using k by (force simp: wallet_keyed_def list_all_iff)
  then show ?thesis using map_of_eq_Some_iff [OF d] by auto
qed


section \<open>Properties\<close>

text \<open>The batch expansion of an event and the gateway's integer split are the same function on
  payees whose shares sum to one, although one loops over the remainder and the other over the
  payees; so an accrued cut is what the gateway would have paid.\<close>

theorem expand_event_is_split:
  assumes "ev_payees e \<noteq> []" "sum_list (map share (ev_payees e)) = 1"
  shows "map cut_micro (expand_event e) =
      map micro (split_micro (js_round (ev_amount e * micro_per_usdc)) (ev_payees e)) \<and>
    map cut_wallet (expand_event e) = map wallet (ev_payees e) \<and>
    sum_list (map cut_micro (expand_event e)) = js_round (ev_amount e * micro_per_usdc)"
proof -
  let ?t = "js_round (ev_amount e * micro_per_usdc)"
  have eq: "map cut_micro (expand_event e) = map micro (split_micro ?t (ev_payees e))"
    by (simp add: expand_event_def expand_parts_split_micro [OF assms] comp_def)
  have "map cut_wallet (expand_event e) = map wallet (ev_payees e)"
    by (simp add: expand_event_def expand_parts_split_micro [OF assms] comp_def split_micro_wallets [unfolded comp_def])
  with eq show ?thesis using sum_split_micro [OF assms(1) normalized_assigned(1) [OF assms]] by simp
qed

theorem expand_event_is_split_witness:
  "sum_list (map cut_micro (expand_event \<lparr>ev_id = ''e'', ev_amount = 3 / 1000000, ev_payees = sample_payees\<rparr>)) = 3"
proof -
  have "js_round (3 / 1000000 * micro_per_usdc) = 3" by code_simp
  moreover have "sum_list (map share sample_payees) = 1" "sample_payees \<noteq> []" by (simp_all add: sample_payees_def)
  ultimately show ?thesis
    using expand_event_is_split [of "\<lparr>ev_id = ''e'', ev_amount = 3 / 1000000, ev_payees = sample_payees\<rparr>",
        THEN conjunct2, THEN conjunct2] by simp
qed

text \<open>Batching neither creates nor loses money and pays a wallet once. Payouts and deferred
  entries together hold exactly one entry per wallet that has a cut, whose amount is the sum of
  that wallet's cuts and whose event ids are those of its cuts in order; the payouts are those
  that clear the minimum, sorted by amount downwards.\<close>

theorem batch_cuts_correct:
  assumes "batch_cuts cuts m = (payouts, deferred)"
  shows "sum_list (map po_micro (payouts @ deferred)) = sum_list (map cut_micro cuts) \<and>
    distinct (map po_wallet (payouts @ deferred)) \<and>
    po_wallet ` set (payouts @ deferred) = cut_wallet ` set cuts \<and>
    (\<forall>p \<in> set (payouts @ deferred).
       po_micro p = sum_list (map cut_micro (filter (\<lambda>c. cut_wallet c = po_wallet p) cuts)) \<and>
       po_eventIds p = map cut_eventId (filter (\<lambda>c. cut_wallet c = po_wallet p) cuts)) \<and>
    (\<forall>p \<in> set payouts. js_round (m * micro_per_usdc) \<le> po_micro p) \<and>
    (\<forall>p \<in> set deferred. po_micro p < js_round (m * micro_per_usdc)) \<and>
    sorted (rev (map po_micro payouts))"
proof -
  let ?m = "fold accrue cuts []" and ?min = "js_round (m * micro_per_usdc)"
  let ?v = "map snd ?m"
  have po: "payouts = sort_key (\<lambda>p. - amount_usdc p) (filter (\<lambda>a. po_micro a \<ge> ?min) ?v)"
    and de: "deferred = filter (\<lambda>a. \<not> po_micro a \<ge> ?min) ?v"
    using assms by (auto simp: batch_cuts_def Let_def)
  have k: "wallet_keyed ?m" by (rule wallet_keyed_fold) (simp add: wallet_keyed_def)
  have ms: "mset (payouts @ deferred) = mset ?v" unfolding po de by simp
  then have st: "set (payouts @ deferred) = set ?v" by (metis set_mset_mset)
  have sums: "sum_list (map po_micro (payouts @ deferred)) = sum_list (map cut_micro cuts)"
    using ms sum_fold_accrue [of cuts "[]"] by (metis mset_map sum_mset_sum_list map_map sum_list.Nil list.map(1) add_0)
  have wl: "map po_wallet ?v = map fst ?m" by (rule wallet_keyed_wallets [OF k])
  then have "distinct (map po_wallet ?v)" using k unfolding wallet_keyed_def by metis
  then have d: "distinct (map po_wallet (payouts @ deferred))" using ms by (metis mset_eq_imp_distinct_iff mset_map)
  have "po_wallet ` set ?v = fst ` set ?m" using wl by (metis list.set_map)
  then have ws: "po_wallet ` set (payouts @ deferred) = cut_wallet ` set cuts"
    using st keys_fold_accrue [of cuts "[]"] by simp
  have each: "po_micro p = sum_list (map cut_micro (filter (\<lambda>c. cut_wallet c = po_wallet p) cuts)) \<and>
       po_eventIds p = map cut_eventId (filter (\<lambda>c. cut_wallet c = po_wallet p) cuts)"
    if "p \<in> set (payouts @ deferred)" for p
  proof -
    have "map_of ?m (po_wallet p) = Some p" using that st batch_values by blast
    then show ?thesis using accrue_events [of cuts "[]" "po_wallet p"] by (auto split: if_splits)
  qed
  have "sorted (map (\<lambda>p. - amount_usdc p) payouts)" unfolding po by simp
  then have "sorted_wrt (\<lambda>p q. po_micro q \<le> po_micro p) payouts"
    unfolding sorted_map by (rule sorted_wrt_mono_rel [rotated]) (simp add: amount_usdc_def micro_per_usdc_def divide_le_cancel)
  then have "sorted (rev (map po_micro payouts))" by (simp add: sorted_wrt_rev sorted_wrt_map)
  moreover have "\<forall>p \<in> set payouts. ?min \<le> po_micro p" "\<forall>p \<in> set deferred. po_micro p < ?min"
    unfolding po de by auto
  ultimately show ?thesis using sums d ws each by blast
qed

definition sample_cuts :: "cut list" where
  "sample_cuts =
     [\<lparr>cut_eventId = ''e1'', cut_authorId = ''a'', cut_wallet = ''wa'', cut_micro = 2\<rparr>,
      \<lparr>cut_eventId = ''e1'', cut_authorId = ''b'', cut_wallet = ''wb'', cut_micro = 1\<rparr>,
      \<lparr>cut_eventId = ''e2'', cut_authorId = ''a'', cut_wallet = ''wa'', cut_micro = 3\<rparr>]"

theorem batch_cuts_correct_witness:
  "map po_micro (fst (batch_cuts sample_cuts (5 / 1000000))) = [5] \<and>
   map po_micro (snd (batch_cuts sample_cuts (5 / 1000000))) = [1] \<and>
   sum_list (map po_micro (fst (batch_cuts sample_cuts (5 / 1000000)) @ snd (batch_cuts sample_cuts (5 / 1000000)))) = 6"
proof -
  have "map po_micro (fst (batch_cuts sample_cuts (5 / 1000000))) = [5] \<and>
      map po_micro (snd (batch_cuts sample_cuts (5 / 1000000))) = [1]" by code_simp
  moreover have "sum_list (map cut_micro sample_cuts) = 6" by (simp add: sample_cuts_def)
  ultimately show ?thesis
    using batch_cuts_correct [of sample_cuts "5 / 1000000" "fst (batch_cuts sample_cuts (5 / 1000000))"
        "snd (batch_cuts sample_cuts (5 / 1000000))"] by simp
qed

text \<open>Shares that do not sum to one: the expansion hands out at most one unit per payee, so the cuts
  then fall short of the event's amount.\<close>

lemma expand_parts_short:
  "sum_list (map micro (expand_parts 10 [\<lparr>authorId = ''a'', wallet = wallet_a, share = 1 / 2\<rparr>])) = 6"
  by code_simp

end
