(* ===== verification/StateStore.thy ===== *)
theory StateStore
  imports Naulon_Prelude
begin

text \<open>
  The gate's key-value state, \<open>packages/shared/src/state/store.ts\<close>: the interface
  \<open>GateStateStore\<close>, its memory backend and its file backend, and the first boot that fills in the
  secrets (\<open>packages/tollgate/src/state/bootstrap.ts\<close>). The interface is the record \<open>state_ops\<close>;
  what its clients rely on is the locale \<open>state_store\<close>, and both backends are interpretations of
  it. Values are a type parameter: the code stores text, most of it the JSON of a record.
\<close>

section \<open>The interface\<close>

datatype store_error = InvalidKey | KeyVanished | IoError | MalformedValue

record ('s, 'v) state_ops =
  so_get :: "'s \<Rightarrow> string \<Rightarrow> store_error + 'v option"
  so_create :: "'s \<Rightarrow> string \<Rightarrow> 'v \<Rightarrow> store_error + 'v \<times> 's"
  so_put :: "'s \<Rightarrow> string \<Rightarrow> 'v \<Rightarrow> store_error + 's"
  so_delete :: "'s \<Rightarrow> string \<Rightarrow> store_error + 's"
  so_list :: "'s \<Rightarrow> string \<Rightarrow> store_error + (string \<times> 'v) list"

text \<open>\<open>/^[a-z][a-z0-9_.:-]{0,190}$/\<close>.\<close>

definition is_lower_alpha :: "char \<Rightarrow> bool" where
  "is_lower_alpha c \<longleftrightarrow> CHR ''a'' \<le> c \<and> c \<le> CHR ''z''"

definition key_char :: "char \<Rightarrow> bool" where
  "key_char c \<longleftrightarrow> is_lower_alpha c \<or> is_digit c \<or> c \<in> set ''_.:-''"

definition valid_key :: "string \<Rightarrow> bool" where
  "valid_key k \<longleftrightarrow> (case k of [] \<Rightarrow> False
     | c # cs \<Rightarrow> is_lower_alpha c \<and> list_all key_char cs \<and> length cs \<le> 190)"

definition check_key :: "string \<Rightarrow> store_error + unit" where
  "check_key k = (if valid_key k then Inr () else Inl InvalidKey)"

lemma check_key_simps [simp]:
  "valid_key k \<Longrightarrow> check_key k = Inr ()"
  "\<not> valid_key k \<Longrightarrow> check_key k = Inl InvalidKey"
  by (simp_all add: check_key_def)

section \<open>What a client relies on\<close>

text \<open>
  \<open>abs\<close> reads a backend's state as a map from keys to values. \<open>create\<close> is the only operation whose
  result depends on what is stored: it answers the value now held, whoever wrote it.
\<close>

locale state_store =
  fixes ops :: "('s, 'v) state_ops"
    and inv :: "'s \<Rightarrow> bool"
    and abs :: "'s \<Rightarrow> string \<Rightarrow> 'v option"
  assumes bad_key: "\<not> valid_key k \<Longrightarrow> so_get ops s k = Inl InvalidKey \<and>
      so_create ops s k v = Inl InvalidKey \<and> so_put ops s k v = Inl InvalidKey \<and>
      so_delete ops s k = Inl InvalidKey"
    and get_abs: "inv s \<Longrightarrow> valid_key k \<Longrightarrow> so_get ops s k = Inr (abs s k)"
    and create_held: "inv s \<Longrightarrow> valid_key k \<Longrightarrow> abs s k = Some h \<Longrightarrow>
      \<exists>s'. so_create ops s k v = Inr (h, s') \<and> inv s' \<and> abs s' = abs s"
    and create_new: "inv s \<Longrightarrow> valid_key k \<Longrightarrow> abs s k = None \<Longrightarrow>
      \<exists>s'. so_create ops s k v = Inr (v, s') \<and> inv s' \<and> abs s' = (abs s)(k := Some v)"
    and put_abs: "inv s \<Longrightarrow> valid_key k \<Longrightarrow>
      \<exists>s'. so_put ops s k v = Inr s' \<and> inv s' \<and> abs s' = (abs s)(k := Some v)"
    and delete_abs: "inv s \<Longrightarrow> valid_key k \<Longrightarrow>
      \<exists>s'. so_delete ops s k = Inr s' \<and> inv s' \<and> abs s' = (abs s)(k := None)"
    and list_abs: "inv s \<Longrightarrow> \<exists>es. so_list ops s p = Inr es \<and> distinct (map fst es) \<and>
      (\<forall>k v. (k, v) \<in> set es \<longleftrightarrow> prefix p k \<and> abs s k = Some v)"
    and abs_keys: "inv s \<Longrightarrow> abs s k = Some v \<Longrightarrow> valid_key k"
begin

text \<open>The same laws read from a call that succeeded.\<close>

lemma get_ok: "inv s \<Longrightarrow> so_get ops s k = Inr x \<Longrightarrow> x = abs s k \<and> valid_key k"
  using bad_key get_abs by (metis Inl_Inr_False sum.inject(2))

lemma put_ok:
  assumes "inv s" "so_put ops s k v = Inr s'"
  shows "inv s' \<and> abs s' = (abs s)(k := Some v) \<and> valid_key k"
proof -
  have "valid_key k" using assms(2) bad_key by (metis Inl_Inr_False)
  then show ?thesis using put_abs [OF assms(1), of k v] assms(2) by auto
qed

lemma delete_ok:
  assumes "inv s" "so_delete ops s k = Inr s'"
  shows "inv s' \<and> abs s' = (abs s)(k := None) \<and> valid_key k"
proof -
  have "valid_key k" using assms(2) bad_key by (metis Inl_Inr_False)
  then show ?thesis using delete_abs [OF assms(1), of k] assms(2) by auto
qed

lemma create_ok:
  assumes "inv s" "so_create ops s k v = Inr (h, s')"
  shows "inv s' \<and> valid_key k \<and> (abs s k = None \<and> h = v \<and> abs s' = (abs s)(k := Some v) \<or>
    abs s k = Some h \<and> abs s' = abs s)"
proof -
  have k: "valid_key k" using assms(2) bad_key by (metis Inl_Inr_False)
  show ?thesis
    using create_new [OF assms(1) k, of v] create_held [OF assms(1) k, of _ v] assms(2) k
    by (cases "abs s k") auto
qed

lemma list_ok:
  assumes "inv s" "so_list ops s p = Inr es"
  shows "distinct (map fst es) \<and> (\<forall>k v. (k, v) \<in> set es \<longleftrightarrow> prefix p k \<and> abs s k = Some v)"
  using list_abs [OF assms(1), of p] assms(2) by auto

text \<open>Whoever writes first wins, and everyone else reads the winner.\<close>

lemma create_converges:
  assumes "inv s" "so_create ops s k v = Inr (h, s1)"
  shows "\<exists>s2. so_create ops s1 k w = Inr (h, s2) \<and> inv s2 \<and> abs s2 = abs s1"
  using create_ok [OF assms] create_held [of s1 k h w] by auto

end

section \<open>The memory backend\<close>

definition mem_get :: "(string, 'v) js_map \<Rightarrow> string \<Rightarrow> store_error + 'v option" where
  "mem_get rows k = bind_sum (check_key k) (\<lambda>_. Inr (map_of rows k))"

definition mem_create :: "(string, 'v) js_map \<Rightarrow> string \<Rightarrow> 'v \<Rightarrow> store_error + 'v \<times> (string, 'v) js_map" where
  "mem_create rows k v = bind_sum (check_key k) (\<lambda>_.
     case map_of rows k of Some held \<Rightarrow> Inr (held, rows) | None \<Rightarrow> Inr (v, AList.update k v rows))"

definition mem_put :: "(string, 'v) js_map \<Rightarrow> string \<Rightarrow> 'v \<Rightarrow> store_error + (string, 'v) js_map" where
  "mem_put rows k v = bind_sum (check_key k) (\<lambda>_. Inr (AList.update k v rows))"

definition mem_delete :: "(string, 'v) js_map \<Rightarrow> string \<Rightarrow> store_error + (string, 'v) js_map" where
  "mem_delete rows k = bind_sum (check_key k) (\<lambda>_. Inr (AList.delete k rows))"

text \<open>\<open>localeCompare\<close> is the host's collation: the collation key is a parameter.\<close>

definition mem_list :: "(string \<Rightarrow> string) \<Rightarrow> (string, 'v) js_map \<Rightarrow> string \<Rightarrow> store_error + (string \<times> 'v) list" where
  "mem_list collate rows p = Inr (sort_key (\<lambda>e. collate (fst e)) (filter (\<lambda>e. prefix p (fst e)) rows))"

definition memory_state_store :: "(string \<Rightarrow> string) \<Rightarrow> ((string, 'v) js_map, 'v) state_ops" where
  "memory_state_store collate =
     \<lparr>so_get = mem_get, so_create = mem_create, so_put = mem_put, so_delete = mem_delete,
      so_list = mem_list collate\<rparr>"

definition mem_inv :: "(string, 'v) js_map \<Rightarrow> bool" where
  "mem_inv rows \<longleftrightarrow> distinct (map fst rows) \<and> list_all (\<lambda>e. valid_key (fst e)) rows"

lemma mem_inv_update: "mem_inv rows \<Longrightarrow> valid_key k \<Longrightarrow> mem_inv (AList.update k v rows)"
proof -
  assume a: "mem_inv rows" "valid_key k"
  have "list_all (\<lambda>e. valid_key (fst e)) rows \<Longrightarrow> list_all (\<lambda>e. valid_key (fst e)) (AList.update k v rows)"
    using a(2) by (induction rows) auto
  with a show ?thesis by (simp add: mem_inv_def distinct_keys_update)
qed

lemma mem_inv_delete: "mem_inv rows \<Longrightarrow> mem_inv (AList.delete k rows)"
proof -
  assume a: "mem_inv rows"
  have "set (AList.delete k rows) \<subseteq> set rows" by (auto simp: AList.delete_eq)
  with a show ?thesis
    unfolding mem_inv_def list_all_iff by (blast intro: distinct_keys_delete)
qed

lemma map_of_delete: "map_of (AList.delete k m) = (map_of m)(k := None)"
  by (rule delete_conv')

interpretation mem: state_store "memory_state_store collate" mem_inv map_of
proof unfold_locales
  fix s :: "(string, 'v) js_map" and p
  assume i: "mem_inv s"
  let ?es = "sort_key (\<lambda>e. collate (fst e)) (filter (\<lambda>e. prefix p (fst e)) s)"
  have d: "distinct (map fst s)" using i by (simp add: mem_inv_def)
  have "mset (map fst ?es) = mset (map fst (filter (\<lambda>e. prefix p (fst e)) s))"
    by (metis mset_map mset_sort)
  then have "distinct (map fst ?es)"
    using distinct_map_filter [OF d] by (metis mset_eq_imp_distinct_iff)
  moreover have "(k, v) \<in> set ?es \<longleftrightarrow> prefix p k \<and> map_of s k = Some v" for k v
    using map_of_eq_Some_iff [OF d] by auto
  ultimately show "\<exists>es. so_list (memory_state_store collate) s p = Inr es \<and> distinct (map fst es) \<and>
      (\<forall>k v. (k, v) \<in> set es \<longleftrightarrow> prefix p k \<and> map_of s k = Some v)"
    by (auto simp: memory_state_store_def mem_list_def)
next
  fix s :: "(string, 'v) js_map" and k v
  assume "mem_inv s" "map_of s k = Some v"
  then show "valid_key k" by (auto simp: mem_inv_def list_all_iff dest: map_of_SomeD)
qed (auto simp: memory_state_store_def mem_get_def mem_create_def mem_put_def mem_delete_def
    mem_inv_update mem_inv_delete map_of_update map_of_delete)


section \<open>The file backend\<close>

text \<open>
  A directory maps file names to contents; \<open>disk_draw\<close> counts the draws of the random temporary
  names, which are the parameter \<open>hex\<close> (\<open>randomBytes(8).toString("hex")\<close>).
\<close>

record 'v disk =
  disk_files :: "(string, 'v) js_map"
  disk_draw :: nat

definition file_of :: "string \<Rightarrow> string" where
  "file_of key = map (\<lambda>c. if c = CHR '':'' then CHR ''~'' else c) key @ ''.v''"

definition key_of :: "string \<Rightarrow> string option" where
  "key_of f = (if suffix ''.v'' f
     then Some (map (\<lambda>c. if c = CHR ''~'' then CHR '':'' else c) (take (length f - 2) f)) else None)"

definition temp_name :: "string \<Rightarrow> string" where
  "temp_name h = ''.'' @ h @ ''.tmp''"

definition write_temp :: "(nat \<Rightarrow> string) \<Rightarrow> 'v disk \<Rightarrow> 'v \<Rightarrow> store_error + string \<times> 'v disk" where
  "write_temp hex d v = (let tmp = temp_name (hex (disk_draw d)) in
     if tmp \<in> fst ` set (disk_files d) then Inl IoError
     else Inr (tmp, \<lparr>disk_files = AList.update tmp v (disk_files d), disk_draw = disk_draw d + 1\<rparr>))"

definition fs_remove :: "'v disk \<Rightarrow> string \<Rightarrow> 'v disk" where
  "fs_remove d f = d\<lparr>disk_files := AList.delete f (disk_files d)\<rparr>"

text \<open>\<open>linkSync\<close> refuses an existing target; \<open>renameSync\<close> replaces it.\<close>

definition fs_link :: "'v disk \<Rightarrow> string \<Rightarrow> string \<Rightarrow> 'v disk option" where
  "fs_link d tmp target = (case map_of (disk_files d) target of Some _ \<Rightarrow> None
     | None \<Rightarrow> (case map_of (disk_files d) tmp of None \<Rightarrow> None
         | Some c \<Rightarrow> Some (d\<lparr>disk_files := AList.update target c (disk_files d)\<rparr>)))"

definition fs_rename :: "'v disk \<Rightarrow> string \<Rightarrow> string \<Rightarrow> 'v disk" where
  "fs_rename d tmp target = (case map_of (disk_files d) tmp of None \<Rightarrow> d
     | Some c \<Rightarrow> d\<lparr>disk_files := AList.update target c (AList.delete tmp (disk_files d))\<rparr>)"

definition file_read :: "'v disk \<Rightarrow> string \<Rightarrow> 'v option" where
  "file_read d k = map_of (disk_files d) (file_of k)"

definition file_get :: "'v disk \<Rightarrow> string \<Rightarrow> store_error + 'v option" where
  "file_get d k = bind_sum (check_key k) (\<lambda>_. Inr (file_read d k))"

definition file_create :: "(nat \<Rightarrow> string) \<Rightarrow> 'v disk \<Rightarrow> string \<Rightarrow> 'v \<Rightarrow> store_error + 'v \<times> 'v disk" where
  "file_create hex d k v = bind_sum (check_key k) (\<lambda>_.
     bind_sum (write_temp hex d v) (\<lambda>(tmp, d1).
       case fs_link d1 tmp (file_of k) of
         Some d2 \<Rightarrow> Inr (v, fs_remove d2 tmp)
       | None \<Rightarrow> (case file_read d1 k of
             None \<Rightarrow> Inl KeyVanished
           | Some held \<Rightarrow> Inr (held, fs_remove d1 tmp))))"

definition file_put :: "(nat \<Rightarrow> string) \<Rightarrow> 'v disk \<Rightarrow> string \<Rightarrow> 'v \<Rightarrow> store_error + 'v disk" where
  "file_put hex d k v = bind_sum (check_key k) (\<lambda>_.
     bind_sum (write_temp hex d v) (\<lambda>(tmp, d1). Inr (fs_rename d1 tmp (file_of k))))"

definition file_delete :: "'v disk \<Rightarrow> string \<Rightarrow> store_error + 'v disk" where
  "file_delete d k = bind_sum (check_key k) (\<lambda>_. Inr (fs_remove d (file_of k)))"

fun file_entries :: "'v disk \<Rightarrow> string \<Rightarrow> string list \<Rightarrow> (string \<times> 'v) list" where
  "file_entries d p [] = []"
| "file_entries d p (f # fs) = (case key_of f of
     None \<Rightarrow> file_entries d p fs
   | Some k \<Rightarrow> if \<not> prefix p k then file_entries d p fs
       else (case file_read d k of None \<Rightarrow> file_entries d p fs
         | Some v \<Rightarrow> (k, v) # file_entries d p fs))"

definition file_list :: "'v disk \<Rightarrow> string \<Rightarrow> store_error + (string \<times> 'v) list" where
  "file_list d p = Inr (file_entries d p (sort (map fst (disk_files d))))"

definition file_state_store :: "(nat \<Rightarrow> string) \<Rightarrow> ('v disk, 'v) state_ops" where
  "file_state_store hex =
     \<lparr>so_get = file_get, so_create = file_create hex, so_put = file_put hex,
      so_delete = file_delete, so_list = file_list\<rparr>"

text \<open>
  Besides the files of keys a directory may hold temporary files a crash left behind; none of them
  has a name that is still to be drawn.
\<close>

definition disk_inv :: "(nat \<Rightarrow> string) \<Rightarrow> 'v disk \<Rightarrow> bool" where
  "disk_inv hex d \<longleftrightarrow> distinct (map fst (disk_files d)) \<and>
     (\<forall>f \<in> fst ` set (disk_files d). \<not> suffix ''.v'' f \<or> (\<exists>k. valid_key k \<and> f = file_of k)) \<and>
     (\<forall>n \<ge> disk_draw d. temp_name (hex n) \<notin> fst ` set (disk_files d))"

definition disk_abs :: "'v disk \<Rightarrow> string \<Rightarrow> 'v option" where
  "disk_abs d k = (if valid_key k then file_read d k else None)"

section \<open>The file backend keeps the contract\<close>

lemma valid_key_no_tilde: "valid_key k \<Longrightarrow> CHR ''~'' \<notin> set k"
  by (auto simp: valid_key_def key_char_def is_lower_alpha_def is_digit_def list_all_iff split: list.splits)

lemma file_of_suffix [simp]: "suffix ''.v'' (file_of k)"
  unfolding file_of_def by (rule suffixI) (rule refl)

lemma temp_not_file [simp]: "\<not> suffix ''.v'' (temp_name h)" "temp_name h \<noteq> file_of k" "file_of k \<noteq> temp_name h"
proof -
  show n: "\<not> suffix ''.v'' (temp_name h)" by (auto simp: temp_name_def suffix_def)
  show "temp_name h \<noteq> file_of k" "file_of k \<noteq> temp_name h" using n file_of_suffix by metis+
qed

lemma key_of_file_of: "valid_key k \<Longrightarrow> key_of (file_of k) = Some k"
proof -
  assume "valid_key k"
  then have nt: "c \<in> set k \<Longrightarrow> c \<noteq> CHR ''~''" for c using valid_key_no_tilde by auto
  have "map (\<lambda>c. if c = CHR ''~'' then CHR '':'' else c)
      (map (\<lambda>c. if c = CHR '':'' then CHR ''~'' else c) k) = k"
    unfolding map_map using nt by (intro map_idI) auto
  moreover have "take (length (file_of k) - 2) (file_of k) = map (\<lambda>c. if c = CHR '':'' then CHR ''~'' else c) k"
    by (simp add: file_of_def)
  ultimately show ?thesis by (simp only: key_of_def file_of_suffix if_True)
qed

lemma file_of_inj: "valid_key k \<Longrightarrow> valid_key k' \<Longrightarrow> file_of k = file_of k' \<longleftrightarrow> k = k'"
  by (metis key_of_file_of option.inject)

lemma keys_delete: "fst ` set (AList.delete k m) = fst ` set m - {k}"
  by (auto simp: AList.delete_eq)

lemma write_temp_ok:
  assumes "disk_inv hex d"
  shows "write_temp hex d v = Inr (temp_name (hex (disk_draw d)),
    \<lparr>disk_files = AList.update (temp_name (hex (disk_draw d))) v (disk_files d), disk_draw = disk_draw d + 1\<rparr>)"
proof -
  have "temp_name (hex (disk_draw d)) \<notin> fst ` set (disk_files d)"
    using assms unfolding disk_inv_def by (metis order_refl)
  then show ?thesis unfolding write_temp_def Let_def by (simp only: if_False)
qed

lemma disk_inv_grow:
  assumes "disk_inv hex d" "distinct (map fst fs)" "disk_draw d \<le> n"
    and "fst ` set fs \<subseteq> insert (file_of k) (fst ` set (disk_files d))" "valid_key k"
  shows "disk_inv hex \<lparr>disk_files = fs, disk_draw = n\<rparr>"
proof -
  have f: "\<not> suffix ''.v'' f \<or> (\<exists>k. valid_key k \<and> f = file_of k)" if "f \<in> fst ` set fs" for f
  proof (cases "f = file_of k")
    case True
    with assms(5) show ?thesis by (intro disjI2 exI [of _ k] conjI)
  next
    case False
    have "f \<in> insert (file_of k) (fst ` set (disk_files d))" using assms(4) that by (rule subsetD)
    with False have "f \<in> fst ` set (disk_files d)" by (simp only: insert_iff simp_thms)
    with assms(1) show ?thesis unfolding disk_inv_def by (elim conjE) (rule bspec)
  qed
  have "temp_name (hex m) \<notin> fst ` set fs" if "m \<ge> n" for m
  proof
    assume "temp_name (hex m) \<in> fst ` set fs"
    then have "temp_name (hex m) \<in> insert (file_of k) (fst ` set (disk_files d))"
      using assms(4) by (rule rev_subsetD)
    then have i: "temp_name (hex m) \<in> fst ` set (disk_files d)"
      by (simp only: insert_iff temp_not_file simp_thms)
    have "disk_draw d \<le> m" using assms(3) that by simp
    with assms(1) have "temp_name (hex m) \<notin> fst ` set (disk_files d)"
      unfolding disk_inv_def by (elim conjE allE impE)
    with i show False by (rule notE [rotated])
  qed
  with f assms(2) show ?thesis
    unfolding disk_inv_def disk.simps by (intro conjI ballI allI impI)
qed

lemma file_abs_simps:
  "valid_key k \<Longrightarrow> disk_abs d k = map_of (disk_files d) (file_of k)"
  "disk_abs d k = None \<Longrightarrow> valid_key k \<Longrightarrow> map_of (disk_files d) (file_of k) = None"
  by (simp_all add: disk_abs_def file_read_def)

lemma disk_abs_eqI:
  assumes "\<And>k. valid_key k \<Longrightarrow> map_of (disk_files d') (file_of k) = F k" "\<And>k. \<not> valid_key k \<Longrightarrow> F k = None"
  shows "disk_abs d' = F"
  using assms by (auto simp: disk_abs_def file_read_def)

lemma file_create_held:
  assumes i: "disk_inv hex d" and k: "valid_key k" and h: "disk_abs d k = Some h"
  shows "\<exists>d'. file_create hex d k v = Inr (h, d') \<and> disk_inv hex d' \<and> disk_abs d' = disk_abs d"
proof -
  let ?t = "temp_name (hex (disk_draw d))"
  let ?d1 = "\<lparr>disk_files = AList.update ?t v (disk_files d), disk_draw = disk_draw d + 1\<rparr>"
  have r: "map_of (disk_files ?d1) (file_of k) = Some h"
    using h k by (simp add: file_abs_simps map_of_update)
  then have "file_create hex d k v = Inr (h, fs_remove ?d1 ?t)"
    using k write_temp_ok [OF i, of v] by (simp add: file_create_def fs_link_def file_read_def)
  moreover have "disk_inv hex (fs_remove ?d1 ?t)"
    using i unfolding fs_remove_def
    by (simp, intro disk_inv_grow [OF i _ _ _ k])
      (auto simp: keys_delete keys_update disk_inv_def distinct_keys_update distinct_keys_delete)
  moreover have "disk_abs (fs_remove ?d1 ?t) = disk_abs d"
    by (rule disk_abs_eqI) (auto simp: fs_remove_def map_of_delete map_of_update disk_abs_def file_read_def)
  ultimately show ?thesis by blast
qed

lemma file_create_new:
  assumes i: "disk_inv hex d" and k: "valid_key k" and h: "disk_abs d k = None"
  shows "\<exists>d'. file_create hex d k v = Inr (v, d') \<and> disk_inv hex d' \<and> disk_abs d' = (disk_abs d)(k := Some v)"
proof -
  let ?t = "temp_name (hex (disk_draw d))"
  let ?d1 = "\<lparr>disk_files = AList.update ?t v (disk_files d), disk_draw = disk_draw d + 1\<rparr>"
  let ?d2 = "?d1\<lparr>disk_files := AList.update (file_of k) v (disk_files ?d1)\<rparr>"
  have "map_of (disk_files ?d1) (file_of k) = None"
    using file_abs_simps(2) [OF h k] by (simp add: map_of_update)
  then have "file_create hex d k v = Inr (v, fs_remove ?d2 ?t)"
    using k write_temp_ok [OF i, of v] by (simp add: file_create_def fs_link_def map_of_update)
  moreover have "disk_inv hex (fs_remove ?d2 ?t)"
    using i unfolding fs_remove_def
    by (simp, intro disk_inv_grow [OF i _ _ _ k])
      (auto simp: keys_delete keys_update disk_inv_def distinct_keys_update distinct_keys_delete)
  moreover have "disk_abs (fs_remove ?d2 ?t) = (disk_abs d)(k := Some v)"
    using k by (intro disk_abs_eqI)
      (auto simp: fs_remove_def map_of_delete map_of_update disk_abs_def file_read_def file_of_inj)
  ultimately show ?thesis by blast
qed

lemma file_put_ok:
  assumes i: "disk_inv hex d" and k: "valid_key k"
  shows "\<exists>d'. file_put hex d k v = Inr d' \<and> disk_inv hex d' \<and> disk_abs d' = (disk_abs d)(k := Some v)"
proof -
  let ?t = "temp_name (hex (disk_draw d))"
  let ?d1 = "\<lparr>disk_files = AList.update ?t v (disk_files d), disk_draw = disk_draw d + 1\<rparr>"
  let ?d2 = "?d1\<lparr>disk_files := AList.update (file_of k) v (AList.delete ?t (disk_files ?d1))\<rparr>"
  have "file_put hex d k v = Inr ?d2"
    using k write_temp_ok [OF i, of v] by (simp add: file_put_def fs_rename_def map_of_update)
  moreover have "disk_inv hex ?d2"
    using i by (simp, intro disk_inv_grow [OF i _ _ _ k])
      (auto simp: keys_delete keys_update disk_inv_def distinct_keys_update distinct_keys_delete)
  moreover have "disk_abs ?d2 = (disk_abs d)(k := Some v)"
    using k by (intro disk_abs_eqI)
      (auto simp: map_of_delete map_of_update disk_abs_def file_read_def file_of_inj)
  ultimately show ?thesis by blast
qed

lemma file_delete_ok:
  assumes i: "disk_inv hex d" and k: "valid_key k"
  shows "\<exists>d'. file_delete d k = Inr d' \<and> disk_inv hex d' \<and> disk_abs d' = (disk_abs d)(k := None)"
proof -
  have "file_delete d k = Inr (fs_remove d (file_of k))" using k by (simp add: file_delete_def)
  moreover have "disk_inv hex (fs_remove d (file_of k))"
    using i by (cases d, simp add: fs_remove_def, intro disk_inv_grow [OF i _ _ _ k])
      (auto simp: keys_delete disk_inv_def distinct_keys_delete)
  moreover have "disk_abs (fs_remove d (file_of k)) = (disk_abs d)(k := None)"
    using k by (intro disk_abs_eqI)
      (auto simp: fs_remove_def map_of_delete disk_abs_def file_read_def file_of_inj)
  ultimately show ?thesis by blast
qed

lemma set_file_entries:
  "set (file_entries d p fs) = {(k, v). \<exists>f \<in> set fs. key_of f = Some k \<and> prefix p k \<and> file_read d k = Some v}"
  by (induction fs) (auto split: option.splits)

lemma distinct_file_entries:
  assumes "distinct fs" "\<forall>f \<in> set fs. \<not> suffix ''.v'' f \<or> (\<exists>k. valid_key k \<and> f = file_of k)"
  shows "distinct (map fst (file_entries d p fs))"
  using assms
proof (induction fs)
  case Nil
  then show ?case by simp
next
  case (Cons f fs)
  have "k \<notin> fst ` set (file_entries d p fs)" if k: "key_of f = Some k" for k
  proof
    assume "k \<in> fst ` set (file_entries d p fs)"
    then obtain g where g: "g \<in> set fs" "key_of g = Some k" by (auto simp: set_file_entries)
    have sf: "suffix ''.v'' f" "suffix ''.v'' g" using k g by (auto simp: key_of_def split: if_splits)
    then obtain a b where a: "valid_key a" "f = file_of a" and b: "valid_key b" "g = file_of b"
      using Cons.prems(2) g(1) by auto
    then have "a = b" using k g(2) by (simp add: key_of_file_of)
    with a b g(1) Cons.prems(1) show False by simp
  qed
  with Cons show ?case by (auto split: option.splits)
qed

lemma file_list_ok:
  assumes "disk_inv hex d"
  shows "\<exists>es. file_list d p = Inr es \<and> distinct (map fst es) \<and>
    (\<forall>k v. (k, v) \<in> set es \<longleftrightarrow> prefix p k \<and> disk_abs d k = Some v)"
proof -
  let ?fs = "sort (map fst (disk_files d))"
  have "distinct ?fs" "\<forall>f \<in> set ?fs. \<not> suffix ''.v'' f \<or> (\<exists>k. valid_key k \<and> f = file_of k)"
    using assms by (auto simp: disk_inv_def)
  then have dist: "distinct (map fst (file_entries d p ?fs))" by (rule distinct_file_entries)
  have "(\<exists>f \<in> set ?fs. key_of f = Some k) \<and> file_read d k = Some v \<longleftrightarrow> disk_abs d k = Some v" for k v
  proof
    assume a: "(\<exists>f \<in> set ?fs. key_of f = Some k) \<and> file_read d k = Some v"
    then obtain f where f: "f \<in> set ?fs" "key_of f = Some k" by auto
    then have "suffix ''.v'' f" by (auto simp: key_of_def split: if_splits)
    then obtain a where "valid_key a" "f = file_of a" using assms f(1) by (auto simp: disk_inv_def)
    with f(2) have "valid_key k" by (simp add: key_of_file_of)
    with a show "disk_abs d k = Some v" by (simp add: disk_abs_def)
  next
    assume a: "disk_abs d k = Some v"
    then have k: "valid_key k" and m: "map_of (disk_files d) (file_of k) = Some v"
      by (auto simp: disk_abs_def file_read_def split: if_splits)
    have "file_of k \<in> set ?fs" using map_of_SomeD [OF m] by force
    with k m show "(\<exists>f \<in> set ?fs. key_of f = Some k) \<and> file_read d k = Some v"
      using key_of_file_of file_read_def by metis
  qed
  then show ?thesis using dist by (auto simp: file_list_def set_file_entries)
qed

interpretation disk: state_store "file_state_store hex" "disk_inv hex" disk_abs
proof unfold_locales
  fix d :: "'v disk" and k v
  assume "disk_abs d k = Some v"
  then show "valid_key k" by (auto simp: disk_abs_def split: if_splits)
qed (simp_all add: file_state_store_def file_get_def file_create_held file_create_new file_put_ok
    file_delete_ok file_list_ok, simp_all add: file_create_def file_put_def file_delete_def disk_abs_def)


text \<open>A crash between two file-system calls: the states a put and a create pass through.\<close>

definition put_crash_points :: "(nat \<Rightarrow> string) \<Rightarrow> 'v disk \<Rightarrow> string \<Rightarrow> 'v \<Rightarrow> 'v disk list" where
  "put_crash_points hex d k v = (case write_temp hex d v of Inl _ \<Rightarrow> [d]
     | Inr (tmp, d1) \<Rightarrow> [d, d1, fs_rename d1 tmp (file_of k)])"

definition create_crash_points :: "(nat \<Rightarrow> string) \<Rightarrow> 'v disk \<Rightarrow> string \<Rightarrow> 'v \<Rightarrow> 'v disk list" where
  "create_crash_points hex d k v = (case write_temp hex d v of Inl _ \<Rightarrow> [d]
     | Inr (tmp, d1) \<Rightarrow> (case fs_link d1 tmp (file_of k) of None \<Rightarrow> [d, d1, fs_remove d1 tmp]
         | Some d2 \<Rightarrow> [d, d1, d2, fs_remove d2 tmp]))"

lemma write_temp_abs:
  assumes "write_temp hex d v = Inr (t, d1)"
  shows "disk_abs d1 = disk_abs d" "map_of (disk_files d1) t = Some v" "\<not> suffix ''.v'' t" "t \<noteq> file_of k"
proof -
  have "disk_files d1 = AList.update t v (disk_files d)" and t: "t = temp_name (hex (disk_draw d))"
    using assms by (auto simp: write_temp_def Let_def split: if_splits)
  then show "map_of (disk_files d1) t = Some v" "disk_abs d1 = disk_abs d"
    by (simp add: map_of_update, intro disk_abs_eqI) (auto simp: map_of_update disk_abs_def file_read_def)
  show "\<not> suffix ''.v'' t" "t \<noteq> file_of k" unfolding t by simp_all
qed

lemma fs_rename_abs:
  assumes "map_of (disk_files d) t = Some v" "\<And>k. t \<noteq> file_of k" "valid_key k"
  shows "disk_abs (fs_rename d t (file_of k)) = (disk_abs d)(k := Some v)"
  using assms by (intro disk_abs_eqI)
    (auto simp: fs_rename_def map_of_delete map_of_update disk_abs_def file_read_def file_of_inj)

lemma fs_link_abs:
  assumes "fs_link d t (file_of k) = Some d2" "map_of (disk_files d) t = Some v" "valid_key k"
  shows "disk_abs d2 = (disk_abs d)(k := Some v)"
  using assms by (intro disk_abs_eqI)
    (auto simp: fs_link_def map_of_update disk_abs_def file_read_def file_of_inj split: option.splits)

lemma fs_remove_abs: "(\<And>k. t \<noteq> file_of k) \<Longrightarrow> disk_abs (fs_remove d t) = disk_abs d"
  by (intro disk_abs_eqI) (auto simp: fs_remove_def map_of_delete disk_abs_def file_read_def)

section \<open>First boot (bootstrap.ts)\<close>

text \<open>
  \<open>env\<close> is the environment, an insertion-ordered map; the generator of a secret is a function of
  the draw of its randomness. \<open>env[s.name]?.trim()\<close> counts as set when it is not empty.
\<close>

type_synonym env = "(string, string) js_map"

record generated_secret =
  gs_name :: string
  gs_generate :: "nat \<Rightarrow> string"
  gs_needed :: "env \<Rightarrow> bool"

record bootstrap_report =
  br_generated :: "string list"
  br_restored :: "string list"

definition storage_key :: "string \<Rightarrow> string" where
  "storage_key name = ''secret:'' @ js_lower name"

definition env_set :: "env \<Rightarrow> string \<Rightarrow> bool" where
  "env_set env name \<longleftrightarrow> (case map_of env name of None \<Rightarrow> False | Some v \<Rightarrow> js_trim v \<noteq> [])"

text \<open>One round of the loop, and the loop.\<close>

definition boot_one :: "('s, string) state_ops \<Rightarrow> generated_secret \<Rightarrow> nat \<Rightarrow> 's \<Rightarrow> env \<Rightarrow>
    bootstrap_report \<Rightarrow> store_error + 's \<times> env \<times> bootstrap_report" where
  "boot_one ops g draw s env rep =
     (if env_set env (gs_name g) then Inr (s, env, rep)
      else if \<not> gs_needed g env then Inr (s, env, rep)
      else let candidate = gs_generate g draw in
        bind_sum (so_create ops s (storage_key (gs_name g)) candidate) (\<lambda>(held, s1).
          Inr (s1, AList.update (gs_name g) held env,
            if held = candidate then rep\<lparr>br_generated := br_generated rep @ [gs_name g]\<rparr>
            else rep\<lparr>br_restored := br_restored rep @ [gs_name g]\<rparr>)))"

fun bootstrap_secrets :: "('s, string) state_ops \<Rightarrow> generated_secret list \<Rightarrow> nat \<Rightarrow> 's \<Rightarrow> env \<Rightarrow>
    bootstrap_report \<Rightarrow> store_error + 's \<times> env \<times> bootstrap_report" where
  "bootstrap_secrets ops [] draw s env rep = Inr (s, env, rep)"
| "bootstrap_secrets ops (g # gs) draw s env rep =
     bind_sum (boot_one ops g draw s env rep) (\<lambda>(s1, env1, rep1).
       bootstrap_secrets ops gs (draw + 1) s1 env1 rep1)"

text \<open>Several instances boot on one store: their rounds interleave in any order. An event is the
  instance, the secret of its round, and the draw of its generator.\<close>

fun boot_run :: "('s, string) state_ops \<Rightarrow> (nat \<times> generated_secret \<times> nat) list \<Rightarrow> 's \<Rightarrow>
    (nat \<Rightarrow> env \<times> bootstrap_report) \<Rightarrow> store_error + 's \<times> (nat \<Rightarrow> env \<times> bootstrap_report)" where
  "boot_run ops [] s is = Inr (s, is)"
| "boot_run ops ((i, g, draw) # es) s is =
     bind_sum (boot_one ops g draw s (fst (is i)) (snd (is i))) (\<lambda>(s1, env1, rep1).
       boot_run ops es s1 (is(i := (env1, rep1))))"

fun boot_events :: "nat \<Rightarrow> nat \<Rightarrow> generated_secret list \<Rightarrow> (nat \<times> generated_secret \<times> nat) list" where
  "boot_events i draw [] = []"
| "boot_events i draw (g # gs) = (i, g, draw) # boot_events i (draw + 1) gs"

lemma bootstrap_is_run:
  "boot_run ops (boot_events i draw gs) s is =
     bind_sum (bootstrap_secrets ops gs draw s (fst (is i)) (snd (is i)))
       (\<lambda>(s1, env1, rep1). Inr (s1, is(i := (env1, rep1))))"
proof (induction gs arbitrary: draw s "is")
  case Nil
  then show ?case by (auto simp: fun_eq_iff)
next
  case (Cons g gs)
  show ?case
    by (cases "boot_one ops g draw s (fst (is i)) (snd (is i))") (simp_all add: Cons.IH split_beta cong: if_cong)
qed

text \<open>A value an instance did not start with is the store's; a value the store holds is kept.\<close>

definition from_store :: "(string \<Rightarrow> string option) \<Rightarrow> (nat \<Rightarrow> env \<times> bootstrap_report) \<Rightarrow> (nat \<Rightarrow> env \<times> bootstrap_report) \<Rightarrow> bool" where
  "from_store a is0 is \<longleftrightarrow> (\<forall>i n. map_of (fst (is i)) n = map_of (fst (is0 i)) n \<or>
     (\<exists>v. map_of (fst (is i)) n = Some v \<and> a (storage_key n) = Some v))"

definition holds_stored :: "(string \<Rightarrow> string option) \<Rightarrow> (nat \<Rightarrow> env \<times> bootstrap_report) \<Rightarrow> nat \<Rightarrow> string \<Rightarrow> bool" where
  "holds_stored a is i n \<longleftrightarrow> (\<exists>v. map_of (fst (is i)) n = Some v \<and> a (storage_key n) = Some v)"

lemma from_store_cases:
  "from_store a is0 is \<Longrightarrow> map_of (fst (is i)) n = map_of (fst (is0 i)) n \<or> holds_stored a is i n"
  by (auto simp: from_store_def holds_stored_def)

locale text_store = state_store ops inv abs
  for ops :: "('s, string) state_ops" and inv :: "'s \<Rightarrow> bool" and abs :: "'s \<Rightarrow> string \<Rightarrow> string option"
begin

lemma boot_one_spec:
  assumes "inv s" "valid_key (storage_key (gs_name g))"
  shows "\<exists>s' env' rep'. boot_one ops g draw s env rep = Inr (s', env', rep') \<and> inv s' \<and>
    (\<forall>k v. abs s k = Some v \<longrightarrow> abs s' k = Some v) \<and>
    (env' = env \<and> (env_set env (gs_name g) \<or> \<not> gs_needed g env) \<or>
     (\<exists>v. abs s' (storage_key (gs_name g)) = Some v \<and> env' = AList.update (gs_name g) v env))"
proof (cases "env_set env (gs_name g) \<or> \<not> gs_needed g env")
  case True
  then show ?thesis using assms(1) by (auto simp: boot_one_def)
next
  case False
  let ?k = "storage_key (gs_name g)" and ?c = "gs_generate g draw"
  show ?thesis
  proof (cases "abs s ?k")
    case None
    then show ?thesis using create_new [OF assms None, of ?c] False by (fastforce simp: boot_one_def Let_def)
  next
    case (Some h)
    then show ?thesis using create_held [OF assms Some, of ?c] False by (fastforce simp: boot_one_def Let_def)
  qed
qed

lemma boot_step:
  assumes "inv s" "valid_key (storage_key (gs_name g))" "from_store (abs s) is0 is"
  shows "\<exists>s1 env1 rep1. boot_one ops g d s (fst (is i)) (snd (is i)) = Inr (s1, env1, rep1) \<and> inv s1 \<and>
    from_store (abs s1) is0 (is(i := (env1, rep1))) \<and>
    (\<forall>j n. holds_stored (abs s) is j n \<longrightarrow> holds_stored (abs s1) (is(i := (env1, rep1))) j n) \<and>
    (\<not> env_set (fst (is0 i)) (gs_name g) \<and> (\<forall>e. gs_needed g e) \<longrightarrow>
      holds_stored (abs s1) (is(i := (env1, rep1))) i (gs_name g))"
proof -
  let ?n = "gs_name g"
  obtain s1 env1 rep1 where one: "boot_one ops g d s (fst (is i)) (snd (is i)) = Inr (s1, env1, rep1)"
    and i1: "inv s1" and mono: "\<And>k v. abs s k = Some v \<Longrightarrow> abs s1 k = Some v"
    and c: "env1 = fst (is i) \<and> (env_set (fst (is i)) ?n \<or> \<not> gs_needed g (fst (is i))) \<or>
       (\<exists>v. abs s1 (storage_key ?n) = Some v \<and> env1 = AList.update ?n v (fst (is i)))"
    using boot_one_spec [OF assms(1,2), of d "fst (is i)" "snd (is i)"] by blast
  let ?is1 = "is(i := (env1, rep1))"
  have other: "map_of (fst (?is1 j)) n = map_of (fst (is j)) n" if "j \<noteq> i \<or> n \<noteq> ?n" for j n
    using that c by (auto simp: map_of_update)
  have here: "holds_stored (abs s1) ?is1 i ?n \<or>
      map_of (fst (?is1 i)) ?n = map_of (fst (is i)) ?n \<and> (env_set (fst (is i)) ?n \<or> \<not> gs_needed g (fst (is i)))"
    using c by (auto simp: map_of_update holds_stored_def)
  have keep: "holds_stored (abs s1) ?is1 j n" if "holds_stored (abs s) is j n" for j n
  proof (cases "j \<noteq> i \<or> n \<noteq> ?n")
    case True
    then show ?thesis using that other [OF True] mono unfolding holds_stored_def by metis
  next
    case False
    then show ?thesis using that here mono unfolding holds_stored_def by metis
  qed
  have J: "from_store (abs s1) is0 ?is1"
    unfolding from_store_def
  proof (intro allI)
    fix j n
    show "map_of (fst (?is1 j)) n = map_of (fst (is0 j)) n \<or>
        (\<exists>v. map_of (fst (?is1 j)) n = Some v \<and> abs s1 (storage_key n) = Some v)"
    proof (cases "holds_stored (abs s) is j n")
      case True
      from keep [OF this] show ?thesis unfolding holds_stored_def by blast
    next
      case False
      with from_store_cases [OF assms(3)] have "map_of (fst (is j)) n = map_of (fst (is0 j)) n" by blast
      then show ?thesis using other [of j n] here unfolding holds_stored_def by metis
    qed
  qed
  have "holds_stored (abs s1) ?is1 i ?n" if n: "\<not> env_set (fst (is0 i)) ?n" "\<forall>e. gs_needed g e"
  proof (cases "env_set (fst (is i)) ?n")
    case True
    with n(1) have "map_of (fst (is i)) ?n \<noteq> map_of (fst (is0 i)) ?n" by (auto simp: env_set_def)
    with from_store_cases [OF assms(3)] keep show ?thesis by blast
  next
    case False
    with here n(2) show ?thesis by blast
  qed
  with one i1 J keep show ?thesis by blast
qed

lemma boot_run_spec:
  assumes "inv s" "\<forall>(i, g, d) \<in> set es. valid_key (storage_key (gs_name g))" "from_store (abs s) is0 is"
  shows "\<exists>s' is'. boot_run ops es s is = Inr (s', is') \<and> inv s' \<and> from_store (abs s') is0 is' \<and>
    (\<forall>j n. holds_stored (abs s) is j n \<longrightarrow> holds_stored (abs s') is' j n) \<and>
    (\<forall>(i, g, d) \<in> set es. \<not> env_set (fst (is0 i)) (gs_name g) \<and> (\<forall>e. gs_needed g e) \<longrightarrow>
      holds_stored (abs s') is' i (gs_name g))"
  using assms
proof (induction es arbitrary: s "is")
  case Nil
  then show ?case by simp
next
  case (Cons e es)
  obtain i g d where e: "e = (i, g, d)" by (cases e)
  have k: "valid_key (storage_key (gs_name g))" and rest: "\<forall>(i, g, d) \<in> set es. valid_key (storage_key (gs_name g))"
    using Cons.prems(2) e by simp_all
  obtain s1 env1 rep1 where one: "boot_one ops g d s (fst (is i)) (snd (is i)) = Inr (s1, env1, rep1)"
    and i1: "inv s1" and J1: "from_store (abs s1) is0 (is(i := (env1, rep1)))"
    and keep1: "\<forall>j n. holds_stored (abs s) is j n \<longrightarrow> holds_stored (abs s1) (is(i := (env1, rep1))) j n"
    and fin1: "\<not> env_set (fst (is0 i)) (gs_name g) \<and> (\<forall>e. gs_needed g e) \<longrightarrow>
      holds_stored (abs s1) (is(i := (env1, rep1))) i (gs_name g)"
    using boot_step [OF Cons.prems(1) k Cons.prems(3), of d i] by blast
  obtain s' is' where run: "boot_run ops es s1 (is(i := (env1, rep1))) = Inr (s', is')" "inv s'"
    "from_store (abs s') is0 is'"
    and keep': "\<forall>j n. holds_stored (abs s1) (is(i := (env1, rep1))) j n \<longrightarrow> holds_stored (abs s') is' j n"
    and fin': "\<forall>(i, g, d) \<in> set es. \<not> env_set (fst (is0 i)) (gs_name g) \<and> (\<forall>e. gs_needed g e) \<longrightarrow>
      holds_stored (abs s') is' i (gs_name g)"
    using Cons.IH [OF i1 rest J1] by blast
  have "boot_run ops (e # es) s is = Inr (s', is')" using one run(1) by (simp add: e)
  moreover have "\<forall>j n. holds_stored (abs s) is j n \<longrightarrow> holds_stored (abs s') is' j n" using keep1 keep' by blast
  moreover have "\<forall>(i, g, d) \<in> set (e # es). \<not> env_set (fst (is0 i)) (gs_name g) \<and> (\<forall>e. gs_needed g e) \<longrightarrow>
      holds_stored (abs s') is' i (gs_name g)"
    using fin1 keep' fin' by (auto simp: e)
  ultimately show ?case using run(2,3) by blast
qed

end

interpretation mem_text: text_store "memory_state_store collate" mem_inv map_of
  by unfold_locales

interpretation disk_text: text_store "file_state_store hex" "disk_inv hex" disk_abs
  by unfold_locales


section \<open>Properties\<close>

text \<open>The file backend is crash-safe and first-writer-wins. Whatever file-system call a process
  dies after, a put leaves every key at its old value or the written key complete at the new one;
  a create never replaces a value that is there, and is otherwise all or nothing.\<close>

theorem file_writes_atomic:
  assumes "disk_inv hex d" "valid_key k"
  shows "(\<forall>d' \<in> set (put_crash_points hex d k v). disk_abs d' \<in> {disk_abs d, (disk_abs d)(k := Some v)}) \<and>
    (\<forall>d' \<in> set (create_crash_points hex d k v). disk_abs d' \<in>
       (if disk_abs d k = None then {disk_abs d, (disk_abs d)(k := Some v)} else {disk_abs d}))"
proof -
  obtain t d1 where w: "write_temp hex d v = Inr (t, d1)" using write_temp_ok [OF assms(1)] by blast
  have t: "\<And>k. t \<noteq> file_of k" using write_temp_abs(4) [OF w] by blast
  note a = write_temp_abs(1,2) [OF w]
  have put: "disk_abs (fs_rename d1 t (file_of k)) = (disk_abs d)(k := Some v)"
    using fs_rename_abs [OF a(2) t assms(2)] a(1) by simp
  have rm: "disk_abs (fs_remove d1 t) = disk_abs d" using fs_remove_abs [OF t, of d1] a(1) by simp
  have "\<forall>d' \<in> set (create_crash_points hex d k v). disk_abs d' \<in>
       (if disk_abs d k = None then {disk_abs d, (disk_abs d)(k := Some v)} else {disk_abs d})"
  proof (cases "fs_link d1 t (file_of k)")
    case None
    then show ?thesis using w rm a(1) by (simp add: create_crash_points_def)
  next
    case (Some d2)
    then have "disk_abs d1 k = None" by (auto simp: fs_link_def disk_abs_def file_read_def split: option.splits)
    moreover have "disk_abs d2 = (disk_abs d)(k := Some v)" using fs_link_abs [OF Some a(2) assms(2)] a(1) by simp
    ultimately show ?thesis
      using w Some a(1) fs_remove_abs [OF t, of d2] by (simp add: create_crash_points_def)
  qed
  with put a(1) w show ?thesis by (simp add: put_crash_points_def)
qed

theorem file_writes_atomic_witness:
  "disk_abs ` set (put_crash_points (\<lambda>n. ''f00d'') \<lparr>disk_files = [(''a~b.v'', ''old'')], disk_draw = 0\<rparr> ''a:b'' ''new'')
     \<subseteq> {disk_abs \<lparr>disk_files = [(''a~b.v'', ''old'')], disk_draw = 0\<rparr>,
       (disk_abs \<lparr>disk_files = [(''a~b.v'', ''old'')], disk_draw = 0\<rparr>)(''a:b'' := Some ''new'')}"
proof -
  have k: "valid_key ''a:b''" by code_simp
  have "file_of ''a:b'' = ''a~b.v''" "temp_name ''f00d'' = ''.f00d.tmp''" by code_simp+
  then have "disk_inv (\<lambda>n. ''f00d'') \<lparr>disk_files = [(''a~b.v'', ''old'')], disk_draw = 0\<rparr>"
    using k by (auto simp: disk_inv_def intro!: exI [of _ "''a:b''"])
  from file_writes_atomic [OF this k, of "''new''"] show ?thesis by blast
qed

text \<open>Instances that boot at once on one disk agree on every secret. However the rounds of
  their first boots interleave, the run succeeds; an environment value that boot changed is the
  value in the store, and any two instances that had to fill in the same secret end up with the
  same value.\<close>

theorem boot_instances_agree:
  assumes "disk_inv hex d" "\<forall>(i, g, n) \<in> set es. valid_key (storage_key (gs_name g))"
  shows "\<exists>d' is'. boot_run (file_state_store hex) es d is = Inr (d', is') \<and> disk_inv hex d' \<and>
    (\<forall>i n. map_of (fst (is' i)) n \<noteq> map_of (fst (is i)) n \<longrightarrow>
      map_of (fst (is' i)) n \<noteq> None \<and> map_of (fst (is' i)) n = disk_abs d' (storage_key n)) \<and>
    (\<forall>(i, g, m) \<in> set es. \<forall>(j, h, n) \<in> set es. gs_name g = gs_name h \<longrightarrow>
      \<not> env_set (fst (is i)) (gs_name g) \<longrightarrow> \<not> env_set (fst (is j)) (gs_name g) \<longrightarrow>
      (\<forall>e. gs_needed g e) \<longrightarrow> (\<forall>e. gs_needed h e) \<longrightarrow>
      map_of (fst (is' i)) (gs_name g) \<noteq> None \<and>
      map_of (fst (is' i)) (gs_name g) = map_of (fst (is' j)) (gs_name g))"
proof -
  obtain d' is' where r: "boot_run (file_state_store hex) es d is = Inr (d', is')" "disk_inv hex d'"
    and J: "from_store (disk_abs d') is is'"
    and fin: "\<forall>(i, g, m) \<in> set es. \<not> env_set (fst (is i)) (gs_name g) \<and> (\<forall>e. gs_needed g e) \<longrightarrow>
      holds_stored (disk_abs d') is' i (gs_name g)"
    using disk_text.boot_run_spec [OF assms, of "is" "is"] by (auto simp: from_store_def)
  have changed: "\<forall>i n. map_of (fst (is' i)) n \<noteq> map_of (fst (is i)) n \<longrightarrow>
      map_of (fst (is' i)) n \<noteq> None \<and> map_of (fst (is' i)) n = disk_abs d' (storage_key n)"
  proof (intro allI impI)
    fix i n
    assume "map_of (fst (is' i)) n \<noteq> map_of (fst (is i)) n"
    with from_store_cases [OF J] have "holds_stored (disk_abs d') is' i n" by blast
    then show "map_of (fst (is' i)) n \<noteq> None \<and> map_of (fst (is' i)) n = disk_abs d' (storage_key n)"
      by (auto simp: holds_stored_def)
  qed
  have agree: "map_of (fst (is' i)) (gs_name g) \<noteq> None \<and>
      map_of (fst (is' i)) (gs_name g) = map_of (fst (is' j)) (gs_name g)"
    if "(i, g, m) \<in> set es" "(j, h, n) \<in> set es" "gs_name g = gs_name h"
      "\<not> env_set (fst (is i)) (gs_name g)" "\<not> env_set (fst (is j)) (gs_name g)"
      "\<forall>e. gs_needed g e" "\<forall>e. gs_needed h e" for i g m j h n
  proof -
    have "holds_stored (disk_abs d') is' i (gs_name g)" "holds_stored (disk_abs d') is' j (gs_name g)"
      using fin that by auto
    then show ?thesis by (auto simp: holds_stored_def)
  qed
  show ?thesis using r changed agree by blast
qed

definition tollgate_secret :: generated_secret where
  "tollgate_secret = \<lparr>gs_name = ''TOLLGATE_SECRET'', gs_generate = (\<lambda>n. if n = 0 then ''first'' else ''second''),
     gs_needed = (\<lambda>_. True)\<rparr>"

theorem boot_instances_agree_witness:
  "\<exists>d' is'. boot_run (file_state_store (\<lambda>n. [])) [(0, tollgate_secret, 0), (1, tollgate_secret, 1)]
      \<lparr>disk_files = [], disk_draw = 0\<rparr> (\<lambda>i. ([], \<lparr>br_generated = [], br_restored = []\<rparr>)) = Inr (d', is') \<and>
    map_of (fst (is' 1)) ''TOLLGATE_SECRET'' \<noteq> None \<and>
    map_of (fst (is' 0)) ''TOLLGATE_SECRET'' = map_of (fst (is' 1)) ''TOLLGATE_SECRET''"
proof -
  have "valid_key (storage_key (gs_name tollgate_secret))" by code_simp
  then show ?thesis
    using boot_instances_agree [of "\<lambda>n. []" "\<lparr>disk_files = [], disk_draw = 0\<rparr>"
        "[(0, tollgate_secret, 0), (1, tollgate_secret, 1)]" "\<lambda>i. ([], \<lparr>br_generated = [], br_restored = []\<rparr>)"]
    by (auto simp: disk_inv_def tollgate_secret_def env_set_def)
qed

end
