(* ===== verification/Grants.thy ===== *)
theory Grants
  imports StateStore
begin

text \<open>
  Connect: \<open>packages/shared/src/connect/grants.ts\<close> (authorization codes, the credentials they are
  exchanged for, the sweep), the parts of \<open>connect/flow.ts\<close> it uses, the token and revocation
  endpoints of \<open>packages/tollgate/src/connect/routes.ts\<close>, and the credential check of
  \<open>connect/auth.ts\<close>. Everything is written over an arbitrary backend \<open>ops\<close>; SHA-256 is a parameter
  (\<open>dig\<close> for the hex digest of a code or credential, \<open>s256\<close> for the base64url challenge), and so is
  each random string. The store's text values are the datatype \<open>stored\<close>: \<open>JSON.parse\<close> after
  \<open>JSON.stringify\<close> is the identity on these records.
\<close>

section \<open>Data\<close>

record pending_code =
  pc_clientId :: string
  pc_clientName :: string
  pc_redirectUri :: string
  pc_site :: string
  pc_codeChallenge :: string
  pc_approvedBy :: string
  pc_context :: "(string, string) js_map"
  pc_expiresAt :: int

record site_credential =
  sc_site :: string
  sc_clientId :: string
  sc_clientName :: string
  sc_approvedBy :: string
  sc_createdAt :: int
  sc_hint :: string

record issue_record =
  ir_issueId :: string
  ir_clientId :: string
  ir_redirectUri :: string
  ir_codeChallenge :: string

datatype stored = SCode pending_code | SMarker int string | SIssued issue_record
  | SCredential site_credential | SSeen int

definition code_ttl_ms :: int where "code_ttl_ms = 10 * 60000"
definition seen_every_ms :: int where "seen_every_ms = 60 * 60000"
definition sweep_every_ms :: int where "sweep_every_ms = 10 * 60000"
definition code_prefix :: string where "code_prefix = ''nln_code_''"
definition site_credential_prefix :: string where "site_credential_prefix = ''nln_site_''"

definition code_key :: "string \<Rightarrow> string" where "code_key d = ''connect.code:'' @ d"
definition used_key :: "string \<Rightarrow> string" where "used_key d = ''connect.used:'' @ d"
definition issued_key :: "string \<Rightarrow> string" where "issued_key d = ''connect.issued:'' @ d"
definition cred_key :: "string \<Rightarrow> string" where "cred_key d = ''credential:'' @ d"
definition seen_key :: "string \<Rightarrow> string" where "seen_key d = ''connect.seen:'' @ d"

section \<open>The pieces of flow.ts\<close>

definition is_upper_alpha :: "char \<Rightarrow> bool" where
  "is_upper_alpha c \<longleftrightarrow> CHR ''A'' \<le> c \<and> c \<le> CHR ''Z''"

definition is_alnum :: "char \<Rightarrow> bool" where
  "is_alnum c \<longleftrightarrow> is_lower_alpha c \<or> is_upper_alpha c \<or> is_digit c"

definition verifier_re :: "string \<Rightarrow> bool" where
  "verifier_re v \<longleftrightarrow> 43 \<le> length v \<and> length v \<le> 128 \<and> list_all (\<lambda>c. is_alnum c \<or> c \<in> set ''-._~'') v"

definition is_site_credential :: "string \<Rightarrow> bool" where
  "is_site_credential v \<longleftrightarrow> prefix site_credential_prefix v \<and>
     (let body = drop (length site_credential_prefix) v in length body = 43 \<and> list_all is_alnum body)"

text \<open>\<open>codeChallengeOf\<close> throws on a malformed verifier.\<close>

definition code_challenge_of :: "(string \<Rightarrow> string) \<Rightarrow> string \<Rightarrow> string option" where
  "code_challenge_of s256 v = (if verifier_re v then Some (s256 v) else None)"

definition redirect_matches :: "string \<Rightarrow> string \<Rightarrow> bool" where
  "redirect_matches registered presented \<longleftrightarrow> registered = presented"

definition hex64 :: "string \<Rightarrow> bool" where
  "hex64 d \<longleftrightarrow> length d = 64 \<and> list_all (\<lambda>c. is_digit c \<or> CHR ''a'' \<le> c \<and> c \<le> CHR ''f'') d"

section \<open>The sweep\<close>

text \<open>A pass deletes the rows it finds dead; an error of the store stops it where it is.\<close>

fun sweep_rows :: "('s, stored) state_ops \<Rightarrow> ('s \<Rightarrow> string \<times> stored \<Rightarrow> store_error + bool) \<Rightarrow>
    (string \<times> stored) list \<Rightarrow> 's \<Rightarrow> nat \<Rightarrow> 's \<times> (store_error + nat)" where
  "sweep_rows ops dead [] s n = (s, Inr n)"
| "sweep_rows ops dead (e # es) s n = (case dead s e of
     Inl err \<Rightarrow> (s, Inl err)
   | Inr b \<Rightarrow> if \<not> b then sweep_rows ops dead es s n
       else (case so_delete ops s (fst e) of
           Inl err \<Rightarrow> (s, Inl err)
         | Inr s1 \<Rightarrow> sweep_rows ops dead es s1 (n + 1)))"

definition sweep_pass :: "('s, stored) state_ops \<Rightarrow> string \<Rightarrow> ('s \<Rightarrow> string \<times> stored \<Rightarrow> store_error + bool) \<Rightarrow>
    's \<times> (store_error + nat) \<Rightarrow> 's \<times> (store_error + nat)" where
  "sweep_pass ops p dead r = (case r of (s, Inl err) \<Rightarrow> (s, Inl err)
     | (s, Inr n) \<Rightarrow> (case so_list ops s p of Inl err \<Rightarrow> (s, Inl err) | Inr es \<Rightarrow> sweep_rows ops dead es s n))"

text \<open>\<open>JSON.parse\<close> throws on a marker's text; a record without the field compares false.\<close>

definition code_dead :: "int \<Rightarrow> 's \<Rightarrow> string \<times> stored \<Rightarrow> store_error + bool" where
  "code_dead now s e = (case snd e of SCode c \<Rightarrow> Inr (pc_expiresAt c \<le> now)
     | SMarker _ _ \<Rightarrow> Inl MalformedValue | _ \<Rightarrow> Inr False)"

definition used_dead :: "int \<Rightarrow> 's \<Rightarrow> string \<times> stored \<Rightarrow> store_error + bool" where
  "used_dead now s e = (case snd e of SMarker t _ \<Rightarrow> Inr (t + code_ttl_ms \<le> now)
     | SSeen t \<Rightarrow> Inr (t + code_ttl_ms \<le> now) | _ \<Rightarrow> Inr False)"

definition orphaned :: "('s, stored) state_ops \<Rightarrow> string \<Rightarrow> (string \<Rightarrow> string) \<Rightarrow> 's \<Rightarrow> string \<times> stored \<Rightarrow> store_error + bool" where
  "orphaned ops p owner s e =
     bind_sum (so_get ops s (owner (drop (length p) (fst e)))) (\<lambda>v. Inr (v = None))"

definition sweep_connect :: "('s, stored) state_ops \<Rightarrow> 's \<Rightarrow> int \<Rightarrow> 's \<times> (store_error + nat)" where
  "sweep_connect ops s now =
     sweep_pass ops ''connect.seen:'' (orphaned ops ''connect.seen:'' cred_key)
       (sweep_pass ops ''connect.issued:'' (orphaned ops ''connect.issued:'' used_key)
         (sweep_pass ops ''connect.used:'' (used_dead now)
           (sweep_pass ops ''connect.code:'' (code_dead now) (s, Inr 0))))"

definition sweep_connect_at_most_every :: "('s, stored) state_ops \<Rightarrow> 's \<Rightarrow> int option \<Rightarrow> int \<Rightarrow> 's \<times> int option" where
  "sweep_connect_at_most_every ops s last_sweep now =
     (if (case last_sweep of None \<Rightarrow> False | Some t \<Rightarrow> now - t < sweep_every_ms) then (s, last_sweep)
      else (fst (sweep_connect ops s now), Some now))"

section \<open>Codes\<close>

definition save_code :: "('s, stored) state_ops \<Rightarrow> (string \<Rightarrow> string) \<Rightarrow> string \<Rightarrow> 's \<Rightarrow> int option \<Rightarrow>
    pending_code \<Rightarrow> int \<Rightarrow> store_error + string \<times> 's \<times> int option" where
  "save_code ops dig rnd s last_sweep pending now =
     (let code = code_prefix @ rnd; rec = pending\<lparr>pc_expiresAt := now + code_ttl_ms\<rparr> in
      bind_sum (so_put ops s (code_key (dig code)) (SCode rec)) (\<lambda>s1.
        Inr (code, sweep_connect_at_most_every ops s1 last_sweep now)))"

datatype redeem_error = InvalidGrant | InvalidClient

datatype redeem_reason = NotACode | CodeAlreadyUsed | UnknownCode | CodeExpired | OtherClient
  | RedirectMismatch | MalformedVerifier | VerifierMismatch

datatype redeemed = Redeemed pending_code string
  | Refused redeem_error redeem_reason "string option"

record presented =
  pr_code :: string
  pr_codeVerifier :: string
  pr_redirectUri :: string
  pr_clientId :: string

definition replay :: "('s, stored) state_ops \<Rightarrow> (string \<Rightarrow> string) \<Rightarrow> 's \<Rightarrow> string \<Rightarrow> presented \<Rightarrow> store_error + redeemed" where
  "replay ops s256 s d p = (let refused = Refused InvalidGrant CodeAlreadyUsed None in
     bind_sum (so_get ops s (issued_key d)) (\<lambda>raw. case raw of
       None \<Rightarrow> Inr refused
     | Some (SIssued i) \<Rightarrow> (case code_challenge_of s256 (pr_codeVerifier p) of
           None \<Rightarrow> Inr refused
         | Some challenge \<Rightarrow>
             if ir_clientId i = pr_clientId p \<and> redirect_matches (ir_redirectUri i) (pr_redirectUri p) \<and>
                challenge = ir_codeChallenge i
             then Inr (Refused InvalidGrant CodeAlreadyUsed (Some (ir_issueId i))) else Inr refused)
     | Some _ \<Rightarrow> Inl MalformedValue))"

text \<open>What a claimed code is checked for, in the order of the code.\<close>

definition check_code :: "(string \<Rightarrow> string) \<Rightarrow> string \<Rightarrow> pending_code \<Rightarrow> presented \<Rightarrow> int \<Rightarrow> redeemed" where
  "check_code s256 d c p now =
     (if pc_expiresAt c \<le> now then Refused InvalidGrant CodeExpired None
      else if pc_clientId c \<noteq> pr_clientId p then Refused InvalidClient OtherClient None
      else if \<not> redirect_matches (pc_redirectUri c) (pr_redirectUri p) then Refused InvalidGrant RedirectMismatch None
      else (case code_challenge_of s256 (pr_codeVerifier p) of
          None \<Rightarrow> Refused InvalidGrant MalformedVerifier None
        | Some challenge \<Rightarrow> if challenge \<noteq> pc_codeChallenge c then Refused InvalidGrant VerifierMismatch None
            else Redeemed c d))"

definition redeem_code :: "('s, stored) state_ops \<Rightarrow> (string \<Rightarrow> string) \<Rightarrow> (string \<Rightarrow> string) \<Rightarrow> string \<Rightarrow>
    's \<Rightarrow> presented \<Rightarrow> int \<Rightarrow> store_error + redeemed \<times> 's" where
  "redeem_code ops dig s256 rnd s p now =
     (if \<not> prefix code_prefix (pr_code p) then Inr (Refused InvalidGrant NotACode None, s)
      else let d = dig (pr_code p) in
        bind_sum (so_get ops s (code_key d)) (\<lambda>raw. case raw of
          None \<Rightarrow> bind_sum (so_get ops s (used_key d)) (\<lambda>u.
            if u \<noteq> None then bind_sum (replay ops s256 s d p) (\<lambda>r. Inr (r, s))
            else Inr (Refused InvalidGrant UnknownCode None, s))
        | Some v \<Rightarrow>
            let marker = SMarker now rnd in
            bind_sum (so_create ops s (used_key d) marker) (\<lambda>(held, s1).
              if held \<noteq> marker then bind_sum (replay ops s256 s1 d p) (\<lambda>r. Inr (r, s1))
              else bind_sum (so_delete ops s1 (code_key d)) (\<lambda>s2.
                case v of SCode c \<Rightarrow> Inr (check_code s256 d c p now, s2) | _ \<Rightarrow> Inl MalformedValue))))"

definition record_issue :: "('s, stored) state_ops \<Rightarrow> 's \<Rightarrow> string \<Rightarrow> pending_code \<Rightarrow> string \<Rightarrow> store_error + 's" where
  "record_issue ops s codeId c issueId = so_put ops s (issued_key codeId)
     (SIssued \<lparr>ir_issueId = issueId, ir_clientId = pc_clientId c, ir_redirectUri = pc_redirectUri c,
               ir_codeChallenge = pc_codeChallenge c\<rparr>)"

section \<open>Credentials\<close>

definition issue_credential :: "('s, stored) state_ops \<Rightarrow> (string \<Rightarrow> string) \<Rightarrow> string \<Rightarrow> 's \<Rightarrow> pending_code \<Rightarrow> int \<Rightarrow>
    store_error + string \<times> 's" where
  "issue_credential ops dig rnd s grant now =
     (let credential = site_credential_prefix @ rnd in
      bind_sum (so_put ops s (cred_key (dig credential))
          (SCredential \<lparr>sc_site = pc_site grant, sc_clientId = pc_clientId grant,
             sc_clientName = pc_clientName grant, sc_approvedBy = pc_approvedBy grant,
             sc_createdAt = now, sc_hint = drop (length credential - 4) credential\<rparr>))
        (\<lambda>s1. Inr (credential, s1)))"

definition parse_credential :: "stored \<Rightarrow> store_error + site_credential" where
  "parse_credential v = (case v of SCredential r \<Rightarrow> Inr r | _ \<Rightarrow> Inl MalformedValue)"

definition resolve_credential :: "('s, stored) state_ops \<Rightarrow> (string \<Rightarrow> string) \<Rightarrow> 's \<Rightarrow> string \<Rightarrow>
    store_error + site_credential option" where
  "resolve_credential ops dig s credential =
     (if \<not> is_site_credential credential then Inr None
      else bind_sum (so_get ops s (cred_key (dig credential))) (\<lambda>raw. case raw of
          None \<Rightarrow> Inr None
        | Some v \<Rightarrow> bind_sum (parse_credential v) (\<lambda>r. Inr (Some r))))"

definition revoke_credential :: "('s, stored) state_ops \<Rightarrow> (string \<Rightarrow> string) \<Rightarrow> 's \<Rightarrow> string \<Rightarrow> store_error + 's" where
  "revoke_credential ops dig s credential =
     (if \<not> is_site_credential credential then Inr s
      else bind_sum (so_delete ops s (cred_key (dig credential))) (\<lambda>s1.
        so_delete ops s1 (seen_key (dig credential))))"

definition revoke_credential_by_id :: "('s, stored) state_ops \<Rightarrow> 's \<Rightarrow> string \<Rightarrow> store_error + site_credential option \<times> 's" where
  "revoke_credential_by_id ops s i =
     (if \<not> hex64 i then Inr (None, s)
      else bind_sum (so_get ops s (cred_key i)) (\<lambda>held. case held of
          None \<Rightarrow> Inr (None, s)
        | Some v \<Rightarrow> bind_sum (so_delete ops s (cred_key i)) (\<lambda>s1.
            bind_sum (so_delete ops s1 (seen_key i)) (\<lambda>s2.
              bind_sum (parse_credential v) (\<lambda>r. Inr (Some r, s2))))))"

text \<open>The recorder of last use keeps, per process, when it last wrote each digest; a failed write
  forgets it.\<close>

definition seen_recorder :: "('s, stored) state_ops \<Rightarrow> (string \<Rightarrow> string) \<Rightarrow> int \<Rightarrow> (string, int) js_map \<Rightarrow>
    's \<Rightarrow> string \<Rightarrow> int \<Rightarrow> (string, int) js_map \<times> 's" where
  "seen_recorder ops dig everyMs written s credential seen_at =
     (let d = dig credential in
      if (case map_of written d of None \<Rightarrow> False | Some t \<Rightarrow> seen_at - t < everyMs) then (written, s)
      else let w1 = AList.update d seen_at written in
        case so_put ops s (seen_key d) (SSeen seen_at) of
          Inl _ \<Rightarrow> (AList.delete d w1, s)
        | Inr s1 \<Rightarrow> (w1, s1))"

fun collect_seen :: "(string \<times> stored) list \<Rightarrow> (string \<times> int) list" where
  "collect_seen [] = []"
| "collect_seen ((k, SSeen t) # es) = (drop (length ''connect.seen:'') k, t) # collect_seen es"
| "collect_seen (e # es) = collect_seen es"

fun list_rows :: "(string, int) js_map \<Rightarrow> (string \<times> stored) list \<Rightarrow> store_error + (string \<times> site_credential \<times> int option) list" where
  "list_rows seen [] = Inr []"
| "list_rows seen ((k, v) # es) = (let i = drop (length ''credential:'') k in
     bind_sum (parse_credential v) (\<lambda>r. bind_sum (list_rows seen es) (\<lambda>rest.
       Inr ((i, r, map_of seen i) # rest))))"

definition list_credentials :: "('s, stored) state_ops \<Rightarrow> 's \<Rightarrow> store_error + (string \<times> site_credential \<times> int option) list" where
  "list_credentials ops s =
     bind_sum (so_list ops s ''connect.seen:'') (\<lambda>sn.
       bind_sum (so_list ops s ''credential:'') (\<lambda>cr. list_rows (collect_seen sn) cr))"

section \<open>The endpoints\<close>

datatype token_response = TokenIssued string string | TokenRefused redeem_error redeem_reason nat
  | TokenInvalidRequest | TokenUnsupportedGrant

record token_form =
  tf_grant_type :: "string option"
  tf_code :: "string option"
  tf_code_verifier :: "string option"
  tf_redirect_uri :: "string option"
  tf_client_id :: "string option"

text \<open>A missing and an empty field are alike (\<open>!code\<close>).\<close>

definition field :: "string option \<Rightarrow> string" where
  "field v = (case v of None \<Rightarrow> [] | Some x \<Rightarrow> x)"

definition token_endpoint :: "('s, stored) state_ops \<Rightarrow> (string \<Rightarrow> string) \<Rightarrow> (string \<Rightarrow> string) \<Rightarrow>
    string \<Rightarrow> string \<Rightarrow> 's \<Rightarrow> token_form option \<Rightarrow> int \<Rightarrow> store_error + token_response \<times> 's" where
  "token_endpoint ops dig s256 rnd_marker rnd_cred s form now = (case form of
     None \<Rightarrow> Inr (TokenInvalidRequest, s)
   | Some f \<Rightarrow>
       if tf_grant_type f \<noteq> Some ''authorization_code'' then Inr (TokenUnsupportedGrant, s)
       else if field (tf_code f) = [] \<or> field (tf_code_verifier f) = [] \<or> field (tf_redirect_uri f) = [] \<or>
          field (tf_client_id f) = [] then Inr (TokenInvalidRequest, s)
       else bind_sum (redeem_code ops dig s256 rnd_marker s
           \<lparr>pr_code = field (tf_code f), pr_codeVerifier = field (tf_code_verifier f),
            pr_redirectUri = field (tf_redirect_uri f), pr_clientId = field (tf_client_id f)\<rparr> now)
         (\<lambda>(r, s1). case r of
            Refused e why rep \<Rightarrow>
              bind_sum (case rep of None \<Rightarrow> Inr s1
                 | Some i \<Rightarrow> if i = [] then Inr s1
                     else bind_sum (revoke_credential_by_id ops s1 i) (\<lambda>(_, s2). Inr s2))
                (\<lambda>s2. Inr (TokenRefused e why (if e = InvalidClient then 401 else 400), s2))
          | Redeemed c codeId \<Rightarrow>
              bind_sum (issue_credential ops dig rnd_cred s1 c now) (\<lambda>(cred, s2).
                bind_sum (record_issue ops s2 codeId c (dig cred)) (\<lambda>s3.
                  Inr (TokenIssued cred (pc_site c), s3)))))"

datatype revoke_response = RevokeOk | RevokeNeedsToken

definition revoke_endpoint :: "('s, stored) state_ops \<Rightarrow> (string \<Rightarrow> string) \<Rightarrow> 's \<Rightarrow> string option \<Rightarrow>
    store_error + revoke_response \<times> 's" where
  "revoke_endpoint ops dig s token =
     (if field token = [] then Inr (RevokeNeedsToken, s)
      else bind_sum (revoke_credential ops dig s (field token)) (\<lambda>s1. Inr (RevokeOk, s1)))"


section \<open>Keys and the shape of the store\<close>

lemma hex64_chars: "hex64 d \<Longrightarrow> list_all key_char d \<and> length d = 64"
proof -
  have "CHR ''f'' \<le> CHR ''z''" by simp
  then have "c \<le> CHR ''f'' \<Longrightarrow> c \<le> CHR ''z''" for c by (rule order_trans [rotated])
  then show "hex64 d \<Longrightarrow> list_all key_char d \<and> length d = 64"
    unfolding hex64_def list_all_iff key_char_def is_lower_alpha_def is_digit_def by blast
qed

lemma connect_keys_valid [simp]:
  assumes "hex64 d"
  shows "valid_key (code_key d)" "valid_key (used_key d)" "valid_key (issued_key d)"
    "valid_key (cred_key d)" "valid_key (seen_key d)"
  using hex64_chars [OF assms]
  by (simp_all add: valid_key_def code_key_def used_key_def issued_key_def cred_key_def seen_key_def
      key_char_def is_lower_alpha_def is_digit_def)

lemma connect_keys_distinct [simp]:
  "code_key d \<noteq> used_key e" "used_key e \<noteq> code_key d" "code_key d \<noteq> issued_key e" "issued_key e \<noteq> code_key d"
  "code_key d \<noteq> cred_key e" "cred_key e \<noteq> code_key d" "code_key d \<noteq> seen_key e" "seen_key e \<noteq> code_key d"
  "used_key d \<noteq> issued_key e" "issued_key e \<noteq> used_key d" "used_key d \<noteq> cred_key e" "cred_key e \<noteq> used_key d"
  "used_key d \<noteq> seen_key e" "seen_key e \<noteq> used_key d" "issued_key d \<noteq> cred_key e" "cred_key e \<noteq> issued_key d"
  "issued_key d \<noteq> seen_key e" "seen_key e \<noteq> issued_key d" "cred_key d \<noteq> seen_key e" "seen_key e \<noteq> cred_key d"
  by (simp_all add: code_key_def used_key_def issued_key_def cred_key_def seen_key_def)

lemma connect_keys_inj [simp]:
  "code_key d = code_key e \<longleftrightarrow> d = e" "used_key d = used_key e \<longleftrightarrow> d = e"
  "issued_key d = issued_key e \<longleftrightarrow> d = e" "cred_key d = cred_key e \<longleftrightarrow> d = e"
  "seen_key d = seen_key e \<longleftrightarrow> d = e"
  by (simp_all add: code_key_def used_key_def issued_key_def cred_key_def seen_key_def)

lemma shorter_key_valid:
  "valid_key (''connect.issued:'' @ d) \<Longrightarrow> valid_key (used_key d)"
  "valid_key (''connect.seen:'' @ d) \<Longrightarrow> valid_key (cred_key d)"
  by (auto simp: valid_key_def used_key_def cred_key_def key_char_def is_lower_alpha_def is_digit_def)

text \<open>Every key family holds its own kind of record.\<close>

definition key_family :: "string \<Rightarrow> stored \<Rightarrow> bool" where
  "key_family k v \<longleftrightarrow> (case v of
     SCode _ \<Rightarrow> prefix ''connect.code:'' k
   | SMarker _ _ \<Rightarrow> prefix ''connect.used:'' k
   | SIssued _ \<Rightarrow> prefix ''connect.issued:'' k
   | SCredential _ \<Rightarrow> prefix ''credential:'' k
   | SSeen _ \<Rightarrow> prefix ''connect.seen:'' k)"

definition typed :: "(string \<Rightarrow> stored option) \<Rightarrow> bool" where
  "typed a \<longleftrightarrow> (\<forall>k v. a k = Some v \<longrightarrow> key_family k v)"

lemma key_family_simps [simp]:
  "key_family (code_key d) v \<longleftrightarrow> (\<exists>c. v = SCode c)"
  "key_family (used_key d) v \<longleftrightarrow> (\<exists>t r. v = SMarker t r)"
  "key_family (issued_key d) v \<longleftrightarrow> (\<exists>i. v = SIssued i)"
  "key_family (cred_key d) v \<longleftrightarrow> (\<exists>r. v = SCredential r)"
  "key_family (seen_key d) v \<longleftrightarrow> (\<exists>t. v = SSeen t)"
  by (cases v; simp add: key_family_def code_key_def used_key_def issued_key_def cred_key_def seen_key_def)+

lemma typed_get: "typed a \<Longrightarrow> a k = Some v \<Longrightarrow> key_family k v"
  by (simp add: typed_def)

lemma typed_upd: "typed a \<Longrightarrow> key_family k v \<Longrightarrow> typed (a(k := Some v))"
  by (simp add: typed_def)

lemma typed_del: "typed a \<Longrightarrow> typed (a(k := None))"
  by (simp add: typed_def)

lemma typed_restrict: "typed a \<Longrightarrow> typed (\<lambda>k. if P k then None else a k)"
  by (simp add: typed_def)

text \<open>What a sweep at \<open>now\<close> removes.\<close>

definition swept :: "int \<Rightarrow> (string \<Rightarrow> stored option) \<Rightarrow> string \<Rightarrow> bool" where
  "swept now a k \<longleftrightarrow>
     (\<exists>c. a k = Some (SCode c) \<and> pc_expiresAt c \<le> now) \<or>
     (\<exists>t r. a k = Some (SMarker t r) \<and> t + code_ttl_ms \<le> now) \<or>
     (\<exists>i d. a k = Some (SIssued i) \<and> k = issued_key d \<and>
        (a (used_key d) = None \<or> (\<exists>t r. a (used_key d) = Some (SMarker t r) \<and> t + code_ttl_ms \<le> now))) \<or>
     (\<exists>t d. a k = Some (SSeen t) \<and> k = seen_key d \<and> a (cred_key d) = None)"

section \<open>What redemption does, on the map of keys\<close>

definition replay_of :: "(string \<Rightarrow> string) \<Rightarrow> stored option \<Rightarrow> presented \<Rightarrow> string option" where
  "replay_of s256 raw p = (case raw of
     Some (SIssued i) \<Rightarrow>
       if code_challenge_of s256 (pr_codeVerifier p) = Some (ir_codeChallenge i) \<and>
          ir_clientId i = pr_clientId p \<and> ir_redirectUri i = pr_redirectUri p
       then Some (ir_issueId i) else None
   | _ \<Rightarrow> None)"

definition redeem_spec :: "(string \<Rightarrow> string) \<Rightarrow> (string \<Rightarrow> string) \<Rightarrow> string \<Rightarrow> (string \<Rightarrow> stored option) \<Rightarrow>
    presented \<Rightarrow> int \<Rightarrow> redeemed \<times> (string \<Rightarrow> stored option)" where
  "redeem_spec dig s256 rnd a p now =
     (let d = dig (pr_code p); marker = SMarker now rnd;
          used = Refused InvalidGrant CodeAlreadyUsed (replay_of s256 (a (issued_key d)) p) in
      if \<not> prefix code_prefix (pr_code p) then (Refused InvalidGrant NotACode None, a)
      else (case a (code_key d) of
          Some (SCode c) \<Rightarrow>
            if a (used_key d) \<in> {None, Some marker}
            then (check_code s256 d c p now, a(used_key d := Some marker, code_key d := None))
            else (used, a)
        | _ \<Rightarrow> (if a (used_key d) = None then Refused InvalidGrant UnknownCode None else used, a)))"

definition revoked :: "(string \<Rightarrow> stored option) \<Rightarrow> string \<Rightarrow> string \<Rightarrow> stored option" where
  "revoked a i = (if hex64 i \<and> a (cred_key i) \<noteq> None then a(cred_key i := None, seen_key i := None) else a)"

lemma check_code_redeemed:
  "check_code s256 d c p now = Redeemed c' d' \<longleftrightarrow> c' = c \<and> d' = d \<and> now < pc_expiresAt c \<and>
     pc_clientId c = pr_clientId p \<and> pc_redirectUri c = pr_redirectUri p \<and>
     code_challenge_of s256 (pr_codeVerifier p) = Some (pc_codeChallenge c)"
  by (auto simp: check_code_def redirect_matches_def split: option.splits)

lemma check_code_refused: "check_code s256 d c p now = Refused e why rep \<Longrightarrow> rep = None"
  by (auto simp: check_code_def split: if_splits option.splits)

lemma typed_code: "typed a \<Longrightarrow> a (code_key d) = Some v \<Longrightarrow> \<exists>c. v = SCode c"
  using typed_get [of a "code_key d" v] by simp

lemma typed_redeem: "typed a \<Longrightarrow> typed (snd (redeem_spec dig s256 rnd a p now))"
  by (auto simp: redeem_spec_def Let_def typed_upd typed_del split: option.splits stored.splits)

lemma typed_revoked: "typed a \<Longrightarrow> typed (revoked a i)"
  by (simp add: revoked_def typed_del)

definition credential_of :: "pending_code \<Rightarrow> string \<Rightarrow> int \<Rightarrow> site_credential" where
  "credential_of c credential now = \<lparr>sc_site = pc_site c, sc_clientId = pc_clientId c,
     sc_clientName = pc_clientName c, sc_approvedBy = pc_approvedBy c, sc_createdAt = now,
     sc_hint = drop (length credential - 4) credential\<rparr>"

definition issue_of :: "pending_code \<Rightarrow> string \<Rightarrow> issue_record" where
  "issue_of c issueId = \<lparr>ir_issueId = issueId, ir_clientId = pc_clientId c,
     ir_redirectUri = pc_redirectUri c, ir_codeChallenge = pc_codeChallenge c\<rparr>"

text \<open>The exchange of a well-formed token request.\<close>

definition exchange_spec :: "(string \<Rightarrow> string) \<Rightarrow> (string \<Rightarrow> string) \<Rightarrow> string \<Rightarrow> string \<Rightarrow>
    (string \<Rightarrow> stored option) \<Rightarrow> presented \<Rightarrow> int \<Rightarrow> token_response \<times> (string \<Rightarrow> stored option)" where
  "exchange_spec dig s256 rm rc a p now =
     (case redeem_spec dig s256 rm a p now of
        (Refused e why rep, b) \<Rightarrow>
          (TokenRefused e why (if e = InvalidClient then 401 else 400),
           case rep of None \<Rightarrow> b | Some i \<Rightarrow> revoked b i)
      | (Redeemed c d, b) \<Rightarrow> (let cred = site_credential_prefix @ rc in
          (TokenIssued cred (pc_site c),
           b(cred_key (dig cred) := Some (SCredential (credential_of c cred now)),
             issued_key d := Some (SIssued (issue_of c (dig cred)))))))"

definition form_presented :: "token_form \<Rightarrow> presented" where
  "form_presented f = \<lparr>pr_code = field (tf_code f), pr_codeVerifier = field (tf_code_verifier f),
     pr_redirectUri = field (tf_redirect_uri f), pr_clientId = field (tf_client_id f)\<rparr>"

definition form_ok :: "token_form \<Rightarrow> bool" where
  "form_ok f \<longleftrightarrow> tf_grant_type f = Some ''authorization_code'' \<and> field (tf_code f) \<noteq> [] \<and>
     field (tf_code_verifier f) \<noteq> [] \<and> field (tf_redirect_uri f) \<noteq> [] \<and> field (tf_client_id f) \<noteq> []"

lemma revoked_empty [simp]: "revoked a [] = a"
  by (simp add: revoked_def hex64_def)

lemma redeem_spec_redeemed:
  assumes "redeem_spec dig s256 rnd a p now = (Redeemed c d, b)"
  shows "d = dig (pr_code p) \<and> a (code_key d) = Some (SCode c) \<and> now < pc_expiresAt c \<and>
    pc_clientId c = pr_clientId p \<and> pc_redirectUri c = pr_redirectUri p \<and>
    code_challenge_of s256 (pr_codeVerifier p) = Some (pc_codeChallenge c) \<and>
    a (used_key d) \<in> {None, Some (SMarker now rnd)} \<and>
    b = a(used_key d := Some (SMarker now rnd), code_key d := None)"
  using assms
  by (auto simp: redeem_spec_def Let_def check_code_redeemed split: if_splits option.splits stored.splits)

lemma token_refused_form:
  "\<not> form_ok f \<Longrightarrow> \<exists>r. token_endpoint ops dig s256 rm rc s (Some f) now = Inr (r, s) \<and>
     r \<in> {TokenInvalidRequest, TokenUnsupportedGrant}"
  by (auto simp: token_endpoint_def form_ok_def)

lemma token_issued_form:
  "token_endpoint ops dig s256 rm rc s (Some f) now = Inr (TokenIssued cred site, s') \<Longrightarrow> form_ok f"
  using token_refused_form [of f ops dig s256 rm rc s now] by auto

lemma typed_exchange:
  assumes "typed a"
  shows "typed (snd (exchange_spec dig s256 rm rc a p now))"
proof -
  have "typed (snd (redeem_spec dig s256 rm a p now))" by (rule typed_redeem [OF assms])
  then show ?thesis
    by (auto simp: exchange_spec_def Let_def typed_upd typed_revoked split: prod.splits redeemed.splits option.splits)
qed

locale connect_store = state_store ops inv abs
  for ops :: "('s, stored) state_ops" and inv :: "'s \<Rightarrow> bool" and abs :: "'s \<Rightarrow> string \<Rightarrow> stored option"
begin

lemma sweep_rows_spec:
  assumes "inv s" "distinct (map fst es)" "\<forall>e \<in> set es. valid_key (fst e)"
    and "\<And>s' e. inv s' \<Longrightarrow> (\<And>k. \<not> prefix p k \<Longrightarrow> abs s' k = abs s k) \<Longrightarrow> e \<in> set es \<Longrightarrow> dead s' e = Inr (D e)"
    and "\<forall>e \<in> set es. prefix p (fst e)"
  shows "\<exists>s' n'. sweep_rows ops dead es s n = (s', Inr n') \<and> inv s' \<and>
    abs s' = (\<lambda>k. if \<exists>v. (k, v) \<in> set es \<and> D (k, v) then None else abs s k)"
  using assms
proof (induction es arbitrary: s n)
  case Nil
  then show ?case by simp
next
  case (Cons e es)
  obtain k v where e: "e = (k, v)" by (cases e)
  have d: "dead s e = Inr (D e)" using Cons.prems(1,4) by simp
  show ?case
  proof (cases "D e")
    case False
    have "\<exists>s' n'. sweep_rows ops dead es s n = (s', Inr n') \<and> inv s' \<and>
        abs s' = (\<lambda>k. if \<exists>v. (k, v) \<in> set es \<and> D (k, v) then None else abs s k)"
      by (rule Cons.IH) (use Cons.prems in auto)
    moreover have "(\<lambda>k'. if \<exists>v. (k', v) \<in> set (e # es) \<and> D (k', v) then None else abs s k') =
        (\<lambda>k. if \<exists>v. (k, v) \<in> set es \<and> D (k, v) then None else abs s k)"
      using False e by (intro ext) auto
    ultimately show ?thesis using d False by auto
  next
    case True
    obtain s1 where s1: "so_delete ops s k = Inr s1" "inv s1" "abs s1 = (abs s)(k := None)"
      using delete_abs [OF Cons.prems(1), of k] Cons.prems(3) e by auto
    have pk: "prefix p k" using Cons.prems(5) e by simp
    have "\<exists>s' n'. sweep_rows ops dead es s1 (n + 1) = (s', Inr n') \<and> inv s' \<and>
        abs s' = (\<lambda>k. if \<exists>v. (k, v) \<in> set es \<and> D (k, v) then None else abs s1 k)"
    proof (rule Cons.IH)
      fix s' e' assume "inv s'" "\<And>k. \<not> prefix p k \<Longrightarrow> abs s' k = abs s1 k" "e' \<in> set es"
      then show "dead s' e' = Inr (D e')"
        using Cons.prems(4) [of s' e'] s1(3) pk by (metis fun_upd_other list.set_intros(2))
    qed (use Cons.prems s1 in auto)
    moreover have "(\<lambda>k'. if \<exists>v. (k', v) \<in> set (e # es) \<and> D (k', v) then None else abs s k') =
        (\<lambda>k. if \<exists>v. (k, v) \<in> set es \<and> D (k, v) then None else abs s1 k)"
      using True e s1(3) by (intro ext) auto
    ultimately show ?thesis using d True s1(1) e by auto
  qed
qed

lemma sweep_pass_spec:
  assumes "inv s"
    and "\<And>s' k v. inv s' \<Longrightarrow> (\<And>k. \<not> prefix p k \<Longrightarrow> abs s' k = abs s k) \<Longrightarrow> prefix p k \<Longrightarrow>
      abs s k = Some v \<Longrightarrow> dead s' (k, v) = Inr (D (k, v))"
  shows "\<exists>s' n'. sweep_pass ops p dead (s, Inr n) = (s', Inr n') \<and> inv s' \<and>
    abs s' = (\<lambda>k. if \<exists>v. prefix p k \<and> abs s k = Some v \<and> D (k, v) then None else abs s k)"
proof -
  obtain es where es: "so_list ops s p = Inr es" "distinct (map fst es)"
    and m: "\<And>k v. (k, v) \<in> set es \<longleftrightarrow> prefix p k \<and> abs s k = Some v"
    using list_abs [OF assms(1), of p] by blast
  have "\<exists>s' n'. sweep_rows ops dead es s n = (s', Inr n') \<and> inv s' \<and>
      abs s' = (\<lambda>k. if \<exists>v. (k, v) \<in> set es \<and> D (k, v) then None else abs s k)"
  proof (rule sweep_rows_spec [OF assms(1) es(2)])
    show "\<forall>e \<in> set es. valid_key (fst e)" "\<forall>e \<in> set es. prefix p (fst e)"
      using m abs_keys [OF assms(1)] by auto
    fix s' e assume "inv s'" "\<And>k. \<not> prefix p k \<Longrightarrow> abs s' k = abs s k" "e \<in> set es"
    then show "dead s' e = Inr (D e)" using assms(2) m by (cases e) auto
  qed
  then show ?thesis by (simp add: sweep_pass_def es(1) m conj_assoc)
qed

lemma orphaned_spec:
  assumes "inv s'" "valid_key k" "k = p @ d" "valid_key (owner d)"
  shows "orphaned ops p owner s' (k, v) = Inr (abs s' (owner d) = None)"
  using assms get_abs by (simp add: orphaned_def)

lemma sweep_connect_spec:
  assumes "inv s" "typed (abs s)"
  shows "\<exists>s' n. sweep_connect ops s now = (s', Inr n) \<and> inv s' \<and>
    abs s' = (\<lambda>k. if swept now (abs s) k then None else abs s k)"
proof -
  let ?pc = "''connect.code:''" and ?pu = "''connect.used:''" and ?pi = "''connect.issued:''" and ?ps = "''connect.seen:''"
  let ?D1 = "\<lambda>(k, v). \<exists>c. v = SCode c \<and> pc_expiresAt c \<le> now"
  let ?D2 = "\<lambda>(k, v). \<exists>t r. v = SMarker t r \<and> t + code_ttl_ms \<le> now"
  have fam: "key_family k v" if "abs s k = Some v" for k v using assms(2) that by (simp add: typed_def)
  have d1: "code_dead now s' (k, v) = Inr (?D1 (k, v))"
    if "inv s'" "\<And>k. \<not> prefix ?pc k \<Longrightarrow> abs s' k = abs s k" "prefix ?pc k" "abs s k = Some v" for s' k v
    using fam [OF that(4)] that(3)
    by (cases v) (auto simp: code_dead_def key_family_def prefix_def)
  obtain s1 n1 where s1: "sweep_pass ops ?pc (code_dead now) (s, Inr 0) = (s1, Inr n1)" "inv s1"
    "abs s1 = (\<lambda>k. if \<exists>v. prefix ?pc k \<and> abs s k = Some v \<and> ?D1 (k, v) then None else abs s k)"
    using sweep_pass_spec [where p = "?pc" and dead = "code_dead now" and D = "?D1" and n = 0, OF assms(1) d1] by blast
  have fam1: "key_family k v" if "abs s1 k = Some v" for k v
    using that fam s1(3) by (auto split: if_splits)
  have d2: "used_dead now s' (k, v) = Inr (?D2 (k, v))"
    if "inv s'" "\<And>k. \<not> prefix ?pu k \<Longrightarrow> abs s' k = abs s1 k" "prefix ?pu k" "abs s1 k = Some v" for s' k v
    using fam1 [OF that(4)] that(3)
    by (cases v) (auto simp: used_dead_def key_family_def prefix_def)
  obtain s2 n2 where s2: "sweep_pass ops ?pu (used_dead now) (s1, Inr n1) = (s2, Inr n2)" "inv s2"
    "abs s2 = (\<lambda>k. if \<exists>v. prefix ?pu k \<and> abs s1 k = Some v \<and> ?D2 (k, v) then None else abs s1 k)"
    using sweep_pass_spec [where p = "?pu" and dead = "used_dead now" and D = "?D2" and n = n1, OF s1(2) d2] by blast
  let ?D3 = "\<lambda>(k, v :: stored). abs s2 (used_key (drop (length ?pi) k)) = None"
  have d3: "orphaned ops ?pi used_key s' (k, v) = Inr (?D3 (k, v))"
    if h: "inv s'" "\<And>k. \<not> prefix ?pi k \<Longrightarrow> abs s' k = abs s2 k" "prefix ?pi k" "abs s2 k = Some v" for s' k v
  proof -
    obtain d where d: "k = ?pi @ d" using h(3) by (auto simp: prefix_def)
    have "valid_key k" using abs_keys [OF s2(2) h(4)] .
    moreover have "\<not> prefix ?pi (used_key d)" by (simp add: used_key_def)
    ultimately show ?thesis
      using orphaned_spec [OF h(1) _ d, of used_key v] h(2) shorter_key_valid(1) d by simp
  qed
  obtain s3 n3 where s3: "sweep_pass ops ?pi (orphaned ops ?pi used_key) (s2, Inr n2) = (s3, Inr n3)" "inv s3"
    "abs s3 = (\<lambda>k. if \<exists>v. prefix ?pi k \<and> abs s2 k = Some v \<and> ?D3 (k, v) then None else abs s2 k)"
    using sweep_pass_spec [where p = "?pi" and dead = "orphaned ops ?pi used_key" and D = "?D3" and n = n2, OF s2(2) d3] by blast
  let ?D4 = "\<lambda>(k, v :: stored). abs s3 (cred_key (drop (length ?ps) k)) = None"
  have d4: "orphaned ops ?ps cred_key s' (k, v) = Inr (?D4 (k, v))"
    if h: "inv s'" "\<And>k. \<not> prefix ?ps k \<Longrightarrow> abs s' k = abs s3 k" "prefix ?ps k" "abs s3 k = Some v" for s' k v
  proof -
    obtain d where d: "k = ?ps @ d" using h(3) by (auto simp: prefix_def)
    have "valid_key k" using abs_keys [OF s3(2) h(4)] .
    moreover have "\<not> prefix ?ps (cred_key d)" by (simp add: cred_key_def)
    ultimately show ?thesis
      using orphaned_spec [OF h(1) _ d, of cred_key v] h(2) shorter_key_valid(2) d by simp
  qed
  obtain s4 n4 where s4: "sweep_pass ops ?ps (orphaned ops ?ps cred_key) (s3, Inr n3) = (s4, Inr n4)" "inv s4"
    "abs s4 = (\<lambda>k. if \<exists>v. prefix ?ps k \<and> abs s3 k = Some v \<and> ?D4 (k, v) then None else abs s3 k)"
    using sweep_pass_spec [where p = "?ps" and dead = "orphaned ops ?ps cred_key" and D = "?D4" and n = n3, OF s3(2) d4] by blast
  have run: "sweep_connect ops s now = (s4, Inr n4)" by (simp add: sweep_connect_def s1(1) s2(1) s3(1) s4(1))
  have "abs s4 k = (if swept now (abs s) k then None else abs s k)" for k
  proof (cases "abs s k")
    case None
    then show ?thesis by (simp add: s4(3) s3(3) s2(3) s1(3))
  next
    case (Some v)
    have f: "key_family k v" using fam Some by blast
    show ?thesis
    proof (cases v)
      case (SCode c)
      then obtain d where k: "k = code_key d" using f by (auto simp: key_family_def code_key_def prefix_def)
      have "swept now (abs s) k \<longleftrightarrow> pc_expiresAt c \<le> now" using SCode Some by (simp add: swept_def)
      then show ?thesis using SCode Some k by (simp add: s4(3) s3(3) s2(3) s1(3) code_key_def)
    next
      case (SMarker t r)
      then obtain d where k: "k = used_key d" using f by (auto simp: key_family_def used_key_def prefix_def)
      have "swept now (abs s) k \<longleftrightarrow> t + code_ttl_ms \<le> now" using SMarker Some by (simp add: swept_def)
      then show ?thesis using SMarker Some k by (simp add: s4(3) s3(3) s2(3) s1(3) used_key_def)
    next
      case (SCredential r)
      then obtain d where k: "k = cred_key d" using f by (auto simp: key_family_def cred_key_def prefix_def)
      have "swept now (abs s) k \<longleftrightarrow> False" using SCredential Some by (simp add: swept_def)
      then show ?thesis using SCredential Some k by (simp add: s4(3) s3(3) s2(3) s1(3) cred_key_def)
    next
      case (SIssued i)
      then obtain d where k: "k = issued_key d" using f by (auto simp: key_family_def issued_key_def prefix_def)
      have "abs s2 (used_key d) = None \<longleftrightarrow> abs s (used_key d) = None \<or>
          (\<exists>t r. abs s (used_key d) = Some (SMarker t r) \<and> t + code_ttl_ms \<le> now)"
        by (auto simp: s2(3) s1(3) used_key_def)
      moreover have "abs s2 k = Some v" using Some k by (simp add: s2(3) s1(3) issued_key_def)
      ultimately show ?thesis
        using SIssued Some k by (simp add: s4(3) s3(3) swept_def issued_key_def)
    next
      case (SSeen t)
      then obtain d where k: "k = seen_key d" using f by (auto simp: key_family_def seen_key_def prefix_def)
      have "abs s3 (cred_key d) = abs s (cred_key d)" by (simp add: s3(3) s2(3) s1(3) cred_key_def)
      moreover have "abs s3 k = Some v" using Some k by (simp add: s3(3) s2(3) s1(3) seen_key_def)
      ultimately show ?thesis using SSeen Some k by (simp add: s4(3) swept_def seen_key_def)
    qed
  qed
  then show ?thesis using run s4(2) by auto
qed

lemma replay_refines:
  assumes "inv s" "typed (abs s)" "hex64 d"
  shows "replay ops s256 s d p =
    Inr (Refused InvalidGrant CodeAlreadyUsed (replay_of s256 (abs s (issued_key d)) p))"
proof (cases "abs s (issued_key d)")
  case None
  then show ?thesis using get_abs [OF assms(1), of "issued_key d"] assms(3) by (simp add: replay_def replay_of_def)
next
  case (Some v)
  then obtain i where "v = SIssued i" using typed_get [OF assms(2), of "issued_key d" v] by auto
  then show ?thesis
    using get_abs [OF assms(1), of "issued_key d"] assms(3) Some
    by (auto simp: replay_def replay_of_def redirect_matches_def Let_def split: option.splits)
qed

lemma redeem_refines:
  assumes "inv s" "typed (abs s)" "hex64 (dig (pr_code p))"
  shows "\<exists>s'. redeem_code ops dig s256 rnd s p now = Inr (fst (redeem_spec dig s256 rnd (abs s) p now), s') \<and>
    inv s' \<and> abs s' = snd (redeem_spec dig s256 rnd (abs s) p now)"
proof (cases "prefix code_prefix (pr_code p)")
  case False
  then show ?thesis using assms(1) by (simp add: redeem_code_def redeem_spec_def)
next
  case pre: True
  let ?d = "dig (pr_code p)" and ?m = "SMarker now rnd"
  note d = assms(3)
  note get = get_abs [OF assms(1) connect_keys_valid(1) [OF d]] get_abs [OF assms(1) connect_keys_valid(2) [OF d]]
  note rep = replay_refines [OF _ _ d, of _ s256 p]
  show ?thesis
  proof (cases "abs s (code_key ?d)")
    case None
    then show ?thesis
      using pre get rep [OF assms(1,2)] assms(1) by (simp add: redeem_code_def redeem_spec_def Let_def)
  next
    case (Some v)
    then obtain c where v: "v = SCode c" using typed_code [OF assms(2)] by blast
    have go: ?thesis
      if s1: "so_create ops s (used_key ?d) ?m = Inr (?m, s1)" "inv s1" "abs s1 = (abs s)(used_key ?d := Some ?m)"
        and free: "abs s (used_key ?d) \<in> {None, Some ?m}" for s1
    proof -
      obtain s2 where "so_delete ops s1 (code_key ?d) = Inr s2" "inv s2" "abs s2 = (abs s1)(code_key ?d := None)"
        using delete_abs [OF s1(2), of "code_key ?d"] d by auto
      then show ?thesis
        using pre get Some v s1 free by (auto simp: redeem_code_def redeem_spec_def Let_def)
    qed
    show ?thesis
    proof (cases "abs s (used_key ?d)")
      case None
      then obtain s1 where "so_create ops s (used_key ?d) ?m = Inr (?m, s1)" "inv s1"
        "abs s1 = (abs s)(used_key ?d := Some ?m)"
        using create_new [OF assms(1) connect_keys_valid(2) [OF d] None, of ?m] by blast
      then show ?thesis using go None by simp
    next
      case held: (Some h)
      then obtain s1 where s1: "so_create ops s (used_key ?d) ?m = Inr (h, s1)" "inv s1" "abs s1 = abs s"
        using create_held [OF assms(1) connect_keys_valid(2) [OF d] held, of ?m] by blast
      show ?thesis
      proof (cases "h = ?m")
        case True
        then show ?thesis using go [of s1] s1 held by (simp add: fun_upd_idem)
      next
        case False
        have "typed (abs s1)" using s1(3) assms(2) by simp
        then show ?thesis
          using pre get Some v s1 held False rep [OF s1(2)] by (simp add: redeem_code_def redeem_spec_def Let_def)
      qed
    qed
  qed
qed

lemma revoke_by_id_refines:
  assumes "inv s" "typed (abs s)"
  shows "\<exists>r s'. revoke_credential_by_id ops s i = Inr (r, s') \<and> inv s' \<and> abs s' = revoked (abs s) i"
proof (cases "hex64 i \<and> abs s (cred_key i) \<noteq> None")
  case False
  then show ?thesis
    using assms(1) get_abs [OF assms(1), of "cred_key i"]
    by (auto simp: revoke_credential_by_id_def revoked_def)
next
  case True
  then obtain r where r: "abs s (cred_key i) = Some (SCredential r)" using typed_get [OF assms(2)] by fastforce
  obtain s1 where s1: "so_delete ops s (cred_key i) = Inr s1" "inv s1" "abs s1 = (abs s)(cred_key i := None)"
    using delete_abs [OF assms(1), of "cred_key i"] True by auto
  obtain s2 where "so_delete ops s1 (seen_key i) = Inr s2" "inv s2" "abs s2 = (abs s1)(seen_key i := None)"
    using delete_abs [OF s1(2), of "seen_key i"] True by auto
  then show ?thesis
    using True r s1 get_abs [OF assms(1), of "cred_key i"]
    by (simp add: revoke_credential_by_id_def revoked_def parse_credential_def)
qed

lemma token_refines:
  assumes "inv s" "typed (abs s)" "\<And>x. hex64 (dig x)" "form_ok f"
  shows "\<exists>s'. token_endpoint ops dig s256 rm rc s (Some f) now =
      Inr (fst (exchange_spec dig s256 rm rc (abs s) (form_presented f) now), s') \<and>
    inv s' \<and> abs s' = snd (exchange_spec dig s256 rm rc (abs s) (form_presented f) now)"
proof -
  let ?p = "form_presented f" and ?a = "abs s"
  have p: "\<lparr>pr_code = field (tf_code f), pr_codeVerifier = field (tf_code_verifier f),
     pr_redirectUri = field (tf_redirect_uri f), pr_clientId = field (tf_client_id f)\<rparr> = ?p"
    by (simp add: form_presented_def)
  obtain s1 where s1: "redeem_code ops dig s256 rm s ?p now = Inr (fst (redeem_spec dig s256 rm ?a ?p now), s1)"
    "inv s1" "abs s1 = snd (redeem_spec dig s256 rm ?a ?p now)"
    using redeem_refines [OF assms(1,2)] assms(3) by blast
  have t1: "typed (abs s1)" using s1(3) typed_redeem [OF assms(2)] by simp
  show ?thesis
  proof (cases "redeem_spec dig s256 rm ?a ?p now")
    case (Pair r b)
    show ?thesis
    proof (cases r)
      case (Refused e why rep)
      show ?thesis
      proof (cases "rep = None \<or> rep = Some []")
        case True
        then show ?thesis
          using assms(4) Refused Pair s1 by (auto simp: token_endpoint_def form_ok_def p exchange_spec_def)
      next
        case False
        then obtain i where i: "rep = Some i" "i \<noteq> []" by auto
        obtain x s2 where "revoke_credential_by_id ops s1 i = Inr (x, s2)" "inv s2" "abs s2 = revoked (abs s1) i"
          using revoke_by_id_refines [OF s1(2) t1] by blast
        then show ?thesis
          using assms(4) Refused Pair s1 i by (auto simp: token_endpoint_def form_ok_def p exchange_spec_def)
      qed
    next
      case (Redeemed c d)
      have d: "hex64 d" using redeem_spec_redeemed [of dig s256 rm ?a ?p now c d b] Pair Redeemed assms(3) by simp
      let ?cred = "site_credential_prefix @ rc"
      obtain s2 where s2: "so_put ops s1 (cred_key (dig ?cred)) (SCredential (credential_of c ?cred now)) = Inr s2"
        "inv s2" "abs s2 = (abs s1)(cred_key (dig ?cred) := Some (SCredential (credential_of c ?cred now)))"
        using put_abs [OF s1(2) connect_keys_valid(4) [OF assms(3)]] by blast
      obtain s3 where s3: "so_put ops s2 (issued_key d) (SIssued (issue_of c (dig ?cred))) = Inr s3"
        "inv s3" "abs s3 = (abs s2)(issued_key d := Some (SIssued (issue_of c (dig ?cred))))"
        using put_abs [OF s2(2) connect_keys_valid(3) [OF d]] by blast
      show ?thesis
        using assms(4) Redeemed Pair s1 s2 s3
        by (auto simp: token_endpoint_def form_ok_def p exchange_spec_def issue_credential_def
            record_issue_def credential_of_def issue_of_def Let_def)
    qed
  qed
qed

lemma resolve_refines:
  assumes "inv s" "typed (abs s)" "hex64 (dig credential)" "is_site_credential credential"
  shows "resolve_credential ops dig s credential = Inr (case abs s (cred_key (dig credential)) of
    Some (SCredential r) \<Rightarrow> Some r | _ \<Rightarrow> None)"
  using get_abs [OF assms(1) connect_keys_valid(4) [OF assms(3)]] assms(4)
    typed_get [OF assms(2), of "cred_key (dig credential)"]
  by (auto simp: resolve_credential_def parse_credential_def split: option.splits)

end

text \<open>A gate at work: requests and sweeps, one after another, on one store. The process also holds
  the time of its last sweep and when it last wrote each credential's last use.\<close>

datatype connect_event =
    ESave string pending_code int
  | EToken string string "token_form option" int
  | ERevoke "string option"
  | ERevokeById string
  | ESweep int
  | ESeen string int

record 's connect_state =
  cs_store :: 's
  cs_lastSweep :: "int option"
  cs_written :: "(string, int) js_map"

fun connect_step :: "('s, stored) state_ops \<Rightarrow> (string \<Rightarrow> string) \<Rightarrow> (string \<Rightarrow> string) \<Rightarrow> connect_event \<Rightarrow>
    's connect_state \<Rightarrow> store_error + token_response option \<times> 's connect_state" where
  "connect_step ops dig s256 (ESave rnd c now) st =
     bind_sum (save_code ops dig rnd (cs_store st) (cs_lastSweep st) c now) (\<lambda>(code, s1, ls).
       Inr (None, st\<lparr>cs_store := s1, cs_lastSweep := ls\<rparr>))"
| "connect_step ops dig s256 (EToken rm rc f now) st =
     bind_sum (token_endpoint ops dig s256 rm rc (cs_store st) f now) (\<lambda>(r, s1).
       Inr (Some r, st\<lparr>cs_store := s1\<rparr>))"
| "connect_step ops dig s256 (ERevoke t) st =
     bind_sum (revoke_endpoint ops dig (cs_store st) t) (\<lambda>(r, s1). Inr (None, st\<lparr>cs_store := s1\<rparr>))"
| "connect_step ops dig s256 (ERevokeById i) st =
     bind_sum (revoke_credential_by_id ops (cs_store st) i) (\<lambda>(r, s1). Inr (None, st\<lparr>cs_store := s1\<rparr>))"
| "connect_step ops dig s256 (ESweep now) st =
     Inr (None, st\<lparr>cs_store := fst (sweep_connect ops (cs_store st) now)\<rparr>)"
| "connect_step ops dig s256 (ESeen cred now) st =
     (let (w, s1) = seen_recorder ops dig seen_every_ms (cs_written st) (cs_store st) cred now in
      Inr (None, st\<lparr>cs_store := s1, cs_written := w\<rparr>))"

fun connect_run :: "('s, stored) state_ops \<Rightarrow> (string \<Rightarrow> string) \<Rightarrow> (string \<Rightarrow> string) \<Rightarrow> connect_event list \<Rightarrow>
    's connect_state \<Rightarrow> store_error + token_response option list \<times> 's connect_state" where
  "connect_run ops dig s256 [] st = Inr ([], st)"
| "connect_run ops dig s256 (e # es) st =
     bind_sum (connect_step ops dig s256 e st) (\<lambda>(r, st1).
       bind_sum (connect_run ops dig s256 es st1) (\<lambda>(rs, st2). Inr (r # rs, st2)))"

definition saves :: "(string \<Rightarrow> string) \<Rightarrow> string \<Rightarrow> connect_event \<Rightarrow> bool" where
  "saves dig d e \<longleftrightarrow> (case e of ESave rnd _ _ \<Rightarrow> dig (code_prefix @ rnd) = d | _ \<Rightarrow> False)"

definition issues :: "(string \<Rightarrow> string) \<Rightarrow> string \<Rightarrow> connect_event \<Rightarrow> token_response option \<Rightarrow> bool" where
  "issues dig d e r \<longleftrightarrow> (case e of EToken _ _ (Some f) _ \<Rightarrow>
      dig (field (tf_code f)) = d \<and> (\<exists>cred site. r = Some (TokenIssued cred site)) | _ \<Rightarrow> False)"

lemma exchange_issued:
  assumes "exchange_spec dig s256 rm rc a p now = (TokenIssued cred site, b)"
  obtains c where "a (code_key (dig (pr_code p))) = Some (SCode c)" "now < pc_expiresAt c"
    "pc_clientId c = pr_clientId p" "pc_redirectUri c = pr_redirectUri p"
    "code_challenge_of s256 (pr_codeVerifier p) = Some (pc_codeChallenge c)" "site = pc_site c"
    "cred = site_credential_prefix @ rc"
    "b = a(used_key (dig (pr_code p)) := Some (SMarker now rm), code_key (dig (pr_code p)) := None,
       cred_key (dig cred) := Some (SCredential (credential_of c cred now)),
       issued_key (dig (pr_code p)) := Some (SIssued (issue_of c (dig cred))))"
  using assms that
  by (auto simp: exchange_spec_def Let_def dest!: redeem_spec_redeemed split: prod.splits redeemed.splits)

lemma exchange_no_code:
  assumes "a (code_key d) = None"
  shows "snd (exchange_spec dig s256 rm rc a p now) (code_key d) = None"
    and "dig (pr_code p) = d \<Longrightarrow> fst (exchange_spec dig s256 rm rc a p now) \<noteq> TokenIssued cred site"
proof -
  have "snd (redeem_spec dig s256 rm a p now) (code_key d) = None"
    using assms by (auto simp: redeem_spec_def Let_def split: option.splits stored.splits)
  then show "snd (exchange_spec dig s256 rm rc a p now) (code_key d) = None"
    by (auto simp: exchange_spec_def Let_def revoked_def split: prod.splits redeemed.splits option.splits)
  show "dig (pr_code p) = d \<Longrightarrow> fst (exchange_spec dig s256 rm rc a p now) \<noteq> TokenIssued cred site"
  proof
    assume d: "dig (pr_code p) = d" and "fst (exchange_spec dig s256 rm rc a p now) = TokenIssued cred site"
    then obtain b where "exchange_spec dig s256 rm rc a p now = (TokenIssued cred site, b)" by (metis prod.collapse)
    then show False by (rule exchange_issued) (use assms d in auto)
  qed
qed

context connect_store begin

lemma sweep_every_refines:
  assumes "inv s" "typed (abs s)"
  shows "\<exists>s' ls'. sweep_connect_at_most_every ops s ls now = (s', ls') \<and> inv s' \<and>
    (abs s' = abs s \<or> abs s' = (\<lambda>k. if swept now (abs s) k then None else abs s k))"
  using sweep_connect_spec [OF assms, of now] assms(1)
  by (auto simp: sweep_connect_at_most_every_def)

lemma revoke_refines:
  assumes "inv s" "\<And>x. hex64 (dig x)"
  shows "\<exists>s'. revoke_credential ops dig s t = Inr s' \<and> inv s' \<and>
    abs s' = (if is_site_credential t then (abs s)(cred_key (dig t) := None, seen_key (dig t) := None) else abs s)"
proof (cases "is_site_credential t")
  case False
  then show ?thesis using assms(1) by (simp add: revoke_credential_def)
next
  case True
  obtain s1 where s1: "so_delete ops s (cred_key (dig t)) = Inr s1" "inv s1" "abs s1 = (abs s)(cred_key (dig t) := None)"
    using delete_abs [OF assms(1) connect_keys_valid(4) [OF assms(2)]] by blast
  then show ?thesis
    using delete_abs [OF s1(2) connect_keys_valid(5) [OF assms(2)], of t] True
    by (auto simp: revoke_credential_def)
qed

lemma seen_refines:
  assumes "inv s" "\<And>x. hex64 (dig x)"
  shows "\<exists>w' s'. seen_recorder ops dig n w s cred now = (w', s') \<and> inv s' \<and>
    (abs s' = abs s \<or> abs s' = (abs s)(seen_key (dig cred) := Some (SSeen now)))"
  using put_abs [OF assms(1) connect_keys_valid(5) [OF assms(2)], of cred "SSeen now"] assms(1)
  by (auto simp: seen_recorder_def Let_def split: option.splits)

lemma save_refines:
  assumes "inv s" "typed (abs s)" "\<And>x. hex64 (dig x)"
  shows "\<exists>s' ls'. save_code ops dig rnd s ls c now = Inr (code_prefix @ rnd, s', ls') \<and> inv s' \<and>
    (let b = (abs s)(code_key (dig (code_prefix @ rnd)) := Some (SCode (c\<lparr>pc_expiresAt := now + code_ttl_ms\<rparr>))) in
     abs s' = b \<or> abs s' = (\<lambda>k. if swept now b k then None else b k))"
proof -
  let ?v = "SCode (c\<lparr>pc_expiresAt := now + code_ttl_ms\<rparr>)" and ?k = "code_key (dig (code_prefix @ rnd))"
  obtain s1 where s1: "so_put ops s ?k ?v = Inr s1" "inv s1" "abs s1 = (abs s)(?k := Some ?v)"
    using put_abs [OF assms(1) connect_keys_valid(1) [OF assms(3)]] by blast
  have "typed (abs s1)" using s1(3) typed_upd [OF assms(2), of ?k ?v] by simp
  then obtain s' ls' where s': "sweep_connect_at_most_every ops s1 ls now = (s', ls')" "inv s'"
    and r: "abs s' = abs s1 \<or> abs s' = (\<lambda>k. if swept now (abs s1) k then None else abs s1 k)"
    using sweep_every_refines [OF s1(2), of ls now] by blast
  show ?thesis
    using s1(1) s' r [unfolded s1(3)] by (auto simp: save_code_def Let_def)
qed

lemma connect_step_spec:
  assumes "inv (cs_store st)" "typed (abs (cs_store st))" "\<And>x. hex64 (dig x)"
  shows "\<exists>r st'. connect_step ops dig s256 e st = Inr (r, st') \<and> inv (cs_store st') \<and>
    typed (abs (cs_store st')) \<and>
    (\<forall>d. abs (cs_store st) (code_key d) = None \<and> \<not> saves dig d e \<longrightarrow>
      abs (cs_store st') (code_key d) = None \<and> \<not> issues dig d e r)"
proof (cases e)
  case (ESave rnd c now)
  let ?b = "(abs (cs_store st))(code_key (dig (code_prefix @ rnd)) := Some (SCode (c\<lparr>pc_expiresAt := now + code_ttl_ms\<rparr>)))"
  obtain s' ls' where s': "save_code ops dig rnd (cs_store st) (cs_lastSweep st) c now = Inr (code_prefix @ rnd, s', ls')"
    "inv s'" "abs s' = ?b \<or> abs s' = (\<lambda>k. if swept now ?b k then None else ?b k)"
    using save_refines [where dig = dig and rnd = rnd and ls = "cs_lastSweep st" and c = c and now = now, OF assms] by (auto simp: Let_def)
  have tb: "typed ?b" using assms(2) by (simp add: typed_upd)
  have "typed (abs s')" using s'(3) tb typed_restrict [OF tb, of "swept now ?b"] by (elim disjE) simp_all
  moreover have "abs s' (code_key d) = None"
    if "abs (cs_store st) (code_key d) = None" "dig (code_prefix @ rnd) \<noteq> d" for d
    using s'(3) that by auto
  ultimately show ?thesis
    using ESave s'(1,2) by (auto simp: saves_def issues_def)
next
  case (EToken rm rc f now)
  show ?thesis
  proof (cases "\<exists>g. f = Some g \<and> form_ok g")
    case False
    then have "\<exists>r. token_endpoint ops dig s256 rm rc (cs_store st) f now = Inr (r, cs_store st) \<and>
        r \<in> {TokenInvalidRequest, TokenUnsupportedGrant}"
    proof (cases f)
      case None
      then show ?thesis by (simp add: token_endpoint_def)
    next
      case (Some g)
      with False have "\<not> form_ok g" by simp
      from token_refused_form [OF this] show ?thesis unfolding Some by fast
    qed
    then show ?thesis using EToken assms(1,2) by (auto simp: issues_def split: option.splits)
  next
    case True
    then obtain g where g: "f = Some g" "form_ok g" by blast
    let ?x = "exchange_spec dig s256 rm rc (abs (cs_store st)) (form_presented g) now"
    obtain s' where "token_endpoint ops dig s256 rm rc (cs_store st) (Some g) now = Inr (fst ?x, s')"
      "inv s'" "abs s' = snd ?x"
      using token_refines [where dig = dig and ?s256.0 = s256 and rm = rm and rc = rc and now = now, OF assms g(2)] by blast
    moreover have "typed (snd ?x)" by (rule typed_exchange [OF assms(2)])
    moreover have "pr_code (form_presented g) = field (tf_code g)" by (simp add: form_presented_def)
    ultimately show ?thesis
      using EToken g(1) exchange_no_code [of "abs (cs_store st)"] by (auto simp: issues_def)
  qed
next
  case (ERevoke t)
  then show ?thesis
    using revoke_refines [where dig = dig and t = "field t", OF assms(1,3)] assms(1,2)
    by (auto simp: revoke_endpoint_def issues_def typed_del)
next
  case (ERevokeById i)
  then show ?thesis
    using revoke_by_id_refines [OF assms(1,2), of i] typed_revoked [OF assms(2), of i]
    by (auto simp: issues_def revoked_def)
next
  case (ESweep now)
  then show ?thesis
    using sweep_connect_spec [OF assms(1,2), of now] assms(2) by (auto simp: issues_def typed_restrict)
next
  case (ESeen cred now)
  then show ?thesis
    using seen_refines [where dig = dig and n = seen_every_ms and w = "cs_written st" and cred = cred and now = now, OF assms(1,3)] assms(2)
    by (auto simp: issues_def typed_upd)
qed

lemma connect_run_spec:
  assumes "inv (cs_store st)" "typed (abs (cs_store st))" "\<And>x. hex64 (dig x)"
  shows "\<exists>rs st'. connect_run ops dig s256 es st = Inr (rs, st') \<and> inv (cs_store st') \<and>
    typed (abs (cs_store st')) \<and> length rs = length es \<and>
    (\<forall>d. abs (cs_store st) (code_key d) = None \<and> list_all (\<lambda>e. \<not> saves dig d e) es \<longrightarrow>
      list_all (\<lambda>(e, r). \<not> issues dig d e r) (zip es rs))"
  using assms(1,2)
proof (induction es arbitrary: st)
  case Nil
  then show ?case by simp
next
  case (Cons e es)
  obtain r st1 where st1: "connect_step ops dig s256 e st = Inr (r, st1)" "inv (cs_store st1)"
    "typed (abs (cs_store st1))"
    and n1: "\<And>d. abs (cs_store st) (code_key d) = None \<Longrightarrow> \<not> saves dig d e \<Longrightarrow>
      abs (cs_store st1) (code_key d) = None \<and> \<not> issues dig d e r"
    using connect_step_spec [where dig = dig and e = e, OF Cons.prems assms(3)] by blast
  obtain rs st2 where "connect_run ops dig s256 es st1 = Inr (rs, st2)" "inv (cs_store st2)"
    "typed (abs (cs_store st2))" "length rs = length es"
    "\<And>d. abs (cs_store st1) (code_key d) = None \<Longrightarrow> list_all (\<lambda>e. \<not> saves dig d e) es \<Longrightarrow>
      list_all (\<lambda>(e, r). \<not> issues dig d e r) (zip es rs)"
    using Cons.IH [OF st1(2,3)] by blast
  then show ?case using st1(1) n1 by auto
qed

end

interpretation mem_connect: connect_store "memory_state_store collate" mem_inv map_of
  by unfold_locales

interpretation disk_connect: connect_store "file_state_store hex" "disk_inv hex" disk_abs
  by unfold_locales


section \<open>Properties\<close>

text \<open>Concrete data for the witnesses: a constant stand-in for SHA-256 that tells codes from
  credentials, and a disk that holds one approved code.\<close>

definition toy_digest :: "string \<Rightarrow> string" where
  "toy_digest x = replicate 64 (if prefix code_prefix x then CHR ''0'' else CHR ''1'')"

lemma toy_digest_hex: "\<forall>x. hex64 (toy_digest x)"
  by (simp add: toy_digest_def hex64_def is_digit_def list_all_iff)

definition sample_code :: pending_code where
  "sample_code = \<lparr>pc_clientId = ''https://wp'', pc_clientName = ''WP'', pc_redirectUri = ''https://wp/cb'',
     pc_site = ''https://site'', pc_codeChallenge = ''challenge'', pc_approvedBy = ''owner'', pc_context = [],
     pc_expiresAt = 1000\<rparr>"

definition sample_disk :: "stored disk" where
  "sample_disk = \<lparr>disk_files = [(file_of (code_key (toy_digest ''nln_code_x'')), SCode sample_code)], disk_draw = 0\<rparr>"

definition sample_form :: token_form where
  "sample_form = \<lparr>tf_grant_type = Some ''authorization_code'', tf_code = Some ''nln_code_x'',
     tf_code_verifier = Some (replicate 43 (CHR ''v'')), tf_redirect_uri = Some ''https://wp/cb'',
     tf_client_id = Some ''https://wp''\<rparr>"

lemma sample_disk_ok: "disk_inv (\<lambda>n. []) sample_disk" "typed (disk_abs sample_disk)"
proof -
  let ?d = "toy_digest ''nln_code_x''"
  have h: "hex64 ?d" using toy_digest_hex by blast
  have v: "valid_key (code_key ?d)" using h by simp
  show "disk_inv (\<lambda>n. []) sample_disk"
    using v by (auto simp: disk_inv_def sample_disk_def)
  have "disk_abs sample_disk k = Some x \<Longrightarrow> k = code_key ?d \<and> x = SCode sample_code" for k x
    using v by (auto simp: disk_abs_def file_read_def sample_disk_def file_of_inj split: if_splits)
  then show "typed (disk_abs sample_disk)" by (force simp: typed_def)
qed

lemma sample_issue:
  "token_endpoint (file_state_store (\<lambda>n. [])) toy_digest (\<lambda>_. ''challenge'') ''m'' (replicate 43 (CHR ''c''))
     sample_disk (Some sample_form) 500 =
   Inr (TokenIssued (site_credential_prefix @ replicate 43 (CHR ''c'')) ''https://site'',
     snd (projr (token_endpoint (file_state_store (\<lambda>n. [])) toy_digest (\<lambda>_. ''challenge'') ''m'' (replicate 43 (CHR ''c''))
       sample_disk (Some sample_form) 500)))"
  by code_simp

text \<open>C27: the token endpoint issues a credential only for an approved code, still unexpired,
  presented by the client it was approved for, with that client's redirect and with the verifier
  of its challenge; the credential then resolves to exactly the approved site, and the code is
  gone from the store.\<close>

theorem token_issue_sound:
  assumes "disk_inv hex s" "typed (disk_abs s)" "\<forall>x. hex64 (dig x)"
    and "token_endpoint (file_state_store hex) dig s256 rm rc s (Some f) now = Inr (TokenIssued cred site, s')"
    and "length rc = 43" "list_all is_alnum rc"
  shows "\<exists>c. disk_abs s (code_key (dig (field (tf_code f)))) = Some (SCode c) \<and> now < pc_expiresAt c \<and>
    pc_clientId c = field (tf_client_id f) \<and> pc_redirectUri c = field (tf_redirect_uri f) \<and>
    verifier_re (field (tf_code_verifier f)) \<and> s256 (field (tf_code_verifier f)) = pc_codeChallenge c \<and>
    site = pc_site c \<and>
    resolve_credential (file_state_store hex) dig s' cred = Inr (Some (credential_of c cred now)) \<and>
    disk_abs s' (code_key (dig (field (tf_code f)))) = None"
proof -
  have fo: "form_ok f" by (rule token_issued_form [OF assms(4)])
  have dig: "\<And>x. hex64 (dig x)" using assms(3) by blast
  let ?x = "exchange_spec dig s256 rm rc (disk_abs s) (form_presented f) now"
  have x: "fst ?x = TokenIssued cred site" "disk_inv hex s'" "disk_abs s' = snd ?x"
    using disk_connect.token_refines [where dig = dig and ?s256.0 = s256 and rm = rm and rc = rc and now = now,
        OF assms(1,2) dig fo] assms(4) by auto
  then have "?x = (TokenIssued cred site, disk_abs s')" by (metis prod.collapse)
  then obtain c where c: "disk_abs s (code_key (dig (pr_code (form_presented f)))) = Some (SCode c)"
    "now < pc_expiresAt c" "pc_clientId c = pr_clientId (form_presented f)"
    "pc_redirectUri c = pr_redirectUri (form_presented f)"
    "code_challenge_of s256 (pr_codeVerifier (form_presented f)) = Some (pc_codeChallenge c)"
    "site = pc_site c" "cred = site_credential_prefix @ rc"
    and s': "disk_abs s' = (disk_abs s)(used_key (dig (pr_code (form_presented f))) := Some (SMarker now rm),
       code_key (dig (pr_code (form_presented f))) := None,
       cred_key (dig cred) := Some (SCredential (credential_of c cred now)),
       issued_key (dig (pr_code (form_presented f))) := Some (SIssued (issue_of c (dig cred))))"
    by (rule exchange_issued)
  have t': "typed (disk_abs s')" using x(3) typed_exchange [OF assms(2)] by simp
  have "is_site_credential cred" using c(7) assms(5,6) by (simp add: is_site_credential_def Let_def)
  then have "resolve_credential (file_state_store hex) dig s' cred = Inr (Some (credential_of c cred now))"
    using disk_connect.resolve_refines [where dig = dig and credential = cred, OF x(2) t' dig] s' by simp
  with c s' show ?thesis
    by (intro exI [of _ c]) (auto simp: form_presented_def code_challenge_of_def split: if_splits)
qed

theorem token_issue_sound_witness:
  "\<exists>s'. token_endpoint (file_state_store (\<lambda>n. [])) toy_digest (\<lambda>_. ''challenge'') ''m'' (replicate 43 (CHR ''c''))
      sample_disk (Some sample_form) 500 =
      Inr (TokenIssued (site_credential_prefix @ replicate 43 (CHR ''c'')) ''https://site'', s') \<and>
    (\<exists>c. resolve_credential (file_state_store (\<lambda>n. [])) toy_digest s'
      (site_credential_prefix @ replicate 43 (CHR ''c'')) = Inr (Some c) \<and> sc_site c = ''https://site'')"
proof -
  have "list_all is_alnum (replicate 43 (CHR ''c''))" by (simp add: list_all_iff is_alnum_def is_lower_alpha_def)
  from token_issue_sound [OF sample_disk_ok toy_digest_hex sample_issue _ this] sample_issue
  show ?thesis by (auto simp: credential_of_def)
qed


text \<open>An authorization code is exchanged at most once. After it has been, no later sequence of
  saved codes, token requests, revocations, sweeps and use records, however they are ordered,
  makes the gate issue anything for that code again, as long as no freshly drawn code has its
  digest; and no such sequence makes the store fail.\<close>

theorem code_single_use:
  assumes "disk_inv hex s" "typed (disk_abs s)" "\<forall>x. hex64 (dig x)"
    and "token_endpoint (file_state_store hex) dig s256 rm rc s (Some f) now = Inr (TokenIssued cred site, s')"
    and "list_all (\<lambda>e. \<not> saves dig (dig (field (tf_code f))) e) es"
  shows "\<exists>rs st. connect_run (file_state_store hex) dig s256 es
      \<lparr>cs_store = s', cs_lastSweep = swept_at, cs_written = w\<rparr> = Inr (rs, st) \<and> length rs = length es \<and>
    list_all (\<lambda>(e, r). \<not> issues dig (dig (field (tf_code f))) e r) (zip es rs)"
proof -
  have fo: "form_ok f" by (rule token_issued_form [OF assms(4)])
  have dig: "\<And>x. hex64 (dig x)" using assms(3) by blast
  let ?x = "exchange_spec dig s256 rm rc (disk_abs s) (form_presented f) now"
  have x: "fst ?x = TokenIssued cred site" "disk_inv hex s'" "disk_abs s' = snd ?x"
    using disk_connect.token_refines [where dig = dig and ?s256.0 = s256 and rm = rm and rc = rc and now = now,
        OF assms(1,2) dig fo] assms(4) by auto
  then have "?x = (TokenIssued cred site, disk_abs s')" by (metis prod.collapse)
  then have gone: "disk_abs s' (code_key (dig (field (tf_code f)))) = None"
    by (rule exchange_issued) (simp add: form_presented_def)
  have "typed (disk_abs s')" using x(3) typed_exchange [OF assms(2)] by simp
  then show ?thesis
    using disk_connect.connect_run_spec [where hex = hex and dig = dig and ?s256.0 = s256 and es = es and
        st = "\<lparr>cs_store = s', cs_lastSweep = swept_at, cs_written = w\<rparr>", OF _ _ dig] x(2) gone assms(5)
    by auto
qed

theorem code_single_use_witness:
  "\<exists>s' rs st. connect_run (file_state_store (\<lambda>n. [])) toy_digest (\<lambda>_. ''challenge'')
      [EToken ''m'' (replicate 43 (CHR ''d'')) (Some sample_form) 500, ESweep 900000,
       EToken ''n'' (replicate 43 (CHR ''d'')) (Some sample_form) 900001]
      \<lparr>cs_store = s', cs_lastSweep = None, cs_written = []\<rparr> = Inr (rs, st) \<and> length rs = 3 \<and>
    (\<forall>c. rs ! 2 \<noteq> Some (TokenIssued c ''https://site''))"
proof -
  let ?es = "[EToken ''m'' (replicate 43 (CHR ''d'')) (Some sample_form) 500, ESweep 900000,
       EToken ''n'' (replicate 43 (CHR ''d'')) (Some sample_form) 900001]"
  have "list_all (\<lambda>e. \<not> saves toy_digest (toy_digest (field (tf_code sample_form))) e) ?es"
    by (simp add: saves_def)
  from code_single_use [OF sample_disk_ok toy_digest_hex sample_issue this, of None "[]"]
  obtain s' rs st where r: "connect_run (file_state_store (\<lambda>n. [])) toy_digest (\<lambda>_. ''challenge'') ?es
      \<lparr>cs_store = s', cs_lastSweep = None, cs_written = []\<rparr> = Inr (rs, st)" "length rs = 3"
    and i: "list_all (\<lambda>(e, r). \<not> issues toy_digest (toy_digest (field (tf_code sample_form))) e r) (zip ?es rs)"
    by auto
  have "\<forall>c. rs ! 2 \<noteq> Some (TokenIssued c ''https://site'')"
    using i r(2) by (auto simp: length_Suc_conv numeral_3_eq_3 issues_def)
  with r show ?thesis by blast
qed

text \<open>A replayed code takes back what it was exchanged for. When a request that was answered
  with a credential is made a second time, it is refused as already used and the credential no
  longer resolves.\<close>

theorem replay_revokes:
  assumes "disk_inv hex s" "typed (disk_abs s)" "\<forall>x. hex64 (dig x)"
    and "token_endpoint (file_state_store hex) dig s256 rm rc s (Some f) now = Inr (TokenIssued cred site, s')"
  shows "\<exists>s''. token_endpoint (file_state_store hex) dig s256 rm' rc' s' (Some f) now' =
      Inr (TokenRefused InvalidGrant CodeAlreadyUsed 400, s'') \<and>
    resolve_credential (file_state_store hex) dig s'' cred = Inr None"
proof -
  have fo: "form_ok f" by (rule token_issued_form [OF assms(4)])
  have dig: "\<And>x. hex64 (dig x)" using assms(3) by blast
  let ?p = "form_presented f"
  let ?x = "exchange_spec dig s256 rm rc (disk_abs s) ?p now"
  let ?y = "exchange_spec dig s256 rm' rc' (disk_abs s') ?p now'"
  have x: "fst ?x = TokenIssued cred site" "disk_inv hex s'" "disk_abs s' = snd ?x"
    using disk_connect.token_refines [where dig = dig and ?s256.0 = s256 and rm = rm and rc = rc and now = now,
        OF assms(1,2) dig fo] assms(4) by auto
  have t': "typed (disk_abs s')" using x(3) typed_exchange [OF assms(2)] by simp
  have "?x = (TokenIssued cred site, disk_abs s')" using x by (metis prod.collapse)
  then obtain c where c: "disk_abs s (code_key (dig (pr_code ?p))) = Some (SCode c)"
    "pc_clientId c = pr_clientId ?p" "pc_redirectUri c = pr_redirectUri ?p"
    "code_challenge_of s256 (pr_codeVerifier ?p) = Some (pc_codeChallenge c)"
    "disk_abs s' = (disk_abs s)(used_key (dig (pr_code ?p)) := Some (SMarker now rm),
       code_key (dig (pr_code ?p)) := None,
       cred_key (dig cred) := Some (SCredential (credential_of c cred now)),
       issued_key (dig (pr_code ?p)) := Some (SIssued (issue_of c (dig cred))))"
    by (rule exchange_issued)
  have pre: "prefix code_prefix (pr_code ?p)"
    by (rule ccontr) (use x(1) in \<open>auto simp: exchange_spec_def redeem_spec_def Let_def\<close>)
  have "redeem_spec dig s256 rm' (disk_abs s') ?p now' =
      (Refused InvalidGrant CodeAlreadyUsed (Some (dig cred)), disk_abs s')"
    using pre c by (simp add: redeem_spec_def Let_def replay_of_def issue_of_def)
  then have y: "?y = (TokenRefused InvalidGrant CodeAlreadyUsed 400, revoked (disk_abs s') (dig cred))"
    by (simp add: exchange_spec_def)
  obtain s'' where s'': "token_endpoint (file_state_store hex) dig s256 rm' rc' s' (Some f) now' = Inr (fst ?y, s'')"
    "disk_inv hex s''" "disk_abs s'' = snd ?y"
    using disk_connect.token_refines [where dig = dig and ?s256.0 = s256 and rm = rm' and rc = rc' and now = now',
        OF x(2) t' dig fo] by blast
  have "disk_abs s'' (cred_key (dig cred)) = None" using s''(3) y dig by (simp add: revoked_def)
  moreover have "typed (disk_abs s'')" using s''(3) y typed_revoked [OF t'] by simp
  ultimately have "resolve_credential (file_state_store hex) dig s'' cred = Inr None"
    using disk_connect.resolve_refines [where dig = dig and credential = cred, OF s''(2) _ dig]
    by (cases "is_site_credential cred") (auto simp: resolve_credential_def)
  then show ?thesis using s''(1) y by simp
qed

theorem replay_revokes_witness:
  "\<exists>s' s''. token_endpoint (file_state_store (\<lambda>n. [])) toy_digest (\<lambda>_. ''challenge'') ''n'' [] s' (Some sample_form) 600 =
      Inr (TokenRefused InvalidGrant CodeAlreadyUsed 400, s'') \<and>
    resolve_credential (file_state_store (\<lambda>n. [])) toy_digest s''
      (site_credential_prefix @ replicate 43 (CHR ''c'')) = Inr None"
  using replay_revokes [OF sample_disk_ok toy_digest_hex sample_issue, of "''n''" "[]" 600] by blast

text \<open>The sweep removes exactly the dead rows. It always completes; a code goes at its deadline,
  a used-marker once its code's lifetime has passed, an exchange record with its marker, a
  last-use time with its credential; every other row, and every credential, keeps its value.\<close>

theorem sweep_exact:
  assumes "disk_inv hex s" "typed (disk_abs s)"
  shows "\<exists>s' n. sweep_connect (file_state_store hex) s now = (s', Inr n) \<and> disk_inv hex s' \<and>
    disk_abs s' = (\<lambda>k. if swept now (disk_abs s) k then None else disk_abs s k) \<and>
    (\<forall>d. disk_abs s' (cred_key d) = disk_abs s (cred_key d))"
proof -
  obtain s' n where s': "sweep_connect (file_state_store hex) s now = (s', Inr n)" "disk_inv hex s'"
    "disk_abs s' = (\<lambda>k. if swept now (disk_abs s) k then None else disk_abs s k)"
    using disk_connect.sweep_connect_spec [OF assms] by blast
  have "\<not> swept now (disk_abs s) (cred_key d)" for d
  proof (cases "disk_abs s (cred_key d)")
    case (Some v)
    then obtain r where "v = SCredential r" using typed_get [OF assms(2) Some] by auto
    with Some show ?thesis by (simp add: swept_def)
  qed (simp add: swept_def)
  with s' show ?thesis by auto
qed

theorem sweep_exact_witness:
  "\<exists>s' n. sweep_connect (file_state_store (\<lambda>n. [])) sample_disk 1000 = (s', Inr n) \<and>
    disk_abs s' (code_key (toy_digest ''nln_code_x'')) = None"
proof -
  let ?k = "code_key (toy_digest ''nln_code_x'')"
  have "hex64 (toy_digest ''nln_code_x'')" using toy_digest_hex by blast
  then have "disk_abs sample_disk ?k = Some (SCode sample_code)"
    by (simp add: disk_abs_def file_read_def sample_disk_def)
  then have "swept 1000 (disk_abs sample_disk) ?k" by (simp add: swept_def sample_code_def)
  with sweep_exact [OF sample_disk_ok, of 1000] show ?thesis by auto
qed

end
