(* ===== verification/ConnectRace.thy ===== *)
theory ConnectRace
  imports Grants
begin

text \<open>
  Redemptions of one authorization code that race: \<open>redeemCode\<close> of \<open>connect/grants.ts\<close> taken apart
  at its \<open>await\<close>s. Each attempt reads the code's row, claims the used-marker, deletes the row and
  then checks what it was given; the atomic operations of any number of attempts interleave with
  each other, with the clock and with a sweep that lists dead rows first and deletes them one by one
  later. The backend is the memory store.
\<close>

section \<open>The step relation\<close>

text \<open>An attempt's \<open>now\<close> is fixed when it starts. A finished attempt remembers whether it had
  claimed the marker, and when it had started.\<close>

datatype attempt = AIdle
  | ARead presented int pending_code
  | AWon presented int pending_code
  | ADone presented redeemed "int option"

record race =
  ra_store :: "(string, stored) js_map"
  ra_clock :: int
  ra_doomed :: "string list"
  ra_att :: "nat \<Rightarrow> attempt"

definition dead_keys :: "int \<Rightarrow> (string, stored) js_map \<Rightarrow> string list" where
  "dead_keys now rows =
     map fst (filter (\<lambda>(k, v). case v of SCode c \<Rightarrow> pc_expiresAt c \<le> now
        | SMarker t _ \<Rightarrow> t + code_ttl_ms \<le> now | _ \<Rightarrow> False) rows)"

definition in_flight :: "attempt \<Rightarrow> int option" where
  "in_flight a = (case a of ARead _ t _ \<Rightarrow> Some t | AWon _ t _ \<Rightarrow> Some t | _ \<Rightarrow> None)"

text \<open>\<open>life\<close> bounds how long an attempt can be in flight; \<open>rnd i\<close> is the random part of the marker of
  attempt \<open>i\<close>.\<close>

inductive race_step :: "(string \<Rightarrow> string) \<Rightarrow> (string \<Rightarrow> string) \<Rightarrow> (nat \<Rightarrow> string) \<Rightarrow> int \<Rightarrow> race \<Rightarrow> race \<Rightarrow> bool"
  for dig s256 rnd life where
  r_read: "ra_att st i = AIdle \<Longrightarrow> prefix code_prefix (pr_code p) \<Longrightarrow>
    t \<le> ra_clock st \<Longrightarrow> ra_clock st < t + life \<Longrightarrow>
    mem_get (ra_store st) (code_key (dig (pr_code p))) = Inr (Some (SCode c)) \<Longrightarrow>
    race_step dig s256 rnd life st (st\<lparr>ra_att := (ra_att st)(i := ARead p t c)\<rparr>)"
| r_miss: "ra_att st i = AIdle \<Longrightarrow>
    mem_get (ra_store st) (code_key (dig (pr_code p))) = Inr None \<Longrightarrow>
    redeem_code (memory_state_store collate) dig s256 (rnd i) (ra_store st) p t = Inr (r, s1) \<Longrightarrow>
    race_step dig s256 rnd life st (st\<lparr>ra_store := s1, ra_att := (ra_att st)(i := ADone p r None)\<rparr>)"
| r_claim: "ra_att st i = ARead p t c \<Longrightarrow>
    mem_create (ra_store st) (used_key (dig (pr_code p))) (SMarker t (rnd i)) = Inr (SMarker t (rnd i), s1) \<Longrightarrow>
    race_step dig s256 rnd life st (st\<lparr>ra_store := s1, ra_att := (ra_att st)(i := AWon p t c)\<rparr>)"
| r_lose: "ra_att st i = ARead p t c \<Longrightarrow>
    mem_create (ra_store st) (used_key (dig (pr_code p))) (SMarker t (rnd i)) = Inr (held, s1) \<Longrightarrow>
    held \<noteq> SMarker t (rnd i) \<Longrightarrow>
    replay (memory_state_store collate) s256 s1 (dig (pr_code p)) p = Inr r \<Longrightarrow>
    race_step dig s256 rnd life st (st\<lparr>ra_store := s1, ra_att := (ra_att st)(i := ADone p r None)\<rparr>)"
| r_finish: "ra_att st i = AWon p t c \<Longrightarrow>
    mem_delete (ra_store st) (code_key (dig (pr_code p))) = Inr s1 \<Longrightarrow>
    race_step dig s256 rnd life st
      (st\<lparr>ra_store := s1,
         ra_att := (ra_att st)(i := ADone p (check_code s256 (dig (pr_code p)) c p t) (Some t))\<rparr>)"
| r_tick: "ra_clock st \<le> now \<Longrightarrow> (\<And>i t. in_flight (ra_att st i) = Some t \<Longrightarrow> now < t + life) \<Longrightarrow>
    race_step dig s256 rnd life st (st\<lparr>ra_clock := now\<rparr>)"
| r_sweep_list: "race_step dig s256 rnd life st (st\<lparr>ra_doomed := dead_keys (ra_clock st) (ra_store st)\<rparr>)"
| r_sweep_delete: "ra_doomed st = k # ks \<Longrightarrow> mem_delete (ra_store st) k = Inr s1 \<Longrightarrow>
    race_step dig s256 rnd life st (st\<lparr>ra_store := s1, ra_doomed := ks\<rparr>)"

section \<open>At most one attempt ever claims\<close>

definition reads :: "(string \<Rightarrow> string) \<Rightarrow> string \<Rightarrow> attempt \<Rightarrow> int \<Rightarrow> bool" where
  "reads dig d a t \<longleftrightarrow> (\<exists>p c. a = ARead p t c \<and> dig (pr_code p) = d)"

definition wins :: "(string \<Rightarrow> string) \<Rightarrow> string \<Rightarrow> attempt \<Rightarrow> int \<Rightarrow> bool" where
  "wins dig d a t \<longleftrightarrow> (\<exists>p c. a = AWon p t c \<and> dig (pr_code p) = d)"

definition closed_at :: "(string \<Rightarrow> string) \<Rightarrow> string \<Rightarrow> attempt \<Rightarrow> int \<Rightarrow> bool" where
  "closed_at dig d a t \<longleftrightarrow> (\<exists>p r. a = ADone p r (Some t) \<and> dig (pr_code p) = d)"

definition won :: "(string \<Rightarrow> string) \<Rightarrow> string \<Rightarrow> attempt \<Rightarrow> int \<Rightarrow> bool" where
  "won dig d a t \<longleftrightarrow> wins dig d a t \<or> closed_at dig d a t"

text \<open>The invariant, for one digest \<open>d\<close>: attempts in flight are young; a winner's marker stands until
  no reader of the row is left; once the winner is through, the row is gone.\<close>

definition race_inv :: "(string \<Rightarrow> string) \<Rightarrow> (nat \<Rightarrow> string) \<Rightarrow> int \<Rightarrow> string \<Rightarrow> race \<Rightarrow> bool" where
  "race_inv dig rnd life d st \<longleftrightarrow>
     (\<forall>i t. in_flight (ra_att st i) = Some t \<longrightarrow> t \<le> ra_clock st \<and> ra_clock st < t + life) \<and>
     (\<forall>i j t t'. won dig d (ra_att st i) t \<longrightarrow> won dig d (ra_att st j) t' \<longrightarrow> i = j) \<and>
     (\<forall>v. map_of (ra_store st) (used_key d) = Some v \<longrightarrow>
        (\<exists>i t. won dig d (ra_att st i) t \<and> v = SMarker t (rnd i))) \<and>
     (\<forall>i t. won dig d (ra_att st i) t \<longrightarrow> map_of (ra_store st) (used_key d) = None \<longrightarrow>
        (\<forall>j t'. \<not> reads dig d (ra_att st j) t') \<and> map_of (ra_store st) (code_key d) = None) \<and>
     (\<forall>i t. closed_at dig d (ra_att st i) t \<longrightarrow> map_of (ra_store st) (code_key d) = None \<and>
        (\<forall>j t'. reads dig d (ra_att st j) t' \<longrightarrow> t' < t + life)) \<and>
     (used_key d \<in> set (ra_doomed st) \<longrightarrow> (\<exists>i t. won dig d (ra_att st i) t \<and> t + code_ttl_ms \<le> ra_clock st)) \<and>
     mem_inv (ra_store st)"

lemma attempt_simps [simp]:
  "\<not> reads dig d AIdle t" "reads dig d (ARead p t' c) t \<longleftrightarrow> t' = t \<and> dig (pr_code p) = d"
  "\<not> reads dig d (AWon p t' c) t" "\<not> reads dig d (ADone p r x) t"
  "\<not> won dig d AIdle t" "\<not> won dig d (ARead p t' c) t"
  "won dig d (AWon p t' c) t \<longleftrightarrow> t' = t \<and> dig (pr_code p) = d"
  "won dig d (ADone p r x) t \<longleftrightarrow> x = Some t \<and> dig (pr_code p) = d"
  "\<not> closed_at dig d AIdle t" "\<not> closed_at dig d (ARead p t' c) t" "\<not> closed_at dig d (AWon p t' c) t"
  "closed_at dig d (ADone p r x) t \<longleftrightarrow> x = Some t \<and> dig (pr_code p) = d"
  "in_flight AIdle = None" "in_flight (ARead p t c) = Some t" "in_flight (AWon p t c) = Some t"
  "in_flight (ADone p r x) = None"
  by (auto simp: reads_def won_def wins_def closed_at_def in_flight_def)

lemma won_cases: "won dig d a t \<Longrightarrow> in_flight a = Some t \<or> closed_at dig d a t"
  by (cases a) auto

lemma reads_in_flight: "reads dig d a t \<Longrightarrow> in_flight a = Some t"
  by (cases a) auto


lemma race_invD:
  assumes "race_inv dig rnd life d st"
  shows "in_flight (ra_att st i) = Some t \<Longrightarrow> t \<le> ra_clock st \<and> ra_clock st < t + life"
    and "won dig d (ra_att st i) t \<Longrightarrow> won dig d (ra_att st j) t' \<Longrightarrow> i = j"
    and "map_of (ra_store st) (used_key d) = Some v \<Longrightarrow>
        \<exists>i t. won dig d (ra_att st i) t \<and> v = SMarker t (rnd i)"
    and "won dig d (ra_att st i) t \<Longrightarrow> map_of (ra_store st) (used_key d) = None \<Longrightarrow>
        (\<forall>j t'. \<not> reads dig d (ra_att st j) t') \<and> map_of (ra_store st) (code_key d) = None"
    and "closed_at dig d (ra_att st i) t \<Longrightarrow> map_of (ra_store st) (code_key d) = None \<and>
        (\<forall>j t'. reads dig d (ra_att st j) t' \<longrightarrow> t' < t + life)"
    and "used_key d \<in> set (ra_doomed st) \<Longrightarrow> \<exists>i t. won dig d (ra_att st i) t \<and> t + code_ttl_ms \<le> ra_clock st"
    and "mem_inv (ra_store st)"
  using assms unfolding race_inv_def by blast+

lemma race_invI:
  assumes "\<And>i t. in_flight (ra_att st i) = Some t \<Longrightarrow> t \<le> ra_clock st \<and> ra_clock st < t + life"
    and "\<And>i j t t'. won dig d (ra_att st i) t \<Longrightarrow> won dig d (ra_att st j) t' \<Longrightarrow> i = j"
    and "\<And>v. map_of (ra_store st) (used_key d) = Some v \<Longrightarrow>
        \<exists>i t. won dig d (ra_att st i) t \<and> v = SMarker t (rnd i)"
    and "\<And>i t j t'. won dig d (ra_att st i) t \<Longrightarrow> map_of (ra_store st) (used_key d) = None \<Longrightarrow>
        \<not> reads dig d (ra_att st j) t'"
    and "\<And>i t. won dig d (ra_att st i) t \<Longrightarrow> map_of (ra_store st) (used_key d) = None \<Longrightarrow>
        map_of (ra_store st) (code_key d) = None"
    and "\<And>i t. closed_at dig d (ra_att st i) t \<Longrightarrow> map_of (ra_store st) (code_key d) = None"
    and "\<And>i t j t'. closed_at dig d (ra_att st i) t \<Longrightarrow> reads dig d (ra_att st j) t' \<Longrightarrow> t' < t + life"
    and "used_key d \<in> set (ra_doomed st) \<Longrightarrow> \<exists>i t. won dig d (ra_att st i) t \<and> t + code_ttl_ms \<le> ra_clock st"
    and "mem_inv (ra_store st)"
  shows "race_inv dig rnd life d st"
  using assms unfolding race_inv_def by blast

lemma won_upd_iff:
  "won dig d ((f(i := a)) j) t \<longleftrightarrow> (if j = i then won dig d a t else won dig d (f j) t)"
  "reads dig d ((f(i := a)) j) t \<longleftrightarrow> (if j = i then reads dig d a t else reads dig d (f j) t)"
  "closed_at dig d ((f(i := a)) j) t \<longleftrightarrow> (if j = i then closed_at dig d a t else closed_at dig d (f j) t)"
  "in_flight ((f(i := a)) j) = (if j = i then in_flight a else in_flight (f j))"
  by simp_all

lemma inv_read:
  assumes I: "race_inv dig rnd life d st" and a: "ra_att st i = AIdle"
    and t: "t \<le> ra_clock st" "ra_clock st < t + life"
    and r: "mem_get (ra_store st) (code_key (dig (pr_code p))) = Inr (Some (SCode c))"
  shows "race_inv dig rnd life d (st\<lparr>ra_att := (ra_att st)(i := ARead p t c)\<rparr>)"
proof -
  note D = race_invD [OF I]
  have row: "dig (pr_code p) = d \<Longrightarrow> map_of (ra_store st) (code_key d) \<noteq> None"
    using r by (auto simp: mem_get_def check_key_def split: if_splits)
  have w: "won dig d (ra_att st j) t' \<Longrightarrow> j \<noteq> i" "closed_at dig d (ra_att st j) t' \<Longrightarrow> j \<noteq> i"
    "reads dig d (ra_att st j) t' \<Longrightarrow> j \<noteq> i" for j t' using a by auto
  show ?thesis
  proof (rule race_invI, goal_cases)
    case (1 j t') then show ?case using D(1) t by (auto simp: won_upd_iff split: if_splits)
  next
    case (2 j j' t' t'') then show ?case using D(2) by (auto simp: won_upd_iff split: if_splits)
  next
    case (3 v) then show ?case using D(3) [of v] w(1) by (fastforce simp: won_upd_iff)
  next
    case (4 j t' j' t'') then show ?case using D(4) row by (fastforce simp: won_upd_iff split: if_splits)
  next
    case (5 j t') then show ?case using D(4) by (fastforce simp: won_upd_iff split: if_splits)
  next
    case (6 j t') then show ?case using D(5) by (fastforce simp: won_upd_iff split: if_splits)
  next
    case (7 j t' j' t'') then show ?case using D(5) row by (fastforce simp: won_upd_iff split: if_splits)
  next
    case 8 then show ?case using D(6) w(1) by (fastforce simp: won_upd_iff)
  next
    case 9 then show ?case using D(7) by simp
  qed
qed


lemma inv_drop:
  assumes I: "race_inv dig rnd life d st" and a: "ra_att st i = AIdle \<or> (\<exists>q t c. ra_att st i = ARead q t c)"
  shows "race_inv dig rnd life d (st\<lparr>ra_att := (ra_att st)(i := ADone p r None)\<rparr>)"
proof -
  note D = race_invD [OF I]
  have w: "\<not> won dig d (ra_att st i) t'" "\<not> closed_at dig d (ra_att st i) t'" for t' using a by auto
  show ?thesis
  proof (rule race_invI, goal_cases)
    case (1 j t') then show ?case using D(1) by (auto simp: won_upd_iff split: if_splits)
  next
    case (2 j j' t' t'') then show ?case using D(2) by (auto simp: won_upd_iff split: if_splits)
  next
    case (3 v)
    then obtain j t where "won dig d (ra_att st j) t" "v = SMarker t (rnd j)" using D(3) by auto
    with w(1) show ?case by (intro exI [of _ j] exI [of _ t]) (auto simp: won_upd_iff)
  next
    case (4 j t' j' t'') then show ?case using D(4) by (fastforce simp: won_upd_iff split: if_splits)
  next
    case (5 j t') then show ?case using D(4) by (fastforce simp: won_upd_iff split: if_splits)
  next
    case (6 j t') then show ?case using D(5) by (fastforce simp: won_upd_iff split: if_splits)
  next
    case (7 j t' j' t'') then show ?case using D(5) by (fastforce simp: won_upd_iff split: if_splits)
  next
    case 8
    then obtain j t where "won dig d (ra_att st j) t" "t + code_ttl_ms \<le> ra_clock st" using D(6) by auto
    with w(1) show ?case by (intro exI [of _ j] exI [of _ t]) (auto simp: won_upd_iff)
  next
    case 9 then show ?case using D(7) by simp
  qed
qed

lemma mem_create_cases:
  assumes "mem_create rows k v = Inr (h, rows')"
  shows "valid_key k \<and> (map_of rows k = None \<and> h = v \<and> rows' = AList.update k v rows \<or>
    map_of rows k = Some h \<and> rows' = rows)"
  using assms by (auto simp: mem_create_def check_key_def split: if_splits option.splits)

lemma mem_delete_cases:
  "mem_delete rows k = Inr rows' \<Longrightarrow> valid_key k \<and> rows' = AList.delete k rows"
  by (auto simp: mem_delete_def check_key_def split: if_splits)

text \<open>A claim needs a free marker: nobody has won before.\<close>

lemma inv_claim:
  assumes I: "race_inv dig rnd life d st" and inj: "inj rnd" and a: "ra_att st i = ARead p t c"
    and m: "mem_create (ra_store st) (used_key (dig (pr_code p))) (SMarker t (rnd i)) = Inr (SMarker t (rnd i), s1)"
  shows "race_inv dig rnd life d (st\<lparr>ra_store := s1, ra_att := (ra_att st)(i := AWon p t c)\<rparr>)"
proof (cases "dig (pr_code p) = d")
  case True
  note D = race_invD [OF I]
  have r: "reads dig d (ra_att st i) t" using a True by simp
  have "map_of (ra_store st) (used_key d) \<noteq> Some (SMarker t (rnd i))"
  proof
    assume "map_of (ra_store st) (used_key d) = Some (SMarker t (rnd i))"
    then obtain j where "won dig d (ra_att st j) t" "rnd j = rnd i" using D(3) by fastforce
    with inj a show False by (auto dest: injD)
  qed
  then have free: "map_of (ra_store st) (used_key d) = None" and k: "valid_key (used_key d)"
    and s1: "s1 = AList.update (used_key d) (SMarker t (rnd i)) (ra_store st)"
    using mem_create_cases [OF m] True by auto
  have none: "\<not> won dig d (ra_att st j) t'" for j t' using D(4) [OF _ free] r by blast
  have nc: "\<not> closed_at dig d (ra_att st j) t'" for j t' using none won_def by blast
  show ?thesis
  proof (rule race_invI, goal_cases)
    case (1 j t') then show ?case using D(1) [of i t] D(1) [of j t'] a by (auto simp: won_upd_iff split: if_splits)
  next
    case (2 j j' t' t'') then show ?case using none by (auto simp: won_upd_iff split: if_splits)
  next
    case (3 v) then show ?case using s1 True by (intro exI [of _ i] exI [of _ t]) (simp add: map_of_update)
  next
    case (4 j t' j' t'') then show ?case using s1 by (simp add: map_of_update)
  next
    case (5 j t') then show ?case using s1 by (simp add: map_of_update)
  next
    case (6 j t') then show ?case using nc by (auto simp: won_upd_iff split: if_splits)
  next
    case (7 j t' j' t'') then show ?case using nc by (auto simp: won_upd_iff split: if_splits)
  next
    case 8 then show ?case using D(6) none by auto
  next
    case 9 then show ?case using D(7) s1 k by (simp add: mem_inv_update)
  qed
next
  case False
  note D = race_invD [OF I]
  have same: "map_of s1 (used_key d) = map_of (ra_store st) (used_key d)"
    "map_of s1 (code_key d) = map_of (ra_store st) (code_key d)" "mem_inv s1"
    using mem_create_cases [OF m] False D(7) by (auto simp: map_of_update mem_inv_update)
  have w: "\<not> won dig d (ra_att st i) t'" for t' using a by auto
  show ?thesis
  proof (rule race_invI, goal_cases)
    case (1 j t') then show ?case using D(1) [of i t] D(1) [of j t'] a by (auto simp: won_upd_iff split: if_splits)
  next
    case (2 j j' t' t'') then show ?case using D(2) False by (auto simp: won_upd_iff split: if_splits)
  next
    case (3 v)
    then obtain j t' where "won dig d (ra_att st j) t'" "v = SMarker t' (rnd j)" using D(3) same by auto
    with w show ?case by (intro exI [of _ j] exI [of _ t']) (auto simp: won_upd_iff)
  next
    case (4 j t' j' t'') then show ?case using D(4) False same by (fastforce simp: won_upd_iff split: if_splits)
  next
    case (5 j t') then show ?case using D(4) False same by (fastforce simp: won_upd_iff split: if_splits)
  next
    case (6 j t') then show ?case using D(5) False same by (fastforce simp: won_upd_iff split: if_splits)
  next
    case (7 j t' j' t'') then show ?case using D(5) False by (fastforce simp: won_upd_iff split: if_splits)
  next
    case 8
    then obtain j t' where "won dig d (ra_att st j) t'" "t' + code_ttl_ms \<le> ra_clock st" using D(6) by auto
    with w show ?case by (intro exI [of _ j] exI [of _ t']) (auto simp: won_upd_iff)
  next
    case 9 then show ?case using same(3) by simp
  qed
qed

text \<open>When the winner deletes the row, every attempt that still holds it started before now.\<close>

lemma inv_finish:
  assumes I: "race_inv dig rnd life d st" and a: "ra_att st i = AWon p t c"
    and m: "mem_delete (ra_store st) (code_key (dig (pr_code p))) = Inr s1"
  shows "race_inv dig rnd life d (st\<lparr>ra_store := s1, ra_att := (ra_att st)(i := ADone p r (Some t))\<rparr>)"
proof -
  note D = race_invD [OF I]
  have s1: "s1 = AList.delete (code_key (dig (pr_code p))) (ra_store st)" using mem_delete_cases [OF m] by simp
  have u: "map_of s1 (used_key d) = map_of (ra_store st) (used_key d)"
    and c: "map_of s1 (code_key d) = (if dig (pr_code p) = d then None else map_of (ra_store st) (code_key d))"
    by (simp_all add: s1 map_of_delete)
  have w: "won dig d (ra_att st i) t' \<longleftrightarrow> t' = t \<and> dig (pr_code p) = d" for t' using a by auto
  have young: "reads dig d (ra_att st j) t' \<Longrightarrow> dig (pr_code p) = d \<Longrightarrow> t' < t + life" for j t'
    using D(1) [of j t'] D(1) [of i t] reads_in_flight [of dig d "ra_att st j" t'] a by auto
  have wi: "won dig d (((ra_att st)(i := ADone p r (Some t))) j) t' \<longleftrightarrow> won dig d (ra_att st j) t'" for j t'
    using w by (auto simp: won_upd_iff)
  show ?thesis
  proof (rule race_invI, goal_cases)
    case (1 j t') then show ?case using D(1) by (auto simp: won_upd_iff split: if_splits)
  next
    case (2 j j' t' t'') then show ?case using D(2) wi by simp
  next
    case (3 v) then show ?case using D(3) u wi by simp
  next
    case (4 j t' j' t'') then show ?case using D(4) u wi by (fastforce simp: won_upd_iff split: if_splits)
  next
    case (5 j t') then show ?case using D(4) u wi c by fastforce
  next
    case (6 j t') then show ?case using D(5) c by (fastforce simp: won_upd_iff split: if_splits)
  next
    case (7 j t' j' t'') then show ?case using D(5) young by (fastforce simp: won_upd_iff split: if_splits)
  next
    case 8 then show ?case using D(6) wi by simp
  next
    case 9 then show ?case using D(7) by (simp add: s1 mem_inv_delete)
  qed
qed


lemma inv_tick:
  assumes I: "race_inv dig rnd life d st" and "ra_clock st \<le> now"
    and y: "\<And>i t. in_flight (ra_att st i) = Some t \<Longrightarrow> now < t + life"
  shows "race_inv dig rnd life d (st\<lparr>ra_clock := now\<rparr>)"
proof -
  note D = race_invD [OF I]
  show ?thesis
  proof (rule race_invI, goal_cases)
    case (1 i t) then show ?case using D(1) [of i t] y assms(2) by force
  next
    case (8)
    then show ?case using D(6) assms(2) by force
  next
    case (2 i j t t') then show ?case using D(2) by simp
  next
    case (3 v) then show ?case using D(3) by simp
  next
    case (4 i t j t') then show ?case using D(4) by simp
  next
    case (5 i t) then show ?case using D(4) by simp
  next
    case (6 i t) then show ?case using D(5) by simp
  next
    case (7 i t j t') then show ?case using D(5) by auto
  next
    case 9 then show ?case using D(7) by simp
  qed
qed

lemma dead_used:
  assumes "mem_inv rows" "k \<in> set (dead_keys now rows)" "map_of rows k = Some (SMarker t r)"
  shows "t + code_ttl_ms \<le> now"
proof -
  obtain v where v: "(k, v) \<in> set rows" "case v of SCode c \<Rightarrow> pc_expiresAt c \<le> now
        | SMarker t _ \<Rightarrow> t + code_ttl_ms \<le> now | _ \<Rightarrow> False"
    using assms(2) by (auto simp: dead_keys_def)
  have "map_of rows k = Some v" using assms(1) v(1) by (simp add: mem_inv_def)
  with assms(3) v(2) show ?thesis by simp
qed

lemma inv_sweep_list:
  assumes I: "race_inv dig rnd life d st"
  shows "race_inv dig rnd life d (st\<lparr>ra_doomed := dead_keys (ra_clock st) (ra_store st)\<rparr>)"
proof -
  note D = race_invD [OF I]
  show ?thesis
  proof (rule race_invI, goal_cases)
    case 8
    then have k: "used_key d \<in> set (dead_keys (ra_clock st) (ra_store st))" by simp
    then have "used_key d \<in> fst ` set (ra_store st)" by (auto simp: dead_keys_def)
    then obtain v where v: "map_of (ra_store st) (used_key d) = Some v" by (metis map_of_eq_None_iff not_None_eq)
    then obtain i t where i: "won dig d (ra_att st i) t" "v = SMarker t (rnd i)" using D(3) by blast
    with dead_used [OF D(7) k] v show ?case by auto
  next
    case (1 i t) then show ?case using D(1) by simp
  next
    case (2 i j t t') then show ?case using D(2) by simp
  next
    case (3 v) then show ?case using D(3) by simp
  next
    case (4 i t j t') then show ?case using D(4) by simp
  next
    case (5 i t) then show ?case using D(4) by simp
  next
    case (6 i t) then show ?case using D(5) by simp
  next
    case (7 i t j t') then show ?case using D(5) by auto
  next
    case 9 then show ?case using D(7) by simp
  qed
qed

text \<open>A used-marker is only swept once nothing that could still claim the code is in flight.\<close>

lemma inv_sweep_delete:
  assumes I: "race_inv dig rnd life d st" and l: "2 * life \<le> code_ttl_ms"
    and k: "ra_doomed st = k # ks" and m: "mem_delete (ra_store st) k = Inr s1"
  shows "race_inv dig rnd life d (st\<lparr>ra_store := s1, ra_doomed := ks\<rparr>)"
proof -
  note D = race_invD [OF I]
  have s1: "s1 = AList.delete k (ra_store st)" using mem_delete_cases [OF m] by simp
  have code: "map_of (ra_store st) (code_key d) = None \<Longrightarrow> map_of s1 (code_key d) = None"
    by (simp add: s1 map_of_delete)
  have over: "(\<forall>j t'. \<not> reads dig d (ra_att st j) t') \<and> map_of (ra_store st) (code_key d) = None"
    if "k = used_key d"
  proof -
    have "used_key d \<in> set (ra_doomed st)" using k that by simp
    then obtain i t where i: "won dig d (ra_att st i) t" "t + code_ttl_ms \<le> ra_clock st"
      using D(6) by blast
    have life: "life \<le> code_ttl_ms" "0 \<le> code_ttl_ms" using l by (simp_all add: code_ttl_ms_def)
    then have nf: "in_flight (ra_att st i) \<noteq> Some t" using D(1) [of i t] i(2) by auto
    then have cl: "closed_at dig d (ra_att st i) t" using won_cases [OF i(1)] by blast
    have "\<not> reads dig d (ra_att st j) t'" for j t'
    proof
      assume r: "reads dig d (ra_att st j) t'"
      have "t' < t + life" using D(5) [OF cl] r by blast
      moreover have "ra_clock st < t' + life" using D(1) [OF reads_in_flight [OF r]] by blast
      ultimately show False using i(2) l by linarith
    qed
    with D(5) [OF cl] show ?thesis by blast
  qed
  show ?thesis
  proof (rule race_invI, goal_cases)
    case (1 i t) then show ?case using D(1) by simp
  next
    case (2 i j t t') then show ?case using D(2) by simp
  next
    case (3 v) then show ?case using D(3) by (auto simp: s1 map_of_delete split: if_splits)
  next
    case (4 i t j t')
    then show ?case using D(4) [of i t] over by (cases "k = used_key d") (auto simp: s1 map_of_delete)
  next
    case (5 i t)
    then show ?case using D(4) [of i t] over code by (cases "k = used_key d") (auto simp: s1 map_of_delete)
  next
    case (6 i t) then show ?case using D(5) code by simp
  next
    case (7 i t j t') then show ?case using D(5) by auto
  next
    case 8 then show ?case using D(6) k by auto
  next
    case 9 then show ?case using D(7) by (simp add: s1 mem_inv_delete)
  qed
qed

lemma redeem_miss:
  assumes "mem_get rows (code_key (dig (pr_code p))) = Inr None"
    and "redeem_code (memory_state_store collate) dig s256 rnd rows p t = Inr (r, s1)"
  shows "s1 = rows"
  using assms
  by (auto simp: redeem_code_def memory_state_store_def Let_def bind_sum_Inr_iff split: if_splits)

lemma race_step_inv:
  assumes "race_step dig s256 rnd life st st'" "race_inv dig rnd life d st" "inj rnd" "2 * life \<le> code_ttl_ms"
  shows "race_inv dig rnd life d st'"
  using assms(1)
proof cases
  case (r_read i p t c)
  then show ?thesis using inv_read [OF assms(2)] by simp
next
  case (r_miss i p collate t r s1)
  have "s1 = ra_store st" by (rule redeem_miss [OF r_miss(3,4)])
  then show ?thesis using r_miss inv_drop [OF assms(2)] by simp
next
  case (r_claim i p t c s1)
  then show ?thesis using inv_claim [OF assms(2,3)] by simp
next
  case (r_lose i p t c held s1 collate r)
  then have "s1 = ra_store st" using mem_create_cases [OF r_lose(3)] by auto
  then show ?thesis using r_lose inv_drop [OF assms(2)] by simp
next
  case (r_finish i p t c s1)
  then show ?thesis using inv_finish [OF assms(2)] by simp
next
  case (r_tick now)
  then show ?thesis using inv_tick [OF assms(2)] by simp
next
  case r_sweep_list
  then show ?thesis using inv_sweep_list [OF assms(2)] by simp
next
  case (r_sweep_delete k ks s1)
  then show ?thesis using inv_sweep_delete [OF assms(2,4)] by simp
qed


text \<open>Only a claim redeems.\<close>

definition redeemed_inv :: "(string \<Rightarrow> string) \<Rightarrow> race \<Rightarrow> bool" where
  "redeemed_inv dig st \<longleftrightarrow>
     (\<forall>i p c e x. ra_att st i = ADone p (Redeemed c e) x \<longrightarrow> x \<noteq> None \<and> e = dig (pr_code p))"

lemma replay_refuses: "replay ops s256 s d p = Inr r \<Longrightarrow> \<exists>e why i. r = Refused e why i"
proof -
  assume "replay ops s256 s d p = Inr r"
  then obtain raw where raw: "(case raw of
       None \<Rightarrow> Inr (Refused InvalidGrant CodeAlreadyUsed None)
     | Some (SIssued i) \<Rightarrow> (case code_challenge_of s256 (pr_codeVerifier p) of
           None \<Rightarrow> Inr (Refused InvalidGrant CodeAlreadyUsed None)
         | Some challenge \<Rightarrow>
             if ir_clientId i = pr_clientId p \<and> redirect_matches (ir_redirectUri i) (pr_redirectUri p) \<and>
                challenge = ir_codeChallenge i
             then Inr (Refused InvalidGrant CodeAlreadyUsed (Some (ir_issueId i)))
             else Inr (Refused InvalidGrant CodeAlreadyUsed None))
     | Some _ \<Rightarrow> Inl MalformedValue) = (Inr r :: store_error + redeemed)"
    unfolding replay_def Let_def bind_sum_Inr_iff by blast
  then show ?thesis
  proof (cases raw)
    case None
    then show ?thesis using raw by auto
  next
    case (Some v)
    show ?thesis
    proof (cases v)
      case (SIssued i)
      then show ?thesis
        using raw Some by (cases "code_challenge_of s256 (pr_codeVerifier p)") (auto split: if_splits)
    qed (use raw Some in auto)
  qed
qed

lemma redeem_miss_refuses:
  assumes "mem_get rows (code_key (dig (pr_code p))) = Inr None"
    and "redeem_code (memory_state_store collate) dig s256 rnd rows p t = Inr (r, s1)"
  shows "\<exists>e why i. r = Refused e why i"
proof -
  have g: "so_get (memory_state_store collate) = mem_get" by (simp add: memory_state_store_def)
  show ?thesis
    using assms by (auto simp: redeem_code_def g Let_def bind_sum_Inr_iff dest: replay_refuses split: if_splits)
qed

lemma redeemed_step:
  assumes "race_step dig s256 rnd life st st'" "redeemed_inv dig st"
  shows "redeemed_inv dig st'"
  using assms(1)
proof cases
  case (r_miss i p collate t r s1)
  then show ?thesis using redeem_miss_refuses [OF r_miss(3,4)] assms(2) by (auto simp: redeemed_inv_def)
next
  case (r_lose i p t c held s1 collate r)
  then show ?thesis using replay_refuses [OF r_lose(5)] assms(2) by (auto simp: redeemed_inv_def)
next
  case (r_finish i p t c s1)
  then show ?thesis using assms(2) by (auto simp: redeemed_inv_def check_code_redeemed)
qed (use assms(2) in \<open>auto simp: redeemed_inv_def\<close>)

lemma race_reachable:
  assumes "rtranclp (race_step dig s256 rnd life) st st'" "race_inv dig rnd life d st" "redeemed_inv dig st"
    and "inj rnd" "2 * life \<le> code_ttl_ms"
  shows "race_inv dig rnd life d st' \<and> redeemed_inv dig st'"
  using assms(1)
proof (induction rule: rtranclp_induct)
  case base
  show ?case using assms(2,3) by blast
next
  case (step y z)
  then show ?case using race_step_inv [OF step.hyps(2) _ assms(4,5)] redeemed_step [OF step.hyps(2)] by blast
qed

definition race_start :: "(string, stored) js_map \<Rightarrow> int \<Rightarrow> race" where
  "race_start rows now = \<lparr>ra_store = rows, ra_clock = now, ra_doomed = [], ra_att = (\<lambda>_. AIdle)\<rparr>"

lemma race_start_inv:
  assumes "mem_inv rows" "map_of rows (used_key d) = None"
  shows "race_inv dig rnd life d (race_start rows now) \<and> redeemed_inv dig (race_start rows now)"
  using assms by (auto simp: race_inv_def race_start_def redeemed_inv_def)

section \<open>Properties\<close>

text \<open>C34: redemptions that race cannot both win. However the reads, claims, deletions and checks of any
  number of attempts interleave with each other and with the sweep, at most one attempt redeems a
  given code, as long as markers differ between attempts and no attempt stays in flight for more
  than half of a code's lifetime.\<close>

theorem code_race_single_winner:
  assumes "rtranclp (race_step dig s256 rnd life) (race_start rows now) st"
    and "mem_inv rows" "map_of rows (used_key d) = None" "inj rnd" "2 * life \<le> code_ttl_ms"
    and "ra_att st i = ADone p (Redeemed c d) x" "ra_att st j = ADone q (Redeemed c' d) y"
  shows "i = j"
proof -
  have I: "race_inv dig rnd life d st" "redeemed_inv dig st"
    using race_reachable [OF assms(1) _ _ assms(4,5)] race_start_inv [OF assms(2,3)] by blast+
  obtain t t' where "x = Some t" "d = dig (pr_code p)" "y = Some t'" "d = dig (pr_code q)"
    using I(2) assms(6,7) unfolding redeemed_inv_def by blast
  with assms(6,7) have "won dig d (ra_att st i) t" "won dig d (ra_att st j) t'" by simp_all
  then show ?thesis by (rule race_invD(2) [OF I(1)])
qed

text \<open>A race with two attempts, for the witness and for the bound.\<close>

definition race_digest :: string where
  "race_digest = replicate 64 (CHR ''0'')"

definition race_code :: pending_code where
  "race_code = sample_code\<lparr>pc_expiresAt := code_ttl_ms\<rparr>"

definition race_presented :: presented where
  "race_presented = \<lparr>pr_code = ''nln_code_x'', pr_codeVerifier = replicate 43 (CHR ''v''),
     pr_redirectUri = ''https://wp/cb'', pr_clientId = ''https://wp''\<rparr>"

definition race_rnd :: "nat \<Rightarrow> string" where
  "race_rnd i = replicate i (CHR ''r'')"

lemma race_sample [simp]:
  "hex64 race_digest" "valid_key (code_key race_digest)" "valid_key (used_key race_digest)"
  "prefix code_prefix (pr_code race_presented)" "inj race_rnd"
  "check_code (\<lambda>_. ''challenge'') race_digest race_code race_presented 0 = Redeemed race_code race_digest"
  "check_code (\<lambda>_. ''challenge'') race_digest race_code race_presented 1 = Redeemed race_code race_digest"
proof -
  show h: "hex64 race_digest" by code_simp
  show "valid_key (code_key race_digest)" "valid_key (used_key race_digest)" using h by simp_all
  show "prefix code_prefix (pr_code race_presented)" by code_simp
  show "inj race_rnd" by (rule injI) (auto simp: race_rnd_def dest: arg_cong [where f = length])
  show "check_code (\<lambda>_. ''challenge'') race_digest race_code race_presented 0 = Redeemed race_code race_digest"
    "check_code (\<lambda>_. ''challenge'') race_digest race_code race_presented 1 = Redeemed race_code race_digest"
    by code_simp+
qed

abbreviation "race_go life \<equiv> race_step (\<lambda>_. race_digest) (\<lambda>_. ''challenge'') race_rnd life"

definition race_rows :: "(string, stored) js_map" where
  "race_rows = [(code_key race_digest, SCode race_code)]"

definition first_won :: "(nat \<Rightarrow> attempt) \<Rightarrow> int \<Rightarrow> race" where
  "first_won f now = \<lparr>ra_store = [(used_key race_digest, SMarker 0 (race_rnd 0))], ra_clock = now, ra_doomed = [],
     ra_att = f(0 := ADone race_presented (Redeemed race_code race_digest) (Some 0))\<rparr>"

text \<open>Both attempts read the row, the first one claims and finishes.\<close>

lemma first_attempt_wins:
  assumes "1 < life"
  shows "rtranclp (race_go life) (race_start race_rows 0)
    (first_won ((\<lambda>_. AIdle)(1 := ARead race_presented 1 race_code)) 1)"
proof -
  let ?f0 = "(\<lambda>_. AIdle)(0 := ARead race_presented 0 race_code)"
  let ?f1 = "?f0(1 := ARead race_presented 1 race_code)"
  let ?f2 = "?f1(0 := AWon race_presented 0 race_code)"
  let ?s0 = "\<lparr>ra_store = race_rows, ra_clock = 0, ra_doomed = [], ra_att = ?f0\<rparr>"
  let ?s1 = "?s0\<lparr>ra_clock := 1\<rparr>"
  let ?s2 = "?s1\<lparr>ra_att := ?f1\<rparr>"
  let ?s3 = "?s2\<lparr>ra_store := AList.update (used_key race_digest) (SMarker 0 (race_rnd 0)) race_rows, ra_att := ?f2\<rparr>"
  have row: "mem_get race_rows (code_key race_digest) = Inr (Some (SCode race_code))"
    by (simp add: mem_get_def race_rows_def)
  have "race_go life (race_start race_rows 0) ?s0"
    using r_read [of "race_start race_rows 0" 0 race_presented 0 life "\<lambda>_. race_digest" race_code] assms row
    by (simp add: race_start_def)
  moreover have "race_go life ?s0 ?s1"
    by (rule r_tick) (use assms in \<open>auto split: if_splits\<close>)
  moreover have "race_go life ?s1 ?s2"
    using r_read [of ?s1 1 race_presented 1 life "\<lambda>_. race_digest" race_code] assms row by simp
  moreover have "race_go life ?s2 ?s3"
    using r_claim [of ?s2 0 race_presented 0 race_code "\<lambda>_. race_digest" race_rnd]
    by (simp add: mem_create_def race_rows_def)
  moreover have "race_go life ?s3 (first_won ((\<lambda>_. AIdle)(1 := ARead race_presented 1 race_code)) 1)"
    using r_finish [of ?s3 0 race_presented 0 race_code "\<lambda>_. race_digest" _ "\<lambda>_. ''challenge''"]
    by (simp add: mem_delete_def race_rows_def first_won_def fun_upd_twist)
  ultimately show ?thesis by (meson rtranclp.rtrancl_refl rtranclp.rtrancl_into_rtrancl)
qed

theorem code_race_single_winner_witness:
  "\<exists>st. rtranclp (race_go 300000) (race_start race_rows 0) st \<and>
    ra_att st 0 = ADone race_presented (Redeemed race_code race_digest) (Some 0) \<and>
    (\<forall>j q c y. ra_att st j = ADone q (Redeemed c race_digest) y \<longrightarrow> j = 0)"
proof -
  let ?st = "first_won ((\<lambda>_. AIdle)(1 := ARead race_presented 1 race_code)) 1"
  have r: "rtranclp (race_go 300000) (race_start race_rows 0) ?st" by (rule first_attempt_wins) simp
  have a: "ra_att ?st 0 = ADone race_presented (Redeemed race_code race_digest) (Some 0)"
    by (simp add: first_won_def)
  have "mem_inv race_rows" "map_of race_rows (used_key race_digest) = None"
    by (simp_all add: race_rows_def mem_inv_def)
  then have "j = 0" if "ra_att ?st j = ADone q (Redeemed c race_digest) y" for j q c y
    using code_race_single_winner [OF r _ _ race_sample(5) _ that a] by (simp add: code_ttl_ms_def)
  with r a show ?thesis by blast
qed

text \<open>The bound is needed. An attempt that stalls for a code's lifetime between reading the row
  and claiming it is not refused: the sweep has removed the first winner's marker by then, and the
  expiry is compared with the time the attempt started, so a code is redeemed twice.\<close>

theorem stalled_attempt_also_redeems:
  "\<exists>st. rtranclp (race_go (code_ttl_ms + 1)) (race_start race_rows 0) st \<and>
    ra_att st 0 = ADone race_presented (Redeemed race_code race_digest) (Some 0) \<and>
    ra_att st 1 = ADone race_presented (Redeemed race_code race_digest) (Some 1)"
proof -
  let ?f = "(\<lambda>_. AIdle)(1 := ARead race_presented 1 race_code)"
  let ?s0 = "first_won ?f 1"
  let ?s1 = "first_won ?f code_ttl_ms"
  let ?s2 = "?s1\<lparr>ra_doomed := [used_key race_digest]\<rparr>"
  let ?s3 = "?s1\<lparr>ra_store := []\<rparr>"
  let ?s4 = "?s3\<lparr>ra_store := [(used_key race_digest, SMarker 1 (race_rnd 1))],
    ra_att := (ra_att ?s3)(1 := AWon race_presented 1 race_code)\<rparr>"
  let ?s5 = "?s4\<lparr>ra_att := (ra_att ?s4)(1 := ADone race_presented (Redeemed race_code race_digest) (Some 1))\<rparr>"
  let ?life = "code_ttl_ms + 1"
  have "rtranclp (race_go ?life) (race_start race_rows 0) ?s0"
    by (rule first_attempt_wins) (simp add: code_ttl_ms_def)
  moreover
  have "race_go ?life ?s0 (?s0\<lparr>ra_clock := code_ttl_ms\<rparr>)"
    by (rule r_tick) (auto simp: first_won_def code_ttl_ms_def split: if_splits)
  then have "race_go ?life ?s0 ?s1" by (simp add: first_won_def)
  moreover note this
  moreover have "race_go ?life ?s1 ?s2"
    using r_sweep_list [of _ _ _ _ ?s1] by (simp add: first_won_def dead_keys_def)
  moreover have "race_go ?life ?s2 ?s3"
    using r_sweep_delete [of ?s2 "used_key race_digest" "[]"]
    by (simp add: first_won_def mem_delete_def)
  moreover have "race_go ?life ?s3 ?s4"
    using r_claim [of ?s3 1 race_presented 1 race_code "\<lambda>_. race_digest" race_rnd]
    by (simp add: first_won_def mem_create_def)
  moreover have "race_go ?life ?s4 ?s5"
    using r_finish [of ?s4 1 race_presented 1 race_code "\<lambda>_. race_digest" _ "\<lambda>_. ''challenge''"]
    by (simp add: first_won_def mem_delete_def)
  ultimately have "rtranclp (race_go ?life) (race_start race_rows 0) ?s5"
    by (meson rtranclp.rtrancl_into_rtrancl)
  then show ?thesis by (intro exI [of _ ?s5]) (simp add: first_won_def)
qed

end
