(* ===== verification/RslPattern.thy ===== *)
theory RslPattern
  imports Naulon_Prelude
begin

text \<open>
  Path patterns, \<open>packages/sdk/src/rsl/pattern.ts\<close>: the RFC 9309 matcher every price rule, licence
  scope and published term goes through, what a publisher's anchored pattern stands for, and how
  specific a pattern is. A compiled pattern is the list of its items and whether its end is
  anchored; \<open>re_test\<close> is what \<open>RegExp.prototype.test\<close> answers for such an expression.
\<close>

section \<open>Model\<close>

datatype pat_item = PLit char | PAny

type_synonym reg_exp = "pat_item list \<times> bool"

definition ends_dollar :: "string \<Rightarrow> bool" where
  "ends_dollar p \<longleftrightarrow> p \<noteq> [] \<and> last p = CHR ''$''"

definition pattern_body :: "string \<Rightarrow> string" where
  "pattern_body p = (if ends_dollar p then butlast p else p)"

definition to_reg_exp :: "string \<Rightarrow> reg_exp" where
  "to_reg_exp p = (map (\<lambda>c. if c = CHR ''*'' then PAny else PLit c) (pattern_body p), ends_dollar p)"

text \<open>\<open>.\<close> matches any character but a line terminator.\<close>

definition re_dot :: "char \<Rightarrow> bool" where
  "re_dot c \<longleftrightarrow> c \<noteq> CHR 0x0A \<and> c \<noteq> CHR 0x0D"

fun re_items :: "pat_item list \<Rightarrow> bool \<Rightarrow> string \<Rightarrow> bool" where
  "re_items [] anchored s \<longleftrightarrow> (anchored \<longrightarrow> s = [])"
| "re_items (PLit c # is) anchored s \<longleftrightarrow> (case s of [] \<Rightarrow> False | x # xs \<Rightarrow> x = c \<and> re_items is anchored xs)"
| "re_items (PAny # is) anchored [] \<longleftrightarrow> re_items is anchored []"
| "re_items (PAny # is) anchored (x # xs) \<longleftrightarrow>
     re_items is anchored (x # xs) \<or> re_dot x \<and> re_items (PAny # is) anchored xs"

definition re_test :: "reg_exp \<Rightarrow> string \<Rightarrow> bool" where
  "re_test r s = re_items (fst r) (snd r) s"

text \<open>Compiled patterns are cached for the life of the process.\<close>

type_synonym re_cache = "(string, reg_exp) js_map"

definition compiled :: "re_cache \<Rightarrow> string \<Rightarrow> reg_exp \<times> re_cache" where
  "compiled cache p = (case map_of cache p of Some re \<Rightarrow> (re, cache)
     | None \<Rightarrow> (let re = to_reg_exp p in (re, AList.update p re cache)))"

definition matches_pattern_cached :: "re_cache \<Rightarrow> string \<Rightarrow> string \<Rightarrow> bool \<times> re_cache" where
  "matches_pattern_cached cache p target = (if p = [] then (False, cache)
     else let (re, cache') = compiled cache p in (re_test re target, cache'))"

definition matches_pattern :: "string \<Rightarrow> string \<Rightarrow> bool" where
  "matches_pattern p target = (if p = [] then False else re_test (to_reg_exp p) target)"

definition publisher_patterns :: "string \<Rightarrow> string list" where
  "publisher_patterns p = (if \<not> ends_dollar p \<or> CHR ''?'' \<in> set p then [p]
     else [p, butlast p @ ''?*''])"

definition matches_publisher_pattern :: "string \<Rightarrow> string \<Rightarrow> bool" where
  "matches_publisher_pattern p target = list_ex (\<lambda>q. matches_pattern q target) (publisher_patterns p)"

definition specificity :: "string \<Rightarrow> nat" where
  "specificity p = (let anchored = ends_dollar p;
       literals = length (filter (\<lambda>c. c \<noteq> CHR ''*'') (if anchored then butlast p else p))
     in literals * 2 + (if anchored then 1 else 0))"

section \<open>The cache is transparent\<close>

definition cache_ok :: "re_cache \<Rightarrow> bool" where
  "cache_ok cache \<longleftrightarrow> (\<forall>p re. map_of cache p = Some re \<longrightarrow> re = to_reg_exp p)"

lemma matches_pattern_cached_ok:
  assumes "cache_ok cache"
  shows "fst (matches_pattern_cached cache p target) = matches_pattern p target \<and>
    cache_ok (snd (matches_pattern_cached cache p target))"
  using assms
  by (auto simp: matches_pattern_cached_def matches_pattern_def compiled_def cache_ok_def Let_def
      map_of_update split: option.splits)

section \<open>What a pattern covers\<close>

text \<open>The literal pieces of a body with a gap between each two of them.\<close>

fun weave :: "string list \<Rightarrow> string list \<Rightarrow> string" where
  "weave [] gs = []"
| "weave [l] gs = l"
| "weave (l # m # ls) [] = l"
| "weave (l # m # ls) (g # gs) = l @ g @ weave (m # ls) gs"

definition covers_body :: "string \<Rightarrow> string \<Rightarrow> bool" where
  "covers_body body u \<longleftrightarrow> (\<exists>gs. length gs + 1 = length (js_split (CHR ''*'') body) \<and>
     list_all (list_all re_dot) gs \<and> u = weave (js_split (CHR ''*'') body) gs)"

lemma weave_push: "ls \<noteq> [] \<Longrightarrow> length gs + 1 = length ls \<Longrightarrow>
    weave ((c # hd ls) # tl ls) gs = c # weave ls gs"
  by (cases ls; cases "tl ls"; cases gs) auto

lemma covers_body_Nil [simp]: "covers_body [] u \<longleftrightarrow> u = []"
  by (auto simp: covers_body_def)

lemma covers_body_lit:
  assumes "c \<noteq> CHR ''*''"
  shows "covers_body (c # body) u \<longleftrightarrow> (\<exists>v. u = c # v \<and> covers_body body v)"
proof -
  let ?ls = "js_split (CHR ''*'') body"
  have sp: "js_split (CHR ''*'') (c # body) = (c # hd ?ls) # tl ?ls"
    using assms by (cases ?ls) auto
  have len: "length ((c # hd ?ls) # tl ?ls) = length ?ls" by (cases ?ls) auto
  have w: "weave ((c # hd ?ls) # tl ?ls) gs = c # weave ?ls gs" if "length gs + 1 = length ?ls" for gs
    by (rule weave_push) (use that in simp_all)
  show ?thesis
  proof
    assume "covers_body (c # body) u"
    then obtain gs where "length gs + 1 = length ?ls" "list_all (list_all re_dot) gs" "u = weave ((c # hd ?ls) # tl ?ls) gs"
      unfolding covers_body_def sp len by blast
    with w show "\<exists>v. u = c # v \<and> covers_body body v" unfolding covers_body_def by blast
  next
    assume "\<exists>v. u = c # v \<and> covers_body body v"
    then obtain gs where "length gs + 1 = length ?ls" "list_all (list_all re_dot) gs" "u = c # weave ?ls gs"
      unfolding covers_body_def by blast
    with w show "covers_body (c # body) u" unfolding covers_body_def sp len by metis
  qed
qed

lemma covers_body_star:
  "covers_body (CHR ''*'' # body) u \<longleftrightarrow> (\<exists>g v. list_all re_dot g \<and> u = g @ v \<and> covers_body body v)"
proof -
  let ?ls = "js_split (CHR ''*'') body"
  obtain l ls where ls: "?ls = l # ls" by (cases ?ls) auto
  show ?thesis
  proof
    assume "covers_body (CHR ''*'' # body) u"
    then obtain gs where gs: "length gs = length ?ls" "list_all (list_all re_dot) gs" "u = weave ([] # ?ls) gs"
      by (auto simp: covers_body_def)
    then obtain g gs' where "gs = g # gs'" using ls by (cases gs) auto
    with gs ls show "\<exists>g v. list_all re_dot g \<and> u = g @ v \<and> covers_body body v"
      by (auto simp: covers_body_def)
  next
    assume "\<exists>g v. list_all re_dot g \<and> u = g @ v \<and> covers_body body v"
    then obtain g gs where "list_all re_dot g" "length gs + 1 = length ?ls" "list_all (list_all re_dot) gs"
      "u = g @ weave ?ls gs" by (auto simp: covers_body_def)
    then show "covers_body (CHR ''*'' # body) u"
      unfolding covers_body_def by (intro exI [of _ "g # gs"]) (simp add: ls)
  qed
qed

lemma re_items_any:
  "re_items (PAny # is) a s \<longleftrightarrow> (\<exists>g v. list_all re_dot g \<and> s = g @ v \<and> re_items is a v)"
proof (induction s)
  case Nil
  then show ?case by auto
next
  case (Cons x xs)
  show ?case
  proof
    assume "re_items (PAny # is) a (x # xs)"
    then consider "re_items is a (x # xs)" | "re_dot x" "re_items (PAny # is) a xs" by auto
    then show "\<exists>g v. list_all re_dot g \<and> x # xs = g @ v \<and> re_items is a v"
    proof cases
      case 1
      then show ?thesis by (intro exI [of _ "[]"] exI [of _ "x # xs"]) simp
    next
      case 2
      then obtain g v where "list_all re_dot g" "xs = g @ v" "re_items is a v" using Cons.IH by blast
      with 2(1) show ?thesis by (intro exI [of _ "x # g"] exI [of _ v]) simp
    qed
  next
    assume "\<exists>g v. list_all re_dot g \<and> x # xs = g @ v \<and> re_items is a v"
    then obtain g v where g: "list_all re_dot g" "x # xs = g @ v" "re_items is a v" by blast
    show "re_items (PAny # is) a (x # xs)"
    proof (cases g)
      case Nil
      with g have "re_items is a (x # xs)" by simp
      then show ?thesis by simp
    next
      case (Cons y ys)
      with g show ?thesis using Cons.IH by auto
    qed
  qed
qed

lemma re_items_covers:
  "re_items (map (\<lambda>c. if c = CHR ''*'' then PAny else PLit c) body) a s \<longleftrightarrow>
     (\<exists>u rest. s = u @ rest \<and> covers_body body u \<and> (a \<longrightarrow> rest = []))"
proof (induction body arbitrary: s)
  case Nil
  then show ?case by auto
next
  case (Cons c body)
  show ?case
  proof (cases "c = CHR ''*''")
    case True
    have "re_items (map (\<lambda>c. if c = CHR ''*'' then PAny else PLit c) (c # body)) a s \<longleftrightarrow>
        (\<exists>g v. list_all re_dot g \<and> s = g @ v \<and> (\<exists>u rest. v = u @ rest \<and> covers_body body u \<and> (a \<longrightarrow> rest = [])))"
      using True by (simp add: re_items_any Cons.IH)
    also have "\<dots> \<longleftrightarrow> (\<exists>u rest. s = u @ rest \<and> covers_body (c # body) u \<and> (a \<longrightarrow> rest = []))"
      unfolding True covers_body_star by (metis append.assoc)
    finally show ?thesis .
  next
    case False
    have "re_items (map (\<lambda>c. if c = CHR ''*'' then PAny else PLit c) (c # body)) a s \<longleftrightarrow>
        (\<exists>xs. s = c # xs \<and> (\<exists>u rest. xs = u @ rest \<and> covers_body body u \<and> (a \<longrightarrow> rest = [])))"
      using False by (cases s) (auto simp: Cons.IH)
    also have "\<dots> \<longleftrightarrow> (\<exists>u rest. s = u @ rest \<and> covers_body (c # body) u \<and> (a \<longrightarrow> rest = []))"
      unfolding covers_body_lit [OF False] by (metis append_Cons)
    finally show ?thesis .
  qed
qed

lemma matches_pattern_covers:
  "matches_pattern p s \<longleftrightarrow> p \<noteq> [] \<and>
     (\<exists>u rest. s = u @ rest \<and> covers_body (pattern_body p) u \<and> (ends_dollar p \<longrightarrow> rest = []))"
  by (auto simp: matches_pattern_def re_test_def to_reg_exp_def re_items_covers)

lemma covers_body_append:
  "covers_body (b @ b') u \<longleftrightarrow> (\<exists>v w. u = v @ w \<and> covers_body b v \<and> covers_body b' w)"
proof (induction b arbitrary: u)
  case Nil
  then show ?case by auto
next
  case (Cons c b)
  show ?case
  proof (cases "c = CHR ''*''")
    case True
    then show ?thesis by (simp add: covers_body_star Cons.IH) (metis append.assoc)
  next
    case False
    then show ?thesis by (simp add: covers_body_lit Cons.IH) (metis append_Cons)
  qed
qed


lemma covers_body_single: "c \<noteq> CHR ''*'' \<Longrightarrow> covers_body [c] u \<longleftrightarrow> u = [c]"
  by (simp add: covers_body_lit)

lemma covers_body_nonempty: "covers_body (CHR ''/'' # b) u \<Longrightarrow> u \<noteq> []"
  by (auto simp: covers_body_lit)

lemma ends_dollar_simps [simp]: "ends_dollar (b @ ''$'')" "pattern_body (b @ ''$'') = b" "\<not> ends_dollar (b @ ''?*'')"
  by (simp_all add: ends_dollar_def pattern_body_def)

lemma query_pattern_covers:
  "matches_pattern (b @ ''?*'') t \<longleftrightarrow> (\<exists>v rest. t = v @ CHR ''?'' # rest \<and> covers_body b v)"
proof -
  have w: "covers_body ''?*'' w \<longleftrightarrow> (\<exists>g. w = CHR ''?'' # g \<and> list_all re_dot g)" for w
    by (simp add: covers_body_lit covers_body_star)
  have m: "matches_pattern (b @ ''?*'') t \<longleftrightarrow> (\<exists>u rest. t = u @ rest \<and> covers_body (b @ ''?*'') u)"
    unfolding matches_pattern_covers by (simp add: pattern_body_def)
  show ?thesis
  proof
    assume "matches_pattern (b @ ''?*'') t"
    then obtain v g rest where "t = (v @ CHR ''?'' # g) @ rest" "covers_body b v"
      unfolding m covers_body_append w by blast
    then show "\<exists>v rest. t = v @ CHR ''?'' # rest \<and> covers_body b v"
      by (intro exI [of _ v] exI [of _ "g @ rest"]) simp
  next
    assume "\<exists>v rest. t = v @ CHR ''?'' # rest \<and> covers_body b v"
    then obtain v rest where t: "t = v @ CHR ''?'' # rest" "covers_body b v" by blast
    have "covers_body (b @ ''?*'') (v @ ''?'')" unfolding covers_body_append w using t(2) by force
    with t(1) show "matches_pattern (b @ ''?*'') t" unfolding m by (intro exI [of _ "v @ ''?''"] exI [of _ rest]) simp
  qed
qed

text \<open>An anchored pattern in the publisher's sense: the whole target, or all of it up to a question mark.\<close>

lemma anchored_meaning:
  assumes "CHR ''?'' \<notin> set b"
  shows "matches_publisher_pattern (b @ ''$'') t \<longleftrightarrow>
      covers_body b t \<or> (\<exists>v rest. t = v @ CHR ''?'' # rest \<and> covers_body b v)"
    and "matches_pattern (b @ ''$'') t \<longleftrightarrow> covers_body b t"
proof -
  show m: "matches_pattern (b @ ''$'') t \<longleftrightarrow> covers_body b t" for t
    by (simp add: matches_pattern_covers)
  show "matches_publisher_pattern (b @ ''$'') t \<longleftrightarrow>
      covers_body b t \<or> (\<exists>v rest. t = v @ CHR ''?'' # rest \<and> covers_body b v)"
    using assms by (simp add: matches_publisher_pattern_def publisher_patterns_def m query_pattern_covers)
qed

lemma covers_body_literal: "CHR ''*'' \<notin> set b \<Longrightarrow> covers_body b u \<longleftrightarrow> u = b"
  by (simp add: covers_body_def js_split_notin)

lemma query_split: "CHR ''?'' \<notin> set b \<Longrightarrow> b @ CHR ''?'' # r = p @ CHR ''?'' # q \<Longrightarrow> CHR ''?'' \<notin> set p \<Longrightarrow> p = b"
  by (induction b arbitrary: p) (auto simp: append_eq_Cons_conv Cons_eq_append_conv)

section \<open>Properties\<close>


text \<open>The publisher's reading of an anchored pattern that names no query. It covers a path with
  any query appended whenever it covers the path, so an article keeps its rule whatever query it is
  read with; and for a pattern without stars that is all it covers.\<close>

theorem publisher_pattern_with_query:
  assumes "CHR ''?'' \<notin> set b" "CHR ''?'' \<notin> set path"
  shows "(matches_publisher_pattern (b @ ''$'') path \<longleftrightarrow> matches_pattern (b @ ''$'') path) \<and>
    (matches_pattern (b @ ''$'') path \<longrightarrow> matches_publisher_pattern (b @ ''$'') (path @ CHR ''?'' # query)) \<and>
    (CHR ''*'' \<notin> set b \<longrightarrow>
       (matches_publisher_pattern (b @ ''$'') (path @ CHR ''?'' # query) \<longleftrightarrow> path = b))"
proof (intro conjI impI)
  note am = anchored_meaning [OF assms(1)]
  show "matches_publisher_pattern (b @ ''$'') path \<longleftrightarrow> matches_pattern (b @ ''$'') path"
    unfolding am using assms(2) by auto
  show "matches_publisher_pattern (b @ ''$'') (path @ CHR ''?'' # query)" if "matches_pattern (b @ ''$'') path"
    using that unfolding am by blast
  assume "CHR ''*'' \<notin> set b"
  then have c: "covers_body b u \<longleftrightarrow> u = b" for u by (rule covers_body_literal)
  have "path @ CHR ''?'' # query \<noteq> b" using assms(1) by auto
  then show "matches_publisher_pattern (b @ ''$'') (path @ CHR ''?'' # query) \<longleftrightarrow> path = b"
    unfolding am c using query_split [OF assms(1) _ assms(2)] by (metis (no_types))
qed

theorem publisher_pattern_with_query_witness:
  "matches_publisher_pattern ''/a$'' ''/a?page=2'' \<and> \<not> matches_publisher_pattern ''/a$'' ''/b?page=2''"
  using publisher_pattern_with_query [of "''/a''" "''/a''" "''page=2''"]
    publisher_pattern_with_query [of "''/a''" "''/b''" "''page=2''"] by simp

text \<open>A star does reach into the query: an agent that appends a query makes a wildcard rule cover an
  article it does not name.\<close>

lemma star_reaches_query:
  "matches_publisher_pattern ''/*.pdf$'' ''/article?.pdf''" "\<not> matches_publisher_pattern ''/*.pdf$'' ''/article''"
  by code_simp+

end
