(* ===== verification/IpRange.thy ===== *)
theory IpRange
  imports Naulon_Prelude
begin

text \<open>
  Addresses and prefixes, \<open>packages/shared/src/ipRange.ts\<close>: parsing of IPv4 and IPv6 in the spellings
  a header may carry, CIDR prefixes, the merged range set with its binary search, the reserved
  ranges, and the truncated form an observation stores. \<open>BigInt\<close> is \<open>int\<close>, with the bitwise
  operations of the library.
\<close>

unbundle bit_operations_syntax

section \<open>Model\<close>

datatype ip_fam = IPv4 | IPv6

record parsed_ip =
  ip_family :: ip_fam
  ip_value :: int

record cidr =
  cidr_family :: ip_fam
  cidr_start :: int
  cidr_end :: int

definition min_prefix_v4 :: int where "min_prefix_v4 = 12"
definition min_prefix_v6 :: int where "min_prefix_v6 = 28"

fun ip_bits :: "ip_fam \<Rightarrow> nat" where
  "ip_bits IPv4 = 32"
| "ip_bits IPv6 = 128"

definition low32 :: int where "low32 = 0xffffffff"

definition digits_re :: "nat \<Rightarrow> string \<Rightarrow> bool" where
  "digits_re n s \<longleftrightarrow> s \<noteq> [] \<and> length s \<le> n \<and> list_all is_digit s"

definition digit_value :: "char \<Rightarrow> nat" where
  "digit_value c = of_char c - 48"

text \<open>\<open>Number(p)\<close> of a run of digits.\<close>

definition dec_value :: "string \<Rightarrow> nat" where
  "dec_value s = foldl (\<lambda>a c. 10 * a + digit_value c) 0 s"

fun v4_octets :: "string list \<Rightarrow> int \<Rightarrow> int option" where
  "v4_octets [] v = Some v"
| "v4_octets (p # ps) v =
     (if \<not> digits_re 3 p then None
      else if dec_value p > 255 then None
      else v4_octets ps (push_bit 8 v OR int (dec_value p)))"

definition parse_v4 :: "string \<Rightarrow> int option" where
  "parse_v4 s = (let parts = js_split CHR ''.'' s in
     if length parts \<noteq> 4 then None else v4_octets parts 0)"

definition is_hex_char :: "char \<Rightarrow> bool" where
  "is_hex_char c \<longleftrightarrow> is_digit c \<or> CHR ''a'' \<le> js_lower_char c \<and> js_lower_char c \<le> CHR ''f''"

definition hex_digit_value :: "char \<Rightarrow> nat" where
  "hex_digit_value c = (if is_digit c then digit_value c else of_char (js_lower_char c) - 87)"

text \<open>\<open>parseInt(g, 16)\<close> of a run of hexadecimal digits.\<close>

definition hex_value :: "string \<Rightarrow> nat" where
  "hex_value s = foldl (\<lambda>a c. 16 * a + hex_digit_value c) 0 s"

definition hex_group_re :: "string \<Rightarrow> bool" where
  "hex_group_re s \<longleftrightarrow> s \<noteq> [] \<and> length s \<le> 4 \<and> list_all is_hex_char s"

fun v6_groups :: "string list \<Rightarrow> int \<Rightarrow> int option" where
  "v6_groups [] v = Some v"
| "v6_groups (g # gs) v =
     (if \<not> hex_group_re g then None else v6_groups gs (push_bit 16 v OR int (hex_value g)))"

text \<open>\<open>s.split("::")\<close>.\<close>

fun split_double :: "char \<Rightarrow> string \<Rightarrow> string list" where
  "split_double c [] = [[]]"
| "split_double c [x] = [[x]]"
| "split_double c (x # y # s) =
     (if x = c \<and> y = c then [] # split_double c s
      else (case split_double c (y # s) of [] \<Rightarrow> [[x]] | p # ps \<Rightarrow> (x # p) # ps))"

text \<open>\<open>half ? half.split(":") : []\<close>.\<close>

definition colon_parts :: "string \<Rightarrow> string list" where
  "colon_parts s = (if s = [] then [] else js_split CHR '':'' s)"

definition expand_groups :: "string \<Rightarrow> string list option" where
  "expand_groups s = (case split_double CHR '':'' s of
     [h] \<Rightarrow> Some (colon_parts h)
   | [h, r] \<Rightarrow> (if length (colon_parts h) + length (colon_parts r) > 7 then None
       else Some (colon_parts h @ replicate (8 - length (colon_parts h) - length (colon_parts r)) ''0'' @ colon_parts r))
   | _ \<Rightarrow> None)"

text \<open>The embedded IPv4 tail: the text after the last colon is parsed as IPv4 and stands for two groups.\<close>

definition before_last_colon :: "string \<Rightarrow> string" where
  "before_last_colon s = rev (dropWhile (\<lambda>c. c \<noteq> CHR '':'') (rev s))"

definition after_last_colon :: "string \<Rightarrow> string" where
  "after_last_colon s = rev (takeWhile (\<lambda>c. c \<noteq> CHR '':'') (rev s))"

definition v6_value :: "string \<Rightarrow> int option \<Rightarrow> int option" where
  "v6_value s tail = (case expand_groups s of None \<Rightarrow> None
     | Some groups \<Rightarrow> if length groups \<noteq> 8 then None
         else (case v6_groups groups 0 of None \<Rightarrow> None
           | Some v \<Rightarrow> Some (case tail of None \<Rightarrow> v | Some t \<Rightarrow> (v AND NOT low32) OR t)))"

definition parse_v6 :: "string \<Rightarrow> int option" where
  "parse_v6 input = (let s = takeWhile (\<lambda>c. c \<noteq> CHR ''%'') input in
     if CHR ''.'' \<in> set s then
       (if CHR '':'' \<notin> set s then None
        else (case parse_v4 (after_last_colon s) of None \<Rightarrow> None
          | Some t \<Rightarrow> v6_value (before_last_colon s @ ''0:0'') (Some t)))
     else v6_value s None)"

definition unbracket :: "string \<Rightarrow> string" where
  "unbracket s = (if prefix ''['' s \<and> suffix '']'' s then butlast (tl s) else s)"

definition parse_raw :: "string \<Rightarrow> parsed_ip option" where
  "parse_raw input = (let s = unbracket (js_trim input) in
     if s = [] then None
     else if CHR '':'' \<in> set s then map_option (\<lambda>v. \<lparr>ip_family = IPv6, ip_value = v\<rparr>) (parse_v6 s)
     else map_option (\<lambda>v. \<lparr>ip_family = IPv4, ip_value = v\<rparr>) (parse_v4 s))"

definition is_mapped :: "parsed_ip \<Rightarrow> bool" where
  "is_mapped ip \<longleftrightarrow> ip_family ip = IPv6 \<and> drop_bit 32 (ip_value ip) = 0xffff"

definition unmap :: "parsed_ip \<Rightarrow> parsed_ip" where
  "unmap ip = \<lparr>ip_family = IPv4, ip_value = ip_value ip AND low32\<rparr>"

definition parse_ip :: "string \<Rightarrow> parsed_ip option" where
  "parse_ip s = (case parse_raw s of None \<Rightarrow> None
     | Some ip \<Rightarrow> Some (if is_mapped ip then unmap ip else ip))"

definition port_suffix :: "string \<Rightarrow> bool" where
  "port_suffix r \<longleftrightarrow> r = [] \<or> (hd r = CHR '':'' \<and> digits_re 5 (tl r))"

definition bracketed :: "string \<Rightarrow> string option" where
  "bracketed v = (if v \<noteq> [] \<and> hd v = CHR ''['' then
     (let inner = takeWhile (\<lambda>c. c \<noteq> CHR '']'') (tl v); rest = dropWhile (\<lambda>c. c \<noteq> CHR '']'') (tl v) in
      if inner \<noteq> [] \<and> rest \<noteq> [] \<and> port_suffix (tl rest) then Some inner else None) else None)"

definition v4_port :: "string \<Rightarrow> string option" where
  "v4_port v = (case js_split CHR '':'' v of
     [a, p] \<Rightarrow> (if digits_re 5 p \<and> length (js_split CHR ''.'' a) = 4 \<and>
         list_all (digits_re 3) (js_split CHR ''.'' a) then Some a else None)
   | _ \<Rightarrow> None)"

definition unquote :: "string \<Rightarrow> string" where
  "unquote v = (if length v \<ge> 2 \<and> prefix [CHR 0x22] v \<and> suffix [CHR 0x22] v then js_trim (butlast (tl v)) else v)"

definition parse_client_address :: "string \<Rightarrow> parsed_ip option" where
  "parse_client_address s = (let v = unquote (js_trim s) in
     case bracketed v of Some a \<Rightarrow> parse_ip a
     | None \<Rightarrow> (case v4_port v of Some a \<Rightarrow> parse_ip a | None \<Rightarrow> parse_ip v))"

record range_opts =
  opt_min_v4 :: "int option"
  opt_min_v6 :: "int option"

definition no_opts :: range_opts where "no_opts = \<lparr>opt_min_v4 = None, opt_min_v6 = None\<rparr>"

definition min_bits :: "range_opts \<Rightarrow> ip_fam \<Rightarrow> int" where
  "min_bits opts fam = (case fam of
     IPv4 \<Rightarrow> (case opt_min_v4 opts of None \<Rightarrow> min_prefix_v4 | Some n \<Rightarrow> n)
   | IPv6 \<Rightarrow> (case opt_min_v6 opts of None \<Rightarrow> min_prefix_v6 | Some n \<Rightarrow> n))"

definition cidr_of :: "parsed_ip \<Rightarrow> nat \<Rightarrow> cidr" where
  "cidr_of ip bits =
     (let width = ip_bits (ip_family ip);
          host = push_bit (width - bits) 1 - 1;
          start = (ip_value ip AND NOT host) AND (push_bit width 1 - 1)
      in \<lparr>cidr_family = ip_family ip, cidr_start = start, cidr_end = start OR host\<rparr>)"

definition parse_cidr :: "range_opts \<Rightarrow> string \<Rightarrow> cidr option" where
  "parse_cidr opts s =
     (if CHR ''/'' \<notin> set s then None
      else let lenStr = js_trim (tl (dropWhile (\<lambda>c. c \<noteq> CHR ''/'') s)) in
        if \<not> digits_re 3 lenStr then None
        else (case parse_raw (takeWhile (\<lambda>c. c \<noteq> CHR ''/'') s) of None \<Rightarrow> None
          | Some ip0 \<Rightarrow>
              let m = is_mapped ip0 \<and> dec_value lenStr \<ge> 96;
                  ip = (if m then unmap ip0 else ip0);
                  bits = (if m then dec_value lenStr - 96 else dec_value lenStr)
              in if bits > ip_bits (ip_family ip) then None
                 else if int bits < min_bits opts (ip_family ip) then None
                 else Some (cidr_of ip bits)))"

type_synonym interval = "int \<times> int"

fun merge_loop :: "interval list \<Rightarrow> interval list \<Rightarrow> interval list" where
  "merge_loop [] out = out"
| "merge_loop ((s, e) # rest) out =
     (if out \<noteq> [] \<and> s \<le> snd (last out) + 1
      then merge_loop rest (if e > snd (last out) then butlast out @ [(fst (last out), e)] else out)
      else merge_loop rest (out @ [(s, e)]))"

definition merge_ranges :: "interval list \<Rightarrow> interval list" where
  "merge_ranges xs = merge_loop (sort_key fst xs) []"

function search_loop :: "interval list \<Rightarrow> int \<Rightarrow> int \<Rightarrow> int \<Rightarrow> bool" where
  "search_loop xs v lo hi =
     (if lo \<le> hi then
        (let mid = (lo + hi) div 2; iv = xs ! nat mid in
         if v < fst iv then search_loop xs v lo (mid - 1)
         else if v > snd iv then search_loop xs v (mid + 1) hi
         else True)
      else False)"
  by pat_completeness auto
termination
  by (relation "measure (\<lambda>(xs, v, lo, hi). nat (hi - lo + 1))") auto

declare search_loop.simps [simp del]

definition search_ranges :: "interval list \<Rightarrow> int \<Rightarrow> bool" where
  "search_ranges xs v = search_loop xs v 0 (int (length xs) - 1)"

record range_set =
  rs_v4 :: "interval list"
  rs_v6 :: "interval list"

definition range_set_of :: "cidr list \<Rightarrow> range_set" where
  "range_set_of cs =
     \<lparr>rs_v4 = merge_ranges (map (\<lambda>c. (cidr_start c, cidr_end c)) (filter (\<lambda>c. cidr_family c = IPv4) cs)),
      rs_v6 = merge_ranges (map (\<lambda>c. (cidr_start c, cidr_end c)) (filter (\<lambda>c. cidr_family c = IPv6) cs))\<rparr>"

definition range_size :: "range_set \<Rightarrow> nat" where
  "range_size rs = length (rs_v4 rs) + length (rs_v6 rs)"

definition range_has :: "range_set \<Rightarrow> parsed_ip \<Rightarrow> bool" where
  "range_has rs ip = search_ranges (if ip_family ip = IPv4 then rs_v4 rs else rs_v6 rs) (ip_value ip)"

definition ranges_from_strings :: "range_opts \<Rightarrow> string list \<Rightarrow> range_set \<times> nat" where
  "ranges_from_strings opts xs =
     (range_set_of (List.map_filter (parse_cidr opts) xs), length (filter (\<lambda>s. parse_cidr opts s = None) xs))"

definition reserved_list :: "string list" where
  "reserved_list =
    [''0.0.0.0/8'', ''10.0.0.0/8'', ''100.64.0.0/10'', ''127.0.0.0/8'', ''169.254.0.0/16'', ''172.16.0.0/12'',
     ''192.0.0.0/24'', ''192.0.2.0/24'', ''192.168.0.0/16'', ''198.18.0.0/15'', ''198.51.100.0/24'',
     ''203.0.113.0/24'', ''224.0.0.0/4'', ''240.0.0.0/4'',
     ''::/128'', ''::1/128'', ''64:ff9b::/96'', ''100::/64'', ''2001:db8::/32'', ''fc00::/7'', ''fe80::/10'', ''ff00::/8'']"

definition reserved_ranges :: range_set where
  "reserved_ranges = fst (ranges_from_strings \<lparr>opt_min_v4 = Some 0, opt_min_v6 = Some 0\<rparr> reserved_list)"

definition is_usable_public_ip :: "parsed_ip \<Rightarrow> range_set list \<Rightarrow> bool" where
  "is_usable_public_ip ip proxies \<longleftrightarrow> \<not> range_has reserved_ranges ip \<and> \<not> list_ex (\<lambda>r. range_has r ip) proxies"

text \<open>\<open>String(n)\<close> and \<open>n.toString(16)\<close>, most significant digit first.\<close>

definition digit_char :: "nat \<Rightarrow> char" where
  "digit_char d = (if d < 10 then char_of (48 + d) else char_of (87 + d))"

fun nat_string :: "nat \<Rightarrow> nat \<Rightarrow> string" where
  "nat_string b n = (if n < b \<or> b \<le> 1 then [digit_char n] else nat_string b (n div b) @ [digit_char (n mod b)])"

declare nat_string.simps [simp del]

fun js_join :: "string \<Rightarrow> string list \<Rightarrow> string" where
  "js_join sep [] = []"
| "js_join sep [x] = x"
| "js_join sep (x # y # xs) = x @ sep @ js_join sep (y # xs)"

definition format_v4 :: "int \<Rightarrow> string" where
  "format_v4 v = js_join ''.'' (map (\<lambda>s. nat_string 10 (nat (drop_bit s v AND 0xff))) [24, 16, 8, 0])"

definition truncate_ip :: "parsed_ip \<Rightarrow> string" where
  "truncate_ip ip = (case ip_family ip of
     IPv4 \<Rightarrow> format_v4 ((ip_value ip AND NOT 0xff) AND low32) @ ''/24''
   | IPv6 \<Rightarrow> (let top = drop_bit 80 (ip_value ip) in
       js_join '':'' (map (\<lambda>s. nat_string 16 (nat (drop_bit s top AND 0xffff))) [32, 16, 0]) @ ''::/48''))"

section \<open>Bits\<close>

lemma push_or_add:
  fixes v n :: int
  assumes "0 \<le> n" "n < 2 ^ k"
  shows "push_bit k v OR n = v * 2 ^ k + n"
proof -
  have "take_bit k n = n" using assms by (simp add: take_bit_int_eq_self)
  then have "\<not> bit (push_bit k v) i \<or> \<not> bit n i" for i
    by (metis bit_push_bit_iff bit_take_bit_iff linorder_not_le)
  then have "push_bit k v OR n = push_bit k v + n" by (simp add: disjunctive_add)
  then show ?thesis by (simp add: push_bit_eq_mult)
qed

lemma and_not_mask_int: "(v::int) AND NOT (push_bit k 1 - 1) = push_bit k (drop_bit k v)"
proof -
  have m: "push_bit k 1 - 1 = (mask k :: int)" by (simp add: mask_eq_exp_minus_1 push_bit_eq_mult)
  show ?thesis unfolding m
    by (rule bit_eqI) (auto simp: bit_and_iff bit_not_iff bit_mask_iff bit_push_bit_iff bit_drop_bit_eq)
qed

lemma and_mask_int: "(v::int) AND (push_bit k 1 - 1) = take_bit k v"
  by (simp add: take_bit_eq_mask push_bit_eq_mult mask_eq_exp_minus_1)

lemma cidr_of_ends:
  assumes "0 \<le> ip_value ip" "ip_value ip < 2 ^ ip_bits (ip_family ip)" "bits \<le> ip_bits (ip_family ip)"
    "k = ip_bits (ip_family ip) - bits"
  shows "cidr_start (cidr_of ip bits) = ip_value ip div 2 ^ k * 2 ^ k"
    "cidr_end (cidr_of ip bits) = ip_value ip div 2 ^ k * 2 ^ k + (2 ^ k - 1)"
    "cidr_family (cidr_of ip bits) = ip_family ip"
proof -
  let ?w = "ip_bits (ip_family ip)" and ?v = "ip_value ip"
  have p: "push_bit k (drop_bit k ?v) = ?v div 2 ^ k * 2 ^ k" by (simp add: push_bit_eq_mult drop_bit_eq_div)
  have "?v div 2 ^ k * 2 ^ k \<le> ?v" using div_mult_mod_eq [of ?v "2 ^ k"] pos_mod_sign [of "2 ^ k" ?v] by (smt (verit) zero_less_power)
  then have t: "take_bit ?w (push_bit k (drop_bit k ?v)) = push_bit k (drop_bit k ?v)"
    using assms(1,2) unfolding p by (intro take_bit_int_eq_self) (auto simp: pos_imp_zdiv_nonneg_iff)
  have s: "cidr_start (cidr_of ip bits) = push_bit k (drop_bit k ?v)"
    unfolding cidr_of_def Let_def assms(4) [symmetric] and_not_mask_int and_mask_int t
    by (simp only: cidr.select_convs)
  have e: "cidr_end (cidr_of ip bits) = push_bit k (drop_bit k ?v) OR (2 ^ k - 1)"
    unfolding cidr_of_def Let_def assms(4) [symmetric] and_not_mask_int and_mask_int t
    by (simp add: push_bit_eq_mult)
  show "cidr_start (cidr_of ip bits) = ?v div 2 ^ k * 2 ^ k" by (simp only: s p)
  show "cidr_end (cidr_of ip bits) = ?v div 2 ^ k * 2 ^ k + (2 ^ k - 1)"
    unfolding e by (subst push_or_add) (auto simp: drop_bit_eq_div)
  show "cidr_family (cidr_of ip bits) = ip_family ip" by (simp add: cidr_of_def Let_def)
qed

lemma block_div: "(b::int) > 0 \<Longrightarrow> q * b \<le> v \<and> v \<le> q * b + (b - 1) \<longleftrightarrow> v div b = q"
proof -
  assume b: "b > 0"
  have "v div b = q" if "q * b \<le> v" "v \<le> q * b + (b - 1)"
  proof -
    have "v = b * q + (v - q * b)" "0 \<le> v - q * b" "v - q * b < b" using that by (auto simp: algebra_simps)
    then show ?thesis using int_div_pos_eq by blast
  qed
  moreover have "q * b \<le> v \<and> v \<le> q * b + (b - 1)" if "v div b = q"
    using that b pos_mod_bound [OF b, of v] pos_mod_sign [OF b, of v] div_mult_mod_eq [of v b] by auto
  ultimately show ?thesis by blast
qed

section \<open>Parsed values\<close>

lemma v4_octets_value:
  "v4_octets ps v = Some w \<Longrightarrow> w = foldl (\<lambda>a p. a * 256 + int (dec_value p)) v ps \<and>
     list_all (\<lambda>p. digits_re 3 p \<and> dec_value p \<le> 255) ps"
proof (induction ps arbitrary: v)
  case (Cons p ps)
  then show ?case by (auto simp: push_or_add split: if_splits)
qed simp

lemma fold_bound:
  assumes "list_all (\<lambda>p. f p < b) ps" "0 \<le> v" "v < int b ^ k"
  shows "0 \<le> foldl (\<lambda>a p. a * int b + int (f p)) v ps \<and> foldl (\<lambda>a p. a * int b + int (f p)) v ps < int b ^ (k + length ps)"
  using assms
proof (induction ps arbitrary: v k)
  case (Cons p ps)
  have "v + 1 \<le> int b ^ k" using Cons.prems by simp
  then have "(v + 1) * int b \<le> int b ^ k * int b" by (rule mult_right_mono) simp
  then have "v * int b + int (f p) < int b ^ Suc k" using Cons.prems(1) by (simp add: algebra_simps)
  with Cons.IH [of "v * int b + int (f p)" "Suc k"] Cons.prems show ?case by simp
qed simp

lemma parse_v4_range:
  assumes "parse_v4 s = Some v"
  shows "0 \<le> v \<and> v < 2 ^ 32"
proof -
  let ?ps = "js_split CHR ''.'' s"
  have l: "length ?ps = 4" and o: "v4_octets ?ps 0 = Some v"
    using assms by (auto simp: parse_v4_def Let_def split: if_splits)
  from v4_octets_value [OF o] have v: "v = foldl (\<lambda>a p. a * int 256 + int (dec_value p)) 0 ?ps"
    and a: "list_all (\<lambda>p. dec_value p < 256) ?ps" by (auto simp: list_all_iff)
  show ?thesis using fold_bound [OF a, of 0 0] l unfolding v [symmetric] by simp
qed

lemma hex_digit_less: "is_hex_char c \<Longrightarrow> hex_digit_value c < 16"
  by (auto simp: is_hex_char_def hex_digit_value_def digit_value_def is_digit_def less_eq_char_def)

lemma hex_value_less:
  assumes "list_all is_hex_char s"
  shows "hex_value s < 16 ^ length s"
proof -
  have f: "int (foldl (\<lambda>a c. 16 * a + hex_digit_value c) n s) = foldl (\<lambda>a c. a * int 16 + int (hex_digit_value c)) (int n) s" for n
    by (induction s arbitrary: n) (auto simp: algebra_simps)
  have "list_all (\<lambda>c. hex_digit_value c < 16) s" using assms hex_digit_less by (auto simp: list_all_iff)
  from fold_bound [OF this, of 0 0] f [of 0] have "int (hex_value s) < int (16 ^ length s)"
    by (simp add: hex_value_def)
  then show ?thesis by linarith
qed

lemma hex_group_less:
  assumes "hex_group_re g"
  shows "hex_value g < 65536"
proof -
  have "hex_value g < 16 ^ length g" "length g \<le> 4" using assms hex_value_less by (auto simp: hex_group_re_def)
  moreover have "(16::nat) ^ length g \<le> 16 ^ 4" using \<open>length g \<le> 4\<close> by (intro power_increasing) auto
  ultimately show ?thesis by simp
qed

lemma v6_groups_value:
  "v6_groups gs v = Some w \<Longrightarrow> w = foldl (\<lambda>a g. a * 65536 + int (hex_value g)) v gs \<and> list_all hex_group_re gs"
proof (induction gs arbitrary: v)
  case (Cons g gs)
  have "hex_group_re g \<Longrightarrow> push_bit 16 v OR int (hex_value g) = v * 65536 + int (hex_value g)"
    using hex_group_less [of g] by (subst push_or_add) auto
  with Cons show ?case by (auto split: if_splits)
qed simp

text \<open>How these loops are evaluated: shifting by sixteen bits and setting the low ones is arithmetic.\<close>

lemma v6_groups_code [code]:
  "v6_groups [] v = Some v"
  "v6_groups (g # gs) v =
     (if \<not> hex_group_re g then None else v6_groups gs (v * 65536 + int (hex_value g)))"
  using hex_group_less [of g] by (auto simp: push_or_add)

lemma is_mapped_code [code]: "is_mapped ip \<longleftrightarrow> ip_family ip = IPv6 \<and> ip_value ip div 4294967296 = 0xffff"
  by (simp add: is_mapped_def drop_bit_eq_div)

lemma low32_mask: "low32 = push_bit 32 1 - 1"
  by (simp add: low32_def push_bit_eq_mult)

lemma v6_value_range:
  assumes "v6_value s tl' = Some v" "\<And>t. tl' = Some t \<Longrightarrow> 0 \<le> t \<and> t < 2 ^ 32"
  shows "0 \<le> v \<and> v < 2 ^ 128"
proof -
  from assms(1) obtain gs w where g: "length gs = 8" "v6_groups gs 0 = Some w"
    and v: "v = (case tl' of None \<Rightarrow> w | Some t \<Rightarrow> (w AND NOT low32) OR t)"
    by (auto simp: v6_value_def split: option.splits if_splits)
  from v6_groups_value [OF g(2)] have w: "w = foldl (\<lambda>a g. a * int 65536 + int (hex_value g)) 0 gs"
    and "list_all (\<lambda>g. hex_value g < 65536) gs" by (auto simp: list_all_iff hex_group_less)
  from fold_bound [OF this(2), of 0 0] g(1) have r: "0 \<le> w" "w < 2 ^ 128" unfolding w [symmetric] by auto
  show ?thesis
  proof (cases tl')
    case None
    with v r show ?thesis by simp
  next
    case (Some t)
    with assms(2) have t: "0 \<le> t" "t < 2 ^ 32" by auto
    have "v = drop_bit 32 w * 2 ^ 32 + t"
      unfolding v Some low32_mask and_not_mask_int option.case by (rule push_or_add) (use t in auto)
    moreover have "0 \<le> drop_bit 32 w" "drop_bit 32 w < 2 ^ 96"
      using r by (auto simp: drop_bit_eq_div)
    ultimately show ?thesis using t by auto
  qed
qed

definition ip_ok :: "parsed_ip \<Rightarrow> bool" where
  "ip_ok ip \<longleftrightarrow> 0 \<le> ip_value ip \<and> ip_value ip < 2 ^ ip_bits (ip_family ip)"

lemma parse_raw_ok:
  assumes "parse_raw s = Some ip"
  shows "ip_ok ip"
proof -
  have v6: "0 \<le> v \<and> v < 2 ^ 128" if "parse_v6 u = Some v" for u v
    using that v6_value_range [of _ _ v] parse_v4_range
    by (auto simp: parse_v6_def Let_def split: if_splits option.splits)
  show ?thesis using assms v6 parse_v4_range
    by (fastforce simp: parse_raw_def Let_def ip_ok_def split: if_splits)
qed

lemma unmap_ok: "ip_ok (unmap ip)"
  by (simp add: ip_ok_def unmap_def low32_mask and_mask_int)

lemma parse_ip_ok:
  assumes "parse_ip s = Some ip"
  shows "ip_ok ip" "\<not> is_mapped ip"
  using assms parse_raw_ok unmap_ok
  by (auto simp: parse_ip_def is_mapped_def unmap_def split: option.splits if_splits)

lemma parse_client_address_ok:
  assumes "parse_client_address s = Some ip"
  shows "ip_ok ip" "\<not> is_mapped ip"
  using assms parse_ip_ok by (auto simp: parse_client_address_def Let_def split: option.splits)

lemma parse_cidr_form:
  assumes "parse_cidr opts s = Some c"
  shows "\<exists>ip bits. ip_ok ip \<and> bits \<le> ip_bits (ip_family ip) \<and> min_bits opts (ip_family ip) \<le> int bits \<and> c = cidr_of ip bits"
proof -
  let ?a = "takeWhile (\<lambda>c. c \<noteq> CHR ''/'') s" and ?b = "js_trim (tl (dropWhile (\<lambda>c. c \<noteq> CHR ''/'') s))"
  from assms obtain ip0 where r: "parse_raw ?a = Some ip0"
    by (auto simp: parse_cidr_def Let_def split: if_splits option.splits)
  let ?m = "is_mapped ip0 \<and> dec_value ?b \<ge> 96"
  let ?ip = "if ?m then unmap ip0 else ip0" and ?bits = "if ?m then dec_value ?b - 96 else dec_value ?b"
  have "ip_ok ?ip" using parse_raw_ok [OF r] unmap_ok by auto
  moreover have "?bits \<le> ip_bits (ip_family ?ip) \<and> min_bits opts (ip_family ?ip) \<le> int ?bits \<and> c = cidr_of ?ip ?bits"
    using assms unfolding parse_cidr_def Let_def r option.case by (metis leI option.distinct(1) option.inject)
  ultimately show ?thesis by metis
qed

section \<open>Merging and search\<close>

definition covered :: "interval list \<Rightarrow> int \<Rightarrow> bool" where
  "covered xs v \<longleftrightarrow> (\<exists>(a, b) \<in> set xs. a \<le> v \<and> v \<le> b)"

text \<open>Separated: well-formed intervals in order, with a gap between neighbours.\<close>

definition separated :: "interval list \<Rightarrow> bool" where
  "separated xs \<longleftrightarrow> list_all (\<lambda>(a, b). a \<le> b) xs \<and> sorted_wrt (\<lambda>p q. snd p + 1 < fst q) xs"

lemma covered_simps [simp]: "\<not> covered [] v" "covered (p # xs) v \<longleftrightarrow> (fst p \<le> v \<and> v \<le> snd p) \<or> covered xs v"
  "covered (xs @ ys) v \<longleftrightarrow> covered xs v \<or> covered ys v"
  by (auto simp: covered_def split_beta)

lemma separated_snoc:
  "separated (xs @ [(a, b)]) \<longleftrightarrow> separated xs \<and> a \<le> b \<and> (\<forall>p \<in> set xs. snd p + 1 < a)"
  by (auto simp: separated_def sorted_wrt_append)

lemma merge_loop_correct:
  assumes "sorted (map fst xs)" "list_all (\<lambda>(a, b). a \<le> b) xs" "separated out"
    "\<forall>p \<in> set out. \<forall>q \<in> set xs. fst p \<le> fst q"
  shows "separated (merge_loop xs out) \<and> (\<forall>v. covered (merge_loop xs out) v \<longleftrightarrow> covered out v \<or> covered xs v)"
  using assms
proof (induction xs out rule: merge_loop.induct)
  case (1 out)
  then show ?case by simp
next
  case (2 s e rest out)
  have se: "s \<le> e" and rest: "sorted (map fst rest)" "list_all (\<lambda>(a, b). a \<le> b) rest" "\<forall>q \<in> set rest. s \<le> fst q"
    using "2.prems"(1,2) by auto
  show ?case
  proof (cases "out \<noteq> [] \<and> s \<le> snd (last out) + 1")
    case True
    then obtain pre a b where out: "out = pre @ [(a, b)]" by (metis append_butlast_last_id surj_pair)
    have sep: "separated pre" "a \<le> b" "\<forall>p \<in> set pre. snd p + 1 < a" using "2.prems"(3) by (auto simp: out separated_snoc)
    let ?out = "if e > snd (last out) then butlast out @ [(fst (last out), e)] else out"
    have o: "?out = pre @ [(a, if e > b then e else b)]" by (simp add: out)
    have as: "a \<le> s" using "2.prems"(4) by (auto simp: out)
    have "separated ?out" unfolding o separated_snoc using sep as se by auto
    moreover have "\<forall>p \<in> set ?out. \<forall>q \<in> set rest. fst p \<le> fst q"
      using "2.prems"(4) by (auto simp: out)
    moreover have "covered ?out v \<longleftrightarrow> covered out v \<or> (s \<le> v \<and> v \<le> e)" for v
      using True as by (auto simp: out)
    ultimately show ?thesis using "2.IH"(1) [OF True rest(1,2)] True by auto
  next
    case False
    have gap: "\<forall>p \<in> set out. snd p + 1 < s"
    proof (cases "out = []")
      case ne: False
      then obtain pre a b where out: "out = pre @ [(a, b)]" by (metis append_butlast_last_id surj_pair)
      have "\<forall>p \<in> set pre. snd p + 1 < a" "a \<le> s" using "2.prems"(3,4) by (auto simp: out separated_snoc)
      with False out show ?thesis by auto
    qed simp
    have "separated (out @ [(s, e)])" using "2.prems"(3) gap se by (simp add: separated_snoc)
    moreover have "\<forall>p \<in> set (out @ [(s, e)]). \<forall>q \<in> set rest. fst p \<le> fst q"
      using "2.prems"(4) rest(3) by auto
    ultimately show ?thesis using "2.IH"(2) [OF False rest(1,2)] False by auto
  qed
qed

lemma merge_ranges_correct:
  assumes "list_all (\<lambda>(a, b). a \<le> b) xs"
  shows "separated (merge_ranges xs)" "covered (merge_ranges xs) v \<longleftrightarrow> covered xs v"
proof -
  have "sorted (map fst (sort_key fst xs))" by simp
  moreover have "list_all (\<lambda>(a, b). a \<le> b) (sort_key fst xs)" using assms by (simp add: list_all_iff)
  moreover have "separated []" by (simp add: separated_def)
  ultimately have m: "separated (merge_ranges xs) \<and> (\<forall>v. covered (merge_ranges xs) v \<longleftrightarrow> covered (sort_key fst xs) v)"
    unfolding merge_ranges_def using merge_loop_correct [of "sort_key fst xs" "[]"] by simp
  then show "separated (merge_ranges xs)" "covered (merge_ranges xs) v \<longleftrightarrow> covered xs v"
    by (auto simp: covered_def)
qed

lemma search_loop_correct:
  assumes "separated xs" "0 \<le> lo" "hi < int (length xs)"
  shows "search_loop xs v lo hi \<longleftrightarrow> (\<exists>i. lo \<le> int i \<and> int i \<le> hi \<and> fst (xs ! i) \<le> v \<and> v \<le> snd (xs ! i))"
  using assms
proof (induction xs v lo hi rule: search_loop.induct)
  case (1 xs v lo hi)
  show ?case
  proof (cases "lo \<le> hi")
    case False
    then show ?thesis by (subst search_loop.simps) auto
  next
    case True
    let ?m = "(lo + hi) div 2"
    have m: "lo \<le> ?m" "?m \<le> hi" "nat ?m < length xs" "0 \<le> ?m" using True "1.prems" by auto
    have wf: "i < length xs \<Longrightarrow> fst (xs ! i) \<le> snd (xs ! i)" for i
      using "1.prems"(1) by (auto simp: separated_def list_all_length split_beta)
    have ord: "i < j \<Longrightarrow> j < length xs \<Longrightarrow> snd (xs ! i) + 1 < fst (xs ! j)" for i j
      using "1.prems"(1) by (auto simp: separated_def sorted_wrt_iff_nth_less)
    note IH = "1.IH" [OF True refl refl]
    consider (l) "v < fst (xs ! nat ?m)" | (g) "v > snd (xs ! nat ?m)" | (i) "fst (xs ! nat ?m) \<le> v" "v \<le> snd (xs ! nat ?m)"
      by linarith
    then show ?thesis
    proof cases
      case l
      have "int i \<le> ?m - 1" if "int i \<le> hi" "fst (xs ! i) \<le> v" for i
      proof (rule ccontr)
        assume "\<not> int i \<le> ?m - 1"
        then consider "i = nat ?m" | "nat ?m < i" using m(4) by linarith
        then show False using that l ord [of "nat ?m" i] wf [OF m(3)] "1.prems"(3) by cases auto
      qed
      then show ?thesis using IH(1) [OF l "1.prems"(1,2)] "1.prems"(3) m l
        by (subst search_loop.simps) (auto simp: Let_def)
    next
      case g
      have n: "\<not> v < fst (xs ! nat ?m)" using g wf [OF m(3)] by linarith
      have "?m + 1 \<le> int i" if "lo \<le> int i" "int i \<le> hi" "v \<le> snd (xs ! i)" for i
      proof (rule ccontr)
        assume "\<not> ?m + 1 \<le> int i"
        then consider "i = nat ?m" | "i < nat ?m" using m(4) by linarith
        then show False using that g ord [of i "nat ?m"] m(3) wf [OF m(3)] by cases auto
      qed
      then have "(\<exists>i. lo \<le> int i \<and> int i \<le> hi \<and> fst (xs ! i) \<le> v \<and> v \<le> snd (xs ! i)) \<longleftrightarrow>
          (\<exists>i. ?m + 1 \<le> int i \<and> int i \<le> hi \<and> fst (xs ! i) \<le> v \<and> v \<le> snd (xs ! i))"
        using m(1) by (meson order_trans zle_add1_eq_le less_imp_le)
      moreover have "search_loop xs v lo hi = search_loop xs v (?m + 1) hi"
        using True g n by (subst search_loop.simps) (simp add: Let_def)
      ultimately show ?thesis using IH(2) [OF n g "1.prems"(1)] "1.prems"(3) m(4) by simp
    next
      case i
      then have "search_loop xs v lo hi" using True by (subst search_loop.simps) (simp add: Let_def)
      moreover have "lo \<le> int (nat ?m)" "int (nat ?m) \<le> hi" using m by auto
      ultimately show ?thesis using i by blast
    qed
  qed
qed

lemma search_ranges_correct: "separated xs \<Longrightarrow> search_ranges xs v \<longleftrightarrow> covered xs v"
proof -
  assume "separated xs"
  then have "search_ranges xs v \<longleftrightarrow> (\<exists>i < length xs. fst (xs ! i) \<le> v \<and> v \<le> snd (xs ! i))"
    unfolding search_ranges_def by (subst search_loop_correct) auto
  moreover have "covered xs v \<longleftrightarrow> (\<exists>p. p \<in> set xs \<and> fst p \<le> v \<and> v \<le> snd p)"
    by (fastforce simp: covered_def)
  ultimately show ?thesis unfolding in_set_conv_nth by blast
qed

lemma range_has_cidrs:
  assumes "list_all (\<lambda>c. cidr_start c \<le> cidr_end c) cs"
  shows "range_has (range_set_of cs) ip \<longleftrightarrow>
    (\<exists>c \<in> set cs. cidr_family c = ip_family ip \<and> cidr_start c \<le> ip_value ip \<and> ip_value ip \<le> cidr_end c)"
proof -
  have w: "list_all (\<lambda>(a, b). a \<le> b) (map (\<lambda>c. (cidr_start c, cidr_end c)) (filter P cs))" for P
    using assms by (auto simp: list_all_iff)
  show ?thesis
    using merge_ranges_correct [OF w] ip_fam.exhaust [of "ip_family ip"]
    by (cases "ip_family ip") (auto simp: range_has_def range_set_of_def search_ranges_correct covered_def)
qed

lemma cidr_member:
  assumes "ip_ok ip" "bits \<le> ip_bits (ip_family ip)" "ip_family x = ip_family ip"
  shows "cidr_start (cidr_of ip bits) \<le> ip_value x \<and> ip_value x \<le> cidr_end (cidr_of ip bits) \<longleftrightarrow>
    drop_bit (ip_bits (ip_family ip) - bits) (ip_value x) = drop_bit (ip_bits (ip_family ip) - bits) (ip_value ip)"
  using cidr_of_ends [OF _ _ assms(2) refl] assms(1)
  by (simp add: ip_ok_def block_div drop_bit_eq_div)

lemma parse_cidr_le: "parse_cidr opts s = Some c \<Longrightarrow> cidr_start c \<le> cidr_end c"
  using parse_cidr_form [of opts s c] cidr_of_ends [OF _ _ _ refl] by (auto simp: ip_ok_def)

lemma ranges_from_strings_has:
  "range_has (fst (ranges_from_strings opts xs)) ip \<longleftrightarrow>
    (\<exists>s \<in> set xs. \<exists>c. parse_cidr opts s = Some c \<and> cidr_family c = ip_family ip \<and>
       cidr_start c \<le> ip_value ip \<and> ip_value ip \<le> cidr_end c)"
proof -
  have s: "set (List.map_filter (parse_cidr opts) xs) = {c. \<exists>s \<in> set xs. parse_cidr opts s = Some c}"
    by (force simp: List.map_filter_def)
  have "list_all (\<lambda>c. cidr_start c \<le> cidr_end c) (List.map_filter (parse_cidr opts) xs)"
    unfolding list_all_iff s using parse_cidr_le by blast
  from range_has_cidrs [OF this] show ?thesis unfolding ranges_from_strings_def fst_conv s by auto
qed

section \<open>Printed addresses\<close>

lemma foldl_base: "foldl (\<lambda>a c. b * a + f c) n xs = n * b ^ length xs + foldl (\<lambda>a c. b * a + f c) (0::nat) xs"
proof (induction xs arbitrary: n)
  case (Cons x xs)
  show ?case unfolding foldl_Cons using Cons [of "b * n + f x"] Cons [of "b * 0 + f x"]
    by (simp add: algebra_simps)
qed simp

lemma digit_char_value: "d < 10 \<Longrightarrow> digit_value (digit_char d) = d" "d < 16 \<Longrightarrow> hex_digit_value (digit_char d) = d"
  "d < 10 \<Longrightarrow> is_digit (digit_char d)" "d < 16 \<Longrightarrow> is_hex_char (digit_char d)"
  by (auto simp: digit_char_def digit_value_def hex_digit_value_def is_digit_def is_hex_char_def less_eq_char_def
      js_lower_char_def)

lemma nat_string_unfold: "n < b \<Longrightarrow> nat_string b n = [digit_char n]"
  "1 < b \<Longrightarrow> \<not> n < b \<Longrightarrow> nat_string b n = nat_string b (n div b) @ [digit_char (n mod b)]"
  by (subst nat_string.simps, simp)+

text \<open>Printing in a base and reading back, for any digit alphabet.\<close>

lemma nat_string_value:
  assumes b: "1 < b" and f: "\<And>d. d < b \<Longrightarrow> f (digit_char d) = d"
  shows "foldl (\<lambda>a c. b * a + f c) 0 (nat_string b n) = n"
proof (induction n rule: less_induct)
  case (less n)
  show ?case
  proof (cases "n < b")
    case True
    then show ?thesis by (simp add: nat_string_unfold f)
  next
    case False
    then have "n div b < n" using b by (intro div_less_dividend) auto
    from less [OF this] show ?thesis using False b by (simp add: nat_string_unfold f)
  qed
qed

lemma nat_string_all:
  assumes "1 < b" "\<And>d. d < b \<Longrightarrow> P (digit_char d)"
  shows "list_all P (nat_string b n)"
proof (induction n rule: less_induct)
  case (less n)
  show ?case
  proof (cases "n < b")
    case True
    then show ?thesis by (simp add: nat_string_unfold assms)
  next
    case False
    then have "n div b < n" using assms(1) by (intro div_less_dividend) auto
    from less [OF this] show ?thesis using False assms by (simp add: nat_string_unfold)
  qed
qed

lemma nat_string_length:
  assumes "1 < b" "n < b ^ k" "0 < k"
  shows "nat_string b n \<noteq> [] \<and> length (nat_string b n) \<le> k"
  using assms
proof (induction k arbitrary: n)
  case (Suc k)
  show ?case
  proof (cases "n < b")
    case True
    then show ?thesis by (simp add: nat_string_unfold)
  next
    case False
    then have "0 < k" using Suc.prems by (cases k) auto
    moreover have "n div b < b ^ k" using Suc.prems by (simp add: div_less_iff_less_mult mult.commute)
    ultimately have "length (nat_string b (n div b)) \<le> k" using Suc.IH Suc.prems(1) by blast
    then show ?thesis using False Suc.prems(1) by (simp add: nat_string_unfold)
  qed
qed simp

lemma dec_string:
  assumes "n < 256"
  shows "dec_value (nat_string 10 n) = n" "digits_re 3 (nat_string 10 n)"
  using nat_string_value [of 10 digit_value n] nat_string_all [of 10 is_digit n] nat_string_length [of 10 n 3] assms
  by (auto simp: dec_value_def digits_re_def digit_char_value)

lemma hex_string:
  assumes "n < 65536"
  shows "hex_value (nat_string 16 n) = n" "hex_group_re (nat_string 16 n)"
  using nat_string_value [of 16 hex_digit_value n] nat_string_all [of 16 is_hex_char n] nat_string_length [of 16 n 4] assms
  by (auto simp: hex_value_def hex_group_re_def digit_char_value)

lemma join_split:
  assumes "xs \<noteq> []" "\<forall>x \<in> set xs. c \<notin> set x"
  shows "js_split c (js_join [c] xs) = xs"
  using assms
proof (induction "[c]" xs rule: js_join.induct)
  case (3 x y xs)
  then show ?case using js_split_append [of c x] by simp
qed (auto simp: js_split_notin)

lemma v4_octets_strings:
  "list_all (\<lambda>n. n < 256) ns \<Longrightarrow> v4_octets (map (nat_string 10) ns) v = Some (foldl (\<lambda>a n. a * 256 + int n) v ns)"
  by (induction ns arbitrary: v) (auto simp: dec_string push_or_add)

lemma v6_groups_append: "v6_groups (xs @ ys) v = (case v6_groups xs v of None \<Rightarrow> None | Some w \<Rightarrow> v6_groups ys w)"
  by (induction xs arbitrary: v) auto

lemma v6_groups_strings:
  "list_all (\<lambda>n. n < 65536) ns \<Longrightarrow> v6_groups (map (nat_string 16) ns) v = Some (foldl (\<lambda>a n. a * 65536 + int n) v ns)"
  by (induction ns arbitrary: v) (auto simp: hex_string push_or_add)

lemma digit_not_sep: "is_digit c \<Longrightarrow> c \<notin> set ''./:%[] ''" "is_hex_char c \<Longrightarrow> c \<notin> set ''./:%[] ''"
  "is_digit c \<Longrightarrow> \<not> js_is_space c" "is_hex_char c \<Longrightarrow> \<not> js_is_space c"
  by (auto simp: is_digit_def is_hex_char_def less_eq_char_def js_is_space_def js_lower_char_def)

lemma and_byte: "(x::int) AND 0xff = x mod 256" "(x::int) AND 0xffff = x mod 65536"
  using and_mask_int [of x 8] and_mask_int [of x 16] by (auto simp: push_bit_eq_mult take_bit_eq_mod)

lemma js_trim_plain: "list_all (\<lambda>c. \<not> js_is_space c) s \<Longrightarrow> js_trim s = s"
  by (intro js_trim_id) (auto simp: list_all_iff)

definition v4_bytes :: "int \<Rightarrow> nat list" where
  "v4_bytes v = map (\<lambda>s. nat (drop_bit s v AND 0xff)) [24, 16, 8, 0]"

lemma v4_bytes_less: "list_all (\<lambda>n. n < 256) (v4_bytes v)"
  by (simp add: v4_bytes_def and_byte nat_less_iff)

lemma v4_bytes_value:
  assumes "0 \<le> v" "v < 2 ^ 32"
  shows "foldl (\<lambda>a n. a * 256 + int n) 0 (v4_bytes v) = v"
proof -
  have "v div 16777216 mod 256 = v div 16777216" using assms by (intro mod_pos_pos_trivial) auto
  moreover have n: "0 \<le> v div 16777216" using assms by simp
  ultimately have "foldl (\<lambda>a n. a * 256 + int n) 0 (v4_bytes v) =
      ((v div 16777216 * 256 + v div 65536 mod 256) * 256 + v div 256 mod 256) * 256 + v mod 256"
    by (simp add: v4_bytes_def and_byte drop_bit_eq_div)
  moreover have "v div 256 div 256 = v div 65536" "v div 65536 div 256 = v div 16777216"
    by (simp_all flip: zdiv_zmult2_eq)
  then have "v div 16777216 * 256 + v div 65536 mod 256 = v div 65536"
    "v div 65536 * 256 + v div 256 mod 256 = v div 256" by (metis div_mult_mod_eq)+
  ultimately show ?thesis by simp
qed

lemma format_v4_chars: "list_all (\<lambda>c. is_digit c \<or> c = CHR ''.'') (format_v4 v)"
proof -
  have "list_all is_digit (nat_string 10 n)" for n by (rule nat_string_all) (auto simp: digit_char_value)
  then show ?thesis by (auto simp: format_v4_def list_all_iff)
qed

lemma parse_v4_format:
  assumes "0 \<le> v" "v < 2 ^ 32"
  shows "parse_v4 (format_v4 v) = Some v"
proof -
  have f: "format_v4 v = js_join ''.'' (map (nat_string 10) (v4_bytes v))" by (simp add: format_v4_def v4_bytes_def)
  have "list_all is_digit (nat_string 10 n)" for n by (rule nat_string_all) (auto simp: digit_char_value)
  then have "CHR ''.'' \<notin> set (nat_string 10 n)" for n using digit_not_sep(1) by (fastforce simp: list_all_iff)
  then have "js_split CHR ''.'' (format_v4 v) = map (nat_string 10) (v4_bytes v)"
    unfolding f by (intro join_split) (auto simp: v4_bytes_def)
  moreover have "length (v4_bytes v) = 4" by (simp add: v4_bytes_def)
  ultimately show ?thesis
    by (simp add: parse_v4_def v4_octets_strings [OF v4_bytes_less] v4_bytes_value [OF assms])
qed

lemma parse_raw_format:
  assumes "0 \<le> v" "v < 2 ^ 32"
  shows "parse_raw (format_v4 v) = Some \<lparr>ip_family = IPv4, ip_value = v\<rparr>"
proof -
  let ?s = "format_v4 v"
  have c: "\<And>c. c \<in> set ?s \<Longrightarrow> is_digit c \<or> c = CHR ''.''" using format_v4_chars by (auto simp: list_all_iff)
  have "\<not> js_is_space CHR ''.''" by (simp add: js_is_space_def)
  then have "list_all (\<lambda>c. \<not> js_is_space c) ?s" unfolding list_all_iff using c digit_not_sep(3) by metis
  then have t: "js_trim ?s = ?s" by (rule js_trim_plain)
  have "CHR ''['' \<notin> set ?s" "CHR '':'' \<notin> set ?s" using c digit_not_sep(1) by fastforce+
  moreover have "?s \<noteq> []" using parse_v4_format [OF assms] by (auto simp: parse_v4_def)
  ultimately have "\<not> prefix ''['' ?s" by (auto simp: prefix_def)
  with \<open>?s \<noteq> []\<close> \<open>CHR '':'' \<notin> set ?s\<close> show ?thesis
    by (simp add: parse_raw_def t unbracket_def parse_v4_format [OF assms])
qed

lemma split_double_part: "c \<notin> set x \<Longrightarrow> split_double c (x @ t) =
    (case split_double c t of [] \<Rightarrow> [x] | p # ps \<Rightarrow> (x @ p) # ps)"
proof (induction x)
  case Nil
  have "split_double c t \<noteq> []" by (induction c t rule: split_double.induct) (auto split: list.splits)
  then show ?case by (auto split: list.splits)
next
  case (Cons a x)
  have n: "split_double c u \<noteq> []" for u by (induction c u rule: split_double.induct) (auto split: list.splits)
  from Cons show ?case
    by (cases "x @ t") (auto split: list.splits simp: n)
qed

lemma split_double_sep: "y \<noteq> c \<Longrightarrow> split_double c (c # y # t) =
    (case split_double c (y # t) of [] \<Rightarrow> [[c]] | p # ps \<Rightarrow> (c # p) # ps)"
  by simp

lemma split_double_three:
  assumes "c \<notin> set x" "c \<notin> set y" "c \<notin> set z" "y \<noteq> []" "z \<noteq> []"
  shows "split_double c (x @ c # y @ c # z @ [c, c]) = [x @ c # y @ c # z, []]"
proof -
  obtain y0 y' z0 z' where y: "y = y0 # y'" "y0 \<noteq> c" and z: "z = z0 # z'" "z0 \<noteq> c"
    using assms by (metis list.exhaust list.set_intros(1))
  have 1: "split_double c (z @ [c, c]) = [z, []]" by (subst split_double_part) (use assms in auto)
  have 2: "split_double c (c # z @ [c, c]) = [c # z, []]" using 1 z by (simp add: split_double_sep)
  have 3: "split_double c (y @ c # z @ [c, c]) = [y @ c # z, []]"
    by (subst split_double_part) (use assms 2 in auto)
  have 4: "split_double c (c # y @ c # z @ [c, c]) = [c # y @ c # z, []]" using 3 y by (simp add: split_double_sep)
  show ?thesis by (subst split_double_part) (use assms 4 in auto)
qed

lemma hex_groups_fold:
  assumes "0 \<le> t" "t < 2 ^ 48"
  shows "foldl (\<lambda>a n. a * 65536 + int n) 0
    (map (\<lambda>s. nat (drop_bit s t AND 0xffff)) [32, 16, 0] @ replicate 5 0) = t * 2 ^ 80"
proof -
  have "t div 4294967296 mod 65536 = t div 4294967296" using assms by (intro mod_pos_pos_trivial) auto
  moreover have n: "0 \<le> t div 4294967296" using assms by simp
  ultimately have "foldl (\<lambda>a n. a * 65536 + int n) 0 (map (\<lambda>s. nat (drop_bit s t AND 0xffff)) [32, 16, 0]) =
      (t div 4294967296 * 65536 + t div 65536 mod 65536) * 65536 + t mod 65536"
    by (simp add: and_byte drop_bit_eq_div)
  moreover have "t div 65536 div 65536 = t div 4294967296" by (simp flip: zdiv_zmult2_eq)
  then have "t div 4294967296 * 65536 + t div 65536 mod 65536 = t div 65536" by (metis div_mult_mod_eq)
  ultimately have "foldl (\<lambda>a n. a * 65536 + int n) 0 (map (\<lambda>s. nat (drop_bit s t AND 0xffff)) [32, 16, 0]) = t"
    by simp
  then show ?thesis unfolding foldl_append by (simp add: eval_nat_numeral)
qed

definition v6_top_text :: "int \<Rightarrow> string" where
  "v6_top_text t = js_join '':'' (map (\<lambda>s. nat_string 16 (nat (drop_bit s t AND 0xffff))) [32, 16, 0])"

lemma parse_v6_top:
  assumes "0 \<le> t" "t < 2 ^ 48"
  shows "parse_v6 (v6_top_text t @ ''::'') = Some (t * 2 ^ 80)"
    "\<forall>c \<in> set (v6_top_text t @ ''::''). is_hex_char c \<or> c = CHR '':''"
proof -
  let ?g = "\<lambda>s. nat_string 16 (nat (drop_bit s t AND 0xffff))"
  have l: "nat (drop_bit s t AND 0xffff) < 65536" for s by (simp add: and_byte nat_less_iff)
  note re = hex_string(2) [OF l]
  have h: "\<forall>c \<in> set (?g s). is_hex_char c" for s using re [of s] by (simp add: hex_group_re_def list_all_iff)
  have ne: "?g s \<noteq> []" for s using re [of s] by (simp add: hex_group_re_def)
  have nc: "c \<notin> set (?g s)" if "c \<in> set ''./:%[] ''" for c s using h [of s] digit_not_sep(2) that by blast
  let ?h = "?g 32 @ CHR '':'' # ?g 16 @ CHR '':'' # ?g 0"
  have tx: "v6_top_text t = ?h" by (simp add: v6_top_text_def)
  show chars: "\<forall>c \<in> set (v6_top_text t @ ''::''). is_hex_char c \<or> c = CHR '':''"
    unfolding tx using h [of 32] h [of 16] h [of 0] by auto
  have p: "c \<notin> set (v6_top_text t @ ''::'')" if "c \<in> set ''./%[] ''" for c
    using nc [of c 32] nc [of c 16] nc [of c 0] that unfolding tx by auto
  have tw: "takeWhile (\<lambda>c. c \<noteq> CHR ''%'') (v6_top_text t @ ''::'') = v6_top_text t @ ''::''"
    by (rule takeWhile_eq_all_conv [THEN iffD2]) (use p [of "CHR ''%''"] in auto)
  have c: "CHR '':'' \<notin> set (?g s)" for s by (rule nc) simp
  have sd: "split_double CHR '':'' (v6_top_text t @ ''::'') = [?h, []]"
    using split_double_three [OF c c c ne ne, of 32 16 0] by (simp add: tx)
  have parts: "colon_parts ?h = map ?g [32, 16, 0]"
    using join_split [of "map ?g [32, 16, 0]" "CHR '':''"] c [of 32] c [of 16] c [of 0] by (simp add: colon_parts_def)
  let ?ns = "map (\<lambda>s. nat (drop_bit s t AND 0xffff)) [32, 16, 0] @ replicate 5 0"
  have z: "''0'' = nat_string 16 0" by (simp add: nat_string_unfold digit_char_def) code_simp
  have eg: "expand_groups (v6_top_text t @ ''::'') = Some (map (nat_string 16) ?ns)"
    unfolding expand_groups_def sd using parts z by (simp add: colon_parts_def)
  have "list_all (\<lambda>n. n < 65536) ?ns" using l [of 32] l [of 16] l [of 0] by (simp add: list_all_iff)
  from v6_groups_strings [OF this, of 0]
  have "v6_groups (map (nat_string 16) ?ns) 0 = Some (t * 2 ^ 80)" unfolding hex_groups_fold [OF assms] .
  then have "v6_value (v6_top_text t @ ''::'') None = Some (t * 2 ^ 80)"
    unfolding v6_value_def eg by simp
  moreover have "CHR ''.'' \<notin> set (v6_top_text t @ ''::'')" by (rule p) simp
  ultimately show "parse_v6 (v6_top_text t @ ''::'') = Some (t * 2 ^ 80)"
    unfolding parse_v6_def Let_def tw by simp
qed

lemma parse_raw_top:
  assumes "0 \<le> t" "t < 2 ^ 48"
  shows "parse_raw (v6_top_text t @ ''::'') = Some \<lparr>ip_family = IPv6, ip_value = t * 2 ^ 80\<rparr>"
proof -
  let ?s = "v6_top_text t @ ''::''"
  note c = parse_v6_top(2) [OF assms]
  have "\<not> js_is_space CHR '':''" by (simp add: js_is_space_def)
  then have "list_all (\<lambda>c. \<not> js_is_space c) ?s" unfolding list_all_iff using c digit_not_sep(4) by metis
  then have t: "js_trim ?s = ?s" by (rule js_trim_plain)
  have "CHR ''['' \<notin> set ?s" using c digit_not_sep(2) by fastforce
  then have "\<not> prefix ''['' ?s" unfolding prefix_def by (metis append_Cons list.set_intros(1))
  then show ?thesis by (simp add: parse_raw_def t unbracket_def parse_v6_top(1) [OF assms])
qed

lemma dec_lengths: "digits_re 3 ''24''" "dec_value ''24'' = 24" "digits_re 3 ''48''" "dec_value ''48'' = 48"
  "js_trim ''24'' = ''24''" "js_trim ''48'' = ''48''"
  by code_simp+

lemma parse_cidr_text:
  assumes "CHR ''/'' \<notin> set a" "js_trim l = l" "digits_re 3 l" "parse_raw a = Some ip" "dec_value l < 96"
    "dec_value l \<le> ip_bits (ip_family ip)" "min_bits opts (ip_family ip) \<le> int (dec_value l)"
  shows "parse_cidr opts (a @ CHR ''/'' # l) = Some (cidr_of ip (dec_value l))"
proof -
  have "takeWhile (\<lambda>c. c \<noteq> CHR ''/'') (a @ CHR ''/'' # l) = a" "dropWhile (\<lambda>c. c \<noteq> CHR ''/'') (a @ CHR ''/'' # l) = CHR ''/'' # l"
    using assms(1) by (auto simp: takeWhile_append dropWhile_append)
  with assms show ?thesis by (simp add: parse_cidr_def Let_def)
qed

lemma cidr_of_cong:
  assumes "ip_ok ip" "ip_ok x" "ip_family x = ip_family ip" "bits \<le> ip_bits (ip_family ip)"
    "ip_value x div 2 ^ (ip_bits (ip_family ip) - bits) = ip_value ip div 2 ^ (ip_bits (ip_family ip) - bits)"
  shows "cidr_of x bits = cidr_of ip bits"
  using assms cidr_of_ends [of ip bits, OF _ _ _ refl] cidr_of_ends [of x bits, OF _ _ _ refl]
  by (auto simp: ip_ok_def intro!: cidr.equality)

lemma truncated_text:
  assumes "ip_ok ip"
  shows "parse_cidr no_opts (truncate_ip ip) = Some (cidr_of ip (if ip_family ip = IPv4 then 24 else 48))"
proof (cases "ip_family ip")
  case IPv4
  define w where "w = (ip_value ip AND NOT 0xff) AND low32"
  have v: "0 \<le> ip_value ip" "ip_value ip < 2 ^ 32" using assms IPv4 by (auto simp: ip_ok_def)
  have "w = take_bit 32 (push_bit 8 (drop_bit 8 (ip_value ip)))"
    unfolding w_def low32_mask and_mask_int using and_not_mask_int [of "ip_value ip" 8] by (simp add: push_bit_eq_mult)
  also have "\<dots> = ip_value ip div 256 * 256"
    using v by (simp add: push_bit_eq_mult drop_bit_eq_div take_bit_int_eq_self)
  finally have w: "w = ip_value ip div 256 * 256" .
  then have r: "0 \<le> w" "w < 2 ^ 32" "w div 256 = ip_value ip div 256" using v by auto
  have "CHR ''/'' \<notin> set (format_v4 w)" using format_v4_chars [of w] digit_not_sep(1) by (fastforce simp: list_all_iff)
  then have "parse_cidr no_opts (format_v4 w @ CHR ''/'' # ''24'') = Some (cidr_of \<lparr>ip_family = IPv4, ip_value = w\<rparr> (dec_value ''24''))"
    by (rule parse_cidr_text [OF _ dec_lengths(5,1) parse_raw_format [OF r(1,2)]])
      (simp_all add: dec_lengths min_bits_def no_opts_def min_prefix_v4_def)
  moreover have "cidr_of \<lparr>ip_family = IPv4, ip_value = w\<rparr> 24 = cidr_of ip 24"
    by (rule cidr_of_cong) (use assms IPv4 r in \<open>auto simp: ip_ok_def\<close>)
  ultimately show ?thesis by (simp add: truncate_ip_def IPv4 dec_lengths w_def)
next
  case IPv6
  define t where "t = drop_bit 80 (ip_value ip)"
  have v: "0 \<le> ip_value ip" "ip_value ip < 2 ^ 128" using assms IPv6 by (auto simp: ip_ok_def)
  then have t: "0 \<le> t" "t < 2 ^ 48" by (auto simp: t_def drop_bit_eq_div)
  have "CHR ''/'' \<notin> set (v6_top_text t @ ''::'')" using parse_v6_top(2) [OF t] digit_not_sep(2) by fastforce
  then have "parse_cidr no_opts ((v6_top_text t @ ''::'') @ CHR ''/'' # ''48'') = Some (cidr_of \<lparr>ip_family = IPv6, ip_value = t * 2 ^ 80\<rparr> (dec_value ''48''))"
    by (rule parse_cidr_text [OF _ dec_lengths(6,3) parse_raw_top [OF t]])
      (simp_all add: dec_lengths min_bits_def no_opts_def min_prefix_v6_def)
  moreover have "cidr_of \<lparr>ip_family = IPv6, ip_value = t * 2 ^ 80\<rparr> 48 = cidr_of ip 48"
    by (rule cidr_of_cong) (use assms IPv6 t in \<open>auto simp: ip_ok_def t_def drop_bit_eq_div\<close>)
  ultimately show ?thesis by (simp add: truncate_ip_def IPv6 dec_lengths t_def v6_top_text_def Let_def)
qed

text \<open>The reserved list, read.\<close>

definition block :: "ip_fam \<Rightarrow> int \<Rightarrow> nat \<Rightarrow> cidr" where
  "block fam v bits = cidr_of \<lparr>ip_family = fam, ip_value = v\<rparr> bits"

definition reserved_blocks :: "(ip_fam \<times> int \<times> nat) list" where
  "reserved_blocks =
    [(IPv4, 0, 8), (IPv4, 0x0a000000, 8), (IPv4, 0x64400000, 10), (IPv4, 0x7f000000, 8), (IPv4, 0xa9fe0000, 16),
     (IPv4, 0xac100000, 12), (IPv4, 0xc0000000, 24), (IPv4, 0xc0000200, 24), (IPv4, 0xc0a80000, 16),
     (IPv4, 0xc6120000, 15), (IPv4, 0xc6336400, 24), (IPv4, 0xcb007100, 24), (IPv4, 0xe0000000, 4), (IPv4, 0xf0000000, 4),
     (IPv6, 0, 128), (IPv6, 1, 128), (IPv6, 0x64ff9b * 2 ^ 96, 96), (IPv6, 0x100 * 2 ^ 112, 64),
     (IPv6, 0x20010db8 * 2 ^ 96, 32), (IPv6, 0xfc * 2 ^ 120, 7), (IPv6, 0xfe8 * 2 ^ 116, 10), (IPv6, 0xff * 2 ^ 120, 8)]"

lemma v6_texts: "expand_groups ''::'' = Some (replicate 8 ''0'')"
  "expand_groups ''::1'' = Some (replicate 7 ''0'' @ [''1''])"
  "expand_groups ''64:ff9b::'' = Some ([''64'', ''ff9b''] @ replicate 6 ''0'')"
  "expand_groups ''100::'' = Some (''100'' # replicate 7 ''0'')"
  "expand_groups ''2001:db8::'' = Some ([''2001'', ''db8''] @ replicate 6 ''0'')"
  "expand_groups ''fc00::'' = Some (''fc00'' # replicate 7 ''0'')"
  "expand_groups ''fe80::'' = Some (''fe80'' # replicate 7 ''0'')"
  "expand_groups ''ff00::'' = Some (''ff00'' # replicate 7 ''0'')"
  by code_simp+

lemma hex_words:
  "hex_group_re ''0''" "hex_value ''0'' = 0"
  "hex_group_re ''1''" "hex_value ''1'' = 1"
  "hex_group_re ''64''" "hex_value ''64'' = 0x64"
  "hex_group_re ''ff9b''" "hex_value ''ff9b'' = 0xff9b"
  "hex_group_re ''100''" "hex_value ''100'' = 0x100"
  "hex_group_re ''2001''" "hex_value ''2001'' = 0x2001"
  "hex_group_re ''db8''" "hex_value ''db8'' = 0xdb8"
  "hex_group_re ''fc00''" "hex_value ''fc00'' = 0xfc00"
  "hex_group_re ''fe80''" "hex_value ''fe80'' = 0xfe80"
  "hex_group_re ''ff00''" "hex_value ''ff00'' = 0xff00"
  by (simp_all add: hex_group_re_def hex_value_def hex_digit_value_def is_hex_char_def is_digit_def
      digit_value_def js_lower_char_def less_eq_char_def)

lemma replicate_zeros: "replicate 8 x = [x, x, x, x, x, x, x, x]" "replicate 7 x = [x, x, x, x, x, x, x]"
  "replicate 6 x = [x, x, x, x, x, x]"
  by (simp_all add: eval_nat_numeral)

lemma v6_chars: "is_hex_char CHR ''0''" "is_hex_char CHR ''1''" "is_hex_char CHR ''2''" "is_hex_char CHR ''4''"
  "is_hex_char CHR ''6''" "is_hex_char CHR ''8''" "is_hex_char CHR ''9''" "is_hex_char CHR ''b''"
  "is_hex_char CHR ''c''" "is_hex_char CHR ''d''" "is_hex_char CHR ''e''" "is_hex_char CHR ''f''"
  by (simp_all add: is_hex_char_def is_digit_def js_lower_char_def less_eq_char_def)

lemma parse_raw_v6:
  assumes "list_all (\<lambda>c. is_hex_char c \<or> c = CHR '':'') s" "CHR '':'' \<in> set s" "expand_groups s = Some gs" "length gs = 8"
    "v6_groups gs 0 = Some v"
  shows "parse_raw s = Some \<lparr>ip_family = IPv6, ip_value = v\<rparr>"
proof -
  have c: "\<forall>c \<in> set s. is_hex_char c \<or> c = CHR '':''" using assms(1) by (simp add: list_all_iff)
  have "\<not> js_is_space CHR '':''" by (simp add: js_is_space_def)
  then have "list_all (\<lambda>c. \<not> js_is_space c) s" unfolding list_all_iff using c digit_not_sep(4) by metis
  then have t: "js_trim s = s" by (rule js_trim_plain)
  have n: "CHR ''['' \<notin> set s" "CHR ''.'' \<notin> set s" "CHR ''%'' \<notin> set s" using c digit_not_sep(2) by fastforce+
  then have "\<not> prefix ''['' s" unfolding prefix_def by (metis append_Cons list.set_intros(1))
  moreover have tw: "takeWhile (\<lambda>c. c \<noteq> CHR ''%'') s = s"
    by (rule takeWhile_eq_all_conv [THEN iffD2]) (use n(3) in auto)
  have "parse_v6 s = Some v" using assms(3-5) n(2) unfolding parse_v6_def tw Let_def by (simp add: v6_value_def)
  moreover have "s \<noteq> []" using assms(2) by auto
  ultimately show ?thesis using assms(2) by (simp add: parse_raw_def t unbracket_def)
qed

lemma reserved_v6_1: "parse_raw ''::'' = Some \<lparr>ip_family = IPv6, ip_value = 0\<rparr>"
  by (rule parse_raw_v6 [OF _ _ v6_texts(1)]) (simp_all add: v6_groups_code hex_words replicate_zeros v6_chars)

lemma reserved_v6_2: "parse_raw ''::1'' = Some \<lparr>ip_family = IPv6, ip_value = 1\<rparr>"
  by (rule parse_raw_v6 [OF _ _ v6_texts(2)]) (simp_all add: v6_groups_code hex_words replicate_zeros v6_chars)

lemma reserved_v6_3: "parse_raw ''64:ff9b::'' = Some \<lparr>ip_family = IPv6, ip_value = 0x64ff9b * 2 ^ 96\<rparr>"
  by (rule parse_raw_v6 [OF _ _ v6_texts(3)]) (simp_all add: v6_groups_code hex_words replicate_zeros v6_chars)

lemma reserved_v6_4: "parse_raw ''100::'' = Some \<lparr>ip_family = IPv6, ip_value = 0x100 * 2 ^ 112\<rparr>"
  by (rule parse_raw_v6 [OF _ _ v6_texts(4)]) (simp_all add: v6_groups_code hex_words replicate_zeros v6_chars)

lemma reserved_v6_5: "parse_raw ''2001:db8::'' = Some \<lparr>ip_family = IPv6, ip_value = 0x20010db8 * 2 ^ 96\<rparr>"
  by (rule parse_raw_v6 [OF _ _ v6_texts(5)]) (simp_all add: v6_groups_code hex_words replicate_zeros v6_chars)

lemma reserved_v6_6: "parse_raw ''fc00::'' = Some \<lparr>ip_family = IPv6, ip_value = 0xfc * 2 ^ 120\<rparr>"
  by (rule parse_raw_v6 [OF _ _ v6_texts(6)]) (simp_all add: v6_groups_code hex_words replicate_zeros v6_chars)

lemma reserved_v6_7: "parse_raw ''fe80::'' = Some \<lparr>ip_family = IPv6, ip_value = 0xfe8 * 2 ^ 116\<rparr>"
  by (rule parse_raw_v6 [OF _ _ v6_texts(7)]) (simp_all add: v6_groups_code hex_words replicate_zeros v6_chars)

lemma reserved_v6_8: "parse_raw ''ff00::'' = Some \<lparr>ip_family = IPv6, ip_value = 0xff * 2 ^ 120\<rparr>"
  by (rule parse_raw_v6 [OF _ _ v6_texts(8)]) (simp_all add: v6_groups_code hex_words replicate_zeros v6_chars)

lemma reserved_lengths:
  "js_trim ''128'' = ''128''" "digits_re 3 ''128''" "dec_value ''128'' = 128"
  "js_trim ''96'' = ''96''" "digits_re 3 ''96''" "dec_value ''96'' = 96"
  "js_trim ''64'' = ''64''" "digits_re 3 ''64''" "dec_value ''64'' = 64"
  "js_trim ''32'' = ''32''" "digits_re 3 ''32''" "dec_value ''32'' = 32"
  "js_trim ''7'' = ''7''" "digits_re 3 ''7''" "dec_value ''7'' = 7"
  "js_trim ''10'' = ''10''" "digits_re 3 ''10''" "dec_value ''10'' = 10"
  "js_trim ''8'' = ''8''" "digits_re 3 ''8''" "dec_value ''8'' = 8"
  by (simp_all add: js_trim_def js_is_space_def digits_re_def is_digit_def dec_value_def digit_value_def less_eq_char_def)

lemma parse_cidr_block:
  assumes "CHR ''/'' \<notin> set a" "js_trim l = l" "digits_re 3 l" "parse_raw a = Some \<lparr>ip_family = IPv6, ip_value = v\<rparr>" "dec_value l = n"
    "\<not> is_mapped \<lparr>ip_family = IPv6, ip_value = v\<rparr>" "n \<le> 128"
  shows "parse_cidr \<lparr>opt_min_v4 = Some 0, opt_min_v6 = Some 0\<rparr> (a @ CHR ''/'' # l) = Some (block IPv6 v n)"
proof -
  have "takeWhile (\<lambda>c. c \<noteq> CHR ''/'') (a @ CHR ''/'' # l) = a" "dropWhile (\<lambda>c. c \<noteq> CHR ''/'') (a @ CHR ''/'' # l) = CHR ''/'' # l"
    using assms(1) by (auto simp: takeWhile_append dropWhile_append)
  with assms show ?thesis by (simp add: parse_cidr_def Let_def block_def min_bits_def)
qed

lemmas reserved_v6_cidrs =
  parse_cidr_block [OF _ reserved_lengths(1,2) reserved_v6_1 reserved_lengths(3), simplified]
  parse_cidr_block [OF _ reserved_lengths(1,2) reserved_v6_2 reserved_lengths(3), simplified]
  parse_cidr_block [OF _ reserved_lengths(4,5) reserved_v6_3 reserved_lengths(6), simplified]
  parse_cidr_block [OF _ reserved_lengths(7,8) reserved_v6_4 reserved_lengths(9), simplified]
  parse_cidr_block [OF _ reserved_lengths(10,11) reserved_v6_5 reserved_lengths(12), simplified]
  parse_cidr_block [OF _ reserved_lengths(13,14) reserved_v6_6 reserved_lengths(15), simplified]
  parse_cidr_block [OF _ reserved_lengths(16,17) reserved_v6_7 reserved_lengths(18), simplified]
  parse_cidr_block [OF _ reserved_lengths(19,20) reserved_v6_8 reserved_lengths(21), simplified]

lemma reserved_v4:
  "parse_cidr \<lparr>opt_min_v4 = Some 0, opt_min_v6 = Some 0\<rparr> ''0.0.0.0/8'' = Some (block IPv4 0 8)"
  "parse_cidr \<lparr>opt_min_v4 = Some 0, opt_min_v6 = Some 0\<rparr> ''10.0.0.0/8'' = Some (block IPv4 0x0a000000 8)"
  "parse_cidr \<lparr>opt_min_v4 = Some 0, opt_min_v6 = Some 0\<rparr> ''100.64.0.0/10'' = Some (block IPv4 0x64400000 10)"
  "parse_cidr \<lparr>opt_min_v4 = Some 0, opt_min_v6 = Some 0\<rparr> ''127.0.0.0/8'' = Some (block IPv4 0x7f000000 8)"
  "parse_cidr \<lparr>opt_min_v4 = Some 0, opt_min_v6 = Some 0\<rparr> ''169.254.0.0/16'' = Some (block IPv4 0xa9fe0000 16)"
  "parse_cidr \<lparr>opt_min_v4 = Some 0, opt_min_v6 = Some 0\<rparr> ''172.16.0.0/12'' = Some (block IPv4 0xac100000 12)"
  "parse_cidr \<lparr>opt_min_v4 = Some 0, opt_min_v6 = Some 0\<rparr> ''192.0.0.0/24'' = Some (block IPv4 0xc0000000 24)"
  "parse_cidr \<lparr>opt_min_v4 = Some 0, opt_min_v6 = Some 0\<rparr> ''192.0.2.0/24'' = Some (block IPv4 0xc0000200 24)"
  "parse_cidr \<lparr>opt_min_v4 = Some 0, opt_min_v6 = Some 0\<rparr> ''192.168.0.0/16'' = Some (block IPv4 0xc0a80000 16)"
  "parse_cidr \<lparr>opt_min_v4 = Some 0, opt_min_v6 = Some 0\<rparr> ''198.18.0.0/15'' = Some (block IPv4 0xc6120000 15)"
  "parse_cidr \<lparr>opt_min_v4 = Some 0, opt_min_v6 = Some 0\<rparr> ''198.51.100.0/24'' = Some (block IPv4 0xc6336400 24)"
  "parse_cidr \<lparr>opt_min_v4 = Some 0, opt_min_v6 = Some 0\<rparr> ''203.0.113.0/24'' = Some (block IPv4 0xcb007100 24)"
  "parse_cidr \<lparr>opt_min_v4 = Some 0, opt_min_v6 = Some 0\<rparr> ''224.0.0.0/4'' = Some (block IPv4 0xe0000000 4)"
  "parse_cidr \<lparr>opt_min_v4 = Some 0, opt_min_v6 = Some 0\<rparr> ''240.0.0.0/4'' = Some (block IPv4 0xf0000000 4)"
  by code_simp+

lemma reserved_list_blocks:
  "map (parse_cidr \<lparr>opt_min_v4 = Some 0, opt_min_v6 = Some 0\<rparr>) reserved_list =
     map (\<lambda>(f, v, n). Some (block f v n)) reserved_blocks"
  using reserved_v6_cidrs by (simp add: reserved_list_def reserved_blocks_def reserved_v4 is_mapped_code)

definition in_block :: "ip_fam \<Rightarrow> int \<Rightarrow> nat \<Rightarrow> parsed_ip \<Rightarrow> bool" where
  "in_block fam v bits ip \<longleftrightarrow> ip_family ip = fam \<and> drop_bit (ip_bits fam - bits) (ip_value ip) = drop_bit (ip_bits fam - bits) v"

lemma cidr_hit:
  assumes "ip_ok base" "bits \<le> ip_bits (ip_family base)"
  shows "cidr_family (cidr_of base bits) = ip_family x \<and> cidr_start (cidr_of base bits) \<le> ip_value x \<and>
      ip_value x \<le> cidr_end (cidr_of base bits) \<longleftrightarrow> in_block (ip_family base) (ip_value base) bits x"
proof (cases "ip_family x = ip_family base")
  case True
  with cidr_member [OF assms True] show ?thesis by (simp add: in_block_def cidr_of_def Let_def)
qed (auto simp: in_block_def cidr_of_def Let_def)

lemma reserved_has:
  "range_has reserved_ranges ip \<longleftrightarrow> (\<exists>(f, v, n) \<in> set reserved_blocks. in_block f v n ip)"
proof -
  let ?o = "\<lparr>opt_min_v4 = Some 0, opt_min_v6 = Some 0\<rparr>"
  let ?in = "\<lambda>c. cidr_family c = ip_family ip \<and> cidr_start c \<le> ip_value ip \<and> ip_value ip \<le> cidr_end c"
  have b: "list_all (\<lambda>(f, v, n). ip_ok \<lparr>ip_family = f, ip_value = v\<rparr> \<and> n \<le> ip_bits f) reserved_blocks"
    by (simp add: reserved_blocks_def ip_ok_def)
  have m: "?in (block f v n) \<longleftrightarrow> in_block f v n ip" if "(f, v, n) \<in> set reserved_blocks" for f v n
    using b that cidr_hit [of "\<lparr>ip_family = f, ip_value = v\<rparr>" n ip] unfolding list_all_iff block_def by fastforce
  have "range_has reserved_ranges ip \<longleftrightarrow> (\<exists>o' \<in> set (map (parse_cidr ?o) reserved_list). \<exists>c. o' = Some c \<and> ?in c)"
    unfolding reserved_ranges_def ranges_from_strings_has by simp
  also have "\<dots> \<longleftrightarrow> (\<exists>(f, v, n) \<in> set reserved_blocks. ?in (block f v n))"
    unfolding reserved_list_blocks set_map by (simp add: split_beta)
  also have "\<dots> \<longleftrightarrow> (\<exists>(f, v, n) \<in> set reserved_blocks. in_block f v n ip)"
    by (rule bex_cong [OF refl]) (use m in auto)
  finally show ?thesis .
qed

section \<open>Properties\<close>

lemma sample_address: "parse_client_address ''8.8.4.4:443'' = Some \<lparr>ip_family = IPv4, ip_value = 0x08080404\<rparr>"
  by code_simp

text \<open>The range set answers for the prefixes it was built from, whatever their order, overlaps and
  duplicates: merging and the binary search over the merged intervals say yes for an address exactly
  when one of the accepted strings is a prefix of its own family that agrees with it on all its
  leading bits; a string that is refused adds nothing.\<close>

theorem range_set_has_exactly:
  "range_has (fst (ranges_from_strings opts xs)) ip \<longleftrightarrow>
    (\<exists>s \<in> set xs. \<exists>base bits. parse_cidr opts s = Some (cidr_of base bits) \<and> ip_ok base \<and>
       bits \<le> ip_bits (ip_family base) \<and> in_block (ip_family base) (ip_value base) bits ip)"
  unfolding ranges_from_strings_has using parse_cidr_form cidr_hit by metis

text \<open>A reserved address never counts as a caller's own, in whatever spelling the header carries it
  (quoted, bracketed, with a port, or as an IPv4 address mapped into IPv6): what is usable is parsed to
  a plain address outside every reserved block and outside every proxy's ranges.\<close>

theorem usable_address_is_public:
  assumes "parse_client_address s = Some ip" "is_usable_public_ip ip proxies"
  shows "\<not> is_mapped ip \<and> 0 \<le> ip_value ip \<and> ip_value ip < 2 ^ ip_bits (ip_family ip) \<and>
    (\<forall>(f, v, n) \<in> set reserved_blocks. \<not> in_block f v n ip) \<and> \<not> list_ex (\<lambda>r. range_has r ip) proxies"
  using parse_client_address_ok [OF assms(1)] assms(2) reserved_has [of ip]
  by (auto simp: ip_ok_def is_usable_public_ip_def)

theorem usable_address_is_public_witness:
  "is_usable_public_ip \<lparr>ip_family = IPv4, ip_value = 0x08080404\<rparr> [] \<and>
   \<not> in_block IPv4 0x0a000000 8 \<lparr>ip_family = IPv4, ip_value = 0x08080404\<rparr>"
proof -
  have u: "is_usable_public_ip \<lparr>ip_family = IPv4, ip_value = 0x08080404\<rparr> []"
    by (simp add: is_usable_public_ip_def reserved_has reserved_blocks_def in_block_def drop_bit_eq_div)
  from usable_address_is_public [OF sample_address u] u show ?thesis by (simp add: reserved_blocks_def)
qed

text \<open>The text an observation stores for a forged caller is the address's own /24 or /48: read back
  as a prefix it is accepted and covers exactly the addresses of the same family that share those
  leading bits.\<close>

theorem truncated_address_block:
  assumes "parse_client_address s = Some ip"
  shows "\<exists>c. parse_cidr no_opts (truncate_ip ip) = Some c \<and>
    (\<forall>x. range_has (range_set_of [c]) x \<longleftrightarrow>
       in_block (ip_family ip) (ip_value ip) (case ip_family ip of IPv4 \<Rightarrow> 24 | IPv6 \<Rightarrow> 48) x)"
proof -
  let ?n = "if ip_family ip = IPv4 then 24 else 48 :: nat"
  note ok = parse_client_address_ok(1) [OF assms]
  have n: "?n \<le> ip_bits (ip_family ip)" by (cases "ip_family ip") auto
  have e: "(case ip_family ip of IPv4 \<Rightarrow> 24 | IPv6 \<Rightarrow> 48) = ?n" by (cases "ip_family ip") auto
  have c: "parse_cidr no_opts (truncate_ip ip) = Some (cidr_of ip ?n)" by (rule truncated_text [OF ok])
  have "list_all (\<lambda>c. cidr_start c \<le> cidr_end c) [cidr_of ip ?n]" using parse_cidr_le [OF c] by simp
  from range_has_cidrs [OF this]
  have "range_has (range_set_of [cidr_of ip ?n]) x \<longleftrightarrow> in_block (ip_family ip) (ip_value ip) ?n x" for x
    using cidr_hit [OF ok n, of x] by simp
  with c show ?thesis unfolding e by blast
qed

theorem truncated_address_block_witness:
  "\<exists>c. parse_cidr no_opts (truncate_ip \<lparr>ip_family = IPv4, ip_value = 0x08080404\<rparr>) = Some c \<and>
     range_has (range_set_of [c]) \<lparr>ip_family = IPv4, ip_value = 0x080804ff\<rparr>"
  using truncated_address_block [OF sample_address] by (auto simp: in_block_def drop_bit_eq_div)

end
