(* ===== verification/Nonce.thy ===== *)
theory Nonce
  imports IpRange
begin

text \<open>
  Payment nonces, \<open>packages/enforce/src/nonce.ts\<close>: stateless issuance (expiry, salt and a MAC over both
  and the payment's terms) and the store that lets each nonce be spent once. The store is an
  interface with laws; the in-process map is interpreted in it. The HMAC is a parameter of the
  expiry, the salt and the binding. Times are milliseconds.
\<close>

section \<open>Model\<close>

record nonce_binding =
  nb_amount :: string
  nb_pay_to :: string
  nb_network :: string

text \<open>The in-process store: nonce to expiry.\<close>

type_synonym consumed_map = "(string, int) js_map"

definition sweep_consumed :: "int \<Rightarrow> consumed_map \<Rightarrow> consumed_map" where
  "sweep_consumed now m = filter (\<lambda>(n, e). \<not> e \<le> now) m"

definition memory_consume :: "consumed_map \<Rightarrow> string \<Rightarrow> int \<Rightarrow> int \<Rightarrow> bool \<times> consumed_map" where
  "memory_consume m nonce expMs now =
     (if map_of m nonce \<noteq> None then (False, m)
      else (True, AList.update nonce expMs (if length m > 10000 then sweep_consumed now m else m)))"

text \<open>\<open>Number(s)\<close> for a string without a dot: surrounding white space is dropped, the empty string is
  zero, and a decimal may carry a sign and an exponent. \<open>None\<close> is every value that is not finite.
  Hexadecimal, octal and binary literals take no sign. Numbers are exact, so a literal beyond the
  range of a double, which JavaScript reads as infinite, is a number here.\<close>

definition all_digits :: "string \<Rightarrow> bool" where
  "all_digits s \<longleftrightarrow> s \<noteq> [] \<and> list_all is_digit s"

definition radix_value :: "nat \<Rightarrow> string \<Rightarrow> nat option" where
  "radix_value b s = (if s \<noteq> [] \<and> list_all (\<lambda>c. is_hex_char c \<and> hex_digit_value c < b) s
     then Some (foldl (\<lambda>a c. b * a + hex_digit_value c) 0 s) else None)"

definition exponent_scale :: "string \<Rightarrow> rat option" where
  "exponent_scale x =
     (let neg = (x \<noteq> [] \<and> hd x = CHR ''-''); ds = (if x \<noteq> [] \<and> hd x \<in> set ''+-'' then tl x else x)
      in if \<not> all_digits ds then None
         else Some (if neg then 1 / 10 ^ dec_value ds else 10 ^ dec_value ds))"

definition unsigned_decimal :: "string \<Rightarrow> rat option" where
  "unsigned_decimal s =
     (let m = takeWhile (\<lambda>c. c \<notin> set ''eE'') s; r = dropWhile (\<lambda>c. c \<notin> set ''eE'') s
      in if \<not> all_digits m then None
         else if r = [] then Some (of_nat (dec_value m))
         else map_option (\<lambda>k. of_nat (dec_value m) * k) (exponent_scale (tl r)))"

definition radix_prefix :: "string \<Rightarrow> nat option" where
  "radix_prefix s = (if length s < 2 \<or> hd s \<noteq> CHR ''0'' then None
     else if s ! 1 \<in> set ''xX'' then Some 16 else if s ! 1 \<in> set ''oO'' then Some 8
     else if s ! 1 \<in> set ''bB'' then Some 2 else None)"

definition js_number :: "string \<Rightarrow> rat option" where
  "js_number raw = (let s = js_trim raw in
     if s = [] then Some 0
     else if hd s = CHR ''-'' then map_option uminus (unsigned_decimal (tl s))
     else if hd s = CHR ''+'' then unsigned_decimal (tl s)
     else (case radix_prefix s of Some b \<Rightarrow> map_option of_nat (radix_value b (drop 2 s))
         | None \<Rightarrow> unsigned_decimal s))"

text \<open>The MAC of a number (printed by \<open>`${expMs}`\<close>), a salt and a binding.\<close>

type_synonym nonce_sign = "rat \<Rightarrow> string \<Rightarrow> nonce_binding \<Rightarrow> string"

definition issue_nonce :: "nonce_sign \<Rightarrow> nat \<Rightarrow> string \<Rightarrow> nonce_binding \<Rightarrow> nat \<Rightarrow> string" where
  "issue_nonce sign ttl rand b now =
     (let expMs = now + ttl in nat_string 10 expMs @ ''.'' @ rand @ ''.'' @ sign (of_nat expMs) rand b)"

text \<open>UTF-8 length of a string of characters below 256, what \<open>Buffer.from(mac)\<close> measures.\<close>

definition utf8_length :: "string \<Rightarrow> nat" where
  "utf8_length s = sum_list (map (\<lambda>c. if of_char c < (128::nat) then 1 else 2) s)"

datatype nonce_result = NonceOk | NonceMalformed | NonceExpired | NonceBadSignature | NonceReplayed | NonceThrew

text \<open>\<open>timingSafeEqual\<close> throws on buffers of different lengths.\<close>

definition mac_check :: "string \<Rightarrow> string \<Rightarrow> nonce_result" where
  "mac_check mac expected =
     (if length mac \<noteq> length expected then NonceBadSignature
      else if utf8_length mac \<noteq> utf8_length expected then NonceThrew
      else if mac \<noteq> expected then NonceBadSignature else NonceOk)"

definition consume_nonce_with ::
    "('s \<Rightarrow> string \<Rightarrow> int \<Rightarrow> int \<Rightarrow> bool \<times> 's) \<Rightarrow> nonce_sign \<Rightarrow> 's \<Rightarrow> string \<Rightarrow> nonce_binding \<Rightarrow> int \<Rightarrow> nonce_result \<times> 's" where
  "consume_nonce_with consume sign st nonce b now = (case js_split CHR ''.'' nonce of
     [expStr, rand, mac] \<Rightarrow>
       (case js_number expStr of None \<Rightarrow> (NonceMalformed, st)
        | Some e \<Rightarrow>
          if e \<le> of_int now then (NonceExpired, st)
          else if mac_check mac (sign e rand b) \<noteq> NonceOk then (mac_check mac (sign e rand b), st)
          else (case consume st nonce \<lceil>e\<rceil> now of (fresh, st') \<Rightarrow> (if fresh then NonceOk else NonceReplayed, st')))
   | _ \<Rightarrow> (NonceMalformed, st))"

text \<open>The gate's own consumer, over the in-process store.\<close>

definition consume_nonce :: "nonce_sign \<Rightarrow> consumed_map \<Rightarrow> string \<Rightarrow> nonce_binding \<Rightarrow> int \<Rightarrow> nonce_result \<times> consumed_map" where
  "consume_nonce = consume_nonce_with memory_consume"

section \<open>The store's contract\<close>

locale consumed_store =
  fixes consume :: "'s \<Rightarrow> string \<Rightarrow> int \<Rightarrow> int \<Rightarrow> bool \<times> 's" and spent :: "'s \<Rightarrow> string \<Rightarrow> int option"
  assumes fresh_wins: "spent s n = None \<Longrightarrow> fst (consume s n e t)"
    and marks: "spent s n = None \<Longrightarrow> spent (snd (consume s n e t)) n = Some e"
    and replay_loses: "spent s n = Some x \<Longrightarrow> consume s n e t = (False, s)"
    and keeps: "spent s m = Some x \<Longrightarrow> t < x \<Longrightarrow> spent (snd (consume s n e t)) m = Some x"
begin

lemma wins_iff: "fst (consume s n e t) \<longleftrightarrow> spent s n = None"
  using fresh_wins replay_loses by (metis fst_conv option.exhaust)

definition consume_all :: "'s \<Rightarrow> (string \<times> int \<times> int) list \<Rightarrow> 's" where
  "consume_all s calls = foldl (\<lambda>s (n, e, t). snd (consume s n e t)) s calls"

lemma consume_all_simps [simp]: "consume_all s [] = s"
  "consume_all s ((n, e, t) # calls) = consume_all (snd (consume s n e t)) calls"
  by (simp_all add: consume_all_def)

lemma spent_kept:
  assumes "spent s n = Some x" "list_all (\<lambda>(m, e, t). t < x) calls"
  shows "spent (consume_all s calls) n = Some x"
  using assms
proof (induction calls arbitrary: s)
  case (Cons c calls)
  obtain m e t where c: "c = (m, e, t)" by (cases c)
  have "spent (snd (consume s m e t)) n = Some x" using keeps [OF Cons.prems(1)] Cons.prems(2) by (auto simp: c)
  with Cons show ?case by (simp add: c)
qed simp

text \<open>Once spent, a nonce stays spent until its expiry, whatever else is spent meanwhile.\<close>

lemma single_use:
  assumes "fst (consume s n e t)" "list_all (\<lambda>(m, x, u). u < e) calls" "u < e"
  shows "\<not> fst (consume (consume_all (snd (consume s n e t)) calls) n x u)"
proof -
  have "spent (snd (consume s n e t)) n = Some e" using assms(1) marks wins_iff by blast
  from spent_kept [OF this assms(2)] show ?thesis by (simp add: wins_iff)
qed

end

definition call_time :: "string \<times> nonce_binding \<times> int \<Rightarrow> int" where
  "call_time c = snd (snd c)"

text \<open>A run of \<open>consumeNonce\<close> calls.\<close>

definition nonce_run_with ::
    "('s \<Rightarrow> string \<Rightarrow> int \<Rightarrow> int \<Rightarrow> bool \<times> 's) \<Rightarrow> nonce_sign \<Rightarrow> 's \<Rightarrow> (string \<times> nonce_binding \<times> int) list \<Rightarrow> 's" where
  "nonce_run_with consume sign st calls = foldl (\<lambda>s (n, b, t). snd (consume_nonce_with consume sign s n b t)) st calls"

lemma nonce_run_simps [simp]: "nonce_run_with consume sign st [] = st"
  "nonce_run_with consume sign st ((n, b, t) # calls) =
     nonce_run_with consume sign (snd (consume_nonce_with consume sign st n b t)) calls"
  by (simp_all add: nonce_run_with_def)

lemma mac_check_Ok: "mac_check mac e = NonceOk \<longleftrightarrow> mac = e"
  by (auto simp: mac_check_def)

lemma consume_nonce_Ok:
  "consume_nonce_with consume sign st nonce b now = (NonceOk, st') \<longleftrightarrow>
     (\<exists>expStr rand e. js_split CHR ''.'' nonce = [expStr, rand, sign e rand b] \<and> js_number expStr = Some e \<and>
        of_int now < e \<and> consume st nonce \<lceil>e\<rceil> now = (True, st'))"
  by (auto simp: consume_nonce_with_def mac_check_Ok split: list.splits option.splits prod.splits if_splits)

context consumed_store begin

lemma nonce_step_keeps:
  assumes "spent s m = Some x" "t < x"
  shows "spent (snd (consume_nonce_with consume sign s n b t)) m = Some x"
proof -
  have "snd (consume_nonce_with consume sign s n b t) \<in> insert s {snd (consume s n e t) | e. True}"
    by (auto simp: consume_nonce_with_def split: list.splits option.splits prod.splits) (metis snd_conv)+
  then show ?thesis using keeps [OF assms] assms(1) by auto
qed

lemma nonce_run_keeps:
  "spent s m = Some x \<Longrightarrow> list_all (\<lambda>c. call_time c < x) calls \<Longrightarrow> spent (nonce_run_with consume sign s calls) m = Some x"
proof (induction calls arbitrary: s)
  case (Cons c calls)
  then show ?case using nonce_step_keeps by (cases c) (auto simp: call_time_def)
qed simp

lemma nonce_single_use:
  assumes "consume_nonce_with consume sign s n b t = (NonceOk, s')" "list_all (\<lambda>c. call_time c \<le> u) calls"
  shows "fst (consume_nonce_with consume sign (nonce_run_with consume sign s' calls) n b' u) \<noteq> NonceOk"
proof
  let ?s = "nonce_run_with consume sign s' calls"
  assume "fst (consume_nonce_with consume sign ?s n b' u) = NonceOk"
  then obtain s'' where "consume_nonce_with consume sign ?s n b' u = (NonceOk, s'')" by (metis prod.collapse)
  then obtain es r e where e: "js_split CHR ''.'' n = [es, r, sign e r b']" "js_number es = Some e" "of_int u < e"
    "consume ?s n \<lceil>e\<rceil> u = (True, s'')" unfolding consume_nonce_Ok by blast
  from assms(1) e(1,2) have c: "consume s n \<lceil>e\<rceil> t = (True, s')" unfolding consume_nonce_Ok by auto
  then have "spent s n = None" using wins_iff [of s n "\<lceil>e\<rceil>" t] by simp
  then have m: "spent s' n = Some \<lceil>e\<rceil>" using marks [of s n "\<lceil>e\<rceil>" t] c by simp
  have "u < \<lceil>e\<rceil>" using e(3) by (simp add: less_ceiling_iff)
  then have "list_all (\<lambda>c. call_time c < \<lceil>e\<rceil>) calls" using assms(2) by (auto simp: list_all_iff)
  from nonce_run_keeps [OF m this] have "\<not> fst (consume ?s n \<lceil>e\<rceil> u)" by (simp add: wins_iff)
  with e(4) show False by simp
qed

end

lemma map_of_sweep: "distinct (map fst m) \<Longrightarrow> map_of (sweep_consumed now m) n =
    (case map_of m n of None \<Rightarrow> None | Some e \<Rightarrow> if e \<le> now then None else Some e)"
proof (induction m)
  case (Cons c m)
  then have "map_of m (fst c) = None" by (simp add: map_of_eq_None_iff)
  with Cons show ?case by (cases c) (auto simp: sweep_consumed_def split: option.splits)
qed (simp add: sweep_consumed_def)

lemma map_of_sweep_keep: "map_of m n = Some e \<Longrightarrow> \<not> e \<le> now \<Longrightarrow> map_of (sweep_consumed now m) n = Some e"
  by (induction m) (auto simp: sweep_consumed_def)

interpretation memory: consumed_store memory_consume map_of
proof
  fix s :: consumed_map and n m :: string and e t x :: int
  show "map_of s n = None \<Longrightarrow> fst (memory_consume s n e t)" by (simp add: memory_consume_def)
  show "map_of s n = None \<Longrightarrow> map_of (snd (memory_consume s n e t)) n = Some e"
    by (simp add: memory_consume_def map_of_update)
  show "map_of s n = Some x \<Longrightarrow> memory_consume s n e t = (False, s)" by (simp add: memory_consume_def)
  show "map_of s m = Some x \<Longrightarrow> t < x \<Longrightarrow> map_of (snd (memory_consume s n e t)) m = Some x"
    by (auto simp: memory_consume_def map_of_update map_of_sweep_keep)
qed

section \<open>Lemmas\<close>

lemma split_dots:
  assumes "CHR ''.'' \<notin> set a" "CHR ''.'' \<notin> set b" "CHR ''.'' \<notin> set c"
  shows "js_split CHR ''.'' (a @ ''.'' @ b @ ''.'' @ c) = [a, b, c]"
  using assms js_split_append [of "CHR ''.''" a "b @ ''.'' @ c"] js_split_append [of "CHR ''.''" b c] js_split_notin [of "CHR ''.''" c]
  by simp

lemma nat_string_digits: "list_all is_digit (nat_string 10 n)" "nat_string 10 n \<noteq> []" "dec_value (nat_string 10 n) = n"
proof -
  show "list_all is_digit (nat_string 10 n)" by (rule nat_string_all) (auto simp: digit_char_value)
  show "nat_string 10 n \<noteq> []" by (subst nat_string.simps) simp
  show "dec_value (nat_string 10 n) = n" unfolding dec_value_def by (rule nat_string_value) (auto simp: digit_char_value)
qed

lemma digit_plain: "is_digit c \<Longrightarrow> \<not> js_is_space c \<and> c \<noteq> CHR ''.'' \<and> c \<notin> set ''eE+-xXoObB''"
  by (auto simp: is_digit_def less_eq_char_def js_is_space_def)

lemma unsigned_decimal_digits:
  assumes "all_digits s"
  shows "unsigned_decimal s = Some (of_nat (dec_value s))"
proof -
  have "\<forall>c \<in> set s. c \<notin> set ''eE''"
  proof
    fix c assume "c \<in> set s"
    then have "is_digit c" using assms by (simp add: all_digits_def list_all_iff)
    from digit_plain [OF this] show "c \<notin> set ''eE''" by simp
  qed
  then have "takeWhile (\<lambda>c. c \<notin> set ''eE'') s = s" "dropWhile (\<lambda>c. c \<notin> set ''eE'') s = []"
    unfolding takeWhile_eq_all_conv dropWhile_eq_Nil_conv by blast+
  then show ?thesis unfolding unsigned_decimal_def Let_def using assms by metis
qed

lemma js_number_digits:
  assumes "all_digits s"
  shows "js_number s = Some (of_nat (dec_value s))"
proof -
  have d: "\<forall>c \<in> set s. is_digit c" and ne: "s \<noteq> []" using assms by (auto simp: all_digits_def list_all_iff)
  then have t: "js_trim s = s" using digit_plain by (intro js_trim_plain) (auto simp: list_all_iff)
  have "is_digit (hd s)" using d ne by simp
  then have c: "hd s \<noteq> CHR ''-''" "hd s \<noteq> CHR ''+''" using digit_plain [of "hd s"] by auto
  have "s ! 1 \<notin> set ''xXoObB''" if "\<not> length s < 2"
  proof -
    have "is_digit (s ! 1)" using d that by (metis linorder_not_less less_le_trans nth_mem one_less_numeral_iff semiring_norm(76))
    then show ?thesis using digit_plain [of "s ! 1"] by auto
  qed
  then have "radix_prefix s = None" by (auto simp: radix_prefix_def)
  then show ?thesis unfolding js_number_def t Let_def
    using unsigned_decimal_digits [OF assms] c ne by simp
qed

lemma dec_value_zero: "dec_value (CHR ''0'' # s) = dec_value s"
  by (simp add: dec_value_def digit_value_def)

text \<open>A MAC text of the right length whose UTF-8 form is longer makes the comparison throw.\<close>

lemma mac_check_throws:
  assumes "length mac = length expected" "list_all (\<lambda>c. of_char c < (128::nat)) expected" "\<exists>c \<in> set mac. \<not> of_char c < (128::nat)"
  shows "mac_check mac expected = NonceThrew"
proof -
  have "utf8_length expected = length expected" using assms(2) by (induction expected) (auto simp: utf8_length_def)
  moreover have le: "length mac \<le> utf8_length mac" for mac by (induction mac) (auto simp: utf8_length_def)
  have "length mac < utf8_length mac" using assms(3)
  proof (induction mac)
    case (Cons a mac)
    then show ?case using le [of mac] by (cases "of_char a < (128::nat)") (auto simp: utf8_length_def)
  qed simp
  ultimately show ?thesis using assms(1) by (simp add: mac_check_def)
qed

text \<open>Spelling the expiry with a leading zero changes the nonce, not what it says.\<close>

lemma respelled_number: "js_number (CHR ''0'' # nat_string 10 n) = js_number (nat_string 10 n)"
proof -
  have z: "is_digit CHR ''0''" by (simp add: is_digit_def)
  have "all_digits (nat_string 10 n)" using nat_string_digits [of n] by (simp add: all_digits_def)
  moreover have "all_digits (CHR ''0'' # nat_string 10 n)" using nat_string_digits [of n] z by (simp add: all_digits_def)
  ultimately show ?thesis by (simp add: js_number_digits dec_value_zero)
qed

section \<open>Properties\<close>

text \<open>C32: a nonce is spent once. After a call that accepted a nonce, no later call with the same nonce is
  accepted, for whatever binding and however many other nonces are spent in between (at times not
  after it): it is refused as a replay until it expires and as expired afterwards.\<close>

theorem nonce_spent_once:
  assumes "consume_nonce sign st n b t = (NonceOk, st')" "list_all (\<lambda>c. call_time c \<le> u) calls"
  shows "fst (consume_nonce sign (nonce_run_with memory_consume sign st' calls) n b' u) \<noteq> NonceOk"
  using memory.nonce_single_use [of sign st n b t st' u calls b'] assms by (simp add: consume_nonce_def)


definition sample_binding :: nonce_binding where
  "sample_binding = \<lparr>nb_amount = ''1000'', nb_pay_to = ''w'', nb_network = ''n''\<rparr>"

text \<open>A MAC that only names what it covers, to evaluate the model with.\<close>

definition toy_sign :: nonce_sign where
  "toy_sign e rand b = rand @ nb_amount b"

lemma sample_spent: "consume_nonce toy_sign [] ''20.ab.ab1000'' sample_binding 10 = (NonceOk, [(''20.ab.ab1000'', 20)])"
proof -
  have d: "all_digits ''20''" "dec_value ''20'' = 20"
    by (simp_all add: all_digits_def is_digit_def less_eq_char_def dec_value_def digit_value_def)
  have "js_split CHR ''.'' ''20.ab.ab1000'' = [''20'', ''ab'', ''ab1000'']" by simp
  then show ?thesis
    by (simp add: consume_nonce_def consume_nonce_with_def js_number_digits [OF d(1)] d(2) toy_sign_def sample_binding_def
        mac_check_Ok memory_consume_def)
qed

theorem nonce_spent_once_witness:
  "fst (consume_nonce toy_sign [(''20.ab.ab1000'', 20)] ''20.ab.ab1000'' sample_binding 15) \<noteq> NonceOk"
  using nonce_spent_once [OF sample_spent, of 15 "[]" sample_binding] by simp

text \<open>The same payment can be presented twice. An issued nonce is accepted for its binding before it
  expires; and after that, the same nonce with a zero written before its expiry is accepted as well:
  the MAC covers the number, while the store remembers the text.\<close>

theorem nonce_respelled_again:
  assumes "CHR ''.'' \<notin> set rand" "CHR ''.'' \<notin> set (sign (of_nat (now + ttl)) rand b)" "0 < ttl"
    "nonce = issue_nonce sign ttl rand b now"
    "map_of st nonce = None" "map_of st (CHR ''0'' # nonce) = None"
  shows "\<exists>st1 st2. consume_nonce sign st nonce b (int now) = (NonceOk, st1) \<and>
    consume_nonce sign st1 (CHR ''0'' # nonce) b (int now) = (NonceOk, st2)"
proof -
  let ?e = "nat_string 10 (now + ttl)" and ?m = "sign (of_nat (now + ttl)) rand b"
  have dot: "CHR ''.'' \<notin> set ?e" using nat_string_digits(1) [of "now + ttl"] digit_plain by (auto simp: list_all_iff)
  have n: "nonce = ?e @ ''.'' @ rand @ ''.'' @ ?m" by (simp add: assms(4) issue_nonce_def Let_def)
  have s1: "js_split CHR ''.'' nonce = [?e, rand, ?m]" unfolding n by (rule split_dots [OF dot assms(1,2)])
  have s2: "js_split CHR ''.'' (CHR ''0'' # nonce) = [CHR ''0'' # ?e, rand, ?m]"
    using s1 by (simp split: list.splits)
  have v: "js_number ?e = Some (of_nat (now + ttl))"
    using nat_string_digits [of "now + ttl"] js_number_digits [of ?e] by (simp add: all_digits_def)
  have lt: "(of_int (int now) :: rat) < of_nat (now + ttl)" using assms(3) by simp
  have c: "\<lceil>of_nat (now + ttl) :: rat\<rceil> = int (now + ttl)" by (metis ceiling_of_nat)
  define st1 where "st1 = snd (memory_consume st nonce (int (now + ttl)) (int now))"
  have 1: "memory_consume st nonce (int (now + ttl)) (int now) = (True, st1)"
    using assms(5) by (simp add: st1_def memory_consume_def)
  then have a: "consume_nonce sign st nonce b (int now) = (NonceOk, st1)"
    unfolding consume_nonce_def consume_nonce_Ok using s1 v lt c by metis
  have "nonce \<noteq> CHR ''0'' # nonce" by (metis list.distinct(1) not_Cons_self)
  then have "map_of st1 (CHR ''0'' # nonce) = None"
  proof -
    have "map_of (if length st > 10000 then sweep_consumed (int now) st else st) (CHR ''0'' # nonce) = None"
      using assms(6) unfolding map_of_eq_None_iff sweep_consumed_def by (auto simp: image_iff)
    then show ?thesis using assms(5) \<open>nonce \<noteq> CHR ''0'' # nonce\<close> by (simp add: st1_def memory_consume_def map_of_update)
  qed
  then obtain st2 where "memory_consume st1 (CHR ''0'' # nonce) (int (now + ttl)) (int now) = (True, st2)"
    by (simp add: memory_consume_def)
  then have "consume_nonce sign st1 (CHR ''0'' # nonce) b (int now) = (NonceOk, st2)"
    unfolding consume_nonce_def consume_nonce_Ok using s2 v lt c respelled_number by metis
  with a show ?thesis by blast
qed

theorem nonce_respelled_again_witness:
  "\<exists>st1 st2. consume_nonce toy_sign [] (issue_nonce toy_sign 10 ''ab'' sample_binding 10) sample_binding 10 = (NonceOk, st1) \<and>
    consume_nonce toy_sign st1 (CHR ''0'' # issue_nonce toy_sign 10 ''ab'' sample_binding 10) sample_binding 10 = (NonceOk, st2)"
  using nonce_respelled_again [of "''ab''" toy_sign 10 10 sample_binding "issue_nonce toy_sign 10 ''ab'' sample_binding 10" "[]"]
  by (simp add: toy_sign_def sample_binding_def)

end
