(* ===== verification/Licence.thy ===== *)
theory Licence
  imports RslPattern Attribution Nonce
begin

text \<open>
  Citation licences: the compact JWS both token types share (\<open>packages/shared/src/jws.ts\<close>), minting and
  verifying a licence and a citation record, what a claim entitles and covers
  (\<open>packages/shared/src/license.ts\<close>), the usage sentence (\<open>licence-facts.ts\<close>) and the revocation store
  (\<open>packages/enforce/src/revocation.ts\<close>).

  Ed25519, base64url of JSON, SHA-256 and the collation of \<open>localeCompare\<close> are parameters, gathered
  in the record \<open>jose\<close>; nothing is assumed of them but where a theorem says so.
\<close>

section \<open>Model\<close>

text \<open>A function of the source returns, refuses with an error, or throws.\<close>

datatype ('e, 'a) outcome = Threw | Refused 'e | Accepted 'a

record jwk =
  jwk_kid :: string
  jwk_x :: string

record 'p signing_key =
  sk_kid :: string
  sk_private :: 'p

record ('p, 'k) jose =
  jo_text :: "json \<Rightarrow> string"
  jo_parse :: "string \<Rightarrow> json option"
  jo_sign :: "'p \<Rightarrow> string \<Rightarrow> string"
  jo_import :: "jwk \<Rightarrow> 'k option"
  jo_verify :: "'k \<Rightarrow> string \<Rightarrow> string \<Rightarrow> bool option"

datatype token_error = EmptyToken | TokenTooLarge | NotThreeSegments | NotBase64url | UndecodableHeader
  | UnsupportedAlg | UnexpectedTyp | ForbiddenParam string | MissingKid | UnknownKid | InvalidKey
  | VerificationError | InvalidSignature | UndecodablePayload
  | IssuerMismatch | AudienceMismatch | MissingExp | TokenExpired | NotYetValid | IssuedInFuture

definition base64url_char :: "char \<Rightarrow> bool" where
  "base64url_char c \<longleftrightarrow> CHR ''A'' \<le> c \<and> c \<le> CHR ''Z'' \<or> CHR ''a'' \<le> c \<and> c \<le> CHR ''z'' \<or> is_digit c \<or> c \<in> set ''_-''"

definition base64url_re :: "string \<Rightarrow> bool" where
  "base64url_re s \<longleftrightarrow> s \<noteq> [] \<and> list_all base64url_char s"

definition forbidden_header_params :: "string list" where
  "forbidden_header_params = [''crit'', ''jku'', ''x5u'', ''jwk'', ''x5c'']"

definition max_token_chars :: nat where "max_token_chars = 4096"

definition token_header :: "string \<Rightarrow> string \<Rightarrow> json" where
  "token_header typ kid = JObject [(''alg'', JString ''EdDSA''), (''typ'', JString typ), (''kid'', JString kid)]"

definition sign_compact :: "('p, 'k) jose \<Rightarrow> string \<Rightarrow> json \<Rightarrow> 'p signing_key \<Rightarrow> string" where
  "sign_compact J typ payload key =
     (let signingInput = jo_text J (token_header typ (sk_kid key)) @ ''.'' @ jo_text J payload
      in signingInput @ ''.'' @ jo_sign J (sk_private key) signingInput)"

text \<open>\<open>param in header\<close> for an object.\<close>

definition json_has :: "json \<Rightarrow> string \<Rightarrow> bool" where
  "json_has j k = (case j of JObject fs \<Rightarrow> map_of fs k \<noteq> None | _ \<Rightarrow> False)"

text \<open>The checks on a decoded header; reading a property of \<open>null\<close> throws.\<close>

definition check_header :: "string \<Rightarrow> json \<Rightarrow> (token_error, string) outcome" where
  "check_header typ header =
     (if header = JNull then Threw
      else if json_prop header ''alg'' \<noteq> JString ''EdDSA'' then Refused UnsupportedAlg
      else if json_prop header ''typ'' \<noteq> JString typ then Refused UnexpectedTyp
      else (case find (json_has header) forbidden_header_params of
          Some p \<Rightarrow> Refused (ForbiddenParam p)
        | None \<Rightarrow> (case json_prop header ''kid'' of JString kid \<Rightarrow> Accepted kid | _ \<Rightarrow> Refused MissingKid)))"

definition check_signature :: "('p, 'k) jose \<Rightarrow> jwk list \<Rightarrow> string \<Rightarrow> string \<Rightarrow> string \<Rightarrow> string \<Rightarrow> (token_error, json) outcome" where
  "check_signature J jwks kid h p s = (case find (\<lambda>k. jwk_kid k = kid) jwks of
     None \<Rightarrow> Refused UnknownKid
   | Some k \<Rightarrow> (case jo_import J k of
       None \<Rightarrow> Refused InvalidKey
     | Some pub \<Rightarrow> (case jo_verify J pub (h @ ''.'' @ p) s of
         None \<Rightarrow> Refused VerificationError
       | Some False \<Rightarrow> Refused InvalidSignature
       | Some True \<Rightarrow> (case jo_parse J p of None \<Rightarrow> Refused UndecodablePayload | Some j \<Rightarrow> Accepted j))))"

definition verify_compact :: "('p, 'k) jose \<Rightarrow> string \<Rightarrow> string \<Rightarrow> jwk list \<Rightarrow> (token_error, json) outcome" where
  "verify_compact J jws typ jwks =
     (if jws = [] then Refused EmptyToken
      else if length jws > max_token_chars then Refused TokenTooLarge
      else (case js_split CHR ''.'' jws of
          [h, p, s] \<Rightarrow>
            if \<not> base64url_re h \<or> \<not> base64url_re p \<or> \<not> base64url_re s then Refused NotBase64url
            else (case jo_parse J h of
                None \<Rightarrow> Refused UndecodableHeader
              | Some header \<Rightarrow> (case check_header typ header of
                  Threw \<Rightarrow> Threw
                | Refused e \<Rightarrow> Refused e
                | Accepted kid \<Rightarrow> check_signature J jwks kid h p s))
        | _ \<Rightarrow> Refused NotThreeSegments))"

section \<open>Minting\<close>

record licence_event =
  le_id :: string
  le_slug :: string
  le_kind :: string
  le_amount :: rat
  le_payees :: "author_share list"
  le_payer :: string
  le_settlement_ref :: string
  le_resource :: "json option"
  le_content_sha :: "json option"
  le_terms_document :: "json option"
  le_evidence :: "json option"
  le_mandate :: "json option"
  le_attest :: "json option"

datatype payees_mode = PayeesFull | PayeesHashed

record mint_input =
  mi_event :: licence_event
  mi_issuer :: string
  mi_audience :: string
  mi_ttl :: nat
  mi_payees_mode :: payees_mode
  mi_title :: string
  mi_network :: json
  mi_tie_break :: tie_break
  mi_pop_bind :: "string option"
  mi_subject :: "string option"
  mi_scope :: "string list option"
  mi_terms :: "json option"
  mi_period :: "json option"

definition to_atomic_usdc :: "rat \<Rightarrow> string" where
  "to_atomic_usdc a = (let n = js_round (a * micro_unit) in
     if n < 0 then CHR ''-'' # nat_string 10 (nat (- n)) else nat_string 10 (nat n))"

text \<open>\<open>collate\<close> is the sort key \<open>localeCompare\<close> compares; \<open>payees_text\<close> is \<open>JSON.stringify\<close>.\<close>

definition canonical_payees :: "(string \<Rightarrow> nat list) \<Rightarrow> (json \<Rightarrow> string) \<Rightarrow> author_share list \<Rightarrow> string" where
  "canonical_payees collate stringify payees =
     stringify (JArray (map (\<lambda>p. JArray [JString (authorId p), JString (wallet p), JNumber (share p)])
       (sort_key (\<lambda>p. (collate (authorId p), collate (wallet p))) payees)))"

record mint_env =
  me_collate :: "string \<Rightarrow> nat list"
  me_stringify :: "json \<Rightarrow> string"
  me_sha256 :: "string \<Rightarrow> string"

definition opt_field :: "string \<Rightarrow> json option \<Rightarrow> (string \<times> json) list" where
  "opt_field k v = (case v of None \<Rightarrow> [] | Some j \<Rightarrow> [(k, j)])"

definition payee_fields :: "mint_env \<Rightarrow> mint_input \<Rightarrow> attribution_error + (string \<times> json) list" where
  "payee_fields E inp =
     (let ps = le_payees (mi_event inp) in
      if le_attest (mi_event inp) \<noteq> None \<and> ps = [] then Inr []
      else (case mi_payees_mode inp of
          PayeesHashed \<Rightarrow> bind_sum (primary_payee ps (mi_tie_break inp)) (\<lambda>w.
            Inr [(''payeesHash'', JString (me_sha256 E (canonical_payees (me_collate E) (me_stringify E) ps))), (''payTo'', JString w)])
        | PayeesFull \<Rightarrow> Inr [(''payees'', JArray (map (\<lambda>p. JObject [(''authorId'', JString (authorId p)),
            (''wallet'', JString (wallet p)), (''share'', JNumber (share p))]) ps))]))"

definition scope_json :: "string list \<Rightarrow> json" where
  "scope_json ps = JObject [(''patterns'', JArray (map JString ps))]"

text \<open>The \<open>naulon\<close> claim; \<open>grant\<close> is what \<open>mintCitationRecord\<close> stamps on it.\<close>

definition naulon_claim :: "mint_env \<Rightarrow> mint_input \<Rightarrow> string option \<Rightarrow> attribution_error + json" where
  "naulon_claim E inp grant = bind_sum (payee_fields E inp) (\<lambda>pf.
     let ev = mi_event inp in Inr (JObject (
       [(''v'', JNumber 1), (''slug'', JString (le_slug ev)), (''title'', JString (mi_title inp)), (''kind'', JString (le_kind ev)),
        (''amount'', JString (to_atomic_usdc (le_amount ev))), (''currency'', JString ''USDC''), (''network'', mi_network inp),
        (''settlementRef'', JString (le_settlement_ref ev))]
       @ pf
       @ opt_field ''scope'' (map_option scope_json (mi_scope inp))
       @ opt_field ''terms'' (mi_terms inp) @ opt_field ''period'' (mi_period inp)
       @ opt_field ''resource'' (le_resource ev) @ opt_field ''contentSha256'' (le_content_sha ev)
       @ opt_field ''termsDocument'' (le_terms_document ev) @ opt_field ''evidence'' (le_evidence ev)
       @ opt_field ''mandate'' (le_mandate ev) @ opt_field ''attest'' (le_attest ev)
       @ opt_field ''grant'' (map_option JString grant))))"

text \<open>The claims, with the expiry of an access licence and the holder binding of \<open>signClaims\<close>.\<close>

definition mint_claims :: "mint_env \<Rightarrow> mint_input \<Rightarrow> string option \<Rightarrow> int \<Rightarrow> int option \<Rightarrow> attribution_error + json" where
  "mint_claims E inp grant iat expiry = bind_sum (naulon_claim E inp grant) (\<lambda>n. Inr (JObject (
     [(''iss'', JString (mi_issuer inp)), (''aud'', JString (mi_audience inp)),
      (''sub'', JString (case mi_subject inp of Some s \<Rightarrow> s | None \<Rightarrow> le_payer (mi_event inp))),
      (''jti'', JString (le_id (mi_event inp))), (''iat'', JNumber (of_int iat)), (''nbf'', JNumber (of_int iat)), (''naulon'', n)]
     @ opt_field ''exp'' (map_option (\<lambda>e. JNumber (of_int e)) expiry)
     @ (case mi_pop_bind inp of
          Some (c # cs) \<Rightarrow> [(''cnf'', JObject [(''naulon:addr'', JString (js_lower (c # cs)))])]
        | _ \<Rightarrow> []))))"

definition mint_license :: "('p, 'k) jose \<Rightarrow> mint_env \<Rightarrow> mint_input \<Rightarrow> 'p signing_key \<Rightarrow> int \<Rightarrow> attribution_error + string" where
  "mint_license J E inp key now = (let iat = now div 1000 in
     bind_sum (mint_claims E inp None iat (Some (iat + int (mi_ttl inp)))) (\<lambda>c. Inr (sign_compact J ''JWT'' c key)))"

definition mint_citation_record :: "('p, 'k) jose \<Rightarrow> mint_env \<Rightarrow> mint_input \<Rightarrow> 'p signing_key \<Rightarrow> int \<Rightarrow> attribution_error + string" where
  "mint_citation_record J E inp key now =
     bind_sum (mint_claims E inp (Some ''none'') (now div 1000) None) (\<lambda>c. Inr (sign_compact J ''JWT'' c key))"

section \<open>Verifying\<close>

definition skew_seconds :: rat where "skew_seconds = 60"

definition finite_above :: "json \<Rightarrow> rat \<Rightarrow> bool" where
  "finite_above j q = (case j of JNumber x \<Rightarrow> q < x | _ \<Rightarrow> False)"

definition check_claims :: "json \<Rightarrow> int \<Rightarrow> string \<Rightarrow> string \<Rightarrow> (token_error, json) outcome" where
  "check_claims claims now expectedIssuer expectedAudience =
     (let nowSec = of_int (now div 1000) :: rat in
      if claims = JNull then Threw
      else if json_prop claims ''iss'' \<noteq> JString expectedIssuer then Refused IssuerMismatch
      else if json_prop claims ''aud'' \<noteq> JString expectedAudience then Refused AudienceMismatch
      else if json_prop claims ''exp'' = JUndefined \<and> json_prop (json_prop claims ''naulon'') ''grant'' \<noteq> JString ''none'' then Refused MissingExp
      else if json_prop claims ''exp'' \<noteq> JUndefined \<and> \<not> finite_above (json_prop claims ''exp'') nowSec then Refused TokenExpired
      else if finite_above (json_prop claims ''nbf'') (nowSec + skew_seconds) then Refused NotYetValid
      else if finite_above (json_prop claims ''iat'') (nowSec + skew_seconds) then Refused IssuedInFuture
      else Accepted claims)"

definition verify_license :: "('p, 'k) jose \<Rightarrow> string \<Rightarrow> int \<Rightarrow> string \<Rightarrow> string \<Rightarrow> jwk list \<Rightarrow> (token_error, json) outcome" where
  "verify_license J jws now expectedIssuer expectedAudience jwks = (case verify_compact J jws ''JWT'' jwks of
     Threw \<Rightarrow> Threw
   | Refused e \<Rightarrow> Refused e
   | Accepted claims \<Rightarrow> check_claims claims now expectedIssuer expectedAudience)"

definition pop_bound_address :: "json \<Rightarrow> string option" where
  "pop_bound_address claims = (case json_prop (json_prop claims ''cnf'') ''naulon:addr'' of
     JString a \<Rightarrow> if a = [] then None else Some (js_lower a)
   | _ \<Rightarrow> None)"

datatype license_grant = GrantRead | GrantNone

definition license_grant_of :: "json \<Rightarrow> license_grant" where
  "license_grant_of n = (let g = json_prop n ''grant'' in
     if g = JUndefined \<or> g = JString ''read'' then GrantRead else GrantNone)"

text \<open>Reading \<open>scope.patterns\<close> of a \<open>null\<close> scope throws; the signer never writes one.\<close>

definition license_covers_path :: "json \<Rightarrow> string \<Rightarrow> string option \<Rightarrow> (unit, bool) outcome" where
  "license_covers_path claim slug path = (case json_prop claim ''scope'' of
     JUndefined \<Rightarrow> Accepted (json_prop claim ''slug'' = JString slug)
   | JNull \<Rightarrow> Threw
   | sc \<Rightarrow> (case (json_prop sc ''patterns'', path) of
       (JArray ps, Some p) \<Rightarrow>
         Accepted (list_ex (\<lambda>j. case j of JString x \<Rightarrow> matches_publisher_pattern x p | _ \<Rightarrow> False) ps)
     | _ \<Rightarrow> Accepted False))"

record pop_challenge =
  pc_aud :: string
  pc_jti :: string
  pc_slug :: string
  pc_ts :: string
  pc_nonce :: string

definition pop_message :: "pop_challenge \<Rightarrow> string" where
  "pop_message c = js_join [CHR 0x0A] [''naulon-pop'', ''v=1'', ''aud='' @ pc_aud c, ''jti='' @ pc_jti c,
     ''slug='' @ pc_slug c, ''ts='' @ pc_ts c, ''nonce='' @ pc_nonce c]"

definition usage_sentence :: "string list option \<Rightarrow> string" where
  "usage_sentence terms =
     (let t = (case terms of None \<Rightarrow> [''ai-input''] | Some ts \<Rightarrow> if ts = [] then [''ai-input''] else ts);
          may = (if ''ai-input'' \<in> set t then [''read it, quote it, summarise it, reason over it, and show it to the person who paid''] else [])
            @ (if ''search'' \<in> set t then [''surface it in search results''] else [])
            @ (if ''ai-index'' \<in> set t then [''index it for retrieval''] else [])
            @ (if ''ai-train'' \<in> set t then [''use it as training data''] else []);
          allowed = (if may \<noteq> [] then js_join ''; '' may else ''use it as grounding for an answer you cite'');
          denied = (if ''ai-train'' \<in> set t then ''You may NOT republish it publicly.''
            else ''You may NOT republish it publicly or use it as training data.'')
      in ''You may '' @ allowed @ ''. '' @ denied)"

section \<open>Revocation\<close>

text \<open>The in-process store: the set of revoked ids.\<close>

type_synonym revocation_set = "string set"

definition is_revoked :: "revocation_set \<Rightarrow> string \<Rightarrow> bool" where
  "is_revoked s jti \<longleftrightarrow> jti \<in> s"

definition revoke :: "revocation_set \<Rightarrow> string \<Rightarrow> revocation_set" where
  "revoke s jti = insert jti s"

end
