(* ===== verification/Reread.thy ===== *)
theory Reread
  imports Licence
begin

text \<open>
  Re-reading with a licence: the holder-of-key proof (\<open>packages/enforce/src/pop.ts\<close>) and the check that
  lets a presented licence stand for a payment (\<open>licenseEntitlesRead\<close> in
  \<open>packages/enforce/src/decide.ts\<close>). Recovering an address from a signed message is a parameter;
  \<open>None\<close> is its rejection.
\<close>

section \<open>Proof of possession\<close>

record pop_env =
  pe_window :: int
  pe_recover :: "string \<Rightarrow> string \<Rightarrow> string option"

definition max_proof_len :: nat where "max_proof_len = 1024"

definition hex_nonce :: "string \<Rightarrow> bool" where
  "hex_nonce s \<longleftrightarrow> 8 \<le> length s \<and> length s \<le> 64 \<and> list_all (\<lambda>c. is_digit c \<or> CHR ''a'' \<le> c \<and> c \<le> CHR ''f'') s"

definition eth_sig :: "string \<Rightarrow> bool" where
  "eth_sig s \<longleftrightarrow> length s = 132 \<and> prefix ''0x'' s \<and> list_all is_hex_char (drop 2 s)"

definition int_string :: "int \<Rightarrow> string" where
  "int_string i = (if i < 0 then CHR ''-'' # nat_string 10 (nat (- i)) else nat_string 10 (nat i))"

definition claim_jti :: "json \<Rightarrow> string" where
  "claim_jti claims = (case json_prop claims ''jti'' of JString s \<Rightarrow> s | _ \<Rightarrow> ''undefined'')"

definition proof_key :: "json \<Rightarrow> string \<Rightarrow> string" where
  "proof_key claims nonce = ''pop:'' @ claim_jti claims @ CHR '':'' # nonce"

text \<open>The integer a proof names as its time; numbers that are not integers are refused.\<close>

definition proof_ts :: "string \<Rightarrow> int option" where
  "proof_ts s = (case js_number s of None \<Rightarrow> None | Some q \<Rightarrow> if q = of_int \<lfloor>q\<rfloor> then Some \<lfloor>q\<rfloor> else None)"

definition proof_signed :: "pop_env \<Rightarrow> json \<Rightarrow> string \<Rightarrow> string \<Rightarrow> int \<Rightarrow> string \<Rightarrow> string \<Rightarrow> string \<Rightarrow> bool" where
  "proof_signed P claims slug identity ts nonce sig bound =
     (case pe_recover P (pop_message \<lparr>pc_aud = identity, pc_jti = claim_jti claims, pc_slug = slug,
         pc_ts = int_string ts, pc_nonce = nonce\<rparr>) sig of
        None \<Rightarrow> False | Some a \<Rightarrow> js_lower a = bound)"

definition verify_pop_proof ::
    "pop_env \<Rightarrow> consumed_map \<Rightarrow> string \<Rightarrow> json \<Rightarrow> string \<Rightarrow> string \<Rightarrow> int \<Rightarrow> bool \<times> consumed_map" where
  "verify_pop_proof P st hdr claims slug identity now =
     (if hdr = [] \<or> length hdr > max_proof_len then (False, st)
      else (case pop_bound_address claims of
          None \<Rightarrow> (False, st)
        | Some bound \<Rightarrow> (case js_split CHR ''.'' hdr of
            [tsStr, nonce, sig] \<Rightarrow>
              if \<not> hex_nonce nonce \<or> \<not> eth_sig sig then (False, st)
              else (case proof_ts tsStr of
                  None \<Rightarrow> (False, st)
                | Some ts \<Rightarrow>
                    if \<bar>now div 1000 - ts\<bar> > pe_window P then (False, st)
                    else if \<not> proof_signed P claims slug identity ts nonce sig bound then (False, st)
                    else memory_consume st (proof_key claims nonce) ((ts + pe_window P) * 1000) now)
          | _ \<Rightarrow> (False, st))))"

section \<open>The licence check\<close>

datatype licence_refusal = NoVerifier | Unverifiable | GrantNoneRefusal | NotCovered | KindMismatch
  | RevokedLicence | PopMissing | PopInvalid

datatype toll_kind = TollRead | TollCitation

record license_verification =
  lv_jwks :: "jwk list"
  lv_issuer :: string

text \<open>What the check reads of the request and of the deployment.\<close>

record reread_request =
  rr_target :: string
  rr_proof :: "string option"

record ('p, 'k) reread_env =
  re_jose :: "('p, 'k) jose"
  re_pop :: pop_env
  re_online_check :: bool

record reread_state =
  rs_revoked :: revocation_set
  rs_proofs :: consumed_map

definition check_pop ::
    "('p, 'k) reread_env \<Rightarrow> reread_state \<Rightarrow> json \<Rightarrow> string \<Rightarrow> string \<Rightarrow> reread_request \<Rightarrow> int \<Rightarrow>
       (licence_refusal, unit) outcome \<times> reread_state" where
  "check_pop E st claims slug expected req now =
     (if pop_bound_address claims = None then (Accepted (), st)
      else (case rr_proof req of
          None \<Rightarrow> (Refused PopMissing, st)
        | Some [] \<Rightarrow> (Refused PopMissing, st)
        | Some (c # cs) \<Rightarrow> (case verify_pop_proof (re_pop E) (rs_proofs st) (c # cs) claims slug expected now of
            (ok, m) \<Rightarrow> (if ok then Accepted () else Refused PopInvalid, st\<lparr>rs_proofs := m\<rparr>))))"

definition license_entitles_read ::
    "('p, 'k) reread_env \<Rightarrow> reread_state \<Rightarrow> string \<Rightarrow> string \<Rightarrow> toll_kind \<Rightarrow> reread_request \<Rightarrow> license_verification option \<Rightarrow> int \<Rightarrow> int \<Rightarrow>
       (licence_refusal, unit) outcome \<times> reread_state" where
  "license_entitles_read E st jws slug kind req verification now1 now2 = (case verification of
     None \<Rightarrow> (Refused NoVerifier, st)
   | Some v \<Rightarrow> (case verify_license (re_jose E) jws now1 (lv_issuer v) (lv_issuer v) (lv_jwks v) of
       Threw \<Rightarrow> (Threw, st)
     | Refused e \<Rightarrow> (Refused Unverifiable, st)
     | Accepted claims \<Rightarrow>
         (let n = json_prop claims ''naulon'' in
          if n = JUndefined \<or> n = JNull then (Threw, st)
          else if license_grant_of n \<noteq> GrantRead then (Refused GrantNoneRefusal, st)
          else (case license_covers_path n slug (Some (rr_target req)) of
              Threw \<Rightarrow> (Threw, st)
            | Refused u \<Rightarrow> (Refused NotCovered, st)
            | Accepted fits \<Rightarrow>
                if \<not> fits then (Refused NotCovered, st)
                else if kind = TollCitation \<and> json_prop n ''kind'' \<noteq> JString ''citation'' then (Refused KindMismatch, st)
                else if re_online_check E \<and> is_revoked (rs_revoked st) (claim_jti claims) then (Refused RevokedLicence, st)
                else check_pop E st claims slug (lv_issuer v) req now2))))"

section \<open>Lemmas\<close>

lemma verify_compact_Accepted:
  assumes "verify_compact J jws typ jwks = Accepted j"
  shows "\<exists>h p s k pub header. js_split CHR ''.'' jws = [h, p, s] \<and> jo_parse J h = Some header \<and>
    json_prop header ''alg'' = JString ''EdDSA'' \<and> json_prop header ''typ'' = JString typ \<and>
    json_prop header ''kid'' = JString (jwk_kid k) \<and> k \<in> set jwks \<and> jo_import J k = Some pub \<and>
    jo_verify J pub (h @ ''.'' @ p) s = Some True \<and> jo_parse J p = Some j"
proof -
  from assms obtain h p s header kid where s: "js_split CHR ''.'' jws = [h, p, s]" "jo_parse J h = Some header"
    "check_header typ header = Accepted kid" "check_signature J jwks kid h p s = Accepted j"
    by (auto simp: verify_compact_def split: list.splits if_splits option.splits outcome.splits)
  from s(3) have h: "json_prop header ''alg'' = JString ''EdDSA''" "json_prop header ''typ'' = JString typ"
    "json_prop header ''kid'' = JString kid"
    by (auto simp: check_header_def split: if_splits option.splits json.splits)
  from s(4) obtain k pub where k: "find (\<lambda>k. jwk_kid k = kid) jwks = Some k" "jo_import J k = Some pub"
    "jo_verify J pub (h @ ''.'' @ p) s = Some True" "jo_parse J p = Some j"
    unfolding check_signature_def by (auto split: option.splits bool.splits)
  from k(1) have "k \<in> set jwks \<and> jwk_kid k = kid" by (induction jwks) (auto split: if_splits)
  with s h k show ?thesis by blast
qed

lemma check_claims_Accepted:
  assumes "check_claims claims now iss aud = Accepted c"
  shows "c = claims" "json_prop c ''iss'' = JString iss" "json_prop c ''aud'' = JString aud"
    "json_prop (json_prop c ''naulon'') ''grant'' \<noteq> JString ''none'' \<Longrightarrow>
       \<exists>e. json_prop c ''exp'' = JNumber e \<and> of_int (now div 1000) < e"
  using assms by (auto simp: check_claims_def Let_def finite_above_def split: if_splits json.splits)

lemma grant_read_not_none: "license_grant_of n = GrantRead \<Longrightarrow> json_prop n ''grant'' \<noteq> JString ''none''"
  by (auto simp: license_grant_of_def Let_def split: if_splits)

lemma verify_pop_proof_True:
  assumes "verify_pop_proof P st hdr claims slug identity now = (True, st')"
  shows "\<exists>tsStr nonce sig ts bound. js_split CHR ''.'' hdr = [tsStr, nonce, sig] \<and> pop_bound_address claims = Some bound \<and>
    proof_ts tsStr = Some ts \<and> \<bar>now div 1000 - ts\<bar> \<le> pe_window P \<and> proof_signed P claims slug identity ts nonce sig bound \<and>
    memory_consume st (proof_key claims nonce) ((ts + pe_window P) * 1000) now = (True, st')"
  using assms unfolding verify_pop_proof_def
  by (auto split: if_splits option.splits list.splits simp: not_less)


lemma check_pop_Accepted:
  assumes "check_pop E st claims slug expected req now = (Accepted (), st')" "pop_bound_address claims = Some bound"
  shows "\<exists>hdr m. rr_proof req = Some hdr \<and> verify_pop_proof (re_pop E) (rs_proofs st) hdr claims slug expected now = (True, m) \<and>
    st' = st\<lparr>rs_proofs := m\<rparr>"
  using assms by (auto simp: check_pop_def split: option.splits list.splits prod.splits if_splits)

text \<open>A refusing branch is not taken by a call that accepts.\<close>

lemma branch_out:
  "(if c then (Refused e, s) else X) = (Accepted a, s') \<longleftrightarrow> \<not> c \<and> X = (Accepted a, s')"
  "(if c then (Threw, s) else X) = (Accepted a, s') \<longleftrightarrow> \<not> c \<and> X = (Accepted a, s')"
  by auto

lemma entitles_Accepted:
  assumes "license_entitles_read E st jws slug kind req verification now1 now2 = (Accepted (), st')"
  obtains v claims where "verification = Some v" "verify_compact (re_jose E) jws ''JWT'' (lv_jwks v) = Accepted claims"
    "check_claims claims now1 (lv_issuer v) (lv_issuer v) = Accepted claims"
    "license_grant_of (json_prop claims ''naulon'') = GrantRead"
    "license_covers_path (json_prop claims ''naulon'') slug (Some (rr_target req)) = Accepted True"
    "kind = TollCitation \<Longrightarrow> json_prop (json_prop claims ''naulon'') ''kind'' = JString ''citation''"
    "re_online_check E \<Longrightarrow> \<not> is_revoked (rs_revoked st) (claim_jti claims)"
    "check_pop E st claims slug (lv_issuer v) req now2 = (Accepted (), st')"
proof -
  from assms obtain v where v: "verification = Some v" by (auto simp: license_entitles_read_def split: option.splits)
  from assms obtain c0 claims where c: "verify_compact (re_jose E) jws ''JWT'' (lv_jwks v) = Accepted c0"
    "check_claims c0 now1 (lv_issuer v) (lv_issuer v) = Accepted claims"
    by (auto simp: license_entitles_read_def verify_license_def v split: outcome.splits)
  have e: "c0 = claims" using check_claims_Accepted(1) [OF c(2)] by simp
  have vl: "verify_license (re_jose E) jws now1 (lv_issuer v) (lv_issuer v) (lv_jwks v) = Accepted claims"
    using c by (simp add: verify_license_def)
  let ?n = "json_prop claims ''naulon''"
  note r = assms [unfolded license_entitles_read_def v option.case vl outcome.case Let_def branch_out]
  from r have n: "\<not> (?n = JUndefined \<or> ?n = JNull)" by (rule conjunct1)
  from r have g0: "\<not> license_grant_of ?n \<noteq> GrantRead" by (rule conjunct1 [OF conjunct2])
  then have g: "license_grant_of ?n = GrantRead" by (rule notnotD)
  note r1 = conjunct2 [OF conjunct2 [OF r]]
  obtain fits where f: "license_covers_path ?n slug (Some (rr_target req)) = Accepted fits"
    by (cases "license_covers_path ?n slug (Some (rr_target req))") (use r1 in simp_all)
  note r2 = r1 [unfolded f outcome.case branch_out]
  from r2 have t: fits by (metis)
  from r2 have k: "kind = TollCitation \<Longrightarrow> json_prop ?n ''kind'' = JString ''citation''" by metis
  from r2 have o: "\<not> (re_online_check E \<and> is_revoked (rs_revoked st) (claim_jti claims))" by metis
  from r2 have p: "check_pop E st claims slug (lv_issuer v) req now2 = (Accepted (), st')" by metis
  from t f have f': "license_covers_path ?n slug (Some (rr_target req)) = Accepted True" by simp
  from o have o': "re_online_check E \<Longrightarrow> \<not> is_revoked (rs_revoked st) (claim_jti claims)" by blast
  show thesis by (rule that [OF v c(1) [unfolded e] c(2) [unfolded e] g f' k o' p])
qed

section \<open>Lemmas on minted tokens\<close>

lemma base64url_no_dot: "base64url_re s \<Longrightarrow> CHR ''.'' \<notin> set s"
  by (auto simp: base64url_re_def list_all_iff base64url_char_def is_digit_def less_eq_char_def)

text \<open>A token signed by a key of the set, whose parts read back, is accepted by the compact check.\<close>

lemma signed_token_verifies:
  assumes "find (\<lambda>k. jwk_kid k = sk_kid key) jwks = Some k" "jo_import J k = Some pub"
    and "jo_parse J (jo_text J (token_header typ (sk_kid key))) = Some (token_header typ (sk_kid key))"
    and "jo_parse J (jo_text J payload) = Some payload"
    and "\<And>m. jo_verify J pub m (jo_sign J (sk_private key) m) = Some True"
    and "base64url_re (jo_text J (token_header typ (sk_kid key)))" "base64url_re (jo_text J payload)"
    and "\<And>m. base64url_re (jo_sign J (sk_private key) m)"
    and "length (sign_compact J typ payload key) \<le> max_token_chars"
  shows "verify_compact J (sign_compact J typ payload key) typ jwks = Accepted payload"
proof -
  let ?h = "jo_text J (token_header typ (sk_kid key))" and ?p = "jo_text J payload"
  let ?s = "jo_sign J (sk_private key) (?h @ ''.'' @ ?p)"
  have t: "sign_compact J typ payload key = ?h @ ''.'' @ ?p @ ''.'' @ ?s" by (simp add: sign_compact_def)
  have sp: "js_split CHR ''.'' (sign_compact J typ payload key) = [?h, ?p, ?s]"
    unfolding t using assms(6-8) by (intro split_dots base64url_no_dot)
  have ne: "sign_compact J typ payload key \<noteq> []" by (simp add: t)
  have ch: "check_header typ (token_header typ (sk_kid key)) = Accepted (sk_kid key)"
    by (simp add: check_header_def token_header_def json_prop_def json_has_def json_field_def forbidden_header_params_def)
  have cs: "check_signature J jwks (sk_kid key) ?h ?p ?s = Accepted payload"
    using assms(1,2,4,5) by (simp add: check_signature_def)
  show ?thesis unfolding verify_compact_def using sp ne assms(3,6-9) ch cs by simp
qed

lemma map_of_opt_field [simp]:
  "map_of (opt_field k v @ r) x = (if x = k \<and> v \<noteq> None then v else map_of r x)"
  "map_of (opt_field k v) x = (if x = k then v else None)"
  by (auto simp: opt_field_def split: option.splits)

lemma payee_fields_keys: "payee_fields E inp = Inr pf \<Longrightarrow> x \<notin> {''payees'', ''payeesHash'', ''payTo''} \<Longrightarrow> map_of pf x = None"
  by (auto simp: payee_fields_def Let_def bind_sum_Inr_iff split: if_splits payees_mode.splits)

text \<open>What the checks read of a minted \<open>naulon\<close> claim.\<close>

lemma naulon_claim_fields:
  assumes "naulon_claim E inp grant = Inr n"
  shows "n \<noteq> JUndefined" "n \<noteq> JNull"
    "json_prop n ''grant'' = (case grant of None \<Rightarrow> JUndefined | Some g \<Rightarrow> JString g)"
    "json_prop n ''scope'' = (case mi_scope inp of None \<Rightarrow> JUndefined | Some ps \<Rightarrow> scope_json ps)"
    "json_prop n ''slug'' = JString (le_slug (mi_event inp))"
    "json_prop n ''kind'' = JString (le_kind (mi_event inp))"
proof -
  from assms obtain pf where pf: "payee_fields E inp = Inr pf" by (auto simp: naulon_claim_def bind_sum_Inr_iff)
  note k = payee_fields_keys [OF pf]
  from assms have n: "n = (let ev = mi_event inp in JObject (
       [(''v'', JNumber 1), (''slug'', JString (le_slug ev)), (''title'', JString (mi_title inp)), (''kind'', JString (le_kind ev)),
        (''amount'', JString (to_atomic_usdc (le_amount ev))), (''currency'', JString ''USDC''), (''network'', mi_network inp),
        (''settlementRef'', JString (le_settlement_ref ev))]
       @ pf @ opt_field ''scope'' (map_option scope_json (mi_scope inp))
       @ opt_field ''terms'' (mi_terms inp) @ opt_field ''period'' (mi_period inp)
       @ opt_field ''resource'' (le_resource ev) @ opt_field ''contentSha256'' (le_content_sha ev)
       @ opt_field ''termsDocument'' (le_terms_document ev) @ opt_field ''evidence'' (le_evidence ev)
       @ opt_field ''mandate'' (le_mandate ev) @ opt_field ''attest'' (le_attest ev)
       @ opt_field ''grant'' (map_option JString grant)))" by (simp add: naulon_claim_def pf Let_def)
  show "n \<noteq> JUndefined" "n \<noteq> JNull" by (simp_all add: n Let_def)
  show "json_prop n ''grant'' = (case grant of None \<Rightarrow> JUndefined | Some g \<Rightarrow> JString g)"
    "json_prop n ''scope'' = (case mi_scope inp of None \<Rightarrow> JUndefined | Some ps \<Rightarrow> scope_json ps)"
    "json_prop n ''slug'' = JString (le_slug (mi_event inp))"
    "json_prop n ''kind'' = JString (le_kind (mi_event inp))"
    unfolding n Let_def by (simp_all add: json_prop_def json_field_def map_add_def k split: option.splits)
qed

lemma check_claims_accepts:
  assumes "c \<noteq> JNull" "json_prop c ''iss'' = JString iss" "json_prop c ''aud'' = JString aud"
    "json_prop c ''exp'' = JNumber e" "json_prop c ''nbf'' = JNumber i" "json_prop c ''iat'' = JNumber i"
    "of_int (now div 1000) < e" "\<not> of_int (now div 1000) + skew_seconds < i"
  shows "check_claims c now iss aud = Accepted c"
proof -
  define t where "t = (of_int (now div 1000) :: rat)"
  note l = assms(7,8) [folded t_def]
  show ?thesis unfolding check_claims_def t_def [symmetric] Let_def finite_above_def assms(2-6)
    using l assms(1) by simp
qed

lemma mint_claims_fields:
  assumes "mint_claims E inp grant iat expiry = Inr c"
  shows "\<exists>n. naulon_claim E inp grant = Inr n \<and> c \<noteq> JNull \<and> json_prop c ''naulon'' = n \<and>
    json_prop c ''iss'' = JString (mi_issuer inp) \<and> json_prop c ''aud'' = JString (mi_audience inp) \<and>
    json_prop c ''jti'' = JString (le_id (mi_event inp)) \<and>
    json_prop c ''iat'' = JNumber (of_int iat) \<and> json_prop c ''nbf'' = JNumber (of_int iat) \<and>
    json_prop c ''exp'' = (case expiry of None \<Rightarrow> JUndefined | Some e \<Rightarrow> JNumber (of_int e)) \<and>
    pop_bound_address c = (case mi_pop_bind inp of Some (x # xs) \<Rightarrow> Some (js_lower (js_lower (x # xs))) | _ \<Rightarrow> None)"
proof -
  from assms obtain n where n: "naulon_claim E inp grant = Inr n" by (auto simp: mint_claims_def bind_sum_Inr_iff)
  let ?cnf = "case mi_pop_bind inp of Some (x # xs) \<Rightarrow> [(''cnf'', JObject [(''naulon:addr'', JString (js_lower (x # xs)))])] | _ \<Rightarrow> []"
  have k: "x \<noteq> ''cnf'' \<Longrightarrow> map_of ?cnf x = None" for x by (simp split: option.splits list.splits)
  have c: "c = JObject ([(''iss'', JString (mi_issuer inp)), (''aud'', JString (mi_audience inp)),
      (''sub'', JString (case mi_subject inp of Some s \<Rightarrow> s | None \<Rightarrow> le_payer (mi_event inp))),
      (''jti'', JString (le_id (mi_event inp))), (''iat'', JNumber (of_int iat)), (''nbf'', JNumber (of_int iat)), (''naulon'', n)]
     @ opt_field ''exp'' (map_option (\<lambda>e. JNumber (of_int e)) expiry) @ ?cnf)"
    using assms by (simp add: mint_claims_def n)
  have "json_prop c ''cnf'' = json_field ?cnf ''cnf''" unfolding c
    by (simp add: json_prop_def json_field_def map_add_def split: option.split)
  then have pb: "pop_bound_address c = (case mi_pop_bind inp of Some (x # xs) \<Rightarrow> Some (js_lower (js_lower (x # xs))) | _ \<Rightarrow> None)"
    by (simp add: pop_bound_address_def json_prop_def json_field_def js_lower_def split: option.splits list.splits)
  show ?thesis
    by (intro exI [of _ n] conjI n pb) (simp_all add: c json_prop_def json_field_def map_add_def k split: option.splits)
qed

section \<open>A sample licence\<close>

text \<open>A gate with one key and a signature scheme that only stamps; the encoding knows the two parts of
  one token.\<close>

definition toy_event :: licence_event where
  "toy_event = \<lparr>le_id = ''e1'', le_slug = ''post'', le_kind = ''read'', le_amount = 1 / 1000, le_payees = [], le_payer = ''0xAb'',
     le_settlement_ref = ''tx'', le_resource = None, le_content_sha = None, le_terms_document = None, le_evidence = None,
     le_mandate = None, le_attest = None\<rparr>"

definition toy_mint :: "string option \<Rightarrow> mint_input" where
  "toy_mint bound = \<lparr>mi_event = toy_event, mi_issuer = ''gate'', mi_audience = ''gate'', mi_ttl = 60, mi_payees_mode = PayeesFull,
     mi_title = ''A post'', mi_network = JString ''base'', mi_tie_break = TieInput, mi_pop_bind = bound, mi_subject = None,
     mi_scope = None, mi_terms = None, mi_period = None\<rparr>"

definition toy_env :: mint_env where
  "toy_env = \<lparr>me_collate = map of_char, me_stringify = (\<lambda>j. []), me_sha256 = (\<lambda>s. s)\<rparr>"

definition toy_claims :: "string option \<Rightarrow> string option \<Rightarrow> int option \<Rightarrow> json" where
  "toy_claims bound grant e = (case mint_claims toy_env (toy_mint bound) grant 100 e of Inl x \<Rightarrow> JNull | Inr c \<Rightarrow> c)"

definition toy_jose :: "json \<Rightarrow> (unit, unit) jose" where
  "toy_jose c = \<lparr>jo_text = (\<lambda>j. if json_has j ''alg'' then ''H'' else ''P''),
     jo_parse = (\<lambda>t. if t = ''H'' then Some (token_header ''JWT'' ''k1'') else if t = ''P'' then Some c else None),
     jo_sign = (\<lambda>k t. ''S''), jo_import = (\<lambda>k. Some ()), jo_verify = (\<lambda>k t s. Some (s = ''S''))\<rparr>"

definition toy_key :: "unit signing_key" where "toy_key = \<lparr>sk_kid = ''k1'', sk_private = ()\<rparr>"

definition toy_verification :: license_verification where
  "toy_verification = \<lparr>lv_jwks = [\<lparr>jwk_kid = ''k1'', jwk_x = ''x''\<rparr>], lv_issuer = ''gate''\<rparr>"

definition toy_gate :: "json \<Rightarrow> (unit, unit) reread_env" where
  "toy_gate c = \<lparr>re_jose = toy_jose c, re_pop = \<lparr>pe_window = 60, pe_recover = (\<lambda>t s. Some ''0xAB'')\<rparr>, re_online_check = True\<rparr>"

definition toy_request :: "string option \<Rightarrow> reread_request" where
  "toy_request pf = \<lparr>rr_target = ''/post'', rr_proof = pf\<rparr>"

definition toy_state :: reread_state where "toy_state = \<lparr>rs_revoked = {''other''}, rs_proofs = []\<rparr>"

lemma toy_claims_minted: "mint_claims toy_env (toy_mint bound) grant 100 e = Inr (toy_claims bound grant e)"
  by (simp add: toy_claims_def mint_claims_def naulon_claim_def payee_fields_def toy_mint_def toy_event_def)

lemma toy_claims_no_alg: "\<not> json_has (toy_claims bound grant e) ''alg''"
  by (simp add: toy_claims_def mint_claims_def naulon_claim_def payee_fields_def toy_mint_def toy_event_def json_has_def map_add_def
      split: option.split list.split)

lemma token_header_alg: "json_has (token_header typ kid) ''alg''"
  by (simp add: token_header_def json_has_def)

lemma toy_token: "sign_compact (toy_jose c) ''JWT'' (toy_claims bound grant e) toy_key = ''H.P.S''"
  using toy_claims_no_alg by (simp add: sign_compact_def toy_jose_def token_header_alg)

lemma toy_base64url: "base64url_re ''H'' \<and> base64url_re ''P'' \<and> base64url_re ''S''"
  by (simp add: base64url_re_def base64url_char_def less_eq_char_def)

lemma toy_verified:
  "verify_compact (toy_jose (toy_claims bound grant e)) ''H.P.S'' ''JWT'' (lv_jwks toy_verification) = Accepted (toy_claims bound grant e)"
  by (rule signed_token_verifies [of toy_key _ "\<lparr>jwk_kid = ''k1'', jwk_x = ''x''\<rparr>" "toy_jose (toy_claims bound grant e)" "()" "''JWT''"
        "toy_claims bound grant e", unfolded toy_token])
    (simp_all add: toy_jose_def toy_claims_no_alg token_header_alg toy_key_def toy_verification_def toy_base64url max_token_chars_def)

lemma toy_lower: "js_lower ''0xAb'' = ''0xab''" "js_lower ''0xAB'' = ''0xab''" "js_lower ''0xab'' = ''0xab''"
  by code_simp+

text \<open>A proof by the bound wallet, signed a second before it is checked.\<close>

definition toy_proof :: string where
  "toy_proof = ''99.abcdef01.0x'' @ replicate 130 CHR ''0''"

lemma toy_proof_split: "js_split CHR ''.'' toy_proof = [''99'', ''abcdef01'', ''0x'' @ replicate 130 CHR ''0'']"
proof -
  have t: "toy_proof = ''99'' @ ''.'' @ ''abcdef01'' @ ''.'' @ (''0x'' @ replicate 130 CHR ''0'')" by (simp add: toy_proof_def)
  show ?thesis unfolding t by (rule split_dots) simp_all
qed

lemma toy_proof_ts: "proof_ts ''99'' = Some 99"
proof -
  have "all_digits ''99''" "dec_value ''99'' = 99"
    by (simp_all add: all_digits_def is_digit_def less_eq_char_def dec_value_def digit_value_def)
  then show ?thesis using js_number_digits [of "''99''"] by (simp add: proof_ts_def)
qed

lemma toy_pop:
  assumes "pop_bound_address c = Some ''0xab''" "map_of st (proof_key c ''abcdef01'') = None"
  shows "verify_pop_proof (re_pop (toy_gate d)) st toy_proof c ''post'' ''gate'' 100000 =
    memory_consume st (proof_key c ''abcdef01'') 159000 100000"
proof -
  have n: "hex_nonce ''abcdef01''" by (simp add: hex_nonce_def is_digit_def less_eq_char_def)
  have s: "eth_sig (''0x'' @ replicate 130 CHR ''0'')" by (simp add: eth_sig_def is_hex_char_def is_digit_def list_all_iff less_eq_char_def)
  have l: "toy_proof \<noteq> [] \<and> length toy_proof \<le> max_proof_len" by (simp add: toy_proof_def max_proof_len_def)
  have g: "proof_signed (re_pop (toy_gate d)) c ''post'' ''gate'' 99 ''abcdef01'' (''0x'' @ replicate 130 CHR ''0'') ''0xab''"
    by (simp add: proof_signed_def toy_gate_def toy_lower)
  have w: "pe_window (re_pop (toy_gate d)) = 60" by (simp add: toy_gate_def)
  show ?thesis unfolding verify_pop_proof_def toy_proof_split using n s l g w toy_proof_ts assms by simp
qed

text \<open>A licence bound to a wallet, read with that wallet's proof.\<close>

definition toy_bound :: json where "toy_bound = toy_claims (Some ''0xAb'') None (Some 160)"

lemma toy_bound_read:
  "license_entitles_read (toy_gate toy_bound) toy_state ''H.P.S'' ''post'' TollRead (toy_request (Some toy_proof))
     (Some toy_verification) 150000 100000 = (Accepted (), toy_state\<lparr>rs_proofs := [(''pop:e1:abcdef01'', 159000)]\<rparr>)"
proof -
  have t: "toy_claims (Some ''0xAb'') None (Some 160) = toy_bound" by (simp add: toy_bound_def)
  obtain n where n: "naulon_claim toy_env (toy_mint (Some ''0xAb'')) None = Inr n" "toy_bound \<noteq> JNull" "json_prop toy_bound ''naulon'' = n"
    "json_prop toy_bound ''iss'' = JString ''gate''" "json_prop toy_bound ''aud'' = JString ''gate''" "json_prop toy_bound ''jti'' = JString ''e1''"
    "json_prop toy_bound ''iat'' = JNumber 100" "json_prop toy_bound ''nbf'' = JNumber 100" "json_prop toy_bound ''exp'' = JNumber 160"
    "pop_bound_address toy_bound = Some ''0xab''"
    using mint_claims_fields [OF toy_claims_minted [of "Some ''0xAb''" None "Some 160"], unfolded t]
    by (auto simp: toy_mint_def toy_event_def toy_lower)
  note f = naulon_claim_fields [OF n(1)]
  have k: "proof_key toy_bound ''abcdef01'' = ''pop:e1:abcdef01''" by (simp add: proof_key_def claim_jti_def n(6))
  have vl: "verify_license (toy_jose toy_bound) ''H.P.S'' 150000 (lv_issuer toy_verification) (lv_issuer toy_verification) (lv_jwks toy_verification) =
      Accepted toy_bound"
    using toy_verified [of "Some ''0xAb''" None "Some 160", unfolded t] n(2-9)
    by (simp add: verify_license_def check_claims_def toy_verification_def finite_above_def skew_seconds_def)
  have cp: "check_pop (toy_gate toy_bound) toy_state toy_bound ''post'' ''gate'' (toy_request (Some toy_proof)) 100000 =
      (Accepted (), toy_state\<lparr>rs_proofs := [(''pop:e1:abcdef01'', 159000)]\<rparr>)"
    using toy_pop [OF n(10), of "[]" toy_bound]
    by (simp add: check_pop_def n(10) k toy_request_def toy_state_def memory_consume_def) (simp add: toy_proof_def)
  have j: "re_jose (toy_gate toy_bound) = toy_jose toy_bound" by (simp add: toy_gate_def)
  show ?thesis
    unfolding license_entitles_read_def option.case j vl outcome.case Let_def n(3)
    using f(1-5) cp n(6)
    by (simp add: license_grant_of_def license_covers_path_def toy_mint_def toy_event_def is_revoked_def claim_jti_def toy_state_def
        toy_verification_def)
qed

section \<open>Properties\<close>

text \<open>C4: what a free re-read takes. A presented licence stands for a payment only if its signature, over the
  bytes received, verifies under a key of the deployment's set named by its header, with the pinned
  algorithm; it names the deployment as issuer and audience; it carries an expiry that lies ahead; it
  grants a read; it covers the request (equality of the slug, or one of its patterns); a citation is
  not read with a read licence; it is not revoked where that is checked; and where it is bound to a
  wallet, a proof of that wallet over this deployment, licence and slug was presented inside the
  window and spent by this call.\<close>

theorem entitled_read_sound:
  assumes "license_entitles_read E st jws slug kind req verification now1 now2 = (Accepted (), st')"
  shows "\<exists>v claims n h p s k pub header e. verification = Some v \<and> js_split CHR ''.'' jws = [h, p, s] \<and>
    jo_parse (re_jose E) h = Some header \<and> json_prop header ''alg'' = JString ''EdDSA'' \<and>
    k \<in> set (lv_jwks v) \<and> json_prop header ''kid'' = JString (jwk_kid k) \<and> jo_import (re_jose E) k = Some pub \<and>
    jo_verify (re_jose E) pub (h @ ''.'' @ p) s = Some True \<and> jo_parse (re_jose E) p = Some claims \<and>
    json_prop claims ''iss'' = JString (lv_issuer v) \<and> json_prop claims ''aud'' = JString (lv_issuer v) \<and>
    json_prop claims ''exp'' = JNumber e \<and> of_int (now1 div 1000) < e \<and>
    n = json_prop claims ''naulon'' \<and> json_prop n ''grant'' \<in> {JUndefined, JString ''read''} \<and>
    (case json_prop n ''scope'' of JUndefined \<Rightarrow> json_prop n ''slug'' = JString slug
      | sc \<Rightarrow> \<exists>ps pat. json_prop sc ''patterns'' = JArray ps \<and> JString pat \<in> set ps \<and>
          matches_publisher_pattern pat (rr_target req)) \<and>
    (kind \<noteq> TollCitation \<or> json_prop n ''kind'' = JString ''citation'') \<and>
    (\<not> re_online_check E \<or> claim_jti claims \<notin> rs_revoked st) \<and>
    (case pop_bound_address claims of None \<Rightarrow> True
      | Some bound \<Rightarrow> \<exists>nonce sig ts. proof_signed (re_pop E) claims slug (lv_issuer v) ts nonce sig bound \<and>
          \<bar>now2 div 1000 - ts\<bar> \<le> pe_window (re_pop E) \<and>
          map_of (rs_proofs st) (proof_key claims nonce) = None \<and> map_of (rs_proofs st') (proof_key claims nonce) \<noteq> None)"
proof -
  obtain v claims where v: "verification = Some v" and vc: "verify_compact (re_jose E) jws ''JWT'' (lv_jwks v) = Accepted claims"
    and cc: "check_claims claims now1 (lv_issuer v) (lv_issuer v) = Accepted claims"
    and g: "license_grant_of (json_prop claims ''naulon'') = GrantRead"
    and cov: "license_covers_path (json_prop claims ''naulon'') slug (Some (rr_target req)) = Accepted True"
    and kd: "kind = TollCitation \<Longrightarrow> json_prop (json_prop claims ''naulon'') ''kind'' = JString ''citation''"
    and rv: "re_online_check E \<Longrightarrow> \<not> is_revoked (rs_revoked st) (claim_jti claims)"
    and pp: "check_pop E st claims slug (lv_issuer v) req now2 = (Accepted (), st')"
    using entitles_Accepted [OF assms] by metis
  obtain h p s k pub header where sg: "js_split CHR ''.'' jws = [h, p, s]" "jo_parse (re_jose E) h = Some header"
    "json_prop header ''alg'' = JString ''EdDSA''" "json_prop header ''kid'' = JString (jwk_kid k)" "k \<in> set (lv_jwks v)"
    "jo_import (re_jose E) k = Some pub" "jo_verify (re_jose E) pub (h @ ''.'' @ p) s = Some True" "jo_parse (re_jose E) p = Some claims"
    using verify_compact_Accepted [OF vc] by blast
  note cl = check_claims_Accepted [OF cc]
  obtain e where e: "json_prop claims ''exp'' = JNumber e" "of_int (now1 div 1000) < e"
    using cl(4) [OF grant_read_not_none [OF g]] by blast
  have gr: "json_prop (json_prop claims ''naulon'') ''grant'' \<in> {JUndefined, JString ''read''}"
    using g by (auto simp: license_grant_of_def Let_def split: if_splits)
  have sc: "case json_prop (json_prop claims ''naulon'') ''scope'' of
      JUndefined \<Rightarrow> json_prop (json_prop claims ''naulon'') ''slug'' = JString slug
    | sc \<Rightarrow> \<exists>ps pat. json_prop sc ''patterns'' = JArray ps \<and> JString pat \<in> set ps \<and> matches_publisher_pattern pat (rr_target req)"
    using cov unfolding license_covers_path_def
    by (auto simp: list_ex_iff split: json.splits)
  have pop: "case pop_bound_address claims of None \<Rightarrow> True
      | Some bound \<Rightarrow> \<exists>nonce sig ts. proof_signed (re_pop E) claims slug (lv_issuer v) ts nonce sig bound \<and>
          \<bar>now2 div 1000 - ts\<bar> \<le> pe_window (re_pop E) \<and>
          map_of (rs_proofs st) (proof_key claims nonce) = None \<and> map_of (rs_proofs st') (proof_key claims nonce) \<noteq> None"
  proof (cases "pop_bound_address claims")
    case (Some bound)
    from check_pop_Accepted [OF pp Some] obtain hdr m where hm: "verify_pop_proof (re_pop E) (rs_proofs st) hdr claims slug (lv_issuer v) now2 = (True, m)"
      "st' = st\<lparr>rs_proofs := m\<rparr>" by blast
    from verify_pop_proof_True [OF hm(1)] Some obtain nonce sig ts where t:
      "\<bar>now2 div 1000 - ts\<bar> \<le> pe_window (re_pop E)" "proof_signed (re_pop E) claims slug (lv_issuer v) ts nonce sig bound"
      "memory_consume (rs_proofs st) (proof_key claims nonce) ((ts + pe_window (re_pop E)) * 1000) now2 = (True, m)" by auto
    then have "map_of (rs_proofs st) (proof_key claims nonce) = None" "map_of m (proof_key claims nonce) \<noteq> None"
      using memory.wins_iff memory.marks by (metis fst_conv, metis fst_conv memory.wins_iff option.distinct(1) snd_conv)
    then show ?thesis using Some t hm(2) by auto
  qed simp
  show ?thesis
    by (intro exI [of _ v] exI [of _ claims] exI [of _ "json_prop claims ''naulon''"] exI [of _ h] exI [of _ p] exI [of _ s]
        exI [of _ k] exI [of _ pub] exI [of _ header] exI [of _ e] conjI refl v sg cl(2,3) e gr sc pop)
      (use kd rv in \<open>auto simp: is_revoked_def\<close>)
qed

theorem entitled_read_sound_witness:
  "\<exists>claims p e. jo_parse (toy_jose toy_bound) p = Some claims \<and> json_prop claims ''iss'' = JString ''gate'' \<and>
     json_prop claims ''exp'' = JNumber e \<and> 150 < e \<and> claim_jti claims \<noteq> ''other''"
  using entitled_read_sound [OF toy_bound_read]
  by (elim exE conjE) (auto simp: toy_verification_def toy_gate_def toy_state_def)

text \<open>C33: what is minted can be used. A licence minted for a read, unscoped and bound to no wallet, that the
  deployment signs with a key it publishes, is accepted in place of a payment at every moment from
  a minute before its issue until its expiry, for the slug it was sold for, and the read spends
  nothing. The signature scheme and the encoding are asked to read back what they wrote for this token.\<close>

theorem minted_licence_reads:
  assumes minted: "mint_claims M inp None (now0 div 1000) (Some (now0 div 1000 + int (mi_ttl inp))) = Inr c"
      "mint_license (re_jose E) M inp key now0 = Inr jws"
    and published: "find (\<lambda>k. jwk_kid k = sk_kid key) (lv_jwks v) = Some k" "jo_import (re_jose E) k = Some pub"
    and readback: "jo_parse (re_jose E) (jo_text (re_jose E) (token_header ''JWT'' (sk_kid key))) = Some (token_header ''JWT'' (sk_kid key))"
      "jo_parse (re_jose E) (jo_text (re_jose E) c) = Some c"
      "\<And>t. jo_verify (re_jose E) pub t (jo_sign (re_jose E) (sk_private key) t) = Some True"
    and encoded: "base64url_re (jo_text (re_jose E) (token_header ''JWT'' (sk_kid key)))" "base64url_re (jo_text (re_jose E) c)"
      "\<And>t. base64url_re (jo_sign (re_jose E) (sk_private key) t)" "length jws \<le> max_token_chars"
    and pinned: "mi_issuer inp = lv_issuer v" "mi_audience inp = lv_issuer v"
    and plain: "mi_scope inp = None" "mi_pop_bind inp = None"
    and kind: "kind = TollRead \<or> le_kind (mi_event inp) = ''citation''"
    and standing: "re_online_check E \<Longrightarrow> le_id (mi_event inp) \<notin> rs_revoked st"
    and live: "now0 div 1000 \<le> now1 div 1000 + 60" "now1 div 1000 < now0 div 1000 + int (mi_ttl inp)"
  shows "license_entitles_read E st jws (le_slug (mi_event inp)) kind req (Some v) now1 now2 = (Accepted (), st)"
proof -
  have jws: "jws = sign_compact (re_jose E) ''JWT'' c key" using minted by (simp add: mint_license_def Let_def)
  have vc: "verify_compact (re_jose E) jws ''JWT'' (lv_jwks v) = Accepted c"
    using signed_token_verifies [OF published readback(1,2,3) encoded(1-3)] encoded(4) unfolding jws by blast
  obtain n where n: "naulon_claim M inp None = Inr n" "c \<noteq> JNull" "json_prop c ''naulon'' = n"
    "json_prop c ''iss'' = JString (lv_issuer v)" "json_prop c ''aud'' = JString (lv_issuer v)"
    "json_prop c ''jti'' = JString (le_id (mi_event inp))"
    "json_prop c ''iat'' = JNumber (of_int (now0 div 1000))" "json_prop c ''nbf'' = JNumber (of_int (now0 div 1000))"
    "json_prop c ''exp'' = JNumber (of_int (now0 div 1000 + int (mi_ttl inp)))" "pop_bound_address c = None"
    using mint_claims_fields [OF minted(1), unfolded pinned plain option.case] by blast
  have t: "of_int (now1 div 1000) < (of_int (now0 div 1000 + int (mi_ttl inp)) :: rat)" using live(2) by (simp only: of_int_less_iff)
  have u: "\<not> of_int (now1 div 1000) + skew_seconds < (of_int (now0 div 1000) :: rat)"
  proof -
    have "(of_int (now0 div 1000) :: rat) \<le> of_int (now1 div 1000 + 60)" using live(1) by (simp only: of_int_le_iff)
    then show ?thesis unfolding skew_seconds_def of_int_add of_int_numeral by (simp only: not_less)
  qed
  have cc: "check_claims c now1 (lv_issuer v) (lv_issuer v) = Accepted c"
    by (rule check_claims_accepts [OF n(2,4,5,9,8,7) t u])
  have vl: "verify_license (re_jose E) jws now1 (lv_issuer v) (lv_issuer v) (lv_jwks v) = Accepted c"
    by (simp add: verify_license_def vc cc)
  note f = naulon_claim_fields [OF n(1)]
  have g: "license_grant_of n = GrantRead" using f(3) by (simp add: license_grant_of_def)
  have cv: "license_covers_path n (le_slug (mi_event inp)) p = Accepted True" for p
    using f(4,5) plain by (simp add: license_covers_path_def)
  have r: "\<not> (re_online_check E \<and> is_revoked (rs_revoked st) (claim_jti c))"
    using standing n(6) by (auto simp: is_revoked_def claim_jti_def)
  have kk: "\<not> (kind = TollCitation \<and> json_prop n ''kind'' \<noteq> JString ''citation'')" using kind f(6) by auto
  show ?thesis
    unfolding license_entitles_read_def option.case vl outcome.case Let_def n(3)
    using f(1,2) g cv r kk n(10) by (simp add: check_pop_def)
qed

theorem minted_licence_reads_witness:
  "license_entitles_read (toy_gate (toy_claims None None (Some 160))) toy_state ''H.P.S'' ''post'' TollRead (toy_request None)
     (Some toy_verification) 150000 150000 = (Accepted (), toy_state)"
proof -
  let ?c = "toy_claims None None (Some 160)"
  have j: "re_jose (toy_gate ?c) = toy_jose ?c" by (simp add: toy_gate_def)
  have t: "jo_text (toy_jose ?c) ?c = ''P''" "jo_text (toy_jose ?c) (token_header ''JWT'' (sk_kid toy_key)) = ''H''"
    by (simp_all add: toy_jose_def toy_claims_no_alg token_header_alg)
  have "license_entitles_read (toy_gate ?c) toy_state ''H.P.S'' (le_slug (mi_event (toy_mint None))) TollRead (toy_request None)
     (Some toy_verification) 150000 150000 = (Accepted (), toy_state)"
  proof (rule minted_licence_reads [where ?now0.0 = 100000 and M = toy_env and inp = "toy_mint None" and key = toy_key and c = ?c and
        k = "\<lparr>jwk_kid = ''k1'', jwk_x = ''x''\<rparr>" and pub = "()"], unfold j t)
    show "mint_claims toy_env (toy_mint None) None (100000 div 1000) (Some (100000 div 1000 + int (mi_ttl (toy_mint None)))) = Inr ?c"
      using toy_claims_minted [of None None "Some 160"] by (simp add: toy_mint_def)
    show "mint_license (toy_jose ?c) toy_env (toy_mint None) toy_key 100000 = Inr ''H.P.S''"
      using toy_claims_minted [of None None "Some 160"] toy_token [of ?c None None "Some 160"] by (simp add: mint_license_def toy_mint_def)
  qed (simp_all add: toy_jose_def toy_key_def toy_verification_def toy_base64url max_token_chars_def toy_mint_def toy_event_def
      toy_state_def)
  then show ?thesis by (simp add: toy_mint_def toy_event_def)
qed

text \<open>A citation record opens nothing. The permanent record minted for the same purchase is never
  accepted in place of a payment, whatever the deployment, the request, the clock and the kind asked
  for, as long as the encoding reads back the claims that were written.\<close>

theorem citation_record_never_reads:
  assumes "mint_claims M inp (Some ''none'') (now0 div 1000) None = Inr c"
    and "mint_citation_record (re_jose E) M inp key now0 = Inr jws"
    and "base64url_re (jo_text (re_jose E) (token_header ''JWT'' (sk_kid key)))" "base64url_re (jo_text (re_jose E) c)"
      "base64url_re (jo_sign (re_jose E) (sk_private key) (jo_text (re_jose E) (token_header ''JWT'' (sk_kid key)) @ ''.'' @ jo_text (re_jose E) c))"
    and "jo_parse (re_jose E) (jo_text (re_jose E) c) = Some c"
  shows "fst (license_entitles_read E st jws slug kind req verification now1 now2) \<noteq> Accepted ()"
proof
  assume "fst (license_entitles_read E st jws slug kind req verification now1 now2) = Accepted ()"
  then obtain st' where "license_entitles_read E st jws slug kind req verification now1 now2 = (Accepted (), st')"
    by (cases "license_entitles_read E st jws slug kind req verification now1 now2") simp
  then obtain v :: license_verification and claims where v: "verify_compact (re_jose E) jws ''JWT'' (lv_jwks v) = Accepted claims"
    "license_grant_of (json_prop claims ''naulon'') = GrantRead" by (rule entitles_Accepted) blast
  have "jws = sign_compact (re_jose E) ''JWT'' c key"
    using assms(1,2) by (simp add: mint_citation_record_def)
  then have "js_split CHR ''.'' jws = [jo_text (re_jose E) (token_header ''JWT'' (sk_kid key)), jo_text (re_jose E) c,
      jo_sign (re_jose E) (sk_private key) (jo_text (re_jose E) (token_header ''JWT'' (sk_kid key)) @ ''.'' @ jo_text (re_jose E) c)]"
    unfolding sign_compact_def Let_def append_assoc using assms(3-5) by (simp only: split_dots base64url_no_dot not_False_eq_True)
  then have "claims = c" using verify_compact_Accepted [OF v(1)] assms(6) by auto
  moreover obtain n where "naulon_claim M inp (Some ''none'') = Inr n" "json_prop c ''naulon'' = n"
    using mint_claims_fields [OF assms(1)] by blast
  ultimately show False using naulon_claim_fields(3) v(2) by (fastforce simp: license_grant_of_def)
qed

theorem citation_record_never_reads_witness:
  "mint_citation_record (toy_jose (toy_claims None (Some ''none'') None)) toy_env (toy_mint None) toy_key 100000 = Inr ''H.P.S'' \<and>
   fst (license_entitles_read (toy_gate (toy_claims None (Some ''none'') None)) toy_state ''H.P.S'' ''post'' TollRead (toy_request None)
     (Some toy_verification) 150000 150000) \<noteq> Accepted ()"
proof -
  let ?c = "toy_claims None (Some ''none'') None"
  have j: "re_jose (toy_gate ?c) = toy_jose ?c" by (simp add: toy_gate_def)
  have t: "jo_text (toy_jose ?c) ?c = ''P''" "jo_text (toy_jose ?c) (token_header ''JWT'' (sk_kid toy_key)) = ''H''"
    by (simp_all add: toy_jose_def toy_claims_no_alg token_header_alg)
  have m: "mint_claims toy_env (toy_mint None) (Some ''none'') (100000 div 1000) None = Inr ?c"
    using toy_claims_minted [of None "Some ''none''" None] by simp
  have r: "mint_citation_record (toy_jose ?c) toy_env (toy_mint None) toy_key 100000 = Inr ''H.P.S''"
    using m toy_token [of ?c None "Some ''none''" None] by (simp add: mint_citation_record_def)
  show ?thesis
    using r citation_record_never_reads [OF m, of "toy_gate ?c" toy_key "''H.P.S''", unfolded j t, OF r]
    by (simp add: toy_base64url) (simp add: toy_jose_def toy_base64url)
qed

text \<open>A proof of possession is spent once. After a call that accepted a proof, the same proof header for
  the same licence is refused at every later time before the moment its spending is remembered to,
  however many other proofs are spent in between.\<close>

theorem proof_spent_once:
  assumes "verify_pop_proof P st hdr claims slug identity now = (True, st')" "js_split CHR ''.'' hdr = [tsStr, nonce, sig]"
    "proof_ts tsStr = Some ts" "list_all (\<lambda>(k, e, t). t < (ts + pe_window P) * 1000) calls"
  shows "\<not> fst (verify_pop_proof P (memory.consume_all st' calls) hdr claims slug identity' later)"
proof
  let ?s = "memory.consume_all st' calls" and ?k = "proof_key claims nonce"
  assume "fst (verify_pop_proof P ?s hdr claims slug identity' later)"
  then obtain s'' where "verify_pop_proof P ?s hdr claims slug identity' later = (True, s'')" by (metis prod.collapse)
  from verify_pop_proof_True [OF this] assms(2) obtain e where w: "memory_consume ?s ?k e later = (True, s'')" by auto
  from verify_pop_proof_True [OF assms(1)] assms(2,3)
  have c: "memory_consume st ?k ((ts + pe_window P) * 1000) now = (True, st')" by auto
  then have "map_of st ?k = None" using memory.wins_iff by (metis fst_conv)
  from memory.marks [OF this] c have "map_of st' ?k = Some ((ts + pe_window P) * 1000)" by (metis snd_conv)
  from memory.spent_kept [OF this assms(4)] have "map_of ?s ?k \<noteq> None" by simp
  then show False using w memory.wins_iff by (metis fst_conv)
qed

theorem proof_spent_once_witness:
  "\<not> fst (verify_pop_proof (re_pop (toy_gate JNull)) [(''pop:e1:abcdef01'', 159000), (''other'', 900000)] toy_proof toy_bound ''post'' ''gate'' 120000)"
proof -
  have b: "pop_bound_address toy_bound = Some ''0xab''" "json_prop toy_bound ''jti'' = JString ''e1''"
    using mint_claims_fields [OF toy_claims_minted [of "Some ''0xAb''" None "Some 160"]]
    by (auto simp: toy_bound_def toy_mint_def toy_event_def toy_lower)
  then have k: "proof_key toy_bound ''abcdef01'' = ''pop:e1:abcdef01''" by (simp add: proof_key_def claim_jti_def)
  have "verify_pop_proof (re_pop (toy_gate JNull)) [] toy_proof toy_bound ''post'' ''gate'' 100000 = (True, [(''pop:e1:abcdef01'', 159000)])"
    using toy_pop [OF b(1), of "[]"] by (simp add: k memory_consume_def)
  from proof_spent_once [OF this toy_proof_split toy_proof_ts, of "[(''other'', 900000, 110000)]"]
  show ?thesis by (simp add: toy_gate_def memory_consume_def)
qed

text \<open>What the expiry of the memory leaves open. A proof is fresh until the end of the second in which its
  window ends, but its spending is remembered only to the start of that second. In a store of more
  than ten thousand entries, any other proof spent in that second sweeps it out, and the same
  header is accepted again.\<close>

theorem proof_replayed_after_sweep:
  assumes "verify_pop_proof P st hdr claims slug identity now = (True, st')" "js_split CHR ''.'' hdr = [tsStr, nonce, sig]"
    "proof_ts tsStr = Some ts" "0 \<le> pe_window P" "distinct (map fst st)" "10000 < length st'"
    "map_of st' other = None" "other \<noteq> proof_key claims nonce"
    "later div 1000 = ts + pe_window P"
  shows "fst (verify_pop_proof P (snd (memory_consume st' other e later)) hdr claims slug identity later)"
proof -
  let ?k = "proof_key claims nonce" and ?e = "(ts + pe_window P) * 1000"
  from verify_pop_proof_True [OF assms(1)] assms(2,3) obtain bound
    where b: "pop_bound_address claims = Some bound" "proof_signed P claims slug identity ts nonce sig bound"
      and c: "memory_consume st ?k ?e now = (True, st')" by auto
  from assms(1) have h: "\<not> (hdr = [] \<or> length hdr > max_proof_len)" "hex_nonce nonce" "eth_sig sig"
    using assms(2) by (auto simp: verify_pop_proof_def split: if_splits option.splits)
  from c have s: "st' = AList.update ?k ?e (if length st > 10000 then sweep_consumed now st else st)" "map_of st ?k = None"
    by (auto simp: memory_consume_def split: if_splits)
  have d: "distinct (map fst st')" unfolding s(1)
    by (rule distinct_update) (use assms(5) in \<open>auto simp: sweep_consumed_def distinct_map inj_on_def\<close>)
  have "later div 1000 * 1000 \<le> later" by presburger
  then have "?e \<le> later" using assms(9) by simp
  moreover have "map_of st' ?k = Some ?e" by (simp add: s(1) map_of_update)
  ultimately have "map_of (sweep_consumed later st') ?k = None" by (simp add: map_of_sweep [OF d])
  then have n: "map_of (snd (memory_consume st' other e later)) ?k = None"
    using assms(6-8) by (simp add: memory_consume_def map_of_update)
  have f: "\<not> \<bar>later div 1000 - ts\<bar> > pe_window P" using assms(4,9) by simp
  have w: "fst (memory_consume (snd (memory_consume st' other e later)) ?k ?e later)" using memory.fresh_wins [OF n] .
  show ?thesis unfolding verify_pop_proof_def assms(2) using h f b assms(3) w by simp
qed

text \<open>A store of ten thousand and one other proofs, none of them expired.\<close>

definition toy_full :: consumed_map where
  "toy_full = map (\<lambda>i. (replicate i CHR ''n'', 900000)) [0..<10001]"

lemma toy_full_facts: "length toy_full = 10001" "distinct (map fst toy_full)" "sweep_consumed 100000 toy_full = toy_full"
  "k \<noteq> [] \<Longrightarrow> hd k \<noteq> CHR ''n'' \<Longrightarrow> map_of toy_full k = None"
proof -
  show "length toy_full = 10001" by (simp add: toy_full_def)
  show "distinct (map fst toy_full)" by (simp add: toy_full_def comp_def distinct_map inj_on_def)
  show "sweep_consumed 100000 toy_full = toy_full" by (simp add: toy_full_def sweep_consumed_def filter_map comp_def)
  assume "k \<noteq> []" "hd k \<noteq> CHR ''n''"
  then have "k \<notin> range (\<lambda>i. replicate i CHR ''n'')" by (metis (no_types, lifting) hd_replicate rangeE replicate_empty)
  then show "map_of toy_full k = None" unfolding map_of_eq_None_iff by (auto simp: toy_full_def)
qed

theorem proof_replayed_after_sweep_witness:
  "\<exists>st'. verify_pop_proof (re_pop (toy_gate JNull)) toy_full toy_proof toy_bound ''post'' ''gate'' 100000 = (True, st') \<and>
     fst (verify_pop_proof (re_pop (toy_gate JNull)) (snd (memory_consume st' ''other'' 900000 159999)) toy_proof toy_bound ''post'' ''gate'' 159999)"
proof -
  have b: "pop_bound_address toy_bound = Some ''0xab''" "json_prop toy_bound ''jti'' = JString ''e1''"
    using mint_claims_fields [OF toy_claims_minted [of "Some ''0xAb''" None "Some 160"]]
    by (auto simp: toy_bound_def toy_mint_def toy_event_def toy_lower)
  then have k: "proof_key toy_bound ''abcdef01'' = ''pop:e1:abcdef01''" by (simp add: proof_key_def claim_jti_def)
  have f: "map_of toy_full ''pop:e1:abcdef01'' = None" "map_of toy_full ''other'' = None" using toy_full_facts(4) by simp_all
  let ?s = "AList.update ''pop:e1:abcdef01'' 159000 toy_full"
  have a: "verify_pop_proof (re_pop (toy_gate JNull)) toy_full toy_proof toy_bound ''post'' ''gate'' 100000 = (True, ?s)"
    using toy_pop [OF b(1), of toy_full JNull] f(1) by (simp add: k memory_consume_def toy_full_facts(1,3))
  have l: "10000 < length ?s" by (simp add: length_update toy_full_facts)
  show ?thesis
    using proof_replayed_after_sweep [OF a toy_proof_split toy_proof_ts _ toy_full_facts(2) l, of "''other''" 159999 900000] a f(2)
    by (simp add: k map_of_update toy_gate_def)
qed

text \<open>A broken header is not refused but thrown. The header of a token is read before its signature is
  checked, and a header that decodes to JSON \<open>null\<close> makes the check throw rather than refuse, whatever
  follows it and whoever sent it.\<close>

theorem null_header_throws:
  assumes "base64url_re h" "base64url_re p" "base64url_re s" "jo_parse (re_jose E) h = Some JNull"
    "length (h @ ''.'' @ p @ ''.'' @ s) \<le> max_token_chars"
  shows "license_entitles_read E st (h @ ''.'' @ p @ ''.'' @ s) slug kind req (Some v) now1 now2 = (Threw, st)"
proof -
  have "js_split CHR ''.'' (h @ ''.'' @ p @ ''.'' @ s) = [h, p, s]" using assms(1-3) by (intro split_dots base64url_no_dot)
  moreover have "h @ ''.'' @ p @ ''.'' @ s \<noteq> []" by simp
  ultimately have "verify_compact (re_jose E) (h @ ''.'' @ p @ ''.'' @ s) ''JWT'' (lv_jwks v) = Threw"
    unfolding verify_compact_def using assms by (simp add: check_header_def)
  then show ?thesis by (simp add: license_entitles_read_def verify_license_def)
qed

theorem null_header_throws_witness:
  "license_entitles_read ((toy_gate toy_bound)\<lparr>re_jose := (toy_jose toy_bound)\<lparr>jo_parse := (\<lambda>t. if t = ''bnVsbA'' then Some JNull else None)\<rparr>\<rparr>)
     toy_state ''bnVsbA.P.S'' ''post'' TollRead (toy_request None) (Some toy_verification) 150000 150000 = (Threw, toy_state)"
proof -
  have "base64url_re ''bnVsbA''" by (simp add: base64url_re_def base64url_char_def less_eq_char_def)
  then show ?thesis
    using null_header_throws [of "''bnVsbA''" "''P''" "''S''"
        "(toy_gate toy_bound)\<lparr>re_jose := (toy_jose toy_bound)\<lparr>jo_parse := (\<lambda>t. if t = ''bnVsbA'' then Some JNull else None)\<rparr>\<rparr>"
        toy_state "''post''" TollRead "toy_request None" toy_verification 150000 150000]
    by (simp add: toy_base64url max_token_chars_def)
qed

end
