(* ===== verification/PriceRules.thy ===== *)
theory PriceRules
  imports RslPattern
begin

text \<open>
  Per-path price rules, \<open>packages/shared/src/price-rules.ts\<close>: the write path, which checks and sorts
  a publisher's list or refuses it, and the read path, which picks the rule that governs a target.
  Input comes as parsed JSON (\<open>unknown\<close> in the source).
\<close>

section \<open>Model\<close>

record price_rule =
  pattern :: string
  priceUsdc :: "rat option"
  citationMultiplier :: "rat option"
  agent :: "string option"

datatype rule_error = TooManyEntries | EntryNotObject | NoPattern | EmptyPattern | NotAbsolute
  | PatternTooLong | NotPrintable | ListedTwice | AgentNotText | AgentNotHost | PriceNotNumber
  | PriceBelowFloor | MultiplierNotNumber | MultiplierNotPositive | RuleSetsNothing

definition max_price_rules :: nat where "max_price_rules = 50"
definition max_pattern_len :: nat where "max_pattern_len = 200"
definition max_agent_len :: nat where "max_agent_len = 253"

text \<open>\<open>types.ts\<close>: amounts below this cannot settle.\<close>

definition usdc_floor :: rat where "usdc_floor = 1 / 1000000"

definition agent_char :: "char \<Rightarrow> bool" where
  "agent_char c \<longleftrightarrow> CHR ''a'' \<le> c \<and> c \<le> CHR ''z'' \<or> CHR ''0'' \<le> c \<and> c \<le> CHR ''9'' \<or> c \<in> set ''.-''"

definition agent_id :: "string \<Rightarrow> bool" where
  "agent_id a \<longleftrightarrow> a \<noteq> [] \<and> list_all agent_char a"

definition printable_path :: "string \<Rightarrow> bool" where
  "printable_path p \<longleftrightarrow> p \<noteq> [] \<and> list_all (\<lambda>c. CHR 0x21 \<le> c \<and> c \<le> CHR 0x7E) p"

definition normalize_path_pattern :: "json \<Rightarrow> rule_error + string" where
  "normalize_path_pattern raw = (case raw of
     JString s \<Rightarrow> (let p = js_trim s in
       if p = [] then Inl EmptyPattern
       else if \<not> prefix ''/'' p then Inl NotAbsolute
       else if length p > max_pattern_len then Inl PatternTooLong
       else if \<not> printable_path p then Inl NotPrintable
       else Inr p)
   | _ \<Rightarrow> Inl NoPattern)"

fun collect_patterns :: "json list \<Rightarrow> string set \<Rightarrow> string list \<Rightarrow> rule_error + string list" where
  "collect_patterns [] seen out = Inr out"
| "collect_patterns (raw # rest) seen out =
     bind_sum (normalize_path_pattern raw) (\<lambda>p.
       if p \<in> seen then Inl ListedTwice else collect_patterns rest (insert p seen) (out @ [p]))"

definition normalize_path_patterns :: "json list \<Rightarrow> nat \<Rightarrow> rule_error + string list" where
  "normalize_path_patterns input m =
     (if length input > m then Inl TooManyEntries
      else bind_sum (collect_patterns input {} []) (\<lambda>out. Inr (sort_key (\<lambda>p. - int (specificity p)) out)))"

definition rule_agent :: "json \<Rightarrow> rule_error + string option" where
  "rule_agent raw = (case raw of
     JUndefined \<Rightarrow> Inr None
   | JNull \<Rightarrow> Inr None
   | JString s \<Rightarrow> if s = [] then Inr None else (let a = js_lower (js_trim s) in
       if length a > max_agent_len \<or> \<not> agent_id a then Inl AgentNotHost else Inr (Some a))
   | _ \<Rightarrow> Inl AgentNotText)"

definition rule_price :: "json \<Rightarrow> rule_error + rat option" where
  "rule_price raw = (case raw of
     JUndefined \<Rightarrow> Inr None
   | JNull \<Rightarrow> Inr None
   | JNumber q \<Rightarrow> if q < usdc_floor then Inl PriceBelowFloor else Inr (Some q)
   | _ \<Rightarrow> Inl PriceNotNumber)"

definition rule_multiplier :: "json \<Rightarrow> rule_error + rat option" where
  "rule_multiplier raw = (case raw of
     JUndefined \<Rightarrow> Inr None
   | JNull \<Rightarrow> Inr None
   | JNumber q \<Rightarrow> if q \<le> 0 then Inl MultiplierNotPositive else Inr (Some q)
   | _ \<Rightarrow> Inl MultiplierNotNumber)"

text \<open>The key of the duplicate check, with its NUL separator.\<close>

definition rule_key :: "string option \<Rightarrow> string \<Rightarrow> string" where
  "rule_key a p = (case a of None \<Rightarrow> p | Some x \<Rightarrow> x @ CHR 0x00 # p)"

text \<open>One round of the loop, in the order of the code's checks.\<close>

definition normalize_rule :: "json \<Rightarrow> string set \<Rightarrow> rule_error + price_rule" where
  "normalize_rule raw seen = (case raw of
     JObject fs \<Rightarrow>
       bind_sum (normalize_path_pattern (json_field fs ''pattern'')) (\<lambda>p.
       bind_sum (rule_agent (json_field fs ''agent'')) (\<lambda>a.
         if rule_key a p \<in> seen then Inl ListedTwice else
       bind_sum (rule_price (json_field fs ''priceUsdc'')) (\<lambda>price.
       bind_sum (rule_multiplier (json_field fs ''citationMultiplier'')) (\<lambda>mult.
         if price = None \<and> mult = None then Inl RuleSetsNothing
         else Inr \<lparr>pattern = p, priceUsdc = price, citationMultiplier = mult, agent = a\<rparr>))))
   | _ \<Rightarrow> Inl EntryNotObject)"

fun collect_rules :: "json list \<Rightarrow> string set \<Rightarrow> price_rule list \<Rightarrow> rule_error + price_rule list" where
  "collect_rules [] seen out = Inr out"
| "collect_rules (raw # rest) seen out =
     bind_sum (normalize_rule raw seen) (\<lambda>r.
       collect_rules rest (insert (rule_key (agent r) (pattern r)) seen) (out @ [r]))"

text \<open>Agent rules first, then the most specific first.\<close>

definition rule_rank :: "price_rule \<Rightarrow> nat \<times> nat" where
  "rule_rank r = (if agent r \<noteq> None then 1 else 0, specificity (pattern r))"

definition rule_order :: "price_rule \<Rightarrow> int \<times> int" where
  "rule_order r = (- int (fst (rule_rank r)), - int (snd (rule_rank r)))"

definition normalize_price_rules :: "json list \<Rightarrow> rule_error + price_rule list" where
  "normalize_price_rules input =
     (if length input > max_price_rules then Inl TooManyEntries
      else bind_sum (collect_rules input {} []) (\<lambda>out. Inr (sort_key rule_order out)))"

definition rule_governs :: "string option \<Rightarrow> string \<Rightarrow> price_rule \<Rightarrow> bool" where
  "rule_governs ag target r \<longleftrightarrow> (agent r = None \<or> agent r = ag) \<and> matches_publisher_pattern (pattern r) target"

fun scan_rules :: "price_rule list \<Rightarrow> string option \<Rightarrow> string \<Rightarrow> price_rule option" where
  "scan_rules [] ag target = None"
| "scan_rules (r # rs) ag target =
     (if agent r \<noteq> None \<and> agent r \<noteq> ag then scan_rules rs ag target
      else if matches_publisher_pattern (pattern r) target then Some r
      else scan_rules rs ag target)"

definition resolve_price_rule :: "price_rule list option \<Rightarrow> string option \<Rightarrow> string option \<Rightarrow> price_rule option" where
  "resolve_price_rule rules target verifiedAgent = (case rules of
     None \<Rightarrow> None
   | Some rs \<Rightarrow> (case target of None \<Rightarrow> None
       | Some t \<Rightarrow> scan_rules rs (map_option js_lower verifiedAgent) t))"

section \<open>What a stored list looks like\<close>

definition pattern_ok :: "string \<Rightarrow> bool" where
  "pattern_ok p \<longleftrightarrow> prefix ''/'' p \<and> length p \<le> max_pattern_len \<and> printable_path p"

definition rule_ok :: "price_rule \<Rightarrow> bool" where
  "rule_ok r \<longleftrightarrow> pattern_ok (pattern r) \<and>
     (case agent r of None \<Rightarrow> True | Some a \<Rightarrow> agent_id a \<and> length a \<le> max_agent_len) \<and>
     (case priceUsdc r of None \<Rightarrow> True | Some q \<Rightarrow> usdc_floor \<le> q) \<and>
     (case citationMultiplier r of None \<Rightarrow> True | Some q \<Rightarrow> 0 < q) \<and>
     \<not> (priceUsdc r = None \<and> citationMultiplier r = None)"

lemma normalize_path_pattern_ok: "normalize_path_pattern raw = Inr p \<Longrightarrow> pattern_ok p"
  by (auto simp: normalize_path_pattern_def pattern_ok_def Let_def split: json.splits if_splits)

lemma rule_agent_ok: "rule_agent raw = Inr (Some a) \<Longrightarrow> agent_id a \<and> length a \<le> max_agent_len"
  by (auto simp: rule_agent_def Let_def split: json.splits if_splits)

lemma rule_price_ok: "rule_price raw = Inr (Some q) \<Longrightarrow> usdc_floor \<le> q"
  by (auto simp: rule_price_def split: json.splits if_splits)

lemma rule_multiplier_ok: "rule_multiplier raw = Inr (Some q) \<Longrightarrow> 0 < q"
  by (auto simp: rule_multiplier_def split: json.splits if_splits)

lemma normalize_rule_ok:
  assumes "normalize_rule raw seen = Inr r"
  shows "rule_ok r \<and> rule_key (agent r) (pattern r) \<notin> seen"
proof -
  obtain fs p a price mult where
    "raw = JObject fs" "normalize_path_pattern (json_field fs ''pattern'') = Inr p"
    "rule_agent (json_field fs ''agent'') = Inr a" "rule_key a p \<notin> seen"
    "rule_price (json_field fs ''priceUsdc'') = Inr price"
    "rule_multiplier (json_field fs ''citationMultiplier'') = Inr mult"
    "\<not> (price = None \<and> mult = None)"
    "r = \<lparr>pattern = p, priceUsdc = price, citationMultiplier = mult, agent = a\<rparr>"
    using assms by (auto simp: normalize_rule_def bind_sum_Inr_iff split: json.splits if_splits)
  then show ?thesis
    using normalize_path_pattern_ok rule_agent_ok rule_price_ok rule_multiplier_ok
    by (auto simp: rule_ok_def split: option.splits)
qed

lemma collect_rules_ok:
  assumes "collect_rules input seen out = Inr rs" "list_all rule_ok out"
    and "distinct (map (\<lambda>r. rule_key (agent r) (pattern r)) out)"
    and "(\<lambda>r. rule_key (agent r) (pattern r)) ` set out = seen"
  shows "list_all rule_ok rs \<and> distinct (map (\<lambda>r. rule_key (agent r) (pattern r)) rs) \<and>
    length rs = length out + length input"
  using assms
proof (induction input arbitrary: seen out)
  case Nil
  then show ?case by simp
next
  case (Cons raw rest)
  obtain r where r: "normalize_rule raw seen = Inr r"
    "collect_rules rest (insert (rule_key (agent r) (pattern r)) seen) (out @ [r]) = Inr rs"
    using Cons.prems(1) by (auto simp: bind_sum_Inr_iff)
  have "list_all rule_ok rs \<and> distinct (map (\<lambda>r. rule_key (agent r) (pattern r)) rs) \<and>
      length rs = length (out @ [r]) + length rest"
    by (rule Cons.IH [OF r(2)]) (use normalize_rule_ok [OF r(1)] Cons.prems in auto)
  then show ?case by simp
qed

lemma normalize_price_rules_ok:
  assumes "normalize_price_rules input = Inr rules"
  shows "list_all rule_ok rules" "distinct (map (\<lambda>r. rule_key (agent r) (pattern r)) rules)"
    "length rules = length input" "length rules \<le> max_price_rules" "sorted (map rule_order rules)"
proof -
  obtain out where out: "collect_rules input {} [] = Inr out" "rules = sort_key rule_order out"
    "length input \<le> max_price_rules"
    using assms by (auto simp: normalize_price_rules_def bind_sum_Inr_iff split: if_splits)
  have o: "list_all rule_ok out" "distinct (map (\<lambda>r. rule_key (agent r) (pattern r)) out)" "length out = length input"
    using collect_rules_ok [OF out(1)] by auto
  show "list_all rule_ok rules" using o(1) by (simp add: out(2) list_all_iff)
  have "mset (map (\<lambda>r. rule_key (agent r) (pattern r)) rules) = mset (map (\<lambda>r. rule_key (agent r) (pattern r)) out)"
    unfolding out(2) by (metis mset_map mset_sort)
  then show "distinct (map (\<lambda>r. rule_key (agent r) (pattern r)) rules)" using o(2) by (metis mset_eq_imp_distinct_iff)
  show "length rules = length input" "length rules \<le> max_price_rules" using o(3) out by simp_all
  show "sorted (map rule_order rules)" by (simp add: out(2))
qed

lemma rule_order_le: "rule_order r \<le> rule_order q \<longleftrightarrow> rule_rank q \<le> rule_rank r"
  by (auto simp: rule_order_def less_eq_prod_def)

section \<open>The scan picks the highest-ranked rule that governs\<close>

lemma scan_rules_Some:
  assumes "scan_rules rs ag t = Some r"
  shows "r \<in> set rs \<and> rule_governs ag t r \<and>
    (sorted (map rule_order rs) \<longrightarrow> (\<forall>q \<in> set rs. rule_governs ag t q \<longrightarrow> rule_rank q \<le> rule_rank r))"
  using assms
proof (induction rs)
  case Nil
  then show ?case by simp
next
  case (Cons x xs)
  then show ?case by (auto simp: rule_governs_def rule_order_le split: if_splits)
qed

lemma scan_rules_None: "scan_rules rs ag t = None \<longleftrightarrow> (\<forall>q \<in> set rs. \<not> rule_governs ag t q)"
  by (induction rs) (auto simp: rule_governs_def)


section \<open>Saving a stored list again\<close>

definition opt_json :: "('a \<Rightarrow> json) \<Rightarrow> 'a option \<Rightarrow> json" where
  "opt_json f v = (case v of None \<Rightarrow> JUndefined | Some x \<Rightarrow> f x)"

definition rule_json :: "price_rule \<Rightarrow> json" where
  "rule_json r = JObject [(''pattern'', JString (pattern r)), (''agent'', opt_json JString (agent r)),
     (''priceUsdc'', opt_json JNumber (priceUsdc r)),
     (''citationMultiplier'', opt_json JNumber (citationMultiplier r))]"

lemma printable_not_space: "CHR 0x21 \<le> c \<Longrightarrow> c \<le> CHR 0x7E \<Longrightarrow> \<not> js_is_space c"
  by (auto simp: js_is_space_def less_eq_char_def)

lemma agent_char_props: "agent_char c \<Longrightarrow> \<not> js_is_space c" "agent_char c \<Longrightarrow> js_lower_char c = c"
  by (auto simp: agent_char_def js_is_space_def js_lower_char_def less_eq_char_def)

lemma trim_all: "list_all (\<lambda>c. \<not> js_is_space c) s \<Longrightarrow> js_trim s = s"
  by (rule js_trim_id) (cases s, auto simp: list_all_iff)

lemma trim_printable: "printable_path p \<Longrightarrow> js_trim p = p"
  by (rule trim_all) (auto simp: printable_path_def list_all_iff printable_not_space)

lemma agent_id_stable: "agent_id a \<Longrightarrow> js_trim a = a" "agent_id a \<Longrightarrow> js_lower a = a"
proof -
  assume a: "agent_id a"
  then show "js_trim a = a" by (intro trim_all) (auto simp: agent_id_def list_all_iff agent_char_props)
  show "js_lower a = a" using a by (auto simp: agent_id_def list_all_iff js_lower_def agent_char_props intro: map_idI)
qed

lemma normalize_rule_json:
  assumes "rule_ok r" "rule_key (agent r) (pattern r) \<notin> seen"
  shows "normalize_rule (rule_json r) seen = Inr r"
proof -
  have p: "pattern_ok (pattern r)" using assms(1) by (simp add: rule_ok_def)
  then have "pattern r \<noteq> []" by (auto simp: pattern_ok_def)
  then have np: "normalize_path_pattern (JString (pattern r)) = Inr (pattern r)"
    using p by (simp add: normalize_path_pattern_def pattern_ok_def trim_printable Let_def)
  have ag: "rule_agent (opt_json JString (agent r)) = Inr (agent r)"
  proof (cases "agent r")
    case (Some a)
    then have "agent_id a" "length a \<le> max_agent_len" using assms(1) by (simp_all add: rule_ok_def)
    moreover from this(1) have "a \<noteq> []" by (simp add: agent_id_def)
    ultimately show ?thesis using Some by (simp add: rule_agent_def opt_json_def agent_id_stable)
  qed (simp add: rule_agent_def opt_json_def)
  have pr: "rule_price (opt_json JNumber (priceUsdc r)) = Inr (priceUsdc r)"
    using assms(1) by (auto simp: rule_ok_def rule_price_def opt_json_def split: option.splits)
  have mu: "rule_multiplier (opt_json JNumber (citationMultiplier r)) = Inr (citationMultiplier r)"
    using assms(1) by (auto simp: rule_ok_def rule_multiplier_def opt_json_def split: option.splits)
  have "\<not> (priceUsdc r = None \<and> citationMultiplier r = None)" using assms(1) by (simp add: rule_ok_def)
  then show ?thesis
    using np ag pr mu assms(2) by (simp add: normalize_rule_def rule_json_def json_field_def)
qed

lemma collect_rules_json:
  assumes "list_all rule_ok rs" "distinct (map (\<lambda>r. rule_key (agent r) (pattern r)) rs)"
    and "\<forall>r \<in> set rs. rule_key (agent r) (pattern r) \<notin> seen"
  shows "collect_rules (map rule_json rs) seen out = Inr (out @ rs)"
  using assms
proof (induction rs arbitrary: seen out)
  case Nil
  then show ?case by simp
next
  case (Cons r rs)
  then have "normalize_rule (rule_json r) seen = Inr r" by (intro normalize_rule_json) auto
  moreover have "rule_key (agent q) (pattern q) \<noteq> rule_key (agent r) (pattern r)" if "q \<in> set rs" for q
  proof
    assume e: "rule_key (agent q) (pattern q) = rule_key (agent r) (pattern r)"
    have "rule_key (agent q) (pattern q) \<in> set (map (\<lambda>r. rule_key (agent r) (pattern r)) rs)"
      using that by auto
    with e Cons.prems(2) show False by simp
  qed
  moreover have "collect_rules (map rule_json rs) (insert (rule_key (agent r) (pattern r)) seen) (out @ [r]) = Inr ((out @ [r]) @ rs)"
    by (rule Cons.IH) (use Cons.prems calculation(2) in auto)
  ultimately show ?case by simp
qed

section \<open>Properties\<close>

definition sample_rules :: "json list" where
  "sample_rules =
     [JObject [(''pattern'', JString ''/papers/*''), (''priceUsdc'', JNumber (1 / 20))],
      JObject [(''pattern'', JString ''/papers/preview''), (''priceUsdc'', JNumber (1 / 100))],
      JObject [(''pattern'', JString ''/*''), (''agent'', JString ''ChatGPT.com''), (''priceUsdc'', JNumber (1 / 50))]]"

definition sample_stored :: "price_rule list" where
  "sample_stored =
     [\<lparr>pattern = ''/*'', priceUsdc = Some (1 / 50), citationMultiplier = None, agent = Some ''chatgpt.com''\<rparr>,
      \<lparr>pattern = ''/papers/preview'', priceUsdc = Some (1 / 100), citationMultiplier = None, agent = None\<rparr>,
      \<lparr>pattern = ''/papers/*'', priceUsdc = Some (1 / 20), citationMultiplier = None, agent = None\<rparr>]"

lemma sample_rules_stored: "normalize_price_rules sample_rules = Inr sample_stored"
  by code_simp

text \<open>What the write path stores. An accepted list keeps every entry, at most fifty of them; every
  rule has an absolute printable pattern, a price at or above the settlement floor, a positive
  multiplier, and sets at least one of the two; no (agent, pattern) pair occurs twice; and the
  stored order is the order of precedence.\<close>

theorem stored_rules_valid:
  assumes "normalize_price_rules input = Inr rules"
  shows "length rules = length input \<and> length rules \<le> 50 \<and> list_all rule_ok rules \<and>
    distinct (map (\<lambda>r. rule_key (agent r) (pattern r)) rules) \<and>
    sorted_wrt (\<lambda>q r. rule_rank r \<le> rule_rank q) rules"
proof -
  have "sorted_wrt (\<lambda>q r. rule_order q \<le> rule_order r) rules"
    using normalize_price_rules_ok(5) [OF assms] by (simp add: sorted_map)
  then show ?thesis
    using normalize_price_rules_ok(1-4) [OF assms] by (simp add: rule_order_le max_price_rules_def)
qed

theorem stored_rules_valid_witness:
  "list_all rule_ok sample_stored \<and> length sample_stored = 3"
  using stored_rules_valid [OF sample_rules_stored] by (simp add: sample_rules_def)

text \<open>Saving a stored list again stores it unchanged, whatever was typed the first time.\<close>

theorem stored_rules_stable:
  assumes "normalize_price_rules input = Inr rules"
  shows "normalize_price_rules (map rule_json rules) = Inr rules"
proof -
  note ok = normalize_price_rules_ok [OF assms]
  have "collect_rules (map rule_json rules) {} [] = Inr ([] @ rules)"
    by (rule collect_rules_json) (use ok in auto)
  moreover have "sort_key rule_order rules = rules" by (rule sort_key_id_if_sorted [OF ok(5)])
  ultimately show ?thesis using ok(4) by (simp add: normalize_price_rules_def)
qed

theorem stored_rules_stable_witness:
  "normalize_price_rules (map rule_json sample_stored) = Inr sample_stored"
  by (rule stored_rules_stable [OF sample_rules_stored])

text \<open>The read path picks from a stored list the highest-ranked rule that governs the target: it
  matches, it is visible to the caller, and no other rule that matches and is visible has a higher
  rank (an agent rule above every other, then the more specific pattern); none is picked exactly
  when none governs. A caller without a verified identity is never priced by an agent rule.\<close>

theorem resolve_highest_rank:
  assumes "normalize_price_rules input = Inr rules"
  shows "(case resolve_price_rule (Some rules) (Some t) v of
      None \<Rightarrow> \<forall>q \<in> set rules. \<not> rule_governs (map_option js_lower v) t q
    | Some r \<Rightarrow> r \<in> set rules \<and> rule_governs (map_option js_lower v) t r \<and>
        (\<forall>q \<in> set rules. rule_governs (map_option js_lower v) t q \<longrightarrow> rule_rank q \<le> rule_rank r) \<and>
        (v = None \<longrightarrow> agent r = None))"
proof (cases "resolve_price_rule (Some rules) (Some t) v")
  case None
  then have "scan_rules rules (map_option js_lower v) t = None" by (simp add: resolve_price_rule_def)
  with None show ?thesis by (simp add: scan_rules_None)
next
  case (Some r)
  then have "scan_rules rules (map_option js_lower v) t = Some r" by (simp add: resolve_price_rule_def)
  from scan_rules_Some [OF this] normalize_price_rules_ok(5) [OF assms] Some show ?thesis
    by (auto simp: rule_governs_def)
qed

theorem resolve_highest_rank_witness:
  "map_option pattern (resolve_price_rule (Some sample_stored) (Some ''/papers/preview'') None) = Some ''/papers/preview'' \<and>
   rule_governs None ''/papers/preview'' (sample_stored ! 2) \<and> rule_rank (sample_stored ! 2) \<le> rule_rank (sample_stored ! 1)"
proof -
  have r: "resolve_price_rule (Some sample_stored) (Some ''/papers/preview'') None = Some (sample_stored ! 1)"
    by code_simp
  moreover have "pattern (sample_stored ! 1) = ''/papers/preview''" "sample_stored ! 2 \<in> set sample_stored"
    by (simp_all add: sample_stored_def)
  moreover have "rule_governs None ''/papers/preview'' (sample_stored ! 2)" by code_simp
  ultimately show ?thesis
    using resolve_highest_rank [where t = "''/papers/preview''" and v = None, OF sample_rules_stored] by simp
qed

text \<open>What a star costs. Two rules, a dearer one for everything and a cheaper one for PDF files:
  the same article is charged the PDF price once the agent appends a query that ends like the
  pattern.\<close>

theorem query_selects_cheaper_rule:
  "\<exists>rules cheap dear. normalize_price_rules
      [JObject [(''pattern'', JString ''/*''), (''priceUsdc'', JNumber 1)],
       JObject [(''pattern'', JString ''/*.pdf$''), (''priceUsdc'', JNumber (1 / 100))]] = Inr rules \<and>
    resolve_price_rule (Some rules) (Some ''/article'') None = Some dear \<and>
    resolve_price_rule (Some rules) (Some ''/article?.pdf'') None = Some cheap \<and>
    priceUsdc dear = Some 1 \<and> priceUsdc cheap = Some (1 / 100)"
proof -
  let ?d = "\<lparr>pattern = ''/*'', priceUsdc = Some 1, citationMultiplier = None, agent = None\<rparr>"
  let ?c = "\<lparr>pattern = ''/*.pdf$'', priceUsdc = Some (1 / 100), citationMultiplier = None, agent = None\<rparr>"
  have "normalize_price_rules
      [JObject [(''pattern'', JString ''/*''), (''priceUsdc'', JNumber 1)],
       JObject [(''pattern'', JString ''/*.pdf$''), (''priceUsdc'', JNumber (1 / 100))]] = Inr [?c, ?d]"
    by code_simp
  moreover have "resolve_price_rule (Some [?c, ?d]) (Some ''/article'') None = Some ?d" by code_simp
  moreover have "resolve_price_rule (Some [?c, ?d]) (Some ''/article?.pdf'') None = Some ?c" by code_simp
  ultimately show ?thesis by (metis price_rule.select_convs(2))
qed

end
