(* ===== verification/Networks.thy ===== *)
theory Networks
  imports Nonce
begin

text \<open>
  The settlement networks, \<open>packages/shared/src/networks.ts\<close>, and what a settlement reference is,
  \<open>settlement-ref.ts\<close>. What the code reads of the configuration (the active network, the relayer keys,
  the Arc endpoint) is an argument.
\<close>

section \<open>The registry\<close>

datatype network_name = Arc | Base | Ethereum | Arbitrum | Optimism | Polygon | Avalanche | Unichain | Sei | Sonic
  | HyperEvm | WorldChain | ArcTestnet | BaseSepolia

record settlement_network =
  sn_name :: network_name
  sn_network :: string
  sn_chain_id :: nat
  sn_usdc :: string
  sn_usdc_name :: "string option"
  sn_usdc_version :: "string option"
  sn_gateway_wallet :: string
  sn_gateway_api :: string
  sn_rpc_url :: string
  sn_testnet :: bool
  sn_explorer :: "string option"
  sn_withdraw_fee :: "nat option"
  sn_memo :: "string option"
  sn_modular :: "string option"

definition testnet_facilitator :: string where
  "testnet_facilitator = ''https://gateway-api-testnet.circle.com''"

definition mainnet_facilitator :: string where
  "mainnet_facilitator = ''https://gateway-api.circle.com''"

definition networks :: "settlement_network list" where
 "networks = [
  \<lparr>sn_name = ArcTestnet, sn_network = ''eip155:5042002'', sn_chain_id = 5042002,
    sn_usdc = ''0x3600000000000000000000000000000000000000'', sn_usdc_name = Some ''USDC'', sn_usdc_version = Some ''2'',
    sn_gateway_wallet = ''0x0077777d7EBA4688BDeF3E311b846F25870A19B9'', sn_gateway_api = testnet_facilitator,
    sn_rpc_url = ''https://rpc.testnet.arc.io'', sn_testnet = True, sn_explorer = Some ''https://testnet.arcscan.app'',
    sn_withdraw_fee = None, sn_memo = Some ''0x5294E9927c3306DcBaDb03fe70b92e01cCede505'', sn_modular = Some ''arcTestnet''\<rparr>,
  \<lparr>sn_name = BaseSepolia, sn_network = ''eip155:84532'', sn_chain_id = 84532,
    sn_usdc = ''0x036CbD53842c5426634e7929541eC2318f3dCF7e'', sn_usdc_name = Some ''USDC'', sn_usdc_version = Some ''2'',
    sn_gateway_wallet = ''0x0077777d7EBA4688BDeF3E311b846F25870A19B9'', sn_gateway_api = testnet_facilitator,
    sn_rpc_url = ''https://sepolia.base.org'', sn_testnet = True, sn_explorer = Some ''https://sepolia.basescan.org'',
    sn_withdraw_fee = None, sn_memo = None, sn_modular = Some ''baseSepolia''\<rparr>,
  \<lparr>sn_name = Base, sn_network = ''eip155:8453'', sn_chain_id = 8453,
    sn_usdc = ''0x833589fCD6eDb6E08f4c7C32D4f71b54bdA02913'', sn_usdc_name = None, sn_usdc_version = None,
    sn_gateway_wallet = ''0x77777777Dcc4d5A8B6E418Fd04D8997ef11000eE'', sn_gateway_api = mainnet_facilitator,
    sn_rpc_url = ''https://mainnet.base.org'', sn_testnet = False, sn_explorer = Some ''https://basescan.org'',
    sn_withdraw_fee = Some 10000, sn_memo = None, sn_modular = Some ''base''\<rparr>,
  \<lparr>sn_name = Ethereum, sn_network = ''eip155:1'', sn_chain_id = 1,
    sn_usdc = ''0xA0b86991c6218b36c1d19D4a2e9Eb0cE3606eB48'', sn_usdc_name = None, sn_usdc_version = None,
    sn_gateway_wallet = ''0x77777777Dcc4d5A8B6E418Fd04D8997ef11000eE'', sn_gateway_api = mainnet_facilitator,
    sn_rpc_url = ''https://ethereum-rpc.publicnode.com'', sn_testnet = False, sn_explorer = Some ''https://etherscan.io'',
    sn_withdraw_fee = Some 1000000, sn_memo = None, sn_modular = Some ''ethereum''\<rparr>,
  \<lparr>sn_name = Arbitrum, sn_network = ''eip155:42161'', sn_chain_id = 42161,
    sn_usdc = ''0xaf88d065e77c8cC2239327C5EDb3A432268e5831'', sn_usdc_name = None, sn_usdc_version = None,
    sn_gateway_wallet = ''0x77777777Dcc4d5A8B6E418Fd04D8997ef11000eE'', sn_gateway_api = mainnet_facilitator,
    sn_rpc_url = ''https://arb1.arbitrum.io/rpc'', sn_testnet = False, sn_explorer = None,
    sn_withdraw_fee = Some 10000, sn_memo = None, sn_modular = Some ''arbitrum''\<rparr>,
  \<lparr>sn_name = Optimism, sn_network = ''eip155:10'', sn_chain_id = 10,
    sn_usdc = ''0x0b2C639c533813f4Aa9D7837CAf62653d097Ff85'', sn_usdc_name = None, sn_usdc_version = None,
    sn_gateway_wallet = ''0x77777777Dcc4d5A8B6E418Fd04D8997ef11000eE'', sn_gateway_api = mainnet_facilitator,
    sn_rpc_url = ''https://mainnet.optimism.io'', sn_testnet = False, sn_explorer = None,
    sn_withdraw_fee = Some 1500, sn_memo = None, sn_modular = Some ''optimism''\<rparr>,
  \<lparr>sn_name = Polygon, sn_network = ''eip155:137'', sn_chain_id = 137,
    sn_usdc = ''0x3c499c542cEF5E3811e1192ce70d8cC03d5c3359'', sn_usdc_name = None, sn_usdc_version = None,
    sn_gateway_wallet = ''0x77777777Dcc4d5A8B6E418Fd04D8997ef11000eE'', sn_gateway_api = mainnet_facilitator,
    sn_rpc_url = ''https://poly.api.pocket.network'', sn_testnet = False, sn_explorer = None,
    sn_withdraw_fee = Some 1500, sn_memo = None, sn_modular = Some ''polygon''\<rparr>,
  \<lparr>sn_name = Avalanche, sn_network = ''eip155:43114'', sn_chain_id = 43114,
    sn_usdc = ''0xB97EF9Ef8734C71904D8002F8b6Bc66Dd9c48a6E'', sn_usdc_name = None, sn_usdc_version = None,
    sn_gateway_wallet = ''0x77777777Dcc4d5A8B6E418Fd04D8997ef11000eE'', sn_gateway_api = mainnet_facilitator,
    sn_rpc_url = ''https://api.avax.network/ext/bc/C/rpc'', sn_testnet = False, sn_explorer = None,
    sn_withdraw_fee = Some 20000, sn_memo = None, sn_modular = Some ''avalanche''\<rparr>,
  \<lparr>sn_name = Unichain, sn_network = ''eip155:130'', sn_chain_id = 130,
    sn_usdc = ''0x078D782b760474a361dDA0AF3839290b0EF57AD6'', sn_usdc_name = None, sn_usdc_version = None,
    sn_gateway_wallet = ''0x77777777Dcc4d5A8B6E418Fd04D8997ef11000eE'', sn_gateway_api = mainnet_facilitator,
    sn_rpc_url = ''https://mainnet.unichain.org/'', sn_testnet = False, sn_explorer = None,
    sn_withdraw_fee = Some 1000, sn_memo = None, sn_modular = Some ''unichain''\<rparr>,
  \<lparr>sn_name = Sei, sn_network = ''eip155:1329'', sn_chain_id = 1329,
    sn_usdc = ''0xe15fC38F6D8c56aF07bbCBe3BAf5708A2Bf42392'', sn_usdc_name = None, sn_usdc_version = None,
    sn_gateway_wallet = ''0x77777777Dcc4d5A8B6E418Fd04D8997ef11000eE'', sn_gateway_api = mainnet_facilitator,
    sn_rpc_url = ''https://sei.api.pocket.network'', sn_testnet = False, sn_explorer = None,
    sn_withdraw_fee = Some 1000, sn_memo = None, sn_modular = None\<rparr>,
  \<lparr>sn_name = Sonic, sn_network = ''eip155:146'', sn_chain_id = 146,
    sn_usdc = ''0x29219dd400f2Bf60E5a23d13Be72B486D4038894'', sn_usdc_name = None, sn_usdc_version = None,
    sn_gateway_wallet = ''0x77777777Dcc4d5A8B6E418Fd04D8997ef11000eE'', sn_gateway_api = mainnet_facilitator,
    sn_rpc_url = ''https://rpc.soniclabs.com'', sn_testnet = False, sn_explorer = None,
    sn_withdraw_fee = Some 10000, sn_memo = None, sn_modular = None\<rparr>,
  \<lparr>sn_name = HyperEvm, sn_network = ''eip155:999'', sn_chain_id = 999,
    sn_usdc = ''0xb88339CB7199b77E23DB6E890353E22632Ba630f'', sn_usdc_name = None, sn_usdc_version = None,
    sn_gateway_wallet = ''0x77777777Dcc4d5A8B6E418Fd04D8997ef11000eE'', sn_gateway_api = mainnet_facilitator,
    sn_rpc_url = ''https://rpc.hyperliquid.xyz/evm'', sn_testnet = False, sn_explorer = None,
    sn_withdraw_fee = Some 50000, sn_memo = None, sn_modular = None\<rparr>,
  \<lparr>sn_name = WorldChain, sn_network = ''eip155:480'', sn_chain_id = 480,
    sn_usdc = ''0x79A02482A880bCE3F13e09Da970dC34db4CD24d1'', sn_usdc_name = None, sn_usdc_version = None,
    sn_gateway_wallet = ''0x77777777Dcc4d5A8B6E418Fd04D8997ef11000eE'', sn_gateway_api = mainnet_facilitator,
    sn_rpc_url = ''https://worldchain-mainnet.g.alchemy.com/public'', sn_testnet = False, sn_explorer = None,
    sn_withdraw_fee = Some 10000, sn_memo = None, sn_modular = None\<rparr>,
  \<lparr>sn_name = Arc, sn_network = ''eip155:5042'', sn_chain_id = 5042,
    sn_usdc = ''0x3600000000000000000000000000000000000000'', sn_usdc_name = Some ''USDC'', sn_usdc_version = Some ''2'',
    sn_gateway_wallet = ''0x77777777Dcc4d5A8B6E418Fd04D8997ef11000eE'', sn_gateway_api = mainnet_facilitator,
    sn_rpc_url = ''https://rpc.mainnet.arc.io'', sn_testnet = False, sn_explorer = Some ''https://explorer.arc.io'',
    sn_withdraw_fee = Some 3500, sn_memo = None, sn_modular = Some ''arc''\<rparr>]"

definition supports_memo :: "settlement_network \<Rightarrow> bool" where
  "supports_memo net \<longleftrightarrow> sn_memo net \<noteq> None"

definition supports_modular_wallet :: "settlement_network \<Rightarrow> bool" where
  "supports_modular_wallet net \<longleftrightarrow> sn_modular net \<noteq> None"

definition get_network :: "network_name \<Rightarrow> settlement_network" where
  "get_network n = hd (filter (\<lambda>s. sn_name s = n) networks)"

definition network_by_caip2 :: "string \<Rightarrow> settlement_network option" where
  "network_by_caip2 c = find (\<lambda>n. sn_network n = c) networks"

definition network_by_chain_id :: "nat \<Rightarrow> settlement_network option" where
  "network_by_chain_id i = find (\<lambda>n. sn_chain_id n = i) networks"

text \<open>\<open>networkForEvent\<close>: the row's chain, then the publisher's network, then the active one.\<close>

definition network_for_event :: "nat option \<Rightarrow> network_name option \<Rightarrow> network_name \<Rightarrow> settlement_network" where
  "network_for_event chainId settlementNetwork active =
     (case Option.bind chainId network_by_chain_id of
        Some n \<Rightarrow> n
      | None \<Rightarrow> (case settlementNetwork of Some m \<Rightarrow> get_network m | None \<Rightarrow> get_network active))"

definition relayer_key_for :: "string option \<Rightarrow> string option \<Rightarrow> settlement_network \<Rightarrow> string option" where
  "relayer_key_for testnetKey mainnetKey net = (if sn_testnet net then testnetKey else mainnetKey)"

definition settlement_rpc_url :: "string option \<Rightarrow> settlement_network \<Rightarrow> string" where
  "settlement_rpc_url arcRpc net = (case (sn_name net, arcRpc) of (Arc, Some (c # cs)) \<Rightarrow> c # cs | _ \<Rightarrow> sn_rpc_url net)"

record gateway_extra =
  ge_name :: string
  ge_version :: string
  ge_verifying_contract :: string

definition gateway_extra_of :: "settlement_network \<Rightarrow> gateway_extra" where
  "gateway_extra_of net = \<lparr>ge_name = ''GatewayWalletBatched'', ge_version = ''1'', ge_verifying_contract = sn_gateway_wallet net\<rparr>"

section \<open>Settlement references\<close>

definition is_tx_hash :: "string \<Rightarrow> bool" where
  "is_tx_hash r \<longleftrightarrow> length r = 66 \<and> prefix ''0x'' r \<and> list_all is_hex_char (drop 2 r)"

datatype settlement_ref_kind = TxHash | TransferId | MockRef | NoRef

definition settlement_ref_kind_of :: "string option \<Rightarrow> settlement_ref_kind" where
  "settlement_ref_kind_of r = (case r of None \<Rightarrow> NoRef | Some s \<Rightarrow>
     if s = [] then NoRef else if is_tx_hash s then TxHash else if prefix ''mock-'' s then MockRef else TransferId)"

definition explorer_tx_url :: "settlement_network \<Rightarrow> string option \<Rightarrow> string option" where
  "explorer_tx_url net r = (case (sn_explorer net, r) of
     (Some (e # es), Some s) \<Rightarrow> if s = [] \<or> \<not> is_tx_hash s then None else Some ((e # es) @ ''/tx/'' @ s)
   | _ \<Rightarrow> None)"

section \<open>Properties\<close>

lemma find_by_key:
  assumes "distinct (map f xs)" "x \<in> set xs"
  shows "find (\<lambda>y. f y = f x) xs = Some x" "filter (\<lambda>y. f y = f x) xs = [x]"
proof -
  show "filter (\<lambda>y. f y = f x) xs = [x]" using assms
    by (induction xs) (auto simp: filter_empty_conv image_iff)
  then show "find (\<lambda>y. f y = f x) xs = Some x" using assms by (induction xs) (auto split: if_splits)
qed

lemma registry_names: "map sn_name networks = [ArcTestnet, BaseSepolia, Base, Ethereum, Arbitrum, Optimism, Polygon, Avalanche,
    Unichain, Sei, Sonic, HyperEvm, WorldChain, Arc]"
  by (simp add: networks_def)

lemma registry_chain_ids: "map sn_chain_id networks = [5042002, 84532, 8453, 1, 42161, 10, 137, 43114, 130, 1329, 146, 999, 480, 5042]"
  by (simp add: networks_def)

lemma digit_chars: "digit_char 0 = CHR ''0''" "digit_char 1 = CHR ''1''" "digit_char 2 = CHR ''2''" "digit_char 3 = CHR ''3''"
  "digit_char 4 = CHR ''4''" "digit_char 5 = CHR ''5''" "digit_char 6 = CHR ''6''" "digit_char 7 = CHR ''7''"
  "digit_char 8 = CHR ''8''" "digit_char 9 = CHR ''9''"
  by code_simp+

lemma registry_rows:
  "list_all (\<lambda>n. sn_network n = ''eip155:'' @ nat_string 10 (sn_chain_id n)) networks"
  "list_all (\<lambda>n. sn_testnet n \<longleftrightarrow> sn_gateway_api n = testnet_facilitator) networks"
  "list_all (\<lambda>n. sn_testnet n \<longleftrightarrow> sn_gateway_wallet n = ''0x0077777d7EBA4688BDeF3E311b846F25870A19B9'') networks"
  by (simp_all add: networks_def nat_string_unfold digit_chars digit_chars(2) [simplified] testnet_facilitator_def mainnet_facilitator_def)

lemma registry_distinct: "distinct (map sn_name networks)" "distinct (map sn_chain_id networks)" "distinct (map sn_network networks)"
proof -
  show "distinct (map sn_name networks)" unfolding registry_names by simp
  show d: "distinct (map sn_chain_id networks)" unfolding registry_chain_ids by simp
  have m: "map sn_network networks = map (\<lambda>i. ''eip155:'' @ nat_string 10 i) (map sn_chain_id networks)"
    using registry_rows(1) by (simp add: list_all_iff)
  have "inj (\<lambda>i. ''eip155:'' @ nat_string 10 i)"
    by (rule inj_onI) (metis append_same_eq same_append_eq nat_string_digits(3))
  then show "distinct (map sn_network networks)" unfolding m distinct_map [of _ "map sn_chain_id networks"] using d inj_on_subset by blast
qed

lemma get_network_in: "get_network n \<in> set networks \<and> sn_name (get_network n) = n"
proof -
  have "n \<in> set (map sn_name networks)" unfolding registry_names by (cases n) simp_all
  then obtain x where x: "x \<in> set networks" "sn_name x = n" by auto
  with find_by_key(2) [OF registry_distinct(1) x(1)] show ?thesis by (simp add: get_network_def)
qed

text \<open>Every network of the registry is found again by each of its two ids and by its name, its x402
  id is \<open>eip155:\<close> and its chain id, and the facilitator and wallet it settles with are Circle's test
  deployment exactly on the test networks, so no mainnet read is quoted against test contracts.
  A recorded chain id names the event's network whatever the publisher's setting is now.\<close>

theorem networks_resolve:
  "network_by_caip2 (sn_network (get_network n)) = Some (get_network n) \<and>
   network_by_chain_id (sn_chain_id (get_network n)) = Some (get_network n) \<and>
   sn_name (get_network n) = n \<and>
   sn_network (get_network n) = ''eip155:'' @ nat_string 10 (sn_chain_id (get_network n)) \<and>
   (sn_testnet (get_network n) \<longleftrightarrow> sn_gateway_api (get_network n) = testnet_facilitator) \<and>
   (sn_testnet (get_network n) \<longleftrightarrow> sn_gateway_wallet (get_network n) = ''0x0077777d7EBA4688BDeF3E311b846F25870A19B9'') \<and>
   network_for_event (Some (sn_chain_id (get_network n))) p a = get_network n"
proof -
  note g = conjunct1 [OF get_network_in [of n]]
  have i: "network_by_chain_id (sn_chain_id (get_network n)) = Some (get_network n)"
    unfolding network_by_chain_id_def by (rule find_by_key(1) [OF registry_distinct(2) g])
  have "network_by_caip2 (sn_network (get_network n)) = Some (get_network n)"
    unfolding network_by_caip2_def by (rule find_by_key(1) [OF registry_distinct(3) g])
  then show ?thesis using registry_rows g i get_network_in [of n] by (simp add: list_all_iff network_for_event_def)
qed

end
