(* ===== verification/CrawlerPrice.thy ===== *)
theory CrawlerPrice
  imports Nonce Attribution
begin

text \<open>
  The pay-per-crawl vocabulary, \<open>packages/enforce/src/crawlerPrice.ts\<close>: how a price is written and
  read, and what a set of settlement legs adds up to. A \<open>bigint\<close> is an \<open>int\<close>; \<open>None\<close> is an exception,
  except in \<open>parse_crawler_price\<close>, where it is the \<open>null\<close> of a header that says nothing usable.
\<close>

section \<open>Model\<close>

definition micro_per_usd :: int where "micro_per_usd = 1000000"

definition currency :: string where "currency = ''USD''"

definition pad_start :: "nat \<Rightarrow> string \<Rightarrow> string" where
  "pad_start n s = replicate (n - length s) CHR ''0'' @ s"

definition pad_end :: "nat \<Rightarrow> string \<Rightarrow> string" where
  "pad_end n s = s @ replicate (n - length s) CHR ''0''"

definition trim_zeros :: "string \<Rightarrow> string" where
  "trim_zeros s = rev (dropWhile (\<lambda>c. c = CHR ''0'') (rev s))"

definition to_micro :: "string \<Rightarrow> int option" where
  "to_micro v = (if all_digits (js_trim v) then Some (int (dec_value (js_trim v))) else None)"

definition format_crawler_price :: "int \<Rightarrow> string option" where
  "format_crawler_price amount =
     (if amount < 0 then None
      else (let whole = amount div micro_per_usd; fr = amount mod micro_per_usd;
                fracStr = trim_zeros (pad_start 6 (nat_string 10 (nat fr)));
                fracStr = (if length fracStr < 2 then pad_end 2 fracStr else fracStr)
            in Some (currency @ '' '' @ nat_string 10 (nat whole) @ ''.'' @ fracStr)))"

text \<open>The groups of the header's expression: the currency, the whole part and the fraction.\<close>

definition ascii_letter :: "char \<Rightarrow> bool" where
  "ascii_letter c \<longleftrightarrow> CHR ''A'' \<le> c \<and> c \<le> CHR ''Z'' \<or> CHR ''a'' \<le> c \<and> c \<le> CHR ''z''"

definition price_groups :: "string \<Rightarrow> (string \<times> string \<times> string) option" where
  "price_groups value =
     (let s = dropWhile js_is_space value; cur = take 3 s; r1 = drop 3 s;
          r2 = dropWhile js_is_space r1; whole = takeWhile is_digit r2; r3 = dropWhile is_digit r2
      in if length cur \<noteq> 3 \<or> \<not> list_all ascii_letter cur \<or> r1 = r2 \<or> whole = [] then None
         else if r3 \<noteq> [] \<and> hd r3 = CHR ''.'' then
           (let fr = takeWhile is_digit (tl r3); r4 = dropWhile is_digit (tl r3)
            in if fr = [] \<or> dropWhile js_is_space r4 \<noteq> [] then None else Some (cur, whole, fr))
         else if dropWhile js_is_space r3 \<noteq> [] then None else Some (cur, whole, []))"

definition js_upper_char :: "char \<Rightarrow> char" where
  "js_upper_char c = (if CHR ''a'' \<le> c \<and> c \<le> CHR ''z'' then char_of (of_char c - 32 :: nat) else c)"

definition parse_crawler_price :: "string option \<Rightarrow> int option" where
  "parse_crawler_price value = (case value of
     None \<Rightarrow> None
   | Some v \<Rightarrow> if v = [] then None else (case price_groups v of
       None \<Rightarrow> None
     | Some (cur, whole, fr) \<Rightarrow>
         if map js_upper_char cur \<noteq> currency then None
         else if length fr > 6 then None
         else Some (int (dec_value whole) * micro_per_usd + int (dec_value (pad_end 6 fr)))))"

definition declared_crawler_budget :: "string option \<Rightarrow> string option \<Rightarrow> int option" where
  "declared_crawler_budget maxPrice exactPrice =
     (case parse_crawler_price maxPrice of Some p \<Rightarrow> Some p | None \<Rightarrow> parse_crawler_price exactPrice)"

datatype budget_verdict = Within | Over

definition crawler_budget_verdict :: "int option \<Rightarrow> int \<Rightarrow> budget_verdict option" where
  "crawler_budget_verdict declared askMicro = map_option (\<lambda>d. if d \<ge> askMicro then Within else Over) declared"

text \<open>The amounts of the legs, added up; one that is not digits throws.\<close>

fun total_micro :: "string list \<Rightarrow> int option" where
  "total_micro [] = Some 0"
| "total_micro (a # as) = (case to_micro a of None \<Rightarrow> None | Some m \<Rightarrow> map_option (\<lambda>t. m + t) (total_micro as))"

definition ask_micro_of :: "string list \<Rightarrow> rat \<Rightarrow> string list \<Rightarrow> int option" where
  "ask_micro_of legs price extraLegs =
     (if legs \<noteq> [] then total_micro legs
      else map_option (\<lambda>fees. js_round (price * micro_unit) + fees) (total_micro extraLegs))"

definition settled_charged_micro :: "string list \<Rightarrow> string list \<Rightarrow> int option" where
  "settled_charged_micro legs forgone = (case (total_micro forgone, total_micro legs) of
     (Some f, Some t) \<Rightarrow> Some (if t - f > 0 then t - f else 0)
   | _ \<Rightarrow> None)"

section \<open>Lemmas\<close>

lemma trim_zeros_replicate: "\<exists>k. s = trim_zeros s @ replicate k CHR ''0''"
proof -
  have "rev s = takeWhile (\<lambda>c. c = CHR ''0'') (rev s) @ rev (trim_zeros s)" by (simp add: trim_zeros_def)
  moreover have "takeWhile (\<lambda>c. c = CHR ''0'') (rev s) = replicate (length (takeWhile (\<lambda>c. c = CHR ''0'') (rev s))) CHR ''0''"
    by (rule replicate_length_same [symmetric]) (auto dest: set_takeWhileD)
  ultimately have "rev s = replicate (length (takeWhile (\<lambda>c. c = CHR ''0'') (rev s))) CHR ''0'' @ rev (trim_zeros s)" by metis
  then have "s = trim_zeros s @ replicate (length (takeWhile (\<lambda>c. c = CHR ''0'') (rev s))) CHR ''0''"
    by (metis rev_append rev_replicate rev_rev_ident)
  then show ?thesis by blast
qed

lemma pad_end_trim: "length s = n \<Longrightarrow> m \<le> n \<Longrightarrow> pad_end n (pad_end m (trim_zeros s)) = s"
proof -
  assume n: "length s = n" "m \<le> n"
  obtain k where k: "s = trim_zeros s @ replicate k CHR ''0''" using trim_zeros_replicate by blast
  then have "k = n - length (trim_zeros s)" using n by (metis add_diff_cancel_left' length_append length_replicate)
  moreover have "length (trim_zeros s) \<le> n" using k n by (metis le_add1 length_append)
  ultimately show ?thesis using k n(2) by (simp add: pad_end_def flip: replicate_add)
qed

lemma dec_value_pad: "dec_value (replicate k CHR ''0'' @ s) = dec_value s"
  by (induction k) (simp_all add: dec_value_zero)

lemma dropWhile_plain: "s \<noteq> [] \<Longrightarrow> \<not> P (hd s) \<Longrightarrow> dropWhile P s = s"
  by (cases s) auto

lemma takeWhile_digits:
  assumes "list_all is_digit a" "b = [] \<or> \<not> is_digit (hd b)"
  shows "takeWhile is_digit (a @ b) = a \<and> dropWhile is_digit (a @ b) = b"
  using assms by (cases b) (auto simp: list_all_iff takeWhile_append dropWhile_append)

lemma trim_zeros_digits: "list_all is_digit s \<Longrightarrow> list_all is_digit (trim_zeros s)"
  by (auto simp: trim_zeros_def list_all_iff dest: set_dropWhileD)

text \<open>The fraction of a formatted price: two to six digits that pad to the micro-units.\<close>

definition price_fraction :: "nat \<Rightarrow> string" where
  "price_fraction n = (let f = trim_zeros (pad_start 6 (nat_string 10 n)) in if length f < 2 then pad_end 2 f else f)"

lemma price_fraction_facts:
  assumes "n < 1000000"
  shows "list_all is_digit (price_fraction n)" "2 \<le> length (price_fraction n)" "length (price_fraction n) \<le> 6"
    "dec_value (pad_end 6 (price_fraction n)) = n"
proof -
  let ?s = "pad_start 6 (nat_string 10 n)" and ?f = "trim_zeros (pad_start 6 (nat_string 10 n))"
  have z: "is_digit CHR ''0''" by (simp add: is_digit_def)
  have l: "length ?s = 6" using nat_string_length [of 10 n 6] assms by (simp add: pad_start_def)
  have d: "list_all is_digit ?s" using nat_string_digits(1) [of n] z by (auto simp: pad_start_def list_all_iff)
  have v: "dec_value ?s = n" by (simp add: pad_start_def dec_value_pad nat_string_digits(3))
  obtain k where "?s = ?f @ replicate k CHR ''0''" using trim_zeros_replicate by blast
  then have fl: "length ?f \<le> 6" using l by (metis le_add1 length_append)
  have p: "price_fraction n = (if length ?f < 2 then pad_end 2 ?f else ?f)" by (simp add: price_fraction_def Let_def)
  show "list_all is_digit (price_fraction n)" using trim_zeros_digits [OF d] z by (auto simp: p pad_end_def list_all_iff)
  show "2 \<le> length (price_fraction n)" "length (price_fraction n) \<le> 6" using fl by (auto simp: p pad_end_def)
  have "pad_end 6 (price_fraction n) = ?s"
    using pad_end_trim [OF l, of 2] pad_end_trim [OF l, of 0] by (auto simp: p pad_end_def)
  with v show "dec_value (pad_end 6 (price_fraction n)) = n" by simp
qed

lemma format_crawler_price_eq:
  "format_crawler_price (int n) = Some (''USD '' @ nat_string 10 (n div 1000000) @ ''.'' @ price_fraction (n mod 1000000))"
  by (simp add: format_crawler_price_def Let_def micro_per_usd_def currency_def price_fraction_def nat_div_distrib nat_mod_distrib)

section \<open>Properties\<close>

text \<open>A price written for a crawler reads back as the same number of micro-units, and is written with
  two to six decimals. So no price above zero is ever advertised as \<open>USD 0.00\<close>.\<close>

theorem price_header_roundtrip:
  "\<exists>w f. format_crawler_price (int n) = Some (''USD '' @ w @ ''.'' @ f) \<and> list_all is_digit w \<and> list_all is_digit f \<and>
     2 \<le> length f \<and> length f \<le> 6 \<and> parse_crawler_price (format_crawler_price (int n)) = Some (int n)"
proof -
  let ?w = "nat_string 10 (n div 1000000)" and ?f = "price_fraction (n mod 1000000)"
  have m: "n mod 1000000 < 1000000" by simp
  note f = price_fraction_facts [OF m]
  have w: "list_all is_digit ?w" "?w \<noteq> []" "dec_value ?w = n div 1000000" by (rule nat_string_digits)+
  have fn: "?f \<noteq> []" using f(2) by auto
  have nd: "\<not> is_digit CHR ''.''" by (simp add: is_digit_def less_eq_char_def)
  have sp: "js_is_space CHR '' ''" "\<not> js_is_space CHR ''U''" by (simp_all add: js_is_space_def)
  have ws: "\<not> js_is_space (hd ?w)" using w digit_plain [of "hd ?w"] by (simp add: list_all_iff)
  have t1: "takeWhile is_digit (?w @ CHR ''.'' # ?f) = ?w \<and> dropWhile is_digit (?w @ CHR ''.'' # ?f) = CHR ''.'' # ?f"
    by (rule takeWhile_digits) (use w nd in simp_all)
  have t2: "takeWhile is_digit ?f = ?f \<and> dropWhile is_digit ?f = []"
    using takeWhile_digits [OF f(1), of "[]"] by simp
  have d1: "dropWhile js_is_space (?w @ CHR ''.'' # ?f) = ?w @ CHR ''.'' # ?f"
    by (rule dropWhile_plain) (use w ws in simp_all)
  have g: "price_groups (''USD '' @ ?w @ ''.'' @ ?f) = Some (''USD'', ?w, ?f)"
    unfolding price_groups_def using w(2) fn
    by (simp add: Let_def ascii_letter_def less_eq_char_def sp d1 t1 t2)
  have u: "map js_upper_char ''USD'' = ''USD''" by (simp add: js_upper_char_def less_eq_char_def)
  have ne: "''USD '' @ ?w @ ''.'' @ ?f \<noteq> []" by simp
  have e: "int (n div 1000000) * 1000000 + int (n mod 1000000) = int n"
    by (metis div_mult_mod_eq of_nat_add of_nat_mult of_nat_numeral)
  have p: "parse_crawler_price (Some (''USD '' @ ?w @ ''.'' @ ?f)) = Some (int n)"
    unfolding parse_crawler_price_def option.case if_not_P [OF ne] g prod.case currency_def u w(3) f(4) micro_per_usd_def e
    using f(3) by simp
  show ?thesis
    unfolding format_crawler_price_eq p by (intro exI [of _ ?w] exI [of _ ?f] conjI refl w(1) f(1-3))
qed

end
