(* ===== verification/Slug.thy ===== *)
theory Slug
  imports IpRange
begin

text \<open>
  The article key, \<open>packages/sdk/src/contract/slug.ts\<close>: which request paths are tolled and under which
  slug, with the process-wide cache of compiled prefix matchers, and the write-path check of the
  opted-in extensions (\<open>packages/shared/src/gate-scope.ts\<close>).

  A path is the ASCII text of a request target, and a decoded slug is held as its UTF-8 bytes, one
  character each. A compiled matcher is the list of prefixes and the depth it was compiled from.
\<close>

section \<open>Decoding\<close>

definition unreserved :: "char \<Rightarrow> bool" where
  "unreserved c \<longleftrightarrow> CHR ''A'' \<le> c \<and> c \<le> CHR ''Z'' \<or> CHR ''a'' \<le> c \<and> c \<le> CHR ''z'' \<or> is_digit c \<or> c \<in> set ''-._~''"

fun normalize_unreserved :: "string \<Rightarrow> string" where
  "normalize_unreserved (c # a # b # r) =
     (if c = CHR ''%'' \<and> is_hex_char a \<and> is_hex_char b
      then (if unreserved (char_of (hex_value [a, b])) then char_of (hex_value [a, b]) # normalize_unreserved r
            else c # a # b # normalize_unreserved r)
      else c # normalize_unreserved (a # b # r))"
| "normalize_unreserved s = s"

text \<open>\<open>decodeURIComponent\<close>: each escape, or run of escapes that spells one well-formed UTF-8 character.
  \<open>None\<close> is its \<open>URIError\<close>.\<close>

definition escape_at :: "string \<Rightarrow> (nat \<times> string) option" where
  "escape_at s = (if 3 \<le> length s \<and> hd s = CHR ''%'' \<and> is_hex_char (s ! 1) \<and> is_hex_char (s ! 2)
     then Some (hex_value [s ! 1, s ! 2], drop 3 s) else None)"

fun continuation :: "nat \<Rightarrow> string \<Rightarrow> (nat list \<times> string) option" where
  "continuation 0 s = Some ([], s)"
| "continuation (Suc k) s = (case escape_at s of
     None \<Rightarrow> None
   | Some (b, r) \<Rightarrow> if b < 128 \<or> 192 \<le> b then None else map_option (\<lambda>(bs, t). (b # bs, t)) (continuation k r))"

definition utf8_more :: "nat \<Rightarrow> nat option" where
  "utf8_more b = (if 194 \<le> b \<and> b \<le> 223 then Some 1 else if 224 \<le> b \<and> b \<le> 239 then Some 2
     else if 240 \<le> b \<and> b \<le> 244 then Some 3 else None)"

definition utf8_second_ok :: "nat \<Rightarrow> nat \<Rightarrow> bool" where
  "utf8_second_ok b b2 = (if b = 224 then 160 \<le> b2 else if b = 237 then b2 < 160
     else if b = 240 then 144 \<le> b2 else if b = 244 then b2 < 144 else True)"

lemma escape_at_shorter: "escape_at s = Some (b, r) \<Longrightarrow> length r < length s"
  by (auto simp: escape_at_def split: if_splits)

lemma continuation_shorter: "continuation k s = Some (bs, r) \<Longrightarrow> length r \<le> length s"
  by (induction k s arbitrary: bs r rule: continuation.induct)
    (auto split: option.splits if_splits dest!: escape_at_shorter, fastforce)

function decode_uri_component :: "string \<Rightarrow> string option" where
  "decode_uri_component [] = Some []"
| "decode_uri_component (c # s) =
     (if c \<noteq> CHR ''%'' then map_option (Cons c) (decode_uri_component s)
      else (case escape_at (c # s) of
          None \<Rightarrow> None
        | Some (b, r) \<Rightarrow>
            if b < 128 then map_option (Cons (char_of b)) (decode_uri_component r)
            else (case utf8_more b of
                None \<Rightarrow> None
              | Some k \<Rightarrow> (case continuation k r of
                  None \<Rightarrow> None
                | Some (bs, t) \<Rightarrow>
                    if \<not> utf8_second_ok b (hd bs) then None
                    else map_option (append (map char_of (b # bs))) (decode_uri_component t)))))"
  by pat_completeness auto
termination
  by (relation "measure length") (auto dest!: escape_at_shorter continuation_shorter)

definition decode_slug :: "string \<Rightarrow> string option" where
  "decode_slug raw = decode_uri_component raw"

section \<open>Prefix mode\<close>

definition collapse_slashes :: "string \<Rightarrow> string" where
  "collapse_slashes p = (if prefix ''/'' p then CHR ''/'' # dropWhile (\<lambda>c. c = CHR ''/'') p else p)"

definition is_control_route :: "string \<Rightarrow> bool" where
  "is_control_route pathname = (let p = collapse_slashes pathname in
     prefix ''/.well-known/'' p \<or> prefix ''/licenses/'' p \<or> prefix ''/_naulon/'' p)"

datatype prefix_depth = Segment | Rest

record article_re =
  ar_prefixes :: "string list"
  ar_depth :: prefix_depth

type_synonym article_re_cache = "(string, article_re) js_map"

definition article_re_key :: "string list \<Rightarrow> prefix_depth \<Rightarrow> string" where
  "article_re_key pfx depth =
     (case depth of Segment \<Rightarrow> ''segment'' | Rest \<Rightarrow> ''rest'') @ char_of (0::nat) # js_join ''|'' pfx"

definition article_re_for :: "article_re_cache \<Rightarrow> string list \<Rightarrow> prefix_depth \<Rightarrow> article_re \<times> article_re_cache" where
  "article_re_for cache pfx depth = (let key = article_re_key pfx depth in
     (case map_of cache key of
        Some re \<Rightarrow> (re, cache)
      | None \<Rightarrow> (let re = \<lparr>ar_prefixes = pfx, ar_depth = depth\<rparr> in (re, AList.update key re cache))))"

text \<open>The group of \<open>^/(?:p1|p2)/(tail)\<close>: the first prefix, in the order listed, under which a tail of at
  least one character follows.\<close>

definition tail_of :: "prefix_depth \<Rightarrow> string \<Rightarrow> string" where
  "tail_of depth s = (case depth of Segment \<Rightarrow> takeWhile (\<lambda>c. c \<notin> set ''/?#'') s | Rest \<Rightarrow> takeWhile (\<lambda>c. c \<notin> set ''?#'') s)"

fun match_article :: "string list \<Rightarrow> prefix_depth \<Rightarrow> string \<Rightarrow> string option" where
  "match_article [] depth path = None"
| "match_article (p # ps) depth path =
     (let head = CHR ''/'' # p @ ''/''; t = tail_of depth (drop (length head) path)
      in if prefix head path \<and> t \<noteq> [] then Some t else match_article ps depth path)"

definition slug_from_path :: "article_re_cache \<Rightarrow> string \<Rightarrow> string list \<Rightarrow> prefix_depth option \<Rightarrow> string option \<times> article_re_cache" where
  "slug_from_path cache path pfx depth =
     (if is_control_route path then (None, cache)
      else (let clean = filter (\<lambda>p. p \<noteq> []) pfx in
        if clean = [] then (None, cache)
        else (case article_re_for cache clean (case depth of None \<Rightarrow> Segment | Some d \<Rightarrow> d) of
            (re, cache') \<Rightarrow> (case match_article (ar_prefixes re) (ar_depth re) path of
                None \<Rightarrow> None | Some m \<Rightarrow> decode_slug m, cache'))))"

section \<open>Site mode\<close>

definition static_extensions :: "string list" where
  "static_extensions = [''avif'', ''css'', ''eot'', ''gif'', ''ico'', ''jpeg'', ''jpg'', ''js'', ''json'', ''map'', ''mjs'', ''mp3'',
     ''mp4'', ''otf'', ''pdf'', ''png'', ''svg'', ''ttf'', ''txt'', ''webm'', ''webp'', ''woff'', ''woff2'', ''xml'']"

definition static_ext_re :: "string \<Rightarrow> bool" where
  "static_ext_re path = list_ex (\<lambda>e. suffix (CHR ''.'' # e) (js_lower path)) static_extensions"

definition discovery_root_re :: "string \<Rightarrow> bool" where
  "discovery_root_re path = (prefix ''/'' path \<and> (let s = js_lower (tl path) in
     s = ''robots.txt'' \<or> s = ''favicon.ico'' \<or>
     CHR ''/'' \<notin> set s \<and> list_ex (\<lambda>w. prefix w s) [''sitemap'', ''rss'', ''atom'', ''feed'']))"

definition discovery_files :: "string list" where
  "discovery_files = [''robots.txt'', ''llms.txt'', ''ads.txt'', ''app-ads.txt'', ''security.txt'', ''favicon.ico'']"

definition sitemap_rest :: "string \<Rightarrow> bool" where
  "sitemap_rest t = list_ex (\<lambda>x. suffix x t \<and> (let b = take (length t - length x) t in
     b = [] \<or> hd b \<in> set ''-_.'' \<and> CHR ''/'' \<notin> set b)) [''.xml'', ''.xml.gz'']"

definition sitemap_file_re :: "string \<Rightarrow> bool" where
  "sitemap_file_re seg = (let s = js_lower seg in
     list_ex (\<lambda>i. prefix ''sitemap'' (drop i s) \<and> (i = 0 \<or> s ! (i - 1) \<in> set ''-_.'') \<and> sitemap_rest (drop (i + 7) s))
       [0..<length s])"

definition feed_files :: "string list" where
  "feed_files = concat (map (\<lambda>n. n # map (\<lambda>e. n @ e) [''.xml'', ''.rss'', ''.atom'', ''.json'']) [''feed'', ''feeds'', ''rss'', ''atom'', ''index''])"

definition last_segment :: "string \<Rightarrow> string" where
  "last_segment pathname = (let parts = filter (\<lambda>p. p \<noteq> []) (js_split CHR ''/'' pathname) in
     if parts = [] then [] else List.last parts)"

definition is_discovery :: "string \<Rightarrow> bool" where
  "is_discovery pathname \<longleftrightarrow> discovery_root_re pathname \<or>
     (let seg = last_segment pathname in
        js_lower seg \<in> set discovery_files \<or> sitemap_file_re seg \<or> js_lower seg \<in> set feed_files)"

definition ascii_alnum :: "char \<Rightarrow> bool" where
  "ascii_alnum c \<longleftrightarrow> CHR ''A'' \<le> c \<and> c \<le> CHR ''Z'' \<or> CHR ''a'' \<le> c \<and> c \<le> CHR ''z'' \<or> is_digit c"

definition extension_of :: "string \<Rightarrow> string option" where
  "extension_of pathname =
     (let e = rev (takeWhile ascii_alnum (rev pathname)); r = dropWhile ascii_alnum (rev pathname)
      in if e \<noteq> [] \<and> r \<noteq> [] \<and> hd r = CHR ''.'' then Some (js_lower e) else None)"

definition string_list :: "json \<Rightarrow> string list" where
  "string_list v = (case v of JArray xs \<Rightarrow> map (\<lambda>j. case j of JString s \<Rightarrow> s | _ \<Rightarrow> []) (filter (\<lambda>j. case j of JString s \<Rightarrow> True | _ \<Rightarrow> False) xs)
     | _ \<Rightarrow> [])"

definition path_name :: "string \<Rightarrow> string" where
  "path_name path = takeWhile (\<lambda>c. c \<notin> set ''?#'') path"

definition excluded :: "string list \<Rightarrow> string \<Rightarrow> bool" where
  "excluded ps pathname = list_ex (\<lambda>p. pathname = CHR ''/'' # p \<or> prefix (CHR ''/'' # p @ ''/'') pathname) (filter (\<lambda>p. p \<noteq> []) ps)"

definition slug_from_site_path :: "string \<Rightarrow> json \<Rightarrow> json \<Rightarrow> string option" where
  "slug_from_site_path path excludePrefixes includeExtensions = (let pathname = path_name path in
     if is_control_route pathname then None
     else if is_discovery pathname then None
     else if static_ext_re pathname \<and>
         (case extension_of pathname of None \<Rightarrow> True | Some ext \<Rightarrow> ext \<notin> set (string_list includeExtensions)) then None
     else if excluded (string_list excludePrefixes) pathname then None
     else decode_slug pathname)"

section \<open>The scope\<close>

text \<open>The two lists of a site scope come from a stored record and are kept as parsed JSON.\<close>

datatype gate_scope = PrefixesScope "prefix_depth option" | SiteScope json json

record toll_scope =
  ts_prefixes :: "string list"
  ts_scope :: "gate_scope option"

text \<open>\<open>[...v]\<close>: a string spreads into its characters; what cannot be iterated throws (\<open>None\<close>).\<close>

definition js_spread :: "json \<Rightarrow> json option" where
  "js_spread v = (case v of JArray xs \<Rightarrow> Some (JArray xs) | JString s \<Rightarrow> Some (JArray (map (\<lambda>c. JString [c]) s)) | _ \<Rightarrow> None)"

text \<open>The outer \<open>None\<close> is the exception.\<close>

definition slug_for_scope :: "article_re_cache \<Rightarrow> string \<Rightarrow> toll_scope \<Rightarrow> string option option \<times> article_re_cache" where
  "slug_for_scope cache rawPath scope = (let path = normalize_unreserved rawPath in
     (case ts_scope scope of
        Some (SiteScope excludePrefixes includeExtensions) \<Rightarrow>
          (map_option (\<lambda>ex. slug_from_site_path path ex includeExtensions) (js_spread excludePrefixes), cache)
      | Some (PrefixesScope d) \<Rightarrow> apfst Some (slug_from_path cache path (ts_prefixes scope) d)
      | None \<Rightarrow> apfst Some (slug_from_path cache path (ts_prefixes scope) None)))"

text \<open>The crawler's spelling: \<open>pathname_of\<close> is \<open>new URL(url).pathname\<close>, absent when it does not parse.\<close>

definition derive_slug ::
    "(string \<Rightarrow> string option) \<Rightarrow> article_re_cache \<Rightarrow> string \<Rightarrow> string list \<Rightarrow> prefix_depth option \<Rightarrow> string option \<times> article_re_cache" where
  "derive_slug pathname_of cache url pfx depth = (case pathname_of url of
     None \<Rightarrow> (None, cache) | Some p \<Rightarrow> slug_from_path cache p pfx depth)"

definition derive_site_slug :: "(string \<Rightarrow> string option) \<Rightarrow> string \<Rightarrow> json \<Rightarrow> json \<Rightarrow> string option" where
  "derive_site_slug pathname_of url excludePrefixes includeExtensions = (case pathname_of url of
     None \<Rightarrow> None | Some p \<Rightarrow> slug_from_site_path p excludePrefixes includeExtensions)"

section \<open>Opted-in extensions\<close>

datatype extension_error = TooManyExtensions | EmptyExtension | ExtensionTooLong string | NotAlphanumeric string | NeverTollable string

definition max_extensions :: nat where "max_extensions = 20"

definition max_extension_len :: nat where "max_extension_len = 12"

definition never_tollable :: "string list" where "never_tollable = [''ico'']"

definition clean_extension :: "string \<Rightarrow> string" where
  "clean_extension raw = (let s = js_lower (js_trim raw) in if prefix ''.'' s then tl s else s)"

fun extensions_loop :: "string list \<Rightarrow> string list \<Rightarrow> extension_error + string list" where
  "extensions_loop [] out = Inr out"
| "extensions_loop (raw # xs) out =
     (let ext = clean_extension raw in
      if ext = [] then Inl EmptyExtension
      else if length ext > max_extension_len then Inl (ExtensionTooLong ext)
      else if \<not> list_all (\<lambda>c. CHR ''a'' \<le> c \<and> c \<le> CHR ''z'' \<or> is_digit c) ext then Inl (NotAlphanumeric ext)
      else if ext \<in> set never_tollable then Inl (NeverTollable ext)
      else extensions_loop xs (if ext \<in> set out then out else out @ [ext]))"

definition normalize_include_extensions :: "string list \<Rightarrow> extension_error + string list" where
  "normalize_include_extensions inp =
     (if length inp > max_extensions then Inl TooManyExtensions
      else bind_sum (extensions_loop inp []) (\<lambda>out. Inr (sort out)))"

section \<open>Lemmas\<close>

lemma normalize_plain: "c \<noteq> CHR ''%'' \<Longrightarrow> normalize_unreserved (c # s) = c # normalize_unreserved s"
  by (cases s rule: normalize_unreserved.cases) auto

lemma normalize_escape:
  "is_hex_char a \<Longrightarrow> is_hex_char b \<Longrightarrow> unreserved (char_of (hex_value [a, b])) \<Longrightarrow>
     normalize_unreserved (CHR ''%'' # a # b # q) = char_of (hex_value [a, b]) # normalize_unreserved q"
  by simp

lemma last_two_tail: "set (drop (length s - 2) s) \<subseteq> set (drop (length (c # s) - 2) (c # s))"
proof (cases "length s < 2")
  case False
  then have "length (c # s) - 2 = Suc (length s - 2)" by simp
  then show ?thesis by (simp only: drop_Suc_Cons)
qed auto

text \<open>An escape of an unreserved character that does not complete an earlier one reads as the character.\<close>

lemma normalize_encoded:
  assumes "CHR ''%'' \<notin> set (drop (length p - 2) p)"
    and h: "is_hex_char a" "is_hex_char b" "unreserved (char_of (hex_value [a, b]))" "char_of (hex_value [a, b]) \<noteq> CHR ''%''"
  shows "normalize_unreserved (p @ CHR ''%'' # a # b # q) = normalize_unreserved (p @ char_of (hex_value [a, b]) # q)"
proof -
  have e: "normalize_unreserved (CHR ''%'' # a # b # q) = normalize_unreserved (char_of (hex_value [a, b]) # q)"
    using normalize_escape [OF h(1-3)] normalize_plain [OF h(4)] by simp
  show ?thesis
    using assms(1)
  proof (induction p rule: normalize_unreserved.induct [case_names more none one two])
    case (more x y z r)
    have a: "CHR ''%'' \<notin> set (drop (length (y # z # r) - 2) (y # z # r))"
      using more(4) last_two_tail [of "y # z # r" x] by (meson subsetD)
    then have "CHR ''%'' \<notin> set (drop (length (z # r) - 2) (z # r))" using last_two_tail [of "z # r" y] by (meson subsetD)
    then have b: "CHR ''%'' \<notin> set (drop (length r - 2) r)" using last_two_tail [of r z] by (meson subsetD)
    show ?case
    proof (cases "x = CHR ''%'' \<and> is_hex_char y \<and> is_hex_char z")
      case True
      then show ?thesis using more(1,2) [OF True] b by (simp only: append_Cons normalize_unreserved.simps(1)) simp
    next
      case False
      then show ?thesis using more(3) [OF False a] by (simp only: append_Cons normalize_unreserved.simps(1)) simp
    qed
  next
    case none
    show ?case using e by simp
  next
    case (one x)
    then have "x \<noteq> CHR ''%''" by auto
    then show ?case using e by (simp only: append_Cons append_Nil normalize_plain not_False_eq_True)
  next
    case (two x y)
    then have "x \<noteq> CHR ''%''" "y \<noteq> CHR ''%''" by auto
    then show ?case using e by (simp only: append_Cons append_Nil normalize_plain not_False_eq_True)
  qed
qed

text \<open>The cache: every entry was stored under the key of the matcher it holds, and a key says which.\<close>

definition plain_prefixes :: "string list \<Rightarrow> bool" where
  "plain_prefixes ps \<longleftrightarrow> list_all (\<lambda>p. CHR ''|'' \<notin> set p) ps"

definition cache_ok :: "article_re_cache \<Rightarrow> bool" where
  "cache_ok cache \<longleftrightarrow> list_all (\<lambda>(k, re). k = article_re_key (ar_prefixes re) (ar_depth re) \<and>
     ar_prefixes re \<noteq> [] \<and> plain_prefixes (ar_prefixes re)) cache"

lemma article_re_key_inj:
  assumes "article_re_key ps d = article_re_key qs e" "ps \<noteq> []" "qs \<noteq> []" "plain_prefixes ps" "plain_prefixes qs"
  shows "ps = qs \<and> d = e"
proof -
  have d: "d = e" using assms(1) by (auto simp: article_re_key_def split: prefix_depth.splits)
  then have "js_join ''|'' ps = js_join ''|'' qs" using assms(1) by (simp add: article_re_key_def)
  moreover have "js_split CHR ''|'' (js_join ''|'' ps) = ps" "js_split CHR ''|'' (js_join ''|'' qs) = qs"
    using assms(2-5) by (auto intro!: join_split simp: plain_prefixes_def list_all_iff)
  ultimately show ?thesis using d by metis
qed

lemma article_re_for_ok:
  assumes "cache_ok cache" "ps \<noteq> []" "plain_prefixes ps"
  shows "fst (article_re_for cache ps d) = \<lparr>ar_prefixes = ps, ar_depth = d\<rparr> \<and> cache_ok (snd (article_re_for cache ps d))"
proof (cases "map_of cache (article_re_key ps d)")
  case None
  have "cache_ok (AList.update (article_re_key ps d) \<lparr>ar_prefixes = ps, ar_depth = d\<rparr> cache)"
    using assms by (induction cache) (auto simp: cache_ok_def)
  with None show ?thesis by (simp add: article_re_for_def Let_def)
next
  case (Some re)
  then have "(article_re_key ps d, re) \<in> set cache" by (rule map_of_SomeD)
  then have "article_re_key ps d = article_re_key (ar_prefixes re) (ar_depth re)" "ar_prefixes re \<noteq> []" "plain_prefixes (ar_prefixes re)"
    using assms(1) by (auto simp: cache_ok_def list_all_iff)
  from article_re_key_inj [OF this(1) assms(2) this(2) assms(3) this(3)]
  have "re = \<lparr>ar_prefixes = ps, ar_depth = d\<rparr>" by simp
  with Some assms(1) show ?thesis by (simp add: article_re_for_def)
qed

lemma slug_from_path_ok:
  assumes "cache_ok cache" "plain_prefixes ps"
  shows "fst (slug_from_path cache path ps d) = fst (slug_from_path [] path ps d) \<and> cache_ok (snd (slug_from_path cache path ps d))"
proof -
  let ?c = "filter (\<lambda>p. p \<noteq> []) ps" and ?d = "case d of None \<Rightarrow> Segment | Some d \<Rightarrow> d"
  have e: "cache_ok []" by (simp add: cache_ok_def)
  have pl: "plain_prefixes ?c" using assms(2) by (auto simp: plain_prefixes_def list_all_iff)
  show ?thesis
  proof (cases "?c = []")
    case False
    obtain re c' where r: "article_re_for cache ?c ?d = (re, c')" by fastforce
    obtain re0 c0 where r0: "article_re_for [] ?c ?d = (re0, c0)" by fastforce
    have "re = re0" "cache_ok c'"
      using article_re_for_ok [OF assms(1) False pl, of ?d] article_re_for_ok [OF e False pl, of ?d] r r0 by simp_all
    then show ?thesis using assms(1) False r r0 by (simp add: slug_from_path_def Let_def)
  qed (use assms(1) in \<open>simp add: slug_from_path_def Let_def\<close>)
qed

lemma slug_for_scope_ok:
  assumes "cache_ok cache" "plain_prefixes (ts_prefixes scope)"
  shows "fst (slug_for_scope cache path scope) = fst (slug_for_scope [] path scope) \<and> cache_ok (snd (slug_for_scope cache path scope))"
  using assms slug_from_path_ok [OF assms]
  by (auto simp: slug_for_scope_def Let_def split: option.splits gate_scope.splits)

text \<open>A run of calls through the one cache of the process.\<close>

definition slug_run :: "(string \<times> toll_scope) list \<Rightarrow> article_re_cache" where
  "slug_run calls = foldl (\<lambda>cache (path, scope). snd (slug_for_scope cache path scope)) [] calls"

lemma slug_run_ok:
  assumes "list_all (\<lambda>c. plain_prefixes (ts_prefixes (snd c))) calls"
  shows "cache_ok (slug_run calls)"
proof -
  have "cache_ok cache \<Longrightarrow> cache_ok (foldl (\<lambda>cache (path, scope). snd (slug_for_scope cache path scope)) cache calls)" for cache
    using assms by (induction calls arbitrary: cache) (auto simp: slug_for_scope_ok)
  then show ?thesis by (simp add: slug_run_def cache_ok_def)
qed

text \<open>A prefix that contains a bar shares its key with the list it would be split into: the second of
  the two publishers is matched against the first one's prefixes.\<close>

lemma bar_prefix_shares_matcher:
  "fst (slug_for_scope [] ''/b/post'' \<lparr>ts_prefixes = [''a'', ''b''], ts_scope = None\<rparr>) = Some (Some ''post'') \<and>
   fst (slug_for_scope (slug_run [(''/x'', \<lparr>ts_prefixes = [''a|b''], ts_scope = None\<rparr>)]) ''/b/post''
     \<lparr>ts_prefixes = [''a'', ''b''], ts_scope = None\<rparr>) = Some None"
  by code_simp

section \<open>Properties\<close>

text \<open>One letter of a path spelled as an escape changes nothing. For every scope, a path and the same
  path with one unreserved character percent-encoded are tolled alike, under the same slug, provided
  the character does not stand in an escape begun before it.\<close>

theorem encoded_letter_same_slug:
  assumes "CHR ''%'' \<notin> set (drop (length p - 2) p)" "is_hex_char a" "is_hex_char b"
    "unreserved (char_of (hex_value [a, b]))"
  shows "slug_for_scope cache (p @ CHR ''%'' # a # b # q) scope = slug_for_scope cache (p @ char_of (hex_value [a, b]) # q) scope"
proof -
  have "\<not> unreserved CHR ''%''" by code_simp
  then have "char_of (hex_value [a, b]) \<noteq> CHR ''%''" using assms(4) by metis
  from normalize_encoded [OF assms this] show ?thesis by (simp add: slug_for_scope_def)
qed

theorem encoded_letter_same_slug_witness:
  "fst (slug_for_scope [] ''/%62log/x?y'' \<lparr>ts_prefixes = [''blog''], ts_scope = None\<rparr>) = Some (Some ''x'')"
proof -
  have h: "is_hex_char CHR ''6''" "is_hex_char CHR ''2''" "unreserved (char_of (hex_value ''62''))" "char_of (hex_value ''62'') = CHR ''b''"
    by code_simp+
  have "fst (slug_for_scope [] ''/blog/x?y'' \<lparr>ts_prefixes = [''blog''], ts_scope = None\<rparr>) = Some (Some ''x'')" by code_simp
  then show ?thesis
    using encoded_letter_same_slug [of "''/''" "CHR ''6''" "CHR ''2''" "[]" "''log/x?y''" "\<lparr>ts_prefixes = [''blog''], ts_scope = None\<rparr>"] h
    by simp
qed

text \<open>The cache of compiled matchers is not observable. After any run of requests for any publishers, a
  request is keyed as a fresh process would key it, as long as no configured prefix contains a bar.\<close>

theorem slug_cache_transparent:
  assumes "list_all (\<lambda>c. plain_prefixes (ts_prefixes (snd c))) calls" "plain_prefixes (ts_prefixes scope)"
  shows "fst (slug_for_scope (slug_run calls) path scope) = fst (slug_for_scope [] path scope)"
  using slug_for_scope_ok [OF slug_run_ok [OF assms(1)] assms(2)] by blast

theorem slug_cache_transparent_witness:
  "fst (slug_for_scope (slug_run [(''/a/x'', \<lparr>ts_prefixes = [''a'', ''b''], ts_scope = Some (PrefixesScope (Some Rest))\<rparr>)]) ''/b/2026/post''
     \<lparr>ts_prefixes = [''a'', ''b''], ts_scope = None\<rparr>) = Some (Some ''2026'')"
proof -
  have "fst (slug_for_scope [] ''/b/2026/post'' \<lparr>ts_prefixes = [''a'', ''b''], ts_scope = None\<rparr>) = Some (Some ''2026'')" by code_simp
  then show ?thesis
    using slug_cache_transparent [of "[(''/a/x'', \<lparr>ts_prefixes = [''a'', ''b''], ts_scope = Some (PrefixesScope (Some Rest))\<rparr>)]"
        "\<lparr>ts_prefixes = [''a'', ''b''], ts_scope = None\<rparr>" "''/b/2026/post''"]
    by (simp add: plain_prefixes_def)
qed


definition tollable_extension :: "string \<Rightarrow> bool" where
  "tollable_extension e \<longleftrightarrow> e \<noteq> [] \<and> length e \<le> 12 \<and> e \<noteq> ''ico'' \<and>
     list_all (\<lambda>c. CHR ''a'' \<le> c \<and> c \<le> CHR ''z'' \<or> is_digit c) e"

lemma extensions_loop_ok:
  assumes "extensions_loop xs out = Inr res" "distinct out" "list_all tollable_extension out"
  shows "distinct res \<and> list_all tollable_extension res \<and> set res = set out \<union> clean_extension ` set xs \<and>
    length res \<le> length out + length xs"
  using assms
proof (induction xs arbitrary: out)
  case (Cons x xs)
  let ?e = "clean_extension x" and ?o = "if clean_extension x \<in> set out then out else out @ [clean_extension x]"
  have e: "tollable_extension ?e" "extensions_loop xs ?o = Inr res"
    using Cons.prems(1) by (auto simp: Let_def tollable_extension_def max_extension_len_def never_tollable_def split: if_splits)
  have "distinct ?o" "list_all tollable_extension ?o" using Cons.prems(2,3) e(1) by auto
  from Cons.IH [OF e(2) this] show ?case by (auto split: if_splits)
qed simp

text \<open>What the write path stores as opted-in extensions. Whatever a publisher sends, the list that is
  accepted is sorted, has no duplicates and at most twenty entries, each of them one to twelve lower-case
  letters or digits and none of them the extension discovery refuses; and each entry is one the
  publisher sent, up to case, blanks and one leading dot.\<close>

theorem stored_extensions_bounded:
  assumes "normalize_include_extensions xs = Inr out"
  shows "sorted out \<and> distinct out \<and> length out \<le> 20 \<and> list_all tollable_extension out \<and>
    set out = clean_extension ` set xs"
proof -
  obtain res where r: "extensions_loop xs [] = Inr res" "out = sort res" "length xs \<le> 20"
    using assms by (auto simp: normalize_include_extensions_def max_extensions_def bind_sum_Inr_iff split: if_splits)
  with extensions_loop_ok [OF r(1)] show ?thesis by (auto simp: list_all_iff)
qed

theorem stored_extensions_bounded_witness:
  "normalize_include_extensions ['' .PDF'', ''json'', ''pdf''] = Inr [''json'', ''pdf''] \<and>
   sorted [''json'', ''pdf''] \<and> list_all tollable_extension [''json'', ''pdf'']"
proof -
  have "normalize_include_extensions ['' .PDF'', ''json'', ''pdf''] = Inr [''json'', ''pdf'']" by code_simp
  with stored_extensions_bounded [OF this] show ?thesis by blast
qed
end
