(* ===== verification/Quote.thy ===== *)
theory Quote
  imports Reread PriceRules Networks CrawlerPrice Slug
begin

text \<open>
  What a read costs and the 402 that says so: pricing (\<open>packages/enforce/src/pricing.ts\<close>), the settlement
  legs and the challenge (\<open>build402.ts\<close>), its discovery block (\<open>bazaar.ts\<close>) and its one-line explanation
  (\<open>agentGuide.ts\<close>). Parsing a URL and the base64 text of a JSON value are parameters. An exception is
  an \<open>Inl\<close>.
\<close>

section \<open>Publishers and quotes\<close>

record payout_leg =
  pl_role :: string
  pl_pay_to :: string
  pl_amount :: string

record article_credits =
  ac_slug :: string
  ac_title :: string
  ac_contributors :: "contributor list"

record publisher_pricing =
  pb_price :: rat
  pb_citation_multiplier :: rat
  pb_price_rules :: "price_rule list option"
  pb_observe :: bool
  pb_coauthor_split :: "bool option"
  pb_extra_legs :: "(rat \<Rightarrow> toll_kind \<Rightarrow> payout_leg list) option"
  pb_memo_id :: "(string \<Rightarrow> toll_kind \<Rightarrow> string option) option"
  pb_settlement_network :: "network_name option"
  pb_credits :: "string \<Rightarrow> article_credits option"

datatype payment_mode = MockMode | GatewayMode

record buyer_links =
  bl_guide :: string
  bl_fund :: "string option"
  bl_mcp :: "string option"

record quote =
  q_slug :: string
  q_title :: string
  q_kind :: toll_kind
  q_price :: rat
  q_payees :: "author_share list"
  q_extra_legs :: "payout_leg list"
  q_coauthor_split :: bool
  q_memo_id :: "string option"
  q_network :: "network_name option"
  q_priced_for :: "string option"
  q_payment_mode :: "payment_mode option"
  q_buyer_links :: "buyer_links option"

datatype toll_error = CreditsThrew attribution_error | InvalidAmount | LegAmountNotDigits

definition charges_reads :: "('a) publisher_pricing_scheme \<Rightarrow> bool" where
  "charges_reads p \<longleftrightarrow> \<not> pb_observe p"

definition usdc :: "rat \<Rightarrow> toll_error + rat" where
  "usdc v = (if v < 0 then Inl InvalidAmount else Inr v)"

definition toll_price_under :: "('a) publisher_pricing_scheme \<Rightarrow> toll_kind \<Rightarrow> price_rule option \<Rightarrow> toll_error + rat" where
  "toll_price_under p kind rule =
     (let price = (case Option.bind rule priceUsdc of Some x \<Rightarrow> x | None \<Rightarrow> pb_price p);
          multiplier = (case Option.bind rule citationMultiplier of Some x \<Rightarrow> x | None \<Rightarrow> pb_citation_multiplier p)
      in usdc (if kind = TollCitation then price * multiplier else price))"

definition toll_price :: "('a) publisher_pricing_scheme \<Rightarrow> toll_kind \<Rightarrow> string option \<Rightarrow> string option \<Rightarrow> toll_error + rat" where
  "toll_price p kind path verifiedAgent = toll_price_under p kind (resolve_price_rule (pb_price_rules p) path verifiedAgent)"

text \<open>What pricing reads of the deployment's configuration.\<close>

record pricing_config =
  pg_active_network :: network_name
  pg_payment_mode :: payment_mode
  pg_buyer_links :: buyer_links

fun map_error :: "('e \<Rightarrow> 'f) \<Rightarrow> 'e + 'a \<Rightarrow> 'f + 'a" where
  "map_error f (Inl e) = Inl (f e)"
| "map_error f (Inr a) = Inr a"

definition quote_read ::
    "pricing_config \<Rightarrow> ('a) publisher_pricing_scheme \<Rightarrow> string \<Rightarrow> toll_kind \<Rightarrow> string option \<Rightarrow> string option \<Rightarrow> toll_error + quote option" where
  "quote_read cfg p slug kind path verifiedAgent = (case pb_credits p slug of
     None \<Rightarrow> Inr None
   | Some credits \<Rightarrow> bind_sum (map_error CreditsThrew (resolve_payees (ac_contributors credits))) (\<lambda>payees.
       if payees = [] \<and> charges_reads p then Inr None
       else (let rule = resolve_price_rule (pb_price_rules p) path verifiedAgent in
         bind_sum (toll_price_under p kind rule) (\<lambda>price. Inr (Some
           \<lparr>q_slug = ac_slug credits, q_title = ac_title credits, q_kind = kind, q_price = price, q_payees = payees,
            q_extra_legs = (case pb_extra_legs p of None \<Rightarrow> [] | Some f \<Rightarrow> f price kind),
            q_coauthor_split = (case pb_coauthor_split p of None \<Rightarrow> False | Some b \<Rightarrow> b),
            q_memo_id = (case pb_memo_id p of None \<Rightarrow> None | Some f \<Rightarrow> (case f (ac_slug credits) kind of Some (c # cs) \<Rightarrow> Some (c # cs) | _ \<Rightarrow> None)),
            q_network = Some (case pb_settlement_network p of Some n \<Rightarrow> n | None \<Rightarrow> pg_active_network cfg),
            q_priced_for = Option.bind rule agent,
            q_payment_mode = Some (pg_payment_mode cfg),
            q_buyer_links = Some (pg_buyer_links cfg)\<rparr>)))))"

section \<open>Requirements and legs\<close>

record leg_extra = gateway_extra +
  lx_nonce :: "string option"

record payment_requirements =
  rq_network :: string
  rq_asset :: string
  rq_amount :: string
  rq_pay_to :: string
  rq_timeout :: nat
  rq_extra :: leg_extra
  rq_memo_id :: "string option"

record settlement_leg =
  lg_role :: string
  lg_req :: payment_requirements

text \<open>What \<open>build402\<close> reads of its environment: the configuration, the nonce's key and time to live, and
  the salts it draws, one per leg.\<close>

record build_config =
  bc_active_network :: network_name
  bc_tie_break :: tie_break
  bc_timeout :: nat
  bc_payment_mode :: payment_mode
  bc_guide_url :: string
  bc_nonce_ttl :: nat
  bc_sign :: nonce_sign
  bc_salt :: "nat \<Rightarrow> string"
  bc_url_parses :: "string \<Rightarrow> bool"
  bc_url_host :: "string \<Rightarrow> string option"

definition plain_extra :: "gateway_extra \<Rightarrow> leg_extra" where
  "plain_extra g = gateway_extra.extend g \<lparr>lx_nonce = None\<rparr>"

definition build_requirements :: "build_config \<Rightarrow> quote \<Rightarrow> toll_error + payment_requirements" where
  "build_requirements cfg q =
     (let net = get_network (case q_network q of Some n \<Rightarrow> n | None \<Rightarrow> bc_active_network cfg) in
      bind_sum (map_error CreditsThrew (primary_payee (q_payees q) (bc_tie_break cfg))) (\<lambda>payTo. Inr
        \<lparr>rq_network = sn_network net, rq_asset = sn_usdc net, rq_amount = to_atomic_usdc (q_price q), rq_pay_to = payTo,
         rq_timeout = bc_timeout cfg, rq_extra = plain_extra (gateway_extra_of net), rq_memo_id = q_memo_id q\<rparr>))"

definition binding_of :: "payment_requirements \<Rightarrow> nonce_binding" where
  "binding_of r = \<lparr>nb_amount = rq_amount r, nb_pay_to = rq_pay_to r, nb_network = rq_network r\<rparr>"

definition leg_like :: "payment_requirements \<Rightarrow> string \<Rightarrow> string \<Rightarrow> string \<Rightarrow> settlement_leg" where
  "leg_like r role payTo amount = \<lparr>lg_role = role, lg_req = r\<lparr>rq_pay_to := payTo, rq_amount := amount\<rparr>\<rparr>"

text \<open>The author leg, reduced to the primary's own share when the co-authors are paid at the source, and
  the co-author legs. \<open>Number(toAtomicUsdc(price))\<close> is the rounded number of micro-units.\<close>

definition author_legs :: "build_config \<Rightarrow> quote \<Rightarrow> payment_requirements \<Rightarrow> toll_error + settlement_leg list" where
  "author_legs cfg q req =
     (if q_coauthor_split q \<and> length (wallet_totals (q_payees q)) > 1 then
        bind_sum (map_error CreditsThrew (split_author_legs (q_payees q) (js_round (q_price q * micro_unit)) (bc_tie_break cfg))) (\<lambda>s.
          let r = req\<lparr>rq_amount := int_string (primaryAmountMicro s), rq_pay_to := primaryPayTo s\<rparr>
          in Inr (\<lparr>lg_role = ''author'', lg_req = r\<rparr> #
               map (\<lambda>(w, m). leg_like r ''coauthor'' w (int_string m)) (coauthorLegs s)))
      else Inr [\<lparr>lg_role = ''author'', lg_req = req\<rparr>])"

definition all_legs :: "build_config \<Rightarrow> quote \<Rightarrow> toll_error + settlement_leg list" where
  "all_legs cfg q =
     bind_sum (build_requirements cfg q) (\<lambda>req.
     bind_sum (author_legs cfg q req) (\<lambda>ls.
       Inr (ls @ map (\<lambda>l. leg_like (lg_req (hd ls)) (pl_role l) (pl_pay_to l) (pl_amount l)) (q_extra_legs q))))"

definition with_nonce :: "build_config \<Rightarrow> nat \<Rightarrow> nat \<times> settlement_leg \<Rightarrow> settlement_leg" where
  "with_nonce cfg now il = (case il of (i, l) \<Rightarrow>
     l\<lparr>lg_req := (lg_req l)\<lparr>rq_extra := (rq_extra (lg_req l))\<lparr>lx_nonce :=
       Some (issue_nonce (bc_sign cfg) (bc_nonce_ttl cfg) (bc_salt cfg i) (binding_of (lg_req l)) now)\<rparr>\<rparr>\<rparr>)"

definition priced_in_mock :: "build_config \<Rightarrow> quote \<Rightarrow> bool" where
  "priced_in_mock cfg q \<longleftrightarrow> (case q_payment_mode q of Some m \<Rightarrow> m | None \<Rightarrow> bc_payment_mode cfg) = MockMode"

section \<open>Discovery\<close>

definition valid_metadata_string :: "string \<Rightarrow> bool" where
  "valid_metadata_string s \<longleftrightarrow> 0 < length s \<and> length s \<le> 32 \<and> list_all (\<lambda>c. CHR 0x20 \<le> c \<and> c \<le> CHR 0x7E) s"

fun metadata_tags :: "string list \<Rightarrow> string list \<Rightarrow> string list" where
  "metadata_tags seen [] = []"
| "metadata_tags seen (t # ts) = (if \<not> valid_metadata_string t \<or> js_lower t \<in> set seen then metadata_tags seen ts
     else t # metadata_tags (js_lower t # seen) ts)"

definition kind_name :: "toll_kind \<Rightarrow> string" where
  "kind_name k = (case k of TollRead \<Rightarrow> ''read'' | TollCitation \<Rightarrow> ''citation'')"

definition service_metadata :: "(string \<Rightarrow> string option) \<Rightarrow> string \<Rightarrow> toll_kind \<Rightarrow> (string \<times> json) list" where
  "service_metadata url_host url kind =
     (let tags = take 5 (metadata_tags [] [''citation'', ''x402'', kind_name kind]) in
      (case url_host url of
         Some (c # cs) \<Rightarrow> if valid_metadata_string (c # cs) then [(''serviceName'', JString (c # cs))] else []
       | _ \<Rightarrow> [])
      @ (if tags \<noteq> [] then [(''tags'', JArray (map JString tags))] else []))"

definition schema_const :: "string \<Rightarrow> json" where
  "schema_const s = JObject [(''const'', JString s)]"

definition info_schema :: json where
  "info_schema = JObject [(''$schema'', JString ''https://json-schema.org/draft/2020-12/schema''), (''type'', JString ''object''),
     (''properties'', JObject [
        (''input'', JObject [(''type'', JString ''object''),
           (''properties'', JObject [(''type'', schema_const ''http''), (''method'', schema_const ''GET'')]),
           (''required'', JArray [JString ''type'', JString ''method''])]),
        (''output'', JObject [(''type'', JString ''object''),
           (''properties'', JObject [(''type'', JObject [(''type'', JString ''string'')]), (''format'', JObject [(''type'', JString ''string'')])]),
           (''required'', JArray [JString ''type''])])]),
     (''required'', JArray [JString ''input'', JString ''output''])]"

definition bazaar_extension :: "string \<Rightarrow> string option \<Rightarrow> json" where
  "bazaar_extension mimeType routeTemplate = JObject (
     (case routeTemplate of Some (c # cs) \<Rightarrow> [(''routeTemplate'', JString (c # cs))] | _ \<Rightarrow> [])
     @ [(''info'', JObject [
           (''input'', JObject [(''type'', JString ''http''), (''method'', JString ''GET'')]),
           (''output'', JObject [(''type'', JString (if prefix ''application/json'' mimeType then ''json'' else ''text'')),
                                 (''format'', JString mimeType)])]),
        (''schema'', info_schema)])"

definition route_char :: "char \<Rightarrow> bool" where
  "route_char c \<longleftrightarrow> ascii_alnum c \<or> c \<in> set ''_/:.-~%''"

definition is_valid_route_template :: "string \<Rightarrow> bool" where
  "is_valid_route_template t \<longleftrightarrow> prefix ''/'' t \<and> 2 \<le> length t \<and> list_all route_char (tl t) \<and>
     (case decode_uri_component t of None \<Rightarrow> False | Some d \<Rightarrow> \<not> sublist ''..'' d \<and> \<not> sublist ''://'' d)"

definition strip_slashes :: "string \<Rightarrow> string" where
  "strip_slashes p = rev (dropWhile (\<lambda>c. c = CHR ''/'') (rev (dropWhile (\<lambda>c. c = CHR ''/'') p)))"

fun route_template_for :: "string \<Rightarrow> string list \<Rightarrow> string option" where
  "route_template_for pathname [] = None"
| "route_template_for pathname (p # ps) =
     (let head = CHR ''/'' # strip_slashes p @ ''/''; rest = drop (length head) pathname in
      if p = [] then route_template_for pathname ps
      else if \<not> prefix head pathname then route_template_for pathname ps
      else if rest = [] \<or> CHR ''/'' \<in> set rest then None
      else if is_valid_route_template (head @ '':slug'') then Some (head @ '':slug'') else None)"

section \<open>The explanation\<close>

definition network_label :: "network_name \<Rightarrow> string" where
  "network_label n = (case n of Arc \<Rightarrow> ''Arc'' | ArcTestnet \<Rightarrow> ''Arc testnet'' | Base \<Rightarrow> ''Base'' | BaseSepolia \<Rightarrow> ''Base Sepolia''
     | Ethereum \<Rightarrow> ''Ethereum'' | Arbitrum \<Rightarrow> ''Arbitrum'' | Optimism \<Rightarrow> ''Optimism'' | Polygon \<Rightarrow> ''Polygon'' | Avalanche \<Rightarrow> ''Avalanche''
     | Unichain \<Rightarrow> ''Unichain'' | Sei \<Rightarrow> ''Sei'' | Sonic \<Rightarrow> ''Sonic'' | HyperEvm \<Rightarrow> ''HyperEVM'' | WorldChain \<Rightarrow> ''World Chain'')"

definition network_phrase :: "string \<Rightarrow> string" where
  "network_phrase caip = (case network_by_caip2 caip of
     None \<Rightarrow> caip
   | Some n \<Rightarrow> if network_label (sn_name n) = caip then caip else network_label (sn_name n) @ '' ('' @ caip @ '')'')"

definition trim_end :: "string \<Rightarrow> string" where
  "trim_end s = rev (dropWhile js_is_space (rev s))"

text \<open>The ellipsis is the three bytes of its UTF-8 form.\<close>

definition clip :: "string \<Rightarrow> nat \<Rightarrow> string" where
  "clip s m = (if length s \<le> m then s else trim_end (take (m - 1) s) @ [CHR 0xE2, CHR 0x80, CHR 0xA6])"

definition header_error_max :: nat where "header_error_max = 300"

definition link_safe_web_url :: "(string \<Rightarrow> bool) \<Rightarrow> string \<Rightarrow> bool" where
  "link_safe_web_url parses v \<longleftrightarrow> (prefix ''http://'' (js_lower v) \<or> prefix ''https://'' (js_lower v)) \<and>
     \<not> list_ex (\<lambda>c. c \<in> set ''<>,;'' \<or> c = CHR 0x22 \<or> js_is_space c) v \<and> parses v"

definition quote_guide_url :: "build_config \<Rightarrow> quote \<Rightarrow> string" where
  "quote_guide_url cfg q = (case q_buyer_links q of
     Some b \<Rightarrow> if link_safe_web_url (bc_url_parses cfg) (bl_guide b) then bl_guide b else bc_guide_url cfg
   | None \<Rightarrow> bc_guide_url cfg)"

definition leg_amounts :: "settlement_leg list \<Rightarrow> string list" where
  "leg_amounts legs = map (\<lambda>l. rq_amount (lg_req l)) legs"

definition header_error :: "settlement_leg list \<Rightarrow> string \<Rightarrow> toll_error + string" where
  "header_error legs guideUrl = (case Option.bind (total_micro (leg_amounts legs)) format_crawler_price of
     None \<Rightarrow> Inl LegAmountNotDigits
   | Some price \<Rightarrow>
       (let req = lg_req (hd legs); gateway = ge_name (rq_extra req) = ''GatewayWalletBatched'';
            via = (if gateway then '' via Circle Gateway; deposit to the Gateway Wallet '' @ ge_verifying_contract (rq_extra req) @ '' first'' else []);
            head = ''Payment required: '' @ price @ '' in USDC on '' @ network_phrase (rq_network req) @ via @ ''.'';
            a = head @ '' Humans read free in a browser. Guide: '' @ guideUrl;
            b = head @ '' Humans read free in a browser.''
        in Inr (if length a \<le> header_error_max then a else if length b \<le> header_error_max then b else clip head header_error_max)))"

section \<open>The 402\<close>

definition extra_json :: "leg_extra \<Rightarrow> json" where
  "extra_json x = JObject ([(''name'', JString (ge_name x)), (''version'', JString (ge_version x)),
     (''verifyingContract'', JString (ge_verifying_contract x))] @ opt_field ''nonce'' (map_option JString (lx_nonce x)))"

definition requirements_json :: "payment_requirements \<Rightarrow> json" where
  "requirements_json r = JObject ([(''scheme'', JString ''exact''), (''network'', JString (rq_network r)), (''asset'', JString (rq_asset r)),
     (''amount'', JString (rq_amount r)), (''payTo'', JString (rq_pay_to r)), (''maxTimeoutSeconds'', JNumber (of_nat (rq_timeout r))),
     (''extra'', extra_json (rq_extra r))] @ opt_field ''memoId'' (map_option JString (rq_memo_id r)))"

definition naulon_legs_json :: "bool \<Rightarrow> settlement_leg list \<Rightarrow> json" where
  "naulon_legs_json mock legs = JObject [(''version'', JNumber 1), (''settlement'', JString ''author-sync-rest-deferred''),
     (''legs'', JArray (map (\<lambda>l. JObject ([(''role'', JString (lg_role l)), (''payTo'', JString (rq_pay_to (lg_req l))),
        (''amount'', JString (rq_amount (lg_req l)))]
        @ (if mock then opt_field ''nonce'' (map_option JString (lx_nonce (rq_extra (lg_req l)))) else []))) legs))]"

record challenge =
  ch_legs :: "settlement_leg list"
  ch_body :: json

text \<open>The header is the base64 text of \<open>ch_body\<close>.\<close>

definition challenge_body :: "build_config \<Rightarrow> quote \<Rightarrow> string \<Rightarrow> string option \<Rightarrow> settlement_leg list \<Rightarrow> string \<Rightarrow> json" where
  "challenge_body cfg q resourceUrl routeTemplate legs err = JObject [
     (''x402Version'', JNumber 2),
     (''error'', JString err),
     (''resource'', JObject ([(''url'', JString resourceUrl),
        (''description'', JString (''naulon '' @ kind_name (q_kind q) @ '' toll: '' @ q_title q)), (''mimeType'', JString ''text/html'')]
        @ service_metadata (bc_url_host cfg) resourceUrl (q_kind q))),
     (''accepts'', JArray [requirements_json (lg_req (hd legs))]),
     (''extensions'', JObject ([(''bazaar'', bazaar_extension ''text/html'' routeTemplate)]
        @ (if length legs > 1 then [(''naulonLegs'', naulon_legs_json (priced_in_mock cfg q) legs)] else [])))]"

definition with_nonces :: "build_config \<Rightarrow> quote \<Rightarrow> nat \<Rightarrow> settlement_leg list \<Rightarrow> settlement_leg list" where
  "with_nonces cfg q now ls = (if priced_in_mock cfg q then map (with_nonce cfg now) (zip [0..<length ls] ls) else ls)"

definition build_402 :: "build_config \<Rightarrow> quote \<Rightarrow> string \<Rightarrow> nat \<Rightarrow> string option \<Rightarrow> toll_error + challenge" where
  "build_402 cfg q resourceUrl now routeTemplate =
     bind_sum (all_legs cfg q) (\<lambda>ls. let legs = with_nonces cfg q now ls in
     bind_sum (header_error legs (quote_guide_url cfg q)) (\<lambda>err.
       Inr \<lparr>ch_legs = legs, ch_body = challenge_body cfg q resourceUrl routeTemplate legs err\<rparr>))"

section \<open>Lemmas\<close>

lemma to_micro_int_string: "0 \<le> i \<Longrightarrow> to_micro (int_string i) = Some i"
proof -
  assume i: "0 \<le> i"
  have t: "js_trim (nat_string 10 n) = nat_string 10 n" for n
    using nat_string_digits [of n] digit_plain by (intro js_trim_plain) (auto simp: list_all_iff)
  show ?thesis using i nat_string_digits [of "nat i"] by (simp add: to_micro_def int_string_def t all_digits_def)
qed

lemma to_atomic_usdc_int_string: "to_atomic_usdc q = int_string (js_round (q * micro_unit))"
  by (simp add: to_atomic_usdc_def int_string_def Let_def)

lemma total_micro_append:
  "total_micro (as @ bs) = (case (total_micro as, total_micro bs) of (Some a, Some b) \<Rightarrow> Some (a + b) | _ \<Rightarrow> None)"
  by (induction as) (auto split: option.splits)

lemma total_micro_ints: "list_all (\<lambda>i. 0 \<le> i) ns \<Longrightarrow> total_micro (map int_string ns) = Some (sum_list ns)"
  by (induction ns) (auto simp: to_micro_int_string)

text \<open>The chain, asset and window of every leg are those of the quote's network.\<close>

definition quote_network :: "build_config \<Rightarrow> quote \<Rightarrow> settlement_network" where
  "quote_network cfg q = get_network (case q_network q of Some n \<Rightarrow> n | None \<Rightarrow> bc_active_network cfg)"

definition leg_on :: "build_config \<Rightarrow> quote \<Rightarrow> settlement_leg \<Rightarrow> bool" where
  "leg_on cfg q l \<longleftrightarrow> rq_network (lg_req l) = sn_network (quote_network cfg q) \<and> rq_asset (lg_req l) = sn_usdc (quote_network cfg q) \<and>
     rq_timeout (lg_req l) = bc_timeout cfg \<and> rq_memo_id (lg_req l) = q_memo_id q \<and>
     gateway_extra.truncate (rq_extra (lg_req l)) = gateway_extra_of (quote_network cfg q)"

lemma author_legs_ask:
  assumes "q_payees q \<noteq> []" "sum_list (map share (q_payees q)) = 1" "\<forall>p \<in> set (q_payees q). 0 \<le> share p" "0 \<le> q_price q"
    and "build_requirements cfg q = Inr req"
  obtains l ls where "author_legs cfg q req = Inr (l # ls)"
    and "total_micro (leg_amounts (l # ls)) = Some (js_round (q_price q * micro_unit))"
    and "primary_payee (q_payees q) (bc_tie_break cfg) = Inr (rq_pay_to (lg_req l))" "lg_role l = ''author''"
    and "list_all (leg_on cfg q) (l # ls)" "distinct (map (\<lambda>l. rq_pay_to (lg_req l)) (l # ls))"
    and "\<forall>x \<in> set (l # ls). rq_pay_to (lg_req x) \<in> wallet ` set (q_payees q)"
proof -
  have price: "0 \<le> js_round (q_price q * micro_unit)"
    using assms(4) by (simp add: js_round_def micro_unit_def)
  obtain s where s: "split_author_legs (q_payees q) (js_round (q_price q * micro_unit)) (bc_tie_break cfg) = Inr s"
    "primaryAmountMicro s + sum_list (map snd (coauthorLegs s)) = js_round (q_price q * micro_unit)"
    "distinct (map fst (coauthorLegs s))" "primaryPayTo s \<notin> fst ` set (coauthorLegs s)"
    "\<forall>(w, m) \<in> set (coauthorLegs s). 0 < m \<and> w \<in> wallet ` set (q_payees q)"
    "primary_payee (q_payees q) (bc_tie_break cfg) = Inr (primaryPayTo s)" "0 \<le> primaryAmountMicro s"
    by (rule split_author_legs_sum [OF assms(1-3) price])
  have req: "rq_pay_to req = primaryPayTo s" "rq_amount req = int_string (js_round (q_price q * micro_unit))"
    "leg_on cfg q \<lparr>lg_role = r, lg_req = req\<rparr>" for r
    using assms(5) s(6) by (auto simp: build_requirements_def to_atomic_usdc_int_string leg_on_def quote_network_def plain_extra_def
        gateway_extra.defs leg_extra.defs Let_def)
  have w: "primaryPayTo s \<in> wallet ` set (q_payees q)" using primary_payee_in s(6) by blast
  show thesis
  proof (cases "q_coauthor_split q \<and> length (wallet_totals (q_payees q)) > 1")
    case False
    then have "author_legs cfg q req = Inr [\<lparr>lg_role = ''author'', lg_req = req\<rparr>]" by (auto simp: author_legs_def)
    then show thesis
      by (rule that) (use req s(6) w price in \<open>simp_all add: leg_amounts_def to_micro_int_string\<close>)
  next
    case True
    let ?r = "req\<lparr>rq_amount := int_string (primaryAmountMicro s), rq_pay_to := primaryPayTo s\<rparr>"
    let ?ls = "map (\<lambda>(w, m). leg_like ?r ''coauthor'' w (int_string m)) (coauthorLegs s)"
    have a: "author_legs cfg q req = Inr (\<lparr>lg_role = ''author'', lg_req = ?r\<rparr> # ?ls)"
      using True s(1) by (simp add: author_legs_def Let_def)
    have m: "leg_amounts (\<lparr>lg_role = ''author'', lg_req = ?r\<rparr> # ?ls) = map int_string (primaryAmountMicro s # map snd (coauthorLegs s))"
      by (auto simp: leg_amounts_def leg_like_def)
    have t: "total_micro (leg_amounts (\<lparr>lg_role = ''author'', lg_req = ?r\<rparr> # ?ls)) = Some (js_round (q_price q * micro_unit))"
      unfolding m by (subst total_micro_ints) (use s(2,5,7) in \<open>auto simp: list_all_iff\<close>)
    have p: "map (\<lambda>l. rq_pay_to (lg_req l)) ?ls = map fst (coauthorLegs s)" by (auto simp: leg_like_def)
    show thesis
    proof (rule that [OF a t])
      show "list_all (leg_on cfg q) (\<lparr>lg_role = ''author'', lg_req = ?r\<rparr> # ?ls)"
        using req(3) by (auto simp: list_all_iff leg_on_def leg_like_def)
      show "distinct (map (\<lambda>l. rq_pay_to (lg_req l)) (\<lparr>lg_role = ''author'', lg_req = ?r\<rparr> # ?ls))"
        unfolding list.map p using s(3,4) by simp
      show "\<forall>x \<in> set (\<lparr>lg_role = ''author'', lg_req = ?r\<rparr> # ?ls). rq_pay_to (lg_req x) \<in> wallet ` set (q_payees q)"
        using s(5) w by (auto simp: leg_like_def)
    qed (use s(6) in simp_all)
  qed
qed

lemma author_legs_head: "author_legs cfg q req = Inr ls \<Longrightarrow> ls \<noteq> []"
  by (auto simp: author_legs_def bind_sum_Inr_iff Let_def split: if_splits)

text \<open>A quote made from a valid credits graph always yields a 402 whose legs add up to the price and the
  publisher's extra legs.\<close>

lemma all_legs_ask:
  assumes "q_payees q \<noteq> []" "sum_list (map share (q_payees q)) = 1" "\<forall>p \<in> set (q_payees q). 0 \<le> share p" "0 \<le> q_price q"
    and fees: "total_micro (map pl_amount (q_extra_legs q)) = Some fees"
  obtains l ls where "all_legs cfg q = Inr (l # ls)"
    and "total_micro (leg_amounts (l # ls)) = Some (js_round (q_price q * micro_unit) + fees)"
    and "primary_payee (q_payees q) (bc_tie_break cfg) = Inr (rq_pay_to (lg_req l))" "lg_role l = ''author''"
    and "list_all (leg_on cfg q) (l # ls)"
proof -
  obtain w where w: "primary_payee (q_payees q) (bc_tie_break cfg) = Inr w" using primary_payee_total [OF assms(1)] by blast
  then obtain req where req: "build_requirements cfg q = Inr req" by (auto simp: build_requirements_def Let_def)
  obtain l ls where a: "author_legs cfg q req = Inr (l # ls)" "total_micro (leg_amounts (l # ls)) = Some (js_round (q_price q * micro_unit))"
    "primary_payee (q_payees q) (bc_tie_break cfg) = Inr (rq_pay_to (lg_req l))" "lg_role l = ''author''" "list_all (leg_on cfg q) (l # ls)"
    by (rule author_legs_ask [OF assms(1-4) req])
  let ?ex = "map (\<lambda>x. leg_like (lg_req l) (pl_role x) (pl_pay_to x) (pl_amount x)) (q_extra_legs q)"
  have "all_legs cfg q = Inr (l # ls @ ?ex)" by (simp add: all_legs_def req a(1))
  moreover have "leg_amounts (l # ls @ ?ex) = leg_amounts (l # ls) @ map pl_amount (q_extra_legs q)"
    by (simp add: leg_amounts_def leg_like_def comp_def)
  then have "total_micro (leg_amounts (l # ls @ ?ex)) = Some (js_round (q_price q * micro_unit) + fees)"
    using a(2) fees by (simp only: total_micro_append) simp
  moreover have "list_all (leg_on cfg q) (l # ls @ ?ex)" using a(5) by (auto simp: list_all_iff leg_on_def leg_like_def)
  ultimately show thesis using that a(3,4) by blast
qed

lemma total_micro_nonneg: "total_micro as = Some t \<Longrightarrow> 0 \<le> t"
  by (induction as arbitrary: t) (auto simp: to_micro_def split: option.splits if_splits)

lemma header_error_ok: "total_micro (leg_amounts legs) = Some t \<Longrightarrow> \<exists>e. header_error legs g = Inr e"
  using total_micro_nonneg by (fastforce simp: header_error_def Let_def format_crawler_price_def not_less)

lemma with_nonce_kept:
  "leg_amounts (map (with_nonce cfg now) (zip [0..<length ls] ls)) = leg_amounts ls"
  "map lg_role (map (with_nonce cfg now) (zip [0..<length ls] ls)) = map lg_role ls"
  "map (\<lambda>l. rq_pay_to (lg_req l)) (map (with_nonce cfg now) (zip [0..<length ls] ls)) = map (\<lambda>l. rq_pay_to (lg_req l)) ls"
  "list_all (leg_on cfg' q) (map (with_nonce cfg now) (zip [0..<length ls] ls)) = list_all (leg_on cfg' q) ls"
proof -
  have k: "map (f \<circ> with_nonce cfg now) (zip is ls) = map f (map snd (zip is ls))"
    if "\<And>i l. f (with_nonce cfg now (i, l)) = f l" for f :: "settlement_leg \<Rightarrow> 'x" and "is" using that by auto
  have z: "map snd (zip [0..<length ls] ls) = ls" by simp
  show "leg_amounts (map (with_nonce cfg now) (zip [0..<length ls] ls)) = leg_amounts ls"
    unfolding leg_amounts_def map_map by (subst k) (simp_all add: with_nonce_def z)
  show "map lg_role (map (with_nonce cfg now) (zip [0..<length ls] ls)) = map lg_role ls"
    unfolding map_map by (subst k) (simp_all add: with_nonce_def z)
  show "map (\<lambda>l. rq_pay_to (lg_req l)) (map (with_nonce cfg now) (zip [0..<length ls] ls)) = map (\<lambda>l. rq_pay_to (lg_req l)) ls"
    unfolding map_map by (subst k) (simp_all add: with_nonce_def z)
  have "leg_on cfg' q (with_nonce cfg now (i, l)) = leg_on cfg' q l" for i l
    by (simp add: leg_on_def with_nonce_def gateway_extra.defs)
  then have m: "map (leg_on cfg' q) (map (with_nonce cfg now) (zip [0..<length ls] ls)) = map (leg_on cfg' q) ls"
    unfolding map_map by (subst k) (simp_all add: z)
  have "list_all (leg_on cfg' q) xs = list_all id (map (leg_on cfg' q) xs)" for xs by (simp add: list.pred_map)
  then show "list_all (leg_on cfg' q) (map (with_nonce cfg now) (zip [0..<length ls] ls)) = list_all (leg_on cfg' q) ls"
    by (metis m)
qed

lemma with_nonces_kept:
  "leg_amounts (with_nonces cfg q now ls) = leg_amounts ls"
  "map lg_role (with_nonces cfg q now ls) = map lg_role ls"
  "map (\<lambda>l. rq_pay_to (lg_req l)) (with_nonces cfg q now ls) = map (\<lambda>l. rq_pay_to (lg_req l)) ls"
  "list_all (leg_on cfg' q') (with_nonces cfg q now ls) = list_all (leg_on cfg' q') ls"
  unfolding with_nonces_def by (cases "priced_in_mock cfg q"; simp only: if_True if_False with_nonce_kept)+

lemma build_402_asks:
  assumes "q_payees q \<noteq> []" "sum_list (map share (q_payees q)) = 1" "\<forall>p \<in> set (q_payees q). 0 \<le> share p" "0 \<le> q_price q"
    "total_micro (map pl_amount (q_extra_legs q)) = Some fees"
  shows "\<exists>ch l ls. build_402 cfg q url now template = Inr ch \<and> ch_legs ch = l # ls \<and>
     total_micro (leg_amounts (ch_legs ch)) = Some (js_round (q_price q * micro_unit) + fees) \<and>
     primary_payee (q_payees q) (bc_tie_break cfg) = Inr (rq_pay_to (lg_req l)) \<and> lg_role l = ''author'' \<and>
     list_all (leg_on cfg q) (ch_legs ch)"
proof -
  obtain l ls where a: "all_legs cfg q = Inr (l # ls)"
    "total_micro (leg_amounts (l # ls)) = Some (js_round (q_price q * micro_unit) + fees)"
    "primary_payee (q_payees q) (bc_tie_break cfg) = Inr (rq_pay_to (lg_req l))" "lg_role l = ''author''"
    "list_all (leg_on cfg q) (l # ls)" by (rule all_legs_ask [OF assms])
  define legs where "legs = with_nonces cfg q now (l # ls)"
  note k = with_nonces_kept [where cfg = cfg and q = q and now = now and ls = "l # ls", folded legs_def]
  have t: "total_micro (leg_amounts legs) = Some (js_round (q_price q * micro_unit) + fees)" unfolding k(1) by (rule a(2))
  have on: "list_all (leg_on cfg q) legs" unfolding k(4) by (rule a(5))
  note r = k(2,3)
  obtain l' ls' where l': "legs = l' # ls'" using r(1) by (cases legs) auto
  with r have "lg_role l' = lg_role l" "rq_pay_to (lg_req l') = rq_pay_to (lg_req l)" by simp_all
  then have h: "primary_payee (q_payees q) (bc_tie_break cfg) = Inr (rq_pay_to (lg_req l'))" "lg_role l' = ''author''"
    unfolding a(4) using a(3) by simp_all
  obtain e where e: "header_error legs (quote_guide_url cfg q) = Inr e" using header_error_ok [OF t] by blast
  have "build_402 cfg q url now template = Inr \<lparr>ch_legs = legs, ch_body = challenge_body cfg q url template legs e\<rparr>"
    unfolding build_402_def a(1) bind_sum.simps Let_def legs_def [symmetric] e ..
  moreover have "ch_legs \<lparr>ch_legs = legs, ch_body = challenge_body cfg q url template legs e\<rparr> = legs" by simp
  ultimately show ?thesis using l' t on h by metis
qed

end
