(* ===== verification/CrawlerRanges.thy ===== *)
theory CrawlerRanges
  imports IpRange
begin

text \<open>
  The crawler ranges document of a gate, \<open>packages/shared/src/crawlerRanges.ts\<close>: reading an operator's
  published file, what one fetch does to a source's state, the union of prefixes that stay valid, and
  the document a gate serves. Times are milliseconds.
\<close>

section \<open>Model\<close>

definition union_ms :: int where "union_ms = 30 * 86400000"
definition fresh_ms :: int where "fresh_ms = 7 * 86400000"
definition shrink_ratio :: rat where "shrink_ratio = 1 / 2"
definition shrink_confirmations :: nat where "shrink_confirmations = 3"

definition valid_prefix :: "json \<Rightarrow> bool" where
  "valid_prefix j = (case j of JString s \<Rightarrow> parse_cidr no_opts s \<noteq> None | _ \<Rightarrow> False)"

text \<open>\<open>a ?? b\<close>.\<close>

definition json_or :: "json \<Rightarrow> json \<Rightarrow> json" where
  "json_or a b = (if a = JNull \<or> a = JUndefined then b else a)"

definition range_entry :: "json \<Rightarrow> string option" where
  "range_entry p = (if \<not> json_is_object p then None
     else (case json_or (json_prop p ''ipv4Prefix'') (json_prop p ''ipv6Prefix'') of
         JString s \<Rightarrow> if valid_prefix (JString s) then Some (js_trim s) else None
       | _ \<Rightarrow> None))"

text \<open>\<open>None\<close> for the parsed body is a body that is not JSON.\<close>

definition parse_range_file :: "json option \<Rightarrow> string list option" where
  "parse_range_file body = (case body of None \<Rightarrow> None
     | Some j \<Rightarrow> (if \<not> json_is_object j then None
         else (case json_prop j ''prefixes'' of
             JArray ps \<Rightarrow> (let out = List.map_filter range_entry ps in if out \<noteq> [] then Some out else None)
           | _ \<Rightarrow> None)))"

definition strip_cr :: "string \<Rightarrow> string" where
  "strip_cr l = (if suffix [CHR 0x0D] l then butlast l else l)"

definition parse_line_list :: "string \<Rightarrow> string list option" where
  "parse_line_list body =
     (let ls = js_split CHR 0x0A body;
          out = filter (\<lambda>l. valid_prefix (JString l)) (map js_trim (map strip_cr (butlast ls) @ [last ls]))
      in if out \<noteq> [] then Some out else None)"

datatype source_status = SrcOk | SrcRedirected | SrcHttpError | SrcBadShape | SrcShrunk | SrcUnreachable | SrcNeverFetched

record source_health =
  h_url :: string
  h_status :: source_status
  h_since :: int
  h_final_url :: "string option"
  h_detail :: "string option"

record source_state =
  s_url :: string
  s_last_good_at :: "int option"
  s_last_good_count :: nat
  s_seen :: "(string, int) js_map"
  s_health :: source_health
  s_shrunk_sig :: "string option"
  s_shrunk_runs :: "nat option"

datatype fetch_outcome =
    FetchOk "string list" string
  | FetchHttpError nat
  | FetchBadShape string
  | FetchUnreachable string

definition empty_source_state :: "string \<Rightarrow> int \<Rightarrow> source_state" where
  "empty_source_state url now =
     \<lparr>s_url = url, s_last_good_at = None, s_last_good_count = 0, s_seen = [],
      s_health = \<lparr>h_url = url, h_status = SrcNeverFetched, h_since = now, h_final_url = None, h_detail = None\<rparr>,
      s_shrunk_sig = None, s_shrunk_runs = None\<rparr>"

definition next_health :: "source_health \<Rightarrow> source_status \<Rightarrow> int \<Rightarrow> string option \<Rightarrow> string option \<Rightarrow> source_health" where
  "next_health prev st now final detail =
     \<lparr>h_url = h_url prev, h_status = st, h_since = (if h_status prev = st then h_since prev else now),
      h_final_url = final, h_detail = detail\<rparr>"

definition copy_sig :: "string list \<Rightarrow> string" where
  "copy_sig ps = js_join '','' (sort ps)"

definition within_union :: "int \<Rightarrow> int \<Rightarrow> bool" where
  "within_union now t \<longleftrightarrow> now - t \<le> union_ms"

definition accept_copy :: "source_state \<Rightarrow> string list \<Rightarrow> string \<Rightarrow> int \<Rightarrow> source_state" where
  "accept_copy st ps finalUrl now =
     (let kept = filter (\<lambda>(p, t). within_union now t) (s_seen st);
          seen = foldl (\<lambda>m p. AList.update p now m) kept ps;
          redirected = (finalUrl \<noteq> s_url st)
      in \<lparr>s_url = s_url st, s_last_good_at = Some now, s_last_good_count = length ps, s_seen = seen,
          s_health = next_health (s_health st) (if redirected then SrcRedirected else SrcOk) now
            (if redirected then Some finalUrl else None) None,
          s_shrunk_sig = None, s_shrunk_runs = None\<rparr>)"

definition shrunk_copy :: "source_state \<Rightarrow> string list \<Rightarrow> bool" where
  "shrunk_copy st ps \<longleftrightarrow> s_last_good_count st > 0 \<and>
     (of_nat (length ps) :: rat) < of_nat (s_last_good_count st) * shrink_ratio"

definition shrunk_runs_of :: "source_state \<Rightarrow> string list \<Rightarrow> nat" where
  "shrunk_runs_of st ps = (if s_shrunk_sig st = Some (copy_sig ps)
     then (case s_shrunk_runs st of None \<Rightarrow> 0 | Some n \<Rightarrow> n) + 1 else 1)"

definition apply_fetch :: "source_state \<Rightarrow> fetch_outcome \<Rightarrow> int \<Rightarrow> source_state" where
  "apply_fetch st out now = (case out of
     FetchHttpError code \<Rightarrow> st\<lparr>s_health := next_health (s_health st) SrcHttpError now None (Some (''HTTP '' @ nat_string 10 code))\<rparr>
   | FetchBadShape d \<Rightarrow> st\<lparr>s_health := next_health (s_health st) SrcBadShape now None (Some d)\<rparr>
   | FetchUnreachable d \<Rightarrow> st\<lparr>s_health := next_health (s_health st) SrcUnreachable now None (Some d)\<rparr>
   | FetchOk ps finalUrl \<Rightarrow>
       if shrunk_copy st ps \<and> shrunk_runs_of st ps < shrink_confirmations
       then st\<lparr>s_shrunk_sig := Some (copy_sig ps), s_shrunk_runs := Some (shrunk_runs_of st ps),
               s_health := next_health (s_health st) SrcShrunk now None
                 (Some (nat_string 10 (length ps) @ '' prefixes, last good copy had '' @ nat_string 10 (s_last_good_count st)))\<rparr>
       else accept_copy st ps finalUrl now)"

definition union_of :: "source_state \<Rightarrow> int \<Rightarrow> string list" where
  "union_of st now = map fst (filter (\<lambda>(p, t). within_union now t) (s_seen st))"

datatype proof_kind = RangesProof | SignatureProof | NoProof

record ranges_operator =
  op_id :: string
  op_operator :: string
  op_fragments :: "string list"
  op_kind :: proof_kind
  op_forged_eligible :: bool
  op_fetched_at :: "string option"
  op_prefixes :: "string list"

record ranges_document =
  doc_generated_at :: string
  doc_proxies :: "(string, string list) js_map"
  doc_operators :: "ranges_operator list"
  doc_sources :: json

definition str_arr :: "json \<Rightarrow> string list option" where
  "str_arr j = (case j of JArray js \<Rightarrow> json_strings js | _ \<Rightarrow> None)"

fun parse_proxies :: "(string \<times> json) list \<Rightarrow> (string, string list) js_map option" where
  "parse_proxies [] = Some []"
| "parse_proxies ((k, v) # rest) = (case str_arr v of
     None \<Rightarrow> None
   | Some ss \<Rightarrow> if ss = [] then None else map_option (Cons (k, ss)) (parse_proxies rest))"

definition proof_kind_of :: "json \<Rightarrow> proof_kind option" where
  "proof_kind_of j = (if j = JString ''ranges'' then Some RangesProof
     else if j = JString ''signature'' then Some SignatureProof
     else if j = JString ''none'' then Some NoProof else None)"

definition parse_operator :: "json \<Rightarrow> ranges_operator option" where
  "parse_operator o' = (if \<not> json_is_object o' then None else
     (case (json_prop o' ''id'', json_prop o' ''operator'', str_arr (json_prop o' ''fragments''), str_arr (json_prop o' ''prefixes'')) of
        (JString i, JString n, Some frs, Some ps) \<Rightarrow>
          if list_ex (\<lambda>f. f = []) frs then None
          else (case (proof_kind_of (json_prop o' ''kind''), json_prop o' ''forgedEligible'') of
              (Some kd, JBool fe) \<Rightarrow>
                (let mk = (\<lambda>fa. \<lparr>op_id = i, op_operator = n, op_fragments = map js_lower frs, op_kind = kd,
                     op_forged_eligible = fe, op_fetched_at = fa, op_prefixes = ps\<rparr>)
                 in case json_prop o' ''fetchedAt'' of JNull \<Rightarrow> Some (mk None) | JString t \<Rightarrow> Some (mk (Some t)) | _ \<Rightarrow> None)
            | _ \<Rightarrow> None)
      | _ \<Rightarrow> None))"

fun parse_operators :: "json list \<Rightarrow> ranges_operator list option" where
  "parse_operators [] = Some []"
| "parse_operators (o' # rest) = (case parse_operator o' of None \<Rightarrow> None
     | Some op' \<Rightarrow> map_option (Cons op') (parse_operators rest))"

definition parse_ranges_document :: "json \<Rightarrow> ranges_document option" where
  "parse_ranges_document raw = (if \<not> json_is_object raw then None else
     (case (json_prop raw ''version'', json_prop raw ''generatedAt'', json_prop raw ''operators'', json_prop raw ''proxies'') of
        (JNumber v, JString g, JArray ops, px) \<Rightarrow>
          if v \<noteq> 1 then None else
          (case px of
             JObject kvs \<Rightarrow> (case parse_proxies kvs of None \<Rightarrow> None
               | Some proxies \<Rightarrow> (case parse_operators ops of None \<Rightarrow> None
                   | Some os \<Rightarrow> Some \<lparr>doc_generated_at = g, doc_proxies = proxies, doc_operators = os,
                       doc_sources = (case json_prop raw ''sources'' of JArray xs \<Rightarrow> JArray xs | _ \<Rightarrow> JArray [])\<rparr>))
           | _ \<Rightarrow> None)
      | _ \<Rightarrow> None))"

record compiled_operator =
  co_id :: string
  co_operator :: string
  co_fragments :: "string list"
  co_kind :: proof_kind
  co_forged_eligible :: bool
  co_fetched_at_ms :: "int option"
  co_set :: range_set

record compiled_ranges =
  cr_operators :: "(string, compiled_operator) js_map"
  cr_table :: "compiled_operator list"
  cr_proxies :: "(string, range_set) js_map"

text \<open>\<open>Date.parse\<close> is a parameter: \<open>None\<close> is its NaN.\<close>

definition compile_operator :: "(string \<Rightarrow> int option) \<Rightarrow> ranges_operator \<Rightarrow> compiled_operator" where
  "compile_operator date_parse o' =
     \<lparr>co_id = op_id o', co_operator = op_operator o', co_fragments = op_fragments o', co_kind = op_kind o',
      co_forged_eligible = op_forged_eligible o', co_fetched_at_ms = Option.bind (op_fetched_at o') date_parse,
      co_set = fst (ranges_from_strings no_opts (op_prefixes o'))\<rparr>"

definition compile_ranges :: "(string \<Rightarrow> int option) \<Rightarrow> ranges_document \<Rightarrow> compiled_ranges" where
  "compile_ranges date_parse doc =
     (let tbl = map (compile_operator date_parse) (doc_operators doc)
      in \<lparr>cr_operators = foldl (\<lambda>m c. AList.update (co_id c) c m) [] tbl, cr_table = tbl,
          cr_proxies = map (\<lambda>(k, v). (k, fst (ranges_from_strings no_opts v))) (doc_proxies doc)\<rparr>)"

definition is_fresh :: "compiled_operator \<Rightarrow> int \<Rightarrow> bool" where
  "is_fresh c now = (case co_fetched_at_ms c of None \<Rightarrow> False | Some t \<Rightarrow> now - t \<le> fresh_ms)"

section \<open>A run of fetches\<close>

type_synonym fetch_log = "(fetch_outcome \<times> int) list"

definition run_fetches :: "source_state \<Rightarrow> fetch_log \<Rightarrow> source_state" where
  "run_fetches st evs = foldl (\<lambda>st (out, t). apply_fetch st out t) st evs"

lemma run_fetches_simps [simp]: "run_fetches st [] = st"
  "run_fetches st (evs @ [(out, t)]) = apply_fetch (run_fetches st evs) out t"
  by (auto simp: run_fetches_def)

text \<open>The copies a run applied, with their times: those the code did not hold back.\<close>

fun applied_copies :: "source_state \<Rightarrow> fetch_log \<Rightarrow> (int \<times> string list) list" where
  "applied_copies st [] = []"
| "applied_copies st ((out, t) # evs) = (case out of
     FetchOk ps _ \<Rightarrow> if shrunk_copy st ps \<and> shrunk_runs_of st ps < shrink_confirmations then [] else [(t, ps)]
   | _ \<Rightarrow> []) @ applied_copies (apply_fetch st out t) evs"

definition served_copies :: "fetch_log \<Rightarrow> string list list" where
  "served_copies evs = List.map_filter (\<lambda>(out, t). case out of FetchOk ps _ \<Rightarrow> Some ps | _ \<Rightarrow> None) evs"

lemma served_copies_snoc: "served_copies (evs @ [(out, t)]) =
    served_copies evs @ (case out of FetchOk ps _ \<Rightarrow> [ps] | _ \<Rightarrow> [])"
  by (auto simp: served_copies_def List.map_filter_def split: fetch_outcome.splits)

lemma applied_copies_snoc: "applied_copies st (evs @ [(out, t)]) = applied_copies st evs @ (case out of
     FetchOk ps _ \<Rightarrow> if shrunk_copy (run_fetches st evs) ps \<and> shrunk_runs_of (run_fetches st evs) ps < shrink_confirmations
       then [] else [(t, ps)] | _ \<Rightarrow> [])"
  by (induction evs arbitrary: st) (auto simp: run_fetches_def split: fetch_outcome.splits)

lemma foldl_update_map_of:
  "map_of (foldl (\<lambda>m p. AList.update p v m) m ps) k = (if k \<in> set ps then Some v else map_of m k)"
  by (induction ps arbitrary: m) (auto simp: map_of_update)

lemma distinct_foldl_update:
  "distinct (map fst m) \<Longrightarrow> distinct (map fst (foldl (\<lambda>m p. AList.update p v m) m ps))"
  by (induction ps arbitrary: m) (auto simp: distinct_keys_update)

lemma distinct_filter_keys: "distinct (map fst m) \<Longrightarrow> distinct (map fst (filter P m))"
  by (induction m) (auto simp: image_iff)

lemma map_of_filter_keys:
  assumes "distinct (map fst m)"
  shows "map_of (filter (\<lambda>(p, t). P t) m) k = (case map_of m k of None \<Rightarrow> None | Some t \<Rightarrow> if P t then Some t else None)"
  using assms
proof (induction m)
  case (Cons e m)
  then have "fst e \<notin> fst ` set m" by simp
  then have "map_of m (fst e) = None" by (simp add: map_of_eq_None_iff)
  with Cons show ?case by (cases e) (auto split: option.splits)
qed simp

text \<open>The state after a run, against its log: a prefix is recorded with the last time it was in an
  applied copy, and what was dropped was out of the window.\<close>

definition seen_ok :: "source_state \<Rightarrow> (int \<times> string list) list \<Rightarrow> int \<Rightarrow> bool" where
  "seen_ok st hist now \<longleftrightarrow> distinct (map fst (s_seen st)) \<and>
     (\<forall>p t. map_of (s_seen st) p = Some t \<longrightarrow> (\<exists>ps. (t, ps) \<in> set hist \<and> p \<in> set ps)) \<and>
     (\<forall>(t, ps) \<in> set hist. \<forall>p \<in> set ps. t \<le> now \<and> (within_union now t \<longrightarrow> (\<exists>u \<ge> t. map_of (s_seen st) p = Some u)))"

lemma within_union_mono: "within_union now t \<Longrightarrow> t \<le> u \<Longrightarrow> within_union now u"
  "within_union now t \<Longrightarrow> earlier \<le> now \<Longrightarrow> within_union earlier t"
  by (auto simp: within_union_def)

lemma seen_ok_later: "seen_ok st hist now \<Longrightarrow> now \<le> t \<Longrightarrow> s_seen st' = s_seen st \<Longrightarrow> seen_ok st' hist t"
  unfolding seen_ok_def using within_union_mono(2) by fastforce

lemma seen_ok_accept:
  assumes ok: "seen_ok st hist now" and t: "now \<le> t"
  shows "seen_ok (accept_copy st ps url t) (hist @ [(t, ps)]) t"
proof -
  let ?m = "s_seen (accept_copy st ps url t)"
  have d: "distinct (map fst (s_seen st))" using ok by (simp add: seen_ok_def)
  have m: "map_of ?m p = (if p \<in> set ps then Some t else
      case map_of (s_seen st) p of None \<Rightarrow> None | Some u \<Rightarrow> if within_union t u then Some u else None)" for p
    by (simp add: accept_copy_def Let_def foldl_update_map_of map_of_filter_keys [OF d])
  have 1: "distinct (map fst ?m)"
    by (simp add: accept_copy_def Let_def distinct_foldl_update distinct_filter_keys d)
  have 2: "\<exists>qs. (u, qs) \<in> set (hist @ [(t, ps)]) \<and> p \<in> set qs" if "map_of ?m p = Some u" for p u
  proof (cases "p \<in> set ps")
    case False
    with that have "map_of (s_seen st) p = Some u" unfolding m by (auto split: option.splits if_splits)
    then have "\<exists>qs. (u, qs) \<in> set hist \<and> p \<in> set qs" using ok unfolding seen_ok_def by blast
    then show ?thesis by auto
  qed (use that in \<open>auto simp: m\<close>)
  have 3: "u \<le> t \<and> (within_union t u \<longrightarrow> (\<exists>w \<ge> u. map_of ?m p = Some w))"
    if h: "(u, qs) \<in> set (hist @ [(t, ps)])" "p \<in> set qs" for u qs p
  proof -
    have old: "u \<le> now \<and> (within_union now u \<longrightarrow> (\<exists>w \<ge> u. map_of (s_seen st) p = Some w))" if "(u, qs) \<in> set hist"
      using ok that h(2) unfolding seen_ok_def by blast
    have "u \<le> t" using old h(1) t by (cases "(u, qs) \<in> set hist") auto
    moreover have "\<exists>w \<ge> u. map_of ?m p = Some w" if w: "within_union t u"
    proof (cases "p \<in> set ps")
      case True
      then show ?thesis using \<open>u \<le> t\<close> unfolding m by auto
    next
      case False
      with h have "(u, qs) \<in> set hist" by auto
      then obtain w where "u \<le> w" "map_of (s_seen st) p = Some w" using old w t within_union_mono(2) by blast
      then show ?thesis using False w within_union_mono(1) unfolding m by auto
    qed
    ultimately show ?thesis by blast
  qed
  show ?thesis unfolding seen_ok_def using 1 2 3 by blast
qed

fun ordered_log :: "int \<Rightarrow> fetch_log \<Rightarrow> bool" where
  "ordered_log start [] \<longleftrightarrow> True"
| "ordered_log start ((out, t) # evs) \<longleftrightarrow> start \<le> t \<and> ordered_log t evs"

fun log_end :: "int \<Rightarrow> fetch_log \<Rightarrow> int" where
  "log_end start [] = start"
| "log_end start ((out, t) # evs) = log_end t evs"

lemma ordered_log_snoc: "ordered_log start (evs @ [(out, t)]) \<longleftrightarrow> ordered_log start evs \<and> log_end start evs \<le> t"
  by (induction start evs rule: ordered_log.induct) auto

lemma log_end_snoc: "log_end start (evs @ [(out, t)]) = t"
  by (induction start evs rule: log_end.induct) auto

lemma run_seen_ok:
  assumes "ordered_log start evs"
  shows "seen_ok (run_fetches (empty_source_state url start) evs) (applied_copies (empty_source_state url start) evs) (log_end start evs)"
  using assms
proof (induction evs rule: rev_induct)
  case Nil
  then show ?case by (simp add: seen_ok_def empty_source_state_def)
next
  case (snoc e evs)
  obtain out t where e: "e = (out, t)" by (cases e)
  have o: "ordered_log start evs" "log_end start evs \<le> t" using snoc.prems by (auto simp: e ordered_log_snoc)
  note IH = snoc.IH [OF o(1)]
  show ?case unfolding e run_fetches_simps applied_copies_snoc log_end_snoc
    using seen_ok_accept [OF IH o(2)] seen_ok_later [OF IH o(2)]
    by (cases out) (auto simp: apply_fetch_def)
qed


text \<open>The shrink guard, against the log: a run of refusals is a run of equal copies at the end of what
  the source served.\<close>

definition shrink_ok :: "source_state \<Rightarrow> string list list \<Rightarrow> bool" where
  "shrink_ok st served \<longleftrightarrow> (case s_shrunk_sig st of None \<Rightarrow> True
     | Some g \<Rightarrow> (\<exists>pre same. served = pre @ same \<and> s_shrunk_runs st = Some (length same) \<and> list_all (\<lambda>c. copy_sig c = g) same))"

lemma shrink_ok_health: "shrink_ok (st\<lparr>s_health := h\<rparr>) served \<longleftrightarrow> shrink_ok st served"
  unfolding shrink_ok_def by (simp cong: option.case_cong)

lemma shrink_ok_served:
  assumes "shrink_ok st served"
  shows "\<exists>pre same. served @ [ps] = pre @ same @ [ps] \<and> shrunk_runs_of st ps = length same + 1 \<and>
    list_all (\<lambda>c. copy_sig c = copy_sig ps) same"
proof (cases "s_shrunk_sig st = Some (copy_sig ps)")
  case True
  with assms obtain pre same where "served = pre @ same" "s_shrunk_runs st = Some (length same)"
    "list_all (\<lambda>c. copy_sig c = copy_sig ps) same" by (auto simp: shrink_ok_def)
  with True show ?thesis by (intro exI [of _ pre] exI [of _ same]) (simp add: shrunk_runs_of_def)
next
  case False
  then show ?thesis by (intro exI [of _ served] exI [of _ "[]"]) (simp add: shrunk_runs_of_def)
qed

lemma run_shrink_ok: "shrink_ok (run_fetches (empty_source_state url start) evs) (served_copies evs)"
proof (induction evs rule: rev_induct)
  case Nil
  then show ?case by (simp add: shrink_ok_def empty_source_state_def)
next
  case (snoc e evs)
  obtain out t where e: "e = (out, t)" by (cases e)
  let ?st = "run_fetches (empty_source_state url start) evs"
  show ?case
  proof (cases out)
    case (FetchOk ps u)
    from shrink_ok_served [OF snoc.IH, of ps] obtain pre same where
      s: "served_copies evs @ [ps] = pre @ same @ [ps]" "shrunk_runs_of ?st ps = length same + 1"
        "list_all (\<lambda>c. copy_sig c = copy_sig ps) same" by blast
    then have "\<exists>pre' same'. served_copies evs @ [ps] = pre' @ same' \<and> length same' = shrunk_runs_of ?st ps \<and>
        list_all (\<lambda>c. copy_sig c = copy_sig ps) same'"
      by (intro exI [of _ pre] exI [of _ "same @ [ps]"]) simp
    then have "shrink_ok (apply_fetch ?st out t) (served_copies evs @ [ps])"
      by (cases "shrunk_copy ?st ps \<and> shrunk_runs_of ?st ps < shrink_confirmations")
        (simp_all add: FetchOk apply_fetch_def shrink_ok_def accept_copy_def Let_def eq_commute)
    then show ?thesis by (simp add: e served_copies_snoc FetchOk)
  qed (use snoc.IH in \<open>simp_all add: e served_copies_snoc apply_fetch_def shrink_ok_health\<close>)
qed

section \<open>Properties\<close>

text \<open>Which prefixes a gate serves for a source. After any run of fetches in the order of their
  times, the union at a later time holds a prefix, once, exactly when some applied copy of the last
  thirty days had it: a failed fetch, a refused copy or an operator's dropped line takes none away
  before its thirty days are over.\<close>

theorem union_is_window:
  assumes "ordered_log start evs" "log_end start evs \<le> now"
  shows "distinct (union_of (run_fetches (empty_source_state url start) evs) now) \<and>
    set (union_of (run_fetches (empty_source_state url start) evs) now) =
      {p. \<exists>(t, ps) \<in> set (applied_copies (empty_source_state url start) evs). now - t \<le> union_ms \<and> p \<in> set ps}"
proof -
  let ?st = "run_fetches (empty_source_state url start) evs" and ?h = "applied_copies (empty_source_state url start) evs"
  have ok: "seen_ok ?st ?h now" by (rule seen_ok_later [OF run_seen_ok [OF assms(1)] assms(2) refl])
  then have d: "distinct (map fst (s_seen ?st))" by (simp add: seen_ok_def)
  have u: "p \<in> set (union_of ?st now) \<longleftrightarrow> (\<exists>t. map_of (s_seen ?st) p = Some t \<and> within_union now t)" for p
    using d by (force simp: union_of_def)
  have "p \<in> set (union_of ?st now) \<longleftrightarrow> (\<exists>(t, ps) \<in> set ?h. within_union now t \<and> p \<in> set ps)" for p
  proof
    assume "p \<in> set (union_of ?st now)"
    then show "\<exists>(t, ps) \<in> set ?h. within_union now t \<and> p \<in> set ps" using ok unfolding u seen_ok_def by fast
  next
    assume "\<exists>(t, ps) \<in> set ?h. within_union now t \<and> p \<in> set ps"
    then obtain t w where "t \<le> w" "map_of (s_seen ?st) p = Some w" "within_union now t" using ok unfolding seen_ok_def by fast
    then show "p \<in> set (union_of ?st now)" unfolding u using within_union_mono(1) by blast
  qed
  moreover have "distinct (union_of ?st now)" unfolding union_of_def using distinct_filter_keys [OF d] by blast
  ultimately show ?thesis unfolding within_union_def by blast
qed

theorem union_is_window_witness:
  "set (union_of (run_fetches (empty_source_state ''u'' 0) [(FetchOk [''a'', ''b''] ''u'', 5), (FetchHttpError 503, 6)]) 7) = {''a'', ''b''}"
  using union_is_window [of 0 "[(FetchOk [''a'', ''b''] ''u'', 5), (FetchHttpError 503, 6)]" 7 "''u''"]
  by (auto simp: apply_fetch_def shrunk_copy_def empty_source_state_def union_ms_def)

definition shrinking_log :: fetch_log where
  "shrinking_log = [(FetchOk [''a'', ''b'', ''c''] ''u'', 1), (FetchOk [''a''] ''u'', 2), (FetchHttpError 503, 3), (FetchOk [''a''] ''u'', 4)]"

text \<open>A file that shrinks by more than half is not believed at once: when a run applies such a
  copy, the source had served copies with the same prefixes, up to their order, twice just before it.\<close>

theorem shrink_needs_three:
  assumes "(t, ps) \<in> set (applied_copies (empty_source_state url start) (evs @ [(FetchOk ps u, t)])) -
      set (applied_copies (empty_source_state url start) evs)"
    "2 * length ps < s_last_good_count (run_fetches (empty_source_state url start) evs)"
  shows "\<exists>pre a b. served_copies evs = pre @ [a, b] \<and> copy_sig a = copy_sig ps \<and> copy_sig b = copy_sig ps"
proof -
  let ?st = "run_fetches (empty_source_state url start) evs"
  have "(of_nat (2 * length ps) :: rat) < of_nat (s_last_good_count ?st)" using assms(2) by (simp only: of_nat_less_iff)
  then have "shrunk_copy ?st ps" using assms(2) by (simp add: shrunk_copy_def shrink_ratio_def)
  with assms(1) have r: "3 \<le> shrunk_runs_of ?st ps"
    by (auto simp: applied_copies_snoc shrink_confirmations_def split: if_splits)
  from shrink_ok_served [OF run_shrink_ok [of url start evs], of ps] obtain pre same where
    s: "served_copies evs @ [ps] = pre @ same @ [ps]" "shrunk_runs_of ?st ps = length same + 1"
      "list_all (\<lambda>c. copy_sig c = copy_sig ps) same" by blast
  then have "2 \<le> length same" using r by simp
  then obtain mid a b where "same = mid @ [a, b]"
    by (metis append_Cons append_Nil append_assoc length_0_conv length_Cons list.size(3) not_less_eq_eq
        numeral_2_eq_2 le0 rev_exhaust length_append_singleton Suc_le_mono not_one_le_zero One_nat_def)
  with s show ?thesis by auto
qed


theorem shrink_needs_three_witness:
  "\<exists>pre. served_copies shrinking_log = pre @ [[''a''], [''a'']]"
proof -
  have a: "applied_copies (empty_source_state ''u'' 0) shrinking_log = [(1, [''a'', ''b'', ''c''])]"
    "applied_copies (empty_source_state ''u'' 0) (shrinking_log @ [(FetchOk [''a''] ''u'', 5)]) =
      [(1, [''a'', ''b'', ''c'']), (5, [''a''])]"
    "s_last_good_count (run_fetches (empty_source_state ''u'' 0) shrinking_log) = 3"
    "served_copies shrinking_log = [[''a'', ''b'', ''c''], [''a''], [''a'']]"
    by code_simp+
  have "\<exists>pre x y. served_copies shrinking_log = pre @ [x, y] \<and> copy_sig x = copy_sig [''a''] \<and> copy_sig y = copy_sig [''a'']"
    by (rule shrink_needs_three [of 5 _ "''u''" 0 _ "''u''"]) (simp_all add: a)
  then show ?thesis by (simp add: a(4))
qed

end
