(* ===== verification/Classify.thy ===== *)
theory Classify
  imports CrawlerRanges
begin

text \<open>
  Who is asking: the crawler registry and the published proof sources
  (\<open>packages/shared/src/crawlerRegistry.ts\<close>, \<open>crawlerProof.ts\<close>), the policy lists a publisher may store
  (\<open>crawler-policy.ts\<close>), the refusals stated terms earn (\<open>terms-enforcement.ts\<close>), the classifier
  (\<open>packages/enforce/src/agentDetect.ts\<close>) and the identity check that may withhold an allowlisted
  crawler's free read (\<open>identity.ts\<close>).
\<close>

section \<open>The registry and the proof sources\<close>

datatype crawler_category = AiTraining | AiAssistant | SearchCrawler | Archiver | Seo

record registry_crawler =
  rc_id :: string
  rc_name :: string
  rc_operator :: string
  rc_fragment :: string
  rc_category :: crawler_category
  rc_default_charged :: bool
  rc_directory_host :: "string option"

definition crawler_row :: "string \<Rightarrow> string \<Rightarrow> string \<Rightarrow> string \<Rightarrow> crawler_category \<Rightarrow> bool \<Rightarrow> string option \<Rightarrow> registry_crawler" where
  "crawler_row i n op' f c d h = \<lparr>rc_id = i, rc_name = n, rc_operator = op', rc_fragment = f, rc_category = c,
     rc_default_charged = d, rc_directory_host = h\<rparr>"

definition crawler_registry :: "registry_crawler list" where
  "crawler_registry =
    [crawler_row ''gptbot'' ''GPTBot'' ''OpenAI'' ''gptbot'' AiTraining True (Some ''chatgpt.com''),
     crawler_row ''claudebot'' ''ClaudeBot'' ''Anthropic'' ''claudebot'' AiTraining True None,
     crawler_row ''ccbot'' ''CCBot'' ''Common Crawl'' ''ccbot'' AiTraining True None,
     crawler_row ''bytespider'' ''Bytespider'' ''ByteDance'' ''bytespider'' AiTraining True None,
     crawler_row ''applebot-extended'' ''Applebot-Extended'' ''Apple'' ''applebot-extended'' AiTraining True None,
     crawler_row ''meta-external'' ''Meta-ExternalAgent'' ''Meta'' ''meta-externalagent'' AiTraining True (Some ''meta.com''),
     crawler_row ''amazonbot'' ''Amazonbot'' ''Amazon'' ''amazonbot'' AiTraining True None,
     crawler_row ''chatgpt-user'' ''ChatGPT-User'' ''OpenAI'' ''chatgpt-user'' AiAssistant True (Some ''chatgpt.com''),
     crawler_row ''claude-user'' ''Claude-User'' ''Anthropic'' ''claude-user'' AiAssistant True None,
     crawler_row ''perplexitybot'' ''PerplexityBot'' ''Perplexity'' ''perplexitybot'' AiAssistant True None,
     crawler_row ''perplexity-user'' ''Perplexity-User'' ''Perplexity'' ''perplexity-user'' AiAssistant True None,
     crawler_row ''meta-externalfetcher'' ''Meta-ExternalFetcher'' ''Meta'' ''meta-externalfetcher'' AiAssistant True (Some ''meta.com''),
     crawler_row ''amzn-user'' ''Amzn-User'' ''Amazon'' ''amzn-user'' AiAssistant True None,
     crawler_row ''mistralai-user'' ''MistralAI-User'' ''Mistral'' ''mistralai-user'' AiAssistant True None,
     crawler_row ''exasearchbot'' ''ExaSearchBot'' ''Exa'' ''exasearchbot'' AiAssistant True (Some ''crawler.exa.ai''),
     crawler_row ''naulon-wayfarer'' ''naulon-wayfarer'' ''naulon'' ''naulon-wayfarer'' AiAssistant False (Some ''naulon.app''),
     crawler_row ''googlebot'' ''Googlebot'' ''Google'' ''googlebot'' SearchCrawler False None,
     crawler_row ''oai-searchbot'' ''OAI-SearchBot'' ''OpenAI'' ''oai-searchbot'' SearchCrawler False (Some ''chatgpt.com''),
     crawler_row ''claude-searchbot'' ''Claude-SearchBot'' ''Anthropic'' ''claude-searchbot'' SearchCrawler False None,
     crawler_row ''bingbot'' ''Bingbot'' ''Microsoft'' ''bingbot'' SearchCrawler False None,
     crawler_row ''duckduckbot'' ''DuckDuckBot'' ''DuckDuckGo'' ''duckduckbot'' SearchCrawler False None,
     crawler_row ''applebot'' ''Applebot'' ''Apple'' ''applebot'' SearchCrawler False None,
     crawler_row ''meta-webindexer'' ''Meta-WebIndexer'' ''Meta'' ''meta-webindexer'' SearchCrawler False (Some ''meta.com''),
     crawler_row ''amzn-searchbot'' ''Amzn-SearchBot'' ''Amazon'' ''amzn-searchbot'' SearchCrawler False None,
     crawler_row ''ia-archiver'' ''Internet Archive'' ''Internet Archive'' ''ia_archiver'' Archiver False None,
     crawler_row ''ahrefsbot'' ''AhrefsBot'' ''Ahrefs'' ''ahrefsbot'' Seo False (Some ''ahrefs.com''),
     crawler_row ''semrushbot'' ''SemrushBot'' ''Semrush'' ''semrushbot'' Seo False None]"

text \<open>\<open>BY_FRAGMENT\<close>: longest fragment first, registry order among equals.\<close>

definition by_fragment :: "registry_crawler list" where
  "by_fragment = sort_key (\<lambda>c. - int (length (rc_fragment c))) crawler_registry"

record observed_caller =
  oc_agent_ua :: "string option"
  oc_verified_agent :: "string option"

definition registry_by_ua :: "string \<Rightarrow> registry_crawler option" where
  "registry_by_ua ua = find (\<lambda>c. sublist (rc_fragment c) (js_lower ua)) by_fragment"

definition registry_by_identity :: "string \<Rightarrow> registry_crawler list" where
  "registry_by_identity v =
     filter (\<lambda>c. js_lower (rc_name c) = v \<or> map_option js_lower (rc_directory_host c) = Some v) crawler_registry"

definition registry_crawler :: "observed_caller \<Rightarrow> registry_crawler option" where
  "registry_crawler o' =
     (let picked = (case oc_verified_agent o' of None \<Rightarrow> None
        | Some va \<Rightarrow>
            (let ids = registry_by_identity (js_lower va);
                 byUa = (case oc_agent_ua o' of None \<Rightarrow> None
                   | Some ua \<Rightarrow> find (\<lambda>c. c \<in> set ids \<and> sublist (rc_fragment c) (js_lower ua)) by_fragment)
             in case byUa of Some c \<Rightarrow> Some c | None \<Rightarrow> (case ids of [] \<Rightarrow> None | c # _ \<Rightarrow> Some c)))
      in case picked of Some c \<Rightarrow> Some c
         | None \<Rightarrow> (case oc_agent_ua o' of None \<Rightarrow> None | Some ua \<Rightarrow> registry_by_ua ua))"

definition agent_key :: "observed_caller \<Rightarrow> string" where
  "agent_key o' = (case oc_verified_agent o' of Some v \<Rightarrow> v
     | None \<Rightarrow> (case registry_crawler \<lparr>oc_agent_ua = oc_agent_ua o', oc_verified_agent = None\<rparr> of
         Some c \<Rightarrow> rc_name c
       | None \<Rightarrow> (case oc_agent_ua o' of Some ua \<Rightarrow> ua | None \<Rightarrow> ''(unknown agent)'')))"

text \<open>A proof source, without its URLs (the fetcher's configuration).\<close>

record proof_source =
  ps_id :: string
  ps_operator :: string
  ps_fragments :: "string list"
  ps_kind :: proof_kind
  ps_forged_eligible :: bool

definition proof_row :: "string \<Rightarrow> string \<Rightarrow> string list \<Rightarrow> proof_kind \<Rightarrow> bool \<Rightarrow> proof_source" where
  "proof_row i n fs k e = \<lparr>ps_id = i, ps_operator = n, ps_fragments = fs, ps_kind = k, ps_forged_eligible = e\<rparr>"

definition crawler_proof :: "proof_source list" where
  "crawler_proof =
    [proof_row ''google'' ''Google'' [''googlebot''] RangesProof True,
     proof_row ''bing'' ''Microsoft'' [''bingbot''] RangesProof True,
     proof_row ''duckduckgo'' ''DuckDuckGo'' [''duckduckbot''] RangesProof True,
     proof_row ''apple'' ''Apple'' [''applebot''] RangesProof True,
     proof_row ''openai-gptbot'' ''OpenAI'' [''gptbot''] RangesProof True,
     proof_row ''openai-searchbot'' ''OpenAI'' [''oai-searchbot''] RangesProof True,
     proof_row ''openai-chatgpt-user'' ''OpenAI'' [''chatgpt-user''] RangesProof True,
     proof_row ''anthropic'' ''Anthropic'' [''claudebot'', ''claude-user'', ''claude-searchbot''] RangesProof True,
     proof_row ''commoncrawl'' ''Common Crawl'' [''ccbot''] RangesProof True,
     proof_row ''mistral'' ''Mistral'' [''mistralai-user''] RangesProof True,
     proof_row ''perplexity-bot'' ''Perplexity'' [''perplexitybot''] RangesProof False,
     proof_row ''perplexity-user'' ''Perplexity'' [''perplexity-user''] RangesProof False,
     proof_row ''amazon'' ''Amazon'' [''amazonbot'', ''amzn-user''] NoProof False,
     proof_row ''exa'' ''Exa'' [''exasearchbot''] SignatureProof False,
     proof_row ''meta'' ''Meta'' [''meta-externalagent'', ''meta-externalfetcher''] NoProof False,
     proof_row ''bytedance'' ''ByteDance'' [''bytespider''] NoProof False]"

fun claims_in :: "string \<Rightarrow> (string \<times> string list) list \<Rightarrow> (string \<times> string) list" where
  "claims_in ua [] = []"
| "claims_in ua ((i, frs) # rows) =
     (case find (\<lambda>f. sublist f (js_lower ua)) frs of
        Some (c # cs) \<Rightarrow> [(i, c # cs)] | _ \<Rightarrow> []) @ claims_in ua rows"

section \<open>The policy lists\<close>

datatype policy_label = AllowList | BlockList | ChargeList
datatype policy_error = ListTooLong policy_label | EmptyFragment policy_label | ControlCharacter policy_label
  | FragmentTooLong policy_label | MatchesBrowser policy_label | InTwoLists policy_label policy_label string

definition max_fragment :: nat where "max_fragment = 64"
definition max_list :: nat where "max_list = 200"

definition browser_ua_samples :: "string list" where
  "browser_ua_samples =
    [''mozilla/5.0 (windows nt 10.0; win64; x64) applewebkit/537.36 (khtml, like gecko) chrome/126.0.0.0 safari/537.36'',
     ''mozilla/5.0 (windows nt 10.0; win64; x64) applewebkit/537.36 (khtml, like gecko) chrome/126.0.0.0 safari/537.36 edg/126.0.0.0'',
     ''mozilla/5.0 (iphone; cpu iphone os 17_5 like mac os x) applewebkit/605.1.15 (khtml, like gecko) version/17.5 mobile/15e148 safari/604.1'',
     ''mozilla/5.0 (macintosh; intel mac os x 10_15_7) applewebkit/605.1.15 (khtml, like gecko) version/17.5 safari/605.1.15'',
     ''mozilla/5.0 (x11; linux x86_64; rv:128.0) gecko/20100101 firefox/128.0'',
     ''mozilla/5.0 (linux; android 14; pixel 8) applewebkit/537.36 (khtml, like gecko) chrome/126.0.0.0 mobile safari/537.36'']"

definition matches_real_browser :: "string \<Rightarrow> bool" where
  "matches_real_browser frag \<longleftrightarrow> list_ex (\<lambda>sample. sublist frag sample) browser_ua_samples"

definition control_char :: "char \<Rightarrow> bool" where
  "control_char c \<longleftrightarrow> of_char c < (32::nat) \<or> of_char c = (127::nat)"

fun normalize_list_loop :: "policy_label \<Rightarrow> bool \<Rightarrow> string list \<Rightarrow> string list \<Rightarrow> policy_error + string list" where
  "normalize_list_loop l guard [] out = Inr out"
| "normalize_list_loop l guard (raw # rest) out =
     (let frag = js_lower (js_trim raw) in
      if frag = [] then Inl (EmptyFragment l)
      else if list_ex control_char frag then Inl (ControlCharacter l)
      else if length frag > max_fragment then Inl (FragmentTooLong l)
      else if guard \<and> matches_real_browser frag then Inl (MatchesBrowser l)
      else normalize_list_loop l guard rest (if frag \<in> set out then out else out @ [frag]))"

definition normalize_list :: "policy_label \<Rightarrow> bool \<Rightarrow> string list \<Rightarrow> policy_error + string list" where
  "normalize_list l guard xs = (if length xs > max_list then Inl (ListTooLong l) else normalize_list_loop l guard xs [])"

datatype forged_policy = ForgedCharge | ForgedBlock

record crawler_policy =
  cp_allow :: "string list"
  cp_block :: "string list"
  cp_charge :: "string list option"
  cp_forged :: "forged_policy option"

definition first_shared :: "string list \<Rightarrow> string list \<Rightarrow> string option" where
  "first_shared xs ys = find (\<lambda>f. f \<in> set ys) xs"

definition normalize_crawler_policy :: "crawler_policy \<Rightarrow> policy_error + crawler_policy" where
  "normalize_crawler_policy input =
     bind_sum (normalize_list AllowList False (cp_allow input)) (\<lambda>allow.
     bind_sum (normalize_list BlockList True (cp_block input)) (\<lambda>block.
     bind_sum (case cp_charge input of None \<Rightarrow> Inr None
         | Some cs \<Rightarrow> if cs = [] then Inr None
             else bind_sum (normalize_list ChargeList True cs) (\<lambda>out. Inr (Some out))) (\<lambda>charge.
     case first_shared allow block of
       Some f \<Rightarrow> Inl (InTwoLists AllowList BlockList f)
     | None \<Rightarrow>
       (case charge of
          None \<Rightarrow> Inr \<lparr>cp_allow = allow, cp_block = block, cp_charge = None, cp_forged = cp_forged input\<rparr>
        | Some cs \<Rightarrow>
          (case first_shared cs block of
             Some f \<Rightarrow> Inl (InTwoLists ChargeList BlockList f)
           | None \<Rightarrow>
             (case first_shared allow cs of
                Some f \<Rightarrow> Inl (InTwoLists AllowList ChargeList f)
              | None \<Rightarrow> Inr \<lparr>cp_allow = allow, cp_block = block, cp_charge = Some cs, cp_forged = cp_forged input\<rparr>))))))"

section \<open>Stated terms\<close>

datatype search_term = SearchFree | SearchProhibit
datatype use_term = UseProhibit | UseFree | UsePriced
datatype train_term = TrainProhibit | TrainFree | TrainByAgreement

record terms_policy =
  tp_search :: "search_term option"
  tp_ai_input :: "use_term option"
  tp_ai_index :: "use_term option"
  tp_ai_train :: "train_term option"
  tp_contact :: "string option"

datatype prohibited_term = TermAiInput | TermAiTrain | TermSearch

record prohibition =
  ph_term :: prohibited_term
  ph_reason :: string

datatype caller_kind = Human | Agent

definition registry_hit :: "string \<Rightarrow> string option \<Rightarrow> registry_crawler option" where
  "registry_hit ua verifiedAgent =
     (let hay = js_lower (ua @ '' '' @ (case verifiedAgent of None \<Rightarrow> [] | Some v \<Rightarrow> v))
      in find (\<lambda>c. sublist (rc_fragment c) hay) crawler_registry)"

definition prohibited_use :: "terms_policy option \<Rightarrow> string \<Rightarrow> string option \<Rightarrow> caller_kind \<Rightarrow> prohibition option" where
  "prohibited_use policy ua verifiedAgent classifiedAs = (case policy of None \<Rightarrow> None
     | Some p \<Rightarrow>
       (let crawler = registry_hit ua verifiedAgent;
            cat = map_option rc_category crawler;
            ai = (cat = Some AiAssistant \<or> cat = Some AiTraining)
        in if tp_search p = Some SearchProhibit \<and> cat = Some SearchCrawler then
             Some \<lparr>ph_term = TermSearch, ph_reason = rc_name (the crawler) @ '' is refused: this site prohibits search indexing''\<rparr>
           else if tp_ai_train p = Some TrainProhibit \<and> cat = Some AiTraining then
             Some \<lparr>ph_term = TermAiTrain, ph_reason = rc_name (the crawler) @ '' is refused: this site prohibits AI training''\<rparr>
           else if (classifiedAs = Agent \<or> ai) \<and> tp_ai_input p = Some UseProhibit then
             Some \<lparr>ph_term = TermAiInput, ph_reason = (case crawler of None \<Rightarrow> ''this agent'' | Some c \<Rightarrow> rc_name c) @
               '' is refused: this site prohibits ai-input, so agent reads are not for sale''\<rparr>
           else None))"

section \<open>The classifier\<close>

record forged_claim =
  fc_operator_id :: string
  fc_operator :: string
  fc_fragment :: string

record request_signals =
  sg_user_agent :: string
  sg_has_payment :: bool
  sg_declared_agent :: "string option"
  sg_accept :: string
  sg_headers :: "(string, string) js_map"
  sg_verified_agent :: "string option"
  sg_via_ingress :: bool
  sg_forged_claim :: "forged_claim option"

record classify_policy =
  cl_seo_allowlist :: "string list option"
  cl_charge_list :: "string list option"

record verdict =
  vd_kind :: caller_kind
  vd_reason :: string
  vd_confidence :: rat
  vd_forged :: bool

definition known_agent_ua :: "string list" where
  "known_agent_ua =
    [''gptbot'', ''chatgpt-user'', ''claudebot'', ''claude-user'', ''perplexitybot'', ''perplexity-user'',
     ''ccbot'', ''bytespider'', ''amazonbot'', ''applebot-extended'', ''meta-externalagent'',
     ''meta-externalfetcher'', ''amzn-user'', ''mistralai-user'', ''exasearchbot'', ''python-requests'',
     ''node-fetch'', ''axios'', ''curl'', ''wget'', ''langchain'']"

definition match_ua_fragment :: "string \<Rightarrow> string list option \<Rightarrow> string option" where
  "match_ua_fragment ua frs = (case frs of None \<Rightarrow> None
     | Some fs \<Rightarrow> find (\<lambda>f. f \<noteq> [] \<and> sublist (js_lower f) (js_lower ua)) fs)"

definition strip_dot :: "string \<Rightarrow> string" where
  "strip_dot s = (if suffix ''.'' s then butlast s else s)"

definition match_signer_host :: "string \<Rightarrow> string list option \<Rightarrow> string option" where
  "match_signer_host host frs = (case frs of None \<Rightarrow> None
     | Some fs \<Rightarrow> (let h = strip_dot (js_lower host) in
         find (\<lambda>f. let g = strip_dot (js_lower f) in g \<noteq> [] \<and> (h = g \<or> suffix (CHR ''.'' # g) h)) fs))"

text \<open>\<open>if (x)\<close> for a string that may be undefined.\<close>

definition truthy :: "string option \<Rightarrow> bool" where
  "truthy x \<longleftrightarrow> x \<noteq> None \<and> x \<noteq> Some []"

definition mk_verdict :: "caller_kind \<Rightarrow> string \<Rightarrow> rat \<Rightarrow> verdict" where
  "mk_verdict k r c = \<lparr>vd_kind = k, vd_reason = r, vd_confidence = c, vd_forged = False\<rparr>"

definition quoted :: "string \<Rightarrow> string" where
  "quoted s = CHR 0x22 # s @ [CHR 0x22]"

definition allowlisted :: "string \<Rightarrow> classify_policy \<Rightarrow> string option" where
  "allowlisted ua p = (case cl_seo_allowlist p of None \<Rightarrow> None
     | Some fs \<Rightarrow> find (\<lambda>f. sublist (js_lower f) (js_lower ua)) fs)"

definition looks_browser :: "request_signals \<Rightarrow> bool" where
  "looks_browser s \<longleftrightarrow> sublist ''text/html'' (sg_accept s) \<or> map_of (sg_headers s) ''sec-fetch-mode'' \<noteq> None"

definition classify_unsigned :: "request_signals \<Rightarrow> classify_policy \<Rightarrow> verdict" where
  "classify_unsigned s p =
     (let ua = js_lower (sg_user_agent s);
          allowed = allowlisted (sg_user_agent s) p;
          charged = match_ua_fragment (sg_user_agent s) (cl_charge_list p);
          hit = find (\<lambda>f. sublist f ua) known_agent_ua
      in case (if truthy allowed then sg_forged_claim s else None) of
           Some f \<Rightarrow> \<lparr>vd_kind = Agent, vd_reason = ''claimed '' @ quoted (fc_fragment f) @ '' from an address outside '' @
               fc_operator f @ CHR 0x27 # ''s published ranges'', vd_confidence = 95 / 100, vd_forged = True\<rparr>
         | None \<Rightarrow>
           if truthy allowed then mk_verdict Human (''seo allowlist matched '' @ quoted (the allowed)) (9 / 10)
           else if truthy charged then mk_verdict Agent (''publisher charge policy matched '' @ quoted (the charged)) (8 / 10)
           else if truthy hit then mk_verdict Agent (''user-agent matched '' @ quoted (the hit)) (8 / 10)
           else if looks_browser s then mk_verdict Human ''browser-shaped request'' (85 / 100)
           else if sg_via_ingress s then
             mk_verdict Agent (''ambiguous; routed as crawler traffic by the publisher'' @ CHR 0x27 # ''s CDN'') (6 / 10)
           else mk_verdict Human ''ambiguous; defaulting to human (free)'' (4 / 10))"

definition classify :: "request_signals \<Rightarrow> classify_policy \<Rightarrow> verdict" where
  "classify s p =
     (if sg_has_payment s then mk_verdict Agent ''presented x402 payment header'' (99 / 100)
      else if truthy (sg_declared_agent s) then
        mk_verdict Agent (''declared agent id '' @ the (sg_declared_agent s)) (95 / 100)
      else (case sg_verified_agent s of
          Some va \<Rightarrow>
            (let allowed = match_signer_host va (cl_seo_allowlist p) in
             if truthy allowed then mk_verdict Human (''seo allowlist matched verified agent '' @ quoted (the allowed)) (98 / 100)
             else mk_verdict Agent (''verified web-bot-auth ('' @ va @ '')'') (98 / 100))
        | None \<Rightarrow> classify_unsigned s p))"

section \<open>The identity check\<close>

datatype identity_check = BySignature | IpVerified | Unverified | Forged

record identity_claim =
  ic_operator_id :: string
  ic_operator :: string
  ic_fragment :: string
  ic_check :: identity_check

record identity_context =
  ctx_ranges :: "compiled_ranges option"
  ctx_client_ip :: "string option"
  ctx_now :: int

fun check_rank :: "identity_check \<Rightarrow> nat" where
  "check_rank BySignature = 0"
| "check_rank IpVerified = 1"
| "check_rank Unverified = 2"
| "check_rank Forged = 3"

definition signer_backs :: "string \<Rightarrow> string \<Rightarrow> bool" where
  "signer_backs host frag \<longleftrightarrow> list_ex (\<lambda>r. rc_fragment r = frag \<and>
     (case rc_directory_host r of None \<Rightarrow> False | Some d \<Rightarrow> match_signer_host host (Some [d]) \<noteq> None)) crawler_registry"

definition claim_table :: "compiled_ranges option \<Rightarrow> (string \<times> string list) list" where
  "claim_table ranges = (case ranges of
     None \<Rightarrow> map (\<lambda>r. (ps_id r, ps_fragments r)) crawler_proof
   | Some cr \<Rightarrow> map (\<lambda>c. (co_id c, co_fragments c)) (cr_table cr))"

text \<open>The caller's address, when it can be a caller's own.\<close>

definition caller_address :: "identity_context \<Rightarrow> parsed_ip option" where
  "caller_address ctx =
     (case Option.bind (ctx_client_ip ctx) parse_client_address of None \<Rightarrow> None
      | Some ip \<Rightarrow> if is_usable_public_ip ip (case ctx_ranges ctx of None \<Rightarrow> [] | Some cr \<Rightarrow> map snd (cr_proxies cr))
          then Some ip else None)"

definition claim_check :: "identity_context \<Rightarrow> string option \<Rightarrow> string \<Rightarrow> string \<Rightarrow> identity_check" where
  "claim_check ctx signer i frag =
     (if (case signer of None \<Rightarrow> False | Some h \<Rightarrow> signer_backs h frag) then BySignature
      else (case (Option.bind (ctx_ranges ctx) (\<lambda>cr. map_of (cr_operators cr) i), caller_address ctx) of
          (Some c, Some ip) \<Rightarrow>
            if co_kind c \<noteq> RangesProof then Unverified
            else if range_has (co_set c) ip then IpVerified
            else if \<not> co_forged_eligible c \<or> \<not> is_fresh c (ctx_now ctx) then Unverified
            else Forged
        | _ \<Rightarrow> Unverified))"

definition operator_name :: "identity_context \<Rightarrow> string \<Rightarrow> string" where
  "operator_name ctx i = (case Option.bind (ctx_ranges ctx) (\<lambda>cr. map_of (cr_operators cr) i) of
     Some c \<Rightarrow> co_operator c
   | None \<Rightarrow> (case find (\<lambda>r. ps_id r = i) crawler_proof of Some r \<Rightarrow> ps_operator r | None \<Rightarrow> i))"

definition worst_check :: "identity_check \<Rightarrow> identity_claim \<Rightarrow> identity_check" where
  "worst_check w c = (if check_rank (ic_check c) > check_rank w then ic_check c else w)"

record identity_result =
  ir_check :: identity_check
  ir_claims :: "identity_claim list"

definition check_identity :: "string \<Rightarrow> string option \<Rightarrow> identity_context \<Rightarrow> identity_result option" where
  "check_identity ua signer ctx =
     (let found = claims_in ua (claim_table (ctx_ranges ctx)) in
      if found = [] then None
      else let claims = map (\<lambda>(i, frag). \<lparr>ic_operator_id = i, ic_operator = operator_name ctx i, ic_fragment = frag,
             ic_check = claim_check ctx signer i frag\<rparr>) found
        in Some \<lparr>ir_check = foldl worst_check BySignature claims, ir_claims = claims\<rparr>)"

definition deciding_claim :: "identity_result \<Rightarrow> identity_claim option" where
  "deciding_claim r = find (\<lambda>c. ic_check c = ir_check r) (ir_claims r)"

datatype identity_mode = IdentityOff | IdentityAuto

record identity_input = identity_context +
  id_armed :: "string \<Rightarrow> bool"

definition classify_with_identity ::
    "request_signals \<Rightarrow> classify_policy \<Rightarrow> identity_mode \<Rightarrow> identity_input option
      \<Rightarrow> verdict \<times> identity_result option \<times> identity_claim option" where
  "classify_with_identity s p mode idin = (case (mode, idin) of
     (IdentityAuto, Some i) \<Rightarrow>
       (let identity = check_identity (sg_user_agent s) (sg_verified_agent s) (identity_context.truncate i);
            forged = Option.bind identity (\<lambda>r. find (\<lambda>c. ic_check c = Forged \<and> id_armed i (ic_operator_id c)) (ir_claims r));
            s' = (case forged of None \<Rightarrow> s
              | Some c \<Rightarrow> s\<lparr>sg_forged_claim := Some \<lparr>fc_operator_id = ic_operator_id c, fc_operator = ic_operator c, fc_fragment = ic_fragment c\<rparr>\<rparr>)
        in (classify s' p, identity, forged))
   | _ \<Rightarrow> (classify s p, None, None))"

section \<open>Lemmas\<close>

lemma find_SomeD: "find P xs = Some x \<Longrightarrow> x \<in> set xs \<and> P x"
  by (induction xs) (auto split: if_splits)

lemma find_None: "find P xs = None \<longleftrightarrow> (\<forall>x \<in> set xs. \<not> P x)"
  by (induction xs) auto

text \<open>The fixed tables, evaluated once.\<close>

lemma known_agents_not_browsers: "list_all (\<lambda>u. list_all (\<lambda>f. \<not> sublist f u) known_agent_ua) browser_ua_samples"
  by code_simp

lemma known_agents_nonempty: "list_all (\<lambda>f. f \<noteq> []) known_agent_ua"
  by code_simp

lemma registry_flags: "list_all (\<lambda>c. rc_default_charged c = list_ex (\<lambda>f. sublist f (rc_fragment c)) known_agent_ua) crawler_registry"
  by code_simp

lemma samples_lower: "list_all (\<lambda>u. js_lower u = u) browser_ua_samples"
  by code_simp

lemma not_known_browser:
  assumes "js_lower ua \<in> set browser_ua_samples"
  shows "find (\<lambda>f. sublist f (js_lower ua)) known_agent_ua = None"
  using known_agents_not_browsers assms unfolding find_None list_all_iff by blast

subsection \<open>Stored lists\<close>

definition fragment_ok :: "bool \<Rightarrow> string \<Rightarrow> bool" where
  "fragment_ok guard f \<longleftrightarrow> f \<noteq> [] \<and> js_lower f = f \<and> \<not> list_ex control_char f \<and> length f \<le> max_fragment \<and>
     (guard \<longrightarrow> \<not> matches_real_browser f)"

lemma normalize_list_loop_ok:
  assumes "normalize_list_loop l guard xs out = Inr fs" "distinct out" "list_all (fragment_ok guard) out"
  shows "distinct fs \<and> list_all (fragment_ok guard) fs \<and> set fs = set out \<union> js_lower ` js_trim ` set xs \<and>
    length fs \<le> length out + length xs"
  using assms
proof (induction xs arbitrary: out)
  case (Cons raw rest)
  let ?f = "js_lower (js_trim raw)"
  have f: "fragment_ok guard ?f"
    and r: "normalize_list_loop l guard rest (if ?f \<in> set out then out else out @ [?f]) = Inr fs"
    using Cons.prems(1) by (auto simp: Let_def fragment_ok_def split: if_splits)
  from Cons.IH [OF r] f Cons.prems show ?case by (auto split: if_splits)
qed simp

lemma normalize_list_ok:
  assumes "normalize_list l guard xs = Inr fs"
  shows "distinct fs" "list_all (fragment_ok guard) fs" "set fs = js_lower ` js_trim ` set xs" "length fs \<le> max_list"
  using assms normalize_list_loop_ok [of l guard xs "[]" fs]
  by (auto simp: normalize_list_def split: if_splits)

lemma normalize_policy_cases:
  assumes "normalize_crawler_policy input = Inr pol"
  shows "normalize_list AllowList False (cp_allow input) = Inr (cp_allow pol)"
    "normalize_list BlockList True (cp_block input) = Inr (cp_block pol)"
    "cp_charge pol = Some cs \<Longrightarrow> \<exists>raw. cp_charge input = Some raw \<and> normalize_list ChargeList True raw = Inr cs"
    "set (cp_allow pol) \<inter> set (cp_block pol) = {}"
    "cp_charge pol = Some cs \<Longrightarrow> set cs \<inter> (set (cp_allow pol) \<union> set (cp_block pol)) = {}"
  using assms unfolding normalize_crawler_policy_def bind_sum_Inr_iff first_shared_def
  by (auto simp: bind_sum_Inr_iff find_None split: option.splits if_splits)

lemma guarded_not_in_browser:
  assumes "list_all (fragment_ok True) fs" "js_lower ua \<in> set browser_ua_samples"
  shows "match_ua_fragment ua (Some fs) = None"
  using assms unfolding match_ua_fragment_def option.case find_None
  by (auto simp: list_all_iff fragment_ok_def matches_real_browser_def list_ex_iff)

lemma normalize_list_loop_stable:
  assumes "list_all (fragment_ok guard) fs" "list_all (\<lambda>f. js_trim f = f) fs" "distinct (out @ fs)"
  shows "normalize_list_loop l guard fs out = Inr (out @ fs)"
  using assms by (induction fs arbitrary: out) (auto simp: fragment_ok_def Let_def)

lemma js_lower_space: "js_is_space (js_lower_char c) = js_is_space c"
  by (auto simp: js_is_space_def js_lower_char_def)

lemma js_trim_lower: "js_trim (js_lower s) = js_lower (js_trim s)"
  unfolding js_trim_def js_lower_def
  by (simp add: rev_map dropWhile_map comp_def js_lower_space)

lemma normalize_list_stable:
  assumes "normalize_list l guard xs = Inr fs"
  shows "normalize_list l guard fs = Inr fs"
proof -
  note ok = normalize_list_ok [OF assms]
  have "list_all (\<lambda>f. js_trim f = f) fs" using ok(3) by (auto simp: list_all_iff js_trim_lower)
  from normalize_list_loop_stable [OF ok(2) this, of "[]"] ok show ?thesis by (simp add: normalize_list_def)
qed

lemma normalize_policy_stable:
  assumes "normalize_crawler_policy input = Inr pol"
  shows "normalize_crawler_policy pol = Inr pol"
proof -
  note c = normalize_policy_cases [OF assms]
  have a: "normalize_list AllowList False (cp_allow pol) = Inr (cp_allow pol)"
    "normalize_list BlockList True (cp_block pol) = Inr (cp_block pol)"
    using c(1,2) normalize_list_stable by blast+
  have ch: "(case cp_charge pol of None \<Rightarrow> Inr None
         | Some cs \<Rightarrow> if cs = [] then Inr None
             else bind_sum (normalize_list ChargeList True cs) (\<lambda>out. Inr (Some out))) = Inr (cp_charge pol)"
  proof (cases "cp_charge pol")
    case (Some cs)
    from c(3) [OF Some] obtain raw where raw: "cp_charge input = Some raw" "normalize_list ChargeList True raw = Inr cs" by blast
    have "raw \<noteq> []"
    proof
      assume "raw = []"
      then show False using assms Some raw(1)
        by (auto simp: normalize_crawler_policy_def bind_sum_Inr_iff split: option.splits)
    qed
    then have "cs \<noteq> []" using normalize_list_ok(3) [OF raw(2)] by auto
    then show ?thesis using Some normalize_list_stable [OF raw(2)] by simp
  qed simp
  have n: "first_shared xs ys = None" if "set xs \<inter> set ys = {}" for xs ys
    using that by (auto simp: first_shared_def find_None)
  show ?thesis
  proof (cases "cp_charge pol")
    case None
    then show ?thesis using ch n [OF c(4)] by (simp add: normalize_crawler_policy_def a)
  next
    case (Some cs)
    then have "first_shared cs (cp_block pol) = None" "first_shared (cp_allow pol) cs = None" using c(5) n by blast+
    then show ?thesis using ch n [OF c(4)] Some by (simp add: normalize_crawler_policy_def a)
  qed
qed

subsection \<open>Claims and checks\<close>

lemma claims_in_set: "(i, f) \<in> set (claims_in ua rows) \<longleftrightarrow>
    (\<exists>frs. (i, frs) \<in> set rows \<and> find (\<lambda>f. sublist f (js_lower ua)) frs = Some f \<and> f \<noteq> [])"
  by (induction ua rows rule: claims_in.induct) (auto simp: neq_Nil_conv split: option.splits list.splits)

lemma claim_check_forged:
  assumes "claim_check ctx signer i f = Forged"
  shows "\<exists>cr c ip. ctx_ranges ctx = Some cr \<and> map_of (cr_operators cr) i = Some c \<and> caller_address ctx = Some ip \<and>
    co_kind c = RangesProof \<and> co_forged_eligible c \<and> is_fresh c (ctx_now ctx) \<and> \<not> range_has (co_set c) ip \<and>
    \<not> (case signer of None \<Rightarrow> False | Some h \<Rightarrow> signer_backs h f)"
  using assms by (auto simp: claim_check_def bind_eq_Some_conv split: if_splits option.splits)

lemma map_of_compiled:
  assumes "map_of (foldl (\<lambda>m c. AList.update (co_id c) c m) m0 tbl) i = Some c" "map_of m0 i = None"
  shows "c \<in> set tbl \<and> co_id c = i"
proof -
  have "map_of (foldl (\<lambda>m c. AList.update (co_id c) c m) m0 tbl) i = Some c \<Longrightarrow>
      (c \<in> set tbl \<and> co_id c = i) \<or> map_of m0 i = Some c"
  proof (induction tbl arbitrary: m0)
    case (Cons a tbl)
    then have "(c \<in> set tbl \<and> co_id c = i) \<or> map_of (AList.update (co_id a) a m0) i = Some c" by simp
    then show ?case by (auto simp: map_of_update split: if_splits)
  qed simp
  with assms show ?thesis by simp
qed

lemma foldl_worst: "foldl worst_check w cs = Forged \<longleftrightarrow> w = Forged \<or> (\<exists>c \<in> set cs. ic_check c = Forged)"
proof (induction cs arbitrary: w)
  case (Cons c cs)
  have "worst_check w c = Forged \<longleftrightarrow> w = Forged \<or> ic_check c = Forged"
    by (cases w; cases "ic_check c") (auto simp: worst_check_def)
  with Cons show ?case by auto
qed simp

lemma classify_forged_claim:
  assumes "sg_forged_claim s = None"
  shows "classify (s\<lparr>sg_forged_claim := Some f\<rparr>) p = classify s p \<or>
    (vd_kind (classify (s\<lparr>sg_forged_claim := Some f\<rparr>) p) = Agent \<and> vd_forged (classify (s\<lparr>sg_forged_claim := Some f\<rparr>) p) \<and>
     vd_kind (classify s p) = Human \<and> truthy (allowlisted (sg_user_agent s) p) \<and> sg_verified_agent s = None)"
  using assms by (auto simp: classify_def classify_unsigned_def Let_def mk_verdict_def looks_browser_def split: option.splits)

section \<open>Properties\<close>

text \<open>The crawler names a publisher sees and the gate's own list agree. A registry row is marked as
  charged by default exactly when some built-in fragment occurs in its token; and a request that
  carries such a token anywhere in its user agent, unsigned and outside the publisher's allowlist, is
  classified as an agent whatever else it looks like.\<close>

theorem registry_matches_gate:
  "list_all (\<lambda>c. rc_default_charged c = list_ex (\<lambda>f. sublist f (rc_fragment c)) known_agent_ua) crawler_registry \<and>
   (c \<in> set crawler_registry \<and> rc_default_charged c \<and> sublist (rc_fragment c) (js_lower (sg_user_agent s)) \<and>
      sg_verified_agent s = None \<and> \<not> truthy (allowlisted (sg_user_agent s) p) \<longrightarrow> vd_kind (classify s p) = Agent)"
proof (intro conjI impI)
  show "list_all (\<lambda>c. rc_default_charged c = list_ex (\<lambda>f. sublist f (rc_fragment c)) known_agent_ua) crawler_registry"
    by (rule registry_flags)
next
  assume h: "c \<in> set crawler_registry \<and> rc_default_charged c \<and> sublist (rc_fragment c) (js_lower (sg_user_agent s)) \<and>
      sg_verified_agent s = None \<and> \<not> truthy (allowlisted (sg_user_agent s) p)"
  then obtain f where f: "f \<in> set known_agent_ua" "sublist f (rc_fragment c)"
    using registry_flags unfolding list_all_iff list_ex_iff by blast
  then have "sublist f (js_lower (sg_user_agent s))" using h by (meson sublist_order.order_trans)
  then have "find (\<lambda>f. sublist f (js_lower (sg_user_agent s))) known_agent_ua \<noteq> None" using f(1) by (auto simp: find_None)
  then obtain g where g: "find (\<lambda>f. sublist f (js_lower (sg_user_agent s))) known_agent_ua = Some g" by blast
  then have "g \<noteq> []" using find_SomeD [OF g] known_agents_nonempty by (auto simp: list_all_iff)
  with g h show "vd_kind (classify s p) = Agent"
    by (auto simp: classify_def classify_unsigned_def Let_def mk_verdict_def truthy_def split: option.splits)
qed

definition gptbot_signals :: request_signals where
  "gptbot_signals = \<lparr>sg_user_agent = ''Mozilla/5.0 (compatible; GPTBot/1.1)'', sg_has_payment = False, sg_declared_agent = None,
     sg_accept = ''text/html'', sg_headers = [], sg_verified_agent = None, sg_via_ingress = False, sg_forged_claim = None\<rparr>"

definition no_policy :: classify_policy where
  "no_policy = \<lparr>cl_seo_allowlist = None, cl_charge_list = None\<rparr>"

theorem registry_matches_gate_witness:
  "vd_kind (classify gptbot_signals no_policy) = Agent"
proof -
  let ?c = "crawler_row ''gptbot'' ''GPTBot'' ''OpenAI'' ''gptbot'' AiTraining True (Some ''chatgpt.com'')"
  have "?c \<in> set crawler_registry" by (simp add: crawler_registry_def)
  moreover have "rc_default_charged ?c" by (simp add: crawler_row_def)
  moreover have "sublist (rc_fragment ?c) (js_lower (sg_user_agent gptbot_signals))" by code_simp
  moreover have "sg_verified_agent gptbot_signals = None" "\<not> truthy (allowlisted (sg_user_agent gptbot_signals) no_policy)"
    by code_simp+
  ultimately show ?thesis using registry_matches_gate [of ?c gptbot_signals no_policy] by blast
qed

text \<open>C40: what a stored policy is. The lists of an accepted policy are without duplicates or empty
  fragments, no fragment is in two of them, nothing on the block or the charge list occurs in a real
  browser's user agent, and storing an accepted policy again changes nothing.\<close>

theorem stored_policy_valid:
  assumes "normalize_crawler_policy input = Inr pol"
  shows "distinct (cp_allow pol) \<and> distinct (cp_block pol) \<and> set (cp_allow pol) \<inter> set (cp_block pol) = {} \<and>
    list_all (fragment_ok False) (cp_allow pol) \<and> list_all (fragment_ok True) (cp_block pol) \<and>
    (case cp_charge pol of None \<Rightarrow> True | Some cs \<Rightarrow> distinct cs \<and> list_all (fragment_ok True) cs \<and>
       set cs \<inter> (set (cp_allow pol) \<union> set (cp_block pol)) = {}) \<and>
    normalize_crawler_policy pol = Inr pol"
proof -
  note c = normalize_policy_cases [OF assms]
  have "distinct cs \<and> list_all (fragment_ok True) cs" if "cp_charge pol = Some cs" for cs
    using c(3) [OF that] normalize_list_ok by blast
  then show ?thesis
    using normalize_list_ok [OF c(1)] normalize_list_ok [OF c(2)] c(4,5) normalize_policy_stable [OF assms]
    by (auto split: option.splits)
qed

definition sample_policy_input :: crawler_policy where
  "sample_policy_input = \<lparr>cp_allow = ['' GoogleBot'', ''googlebot''], cp_block = [''Bytespider''], cp_charge = Some [''exa''], cp_forged = None\<rparr>"

definition sample_policy :: crawler_policy where
  "sample_policy = \<lparr>cp_allow = [''googlebot''], cp_block = [''bytespider''], cp_charge = Some [''exa''], cp_forged = None\<rparr>"

lemma sample_policy_stored: "normalize_crawler_policy sample_policy_input = Inr sample_policy"
  by code_simp

theorem stored_policy_valid_witness:
  "normalize_crawler_policy sample_policy = Inr sample_policy \<and> cp_allow sample_policy = [''googlebot'']"
  using stored_policy_valid [OF sample_policy_stored] by (simp add: sample_policy_def)


text \<open>C28: nobody is accused on missing evidence. Where the check calls a claim forged, the gate holds a
  ranges document that lists the operator with a maintained file, fetched in the last seven days; the
  caller's address was readable, public and in no proxy's ranges; no valid prefix of the operator's
  list covers it; and no signature backs the claim.\<close>

theorem forged_needs_evidence:
  assumes "check_identity ua signer ctx = Some r" "cl \<in> set (ir_claims r)" "ic_check cl = Forged"
    "\<And>cr. ctx_ranges ctx = Some cr \<Longrightarrow> cr = compile_ranges date_parse doc"
  shows "ctx_ranges ctx \<noteq> None \<and> (\<exists>row ip hdr. row \<in> set (doc_operators doc) \<and> op_id row = ic_operator_id cl \<and>
     op_kind row = RangesProof \<and> op_forged_eligible row \<and>
     (\<exists>iso t. op_fetched_at row = Some iso \<and> date_parse iso = Some t \<and> ctx_now ctx - t \<le> fresh_ms) \<and>
     ctx_client_ip ctx = Some hdr \<and> parse_client_address hdr = Some ip \<and>
     \<not> (\<exists>(f, v, n) \<in> set reserved_blocks. in_block f v n ip) \<and>
     \<not> (\<exists>(k, prefixes) \<in> set (doc_proxies doc). range_has (fst (ranges_from_strings no_opts prefixes)) ip) \<and>
     \<not> (\<exists>s \<in> set (op_prefixes row). \<exists>base bits. parse_cidr no_opts s = Some (cidr_of base bits) \<and> ip_ok base \<and>
          bits \<le> ip_bits (ip_family base) \<and> in_block (ip_family base) (ip_value base) bits ip)) \<and>
    (case signer of None \<Rightarrow> True | Some h \<Rightarrow> \<not> signer_backs h (ic_fragment cl)) \<and> ir_check r = Forged"
proof -
  from assms(1,2) have cl: "claim_check ctx signer (ic_operator_id cl) (ic_fragment cl) = Forged"
    and ir: "ir_check r = foldl worst_check BySignature (ir_claims r)"
    using assms(3) by (auto simp: check_identity_def Let_def split: if_splits)
  from claim_check_forged [OF cl] obtain cr c ip where cr: "ctx_ranges ctx = Some cr" "map_of (cr_operators cr) (ic_operator_id cl) = Some c"
    and ip: "caller_address ctx = Some ip" and c: "co_kind c = RangesProof" "co_forged_eligible c" "is_fresh c (ctx_now ctx)"
      "\<not> range_has (co_set c) ip" and sg: "\<not> (case signer of None \<Rightarrow> False | Some h \<Rightarrow> signer_backs h (ic_fragment cl))"
    by blast
  have crd: "cr = compile_ranges date_parse doc" by (rule assms(4) [OF cr(1)])
  from cr(2) have "c \<in> set (map (compile_operator date_parse) (doc_operators doc)) \<and> co_id c = ic_operator_id cl"
    unfolding crd compile_ranges_def Let_def compiled_ranges.select_convs by (rule map_of_compiled) simp
  then obtain row where row: "row \<in> set (doc_operators doc)" "c = compile_operator date_parse row" "co_id c = ic_operator_id cl"
    by auto
  obtain hdr where hdr: "ctx_client_ip ctx = Some hdr" "parse_client_address hdr = Some ip"
    and u: "is_usable_public_ip ip (map snd (cr_proxies cr))"
    using ip cr(1) by (auto simp: caller_address_def bind_eq_Some_conv split: option.splits if_splits)
  have px: "\<not> (\<exists>(k, prefixes) \<in> set (doc_proxies doc). range_has (fst (ranges_from_strings no_opts prefixes)) ip)"
    using u by (auto simp: crd compile_ranges_def Let_def is_usable_public_ip_def list_ex_iff)
  have rs: "\<not> (\<exists>(f, v, n) \<in> set reserved_blocks. in_block f v n ip)"
    using u unfolding is_usable_public_ip_def reserved_has by blast
  have "\<not> range_has (fst (ranges_from_strings no_opts (op_prefixes row))) ip" using c(4) row(2) by (simp add: compile_operator_def)
  then have ow: "\<not> (\<exists>s \<in> set (op_prefixes row). \<exists>base bits. parse_cidr no_opts s = Some (cidr_of base bits) \<and> ip_ok base \<and>
      bits \<le> ip_bits (ip_family base) \<and> in_block (ip_family base) (ip_value base) bits ip)"
    unfolding ranges_from_strings_has using cidr_hit by blast
  have fr: "\<exists>iso t. op_fetched_at row = Some iso \<and> date_parse iso = Some t \<and> ctx_now ctx - t \<le> fresh_ms"
    using c(3) row(2) by (auto simp: is_fresh_def compile_operator_def bind_eq_Some_conv split: option.splits)
  have "ir_check r = Forged" unfolding ir foldl_worst using assms(2,3) by blast
  moreover have "op_id row = ic_operator_id cl" "op_kind row = RangesProof" "op_forged_eligible row"
    using row c by (auto simp: compile_operator_def)
  moreover have "(case signer of None \<Rightarrow> True | Some h \<Rightarrow> \<not> signer_backs h (ic_fragment cl))"
    using sg by (auto split: option.splits)
  ultimately show ?thesis using row(1) hdr fr px rs ow cr(1) by blast
qed

definition sample_document :: ranges_document where
  "sample_document = \<lparr>doc_generated_at = ''g'', doc_proxies = [(''cloudflare'', [''173.245.48.0/20''])],
     doc_operators = [\<lparr>op_id = ''google'', op_operator = ''Google'', op_fragments = [''googlebot''], op_kind = RangesProof,
       op_forged_eligible = True, op_fetched_at = Some ''t'', op_prefixes = [''66.249.64.0/19'']\<rparr>],
     doc_sources = JArray []\<rparr>"

definition forged_context :: identity_context where
  "forged_context = \<lparr>ctx_ranges = Some (compile_ranges (\<lambda>_. Some 0) sample_document), ctx_client_ip = Some ''8.8.4.4:443'', ctx_now = 5\<rparr>"

definition forged_signals :: request_signals where
  "forged_signals = gptbot_signals\<lparr>sg_user_agent := ''Googlebot/2.1''\<rparr>"

definition sample_claim :: identity_claim where
  "sample_claim = \<lparr>ic_operator_id = ''google'', ic_operator = ''Google'', ic_fragment = ''googlebot'', ic_check = Forged\<rparr>"

lemma sample_prefixes: "parse_cidr no_opts ''66.249.64.0/19'' = Some \<lparr>cidr_family = IPv4, cidr_start = 0x42f94000, cidr_end = 0x42f95fff\<rparr>"
  "parse_cidr no_opts ''173.245.48.0/20'' = Some \<lparr>cidr_family = IPv4, cidr_start = 0xadf53000, cidr_end = 0xadf53fff\<rparr>"
  by code_simp+

lemma sample_forged: "check_identity ''Googlebot/2.1'' None forged_context = Some \<lparr>ir_check = Forged, ir_claims = [sample_claim]\<rparr>"
proof -
  have f: "claims_in ''Googlebot/2.1'' [(''google'', [''googlebot''])] = [(''google'', ''googlebot'')]"
    "sublist ''googlebot'' (js_lower ''Googlebot/2.1'')" by code_simp+
  have u: "is_usable_public_ip \<lparr>ip_family = IPv4, ip_value = 0x08080404\<rparr> [fst (ranges_from_strings no_opts [''173.245.48.0/20''])]"
    by (simp add: is_usable_public_ip_def reserved_has reserved_blocks_def in_block_def drop_bit_eq_div
        ranges_from_strings_has sample_prefixes)
  have a: "caller_address forged_context = Some \<lparr>ip_family = IPv4, ip_value = 0x08080404\<rparr>"
    using u by (simp add: caller_address_def forged_context_def sample_address sample_document_def compile_ranges_def)
  show ?thesis
    by (simp add: check_identity_def claim_table_def forged_context_def sample_document_def compile_ranges_def compile_operator_def
        f claim_check_def operator_name_def a [unfolded forged_context_def sample_document_def compile_ranges_def compile_operator_def, simplified]
        ranges_from_strings_has sample_prefixes is_fresh_def fresh_ms_def worst_check_def sample_claim_def)
qed

theorem forged_needs_evidence_witness:
  "\<exists>row. row \<in> set (doc_operators sample_document) \<and> op_id row = ''google'' \<and> op_forged_eligible row"
proof -
  have "sample_claim \<in> set (ir_claims \<lparr>ir_check = Forged, ir_claims = [sample_claim]\<rparr>)" by simp
  from forged_needs_evidence [OF sample_forged this, of "\<lambda>_. Some 0" sample_document] show ?thesis
    by (auto simp: sample_claim_def forged_context_def)
qed

text \<open>What the identity check may do. For a request that carries no claim verdict yet, its verdict
  is the classifier's own, except that an unsigned, allowlisted crawler whose claim is forged and
  whose operator is armed is charged instead of read free; it never frees anyone.\<close>

theorem identity_only_withholds:
  assumes "sg_forged_claim s = None"
  shows "case classify_with_identity s p mode idin of (v, res, forged) \<Rightarrow>
    v = classify s p \<or>
    (vd_kind v = Agent \<and> vd_forged v \<and> vd_kind (classify s p) = Human \<and>
     truthy (allowlisted (sg_user_agent s) p) \<and> sg_verified_agent s = None \<and> mode = IdentityAuto \<and>
     (\<exists>i r c. idin = Some i \<and> res = Some r \<and> forged = Some c \<and> c \<in> set (ir_claims r) \<and>
        ic_check c = Forged \<and> id_armed i (ic_operator_id c)))"
proof (cases "\<exists>i. mode = IdentityAuto \<and> idin = Some i")
  case False
  then have "classify_with_identity s p mode idin = (classify s p, None, None)"
    by (cases mode; cases idin) (auto simp: classify_with_identity_def)
  then show ?thesis by simp
next
  case True
  then obtain i where i: "mode = IdentityAuto" "idin = Some i" by blast
  define res where "res = check_identity (sg_user_agent s) (sg_verified_agent s) (identity_context.truncate i)"
  define forged where "forged = Option.bind res (\<lambda>r. find (\<lambda>c. ic_check c = Forged \<and> id_armed i (ic_operator_id c)) (ir_claims r))"
  have e: "classify_with_identity s p mode idin = (classify (case forged of None \<Rightarrow> s | Some c \<Rightarrow> s\<lparr>sg_forged_claim :=
      Some \<lparr>fc_operator_id = ic_operator_id c, fc_operator = ic_operator c, fc_fragment = ic_fragment c\<rparr>\<rparr>) p, res, forged)"
    unfolding i classify_with_identity_def res_def forged_def by (simp add: Let_def)
  show ?thesis
  proof (cases forged)
    case None
    then show ?thesis unfolding e by simp
  next
    case (Some c)
    then obtain r where r: "res = Some r" "c \<in> set (ir_claims r)" "ic_check c = Forged" "id_armed i (ic_operator_id c)"
      using find_SomeD unfolding forged_def by (fastforce simp: bind_eq_Some_conv)
    show ?thesis unfolding e Some option.case prod.case
      using classify_forged_claim [OF assms, of "\<lparr>fc_operator_id = ic_operator_id c, fc_operator = ic_operator c, fc_fragment = ic_fragment c\<rparr>" p]
        r i by blast
  qed
qed


theorem identity_only_withholds_witness:
  "case classify_with_identity forged_signals (no_policy\<lparr>cl_seo_allowlist := Some [''googlebot'']\<rparr>) IdentityAuto
      (Some (identity_context.extend forged_context \<lparr>id_armed = (\<lambda>_. True)\<rparr>)) of (v, res, forged) \<Rightarrow> vd_kind v = Agent \<and> vd_forged v"
proof -
  let ?p = "no_policy\<lparr>cl_seo_allowlist := Some [''googlebot'']\<rparr>"
  let ?i = "identity_context.extend forged_context \<lparr>id_armed = (\<lambda>_. True)\<rparr>"
  let ?s = "forged_signals\<lparr>sg_forged_claim := Some \<lparr>fc_operator_id = ''google'', fc_operator = ''Google'', fc_fragment = ''googlebot''\<rparr>\<rparr>"
  have t: "identity_context.truncate ?i = forged_context" "id_armed ?i = (\<lambda>_. True)" by (simp_all add: identity_context.defs)
  have e: "classify_with_identity forged_signals ?p IdentityAuto (Some ?i) =
      (classify ?s ?p, Some \<lparr>ir_check = Forged, ir_claims = [sample_claim]\<rparr>, Some sample_claim)"
    by (simp add: classify_with_identity_def t sample_forged forged_signals_def gptbot_signals_def sample_claim_def)
  have n: "sg_forged_claim forged_signals = None" by (simp add: forged_signals_def gptbot_signals_def)
  have "classify ?s ?p \<noteq> classify forged_signals ?p" by code_simp
  with identity_only_withholds [OF n, of ?p IdentityAuto "Some ?i"] show ?thesis unfolding e by simp
qed

end
