(* ===== verification/Decide.thy ===== *)
theory Decide
  imports Quote Classify
begin

text \<open>
  The verdict on one read, \<open>packages/enforce/src/decide.ts\<close>: who is asking and every rule that settles a
  read before a price is looked up (\<open>classifyRequester\<close>), and the toll (\<open>decide\<close>). The result of the Web
  Bot Auth verifier, the externally visible URL and the clock are inputs; the resolver of a quote is a
  function of the input, as in the source. An exception is an \<open>Inl\<close>.
\<close>

section \<open>Requests and publishers\<close>

record verified_agent =
  va_agent :: string
  va_keyid :: string
  va_covers :: "string list"
  va_created :: "int option"
  va_expires :: "int option"
  va_signature :: "string option"

datatype bot_auth = BotAbsent | BotInvalid | BotVerified verified_agent

text \<open>Header names are lower case, as \<open>Headers\<close> stores them.\<close>

record raw_request =
  rw_headers :: "(string, string) js_map"
  rw_pathname :: string
  rw_target :: string
  rw_external_url :: string

record publisher_config = publisher_pricing +
  pb_scope :: toll_scope
  pb_seo_allowlist :: "string list option"
  pb_crawler_policy :: "crawler_policy option"
  pb_identity_mode :: "identity_mode option"
  pb_terms :: "terms_policy option"
  pb_fleet_agent :: "string option"
  pb_fleet_publisher :: "string option"

definition header :: "raw_request \<Rightarrow> string \<Rightarrow> string option" where
  "header raw name = map_of (rw_headers raw) name"

record observation =
  ob_slug :: string
  ob_classified :: caller_kind
  ob_reason :: string
  ob_agent_ua :: "string option"
  ob_verified :: bool
  ob_verified_agent :: "string option"
  ob_sig_invalid :: bool
  ob_licence_refusal :: "licence_refusal option"
  ob_identity :: "identity_result option"
  ob_forged_from :: "string option"

datatype free_reason = ByFleet | ByTerms

text \<open>What a priced decision carries: the legs, the body of the 402 (absent when nobody is payable), the
  quote and the kind.\<close>

record ask =
  ask_legs :: "settlement_leg list"
  ask_body :: "json option"
  ask_quote :: quote
  ask_kind :: toll_kind

record licence_signer =
  ls_keyid :: string
  ls_covers :: "string list"
  ls_created :: "int option"
  ls_expires :: "int option"
  ls_signature :: "string option"

datatype decision =
    PassNonArticle
  | PassUnknown "observation option"
  | FreeRead string "free_reason option" observation
  | Blocked string observation
  | Prohibited prohibited_term string observation
  | RereadFree toll_kind observation
  | PaymentRequired ask observation
  | PaymentPresented string ask observation
  | LicencePresented string ask "licence_signer option" observation

datatype standing = Settled decision | Machine observation "verified_agent option"

record requester =
  rqr_raw :: raw_request
  rqr_publisher :: publisher_config
  rqr_bot_auth :: bot_auth
  rqr_via_ingress :: bool
  rqr_identity :: "identity_input option"

section \<open>Who is asking\<close>

definition signals_from :: "raw_request \<Rightarrow> request_signals" where
  "signals_from raw = \<lparr>sg_user_agent = (case header raw ''user-agent'' of None \<Rightarrow> [] | Some u \<Rightarrow> u),
     sg_has_payment = (header raw ''payment-signature'' \<noteq> None),
     sg_declared_agent = header raw ''x-naulon-agent'',
     sg_accept = (case header raw ''accept'' of None \<Rightarrow> [] | Some a \<Rightarrow> a),
     sg_headers = rw_headers raw, sg_verified_agent = None, sg_via_ingress = False, sg_forged_claim = None\<rparr>"

definition agent_of :: "bot_auth \<Rightarrow> verified_agent option" where
  "agent_of b = (case b of BotVerified a \<Rightarrow> Some a | _ \<Rightarrow> None)"

definition fleet_pull :: "requester \<Rightarrow> bool" where
  "fleet_pull r \<longleftrightarrow> (case (pb_fleet_agent (rqr_publisher r), pb_fleet_publisher (rqr_publisher r), agent_of (rqr_bot_auth r)) of
     (Some fa, Some fp, Some v) \<Rightarrow> fa \<noteq> [] \<and> fp \<noteq> [] \<and> va_agent v = fa \<and> ''@path'' \<in> set (va_covers v) \<and>
        ''x-naulon-publisher'' \<in> set (va_covers v) \<and> header (rqr_raw r) ''x-naulon-publisher'' = Some fp
   | _ \<Rightarrow> False)"

definition blocked_fragment :: "requester \<Rightarrow> string option" where
  "blocked_fragment r =
     (let block = map_option cp_block (pb_crawler_policy (rqr_publisher r));
          ua = (case header (rqr_raw r) ''user-agent'' of None \<Rightarrow> [] | Some u \<Rightarrow> u)
      in case match_ua_fragment ua block of Some f \<Rightarrow> Some f
         | None \<Rightarrow> Option.bind (agent_of (rqr_bot_auth r)) (\<lambda>v. match_ua_fragment (va_agent v) block))"

definition identified :: "requester \<Rightarrow> verdict \<times> identity_result option \<times> identity_claim option" where
  "identified r =
     (let p = rqr_publisher r in
      classify_with_identity
        ((signals_from (rqr_raw r))\<lparr>sg_verified_agent := map_option va_agent (agent_of (rqr_bot_auth r)),
           sg_via_ingress := rqr_via_ingress r\<rparr>)
        \<lparr>cl_seo_allowlist = Some ((case pb_seo_allowlist p of None \<Rightarrow> [] | Some xs \<Rightarrow> xs) @
             (case pb_crawler_policy p of None \<Rightarrow> [] | Some c \<Rightarrow> cp_allow c)),
         cl_charge_list = Option.bind (pb_crawler_policy p) cp_charge\<rparr>
        (case pb_identity_mode p of None \<Rightarrow> IdentityAuto | Some m \<Rightarrow> m) (rqr_identity r))"

definition forged_from :: "requester \<Rightarrow> identity_result option \<Rightarrow> string option" where
  "forged_from r identity =
     (if map_option ir_check identity \<noteq> Some Forged then None
      else (case Option.bind (rqr_identity r) ctx_client_ip of
          Some (c # cs) \<Rightarrow> map_option truncate_ip (parse_client_address (c # cs))
        | _ \<Rightarrow> None))"

definition observed :: "requester \<Rightarrow> string \<Rightarrow> observation" where
  "observed r slug = (case identified r of (v, identity, claim) \<Rightarrow>
     \<lparr>ob_slug = slug, ob_classified = vd_kind v, ob_reason = vd_reason v, ob_agent_ua = header (rqr_raw r) ''user-agent'',
      ob_verified = (agent_of (rqr_bot_auth r) \<noteq> None), ob_verified_agent = map_option va_agent (agent_of (rqr_bot_auth r)),
      ob_sig_invalid = (rqr_bot_auth r = BotInvalid), ob_licence_refusal = None, ob_identity = identity,
      ob_forged_from = forged_from r identity\<rparr>)"

definition bare_obs :: "string \<Rightarrow> string \<Rightarrow> observation" where
  "bare_obs slug reason = \<lparr>ob_slug = slug, ob_classified = Agent, ob_reason = reason, ob_agent_ua = None, ob_verified = False,
     ob_verified_agent = None, ob_sig_invalid = False, ob_licence_refusal = None, ob_identity = None, ob_forged_from = None\<rparr>"

definition classify_requester :: "requester \<Rightarrow> string \<Rightarrow> standing" where
  "classify_requester r slug =
     (let p = rqr_publisher r; va = agent_of (rqr_bot_auth r);
          ua = (case header (rqr_raw r) ''user-agent'' of None \<Rightarrow> [] | Some u \<Rightarrow> u)
      in if fleet_pull r then
        Settled (FreeRead ''fleet-pull'' (Some ByFleet) ((bare_obs slug ''origin pull signed by the gate'')
          \<lparr>ob_verified := True, ob_verified_agent := map_option va_agent va\<rparr>))
      else (case blocked_fragment r of
        Some f \<Rightarrow> Settled (Blocked f ((bare_obs slug (''crawler blocked by publisher ('' @ quoted f @ '')''))
          \<lparr>ob_agent_ua := Some ua, ob_verified := (va \<noteq> None), ob_verified_agent := map_option va_agent va,
           ob_sig_invalid := (rqr_bot_auth r = BotInvalid)\<rparr>))
      | None \<Rightarrow> (case identified r of (v, identity, claim) \<Rightarrow>
          (let obs = observed r slug in
           if vd_forged v \<and> claim \<noteq> None \<and> Option.bind (pb_crawler_policy p) cp_forged = Some ForgedBlock
           then Settled (Blocked (ic_fragment (the claim)) obs)
           else (case prohibited_use (pb_terms p) ua (map_option va_agent va) (vd_kind v) of
             Some ph \<Rightarrow> Settled (Prohibited (ph_term ph) (ph_reason ph) (obs\<lparr>ob_classified := Agent, ob_reason := ph_reason ph\<rparr>))
           | None \<Rightarrow>
               if vd_kind v = Human then Settled (FreeRead (''human ('' @ vd_reason v @ '')'') None obs)
               else if Option.bind (pb_terms p) tp_ai_input = Some UseFree then
                 Settled (FreeRead (''agent (ai-input free by the site'' @ CHR 0x27 # ''s terms)'') (Some ByTerms) obs)
               else Machine obs va)))))"

section \<open>The toll\<close>

definition agent_price_max_validity :: int where "agent_price_max_validity = 300"

definition priced_agent :: "verified_agent option \<Rightarrow> string option" where
  "priced_agent v = (case v of None \<Rightarrow> None
     | Some a \<Rightarrow> (case (va_created a, va_expires a) of
         (Some c, Some e) \<Rightarrow> if e - c > agent_price_max_validity then None else Some (va_agent a)
       | _ \<Rightarrow> None))"

text \<open>\<open>/^license[ ]+(\S+)$/i\<close> on the trimmed header.\<close>

definition parse_licence_authorization :: "string option \<Rightarrow> string option" where
  "parse_licence_authorization h = (case h of None \<Rightarrow> None
     | Some x \<Rightarrow> (let s = js_trim x; r = drop 7 s; t = dropWhile (\<lambda>c. c = CHR '' '') r in
         if js_lower (take 7 s) = ''license'' \<and> r \<noteq> t \<and> t \<noteq> [] \<and> \<not> list_ex js_is_space t then Some t else None))"

record 'k decide_env =
  de_reread :: "(unit, 'k) reread_env"
  de_build :: build_config

text \<open>The quote resolver, \<open>input.quote\<close>, already applied to the publisher.\<close>

record decide_input =
  di_requester :: requester
  di_path :: string
  di_now :: nat
  di_quote :: "string \<Rightarrow> toll_kind \<Rightarrow> string option \<Rightarrow> string option \<Rightarrow> toll_error + quote option"
  di_verification :: "license_verification option"
  di_clock1 :: int
  di_clock2 :: int

record decide_state =
  ds_cache :: article_re_cache
  ds_reread :: reread_state

datatype decide_error = ScopeThrew | LicenceThrew | TollThrew toll_error

definition toll_kind_of :: "raw_request \<Rightarrow> toll_kind" where
  "toll_kind_of raw = (if header raw ''x-naulon-kind'' = Some ''citation'' then TollCitation else TollRead)"

definition route_template_of :: "requester \<Rightarrow> string option" where
  "route_template_of r = (let sc = pb_scope (rqr_publisher r) in
     (case ts_scope sc of
        Some (SiteScope _ _) \<Rightarrow> None
      | Some (PrefixesScope (Some _)) \<Rightarrow> None
      | _ \<Rightarrow> route_template_for (rw_pathname (rqr_raw r)) (ts_prefixes sc)))"

text \<open>The licence step: entitled, refused with a reason that goes on the record, or nothing presented.\<close>

definition licence_step ::
    "'k decide_env \<Rightarrow> reread_state \<Rightarrow> decide_input \<Rightarrow> string \<Rightarrow> observation \<Rightarrow> (decide_error + observation option) \<times> reread_state" where
  "licence_step E st inp slug obs =
     (let raw = rqr_raw (di_requester inp) in
      case header raw ''x-naulon-license'' of
        Some (c # cs) \<Rightarrow>
          (case license_entitles_read (de_reread E) st (c # cs) slug (toll_kind_of raw)
             \<lparr>rr_target = rw_target raw, rr_proof = header raw ''x-naulon-proof''\<rparr> (di_verification inp) (di_clock1 inp) (di_clock2 inp) of
             (Threw, st') \<Rightarrow> (Inl LicenceThrew, st')
           | (Accepted u, st') \<Rightarrow> (Inr None, st')
           | (Refused why, st') \<Rightarrow> (Inr (Some (obs\<lparr>ob_licence_refusal := Some why\<rparr>)), st'))
      | _ \<Rightarrow> (Inr (Some obs), st))"

definition signer_of :: "verified_agent \<Rightarrow> licence_signer" where
  "signer_of v = \<lparr>ls_keyid = va_keyid v, ls_covers = va_covers v, ls_created = va_created v, ls_expires = va_expires v,
     ls_signature = va_signature v\<rparr>"

text \<open>The priced half: what the quote and the headers ask for.\<close>

definition priced_step :: "'k decide_env \<Rightarrow> decide_input \<Rightarrow> string \<Rightarrow> observation \<Rightarrow> verified_agent option \<Rightarrow> decide_error + decision" where
  "priced_step E inp slug obs va =
     (let r = di_requester inp; raw = rqr_raw r; kind = toll_kind_of raw;
          unknown = PassUnknown (if ob_identity obs \<noteq> None then Some obs else None)
      in bind_sum (map_error TollThrew (di_quote inp slug kind (Some (rw_target raw)) (priced_agent va))) (\<lambda>q0.
      case q0 of
        None \<Rightarrow> Inr unknown
      | Some q \<Rightarrow>
          if q_payees q = [] \<and> charges_reads (rqr_publisher r) then Inr unknown
          else bind_sum (if q_payees q = [] then Inr ([], None)
              else map_error TollThrew (bind_sum (build_402 (de_build E) q (rw_external_url raw) (di_now inp) (route_template_of r))
                (\<lambda>ch. Inr (ch_legs ch, Some (ch_body ch))))) (\<lambda>(legs, body).
            let a = \<lparr>ask_legs = legs, ask_body = body, ask_quote = q, ask_kind = kind\<rparr> in
            (case header raw ''payment-signature'' of
               Some (c # cs) \<Rightarrow> Inr (PaymentPresented (c # cs) a obs)
             | _ \<Rightarrow> (case parse_licence_authorization (header raw ''authorization'') of
                 Some token \<Rightarrow> Inr (LicencePresented token a (map_option signer_of va) obs)
               | None \<Rightarrow> Inr (PaymentRequired a obs))))))"

definition decide :: "'k decide_env \<Rightarrow> decide_state \<Rightarrow> decide_input \<Rightarrow> (decide_error + decision) \<times> decide_state" where
  "decide E st inp =
     (case slug_for_scope (ds_cache st) (di_path inp) (pb_scope (rqr_publisher (di_requester inp))) of
        (None, cache) \<Rightarrow> (Inl ScopeThrew, st\<lparr>ds_cache := cache\<rparr>)
      | (Some None, cache) \<Rightarrow> (Inr PassNonArticle, st\<lparr>ds_cache := cache\<rparr>)
      | (Some (Some slug), cache) \<Rightarrow>
          if slug = [] then (Inr PassNonArticle, st\<lparr>ds_cache := cache\<rparr>)
          else (case classify_requester (di_requester inp) slug of
            Settled d \<Rightarrow> (Inr d, st\<lparr>ds_cache := cache\<rparr>)
          | Machine obs va \<Rightarrow>
              (case licence_step E (ds_reread st) inp slug obs of
                 (res, rst) \<Rightarrow> (bind_sum res (\<lambda>o'. case o' of
                     None \<Rightarrow> Inr (RereadFree (toll_kind_of (rqr_raw (di_requester inp))) obs)
                   | Some obs' \<Rightarrow> priced_step E inp slug obs' va),
                   st\<lparr>ds_cache := cache, ds_reread := rst\<rparr>))))"

section \<open>Lemmas\<close>

lemma registry_fragments: "map rc_fragment crawler_registry =
    [''gptbot'', ''claudebot'', ''ccbot'', ''bytespider'', ''applebot-extended'', ''meta-externalagent'',
     ''amazonbot'', ''chatgpt-user'', ''claude-user'', ''perplexitybot'', ''perplexity-user'',
     ''meta-externalfetcher'', ''amzn-user'', ''mistralai-user'', ''exasearchbot'', ''naulon-wayfarer'',
     ''googlebot'', ''oai-searchbot'', ''claude-searchbot'', ''bingbot'', ''duckduckbot'', ''applebot'',
     ''meta-webindexer'', ''amzn-searchbot'', ''ia_archiver'', ''ahrefsbot'', ''semrushbot'']"
  by (simp add: crawler_registry_def crawler_row_def)

text \<open>Every fragment contains one of a few marks, and no sample of a browser contains any of them.\<close>

definition crawler_marks :: "string list" where
  "crawler_marks = [''bot'', ''-user'', ''spider'', ''meta-'', ''wayf'', ''archiv'']"

lemma registry_marked: "list_all (\<lambda>f. list_ex (\<lambda>m. sublist m f) crawler_marks) (map rc_fragment crawler_registry)"
  unfolding registry_fragments by code_simp

lemma browsers_unmarked: "list_all (\<lambda>u. list_all (\<lambda>m. \<not> sublist m u) crawler_marks) browser_ua_samples"
  by code_simp

lemma registry_no_space: "list_all (\<lambda>f. f \<noteq> [] \<and> List.last f \<noteq> CHR '' '') (map rc_fragment crawler_registry)"
  unfolding registry_fragments by simp

lemma sublist_snoc:
  assumes "sublist f (u @ [c])" "f \<noteq> []" "List.last f \<noteq> c"
  shows "sublist f u"
proof -
  obtain a b where ab: "u @ [c] = a @ f @ b" using assms(1) by (auto simp: sublist_def)
  show ?thesis
  proof (cases b rule: rev_cases)
    case Nil
    then have "List.last f = c" using ab assms(2) by (metis append_Nil2 last_appendR last_snoc)
    with assms(3) show ?thesis by blast
  next
    case (snoc b' d)
    then have "u = a @ f @ b'" using ab by (metis append.assoc butlast_snoc)
    then show ?thesis by (auto simp: sublist_def)
  qed
qed

lemma registry_not_browser:
  assumes "c \<in> set crawler_registry" "u \<in> set browser_ua_samples"
  shows "\<not> sublist (rc_fragment c) (u @ '' '')"
proof
  assume s: "sublist (rc_fragment c) (u @ '' '')"
  have f: "rc_fragment c \<in> set (map rc_fragment crawler_registry)" using assms(1) by simp
  have l: "rc_fragment c \<noteq> [] \<and> List.last (rc_fragment c) \<noteq> CHR '' ''"
    using registry_no_space f unfolding list_all_iff by blast
  have su: "sublist (rc_fragment c) u" by (rule sublist_snoc [OF s conjunct1 [OF l] conjunct2 [OF l]])
  obtain m where m: "m \<in> set crawler_marks" "sublist m (rc_fragment c)"
    using registry_marked f unfolding list_all_iff list_ex_iff by blast
  have "sublist m u" by (rule sublist_order.order_trans [OF m(2) su])
  moreover have "\<not> sublist m u" using browsers_unmarked assms(2) m(1) unfolding list_all_iff by blast
  ultimately show False by blast
qed

lemma browser_not_registered:
  assumes "js_lower ua \<in> set browser_ua_samples"
  shows "registry_hit ua None = None"
proof -
  have "js_lower (ua @ '' '') = js_lower ua @ '' ''" by (simp add: js_lower_append) (simp add: js_lower_def js_lower_char_def)
  then show ?thesis using registry_not_browser assms unfolding registry_hit_def Let_def option.case append_Nil2 find_None by simp
qed

text \<open>A person's browser, as the gate sees it: no signature, no payment, no declared agent, and a user-agent
  and \<open>Accept\<close> a browser sends.\<close>

definition plain_browser :: "requester \<Rightarrow> string \<Rightarrow> bool" where
  "plain_browser r ua \<longleftrightarrow> header (rqr_raw r) ''user-agent'' = Some ua \<and> js_lower ua \<in> set browser_ua_samples \<and>
     (\<exists>a. header (rqr_raw r) ''accept'' = Some a \<and> sublist ''text/html'' a) \<and>
     header (rqr_raw r) ''payment-signature'' = None \<and> header (rqr_raw r) ''x-naulon-agent'' = None \<and>
     agent_of (rqr_bot_auth r) = None"

text \<open>A publisher's policy as the write path stores it, and no crawler named in the user-agent by the ranges
  in force.\<close>

definition stored_policy :: "requester \<Rightarrow> bool" where
  "stored_policy r \<longleftrightarrow> (case pb_crawler_policy (rqr_publisher r) of None \<Rightarrow> True
     | Some p \<Rightarrow> \<exists>raw. normalize_crawler_policy raw = Inr p)"

definition names_no_crawler :: "requester \<Rightarrow> string \<Rightarrow> bool" where
  "names_no_crawler r ua \<longleftrightarrow> (case rqr_identity r of None \<Rightarrow> True | Some i \<Rightarrow> claims_in ua (claim_table (ctx_ranges i)) = [])"

lemma stored_lists_guarded:
  assumes "normalize_crawler_policy raw = Inr p"
  shows "list_all (fragment_ok True) (cp_block p)" "cp_charge p = Some cs \<Longrightarrow> list_all (fragment_ok True) cs"
  using normalize_policy_cases(2,3) [OF assms] normalize_list_ok by blast+

lemma browser_not_blocked:
  assumes "plain_browser r ua" "stored_policy r"
  shows "blocked_fragment r = None"
proof -
  have u: "header (rqr_raw r) ''user-agent'' = Some ua" "js_lower ua \<in> set browser_ua_samples" "agent_of (rqr_bot_auth r) = None"
    using assms(1) by (auto simp: plain_browser_def)
  have "match_ua_fragment ua (map_option cp_block (pb_crawler_policy (rqr_publisher r))) = None"
  proof (cases "pb_crawler_policy (rqr_publisher r)")
    case None
    then show ?thesis by (simp add: match_ua_fragment_def)
  next
    case (Some p)
    then obtain raw where "normalize_crawler_policy raw = Inr p" using assms(2) by (auto simp: stored_policy_def)
    with guarded_not_in_browser [OF stored_lists_guarded(1) u(2)] Some show ?thesis by simp
  qed
  then show ?thesis by (simp add: blocked_fragment_def Let_def u(1,3))
qed

lemma human_signals:
  assumes "js_lower (sg_user_agent s) \<in> set browser_ua_samples" "sublist ''text/html'' (sg_accept s)"
    "\<not> sg_has_payment s" "sg_declared_agent s = None" "sg_verified_agent s = None" "sg_forged_claim s = None"
    "match_ua_fragment (sg_user_agent s) (cl_charge_list p) = None"
  shows "vd_kind (classify s p) = Human \<and> \<not> vd_forged (classify s p)"
proof -
  have k: "find (\<lambda>f. sublist f (js_lower (sg_user_agent s))) known_agent_ua = None" by (rule not_known_browser [OF assms(1)])
  show ?thesis unfolding classify_def classify_unsigned_def Let_def k
    using assms(2-7) by (simp add: truthy_def mk_verdict_def looks_browser_def)
qed

lemma browser_is_human:
  assumes "plain_browser r ua" "stored_policy r" "names_no_crawler r ua"
  shows "vd_kind (fst (identified r)) = Human \<and> \<not> vd_forged (fst (identified r))"
proof -
  define s where "s = (signals_from (rqr_raw r))\<lparr>sg_verified_agent := map_option va_agent (agent_of (rqr_bot_auth r)),
    sg_via_ingress := rqr_via_ingress r\<rparr>"
  define p where "p = \<lparr>cl_seo_allowlist = Some ((case pb_seo_allowlist (rqr_publisher r) of None \<Rightarrow> [] | Some xs \<Rightarrow> xs) @
      (case pb_crawler_policy (rqr_publisher r) of None \<Rightarrow> [] | Some c \<Rightarrow> cp_allow c)),
    cl_charge_list = Option.bind (pb_crawler_policy (rqr_publisher r)) cp_charge\<rparr>"
  have f: "js_lower (sg_user_agent s) \<in> set browser_ua_samples" "sublist ''text/html'' (sg_accept s)" "\<not> sg_has_payment s"
    "sg_declared_agent s = None" "sg_verified_agent s = None" "sg_forged_claim s = None" "sg_user_agent s = ua"
    using assms(1) by (auto simp: s_def plain_browser_def signals_from_def)
  have ch: "match_ua_fragment (sg_user_agent s) (cl_charge_list p) = None"
  proof (cases "cl_charge_list p")
    case None
    then show ?thesis by (simp add: match_ua_fragment_def)
  next
    case (Some cs)
    then obtain pol raw where "normalize_crawler_policy raw = Inr pol" "cp_charge pol = Some cs"
      using assms(2) by (auto simp: p_def stored_policy_def split: option.splits)
    with guarded_not_in_browser [OF stored_lists_guarded(2) f(1)] Some show ?thesis by simp
  qed
  have h: "vd_kind (classify s p) = Human \<and> \<not> vd_forged (classify s p)" by (rule human_signals [OF f(1-6) ch])
  have "fst (classify_with_identity s p m (rqr_identity r)) = classify s p" for m
  proof (cases "rqr_identity r")
    case (Some i)
    then have "claims_in ua (claim_table (ctx_ranges (identity_context.truncate i))) = []"
      using assms(3) by (simp add: names_no_crawler_def identity_context.defs)
    then have "check_identity (sg_user_agent s) (sg_verified_agent s) (identity_context.truncate i) = None"
      by (simp add: check_identity_def f(7))
    with Some show ?thesis by (cases m) (simp_all add: classify_with_identity_def)
  qed (simp add: classify_with_identity_def split: identity_mode.split)
  with h show ?thesis by (simp add: identified_def Let_def s_def p_def)
qed

section \<open>Properties\<close>


definition asks :: "decision \<Rightarrow> ask \<Rightarrow> bool" where
  "asks d a \<longleftrightarrow> (\<exists>obs p t sg. d = PaymentRequired a obs \<or> d = PaymentPresented p a obs \<or> d = LicencePresented t a sg obs)"

lemma settled_asks_nothing: "classify_requester r slug = Settled d \<Longrightarrow> \<not> asks d a"
  by (auto simp: classify_requester_def asks_def Let_def split: if_splits option.splits prod.splits)

lemma priced_step_asks:
  assumes "priced_step E inp slug obs va = Inr d" "asks d a"
  shows "\<exists>q. di_quote inp slug (ask_kind a) (Some (rw_target (rqr_raw (di_requester inp)))) (priced_agent va) = Inr (Some q) \<and>
    ask_quote a = q \<and> ask_kind a = toll_kind_of (rqr_raw (di_requester inp)) \<and>
    (q_payees q \<noteq> [] \<longrightarrow> (\<exists>ch. build_402 (de_build E) q (rw_external_url (rqr_raw (di_requester inp))) (di_now inp)
        (route_template_of (di_requester inp)) = Inr ch \<and> ask_legs a = ch_legs ch \<and> ask_body a = Some (ch_body ch)))"
proof -
  let ?r = "di_requester inp" and ?raw = "rqr_raw (di_requester inp)"
  let ?k = "toll_kind_of ?raw"
  from assms(1) obtain q0 where q0: "di_quote inp slug ?k (Some (rw_target ?raw)) (priced_agent va) = Inr q0"
    by (cases "di_quote inp slug ?k (Some (rw_target ?raw)) (priced_agent va)") (auto simp: priced_step_def Let_def)
  obtain q where q: "q0 = Some q" "\<not> (q_payees q = [] \<and> charges_reads (rqr_publisher ?r))"
    using assms q0 by (cases q0) (auto simp: priced_step_def Let_def asks_def split: if_splits)
  obtain legs body where lb: "(if q_payees q = [] then Inr ([], None)
      else map_error TollThrew (bind_sum (build_402 (de_build E) q (rw_external_url ?raw) (di_now inp) (route_template_of ?r))
        (\<lambda>ch. Inr (ch_legs ch, Some (ch_body ch))))) = Inr (legs, body)"
    and d: "(let a = \<lparr>ask_legs = legs, ask_body = body, ask_quote = q, ask_kind = ?k\<rparr> in
            (case header ?raw ''payment-signature'' of
               Some (c # cs) \<Rightarrow> Inr (PaymentPresented (c # cs) a obs)
             | _ \<Rightarrow> (case parse_licence_authorization (header ?raw ''authorization'') of
                 Some token \<Rightarrow> Inr (LicencePresented token a (map_option signer_of va) obs)
               | None \<Rightarrow> Inr (PaymentRequired a obs)))) = (Inr d :: decide_error + decision)"
    using assms(1) q0 q by (auto simp: priced_step_def Let_def bind_sum_Inr_iff)
  have a: "a = \<lparr>ask_legs = legs, ask_body = body, ask_quote = q, ask_kind = ?k\<rparr>"
    using d assms(2) by (auto simp: Let_def asks_def split: option.splits list.splits)
  have "\<exists>ch. build_402 (de_build E) q (rw_external_url ?raw) (di_now inp) (route_template_of ?r) = Inr ch \<and>
      legs = ch_legs ch \<and> body = Some (ch_body ch)" if "q_payees q \<noteq> []"
    using lb that
    by (cases "build_402 (de_build E) q (rw_external_url ?raw) (di_now inp) (route_template_of ?r)") auto
  with q0 q(1) a show ?thesis by auto
qed

lemma decide_asks:
  assumes "decide E st inp = (Inr d, st')" "asks d a"
  obtains slug obs obs' where "classify_requester (di_requester inp) slug = Machine obs (agent_of (rqr_bot_auth (di_requester inp)))"
    "priced_step E inp slug obs' (agent_of (rqr_bot_auth (di_requester inp))) = Inr d"
    "licence_step E (ds_reread st) inp slug obs = (Inr (Some obs'), ds_reread st')"
proof -
  have n: "\<not> asks PassNonArticle a" "\<not> asks (RereadFree k obs) a" for k obs by (auto simp: asks_def)
  obtain slug cache where sl: "slug_for_scope (ds_cache st) (di_path inp) (pb_scope (rqr_publisher (di_requester inp))) = (Some (Some slug), cache)"
    "slug \<noteq> []" using assms n by (auto simp: decide_def split: prod.splits option.splits if_splits)
  obtain obs va where m: "classify_requester (di_requester inp) slug = Machine obs va"
    using assms sl settled_asks_nothing [of "di_requester inp" slug d a]
    by (cases "classify_requester (di_requester inp) slug") (auto simp: decide_def)
  then have va: "va = agent_of (rqr_bot_auth (di_requester inp))"
    by (auto simp: classify_requester_def Let_def split: if_splits option.splits prod.splits)
  obtain res rst where l: "licence_step E (ds_reread st) inp slug obs = (res, rst)" by fastforce
  then obtain obs' where o: "res = Inr (Some obs')"
    using assms sl m n by (cases res) (auto simp: decide_def split: option.splits)
  show thesis
    by (rule that [OF m [unfolded va], of obs']) (use assms sl m l o va in \<open>auto simp: decide_def\<close>)
qed

lemma priced_agent_Some: "priced_agent va = Some g \<Longrightarrow>
    \<exists>v c e. va = Some v \<and> va_agent v = g \<and> va_created v = Some c \<and> va_expires v = Some e \<and> e - c \<le> 300"
  by (auto simp: priced_agent_def agent_price_max_validity_def split: option.splits if_splits)

lemma quote_read_Some:
  assumes "quote_read cfg p slug kind path va = Inr (Some q)"
  shows "\<exists>cr. pb_credits p slug = Some cr \<and> resolve_payees (ac_contributors cr) = Inr (q_payees q) \<and>
    toll_price p kind path va = Inr (q_price q) \<and> 0 \<le> q_price q \<and>
    q_extra_legs q = (case pb_extra_legs p of None \<Rightarrow> [] | Some f \<Rightarrow> f (q_price q) kind) \<and>
    q_network q = Some (case pb_settlement_network p of Some n \<Rightarrow> n | None \<Rightarrow> pg_active_network cfg) \<and>
    q_priced_for q = Option.bind (resolve_price_rule (pb_price_rules p) path va) agent"
proof -
  obtain cr where cr: "pb_credits p slug = Some cr" using assms by (auto simp: quote_read_def split: option.splits)
  obtain ps where ps: "resolve_payees (ac_contributors cr) = Inr ps"
    using assms cr by (cases "resolve_payees (ac_contributors cr)") (auto simp: quote_read_def)
  obtain price where pr: "toll_price p kind path va = Inr price"
    using assms cr ps
    by (cases "toll_price p kind path va") (auto simp: quote_read_def toll_price_def Let_def split: if_splits)
  then have "0 \<le> price" by (auto simp: toll_price_def toll_price_under_def usdc_def Let_def split: if_splits)
  then show ?thesis using assms cr ps pr
    by (cases "pb_extra_legs p") (auto simp: quote_read_def toll_price_def Let_def split: if_splits)
qed

text \<open>C6: what a 402 asks is what the publisher's record says. Whenever a read is priced from the publisher's
  own record, the price is the record's price for the requested path, kind and agent under its rules;
  the legs the buyer is asked to sign add up to exactly that price, in micro-units, plus the
  publisher's extra legs; they are all payable in the chain's USDC on the network the publisher
  settles on, the first of them to the primary author; and a price set by an agent's own rule follows
  only a verified signature that lives five minutes at most.\<close>

theorem asked_price_is_the_records:
  assumes "decide E st inp = (Inr d, st')" "asks d a"
    and pub: "p = rqr_publisher (di_requester inp)" "charges_reads p" "di_quote inp = quote_read cfg p"
    and credits: "\<And>slug cr. pb_credits p slug = Some cr \<Longrightarrow> credits_schema (ac_contributors cr)"
    and fees: "total_micro (map pl_amount (q_extra_legs (ask_quote a))) = Some fees"
  shows "\<exists>price. toll_price p (toll_kind_of (rqr_raw (di_requester inp))) (Some (rw_target (rqr_raw (di_requester inp))))
       (priced_agent (agent_of (rqr_bot_auth (di_requester inp)))) = Inr price \<and>
     total_micro (leg_amounts (ask_legs a)) = Some (js_round (price * micro_unit) + fees) \<and>
     list_all (\<lambda>l. let n = get_network (case pb_settlement_network p of Some n \<Rightarrow> n | None \<Rightarrow> pg_active_network cfg) in
        rq_network (lg_req l) = sn_network n \<and> rq_asset (lg_req l) = sn_usdc n) (ask_legs a) \<and>
     ask_legs a \<noteq> [] \<and>
     primary_payee (q_payees (ask_quote a)) (bc_tie_break (de_build E)) = Inr (rq_pay_to (lg_req (hd (ask_legs a)))) \<and>
     (\<forall>g. q_priced_for (ask_quote a) = Some g \<longrightarrow> (\<exists>v c e. rqr_bot_auth (di_requester inp) = BotVerified v \<and>
        js_lower (va_agent v) = g \<and> va_created v = Some c \<and> va_expires v = Some e \<and> e - c \<le> 300))"
proof -
  let ?r = "di_requester inp" and ?va = "agent_of (rqr_bot_auth (di_requester inp))"
  let ?path = "Some (rw_target (rqr_raw (di_requester inp)))"
  obtain slug obs obs' where ps: "priced_step E inp slug obs' ?va = Inr d" by (rule decide_asks [OF assms(1,2)])
  obtain q where q: "quote_read cfg p slug (ask_kind a) ?path (priced_agent ?va) = Inr (Some q)" "ask_quote a = q"
    "ask_kind a = toll_kind_of (rqr_raw ?r)"
    "q_payees q \<noteq> [] \<Longrightarrow> \<exists>ch. build_402 (de_build E) q (rw_external_url (rqr_raw ?r)) (di_now inp) (route_template_of ?r) = Inr ch \<and>
       ask_legs a = ch_legs ch"
    using priced_step_asks [OF ps assms(2)] unfolding pub(3) by blast
  obtain cr where cr: "pb_credits p slug = Some cr" "resolve_payees (ac_contributors cr) = Inr (q_payees q)"
    "toll_price p (ask_kind a) ?path (priced_agent ?va) = Inr (q_price q)" "0 \<le> q_price q"
    "q_network q = Some (case pb_settlement_network p of Some n \<Rightarrow> n | None \<Rightarrow> pg_active_network cfg)"
    "q_priced_for q = Option.bind (resolve_price_rule (pb_price_rules p) ?path (priced_agent ?va)) agent"
    using quote_read_Some [OF q(1)] by blast
  have ne: "q_payees q \<noteq> []"
  proof
    assume "q_payees q = []"
    then show False using q(1) cr(1,2) pub(2) by (simp add: quote_read_def)
  qed
  obtain ps' where r: "resolve_payees (ac_contributors cr) = Inr ps'" "ps' \<noteq> [] \<Longrightarrow> sum_list (map share ps') = 1"
    "\<forall>x \<in> set ps'. 0 \<le> share x" by (rule resolve_payees_cases [OF credits [OF cr(1)]]) blast
  then have sh: "sum_list (map share (q_payees q)) = 1" "\<forall>x \<in> set (q_payees q). 0 \<le> share x" using cr(2) ne by auto
  obtain ch where ch: "build_402 (de_build E) q (rw_external_url (rqr_raw ?r)) (di_now inp) (route_template_of ?r) = Inr ch"
    "ask_legs a = ch_legs ch" using q(4) [OF ne] by blast
  obtain l ls where l: "ch_legs ch = l # ls" "total_micro (leg_amounts (ch_legs ch)) = Some (js_round (q_price q * micro_unit) + fees)"
    "primary_payee (q_payees q) (bc_tie_break (de_build E)) = Inr (rq_pay_to (lg_req l))" "list_all (leg_on (de_build E) q) (ch_legs ch)"
    using build_402_asks [OF ne sh cr(4) fees [unfolded q(2)], of "de_build E" "rw_external_url (rqr_raw ?r)" "di_now inp" "route_template_of ?r"]
      ch(1) by auto
  have on: "list_all (\<lambda>l. let n = get_network (case pb_settlement_network p of Some n \<Rightarrow> n | None \<Rightarrow> pg_active_network cfg) in
        rq_network (lg_req l) = sn_network n \<and> rq_asset (lg_req l) = sn_usdc n) (ask_legs a)"
    using l(4) cr(5) by (auto simp: ch(2) list_all_iff leg_on_def quote_network_def Let_def)
  have ag: "\<exists>v c e. rqr_bot_auth ?r = BotVerified v \<and> js_lower (va_agent v) = g \<and> va_created v = Some c \<and> va_expires v = Some e \<and> e - c \<le> 300"
    if g: "q_priced_for q = Some g" for g
  proof -
    obtain rule where rule: "resolve_price_rule (pb_price_rules p) ?path (priced_agent ?va) = Some rule" "agent rule = Some g"
      using g cr(6) by (auto simp: Option.bind_eq_Some_conv)
    then obtain rs where "scan_rules rs (map_option js_lower (priced_agent ?va)) (rw_target (rqr_raw ?r)) = Some rule"
      by (auto simp: resolve_price_rule_def split: option.splits)
    from scan_rules_Some [OF this] rule(2) have "map_option js_lower (priced_agent ?va) = Some g"
      by (auto simp: rule_governs_def)
    then obtain h where h: "priced_agent ?va = Some h" "js_lower h = g" by auto
    then obtain v c e where v: "?va = Some v" "va_agent v = h" "va_created v = Some c" "va_expires v = Some e" "e - c \<le> 300"
      using priced_agent_Some by metis
    then have "rqr_bot_auth ?r = BotVerified v" by (auto simp: agent_of_def split: bot_auth.splits)
    with v h show ?thesis by auto
  qed
  have hd: "hd (ask_legs a) = l" "ask_legs a \<noteq> []" using ch(2) l(1) by simp_all
  show ?thesis
    using cr(3) l(2,3) on ag unfolding q(2,3) ch(2) [symmetric] hd(1) using hd(2) by blast
qed


section \<open>A sample gate\<close>

definition sample_browser :: string where
  "sample_browser = ''Mozilla/5.0 (X11; Linux x86_64; rv:128.0) Gecko/20100101 Firefox/128.0''"

definition sample_publisher :: publisher_config where
  "sample_publisher = \<lparr>pb_price = 1 / 100, pb_citation_multiplier = 5, pb_price_rules = None, pb_observe = False,
     pb_coauthor_split = Some True, pb_extra_legs = None, pb_memo_id = None, pb_settlement_network = None,
     pb_credits = (\<lambda>s. Some \<lparr>ac_slug = s, ac_title = ''A post'', ac_contributors = sample_credits\<rparr>),
     pb_scope = \<lparr>ts_prefixes = [''blog''], ts_scope = None\<rparr>, pb_seo_allowlist = None,
     pb_crawler_policy = Some \<lparr>cp_allow = [], cp_block = [''ccbot''], cp_charge = None, cp_forged = None\<rparr>,
     pb_identity_mode = None, pb_terms = None, pb_fleet_agent = None, pb_fleet_publisher = None\<rparr>"

definition sample_input :: "string \<Rightarrow> decide_input" where
  "sample_input ua = \<lparr>di_requester = \<lparr>rqr_raw = \<lparr>rw_headers = [(''user-agent'', ua), (''accept'', ''text/html'')],
       rw_pathname = ''/blog/post'', rw_target = ''/blog/post'', rw_external_url = ''https://a.b/blog/post''\<rparr>,
       rqr_publisher = sample_publisher, rqr_bot_auth = BotAbsent, rqr_via_ingress = False, rqr_identity = None\<rparr>,
     di_path = ''/blog/post'', di_now = 0,
     di_quote = quote_read \<lparr>pg_active_network = BaseSepolia, pg_payment_mode = MockMode,
       pg_buyer_links = \<lparr>bl_guide = ''https://a.b'', bl_fund = None, bl_mcp = None\<rparr>\<rparr> sample_publisher,
     di_verification = None, di_clock1 = 0, di_clock2 = 0\<rparr>"

definition sample_env :: "unit decide_env" where
  "sample_env = \<lparr>de_reread = toy_gate JNull, de_build = \<lparr>bc_active_network = BaseSepolia, bc_tie_break = TieWallet, bc_timeout = 60,
     bc_payment_mode = MockMode, bc_guide_url = ''https://a.b'', bc_nonce_ttl = 60, bc_sign = (\<lambda>e s b. ''m''),
     bc_salt = (\<lambda>i. ''s''), bc_url_parses = (\<lambda>u. True), bc_url_host = (\<lambda>u. None)\<rparr>\<rparr>"

definition sample_state :: decide_state where
  "sample_state = \<lparr>ds_cache = [], ds_reread = toy_state\<rparr>"

lemma sample_slug: "fst (slug_for_scope (ds_cache sample_state) ''/blog/post'' (pb_scope sample_publisher)) = Some (Some ''post'')"
  by code_simp

lemma sample_policy: "stored_policy (di_requester (sample_input ua))"
proof -
  have "normalize_crawler_policy \<lparr>cp_allow = [], cp_block = [''ccbot''], cp_charge = None, cp_forged = None\<rparr> =
    Inr \<lparr>cp_allow = [], cp_block = [''ccbot''], cp_charge = None, cp_forged = None\<rparr>" by code_simp
  then show ?thesis by (auto simp: stored_policy_def sample_input_def sample_publisher_def)
qed

lemma sample_plain: "plain_browser (di_requester (sample_input sample_browser)) sample_browser"
proof -
  have "js_lower sample_browser \<in> set browser_ua_samples" by code_simp
  then show ?thesis by (simp add: plain_browser_def sample_input_def header_def agent_of_def)
qed


text \<open>A crawler on the same page is asked to pay.\<close>

lemma sample_quote: "\<exists>q. di_quote (sample_input ua) ''post'' TollRead (Some ''/blog/post'') None = Inr (Some q) \<and>
    q_payees q \<noteq> [] \<and> q_extra_legs q = [] \<and> q_price q = 1 / 100 \<and>
    sum_list (map share (q_payees q)) = 1 \<and> (\<forall>p \<in> set (q_payees q). 0 \<le> share p)"
proof -
  obtain ps where ps: "resolve_payees sample_credits = Inr ps" "ps \<noteq> []" "sum_list (map share ps) = 1" "\<forall>p \<in> set ps. 0 \<le> share p"
    by (rule resolve_payees_cases [OF sample_credits_ok(1)]) (use sample_credits_ok(2) in auto)
  then show ?thesis
    by (simp add: sample_input_def quote_read_def sample_publisher_def toll_price_under_def usdc_def Let_def resolve_price_rule_def charges_reads_def)
qed

lemma sample_machine: "classify_requester (di_requester (sample_input ''GPTBot/1.0'')) ''post'' =
    Machine (observed (di_requester (sample_input ''GPTBot/1.0'')) ''post'') None"
  by code_simp

lemma sample_asks: "\<exists>a obs st'. decide sample_env sample_state (sample_input ''GPTBot/1.0'') = (Inr (PaymentRequired a obs), st') \<and>
    q_extra_legs (ask_quote a) = []"
proof -
  let ?inp = "sample_input ''GPTBot/1.0''"
  obtain q where q: "di_quote ?inp ''post'' TollRead (Some ''/blog/post'') None = Inr (Some q)" "q_payees q \<noteq> []" "q_extra_legs q = []"
    "q_price q = 1 / 100" "sum_list (map share (q_payees q)) = 1" "\<forall>p \<in> set (q_payees q). 0 \<le> share p"
    using sample_quote by blast
  have f: "total_micro (map pl_amount (q_extra_legs q)) = Some 0" by (simp add: q(3))
  obtain ch where ch: "build_402 (de_build sample_env) q ''https://a.b/blog/post'' 0 (route_template_of (di_requester ?inp)) = Inr ch"
    using build_402_asks [OF q(2,5,6) _ f, of "de_build sample_env" "''https://a.b/blog/post''" 0 "route_template_of (di_requester ?inp)"] q(4)
    by auto
  have r: "rqr_raw (di_requester ?inp) = \<lparr>rw_headers = [(''user-agent'', ''GPTBot/1.0''), (''accept'', ''text/html'')],
       rw_pathname = ''/blog/post'', rw_target = ''/blog/post'', rw_external_url = ''https://a.b/blog/post''\<rparr>" "di_now ?inp = 0"
    "di_path ?inp = ''/blog/post''" "rqr_publisher (di_requester ?inp) = sample_publisher"
    by (simp_all add: sample_input_def)
  obtain cache where sl: "slug_for_scope (ds_cache sample_state) ''/blog/post'' (pb_scope sample_publisher) = (Some (Some ''post''), cache)"
    using sample_slug by (cases "slug_for_scope (ds_cache sample_state) ''/blog/post'' (pb_scope sample_publisher)") auto
  have "decide sample_env sample_state ?inp = (Inr (PaymentRequired \<lparr>ask_legs = ch_legs ch, ask_body = Some (ch_body ch), ask_quote = q,
      ask_kind = TollRead\<rparr> (observed (di_requester ?inp) ''post'')), sample_state\<lparr>ds_cache := cache, ds_reread := ds_reread sample_state\<rparr>)"
    unfolding decide_def r(3,4) sl
    by (simp add: sample_machine licence_step_def priced_step_def Let_def r header_def toll_kind_of_def priced_agent_def q(1,2)
        ch parse_licence_authorization_def)
  then show ?thesis using q(3) by auto
qed

theorem asked_price_is_the_records_witness:
  "\<exists>a obs st'. decide sample_env sample_state (sample_input ''GPTBot/1.0'') = (Inr (PaymentRequired a obs), st') \<and>
     total_micro (leg_amounts (ask_legs a)) = Some 10000"
proof -
  obtain a obs st' where d: "decide sample_env sample_state (sample_input ''GPTBot/1.0'') = (Inr (PaymentRequired a obs), st')"
    "q_extra_legs (ask_quote a) = []" using sample_asks by blast
  have p: "rqr_publisher (di_requester (sample_input ''GPTBot/1.0'')) = sample_publisher"
    "priced_agent (agent_of (rqr_bot_auth (di_requester (sample_input ''GPTBot/1.0'')))) = None"
    "rw_target (rqr_raw (di_requester (sample_input ''GPTBot/1.0''))) = ''/blog/post''"
    "toll_kind_of (rqr_raw (di_requester (sample_input ''GPTBot/1.0''))) = TollRead"
    by (simp_all add: sample_input_def agent_of_def priced_agent_def toll_kind_of_def header_def)
  have t: "toll_price sample_publisher TollRead (Some ''/blog/post'') None = Inr (1 / 100)"
    by (simp add: toll_price_def toll_price_under_def sample_publisher_def resolve_price_rule_def usdc_def Let_def)
  have c: "\<And>slug cr. pb_credits sample_publisher slug = Some cr \<Longrightarrow> credits_schema (ac_contributors cr)"
    using sample_credits_ok(1) by (auto simp: sample_publisher_def)
  have h: "asks (PaymentRequired a obs) a" "charges_reads sample_publisher" "total_micro (map pl_amount (q_extra_legs (ask_quote a))) = Some 0"
    "di_quote (sample_input ''GPTBot/1.0'') = quote_read \<lparr>pg_active_network = BaseSepolia, pg_payment_mode = MockMode,
       pg_buyer_links = \<lparr>bl_guide = ''https://a.b'', bl_fund = None, bl_mcp = None\<rparr>\<rparr> sample_publisher"
    using d(2) by (auto simp: asks_def charges_reads_def sample_publisher_def sample_input_def)
  obtain price where pr: "toll_price sample_publisher TollRead (Some ''/blog/post'') None = Inr price"
    "total_micro (leg_amounts (ask_legs a)) = Some (js_round (price * micro_unit) + 0)"
    using asked_price_is_the_records [OF d(1) h(1) p(1) [symmetric] h(2,4) _ h(3)] c unfolding p by blast
  have "price = 1 / 100" using pr(1) t by (metis sum.inject(2))
  then have "total_micro (leg_amounts (ask_legs a)) = Some (js_round (1 / 100 * micro_unit) + 0)" using pr(2) by (rule subst)
  also have "js_round (1 / 100 * micro_unit) + 0 = 10000" by (simp add: js_round_def micro_unit_def floor_eq_iff)
  finally show ?thesis using d(1) by blast
qed
end
