(* ===== verification/PendingLegs.thy ===== *)
theory PendingLegs
  imports Quote
begin

text \<open>
  The store of deferred settlement legs, \<open>packages/tollgate/src/pendingLegs.ts\<close>: the in-memory sink, and
  what of a buyer's balance its legs already speak for. Its abstract specification gives every
  authorization one status; the sink refines it. The sink is also stated as an interface, which the
  drain of \<open>Settle\<close> relies on. Times are milliseconds; a payload is the buyer's parsed JSON.
\<close>

section \<open>Model\<close>

record pending_leg =
  lp_id :: string
  lp_publisher :: "string option"
  lp_role :: string
  lp_pay_to :: string
  lp_amount :: string
  lp_payload :: json
  lp_requirements :: payment_requirements
  lp_valid_before :: rat
  lp_at :: int

record sink_entry =
  se_leg :: pending_leg
  se_settled :: bool
  se_ref :: "string option"
  se_claimed :: "int option"

type_synonym leg_sink = "(string, sink_entry) js_map"

definition fresh_entry :: "pending_leg \<Rightarrow> sink_entry" where
  "fresh_entry l = \<lparr>se_leg = l, se_settled = False, se_ref = None, se_claimed = None\<rparr>"

definition memory_sink :: "pending_leg list \<Rightarrow> leg_sink" where
  "memory_sink seed = foldl (\<lambda>m l. AList.update (lp_id l) (fresh_entry l) m) [] seed"

definition record_leg :: "pending_leg \<Rightarrow> leg_sink \<Rightarrow> leg_sink" where
  "record_leg l m = (if map_of m (lp_id l) \<noteq> None then m else AList.update (lp_id l) (fresh_entry l) m)"

text \<open>\<open>validBefore > now\<close> on an unsettled entry.\<close>

definition owed :: "int \<Rightarrow> sink_entry \<Rightarrow> bool" where
  "owed now e \<longleftrightarrow> \<not> se_settled e \<and> of_int now < lp_valid_before (se_leg e)"

definition pending_legs :: "int \<Rightarrow> string option \<Rightarrow> leg_sink \<Rightarrow> pending_leg list" where
  "pending_legs now publisher m =
     (let es = filter (owed now) (map snd m);
          es = filter (\<lambda>e. case se_claimed e of None \<Rightarrow> True | Some c \<Rightarrow> c < now) es;
          es = filter (\<lambda>e. publisher = None \<or> lp_publisher (se_leg e) = publisher) es
      in sort_key lp_at (map se_leg es))"

definition outstanding_legs :: "int \<Rightarrow> leg_sink \<Rightarrow> pending_leg list" where
  "outstanding_legs now m = sort_key lp_at (map se_leg (filter (owed now) (map snd m)))"

definition mark_settled :: "string \<Rightarrow> string \<Rightarrow> leg_sink \<Rightarrow> bool \<times> leg_sink" where
  "mark_settled i r m = (case map_of m i of
     None \<Rightarrow> (False, m)
   | Some e \<Rightarrow> if se_settled e then (False, m)
       else (True, AList.update i (e\<lparr>se_settled := True, se_ref := Some r\<rparr>) m))"

definition claim_leg :: "string \<Rightarrow> int \<Rightarrow> int \<Rightarrow> leg_sink \<Rightarrow> bool \<times> leg_sink" where
  "claim_leg i until now m = (case map_of m i of
     None \<Rightarrow> (False, m)
   | Some e \<Rightarrow> if se_settled e then (False, m)
       else if (case se_claimed e of None \<Rightarrow> False | Some c \<Rightarrow> c > now) then (False, m)
       else (True, AList.update i (e\<lparr>se_claimed := Some until\<rparr>) m))"

definition release_leg :: "string \<Rightarrow> leg_sink \<Rightarrow> leg_sink" where
  "release_leg i m = (case map_of m i of None \<Rightarrow> m | Some e \<Rightarrow> AList.update i (e\<lparr>se_claimed := None\<rparr>) m)"

section \<open>What a buyer already owes\<close>

definition leg_authorization :: "json \<Rightarrow> json" where
  "leg_authorization payload = json_prop (json_prop payload ''payload'') ''authorization''"

definition leg_payer :: "pending_leg \<Rightarrow> string option" where
  "leg_payer l = (case json_prop (leg_authorization (lp_payload l)) ''from'' of
     JString (c # cs) \<Rightarrow> Some (js_lower (c # cs)) | _ \<Rightarrow> None)"

text \<open>\<open>Number(s)\<close> in full: a decimal may also have a point, with digits on at least one side of it.\<close>

definition point_decimal :: "string \<Rightarrow> rat option" where
  "point_decimal s =
     (let m = takeWhile (\<lambda>c. c \<notin> set ''eE'') s; r = dropWhile (\<lambda>c. c \<notin> set ''eE'') s in
      case js_split CHR ''.'' m of
        [whole, part] \<Rightarrow>
          if \<not> all_digits (whole @ part) then None
          else (let v = of_nat (dec_value (whole @ part)) / 10 ^ length part in
            if r = [] then Some v else map_option (\<lambda>k. v * k) (exponent_scale (tl r)))
      | _ \<Rightarrow> None)"

definition js_decimal :: "string \<Rightarrow> rat option" where
  "js_decimal raw = (if CHR ''.'' \<notin> set raw then js_number raw
     else (let s = js_trim raw in
       if s \<noteq> [] \<and> hd s = CHR ''-'' then map_option uminus (point_decimal (tl s))
       else if s \<noteq> [] \<and> hd s = CHR ''+'' then point_decimal (tl s)
       else point_decimal s))"

definition max_safe_integer :: int where "max_safe_integer = 2 ^ 53 - 1"

text \<open>What one leg adds to the total: its amount, or, when that is no safe integer, more than anyone can
  spend.\<close>

definition leg_micro :: "pending_leg \<Rightarrow> int" where
  "leg_micro l = (case js_decimal (lp_amount l) of
     Some q \<Rightarrow> if q = of_int \<lfloor>q\<rfloor> \<and> 0 \<le> \<lfloor>q\<rfloor> \<and> \<lfloor>q\<rfloor> \<le> max_safe_integer then \<lfloor>q\<rfloor> else max_safe_integer
   | None \<Rightarrow> max_safe_integer)"

definition counts_for :: "string \<Rightarrow> string option \<Rightarrow> string list \<Rightarrow> pending_leg \<Rightarrow> bool" where
  "counts_for want network skip l \<longleftrightarrow> lp_id l \<notin> set skip \<and>
     (case leg_payer l of None \<Rightarrow> True | Some who \<Rightarrow> who = want) \<and>
     (case network of None \<Rightarrow> True | Some n \<Rightarrow> rq_network (lp_requirements l) = n)"

definition outstanding_leg_micro :: "leg_sink \<Rightarrow> string \<Rightarrow> int \<Rightarrow> string option \<Rightarrow> string list \<Rightarrow> int" where
  "outstanding_leg_micro m payer now network exclude =
     sum_list (map leg_micro (filter (counts_for (js_lower payer) network exclude) (outstanding_legs now m)))"

section \<open>The abstract specification\<close>

datatype leg_status = Absent | Owed pending_leg "int option" | Settled pending_leg

type_synonym ledger = "string \<Rightarrow> leg_status"

definition spec_record :: "pending_leg \<Rightarrow> ledger \<Rightarrow> ledger" where
  "spec_record l f = (if f (lp_id l) = Absent then f(lp_id l := Owed l None) else f)"

definition spec_settle :: "string \<Rightarrow> ledger \<Rightarrow> bool \<times> ledger" where
  "spec_settle i f = (case f i of Owed l c \<Rightarrow> (True, f(i := Settled l)) | _ \<Rightarrow> (False, f))"

definition lease_live :: "int option \<Rightarrow> int \<Rightarrow> bool" where
  "lease_live c now \<longleftrightarrow> (case c of None \<Rightarrow> False | Some u \<Rightarrow> now < u)"

definition spec_claim :: "string \<Rightarrow> int \<Rightarrow> int \<Rightarrow> ledger \<Rightarrow> bool \<times> ledger" where
  "spec_claim i until now f = (case f i of
     Owed l c \<Rightarrow> if lease_live c now then (False, f) else (True, f(i := Owed l (Some until)))
   | _ \<Rightarrow> (False, f))"

definition spec_release :: "string \<Rightarrow> ledger \<Rightarrow> ledger" where
  "spec_release i f = (case f i of Owed l c \<Rightarrow> f(i := Owed l None) | _ \<Rightarrow> f)"

definition spec_owed :: "int \<Rightarrow> ledger \<Rightarrow> pending_leg set" where
  "spec_owed now f = {l. \<exists>i c. f i = Owed l c \<and> of_int now < lp_valid_before l}"

text \<open>What may be broadcast now: no lease, or one that ended before now.\<close>

definition spec_pending :: "int \<Rightarrow> string option \<Rightarrow> ledger \<Rightarrow> pending_leg set" where
  "spec_pending now publisher f = {l. \<exists>i c. f i = Owed l c \<and> of_int now < lp_valid_before l \<and>
     (case c of None \<Rightarrow> True | Some u \<Rightarrow> u < now) \<and> (publisher = None \<or> lp_publisher l = publisher)}"

definition entry_status :: "sink_entry \<Rightarrow> leg_status" where
  "entry_status e = (if se_settled e then Settled (se_leg e) else Owed (se_leg e) (se_claimed e))"

definition ledger_of :: "leg_sink \<Rightarrow> ledger" where
  "ledger_of m i = (case map_of m i of None \<Rightarrow> Absent | Some e \<Rightarrow> entry_status e)"

text \<open>Every entry is stored once, under the id of its leg.\<close>

definition sink_inv :: "leg_sink \<Rightarrow> bool" where
  "sink_inv m \<longleftrightarrow> distinct (map fst m) \<and> list_all (\<lambda>(i, e). lp_id (se_leg e) = i) m"

section \<open>Lemmas\<close>

lemma ledger_update: "ledger_of (AList.update i e m) = (ledger_of m)(i := entry_status e)"
  by (rule ext) (simp add: ledger_of_def map_of_update)

lemma sink_inv_update:
  assumes "sink_inv m" "lp_id (se_leg e) = i"
  shows "sink_inv (AList.update i e m)"
proof -
  have "list_all (\<lambda>(j, e). lp_id (se_leg e) = j) m \<Longrightarrow> list_all (\<lambda>(j, e). lp_id (se_leg e) = j) (AList.update i e m)"
    using assms(2) by (induction m) auto
  with assms show ?thesis by (simp add: sink_inv_def distinct_update)
qed

lemma sink_inv_lookup: "sink_inv m \<Longrightarrow> map_of m i = Some e \<Longrightarrow> lp_id (se_leg e) = i"
  by (auto simp: sink_inv_def list_all_iff dest: map_of_SomeD)

lemma sink_inv_Nil [simp]: "sink_inv []"
  by (simp add: sink_inv_def)

lemma record_inv: "sink_inv m \<Longrightarrow> sink_inv (record_leg l m)"
  by (simp add: record_leg_def sink_inv_update fresh_entry_def)

lemma mark_settled_inv: "sink_inv m \<Longrightarrow> sink_inv (snd (mark_settled i r m))"
  by (cases "map_of m i") (simp_all add: mark_settled_def sink_inv_update sink_inv_lookup)

lemma claim_inv: "sink_inv m \<Longrightarrow> sink_inv (snd (claim_leg i u now m))"
  by (cases "map_of m i") (simp_all add: claim_leg_def sink_inv_update sink_inv_lookup)

lemma release_inv: "sink_inv m \<Longrightarrow> sink_inv (release_leg i m)"
  by (cases "map_of m i") (simp_all add: release_leg_def sink_inv_update sink_inv_lookup)

lemma memory_sink_inv: "sink_inv (memory_sink seed)"
proof -
  have "sink_inv m \<Longrightarrow> sink_inv (foldl (\<lambda>m l. AList.update (lp_id l) (fresh_entry l) m) m seed)" for m
    by (induction seed arbitrary: m) (auto simp: sink_inv_update fresh_entry_def)
  then show ?thesis by (simp add: memory_sink_def)
qed

lemma owed_status: "owed now e \<longleftrightarrow> (\<exists>l c. entry_status e = Owed l c \<and> of_int now < lp_valid_before l)"
  by (auto simp: owed_def entry_status_def)

lemma in_sink_iff: "sink_inv m \<Longrightarrow> (i, e) \<in> set m \<longleftrightarrow> map_of m i = Some e"
  unfolding sink_inv_def using map_of_eq_Some_iff [of m i e] by blast

lemma snd_set_iff: "sink_inv m \<Longrightarrow> e \<in> snd ` set m \<longleftrightarrow> (\<exists>i. map_of m i = Some e)"
  by (force simp flip: in_sink_iff)


text \<open>The sets of legs the two reads return, over the ledger.\<close>

lemma ledger_Owed_iff:
  "ledger_of m i = Owed l c \<longleftrightarrow> (\<exists>e. map_of m i = Some e \<and> \<not> se_settled e \<and> se_leg e = l \<and> se_claimed e = c)"
  by (cases "map_of m i") (auto simp: ledger_of_def entry_status_def)

lemma ledger_Settled_iff: "ledger_of m i = Settled l \<longleftrightarrow> (\<exists>e. map_of m i = Some e \<and> se_settled e \<and> se_leg e = l)"
  by (cases "map_of m i") (auto simp: ledger_of_def entry_status_def)

lemma ledger_Absent_iff: "ledger_of m i = Absent \<longleftrightarrow> map_of m i = None"
  by (cases "map_of m i") (auto simp: ledger_of_def entry_status_def)

lemma pending_set:
  assumes "sink_inv m"
  shows "set (pending_legs now p m) = spec_pending now p (ledger_of m)"
proof -
  have "set (pending_legs now p m) = {se_leg e | e. e \<in> snd ` set m \<and> owed now e \<and>
      (case se_claimed e of None \<Rightarrow> True | Some c \<Rightarrow> c < now) \<and> (p = None \<or> lp_publisher (se_leg e) = p)}"
    by (auto simp: pending_legs_def Let_def)
  also have "\<dots> = spec_pending now p (ledger_of m)"
    unfolding snd_set_iff [OF assms] spec_pending_def ledger_Owed_iff owed_def by blast
  finally show ?thesis .
qed

lemma outstanding_set:
  assumes "sink_inv m"
  shows "set (outstanding_legs now m) = spec_owed now (ledger_of m)"
proof -
  have "set (outstanding_legs now m) = {se_leg e | e. e \<in> snd ` set m \<and> owed now e}" by (auto simp: outstanding_legs_def)
  also have "\<dots> = spec_owed now (ledger_of m)"
    unfolding snd_set_iff [OF assms] spec_owed_def ledger_Owed_iff owed_def by blast
  finally show ?thesis .
qed

lemma mark_settled_refines:
  "fst (mark_settled i r m) = fst (spec_settle i (ledger_of m)) \<and> ledger_of (snd (mark_settled i r m)) = snd (spec_settle i (ledger_of m))"
  by (cases "map_of m i") (simp_all add: mark_settled_def spec_settle_def ledger_update, simp_all add: ledger_of_def entry_status_def)

lemma claim_refines:
  "fst (claim_leg i u now m) = fst (spec_claim i u now (ledger_of m)) \<and> ledger_of (snd (claim_leg i u now m)) = snd (spec_claim i u now (ledger_of m))"
proof (cases "map_of m i")
  case None
  then show ?thesis by (simp add: claim_leg_def spec_claim_def ledger_of_def)
next
  case (Some e)
  then have "ledger_of m i = entry_status e" by (simp add: ledger_of_def)
  with Some show ?thesis
    by (cases "se_claimed e") (simp_all add: claim_leg_def spec_claim_def ledger_update entry_status_def lease_live_def)
qed

lemma record_refines: "ledger_of (record_leg l m) = spec_record l (ledger_of m)"
  by (cases "map_of m (lp_id l)")
    (simp_all add: record_leg_def spec_record_def ledger_update fresh_entry_def, simp_all add: ledger_of_def entry_status_def)

lemma release_refines: "ledger_of (release_leg i m) = spec_release i (ledger_of m)"
proof (cases "map_of m i")
  case None
  then show ?thesis by (simp add: release_leg_def spec_release_def ledger_of_def)
next
  case (Some e)
  then have "ledger_of m i = entry_status e" by (simp add: ledger_of_def)
  with Some show ?thesis
    by (auto simp: release_leg_def spec_release_def ledger_update entry_status_def)
qed

section \<open>The interface\<close>

text \<open>What a drain relies on: a view of the store as a ledger, a claim and a settlement that are
  compare-and-sets on it, and a read of what may be broadcast.\<close>

locale leg_store =
  fixes ledger :: "'s \<Rightarrow> ledger"
    and claim :: "string \<Rightarrow> int \<Rightarrow> int \<Rightarrow> 's \<Rightarrow> bool \<times> 's"
    and settle :: "string \<Rightarrow> string \<Rightarrow> 's \<Rightarrow> bool \<times> 's"
    and pending :: "int \<Rightarrow> string option \<Rightarrow> 's \<Rightarrow> pending_leg list"
    and ok :: "'s \<Rightarrow> bool"
  assumes claim_law: "fst (claim i u t s) = fst (spec_claim i u t (ledger s)) \<and> ledger (snd (claim i u t s)) = snd (spec_claim i u t (ledger s))"
    and settle_law: "fst (settle i r s) = fst (spec_settle i (ledger s)) \<and> ledger (snd (settle i r s)) = snd (spec_settle i (ledger s))"
    and pending_law: "ok s \<Longrightarrow> set (pending t p s) = spec_pending t p (ledger s)"
    and claim_ok: "ok s \<Longrightarrow> ok (snd (claim i u t s))"
    and settle_ok: "ok s \<Longrightarrow> ok (snd (settle i r s))"
begin

lemma claim_won:
  assumes "claim i u t s = (True, s')"
  shows "\<exists>l c. ledger s i = Owed l c \<and> \<not> lease_live c t \<and> ledger s' = (ledger s)(i := Owed l (Some u))"
  using claim_law [of i u t s] assms by (auto simp: spec_claim_def split: leg_status.splits if_splits)

lemma claim_lost: "claim i u t s = (False, s') \<Longrightarrow> ledger s' = ledger s"
  using claim_law [of i u t s] by (auto simp: spec_claim_def split: leg_status.splits if_splits)

lemma settle_won: "settle i r s = (True, s') \<Longrightarrow> \<exists>l c. ledger s i = Owed l c \<and> ledger s' = (ledger s)(i := Settled l)"
  using settle_law [of i r s] by (auto simp: spec_settle_def split: leg_status.splits)

lemma settle_lost: "settle i r s = (False, s') \<Longrightarrow> ledger s' = ledger s \<and> (\<forall>l c. ledger s i \<noteq> Owed l c)"
  using settle_law [of i r s] by (auto simp: spec_settle_def split: leg_status.splits)

end

interpretation memory_legs: leg_store ledger_of claim_leg mark_settled pending_legs sink_inv
  by unfold_locales (rule claim_refines mark_settled_refines pending_set claim_inv mark_settled_inv; assumption?)+


section \<open>Properties\<close>

text \<open>C15: the in-memory sink implements the ledger of authorizations. Under every operation the status of
  every authorization id changes exactly as the specification says and the answers agree: recording is a no-op
  on a known id, settling and claiming are compare-and-sets that win only on an owed leg (a claim only when
  no lease is running), releasing touches only an owed leg, and the two reads return exactly the owed legs
  inside their validity, and those of them that no lease covers.\<close>

theorem sink_refines_ledger:
  assumes "sink_inv m"
  shows "ledger_of (record_leg l m) = spec_record l (ledger_of m) \<and>
    ledger_of (release_leg i m) = spec_release i (ledger_of m) \<and>
    apsnd ledger_of (mark_settled i r m) = spec_settle i (ledger_of m) \<and>
    apsnd ledger_of (claim_leg i u now m) = spec_claim i u now (ledger_of m) \<and>
    set (pending_legs now p m) = spec_pending now p (ledger_of m) \<and>
    set (outstanding_legs now m) = spec_owed now (ledger_of m) \<and>
    sink_inv (record_leg l m) \<and> sink_inv (release_leg i m) \<and> sink_inv (snd (mark_settled i r m)) \<and>
    sink_inv (snd (claim_leg i u now m))"
proof -
  have "apsnd ledger_of (mark_settled i r m) = spec_settle i (ledger_of m)"
    "apsnd ledger_of (claim_leg i u now m) = spec_claim i u now (ledger_of m)"
    using mark_settled_refines [of i r m] claim_refines [of i u now m] by (simp_all add: apsnd_def map_prod_def prod_eq_iff split: prod.splits)
  with assms show ?thesis
    by (simp add: record_refines release_refines pending_set outstanding_set record_inv release_inv mark_settled_inv claim_inv)
qed

definition toy_leg_req :: payment_requirements where
  "toy_leg_req = \<lparr>rq_network = ''eip155:84532'', rq_asset = ''0xusdc'', rq_amount = ''10'', rq_pay_to = ''0xop'', rq_timeout = 60,
     rq_extra = \<lparr>ge_name = ''GatewayWalletBatched'', ge_version = ''1'', ge_verifying_contract = ''0xgw'', lx_nonce = None\<rparr>,
     rq_memo_id = None\<rparr>"

definition toy_leg :: "string \<Rightarrow> pending_leg" where
  "toy_leg i = \<lparr>lp_id = i, lp_publisher = None, lp_role = ''operator'', lp_pay_to = ''0xop'', lp_amount = ''10'',
     lp_payload = JObject [(''payload'', JObject [(''authorization'', JObject [(''from'', JString ''0xBUYER''), (''nonce'', JString i)])])],
     lp_requirements = toy_leg_req, lp_valid_before = 1000, lp_at = 0\<rparr>"

theorem sink_refines_ledger_witness:
  "sink_inv (record_leg (toy_leg ''a'') []) \<and>
   apsnd ledger_of (claim_leg ''a'' 120 0 (record_leg (toy_leg ''a'') [])) =
     (True, (ledger_of (record_leg (toy_leg ''a'') []))(''a'' := Owed (toy_leg ''a'') (Some 120)))"
proof -
  have i: "sink_inv (record_leg (toy_leg ''a'') [])" by (rule record_inv) simp
  have "ledger_of (record_leg (toy_leg ''a'') []) ''a'' = Owed (toy_leg ''a'') None"
    by (simp add: record_refines spec_record_def) (simp add: ledger_of_def toy_leg_def)
  then have "spec_claim ''a'' 120 0 (ledger_of (record_leg (toy_leg ''a'') [])) =
    (True, (ledger_of (record_leg (toy_leg ''a'') []))(''a'' := Owed (toy_leg ''a'') (Some 120)))"
    by (simp add: spec_claim_def lease_live_def)
  with i sink_refines_ledger [OF i, of "toy_leg ''a''" "''a''" "''r''" 120 0 None] show ?thesis by metis
qed

text \<open>What a buyer is told is spoken for. A claim and a release leave the outstanding total of every
  buyer as it was, since a claim moves no money, and settling a leg takes exactly that leg's amount off the
  totals it counted in and nothing off the others; a leg whose payer cannot be read counts against every
  buyer.\<close>

definition entry_micro :: "string \<Rightarrow> int \<Rightarrow> string option \<Rightarrow> string list \<Rightarrow> sink_entry \<Rightarrow> int" where
  "entry_micro payer now network skip e =
     (if owed now e \<and> counts_for (js_lower payer) network skip (se_leg e) then leg_micro (se_leg e) else 0)"

lemma outstanding_sum:
  "outstanding_leg_micro m payer now network skip = sum_list (map (\<lambda>(i, e). entry_micro payer now network skip e) m)"
proof -
  let ?P = "counts_for (js_lower payer) network skip"
  have "mset (filter ?P (outstanding_legs now m)) = mset (filter ?P (map se_leg (filter (owed now) (map snd m))))"
    by (simp add: outstanding_legs_def)
  then have "outstanding_leg_micro m payer now network skip =
      sum_list (map leg_micro (filter ?P (map se_leg (filter (owed now) (map snd m)))))"
    unfolding outstanding_leg_micro_def by (metis mset_map sum_mset_sum_list)
  also have "\<dots> = sum_list (map (\<lambda>(i, e). entry_micro payer now network skip e) m)"
    by (induction m) (auto simp: entry_micro_def)
  finally show ?thesis .
qed

lemma outstanding_update:
  assumes "map_of m i = Some e"
  shows "outstanding_leg_micro (AList.update i e' m) payer now network skip =
    outstanding_leg_micro m payer now network skip - entry_micro payer now network skip e + entry_micro payer now network skip e'"
proof -
  let ?f = "entry_micro payer now network skip"
  have u: "map (\<lambda>(i, e). (i, ?f e)) (AList.update i e' m) = AList.update i (?f e') (map (\<lambda>(i, e). (i, ?f e)) m)"
    by (induction m) auto
  have s: "sum_list (map (\<lambda>(i, e). ?f e) m) = sum_list (map snd (map (\<lambda>(i, e). (i, ?f e)) m))" for m :: leg_sink
    by (induction m) auto
  have "map_of (map (\<lambda>(i, e). (i, ?f e)) m) i = Some (?f e)" using assms by (simp add: map_of_map)
  from sum_update_found [OF this] show ?thesis unfolding outstanding_sum s u by simp
qed

lemma owed_until_settled:
  "outstanding_leg_micro (snd (claim_leg i u t m)) payer now network skip = outstanding_leg_micro m payer now network skip \<and>
   outstanding_leg_micro (release_leg i m) payer now network skip = outstanding_leg_micro m payer now network skip \<and>
   outstanding_leg_micro (snd (mark_settled i r m)) payer now network skip = outstanding_leg_micro m payer now network skip -
     (case map_of m i of None \<Rightarrow> 0
      | Some e \<Rightarrow> if \<not> se_settled e \<and> of_int now < lp_valid_before (se_leg e) \<and> lp_id (se_leg e) \<notin> set skip \<and>
            leg_payer (se_leg e) \<in> {None, Some (js_lower payer)} \<and> network \<in> {None, Some (rq_network (lp_requirements (se_leg e)))}
          then leg_micro (se_leg e) else 0)"
proof (cases "map_of m i")
  case None
  then show ?thesis by (simp add: claim_leg_def release_leg_def mark_settled_def)
next
  case (Some e)
  note up = outstanding_update [OF Some]
  have "entry_micro payer now network skip (e\<lparr>se_claimed := c\<rparr>) = entry_micro payer now network skip e" for c
    by (simp add: entry_micro_def owed_def)
  moreover have "entry_micro payer now network skip (e\<lparr>se_settled := True, se_ref := Some r\<rparr>) = 0"
    by (simp add: entry_micro_def owed_def)
  moreover have "entry_micro payer now network skip e = 0" if "se_settled e"
    using that by (simp add: entry_micro_def owed_def)
  ultimately have a: "outstanding_leg_micro (snd (claim_leg i u t m)) payer now network skip = outstanding_leg_micro m payer now network skip"
    "outstanding_leg_micro (release_leg i m) payer now network skip = outstanding_leg_micro m payer now network skip"
    "outstanding_leg_micro (snd (mark_settled i r m)) payer now network skip =
      outstanding_leg_micro m payer now network skip - entry_micro payer now network skip e"
    using Some by (simp_all add: claim_leg_def release_leg_def mark_settled_def up)
  have "entry_micro payer now network skip e =
     (if \<not> se_settled e \<and> of_int now < lp_valid_before (se_leg e) \<and> lp_id (se_leg e) \<notin> set skip \<and>
            leg_payer (se_leg e) \<in> {None, Some (js_lower payer)} \<and> network \<in> {None, Some (rq_network (lp_requirements (se_leg e)))}
          then leg_micro (se_leg e) else 0)"
    by (auto simp: entry_micro_def owed_def counts_for_def split: option.splits)
  with a show ?thesis unfolding Some option.case by simp
qed

end
