(* ===== verification/Settle.thy ===== *)
theory Settle
  imports PendingLegs
begin

text \<open>
  The settle side of a payment, \<open>packages/tollgate/src/x402.ts\<close>: verifying and settling a signed payment
  against the legs the 402 asked for, in mock and in gateway mode, deferring the legs that are not the
  author's, and draining them later, one drain at a time and several at once.

  The facilitator is not part of the repository: its answers and the chain it acts on are a parameter, and
  so are the decoding of the header (base64 and \<open>JSON.parse\<close>), the digest of a payload without a nonce,
  the health probe and the mode. An exception that escapes the function is \<open>Crashed\<close>.
\<close>

section \<open>The facilitator\<close>

datatype error_kind = TimeoutError | TypeErr | SyntaxErr | OtherError | NotAnError

record thrown =
  th_kind :: error_kind
  th_cause_code :: json
  th_code :: json
  th_message :: string

datatype verify_reply = VerifyAnswer bool "string option" "string option" | VerifyThrew thrown

datatype settle_reply = SettleAnswer bool "string option" "string option" "string option" | SettleThrew string

record 'c facilitator =
  fc_verify :: "'c \<Rightarrow> json \<Rightarrow> payment_requirements \<Rightarrow> verify_reply"
  fc_settle :: "'c \<Rightarrow> json \<Rightarrow> payment_requirements \<Rightarrow> settle_reply \<times> 'c"

datatype health_reply = HealthStatus nat | HealthThrew

record 'c settle_env =
  sv_mode :: payment_mode
  sv_active :: network_name
  sv_facilitator :: "settlement_network \<Rightarrow> 'c facilitator"
  sv_health :: "settlement_network \<Rightarrow> health_reply"
  sv_decode :: "string \<Rightarrow> json option"
  sv_digest :: "json \<Rightarrow> string"
  sv_timeout :: nat
  sv_sign :: nonce_sign

record 'c settle_state =
  st_chain :: 'c
  st_sink :: leg_sink
  st_nonces :: consumed_map

text \<open>The bearer and the cache key of a facilitator client.\<close>

definition facilitator_bearer :: "string option \<Rightarrow> string option \<Rightarrow> settlement_network \<Rightarrow> string option" where
  "facilitator_bearer testnetKey liveKey net =
     (if sn_testnet net then (case testnetKey of Some k \<Rightarrow> Some k | None \<Rightarrow> liveKey) else liveKey)"

definition facilitator_headers :: "string option \<Rightarrow> string option \<Rightarrow> settlement_network \<Rightarrow> (string \<times> string) list" where
  "facilitator_headers testnetKey liveKey net = (case facilitator_bearer testnetKey liveKey net of
     Some (c # cs) \<Rightarrow> [(''authorization'', ''Bearer '' @ c # cs)] | _ \<Rightarrow> [])"

definition facilitator_cache_key :: "string option \<Rightarrow> string option \<Rightarrow> string option \<Rightarrow> settlement_network \<Rightarrow> string" where
  "facilitator_cache_key pinned testnetKey liveKey net =
     (case pinned of Some u \<Rightarrow> u | None \<Rightarrow> sn_gateway_api net) @ ''|'' @
     (case facilitator_bearer testnetKey liveKey net of None \<Rightarrow> [] | Some b \<Rightarrow> b)"

section \<open>When the rail is down\<close>

definition network_codes :: "string list" where
  "network_codes = [''ECONNREFUSED'', ''ECONNRESET'', ''ENOTFOUND'', ''EAI_AGAIN'', ''ETIMEDOUT'', ''EHOSTUNREACH'', ''ENETUNREACH'', ''EPIPE'']"

definition facilitator_unavailable :: "thrown \<Rightarrow> bool" where
  "facilitator_unavailable t \<longleftrightarrow>
     (if th_kind t = TimeoutError then True
      else if th_kind t = NotAnError then False
      else (case (if th_cause_code t \<in> {JUndefined, JNull} then th_code t else th_cause_code t) of
          JString c \<Rightarrow> c \<in> set network_codes \<or> prefix ''UND_ERR_'' c | _ \<Rightarrow> False) \<or>
        th_kind t = TypeErr \<and> sublist ''fetch failed'' (js_lower (th_message t)) \<or>
        list_ex (\<lambda>s. prefix (''Circle Gateway verify failed ('' @ s @ ''):'') (th_message t)) [''502'', ''503'', ''504''])"

definition rail_down :: "thrown \<Rightarrow> health_reply \<Rightarrow> bool" where
  "rail_down t health \<longleftrightarrow>
     (if facilitator_unavailable t then True
      else if th_kind t \<noteq> SyntaxErr then False
      else (case health of HealthStatus s \<Rightarrow> 500 \<le> s | HealthThrew \<Rightarrow> True))"

section \<open>The signed payment\<close>

definition is_bare_payload :: "json \<Rightarrow> bool" where
  "is_bare_payload j \<longleftrightarrow> (case j of JObject _ \<Rightarrow> True | _ \<Rightarrow> False)"

definition is_single_leg_payment :: "(string \<Rightarrow> json option) \<Rightarrow> string \<Rightarrow> bool" where
  "is_single_leg_payment decode signature \<longleftrightarrow> (case decode signature of None \<Rightarrow> False | Some j \<Rightarrow> is_bare_payload j)"

datatype leg_input = OneLeg payment_requirements | ManyLegs "(payment_requirements + settlement_leg) list"

definition normalize_legs :: "leg_input \<Rightarrow> settlement_leg list" where
  "normalize_legs inp =
     (let arr = (case inp of OneLeg r \<Rightarrow> [Inl r] | ManyLegs xs \<Rightarrow> xs) in
      map (\<lambda>(i, x). case x of Inr l \<Rightarrow> l
          | Inl r \<Rightarrow> \<lparr>lg_role = (if i = 0 then ''author'' else ''leg''), lg_req = r\<rparr>) (enumerate 0 arr))"

record leg_pair =
  pr_role :: string
  pr_req :: payment_requirements
  pr_payload :: json

record leg_settlement =
  ls_pay_to :: string
  ls_amount :: string
  ls_ref :: "string option"
  ls_settled :: bool

record forgone_leg =
  fl_role :: string
  fl_pay_to :: string
  fl_amount :: string

datatype stage = VerifyStage | SettleStage

datatype verify_error = NoLegs | MalformedSignature | MustAuthorizeAll nat nat | LegCountMismatch nat nat
  | LegThrew nat string string | LegInvalid nat string string | MissingPayer nat | InsufficientAmount nat | MissingNonce nat
  | NonceRefused nonce_result | AuthorThrew string | AuthorFailed string

record refusal =
  rf_stage :: "stage option"
  rf_unavailable :: bool
  rf_error :: verify_error
  rf_forgone :: "forgone_leg list option"

text \<open>The receipt is the JSON text the \<open>PAYMENT-RESPONSE\<close> header carries in base64.\<close>

record paid =
  pd_payer :: json
  pd_ref :: "string option"
  pd_receipt :: json
  pd_legs :: "leg_settlement list"
  pd_evidence :: "json option"
  pd_forgone :: "forgone_leg list option"

datatype verify_result = Refusal refusal | Paid paid | Crashed

definition refuse :: "stage option \<Rightarrow> verify_error \<Rightarrow> verify_result" where
  "refuse s e = Refusal \<lparr>rf_stage = s, rf_unavailable = False, rf_error = e, rf_forgone = None\<rparr>"

definition js_truthy :: "json \<Rightarrow> bool" where
  "js_truthy j = (case j of JUndefined \<Rightarrow> False | JNull \<Rightarrow> False | JBool b \<Rightarrow> b | JNumber q \<Rightarrow> q \<noteq> 0 | JString s \<Rightarrow> s \<noteq> []
     | _ \<Rightarrow> True)"

text \<open>\<open>Number(v)\<close> of a parsed value; \<open>None\<close> is not finite.\<close>

fun js_to_number :: "json \<Rightarrow> rat option" where
  "js_to_number JNull = Some 0"
| "js_to_number (JBool b) = Some (if b then 1 else 0)"
| "js_to_number (JNumber q) = Some q"
| "js_to_number (JString s) = js_decimal s"
| "js_to_number (JArray []) = Some 0"
| "js_to_number (JArray [JBool b]) = None"
| "js_to_number (JArray [JUndefined]) = Some 0"
| "js_to_number (JArray [x]) = js_to_number x"
| "js_to_number _ = None"

definition encode_payment_response :: "string option \<Rightarrow> string \<Rightarrow> json \<Rightarrow> json" where
  "encode_payment_response transaction network payer = JObject ([(''success'', JBool True)]
     @ opt_field ''transaction'' (map_option JString transaction) @ [(''network'', JString network), (''payer'', payer)])"

section \<open>The evidence of a payment\<close>

definition hex_of_length :: "nat \<Rightarrow> string \<Rightarrow> bool" where
  "hex_of_length n s \<longleftrightarrow> length s = n + 2 \<and> prefix ''0x'' s \<and> list_all is_hex_char (drop 2 s)"

text \<open>\<open>String(v)\<close> of a safe integer, a string as it is, everything else empty.\<close>

definition evidence_text :: "json \<Rightarrow> string" where
  "evidence_text v = (case v of
     JNumber q \<Rightarrow> if q = of_int \<lfloor>q\<rfloor> \<and> \<bar>\<lfloor>q\<rfloor>\<bar> \<le> max_safe_integer then int_string \<lfloor>q\<rfloor> else []
   | JString s \<Rightarrow> s | _ \<Rightarrow> [])"

definition authorization_fields :: "string list" where
  "authorization_fields = [''from'', ''to'', ''value'', ''validAfter'', ''validBefore'', ''nonce'']"

definition payment_evidence :: "json \<Rightarrow> payment_requirements \<Rightarrow> nat \<Rightarrow> json option" where
  "payment_evidence payload req chainId =
     (let p = json_prop payload ''payload''; a = json_prop p ''authorization''; t = (\<lambda>k. evidence_text (json_prop a k)) in
      case json_prop p ''signature'' of
        JString sig \<Rightarrow>
          if \<not> js_truthy a \<or> \<not> hex_of_length 130 sig then None
          else if \<not> hex_of_length 40 (t ''from'') \<or> \<not> hex_of_length 40 (t ''to'') then None
          else if \<not> all_digits (t ''value'') \<or> \<not> all_digits (t ''validAfter'') \<or> \<not> all_digits (t ''validBefore'') then None
          else if \<not> hex_of_length 64 (t ''nonce'') then None
          else if \<not> hex_of_length 40 (ge_verifying_contract (rq_extra req)) then None
          else Some (JObject [(''scheme'', JString ''eip3009''),
            (''domain'', JObject [(''name'', JString (ge_name (rq_extra req))), (''version'', JString (ge_version (rq_extra req))),
               (''chainId'', JNumber (of_nat chainId)), (''verifyingContract'', JString (ge_verifying_contract (rq_extra req)))]),
            (''authorization'', JObject (map (\<lambda>k. (k, JString (t k))) authorization_fields)),
            (''signature'', JString sig)])
      | _ \<Rightarrow> None)"

section \<open>Deferring the other legs\<close>

definition leg_auth_id :: "(json \<Rightarrow> string) \<Rightarrow> json \<Rightarrow> string" where
  "leg_auth_id digest payload =
     (let n = json_prop payload ''nonce'';
          n = (if n \<in> {JUndefined, JNull} then json_prop (leg_authorization payload) ''nonce'' else n)
      in case n of JString (c # cs) \<Rightarrow> c # cs | _ \<Rightarrow> digest payload)"

definition leg_valid_before :: "nat \<Rightarrow> json \<Rightarrow> int \<Rightarrow> rat" where
  "leg_valid_before timeout payload now = (case js_to_number (json_prop (leg_authorization payload) ''validBefore'') of
     Some n \<Rightarrow> if 0 < n then (if n < 1000000000000 then n * 1000 else n) else of_int (now + int timeout * 1000)
   | None \<Rightarrow> of_int (now + int timeout * 1000))"

definition pending_of :: "'c settle_env \<Rightarrow> int \<Rightarrow> string option \<Rightarrow> leg_pair \<Rightarrow> pending_leg" where
  "pending_of E now publisher p = \<lparr>lp_id = leg_auth_id (sv_digest E) (pr_payload p), lp_publisher = publisher, lp_role = pr_role p,
     lp_pay_to = rq_pay_to (pr_req p), lp_amount = rq_amount (pr_req p), lp_payload = pr_payload p, lp_requirements = pr_req p,
     lp_valid_before = leg_valid_before (sv_timeout E) (pr_payload p) now, lp_at = now\<rparr>"

definition defer_extra_legs :: "'c settle_env \<Rightarrow> int \<Rightarrow> string option \<Rightarrow> leg_pair list \<Rightarrow> leg_sink \<Rightarrow> leg_settlement list \<times> leg_sink" where
  "defer_extra_legs E now publisher pairs sink =
     (map (\<lambda>p. \<lparr>ls_pay_to = rq_pay_to (pr_req p), ls_amount = rq_amount (pr_req p), ls_ref = None, ls_settled = False\<rparr>) (drop 1 pairs),
      foldl (\<lambda>m p. record_leg (pending_of E now publisher p) m) sink (drop 1 pairs))"


section \<open>Settling\<close>

text \<open>Every leg is verified before anything is broadcast; a verified leg answers its payer.\<close>

fun verify_all :: "'c facilitator \<Rightarrow> health_reply \<Rightarrow> 'c \<Rightarrow> nat \<Rightarrow> leg_pair list \<Rightarrow> refusal + string option list" where
  "verify_all F health chain i [] = Inr []"
| "verify_all F health chain i (p # ps) = (let payTo = rq_pay_to (pr_req p) in
     case fc_verify F chain (pr_payload p) (pr_req p) of
       VerifyThrew t \<Rightarrow> Inl \<lparr>rf_stage = Some VerifyStage, rf_unavailable = rail_down t health, rf_error = LegThrew i payTo (th_message t), rf_forgone = None\<rparr>
     | VerifyAnswer valid reason payer \<Rightarrow>
         if \<not> valid then Inl \<lparr>rf_stage = Some VerifyStage, rf_unavailable = False,
           rf_error = LegInvalid i payTo (case reason of Some r \<Rightarrow> r | None \<Rightarrow> ''verification failed''), rf_forgone = None\<rparr>
         else bind_sum (verify_all F health chain (Suc i) ps) (\<lambda>payers. Inr (payer # payers)))"

definition author_settlement :: "leg_pair \<Rightarrow> string option \<Rightarrow> leg_settlement" where
  "author_settlement p r = \<lparr>ls_pay_to = rq_pay_to (pr_req p), ls_amount = rq_amount (pr_req p), ls_ref = r, ls_settled = True\<rparr>"

definition settle_gateway ::
    "'c settle_env \<Rightarrow> leg_pair list \<Rightarrow> settlement_network \<Rightarrow> int \<Rightarrow> string option \<Rightarrow> 'c settle_state \<Rightarrow> verify_result \<times> 'c settle_state" where
  "settle_gateway E pairs net now publisher st =
     (let F = sv_facilitator E net; author = hd pairs in
      case verify_all F (sv_health E net) (st_chain st) 0 pairs of
        Inl r \<Rightarrow> (Refusal r, st)
      | Inr payers \<Rightarrow> (case fc_settle F (st_chain st) (pr_payload author) (pr_req author) of
          (SettleThrew e, c) \<Rightarrow> (refuse None (AuthorThrew e), st\<lparr>st_chain := c\<rparr>)
        | (SettleAnswer success reason payer tx, c) \<Rightarrow>
            if \<not> success then (refuse (Some SettleStage) (AuthorFailed (case reason of Some r \<Rightarrow> r | None \<Rightarrow> ''settlement failed'')), st\<lparr>st_chain := c\<rparr>)
            else (let (deferred, sink) = defer_extra_legs E now publisher pairs (st_sink st);
                      payer = JString (case payer of Some x \<Rightarrow> x | None \<Rightarrow> (case hd payers of Some x \<Rightarrow> x | None \<Rightarrow> ''unknown''))
                  in (Paid \<lparr>pd_payer = payer, pd_ref = tx,
                        pd_receipt = encode_payment_response tx (rq_network (pr_req author)) payer,
                        pd_legs = author_settlement author tx # deferred,
                        pd_evidence = payment_evidence (pr_payload author) (pr_req author) (sn_chain_id net), pd_forgone = None\<rparr>,
                      st\<lparr>st_chain := c, st_sink := sink\<rparr>))))"

definition mock_ref :: "payment_requirements \<Rightarrow> string" where
  "mock_ref r = ''mock-'' @ take 8 (drop 2 (rq_pay_to r)) @ ''-'' @ rq_amount r"

text \<open>\<open>BigInt(s)\<close>: \<open>None\<close> is its \<open>SyntaxError\<close>.\<close>

definition js_bigint :: "string \<Rightarrow> int option" where
  "js_bigint raw = (let s = js_trim raw in
     if s = [] then Some 0
     else if hd s = CHR ''-'' then (if all_digits (tl s) then Some (- int (dec_value (tl s))) else None)
     else if hd s = CHR ''+'' then (if all_digits (tl s) then Some (int (dec_value (tl s))) else None)
     else (case radix_prefix s of Some b \<Rightarrow> map_option int (radix_value b (drop 2 s))
         | None \<Rightarrow> if all_digits s then Some (int (dec_value s)) else None))"

text \<open>\<open>None\<close> is an exception.\<close>

definition mock_amount_ok :: "json \<Rightarrow> string \<Rightarrow> bool option" where
  "mock_amount_ok amount required = (case amount of
     JString a \<Rightarrow> if \<not> all_digits a then Some False
       else (case js_bigint required of None \<Rightarrow> None | Some r \<Rightarrow> Some (r \<le> int (dec_value a)))
   | _ \<Rightarrow> Some False)"

fun mock_all :: "nat \<Rightarrow> leg_pair list \<Rightarrow> verify_result + (json \<times> json) list" where
  "mock_all i [] = Inr []"
| "mock_all i (p # ps) =
     (let payer = json_prop (pr_payload p) ''payer''; nonce = json_prop (pr_payload p) ''nonce'' in
      if \<not> js_truthy payer then Inl (refuse (Some VerifyStage) (MissingPayer i))
      else (case mock_amount_ok (json_prop (pr_payload p) ''amount'') (rq_amount (pr_req p)) of
          None \<Rightarrow> Inl Crashed
        | Some ok \<Rightarrow>
            if \<not> ok then Inl (refuse (Some VerifyStage) (InsufficientAmount i))
            else if \<not> js_truthy nonce then Inl (refuse (Some VerifyStage) (MissingNonce i))
            else bind_sum (mock_all (Suc i) ps) (\<lambda>ms. Inr ((payer, nonce) # ms))))"

definition settle_mock :: "'c settle_env \<Rightarrow> leg_pair list \<Rightarrow> int \<Rightarrow> string option \<Rightarrow> 'c settle_state \<Rightarrow> verify_result \<times> 'c settle_state" where
  "settle_mock E pairs now publisher st = (case mock_all 0 pairs of
     Inl r \<Rightarrow> (r, st)
   | Inr mocks \<Rightarrow>
      (let author = hd pairs; payer = fst (hd mocks) in
       case snd (hd mocks) of
         JString n \<Rightarrow> (case consume_nonce (sv_sign E) (st_nonces st) n (binding_of (pr_req author)) now of
             (NonceThrew, m) \<Rightarrow> (Crashed, st\<lparr>st_nonces := m\<rparr>)
           | (NonceOk, m) \<Rightarrow>
               (let (deferred, sink) = defer_extra_legs E now publisher pairs (st_sink st); r = Some (mock_ref (pr_req author)) in
                (Paid \<lparr>pd_payer = payer, pd_ref = r, pd_receipt = encode_payment_response r (rq_network (pr_req author)) payer,
                   pd_legs = author_settlement author r # deferred, pd_evidence = None, pd_forgone = None\<rparr>,
                 st\<lparr>st_nonces := m, st_sink := sink\<rparr>))
           | (why, m) \<Rightarrow> (refuse (Some VerifyStage) (NonceRefused why), st\<lparr>st_nonces := m\<rparr>))
       | _ \<Rightarrow> (Crashed, st)))"

definition with_forgone :: "forgone_leg list option \<Rightarrow> verify_result \<Rightarrow> verify_result" where
  "with_forgone f r = (case f of None \<Rightarrow> r
     | Some ls \<Rightarrow> (case r of Refusal x \<Rightarrow> Refusal (x\<lparr>rf_forgone := Some ls\<rparr>) | Paid x \<Rightarrow> Paid (x\<lparr>pd_forgone := Some ls\<rparr>) | Crashed \<Rightarrow> Crashed))"

definition forgone_of :: "settlement_leg \<Rightarrow> forgone_leg" where
  "forgone_of l = \<lparr>fl_role = lg_role l, fl_pay_to = rq_pay_to (lg_req l), fl_amount = rq_amount (lg_req l)\<rparr>"

definition network_or_active :: "'c settle_env \<Rightarrow> string \<Rightarrow> settlement_network" where
  "network_or_active E caip = (case network_by_caip2 caip of Some n \<Rightarrow> n | None \<Rightarrow> get_network (sv_active E))"

text \<open>What the payer signed is read off the shape of the payment: one bare object against several legs is
  a stock client that signed the author leg alone.\<close>

definition verify_and_settle ::
    "'c settle_env \<Rightarrow> string \<Rightarrow> leg_input \<Rightarrow> int \<Rightarrow> string option \<Rightarrow> bool \<Rightarrow> 'c settle_state \<Rightarrow> verify_result \<times> 'c settle_state" where
  "verify_and_settle E signature legs now publisher requireEveryLeg st =
     (let legReqs = normalize_legs legs in
      if legReqs = [] then (refuse (Some VerifyStage) NoLegs, st)
      else (case sv_decode E signature of
          None \<Rightarrow> (refuse (Some VerifyStage) MalformedSignature, st)
        | Some parsed \<Rightarrow>
           (let payloads = (case parsed of JArray ps \<Rightarrow> ps | _ \<Rightarrow> [parsed]);
                stockPayer = (is_bare_payload parsed \<and> length legReqs > 1)
            in if stockPayer \<and> requireEveryLeg
               then (refuse (Some VerifyStage) (MustAuthorizeAll (length legReqs) (length legReqs - 1)), st)
            else (let required = (if stockPayer then [hd legReqs] else legReqs);
                      forgone = (if stockPayer then Some (map forgone_of (tl legReqs)) else None)
              in if length payloads \<noteq> length required
                 then (refuse (Some VerifyStage) (LegCountMismatch (length payloads) (length required)), st)
              else (let pairs = map (\<lambda>(l, p). \<lparr>pr_role = lg_role l, pr_req = lg_req l, pr_payload = p\<rparr>) (zip required payloads)
                in apfst (with_forgone forgone)
                     (if sv_mode E \<noteq> GatewayMode then settle_mock E pairs now publisher st
                      else settle_gateway E pairs (network_or_active E (rq_network (lg_req (hd legReqs)))) now publisher st))))))"



section \<open>Draining\<close>

datatype settle_attempt = SettledAs string | AlreadySettled | AttemptFailed | AttemptThrew

text \<open>The refusals that name a reused authorization: the word nonce or authorization and, in the same
  sentence, a word of reuse; or one of three fixed spellings. \<open>\b\<close> is a boundary between a word character
  and none.\<close>

definition word_char :: "char \<Rightarrow> bool" where
  "word_char c \<longleftrightarrow> ascii_alnum c \<or> c = CHR ''_''"

definition word_boundary :: "string \<Rightarrow> nat \<Rightarrow> bool" where
  "word_boundary s i \<longleftrightarrow> (0 < i \<and> word_char (s ! (i - 1))) \<noteq> (i < length s \<and> word_char (s ! i))"

definition after_already_used :: "string \<Rightarrow> string option" where
  "after_already_used s =
     (let r = drop 7 s; t = dropWhile js_is_space r in
      if prefix ''already'' s \<and> t \<noteq> r \<and> prefix ''used'' t then Some (drop 4 t) else None)"

definition reuse_word_at :: "string \<Rightarrow> nat \<Rightarrow> bool" where
  "reuse_word_at s j \<longleftrightarrow> word_boundary s j \<and>
     (after_already_used (drop j s) \<noteq> None \<or> list_ex (\<lambda>w. prefix w (drop j s)) [''used'', ''consumed'', ''reused'', ''replay''])"

definition names_reuse_at :: "string \<Rightarrow> nat \<Rightarrow> bool" where
  "names_reuse_at s i \<longleftrightarrow> list_ex (\<lambda>w. prefix w (drop i s) \<and> word_boundary s i \<and> word_boundary s (i + length w) \<and>
     (let k = i + length w; n = length (takeWhile (\<lambda>c. c \<noteq> CHR ''.'') (drop k s)) in
      list_ex (reuse_word_at s) [k..<k + n + 1])) [''nonce'', ''authorization'']"

definition replay_spelling_at :: "string \<Rightarrow> nat \<Rightarrow> bool" where
  "replay_spelling_at s i \<longleftrightarrow>
     (case after_already_used (drop i s) of None \<Rightarrow> False | Some r \<Rightarrow> prefix ''(replay)'' (dropWhile js_is_space r)) \<or>
     prefix ''authorization_already_used'' (drop i s) \<or> prefix ''invalid_nonce'' (drop i s)"

definition is_already_consumed :: "string option \<Rightarrow> bool" where
  "is_already_consumed reason \<longleftrightarrow> (case reason of None \<Rightarrow> False
     | Some r \<Rightarrow> (let s = js_lower r in list_ex (\<lambda>i. names_reuse_at s i \<or> replay_spelling_at s i) [0..<length s]))"

definition nonce_error :: "nonce_result \<Rightarrow> string" where
  "nonce_error r = (case r of NonceMalformed \<Rightarrow> ''malformed nonce'' | NonceExpired \<Rightarrow> ''nonce expired''
     | NonceBadSignature \<Rightarrow> ''invalid nonce signature'' | NonceReplayed \<Rightarrow> ''nonce already used (replay)'' | _ \<Rightarrow> [])"

definition settle_one_leg :: "'c settle_env \<Rightarrow> int \<Rightarrow> pending_leg \<Rightarrow> 'c \<times> consumed_map \<Rightarrow> settle_attempt \<times> 'c \<times> consumed_map" where
  "settle_one_leg E now l w = (case w of (chain, nonces) \<Rightarrow>
     if sv_mode E = GatewayMode then
       (case fc_settle (sv_facilitator E (network_or_active E (rq_network (lp_requirements l)))) chain (lp_payload l) (lp_requirements l) of
          (SettleThrew e, c) \<Rightarrow> (AttemptFailed, c, nonces)
        | (SettleAnswer success reason payer tx, c) \<Rightarrow>
            (case (success, tx) of
               (True, Some (x # xs)) \<Rightarrow> (SettledAs (x # xs), c, nonces)
             | _ \<Rightarrow> (if is_already_consumed reason then AlreadySettled else AttemptFailed, c, nonces)))
     else (let n = json_prop (lp_payload l) ''nonce'' in
       if \<not> js_truthy n then (AttemptFailed, chain, nonces)
       else (case n of
           JString s \<Rightarrow> (case consume_nonce (sv_sign E) nonces s (binding_of (lp_requirements l)) now of
               (NonceOk, m) \<Rightarrow> (SettledAs (mock_ref (lp_requirements l)), chain, m)
             | (NonceThrew, m) \<Rightarrow> (AttemptThrew, chain, m)
             | (why, m) \<Rightarrow> (if is_already_consumed (Some (nonce_error why)) then AlreadySettled else AttemptFailed, chain, m))
         | _ \<Rightarrow> (AttemptThrew, chain, nonces))))"

definition claim_lease_ms :: int where "claim_lease_ms = 2 * 60000"

text \<open>The outcome of a pass; \<open>dn_threw\<close> is a pass an exception ended.\<close>

record drain_result =
  dn_settled :: nat
  dn_failed :: nat
  dn_threw :: bool

definition reconciled_ref :: string where "reconciled_ref = ''reconciled:authorization-already-consumed''"

text \<open>The loop of a pass over any store that can settle, claim when it can, and any way to settle one leg.
  Claim, broadcast, record, in that order.\<close>

fun drain_loop ::
    "(string \<Rightarrow> int \<Rightarrow> int \<Rightarrow> 's \<Rightarrow> bool \<times> 's) option \<Rightarrow> (string \<Rightarrow> string \<Rightarrow> 's \<Rightarrow> bool \<times> 's) \<Rightarrow>
       (pending_leg \<Rightarrow> 'w \<Rightarrow> settle_attempt \<times> 'w) \<Rightarrow> int \<Rightarrow> pending_leg list \<Rightarrow> 's \<Rightarrow> 'w \<Rightarrow> nat \<Rightarrow> nat \<Rightarrow> drain_result \<times> 's \<times> 'w" where
  "drain_loop claim mark settle now [] s w settled failed = (\<lparr>dn_settled = settled, dn_failed = failed, dn_threw = False\<rparr>, s, w)"
| "drain_loop claim mark settle now (l # ls) s w settled failed =
     (case (case claim of None \<Rightarrow> (True, s) | Some c \<Rightarrow> c (lp_id l) (now + claim_lease_ms) now s) of
        (False, s1) \<Rightarrow> drain_loop claim mark settle now ls s1 w settled failed
      | (True, s1) \<Rightarrow> (case settle l w of
          (AttemptThrew, w1) \<Rightarrow> (\<lparr>dn_settled = settled, dn_failed = failed, dn_threw = True\<rparr>, s1, w1)
        | (AttemptFailed, w1) \<Rightarrow> drain_loop claim mark settle now ls s1 w1 settled (Suc failed)
        | (a, w1) \<Rightarrow> (case mark (lp_id l) (case a of SettledAs r \<Rightarrow> r | _ \<Rightarrow> reconciled_ref) s1 of
            (won, s2) \<Rightarrow> drain_loop claim mark settle now ls s2 w1 (if won then Suc settled else settled) failed)))"

definition drain_pending_legs :: "'c settle_env \<Rightarrow> string option \<Rightarrow> int \<Rightarrow> 'c settle_state \<Rightarrow> drain_result \<times> 'c settle_state" where
  "drain_pending_legs E scope now st =
     (case drain_loop (Some claim_leg) mark_settled (settle_one_leg E now) now (pending_legs now scope (st_sink st))
        (st_sink st) (st_chain st, st_nonces st) 0 0 of
        (r, sink, c, m) \<Rightarrow> (r, st\<lparr>st_sink := sink, st_chain := c, st_nonces := m\<rparr>))"
section \<open>Lemmas\<close>

lemma consume_refused_keeps: "consume_nonce sign m n b now = (why, m') \<Longrightarrow> why \<noteq> NonceOk \<Longrightarrow> m' = m"
  by (auto simp: consume_nonce_def consume_nonce_with_def memory_consume_def split: list.splits option.splits prod.splits if_splits)

lemma verify_all_refusal: "verify_all F health chain i ps = Inl r \<Longrightarrow> rf_stage r = Some VerifyStage"
  by (induction F health chain i ps rule: verify_all.induct)
    (auto simp: Let_def bind_sum_Inl_iff split: verify_reply.splits if_splits)

lemma mock_all_refusal:
  "mock_all i ps = Inl r \<Longrightarrow> r = Crashed \<or> (\<exists>x. r = Refusal x \<and> rf_stage x = Some VerifyStage \<and> \<not> rf_unavailable x)"
  by (induction i ps rule: mock_all.induct)
    (auto simp: Let_def bind_sum_Inl_iff refuse_def split: option.splits if_splits)

definition leg_facts :: "leg_pair \<Rightarrow> string \<times> string" where
  "leg_facts p = (rq_pay_to (pr_req p), rq_amount (pr_req p))"

definition settlement_facts :: "leg_settlement \<Rightarrow> string \<times> string" where
  "settlement_facts l = (ls_pay_to l, ls_amount l)"

lemma defer_facts:
  assumes "defer_extra_legs E now publisher pairs sink = (ls, sink')"
  shows "map settlement_facts ls = map leg_facts (drop 1 pairs)" "list_all (\<lambda>l. \<not> ls_settled l) ls"
    "sink' = foldl (\<lambda>m p. record_leg (pending_of E now publisher p) m) sink (drop 1 pairs)"
  using assms by (auto simp: defer_extra_legs_def leg_facts_def settlement_facts_def list_all_iff)

lemma settle_gateway_cases:
  assumes "settle_gateway E pairs net now publisher st = (res, st')"
  shows "(\<exists>r. res = Refusal r \<and> rf_stage r = Some VerifyStage \<and> st' = st) \<or>
    (\<exists>r. res = Refusal r \<and> rf_stage r \<noteq> Some VerifyStage \<and> \<not> rf_unavailable r \<and> st_sink st' = st_sink st \<and> st_nonces st' = st_nonces st) \<or>
    (\<exists>x ref ls. res = Paid x \<and> pd_legs x = author_settlement (hd pairs) ref # ls \<and> pd_forgone x = None \<and> pd_ref x = ref \<and>
       (ls, st_sink st') = defer_extra_legs E now publisher pairs (st_sink st) \<and> st_nonces st' = st_nonces st)"
proof (cases "verify_all (sv_facilitator E net) (sv_health E net) (st_chain st) 0 pairs")
  case (Inl r)
  then show ?thesis using assms verify_all_refusal [OF Inl] by (auto simp: settle_gateway_def)
next
  case (Inr payers)
  obtain rep c where s: "fc_settle (sv_facilitator E net) (st_chain st) (pr_payload (hd pairs)) (pr_req (hd pairs)) = (rep, c)" by fastforce
  obtain ls sink where d: "defer_extra_legs E now publisher pairs (st_sink st) = (ls, sink)" by fastforce
  show ?thesis
  proof (cases rep)
    case (SettleThrew e)
    then show ?thesis using assms Inr s by (auto simp: settle_gateway_def refuse_def)
  next
    case (SettleAnswer success reason payer tx)
    then show ?thesis using assms Inr s d
      by (cases success) (auto simp: settle_gateway_def refuse_def Let_def)
  qed
qed

lemma settle_mock_cases:
  assumes "settle_mock E pairs now publisher st = (res, st')"
  shows "(\<exists>r. res = Refusal r \<and> rf_stage r = Some VerifyStage \<and> \<not> rf_unavailable r \<and> st' = st) \<or> res = Crashed \<or>
    (\<exists>x ref ls. res = Paid x \<and> pd_legs x = author_settlement (hd pairs) ref # ls \<and> pd_forgone x = None \<and> pd_ref x = ref \<and>
       (ls, st_sink st') = defer_extra_legs E now publisher pairs (st_sink st) \<and> st_chain st' = st_chain st)"
proof (cases "mock_all 0 pairs")
  case (Inl r)
  then show ?thesis using assms mock_all_refusal [OF Inl] by (auto simp: settle_mock_def)
next
  case (Inr mocks)
  obtain ls sink where d: "defer_extra_legs E now publisher pairs (st_sink st) = (ls, sink)" by fastforce
  show ?thesis
  proof (cases "snd (hd mocks)")
    case (JString n)
    obtain why m where c: "consume_nonce (sv_sign E) (st_nonces st) n (binding_of (pr_req (hd pairs))) now = (why, m)" by fastforce
    have k: "st\<lparr>st_nonces := m\<rparr> = st" if "why \<noteq> NonceOk" using consume_refused_keeps [OF c that] by simp
    show ?thesis
    proof (cases why)
      case NonceOk
      then show ?thesis using assms Inr JString c d by (auto simp: settle_mock_def Let_def)
    qed (use assms Inr JString c k in \<open>auto simp: settle_mock_def refuse_def Let_def\<close>)
  qed (use assms Inr in \<open>auto simp: settle_mock_def Let_def\<close>)
qed

definition pairs_of :: "settlement_leg list \<Rightarrow> json list \<Rightarrow> leg_pair list" where
  "pairs_of required payloads = map (\<lambda>(l, p). \<lparr>pr_role = lg_role l, pr_req = lg_req l, pr_payload = p\<rparr>) (zip required payloads)"

definition leg_pays :: "settlement_leg \<Rightarrow> string \<times> string" where
  "leg_pays l = (rq_pay_to (lg_req l), rq_amount (lg_req l))"

lemma pairs_facts: "length payloads = length required \<Longrightarrow> map leg_facts (pairs_of required payloads) = map leg_pays required"
  by (induction payloads required rule: list_induct2) (auto simp: pairs_of_def leg_facts_def leg_pays_def)

lemma pairs_length: "length payloads = length required \<Longrightarrow> length (pairs_of required payloads) = length required"
  by (simp add: pairs_of_def)

text \<open>What the header decodes to: one payload per leg.\<close>

definition signed_payloads :: "'c settle_env \<Rightarrow> string \<Rightarrow> json list" where
  "signed_payloads E signature = (case sv_decode E signature of None \<Rightarrow> [] | Some (JArray ps) \<Rightarrow> ps | Some j \<Rightarrow> [j])"

text \<open>A payment that passes the shape checks is settled on \<open>pairs\<close>; the legs a stock client never signed
  are the forgone ones.\<close>

lemma settled_on:
  assumes "verify_and_settle E signature legs now publisher every st = (res, st')"
  shows "(\<exists>r. res = Refusal r \<and> rf_stage r = Some VerifyStage \<and> \<not> rf_unavailable r \<and> st' = st) \<or>
    (\<exists>required payloads forgone inner. required \<noteq> [] \<and> length payloads = length required \<and> payloads = signed_payloads E signature \<and>
       ((forgone = None \<and> required = normalize_legs legs) \<or>
        (\<not> every \<and> required = [hd (normalize_legs legs)] \<and> forgone = Some (map forgone_of (tl (normalize_legs legs))) \<and>
          length (normalize_legs legs) > 1)) \<and>
       res = with_forgone forgone inner \<and>
       (settle_mock E (pairs_of required payloads) now publisher st = (inner, st') \<and> sv_mode E = MockMode \<or>
        settle_gateway E (pairs_of required payloads) (network_or_active E (rq_network (lg_req (hd (normalize_legs legs))))) now publisher st = (inner, st')
          \<and> sv_mode E = GatewayMode))"
proof -
  let ?L = "normalize_legs legs"
  show ?thesis
  proof (cases "?L = [] \<or> sv_decode E signature = None")
    case True
    then have "\<exists>e. verify_and_settle E signature legs now publisher every st = (refuse (Some VerifyStage) e, st)"
      by (cases "?L = []") (auto simp: verify_and_settle_def Let_def)
    then show ?thesis using assms by (intro disjI1) (auto simp: refuse_def)
  next
    case False
    then obtain parsed where p: "?L \<noteq> []" "sv_decode E signature = Some parsed" by auto
    define payloads where "payloads = (case parsed of JArray ps \<Rightarrow> ps | _ \<Rightarrow> [parsed])"
    have sp: "payloads = signed_payloads E signature" unfolding payloads_def signed_payloads_def p(2) by (cases parsed) simp_all
    define stock where "stock \<longleftrightarrow> is_bare_payload parsed \<and> length ?L > 1"
    define required where "required = (if stock then [hd ?L] else ?L)"
    define forgone where "forgone = (if stock then Some (map forgone_of (tl ?L)) else None)"
    define run where "run = (if sv_mode E \<noteq> GatewayMode then settle_mock E (pairs_of required payloads) now publisher st
        else settle_gateway E (pairs_of required payloads) (network_or_active E (rq_network (lg_req (hd ?L)))) now publisher st)"
    have e: "verify_and_settle E signature legs now publisher every st =
        (if stock \<and> every then (refuse (Some VerifyStage) (MustAuthorizeAll (length ?L) (length ?L - 1)), st)
         else if length payloads \<noteq> length required then (refuse (Some VerifyStage) (LegCountMismatch (length payloads) (length required)), st)
         else apfst (with_forgone forgone) run)"
      using p unfolding verify_and_settle_def Let_def run_def pairs_of_def required_def forgone_def stock_def payloads_def by simp
    show ?thesis
    proof (cases "stock \<and> every \<or> length payloads \<noteq> length required")
      case True
      then show ?thesis using assms unfolding e by (intro disjI1) (auto simp: refuse_def split: if_splits)
    next
      case False
      obtain inner st1 where r: "run = (inner, st1)" by fastforce
      have "res = with_forgone forgone inner" "st' = st1" using assms False r unfolding e by auto
      moreover have "required \<noteq> []" using p(1) by (simp add: required_def)
      moreover have "(forgone = None \<and> required = ?L) \<or> (\<not> every \<and> required = [hd ?L] \<and> forgone = Some (map forgone_of (tl ?L)) \<and> length ?L > 1)"
        using False by (auto simp: forgone_def required_def stock_def)
      moreover have "settle_mock E (pairs_of required payloads) now publisher st = (inner, st1) \<and> sv_mode E = MockMode \<or>
        settle_gateway E (pairs_of required payloads) (network_or_active E (rq_network (lg_req (hd ?L)))) now publisher st = (inner, st1) \<and> sv_mode E = GatewayMode"
        using r unfolding run_def by (cases "sv_mode E") auto
      ultimately show ?thesis using False sp by blast
    qed
  qed
qed

lemma with_forgone_Paid: "with_forgone f r = Paid x \<Longrightarrow> \<exists>y. r = Paid y \<and> pd_legs x = pd_legs y \<and> pd_ref x = pd_ref y \<and>
    pd_forgone x = (case f of None \<Rightarrow> pd_forgone y | Some ls \<Rightarrow> Some ls)"
  by (cases r) (auto simp: with_forgone_def split: option.splits)

lemma with_forgone_Refusal: "with_forgone f r = Refusal x \<Longrightarrow> \<exists>y. r = Refusal y \<and> rf_stage x = rf_stage y \<and> rf_unavailable x = rf_unavailable y"
  by (cases r) (auto simp: with_forgone_def split: option.splits)

lemma paid_on:
  assumes "verify_and_settle E signature legs now publisher every st = (Paid x, st')"
  shows "\<exists>required payloads ref ls. required \<noteq> [] \<and> length payloads = length required \<and> payloads = signed_payloads E signature \<and>
    ((pd_forgone x = None \<and> required = normalize_legs legs) \<or>
     (\<not> every \<and> required = [hd (normalize_legs legs)] \<and> pd_forgone x = Some (map forgone_of (tl (normalize_legs legs))) \<and>
       length (normalize_legs legs) > 1)) \<and>
    pd_legs x = author_settlement (hd (pairs_of required payloads)) ref # ls \<and> pd_ref x = ref \<and>
    (ls, st_sink st') = defer_extra_legs E now publisher (pairs_of required payloads) (st_sink st)"
proof -
  obtain required payloads forgone inner where s0: "payloads = signed_payloads E signature" and s: "required \<noteq> []" "length payloads = length required"
    "(forgone = None \<and> required = normalize_legs legs) \<or>
     (\<not> every \<and> required = [hd (normalize_legs legs)] \<and> forgone = Some (map forgone_of (tl (normalize_legs legs))) \<and> length (normalize_legs legs) > 1)"
    "Paid x = with_forgone forgone inner"
    "settle_mock E (pairs_of required payloads) now publisher st = (inner, st') \<and> sv_mode E = MockMode \<or>
     settle_gateway E (pairs_of required payloads) (network_or_active E (rq_network (lg_req (hd (normalize_legs legs))))) now publisher st = (inner, st')
       \<and> sv_mode E = GatewayMode"
    using settled_on [OF assms] by blast
  obtain y where y: "inner = Paid y" "pd_legs x = pd_legs y" "pd_ref x = pd_ref y" "pd_forgone x = (case forgone of None \<Rightarrow> pd_forgone y | Some ls \<Rightarrow> Some ls)"
    using with_forgone_Paid [OF s(4) [symmetric]] by blast
  obtain ref ls where c: "pd_legs y = author_settlement (hd (pairs_of required payloads)) ref # ls" "pd_forgone y = None" "pd_ref y = ref"
    "(ls, st_sink st') = defer_extra_legs E now publisher (pairs_of required payloads) (st_sink st)"
    using s(5) settle_mock_cases [of E "pairs_of required payloads" now publisher st inner st']
      settle_gateway_cases [of E "pairs_of required payloads" _ now publisher st inner st'] y(1) by blast
  have "pd_forgone x = forgone" using y(4) c(2) by (cases forgone) simp_all
  with s0 s(1-3) c y(2,3) show ?thesis by metis
qed

lemma paid_forgone: "verify_and_settle E signature legs now publisher True st = (Paid x, st') \<Longrightarrow> pd_forgone x = None"
  using paid_on by blast

section \<open>Properties\<close>



lemma refusal_untouched:
  assumes "verify_and_settle E signature legs now publisher every st = (Refusal r, st')"
  shows "if rf_stage r = Some VerifyStage then st' = st
    else sv_mode E = GatewayMode \<and> st_sink st' = st_sink st \<and> st_nonces st' = st_nonces st \<and> \<not> rf_unavailable r"
proof -
  from settled_on [OF assms] show ?thesis
  proof
    assume "\<exists>r'. Refusal r = Refusal r' \<and> rf_stage r' = Some VerifyStage \<and> \<not> rf_unavailable r' \<and> st' = st"
    then show ?thesis by auto
  next
    assume "\<exists>required payloads forgone inner. required \<noteq> [] \<and> length payloads = length required \<and> payloads = signed_payloads E signature \<and>
       ((forgone = None \<and> required = normalize_legs legs) \<or>
        (\<not> every \<and> required = [hd (normalize_legs legs)] \<and> forgone = Some (map forgone_of (tl (normalize_legs legs))) \<and>
          length (normalize_legs legs) > 1)) \<and>
       Refusal r = with_forgone forgone inner \<and>
       (settle_mock E (pairs_of required payloads) now publisher st = (inner, st') \<and> sv_mode E = MockMode \<or>
        settle_gateway E (pairs_of required payloads) (network_or_active E (rq_network (lg_req (hd (normalize_legs legs))))) now publisher st = (inner, st')
          \<and> sv_mode E = GatewayMode)"
    then obtain required payloads forgone inner where s: "Refusal r = with_forgone forgone inner"
      "settle_mock E (pairs_of required payloads) now publisher st = (inner, st') \<and> sv_mode E = MockMode \<or>
       settle_gateway E (pairs_of required payloads) (network_or_active E (rq_network (lg_req (hd (normalize_legs legs))))) now publisher st = (inner, st')
          \<and> sv_mode E = GatewayMode" by blast
    obtain y where y: "inner = Refusal y" "rf_stage r = rf_stage y" "rf_unavailable r = rf_unavailable y"
      using with_forgone_Refusal [OF s(1) [symmetric]] by blast
    from s(2) show ?thesis
    proof
      assume "settle_mock E (pairs_of required payloads) now publisher st = (inner, st') \<and> sv_mode E = MockMode"
      then show ?thesis using settle_mock_cases [of E "pairs_of required payloads" now publisher st inner st'] y by auto
    next
      assume "settle_gateway E (pairs_of required payloads) (network_or_active E (rq_network (lg_req (hd (normalize_legs legs))))) now publisher st = (inner, st')
          \<and> sv_mode E = GatewayMode"
      then show ?thesis using settle_gateway_cases [of E "pairs_of required payloads" _ now publisher st inner st'] y by auto
    qed
  qed
qed

text \<open>C14: a refusal costs nothing. A payment refused before anything was broadcast leaves the chain, the
  deferred legs and the spent nonces as they were, so a caller may credit back what it reserved; any other
  refusal comes from the facilitator's settle of the author leg, records no leg and spends no nonce; and only
  a refusal before the broadcast ever says that the rail was unavailable.\<close>

theorem refusal_costs_nothing:
  assumes "verify_and_settle E signature legs now publisher every st = (Refusal r, st')"
  shows "if rf_stage r = Some VerifyStage then st' = st
    else sv_mode E = GatewayMode \<and> st_sink st' = st_sink st \<and> st_nonces st' = st_nonces st \<and> \<not> rf_unavailable r"
  by (rule refusal_untouched [OF assms])

lemma record_legs_ledger:
  "ledger_of (foldl (\<lambda>m l. record_leg l m) sink ls) =
     (\<lambda>i. if ledger_of sink i \<noteq> Absent then ledger_of sink i
          else (case find (\<lambda>l. lp_id l = i) ls of None \<Rightarrow> Absent | Some l \<Rightarrow> Owed l None))"
proof (induction ls arbitrary: sink)
  case (Cons l ls)
  show ?case by (rule ext) (simp add: Cons.IH record_refines spec_record_def)
qed auto

text \<open>A deferred leg is on the books. After an accepted payment every deferred leg's authorization is
  in the store, with the payload the buyer signed for it, its payee and its amount; an authorization that was
  already recorded keeps what it had, the first leg of a payment wins the id it shares with a later one, and
  nothing else changes.\<close>

theorem deferred_legs_recorded:
  assumes "verify_and_settle E signature legs now publisher every st = (Paid x, st')"
  shows "ledger_of (st_sink st') = (\<lambda>i. if ledger_of (st_sink st) i \<noteq> Absent then ledger_of (st_sink st) i
     else (case find (\<lambda>l. lp_id l = i) (map (pending_of E now publisher) (drop 1 (pairs_of
             (if pd_forgone x = None then normalize_legs legs else [hd (normalize_legs legs)]) (signed_payloads E signature)))) of
         None \<Rightarrow> Absent | Some l \<Rightarrow> Owed l None))"
proof -
  obtain required payloads ref ls where p: "required \<noteq> []" "length payloads = length required" "payloads = signed_payloads E signature"
    "(pd_forgone x = None \<and> required = normalize_legs legs) \<or>
     (\<not> every \<and> required = [hd (normalize_legs legs)] \<and> pd_forgone x = Some (map forgone_of (tl (normalize_legs legs))) \<and> length (normalize_legs legs) > 1)"
    "pd_legs x = author_settlement (hd (pairs_of required payloads)) ref # ls" "pd_ref x = ref"
    "defer_extra_legs E now publisher (pairs_of required payloads) (st_sink st) = (ls, st_sink st')"
    using paid_on [OF assms] by metis
  have r: "required = (if pd_forgone x = None then normalize_legs legs else [hd (normalize_legs legs)])" using p(4) by auto
  have "st_sink st' = foldl (\<lambda>m l. record_leg l m) (st_sink st) (map (pending_of E now publisher) (drop 1 (pairs_of required payloads)))"
    unfolding defer_facts(3) [OF p(7)] by (simp add: foldl_map)
  then show ?thesis unfolding record_legs_ledger [symmetric] r p(3) by (rule arg_cong)
qed

text \<open>C36: one signature can stand for two legs. In gateway mode nothing compares the authorizations of the
  legs with each other: a buyer that signs the author's leg and another leg under one authorization nonce
  passes verification while the nonce is unspent; the author's settlement spends it; and the drain, told by
  the facilitator that the authorization was already used, books the other leg as settled although no money
  moved for it.\<close>

theorem shared_nonce_settles_unpaid_leg:
  assumes mode: "sv_mode E = GatewayMode" "st_sink st = []"
    and legs: "normalize_legs legs = [a, b]" "rq_network (lg_req b) = rq_network (lg_req a)" "sv_decode E signature = Some (JArray [p, p'])"
    and F: "F = sv_facilitator E (network_or_active E (rq_network (lg_req a)))"
    and verified: "fc_verify F (st_chain st) p (lg_req a) = VerifyAnswer True r1 y1" "fc_verify F (st_chain st) p' (lg_req b) = VerifyAnswer True r2 y2"
    and spent: "fc_settle F (st_chain st) p (lg_req a) = (SettleAnswer True r3 y3 tx, c1)"
    and refused: "fc_settle F c1 p' (lg_req b) = (SettleAnswer False reason y4 tx', c1)" "is_already_consumed reason"
    and window: "of_int later < leg_valid_before (sv_timeout E) p' now"
  shows "\<exists>x st1 st2. verify_and_settle E signature legs now publisher every st = (Paid x, st1) \<and>
    drain_pending_legs E None later st1 = (\<lparr>dn_settled = 1, dn_failed = 0, dn_threw = False\<rparr>, st2) \<and>
    st_chain st1 = c1 \<and> st_chain st2 = c1 \<and>
    ledger_of (st_sink st2) (leg_auth_id (sv_digest E) p') =
      Settled (pending_of E now publisher \<lparr>pr_role = lg_role b, pr_req = lg_req b, pr_payload = p'\<rparr>)"
proof -
  let ?pair = "\<lambda>l p. \<lparr>pr_role = lg_role l, pr_req = lg_req l, pr_payload = p\<rparr>"
  let ?l = "pending_of E now publisher (?pair b p')" and ?net = "network_or_active E (rq_network (lg_req a))"
  let ?st1 = "st\<lparr>st_chain := c1, st_sink := record_leg ?l []\<rparr>"
  have v: "verify_all F (sv_health E ?net) (st_chain st) 0 [?pair a p, ?pair b p'] = Inr [y1, y2]"
    using verified by simp
  have "\<exists>x. settle_gateway E [?pair a p, ?pair b p'] ?net now publisher st = (Paid x, ?st1)"
    using v spent mode(2) unfolding F by (simp add: settle_gateway_def defer_extra_legs_def Let_def)
  then obtain x where "verify_and_settle E signature legs now publisher every st = (Paid x, ?st1)"
    using mode(1) by (auto simp: verify_and_settle_def legs is_bare_payload_def with_forgone_def)
  moreover have "drain_pending_legs E None later ?st1 = (\<lparr>dn_settled = 1, dn_failed = 0, dn_threw = False\<rparr>,
      ?st1\<lparr>st_sink := snd (mark_settled (lp_id ?l) reconciled_ref (snd (claim_leg (lp_id ?l) (later + claim_lease_ms) later (record_leg ?l []))))\<rparr>)"
  proof -
    have p: "pending_legs later None (record_leg ?l []) = [?l]"
      using window by (simp add: pending_legs_def record_leg_def fresh_entry_def owed_def) (simp add: pending_of_def)
    have o: "settle_one_leg E later ?l (c1, st_nonces st) = (AlreadySettled, c1, st_nonces st)"
      using refused mode(1) legs(2) unfolding F by (simp add: settle_one_leg_def) (simp add: pending_of_def)
    show ?thesis
      using o by (simp add: drain_pending_legs_def p) (simp add: record_leg_def fresh_entry_def claim_leg_def mark_settled_def)
  qed
  moreover have "ledger_of (snd (mark_settled (lp_id ?l) reconciled_ref (snd (claim_leg (lp_id ?l) (later + claim_lease_ms) later (record_leg ?l [])))))
      (leg_auth_id (sv_digest E) p') = Settled ?l"
  proof -
    have i: "lp_id ?l = leg_auth_id (sv_digest E) p'" by (simp add: pending_of_def)
    show ?thesis unfolding i [symmetric]
      by (simp add: record_leg_def fresh_entry_def claim_leg_def mark_settled_def ledger_of_def entry_status_def)
  qed
  ultimately show ?thesis by fastforce
qed

definition attempt_moved :: "settle_attempt \<Rightarrow> bool" where
  "attempt_moved a \<longleftrightarrow> (case a of SettledAs r \<Rightarrow> True | AlreadySettled \<Rightarrow> True | _ \<Rightarrow> False)"

context leg_store begin

lemma drain_all:
  assumes "\<forall>l \<in> set ls. \<exists>c. ledger s (lp_id l) = Owed l c \<and> \<not> lease_live c now" "distinct (map lp_id ls)"
    and "\<And>l w. l \<in> set ls \<Longrightarrow> attempt_moved (fst (sett l w))"
  shows "\<exists>s' w'. drain_loop (Some claim) settle sett now ls s w n f = (\<lparr>dn_settled = n + length ls, dn_failed = f, dn_threw = False\<rparr>, s', w') \<and>
    (\<forall>i. ledger s' i = (if i \<in> lp_id ` set ls then (case ledger s i of Owed l c \<Rightarrow> Settled l | x \<Rightarrow> x) else ledger s i))"
  using assms
proof (induction ls arbitrary: s w n)
  case (Cons l ls)
  obtain c where c: "ledger s (lp_id l) = Owed l c" "\<not> lease_live c now" using Cons.prems(1) by auto
  obtain s1 where s1: "claim (lp_id l) (now + claim_lease_ms) now s = (True, s1)" "ledger s1 = (ledger s)(lp_id l := Owed l (Some (now + claim_lease_ms)))"
    using claim_law [of "lp_id l" "now + claim_lease_ms" now s] c
    by (cases "claim (lp_id l) (now + claim_lease_ms) now s") (auto simp: spec_claim_def)
  obtain a w1 where a: "sett l w = (a, w1)" "attempt_moved a" using Cons.prems(3) [of l w] by (cases "sett l w") auto
  let ?r = "case a of SettledAs r \<Rightarrow> r | _ \<Rightarrow> reconciled_ref"
  obtain s2 where s2: "settle (lp_id l) ?r s1 = (True, s2)" "ledger s2 = (ledger s1)(lp_id l := Settled l)"
    using settle_law [of "lp_id l" ?r s1] s1(2)
    by (cases "settle (lp_id l) ?r s1") (auto simp: spec_settle_def)
  have st: "drain_loop (Some claim) settle sett now (l # ls) s w n f = drain_loop (Some claim) settle sett now ls s2 w1 (Suc n) f"
    using s1(1) a s2(1) by (cases a) (simp_all add: attempt_moved_def)
  have "\<forall>x \<in> set ls. \<exists>c. ledger s2 (lp_id x) = Owed x c \<and> \<not> lease_live c now"
  proof
    fix x assume x: "x \<in> set ls"
    then have "lp_id x \<noteq> lp_id l" using Cons.prems(2) by (metis distinct.simps(2) imageI list.map(2) list.set_map)
    moreover obtain d where "ledger s (lp_id x) = Owed x d \<and> \<not> lease_live d now" using Cons.prems(1) x by auto
    ultimately show "\<exists>c. ledger s2 (lp_id x) = Owed x c \<and> \<not> lease_live c now" unfolding s2(2) s1(2) by simp
  qed
  moreover have "distinct (map lp_id ls)" "\<And>x w. x \<in> set ls \<Longrightarrow> attempt_moved (fst (sett x w))" using Cons.prems(2,3) by auto
  ultimately obtain s' w' where r: "drain_loop (Some claim) settle sett now ls s2 w1 (Suc n) f = (\<lparr>dn_settled = Suc n + length ls, dn_failed = f, dn_threw = False\<rparr>, s', w')"
    "\<forall>i. ledger s' i = (if i \<in> lp_id ` set ls then (case ledger s2 i of Owed l c \<Rightarrow> Settled l | x \<Rightarrow> x) else ledger s2 i)"
    using Cons.IH [where s = s2 and w = w1 and n = "Suc n"] by blast
  have "ledger s' i = (if i \<in> lp_id ` set (l # ls) then (case ledger s i of Owed l c \<Rightarrow> Settled l | x \<Rightarrow> x) else ledger s i)" for i
    using r(2) [rule_format, of i] Cons.prems(2) c(1) by (cases "i = lp_id l") (simp_all add: s2(2) s1(2))
  moreover have "drain_loop (Some claim) settle sett now (l # ls) s w n f = (\<lparr>dn_settled = n + length (l # ls), dn_failed = f, dn_threw = False\<rparr>, s', w')"
    unfolding st r(1) by simp
  ultimately show ?case by blast
qed simp

end

lemma pending_ids_distinct:
  assumes "sink_inv m"
  shows "distinct (map lp_id (pending_legs now p m))"
proof -
  have e: "map (lp_id \<circ> se_leg) (map snd m) = map fst m"
    using assms unfolding sink_inv_def by (induction m) auto
  have "distinct (map (lp_id \<circ> se_leg) (map snd m))" unfolding e using assms by (simp add: sink_inv_def)
  then have d: "distinct (map lp_id (map se_leg (filter P (map snd m))))" for P
    using distinct_map_filter [of "lp_id \<circ> se_leg" "map snd m" P] by (simp only: list.map_comp)
  have f: "mset (pending_legs now p m) = mset (map se_leg (filter (\<lambda>e. owed now e \<and> (case se_claimed e of None \<Rightarrow> True | Some c \<Rightarrow> c < now) \<and>
      (p = None \<or> lp_publisher (se_leg e) = p)) (map snd m)))"
    by (simp add: pending_legs_def Let_def conj_commute conj_left_commute)
  then have "mset (map lp_id (pending_legs now p m)) = mset (map lp_id (map se_leg (filter (\<lambda>e. owed now e \<and>
      (case se_claimed e of None \<Rightarrow> True | Some c \<Rightarrow> c < now) \<and> (p = None \<or> lp_publisher (se_leg e) = p)) (map snd m))))"
    by (simp only: mset_map)
  from mset_eq_imp_distinct_iff [OF this] d show ?thesis by blast
qed

text \<open>C31: a drain that can settle does. When every attempt of a pass either moves the money or finds that an
  earlier attempt already did, the pass ends without an exception, counts every leg it was given as settled
  and none as failed, and leaves exactly those legs settled; no leg of its scope that may be broadcast is left.\<close>

theorem drain_settles_everything:
  assumes "sink_inv (st_sink st)" "\<And>l w. attempt_moved (fst (settle_one_leg E now l w))"
  shows "\<exists>st'. drain_pending_legs E scope now st =
      (\<lparr>dn_settled = length (pending_legs now scope (st_sink st)), dn_failed = 0, dn_threw = False\<rparr>, st') \<and>
    ledger_of (st_sink st') = (\<lambda>i. if i \<in> lp_id ` spec_pending now scope (ledger_of (st_sink st))
        then (case ledger_of (st_sink st) i of Owed l c \<Rightarrow> Settled l | x \<Rightarrow> x) else ledger_of (st_sink st) i) \<and>
    spec_pending now scope (ledger_of (st_sink st')) = {}"
proof -
  let ?m = "st_sink st" and ?ls = "pending_legs now scope (st_sink st)"
  have set: "set ?ls = spec_pending now scope (ledger_of ?m)" by (rule pending_set [OF assms(1)])
  have id: "lp_id l = i" if "ledger_of ?m i = Owed l c" for i l c
    using that sink_inv_lookup [OF assms(1)] by (auto simp: ledger_Owed_iff)
  have "\<forall>l \<in> set ?ls. \<exists>c. ledger_of ?m (lp_id l) = Owed l c \<and> \<not> lease_live c now"
    unfolding set spec_pending_def using id by (fastforce simp: lease_live_def split: option.splits)
  from memory_legs.drain_all [where sett = "settle_one_leg E now" and w = "(st_chain st, st_nonces st)" and n = 0 and f = 0,
      OF this pending_ids_distinct [OF assms(1)] assms(2)]
  obtain s' w' where d: "drain_loop (Some claim_leg) mark_settled (settle_one_leg E now) now ?ls ?m (st_chain st, st_nonces st) 0 0 =
      (\<lparr>dn_settled = length ?ls, dn_failed = 0, dn_threw = False\<rparr>, s', w')"
    "\<forall>i. ledger_of s' i = (if i \<in> lp_id ` set ?ls then (case ledger_of ?m i of Owed l c \<Rightarrow> Settled l | x \<Rightarrow> x) else ledger_of ?m i)"
    by auto
  have l: "ledger_of s' = (\<lambda>i. if i \<in> lp_id ` spec_pending now scope (ledger_of ?m)
        then (case ledger_of ?m i of Owed l c \<Rightarrow> Settled l | x \<Rightarrow> x) else ledger_of ?m i)"
    using d(2) unfolding set by blast
  have "False" if x: "x \<in> spec_pending now scope (ledger_of s')" for x
  proof -
    obtain i c where i: "ledger_of s' i = Owed x c" "of_int now < lp_valid_before x" "case c of None \<Rightarrow> True | Some u \<Rightarrow> u < now"
      "scope = None \<or> lp_publisher x = scope" using x unfolding spec_pending_def mem_Collect_eq by blast
    then have o: "ledger_of ?m i = Owed x c" "i \<notin> lp_id ` spec_pending now scope (ledger_of ?m)"
      unfolding l by (auto split: if_splits leg_status.splits)
    then have "x \<in> spec_pending now scope (ledger_of ?m)" using i(2-4) by (auto simp: spec_pending_def)
    then show False using o id [OF o(1)] by blast
  qed
  then have "spec_pending now scope (ledger_of s') = {}" by blast
  with d(1) l show ?thesis by (cases w') (simp add: drain_pending_legs_def)
qed

section \<open>A sample rail\<close>

text \<open>A facilitator that spends each authorization nonce once, and says so.\<close>

definition sample_nonce :: "json \<Rightarrow> string" where
  "sample_nonce p = (case json_prop (leg_authorization p) ''nonce'' of JString n \<Rightarrow> n | _ \<Rightarrow> [])"

definition sample_facilitator :: "string list facilitator" where
  "sample_facilitator = \<lparr>fc_verify = (\<lambda>c p r. if sample_nonce p \<in> set c then VerifyAnswer False (Some ''nonce_already_used'') None
       else VerifyAnswer True None (Some ''0xb'')),
     fc_settle = (\<lambda>c p r. if sample_nonce p \<in> set c then (SettleAnswer False (Some ''authorization_already_used'') None None, c)
       else (SettleAnswer True None (Some ''0xb'') (Some ''0xtx''), sample_nonce p # c))\<rparr>"

definition sample_payload :: "string \<Rightarrow> json" where
  "sample_payload n = JObject [(''payload'', JObject [(''authorization'', JObject [(''from'', JString ''0xb''), (''nonce'', JString n)])])]"

text \<open>The header decodes to the payloads of the nonces it lists.\<close>

definition sample_settle_env :: "string list settle_env" where
  "sample_settle_env = \<lparr>sv_mode = GatewayMode, sv_active = BaseSepolia, sv_facilitator = (\<lambda>n. sample_facilitator), sv_health = (\<lambda>n. HealthThrew),
     sv_decode = (\<lambda>s. if s = [] then None else Some (JArray (map (\<lambda>c. sample_payload [c]) s))), sv_digest = (\<lambda>j. ''d''), sv_timeout = 60,
     sv_sign = (\<lambda>e s b. ''m'')\<rparr>"

definition sample_req :: "string \<Rightarrow> string \<Rightarrow> payment_requirements" where
  "sample_req payTo amount = \<lparr>rq_network = ''eip155:84532'', rq_asset = ''0xusdc'', rq_amount = amount, rq_pay_to = payTo, rq_timeout = 60,
     rq_extra = \<lparr>ge_name = ''GatewayWalletBatched'', ge_version = ''1'', ge_verifying_contract = ''0xgw'', lx_nonce = None\<rparr>, rq_memo_id = None\<rparr>"

definition sample_legs :: leg_input where
  "sample_legs = ManyLegs [Inr \<lparr>lg_role = ''author'', lg_req = sample_req ''0xau'' ''90''\<rparr>, Inr \<lparr>lg_role = ''operator'', lg_req = sample_req ''0xop'' ''10''\<rparr>]"

definition sample_rail :: "string list settle_state" where
  "sample_rail = \<lparr>st_chain = [], st_sink = [], st_nonces = []\<rparr>"

lemma sample_normalized: "normalize_legs sample_legs =
    [\<lparr>lg_role = ''author'', lg_req = sample_req ''0xau'' ''90''\<rparr>, \<lparr>lg_role = ''operator'', lg_req = sample_req ''0xop'' ''10''\<rparr>]"
  by (simp add: sample_legs_def normalize_legs_def)

lemma sample_settled: "\<exists>x st'. verify_and_settle sample_settle_env ''ab'' sample_legs 0 None True sample_rail = (Paid x, st') \<and>
    length (pd_legs x) = 2 \<and> st_sink st' = record_leg (pending_of sample_settle_env 0 None
      \<lparr>pr_role = ''operator'', pr_req = sample_req ''0xop'' ''10'', pr_payload = sample_payload ''b''\<rparr>) []"
proof -
  have n: "sample_nonce (sample_payload s) = s" for s
    by (simp add: sample_nonce_def sample_payload_def leg_authorization_def json_prop_def json_field_def)
  show ?thesis
    by (simp add: verify_and_settle_def sample_normalized is_bare_payload_def sample_settle_env_def settle_gateway_def sample_facilitator_def
        sample_rail_def Let_def defer_extra_legs_def with_forgone_def n)
qed

lemma sample_unpaid: "verify_and_settle sample_settle_env [] sample_legs 0 None True sample_rail = (refuse (Some VerifyStage) MalformedSignature, sample_rail)"
  by (simp add: verify_and_settle_def sample_normalized sample_settle_env_def)


theorem refusal_costs_nothing_witness:
  "\<exists>r st'. verify_and_settle sample_settle_env [] sample_legs 0 None True sample_rail = (Refusal r, st') \<and> st' = sample_rail"
proof -
  obtain r where r: "refuse (Some VerifyStage) MalformedSignature = Refusal r" "rf_stage r = Some VerifyStage" by (simp add: refuse_def)
  have "verify_and_settle sample_settle_env [] sample_legs 0 None True sample_rail = (Refusal r, sample_rail)" using sample_unpaid r(1) by simp
  from refusal_costs_nothing [OF this] this r(2) show ?thesis by auto
qed

theorem deferred_legs_recorded_witness:
  "\<exists>x st'. verify_and_settle sample_settle_env ''ab'' sample_legs 0 None True sample_rail = (Paid x, st') \<and>
     (\<exists>l. ledger_of (st_sink st') ''b'' = Owed l None \<and> lp_amount l = ''10'' \<and> lp_pay_to l = ''0xop'')"
proof -
  obtain x st' where x: "verify_and_settle sample_settle_env ''ab'' sample_legs 0 None True sample_rail = (Paid x, st')" "length (pd_legs x) = 2"
    using sample_settled by blast
  have f: "pd_forgone x = None" using paid_forgone [OF x(1)] by simp
  have p: "signed_payloads sample_settle_env ''ab'' = [sample_payload ''a'', sample_payload ''b'']"
    by (simp add: signed_payloads_def sample_settle_env_def)
  have n: "leg_auth_id d (sample_payload ''b'') = ''b''" for d
    by (simp add: leg_auth_id_def sample_payload_def leg_authorization_def json_prop_def json_field_def)
  have e: "ledger_of (st_sink sample_rail) i = Absent" for i by (simp add: sample_rail_def ledger_of_def)
  have "ledger_of (st_sink st') ''b'' = Owed (pending_of sample_settle_env 0 None
      \<lparr>pr_role = ''operator'', pr_req = sample_req ''0xop'' ''10'', pr_payload = sample_payload ''b''\<rparr>) None"
    unfolding deferred_legs_recorded [OF x(1)] f e p by (simp add: sample_normalized pairs_of_def, simp add: pending_of_def n)
  with x(1) show ?thesis by (auto simp: pending_of_def sample_req_def)
qed

theorem shared_nonce_settles_unpaid_leg_witness:
  "\<exists>x st1 st2. verify_and_settle sample_settle_env ''aa'' sample_legs 0 None True sample_rail = (Paid x, st1) \<and>
    drain_pending_legs sample_settle_env None 10 st1 = (\<lparr>dn_settled = 1, dn_failed = 0, dn_threw = False\<rparr>, st2) \<and> st_chain st2 = [''a'']"
proof -
  have n: "sample_nonce (sample_payload s) = s" for s
    by (simp add: sample_nonce_def sample_payload_def leg_authorization_def json_prop_def json_field_def)
  have w: "leg_valid_before 60 (sample_payload ''a'') 0 = 60000"
    by (simp add: leg_valid_before_def sample_payload_def leg_authorization_def json_prop_def json_field_def)
  have c: "is_already_consumed (Some ''authorization_already_used'')" by code_simp
  let ?a = "\<lparr>lg_role = ''author'', lg_req = sample_req ''0xau'' ''90''\<rparr>" and ?b = "\<lparr>lg_role = ''operator'', lg_req = sample_req ''0xop'' ''10''\<rparr>"
  have "\<exists>x st1 st2. verify_and_settle sample_settle_env ''aa'' sample_legs 0 None True sample_rail = (Paid x, st1) \<and>
    drain_pending_legs sample_settle_env None 10 st1 = (\<lparr>dn_settled = 1, dn_failed = 0, dn_threw = False\<rparr>, st2) \<and>
    st_chain st1 = [''a''] \<and> st_chain st2 = [''a''] \<and>
    ledger_of (st_sink st2) (leg_auth_id (sv_digest sample_settle_env) (sample_payload ''a'')) =
      Settled (pending_of sample_settle_env 0 None \<lparr>pr_role = lg_role ?b, pr_req = lg_req ?b, pr_payload = sample_payload ''a''\<rparr>)"
    by (rule shared_nonce_settles_unpaid_leg [where F = sample_facilitator and p = "sample_payload ''a''" and a = ?a, OF _ _ _ _ _ _ _ _ _ _ c])
      (simp_all add: sample_normalized sample_settle_env_def sample_rail_def sample_facilitator_def n w sample_req_def)
  then show ?thesis by blast
qed
text \<open>A rail on which an authorization that fails is always one that was spent.\<close>

lemma sample_moves: "attempt_moved (fst (settle_one_leg sample_settle_env now l w))"
proof -
  have c: "is_already_consumed (Some ''authorization_already_used'')" by code_simp
  show ?thesis
    by (cases w) (simp add: settle_one_leg_def sample_settle_env_def sample_facilitator_def attempt_moved_def c)
qed

theorem drain_settles_everything_witness:
  "\<exists>st'. drain_pending_legs sample_settle_env None 10 (sample_rail\<lparr>st_sink := record_leg (toy_leg ''z'') []\<rparr>) =
     (\<lparr>dn_settled = 1, dn_failed = 0, dn_threw = False\<rparr>, st') \<and> ledger_of (st_sink st') ''z'' = Settled (toy_leg ''z'')"
proof -
  let ?st = "sample_rail\<lparr>st_sink := record_leg (toy_leg ''z'') []\<rparr>"
  have inv: "sink_inv (st_sink ?st)" by (simp add: record_inv)
  have p: "pending_legs 10 None (st_sink ?st) = [toy_leg ''z'']"
    by (simp add: pending_legs_def record_leg_def fresh_entry_def owed_def toy_leg_def)
  have l: "ledger_of (st_sink ?st) ''z'' = Owed (toy_leg ''z'') None"
    by (simp add: record_refines spec_record_def toy_leg_def) (simp add: ledger_of_def)
  have z: "''z'' \<in> lp_id ` spec_pending 10 None (ledger_of (st_sink ?st))"
    unfolding pending_set [OF inv, symmetric] p by (simp add: toy_leg_def)
  obtain st' where "drain_pending_legs sample_settle_env None 10 ?st = (\<lparr>dn_settled = 1, dn_failed = 0, dn_threw = False\<rparr>, st')"
    "ledger_of (st_sink st') = (\<lambda>i. if i \<in> lp_id ` spec_pending 10 None (ledger_of (st_sink ?st))
        then (case ledger_of (st_sink ?st) i of Owed l c \<Rightarrow> Settled l | x \<Rightarrow> x) else ledger_of (st_sink ?st) i)"
    using drain_settles_everything [OF inv sample_moves, of None 10] unfolding p by auto
  then show ?thesis using z l by auto
qed

end
