(* ===== verification/DrainRace.thy ===== *)
theory DrainRace
  imports Settle
begin

text \<open>
  Several drains of \<open>drainPendingLegs\<close> (\<open>packages/tollgate/src/x402.ts\<close>) over one store. A pass yields at every
  \<open>await\<close>, so passes interleave between the read of the legs, each claim, each broadcast and each record.
  The clock only grows; a pass keeps the \<open>now\<close> it started with for all its claims, as the source does.
\<close>

section \<open>Model\<close>

datatype drain_phase = Idle | Holding pending_leg | Tried pending_leg settle_attempt

record drain_proc =
  dp_now :: int
  dp_todo :: "pending_leg list"
  dp_phase :: drain_phase
  dp_settled :: nat
  dp_failed :: nat

record ('s, 'w) drains =
  dr_clock :: int
  dr_store :: 's
  dr_world :: 'w
  dr_procs :: "drain_proc list"

definition fresh_proc :: "int \<Rightarrow> pending_leg list \<Rightarrow> drain_proc" where
  "fresh_proc now legs = \<lparr>dp_now = now, dp_todo = legs, dp_phase = Idle, dp_settled = 0, dp_failed = 0\<rparr>"

definition set_proc :: "nat \<Rightarrow> drain_proc \<Rightarrow> ('s, 'w) drains \<Rightarrow> ('s, 'w) drains" where
  "set_proc k p d = d\<lparr>dr_procs := (dr_procs d)[k := p]\<rparr>"

text \<open>One step of one pass, or of the clock. An attempt that threw ends its pass: nothing follows it.\<close>

inductive drain_step ::
    "(string \<Rightarrow> int \<Rightarrow> int \<Rightarrow> 's \<Rightarrow> bool \<times> 's) \<Rightarrow> (string \<Rightarrow> string \<Rightarrow> 's \<Rightarrow> bool \<times> 's) \<Rightarrow>
       (int \<Rightarrow> string option \<Rightarrow> 's \<Rightarrow> pending_leg list) \<Rightarrow> (int \<Rightarrow> pending_leg \<Rightarrow> 'w \<Rightarrow> settle_attempt \<times> 'w) \<Rightarrow>
       ('s, 'w) drains \<Rightarrow> ('s, 'w) drains \<Rightarrow> bool"
  for claim mark pend sett where
  Tick: "dr_clock d \<le> t \<Longrightarrow> drain_step claim mark pend sett d (d\<lparr>dr_clock := t\<rparr>)"
| Start: "drain_step claim mark pend sett d
     (d\<lparr>dr_procs := dr_procs d @ [fresh_proc (dr_clock d) (pend (dr_clock d) scope (dr_store d))]\<rparr>)"
| Claim: "k < length (dr_procs d) \<Longrightarrow> p = dr_procs d ! k \<Longrightarrow> dp_phase p = Idle \<Longrightarrow> dp_todo p = l # ls \<Longrightarrow>
     claim (lp_id l) (dp_now p + claim_lease_ms) (dp_now p) (dr_store d) = (True, s) \<Longrightarrow>
     drain_step claim mark pend sett d (set_proc k (p\<lparr>dp_phase := Holding l, dp_todo := ls\<rparr>) (d\<lparr>dr_store := s\<rparr>))"
| Skip: "k < length (dr_procs d) \<Longrightarrow> p = dr_procs d ! k \<Longrightarrow> dp_phase p = Idle \<Longrightarrow> dp_todo p = l # ls \<Longrightarrow>
     claim (lp_id l) (dp_now p + claim_lease_ms) (dp_now p) (dr_store d) = (False, s) \<Longrightarrow>
     drain_step claim mark pend sett d (set_proc k (p\<lparr>dp_todo := ls\<rparr>) (d\<lparr>dr_store := s\<rparr>))"
| Broadcast: "k < length (dr_procs d) \<Longrightarrow> p = dr_procs d ! k \<Longrightarrow> dp_phase p = Holding l \<Longrightarrow>
     sett (dp_now p) l (dr_world d) = (a, w) \<Longrightarrow>
     drain_step claim mark pend sett d (set_proc k (p\<lparr>dp_phase := Tried l a\<rparr>) (d\<lparr>dr_world := w\<rparr>))"
| Fail: "k < length (dr_procs d) \<Longrightarrow> p = dr_procs d ! k \<Longrightarrow> dp_phase p = Tried l AttemptFailed \<Longrightarrow>
     drain_step claim mark pend sett d (set_proc k (p\<lparr>dp_phase := Idle, dp_failed := Suc (dp_failed p)\<rparr>) d)"
| Book: "k < length (dr_procs d) \<Longrightarrow> p = dr_procs d ! k \<Longrightarrow> dp_phase p = Tried l a \<Longrightarrow> attempt_moved a \<Longrightarrow>
     mark (lp_id l) (case a of SettledAs r \<Rightarrow> r | _ \<Rightarrow> reconciled_ref) (dr_store d) = (won, s) \<Longrightarrow>
     drain_step claim mark pend sett d
       (set_proc k (p\<lparr>dp_phase := Idle, dp_settled := (if won then Suc (dp_settled p) else dp_settled p)\<rparr>) (d\<lparr>dr_store := s\<rparr>))"

abbreviation drain_steps where
  "drain_steps claim mark pend sett \<equiv> (drain_step claim mark pend sett)\<^sup>*\<^sup>*"

definition no_drains :: "int \<Rightarrow> 's \<Rightarrow> 'w \<Rightarrow> ('s, 'w) drains" where
  "no_drains t s w = \<lparr>dr_clock = t, dr_store = s, dr_world = w, dr_procs = []\<rparr>"

text \<open>The leg a pass has claimed and not yet booked.\<close>

definition holds :: "drain_proc \<Rightarrow> string \<Rightarrow> bool" where
  "holds p i \<longleftrightarrow> (case dp_phase p of Idle \<Rightarrow> False | Holding l \<Rightarrow> lp_id l = i | Tried l a \<Rightarrow> lp_id l = i)"

section \<open>Lemmas\<close>

definition settled_ids :: "ledger \<Rightarrow> string set" where
  "settled_ids f = {i. \<exists>l. f i = Settled l}"

definition settled_by :: "drain_proc list \<Rightarrow> nat" where
  "settled_by ps = sum_list (map dp_settled ps)"

lemma settled_by_update:
  "k < length ps \<Longrightarrow> settled_by (ps[k := p]) + dp_settled (ps ! k) = settled_by ps + dp_settled p"
  by (induction ps arbitrary: k) (auto simp: settled_by_def split: nat.split)

lemma settled_by_same: "k < length ps \<Longrightarrow> dp_settled p = dp_settled (ps ! k) \<Longrightarrow> settled_by (ps[k := p]) = settled_by ps"
  using settled_by_update [of k ps p] by simp

context leg_store begin

text \<open>While a pass holds a leg, the leg is settled or its lease ends no earlier than the pass's own; two
  passes that hold the same leg read the clock a lease apart.\<close>

definition lease_inv :: "('s, 'w) drains \<Rightarrow> bool" where
  "lease_inv d \<longleftrightarrow>
     (\<forall>k i. k < length (dr_procs d) \<and> holds (dr_procs d ! k) i \<longrightarrow>
        (\<exists>l. ledger (dr_store d) i = Settled l) \<or>
        (\<exists>l u. ledger (dr_store d) i = Owed l (Some u) \<and> dp_now (dr_procs d ! k) + claim_lease_ms \<le> u)) \<and>
     (\<forall>j k i. j < length (dr_procs d) \<and> k < length (dr_procs d) \<and> j \<noteq> k \<and> holds (dr_procs d ! j) i \<and> holds (dr_procs d ! k) i \<longrightarrow>
        claim_lease_ms \<le> \<bar>dp_now (dr_procs d ! j) - dp_now (dr_procs d ! k)\<bar>)"

lemma lease_invI:
  assumes "\<And>k i. k < length (dr_procs d) \<Longrightarrow> holds (dr_procs d ! k) i \<Longrightarrow> (\<exists>l. ledger (dr_store d) i = Settled l) \<or>
        (\<exists>l u. ledger (dr_store d) i = Owed l (Some u) \<and> dp_now (dr_procs d ! k) + claim_lease_ms \<le> u)"
    and "\<And>j k i. j < length (dr_procs d) \<Longrightarrow> k < length (dr_procs d) \<Longrightarrow> j \<noteq> k \<Longrightarrow> holds (dr_procs d ! j) i \<Longrightarrow> holds (dr_procs d ! k) i \<Longrightarrow>
        claim_lease_ms \<le> \<bar>dp_now (dr_procs d ! j) - dp_now (dr_procs d ! k)\<bar>"
  shows "lease_inv d"
  unfolding lease_inv_def using assms by blast

lemma lease_owed: "lease_inv d \<Longrightarrow> k < length (dr_procs d) \<Longrightarrow> holds (dr_procs d ! k) i \<Longrightarrow> (\<exists>l. ledger (dr_store d) i = Settled l) \<or>
        (\<exists>l u. ledger (dr_store d) i = Owed l (Some u) \<and> dp_now (dr_procs d ! k) + claim_lease_ms \<le> u)"
  unfolding lease_inv_def by blast

lemma lease_apart: "lease_inv d \<Longrightarrow> j < length (dr_procs d) \<Longrightarrow> k < length (dr_procs d) \<Longrightarrow> j \<noteq> k \<Longrightarrow> holds (dr_procs d ! j) i \<Longrightarrow>
    holds (dr_procs d ! k) i \<Longrightarrow> claim_lease_ms \<le> \<bar>dp_now (dr_procs d ! j) - dp_now (dr_procs d ! k)\<bar>"
  unfolding lease_inv_def by blast

lemma lease_inv_mono:
  assumes "lease_inv d" "length (dr_procs d') = length (dr_procs d)"
    and "\<And>k. k < length (dr_procs d) \<Longrightarrow> dp_now (dr_procs d' ! k) = dp_now (dr_procs d ! k)"
    and "\<And>k i. k < length (dr_procs d) \<Longrightarrow> holds (dr_procs d' ! k) i \<Longrightarrow> holds (dr_procs d ! k) i"
    and "\<And>i. ledger (dr_store d') i = ledger (dr_store d) i \<or> (\<exists>l. ledger (dr_store d') i = Settled l)"
  shows "lease_inv d'"
proof (rule lease_invI)
  fix k i assume k: "k < length (dr_procs d')" "holds (dr_procs d' ! k) i"
  then have "k < length (dr_procs d)" "holds (dr_procs d ! k) i" using assms(2,4) by auto
  from lease_owed [OF assms(1) this] show "(\<exists>l. ledger (dr_store d') i = Settled l) \<or>
        (\<exists>l u. ledger (dr_store d') i = Owed l (Some u) \<and> dp_now (dr_procs d' ! k) + claim_lease_ms \<le> u)"
    using assms(5) [of i] assms(3) [OF \<open>k < length (dr_procs d)\<close>] by auto
next
  fix j k i assume a: "j < length (dr_procs d')" "k < length (dr_procs d')" "j \<noteq> k" "holds (dr_procs d' ! j) i" "holds (dr_procs d' ! k) i"
  then have b: "j < length (dr_procs d)" "k < length (dr_procs d)" "holds (dr_procs d ! j) i" "holds (dr_procs d ! k) i"
    using assms(2,4) by auto
  show "claim_lease_ms \<le> \<bar>dp_now (dr_procs d' ! j) - dp_now (dr_procs d' ! k)\<bar>"
    unfolding assms(3) [OF b(1)] assms(3) [OF b(2)] by (rule lease_apart [OF assms(1) b(1,2) a(3) b(3,4)])
qed

lemma lease_inv_start:
  assumes "lease_inv d"
  shows "lease_inv (d\<lparr>dr_procs := dr_procs d @ [fresh_proc t ls]\<rparr>)"
proof -
  let ?ps = "dr_procs d @ [fresh_proc t ls]"
  have n: "k < length (dr_procs d) \<and> ?ps ! k = dr_procs d ! k" if "k < length ?ps" "holds (?ps ! k) i" for k i
    using that by (cases "k = length (dr_procs d)") (auto simp: holds_def fresh_proc_def nth_append)
  show ?thesis
  proof (rule lease_invI, goal_cases)
    case (1 k i)
    then have "k < length (dr_procs d)" "?ps ! k = dr_procs d ! k" "holds (dr_procs d ! k) i" using n [of k i] by auto
    with lease_owed [OF assms] show ?case by simp
  next
    case (2 j k i)
    then have "j < length (dr_procs d)" "?ps ! j = dr_procs d ! j" "holds (dr_procs d ! j) i"
      "k < length (dr_procs d)" "?ps ! k = dr_procs d ! k" "holds (dr_procs d ! k) i" using n [of j i] n [of k i] by auto
    with lease_apart [OF assms] 2(3) show ?case by simp
  qed
qed

lemma lease_inv_claim:
  assumes inv: "lease_inv d" and k: "k < length (dr_procs d)" and p: "p = dr_procs d ! k" "dp_phase p = Idle"
    and claim: "claim (lp_id l) (dp_now p + claim_lease_ms) (dp_now p) (dr_store d) = (True, s)"
  shows "lease_inv (set_proc k (p\<lparr>dp_phase := Holding l, dp_todo := ls\<rparr>) (d\<lparr>dr_store := s\<rparr>))"
proof -
  let ?p = "p\<lparr>dp_phase := Holding l, dp_todo := ls\<rparr>"
  obtain l0 c where c: "ledger (dr_store d) (lp_id l) = Owed l0 c" "\<not> lease_live c (dp_now p)"
    "ledger s = (ledger (dr_store d))(lp_id l := Owed l0 (Some (dp_now p + claim_lease_ms)))" using claim_won [OF claim] by blast
  have hp: "holds ?p i \<longleftrightarrow> i = lp_id l" for i by (auto simp: holds_def)
  have old: "dp_now (dr_procs d ! j) + claim_lease_ms \<le> dp_now p" if j: "j < length (dr_procs d)" "holds (dr_procs d ! j) (lp_id l)" for j
  proof -
    obtain u where "c = Some u" "dp_now (dr_procs d ! j) + claim_lease_ms \<le> u" using lease_owed [OF inv j] c(1) by auto
    then show ?thesis using c(2) by (simp add: lease_live_def)
  qed
  have one: "(\<exists>l. ledger s i = Settled l) \<or> (\<exists>l u. ledger s i = Owed l (Some u) \<and> dp_now ((dr_procs d)[k := ?p] ! j) + claim_lease_ms \<le> u)"
    if j: "j < length (dr_procs d)" "holds ((dr_procs d)[k := ?p] ! j) i" for j i
  proof (cases "i = lp_id l")
    case True
    have "dp_now ((dr_procs d)[k := ?p] ! j) + claim_lease_ms \<le> dp_now p + claim_lease_ms"
      using old [of j] j True by (cases "j = k") (auto simp: claim_lease_ms_def)
    then show ?thesis using c(3) True by simp
  next
    case False
    have "j \<noteq> k"
    proof
      assume "j = k"
      with j(2) k have "holds ?p i" by simp
      with hp False show False by simp
    qed
    with j(2) have "j \<noteq> k" "holds (dr_procs d ! j) i" by simp_all
    with lease_owed [OF inv j(1)] c(3) False show ?thesis by simp
  qed
  have two: "claim_lease_ms \<le> \<bar>dp_now ((dr_procs d)[k := ?p] ! i) - dp_now ((dr_procs d)[k := ?p] ! j)\<bar>"
    if j: "i < length (dr_procs d)" "j < length (dr_procs d)" "i \<noteq> j" "holds ((dr_procs d)[k := ?p] ! i) x" "holds ((dr_procs d)[k := ?p] ! j) x" for i j x
  proof -
    consider "i = k" "j \<noteq> k" | "j = k" "i \<noteq> k" | "i \<noteq> k" "j \<noteq> k" using j(3) by blast
    then show ?thesis
    proof cases
      case 1
      then show ?thesis using old [of j] j k hp by (auto simp: nth_list_update)
    next
      case 2
      then show ?thesis using old [of i] j k hp by (auto simp: nth_list_update)
    next
      case 3
      then have "holds (dr_procs d ! i) x" "holds (dr_procs d ! j) x" using j by simp_all
      from lease_apart [OF inv j(1-3) this] 3 show ?thesis by simp
    qed
  qed
  show ?thesis
    by (rule lease_invI) (use one two in \<open>simp_all add: set_proc_def\<close>)
qed

lemma lease_inv_set:
  assumes "lease_inv d" "k < length (dr_procs d)" "dp_now p = dp_now (dr_procs d ! k)"
    and "\<And>i. holds p i \<Longrightarrow> holds (dr_procs d ! k) i" "dr_procs d' = dr_procs d"
    and "\<And>i. ledger (dr_store d') i = ledger (dr_store d) i \<or> (\<exists>l. ledger (dr_store d') i = Settled l)"
  shows "lease_inv (set_proc k p d')"
proof (rule lease_inv_mono [OF assms(1)])
  fix j i assume j: "j < length (dr_procs d)"
  show "dp_now (dr_procs (set_proc k p d') ! j) = dp_now (dr_procs d ! j)"
    using assms(2,3,5) by (cases "j = k") (simp_all add: set_proc_def)
  assume "holds (dr_procs (set_proc k p d') ! j) i"
  then show "holds (dr_procs d ! j) i" using assms(2,4,5) by (cases "j = k") (simp_all add: set_proc_def)
qed (use assms(5,6) in \<open>simp_all add: set_proc_def\<close>)

lemma lease_inv_step:
  assumes "drain_step claim settle pending sett d d'" "lease_inv d"
  shows "lease_inv d'"
  using assms
proof (induction rule: drain_step.induct)
  case (Tick d t)
  then show ?case by - (rule lease_inv_mono [of d], simp_all)
next
  case (Start d scope)
  then show ?case by (rule lease_inv_start)
next
  case (Claim k d p l ls s)
  then show ?case by (intro lease_inv_claim)
next
  case (Skip k d p l ls s)
  then show ?case by - (rule lease_inv_set [of d], simp_all add: holds_def claim_lost)
next
  case (Broadcast k d p l a w)
  then show ?case by - (rule lease_inv_set [of d], simp_all add: holds_def)
next
  case (Fail k d p l)
  then show ?case by - (rule lease_inv_set [of d], simp_all add: holds_def)
next
  case (Book k d p l a won s)
  have "ledger s i = ledger (dr_store d) i \<or> (\<exists>l. ledger s i = Settled l)" for i
  proof (cases won)
    case True
    with Book.hyps(5) have "settle (lp_id l) (case a of SettledAs r \<Rightarrow> r | _ \<Rightarrow> reconciled_ref) (dr_store d) = (True, s)" by simp
    from settle_won [OF this] obtain l' where "ledger s = (ledger (dr_store d))(lp_id l := Settled l')" by blast
    then show ?thesis by simp
  next
    case False
    with Book.hyps(5) have "settle (lp_id l) (case a of SettledAs r \<Rightarrow> r | _ \<Rightarrow> reconciled_ref) (dr_store d) = (False, s)" by simp
    from settle_lost [OF this] show ?thesis by simp
  qed
  with Book show ?case by - (rule lease_inv_set [of d], simp_all add: holds_def)
qed

lemma lease_inv_steps:
  assumes "drain_steps claim settle pending sett (no_drains t s w) d"
  shows "lease_inv d"
  using assms
proof (induction rule: rtranclp_induct)
  case base
  show ?case by (rule lease_invI) (simp_all add: no_drains_def)
next
  case (step d d')
  then show ?case using lease_inv_step by blast
qed

lemma settled_ids_claim:
  assumes "claim i u t s = (b, s')"
  shows "settled_ids (ledger s') = settled_ids (ledger s)"
proof (cases b)
  case True
  with assms claim_won [of i u t s s'] obtain l c where "ledger s i = Owed l c" "ledger s' = (ledger s)(i := Owed l (Some u))" by auto
  then show ?thesis by (auto simp: settled_ids_def)
next
  case False
  with assms claim_lost [of i u t s s'] show ?thesis by simp
qed

lemma settled_ids_won:
  assumes "settle i r s = (True, s')"
  shows "settled_ids (ledger s') = insert i (settled_ids (ledger s)) \<and> i \<notin> settled_ids (ledger s)"
proof -
  obtain l c where "ledger s i = Owed l c" "ledger s' = (ledger s)(i := Settled l)" using settle_won [OF assms] by blast
  then show ?thesis by (auto simp: settled_ids_def)
qed

text \<open>The legs settled and the counts of the passes grow together.\<close>

lemma settled_step:
  assumes "drain_step claim settle pending sett d d'" "finite (settled_ids (ledger (dr_store d)))"
  shows "finite (settled_ids (ledger (dr_store d'))) \<and>
    card (settled_ids (ledger (dr_store d'))) + settled_by (dr_procs d) = card (settled_ids (ledger (dr_store d))) + settled_by (dr_procs d')"
  using assms
proof (induction rule: drain_step.induct)
  case (Start d scope)
  then show ?case by (simp add: settled_by_def fresh_proc_def)
next
  case (Claim k d p l ls s)
  then show ?case by (simp add: set_proc_def settled_by_same settled_ids_claim [OF Claim.hyps(5)])
next
  case (Skip k d p l ls s)
  then show ?case by (simp add: set_proc_def settled_by_same settled_ids_claim [OF Skip.hyps(5)])
next
  case (Book k d p l a won s)
  show ?case
  proof (cases won)
    case True
    with Book.hyps(5) have "settle (lp_id l) (case a of SettledAs r \<Rightarrow> r | _ \<Rightarrow> reconciled_ref) (dr_store d) = (True, s)" by simp
    note won = settled_ids_won [OF this]
    have "settled_by ((dr_procs d)[k := p\<lparr>dp_phase := Idle, dp_settled := Suc (dp_settled p)\<rparr>]) = Suc (settled_by (dr_procs d))"
      using settled_by_update [OF Book.hyps(1), of "p\<lparr>dp_phase := Idle, dp_settled := Suc (dp_settled p)\<rparr>"] Book.hyps(2) by simp
    with won True Book.prems show ?thesis by (simp add: set_proc_def)
  next
    case False
    then have "settle (lp_id l) (case a of SettledAs r \<Rightarrow> r | _ \<Rightarrow> reconciled_ref) (dr_store d) = (False, s)" using Book.hyps(5) by simp
    from settle_lost [OF this] False Book show ?thesis by (simp add: set_proc_def settled_by_same)
  qed
qed (simp_all add: set_proc_def settled_by_same)

lemma settled_steps:
  assumes "drain_steps claim settle pending sett (no_drains t s w) d" "finite (settled_ids (ledger s))"
  shows "finite (settled_ids (ledger (dr_store d))) \<and>
    card (settled_ids (ledger (dr_store d))) = card (settled_ids (ledger s)) + settled_by (dr_procs d)"
  using assms
proof (induction rule: rtranclp_induct)
  case base
  then show ?case by (simp add: no_drains_def settled_by_def)
next
  case (step d d')
  then show ?case using settled_step [OF step.hyps(2)] by fastforce
qed

end

text \<open>A pass that no other interleaves with is a run of the steps.\<close>

definition solo :: "int \<Rightarrow> drain_proc list \<Rightarrow> nat \<Rightarrow> int \<Rightarrow> pending_leg list \<Rightarrow> drain_phase \<Rightarrow> nat \<Rightarrow> nat \<Rightarrow> 's \<Rightarrow> 'w \<Rightarrow> ('s, 'w) drains" where
  "solo t ps k now ls ph n f s w = \<lparr>dr_clock = t, dr_store = s, dr_world = w,
     dr_procs = ps[k := \<lparr>dp_now = now, dp_todo = ls, dp_phase = ph, dp_settled = n, dp_failed = f\<rparr>]\<rparr>"

lemma solo_claim:
  assumes "k < length ps" "claim (lp_id l) (now + claim_lease_ms) now s = (True, s1)"
  shows "drain_step claim mark pend sett (solo t ps k now (l # ls) Idle n f s w) (solo t ps k now ls (Holding l) n f s1 w)"
  using drain_step.Claim [of k "solo t ps k now (l # ls) Idle n f s w" _ l ls claim s1 mark pend sett, OF _ refl] assms
  by (simp add: solo_def set_proc_def)

lemma solo_skip:
  assumes "k < length ps" "claim (lp_id l) (now + claim_lease_ms) now s = (False, s1)"
  shows "drain_step claim mark pend sett (solo t ps k now (l # ls) Idle n f s w) (solo t ps k now ls Idle n f s1 w)"
  using drain_step.Skip [of k "solo t ps k now (l # ls) Idle n f s w" _ l ls claim s1 mark pend sett, OF _ refl] assms
  by (simp add: solo_def set_proc_def)

lemma solo_broadcast:
  assumes "k < length ps" "sett now l w = (a, w1)"
  shows "drain_step claim mark pend sett (solo t ps k now ls (Holding l) n f s w) (solo t ps k now ls (Tried l a) n f s w1)"
  using drain_step.Broadcast [of k "solo t ps k now ls (Holding l) n f s w" _ l sett a w1 claim mark pend, OF _ refl] assms
  by (simp add: solo_def set_proc_def)

lemma solo_fail:
  assumes "k < length ps"
  shows "drain_step claim mark pend sett (solo t ps k now ls (Tried l AttemptFailed) n f s w) (solo t ps k now ls Idle n (Suc f) s w)"
  using drain_step.Fail [of k "solo t ps k now ls (Tried l AttemptFailed) n f s w" _ l claim mark pend sett, OF _ refl] assms
  by (simp add: solo_def set_proc_def)

lemma solo_book:
  assumes "k < length ps" "attempt_moved a" "mark (lp_id l) (case a of SettledAs r \<Rightarrow> r | _ \<Rightarrow> reconciled_ref) s = (won, s1)"
  shows "drain_step claim mark pend sett (solo t ps k now ls (Tried l a) n f s w) (solo t ps k now ls Idle (if won then Suc n else n) f s1 w)"
  using drain_step.Book [of k "solo t ps k now ls (Tried l a) n f s w" _ l a mark won s1 claim pend sett, OF _ refl] assms
  by (cases won) (simp_all add: solo_def set_proc_def)

lemma solo_run:
  assumes "drain_loop (Some claim) mark (sett now) now ls s w n f = (\<lparr>dn_settled = n', dn_failed = f', dn_threw = False\<rparr>, s', w')" "k < length ps"
  shows "drain_steps claim mark pend sett (solo t ps k now ls Idle n f s w) (solo t ps k now [] Idle n' f' s' w')"
  using assms
proof (induction ls arbitrary: n f s w)
  case (Cons l ls)
  let ?S = "drain_step claim mark pend sett"
  note k = Cons.prems(2)
  obtain b s1 where c: "claim (lp_id l) (now + claim_lease_ms) now s = (b, s1)" by fastforce
  show ?case
  proof (cases b)
    case False
    then have "drain_loop (Some claim) mark (sett now) now ls s1 w n f = (\<lparr>dn_settled = n', dn_failed = f', dn_threw = False\<rparr>, s', w')"
      using Cons.prems(1) c by simp
    from solo_skip [where claim = claim, OF k c [unfolded False [THEN eq_False [THEN iffD2]]]] Cons.IH [OF this k]
    show ?thesis by (rule converse_rtranclp_into_rtranclp)
  next
    case True
    obtain a w1 where a: "sett now l w = (a, w1)" by fastforce
    have held: "?S\<^sup>*\<^sup>* (solo t ps k now (l # ls) Idle n f s w) (solo t ps k now ls (Tried l a) n f s1 w1)"
      using solo_claim [where claim = claim, OF k c [unfolded True [THEN eq_True [THEN iffD2]]]] solo_broadcast [where sett = sett, OF k a]
      by (meson converse_rtranclp_into_rtranclp r_into_rtranclp)
    show ?thesis
    proof (cases "attempt_moved a")
      case True
      obtain won s2 where m: "mark (lp_id l) (case a of SettledAs r \<Rightarrow> r | _ \<Rightarrow> reconciled_ref) s1 = (won, s2)" by fastforce
      have "drain_loop (Some claim) mark (sett now) now ls s2 w1 (if won then Suc n else n) f =
          (\<lparr>dn_settled = n', dn_failed = f', dn_threw = False\<rparr>, s', w')"
        using Cons.prems(1) c \<open>b\<close> a m True by (cases a) (simp_all add: attempt_moved_def)
      from Cons.IH [OF this k] held solo_book [where mark = mark, OF k True m] show ?thesis
        by (meson converse_rtranclp_into_rtranclp rtranclp_trans)
    next
      case False
      then have "a = AttemptFailed" using Cons.prems(1) c \<open>b\<close> a by (cases a) (simp_all add: attempt_moved_def)
      with Cons.prems(1) c \<open>b\<close> a have "drain_loop (Some claim) mark (sett now) now ls s1 w1 n (Suc f) =
          (\<lparr>dn_settled = n', dn_failed = f', dn_threw = False\<rparr>, s', w')" by simp
      from Cons.IH [OF this k] held [unfolded \<open>a = AttemptFailed\<close>] solo_fail [OF k] show ?thesis
        by (meson converse_rtranclp_into_rtranclp rtranclp_trans)
    qed
  qed
qed simp

definition slow_leg :: "string \<Rightarrow> pending_leg" where
  "slow_leg i = (toy_leg i)\<lparr>lp_valid_before := 1000000\<rparr>"

definition slow_store :: leg_sink where
  "slow_store = record_leg (slow_leg ''b'') (record_leg (slow_leg ''a'') [])"

text \<open>The store of two legs after a pass has claimed and booked the first one.\<close>

definition slow_entry :: "bool \<Rightarrow> string option \<Rightarrow> int option \<Rightarrow> string \<Rightarrow> string \<times> sink_entry" where
  "slow_entry settled r c i = (i, \<lparr>se_leg = slow_leg i, se_settled = settled, se_ref = r, se_claimed = c\<rparr>)"

lemma slow_id: "lp_id (slow_leg i) = i" "lp_valid_before (slow_leg i) = 1000000" "lp_at (slow_leg i) = 0"
  "rq_network (lp_requirements (slow_leg i)) = ''eip155:84532''"
  by (simp_all add: slow_leg_def toy_leg_def toy_leg_req_def)

lemma slow_store_is: "slow_store = [slow_entry False None None ''a'', slow_entry False None None ''b'']"
  by (simp add: slow_store_def record_leg_def fresh_entry_def slow_entry_def slow_id)

lemma slow_pending:
  "pending_legs 0 None slow_store = [slow_leg ''a'', slow_leg ''b'']"
  "pending_legs 130000 None [slow_entry True r (Some 120000) ''a'', slow_entry False None None ''b''] = [slow_leg ''b'']"
  by (simp_all add: pending_legs_def slow_store_is slow_entry_def owed_def slow_id)

lemma slow_claims:
  "claim_leg ''a'' 120000 0 slow_store = (True, [slow_entry False None (Some 120000) ''a'', slow_entry False None None ''b''])"
  "mark_settled ''a'' r [slow_entry False None (Some 120000) ''a'', x] = (True, [slow_entry True (Some r) (Some 120000) ''a'', x])"
  "claim_leg ''b'' 120000 0 [slow_entry True r' (Some 120000) ''a'', slow_entry False None None ''b''] =
     (True, [slow_entry True r' (Some 120000) ''a'', slow_entry False None (Some 120000) ''b''])"
  "claim_leg ''b'' 250000 130000 [slow_entry True r' (Some 120000) ''a'', slow_entry False None (Some 120000) ''b''] =
     (True, [slow_entry True r' (Some 120000) ''a'', slow_entry False None (Some 250000) ''b''])"
  by (simp_all add: claim_leg_def mark_settled_def slow_store_is slow_entry_def)

lemma slow_settles: "settle_one_leg sample_settle_env 0 (slow_leg ''a'') ([], []) = (SettledAs ''0xtx'', [''a''], [])"
proof -
  have "sample_nonce (lp_payload (slow_leg ''a'')) = ''a''"
    by (simp add: sample_nonce_def slow_leg_def toy_leg_def leg_authorization_def json_prop_def json_field_def)
  then show ?thesis by (simp add: settle_one_leg_def sample_settle_env_def sample_facilitator_def)
qed

abbreviation slow_steps where
  "slow_steps \<equiv> drain_steps claim_leg mark_settled pending_legs (settle_one_leg sample_settle_env)"

text \<open>The first pass holds the first leg for 130 seconds, books it, and is about to claim the second; another pass starts.\<close>

definition slow_mid :: "(leg_sink, string list \<times> consumed_map) drains" where
  "slow_mid = \<lparr>dr_clock = 130000, dr_store = [slow_entry True (Some ''0xtx'') (Some 120000) ''a'', slow_entry False None None ''b''],
     dr_world = ([''a''], []), dr_procs = [\<lparr>dp_now = 0, dp_todo = [slow_leg ''b''], dp_phase = Idle, dp_settled = 1, dp_failed = 0\<rparr>,
       fresh_proc 130000 [slow_leg ''b'']]\<rparr>"

definition slow_end :: "(leg_sink, string list \<times> consumed_map) drains" where
  "slow_end = slow_mid\<lparr>dr_store := [slow_entry True (Some ''0xtx'') (Some 120000) ''a'', slow_entry False None (Some 250000) ''b''],
     dr_procs := [\<lparr>dp_now = 0, dp_todo = [], dp_phase = Holding (slow_leg ''b''), dp_settled = 1, dp_failed = 0\<rparr>,
       \<lparr>dp_now = 130000, dp_todo = [], dp_phase = Holding (slow_leg ''b''), dp_settled = 0, dp_failed = 0\<rparr>]\<rparr>"

lemma slow_first: "slow_steps (no_drains 0 slow_store ([], [])) slow_mid"
proof -
  let ?S = "drain_step claim_leg mark_settled pending_legs (settle_one_leg sample_settle_env)"
  let ?d = "solo 0 [undefined] 0 0"
  let ?m1 = "[slow_entry False None (Some 120000) ''a'', slow_entry False None None ''b'']"
  let ?m2 = "[slow_entry True (Some ''0xtx'') (Some 120000) ''a'', slow_entry False None None ''b'']"
  have 1: "?S (no_drains 0 slow_store ([], [])) (?d [slow_leg ''a'', slow_leg ''b''] Idle 0 0 slow_store ([], []))"
    using drain_step.Start [of claim_leg mark_settled pending_legs "settle_one_leg sample_settle_env" "no_drains 0 slow_store ([], [])" None]
    by (simp add: no_drains_def solo_def fresh_proc_def slow_pending)
  have 2: "?S (?d [slow_leg ''a'', slow_leg ''b''] Idle 0 0 slow_store ([], [])) (?d [slow_leg ''b''] (Holding (slow_leg ''a'')) 0 0 ?m1 ([], []))"
    by (rule solo_claim) (simp_all add: slow_id slow_claims claim_lease_ms_def)
  have 3: "?S (?d [slow_leg ''b''] (Holding (slow_leg ''a'')) 0 0 ?m1 ([], [])) (?d [slow_leg ''b''] (Tried (slow_leg ''a'') (SettledAs ''0xtx'')) 0 0 ?m1 ([''a''], []))"
    by (rule solo_broadcast) (simp_all add: slow_settles)
  have 4: "?S (?d [slow_leg ''b''] (Tried (slow_leg ''a'') (SettledAs ''0xtx'')) 0 0 ?m1 ([''a''], [])) (?d [slow_leg ''b''] Idle 1 0 ?m2 ([''a''], []))"
    using solo_book [of 0 "[undefined]" "SettledAs ''0xtx''" mark_settled "slow_leg ''a''" ?m1 True ?m2 claim_leg pending_legs "settle_one_leg sample_settle_env"
        0 0 "[slow_leg ''b'']" 0 0] by (simp add: attempt_moved_def slow_id slow_claims)
  have 5: "?S (?d [slow_leg ''b''] Idle 1 0 ?m2 ([''a''], [])) (solo 130000 [undefined] 0 0 [slow_leg ''b''] Idle 1 0 ?m2 ([''a''], []))"
    using drain_step.Tick [of "?d [slow_leg ''b''] Idle 1 0 ?m2 ([''a''], [])" 130000] by (simp add: solo_def)
  have 6: "?S (solo 130000 [undefined] 0 0 [slow_leg ''b''] Idle 1 0 ?m2 ([''a''], [])) slow_mid"
    using drain_step.Start [of claim_leg mark_settled pending_legs "settle_one_leg sample_settle_env" "solo 130000 [undefined] 0 0 [slow_leg ''b''] Idle 1 0 ?m2 ([''a''], [])" None]
    by (simp add: solo_def slow_mid_def slow_pending)
  from 1 2 3 4 5 6 show ?thesis by (meson rtranclp.rtrancl_into_rtrancl rtranclp.rtrancl_refl)
qed

lemma slow_second: "slow_steps slow_mid slow_end"
proof -
  let ?S = "drain_step claim_leg mark_settled pending_legs (settle_one_leg sample_settle_env)"
  let ?m = "[slow_entry True (Some ''0xtx'') (Some 120000) ''a'', slow_entry False None (Some 120000) ''b'']"
  let ?x = "set_proc 0 \<lparr>dp_now = 0, dp_todo = [], dp_phase = Holding (slow_leg ''b''), dp_settled = 1, dp_failed = 0\<rparr> (slow_mid\<lparr>dr_store := ?m\<rparr>)"
  have "?S slow_mid ?x"
    using drain_step.Claim [of 0 slow_mid _ "slow_leg ''b''" "[]" claim_leg ?m, OF _ refl]
    by (simp add: slow_mid_def set_proc_def slow_id slow_claims claim_lease_ms_def)
  moreover have "?S ?x slow_end"
    using drain_step.Claim [of 1 ?x _ "slow_leg ''b''" "[]" claim_leg "dr_store slow_end", OF _ refl]
    by (simp add: slow_mid_def slow_end_def set_proc_def slow_id slow_claims claim_lease_ms_def fresh_proc_def)
  ultimately show ?thesis by (meson rtranclp.rtrancl_into_rtrancl rtranclp.rtrancl_refl)
qed

section \<open>Properties\<close>

text \<open>The function is the step relation run alone. A drain that ends without an exception is a start of a
  pass and steps of that pass only, from the store, chain and nonces it was given to those it leaves, with the
  counts it reports; so what holds of every interleaving of steps holds of the function.\<close>

theorem drain_is_a_run:
  assumes "drain_pending_legs E scope now st = (\<lparr>dn_settled = n, dn_failed = f, dn_threw = False\<rparr>, st')"
  shows "drain_steps claim_leg mark_settled pending_legs (settle_one_leg E)
    \<lparr>dr_clock = now, dr_store = st_sink st, dr_world = (st_chain st, st_nonces st), dr_procs = ps\<rparr>
    \<lparr>dr_clock = now, dr_store = st_sink st', dr_world = (st_chain st', st_nonces st'),
      dr_procs = ps @ [\<lparr>dp_now = now, dp_todo = [], dp_phase = Idle, dp_settled = n, dp_failed = f\<rparr>]\<rparr>"
proof -
  let ?d = "\<lparr>dr_clock = now, dr_store = st_sink st, dr_world = (st_chain st, st_nonces st), dr_procs = ps\<rparr>"
  let ?ls = "pending_legs now scope (st_sink st)" and ?ps = "ps @ [undefined]"
  obtain m c w where d: "drain_loop (Some claim_leg) mark_settled (settle_one_leg E now) now ?ls (st_sink st) (st_chain st, st_nonces st) 0 0 =
      (\<lparr>dn_settled = n, dn_failed = f, dn_threw = False\<rparr>, m, c, w)" "st' = st\<lparr>st_sink := m, st_chain := c, st_nonces := w\<rparr>"
    using assms by (auto simp: drain_pending_legs_def split: prod.splits)
  have "drain_step claim_leg mark_settled pending_legs (settle_one_leg E) ?d
      (solo now ?ps (length ps) now ?ls Idle 0 0 (st_sink st) (st_chain st, st_nonces st))"
    using drain_step.Start [of claim_leg mark_settled pending_legs "settle_one_leg E" ?d scope] by (simp add: solo_def fresh_proc_def)
  moreover have "drain_steps claim_leg mark_settled pending_legs (settle_one_leg E)
      (solo now ?ps (length ps) now ?ls Idle 0 0 (st_sink st) (st_chain st, st_nonces st)) (solo now ?ps (length ps) now [] Idle n f m (c, w))"
    by (rule solo_run [where sett = "settle_one_leg E", OF d(1)]) simp
  ultimately have "drain_steps claim_leg mark_settled pending_legs (settle_one_leg E) ?d (solo now ?ps (length ps) now [] Idle n f m (c, w))"
    by (rule converse_rtranclp_into_rtranclp)
  then show ?thesis by (simp add: solo_def d(2))
qed

theorem drain_is_a_run_witness:
  "\<exists>d. drain_steps claim_leg mark_settled pending_legs (settle_one_leg sample_settle_env)
    (no_drains 10 (record_leg (toy_leg ''z'') []) ([], [])) d \<and> map dp_settled (dr_procs d) = [1]"
proof -
  have p: "pending_legs 10 None (record_leg (toy_leg ''z'') []) = [toy_leg ''z'']"
    by (simp add: pending_legs_def record_leg_def fresh_entry_def owed_def toy_leg_def)
  have "\<exists>w. settle_one_leg sample_settle_env 10 (toy_leg ''z'') ([], []) = (SettledAs ''0xtx'', w)"
    by (simp add: settle_one_leg_def sample_settle_env_def sample_facilitator_def sample_nonce_def toy_leg_def toy_leg_req_def
        leg_authorization_def json_prop_def json_field_def)
  then obtain w where w: "settle_one_leg sample_settle_env 10 (toy_leg ''z'') ([], []) = (SettledAs ''0xtx'', w)" by blast
  have "\<exists>st'. drain_pending_legs sample_settle_env None 10 (sample_rail\<lparr>st_sink := record_leg (toy_leg ''z'') []\<rparr>) =
      (\<lparr>dn_settled = 1, dn_failed = 0, dn_threw = False\<rparr>, st')"
    using w by (cases w) (simp add: drain_pending_legs_def p sample_rail_def, simp add: record_leg_def fresh_entry_def claim_leg_def mark_settled_def)
  then obtain st' where "drain_pending_legs sample_settle_env None 10 (sample_rail\<lparr>st_sink := record_leg (toy_leg ''z'') []\<rparr>) =
      (\<lparr>dn_settled = 1, dn_failed = 0, dn_threw = False\<rparr>, st')" by blast
  from drain_is_a_run [OF this, of "[]"] show ?thesis by (intro exI conjI, simp add: no_drains_def sample_rail_def) simp
qed

text \<open>C5: two passes never work on one leg within a lease. However the passes interleave and however the
  clock grows, two passes that have the same authorization in hand, claimed or already broadcast and not yet
  booked, started at clocks at least the claim lease apart.\<close>

theorem drains_exclusive:
  assumes "drain_steps claim_leg mark_settled pending_legs (settle_one_leg E) (no_drains t m w) d"
    and "j < length (dr_procs d)" "k < length (dr_procs d)" "j \<noteq> k" "holds (dr_procs d ! j) i" "holds (dr_procs d ! k) i"
  shows "claim_lease_ms \<le> \<bar>dp_now (dr_procs d ! j) - dp_now (dr_procs d ! k)\<bar>"
  by (rule memory_legs.lease_apart [OF memory_legs.lease_inv_steps [OF assms(1)] assms(2-6)])

theorem drains_exclusive_witness:
  "slow_steps (no_drains 0 slow_store ([], [])) slow_end \<and> claim_lease_ms \<le> \<bar>dp_now (dr_procs slow_end ! 0) - dp_now (dr_procs slow_end ! 1)\<bar>"
proof -
  have s: "slow_steps (no_drains 0 slow_store ([], [])) slow_end" by (rule rtranclp_trans [OF slow_first slow_second])
  from drains_exclusive [OF s, of 0 1 "''b''"] s show ?thesis by (simp add: slow_end_def slow_mid_def holds_def slow_id)
qed

text \<open>C37: every settled leg is counted once. Over any interleaving of any number of passes, the sum of the
  counts the passes report is the number of authorizations that became settled.\<close>

theorem settled_counted_once:
  assumes "drain_steps claim_leg mark_settled pending_legs (settle_one_leg E) (no_drains t m w) d"
  shows "sum_list (map dp_settled (dr_procs d)) + card {i. \<exists>l. ledger_of m i = Settled l} = card {i. \<exists>l. ledger_of (dr_store d) i = Settled l}"
proof -
  have "settled_ids (ledger_of m) \<subseteq> dom (map_of m)" by (auto simp: settled_ids_def ledger_Settled_iff)
  then have "finite (settled_ids (ledger_of m))" using finite_dom_map_of finite_subset by metis
  from memory_legs.settled_steps [OF assms this] show ?thesis by (simp add: settled_ids_def settled_by_def)
qed

theorem settled_counted_once_witness:
  "sum_list (map dp_settled (dr_procs slow_mid)) = 1 \<and> card {i. \<exists>l. ledger_of (dr_store slow_mid) i = Settled l} =
     Suc (card {i. \<exists>l. ledger_of slow_store i = Settled l})"
  using settled_counted_once [OF slow_first] by (simp add: slow_mid_def fresh_proc_def)

text \<open>A slow pass claims with a lease that is already over. A pass that reads the clock once and spends
  longer than the lease on its first leg claims its next leg for a time that has passed, so another pass that
  starts then is given the same leg and wins its claim at the very same instant: both hold it and both go on
  to broadcast it.\<close>

theorem slow_pass_shares_its_leg:
  "\<exists>d d'. drain_steps claim_leg mark_settled pending_legs (settle_one_leg sample_settle_env) (no_drains 0 slow_store ([], [])) d \<and>
     drain_steps claim_leg mark_settled pending_legs (settle_one_leg sample_settle_env) d d' \<and> dr_clock d = dr_clock d' \<and>
     map (\<lambda>p. holds p ''b'') (dr_procs d) = [False, False] \<and> map dp_phase (dr_procs d') = [Holding (slow_leg ''b''), Holding (slow_leg ''b'')]"
proof (intro exI conjI)
  show "map (\<lambda>p. holds p ''b'') (dr_procs slow_mid) = [False, False]" by (simp add: slow_mid_def holds_def fresh_proc_def)
  show "map dp_phase (dr_procs slow_end) = [Holding (slow_leg ''b''), Holding (slow_leg ''b'')]" by (simp add: slow_end_def)
  show "dr_clock slow_mid = dr_clock slow_end" by (simp add: slow_end_def)
qed (rule slow_first slow_second)+

end
