(* ===== verification/RateLimit.thy ===== *)
theory RateLimit
  imports Naulon_Prelude
begin

text \<open>
  The token-bucket limiter (\<open>packages/shared/src/rateLimitCore.ts\<close>), who a request is from
  (\<open>packages/shared/src/clientIdentity.ts\<close>) and the gate's middleware over both
  (\<open>packages/tollgate/src/rateLimit.ts\<close>). Times are milliseconds; tokens are exact rationals. The
  limiter implements one level per client, as long as no bucket has to be evicted.
\<close>

section \<open>The limiter\<close>

record rate_options =
  ro_rpm :: int
  ro_burst :: int
  ro_max :: int

record bucket =
  bk_tokens :: rat
  bk_last :: int

record rate_verdict =
  rv_allowed :: bool
  rv_retry :: int

record limiter =
  rl_buckets :: "(string, bucket) js_map"
  rl_swept :: int

definition bucket_sweep_ms :: int where "bucket_sweep_ms = 60000"

definition max_buckets :: int where "max_buckets = 50000"

definition limiter_enabled :: "rate_options \<Rightarrow> bool" where
  "limiter_enabled r \<longleftrightarrow> 0 < ro_rpm r"

definition refill_per_ms :: "rate_options \<Rightarrow> rat" where
  "refill_per_ms r = of_int (ro_rpm r) / 60000"

definition fresh_limiter :: limiter where
  "fresh_limiter = \<lparr>rl_buckets = [], rl_swept = 0\<rparr>"

definition sweep_buckets :: "rate_options \<Rightarrow> int \<Rightarrow> (string, bucket) js_map \<Rightarrow> (string, bucket) js_map" where
  "sweep_buckets r t bs = filter (\<lambda>(k, b). \<not> of_int (ro_burst r) / refill_per_ms r < of_int (t - bk_last b)) bs"

definition tokens_at :: "rate_options \<Rightarrow> bucket \<Rightarrow> int \<Rightarrow> rat" where
  "tokens_at r b t = min (of_int (ro_burst r)) (bk_tokens b + of_int (t - bk_last b) * refill_per_ms r)"

definition allow :: rate_verdict where
  "allow = \<lparr>rv_allowed = True, rv_retry = 0\<rparr>"

definition refuse_for :: "rate_options \<Rightarrow> rat \<Rightarrow> rate_verdict" where
  "refuse_for r tokens = \<lparr>rv_allowed = False, rv_retry = \<lceil>(1 - tokens) / refill_per_ms r / 1000\<rceil>\<rparr>"

definition peek_token :: "rate_options \<Rightarrow> string \<Rightarrow> int \<Rightarrow> limiter \<Rightarrow> rate_verdict" where
  "peek_token r key t L =
     (if \<not> limiter_enabled r then allow
      else (case map_of (rl_buckets L) key of
          None \<Rightarrow> allow
        | Some b \<Rightarrow> if 1 \<le> tokens_at r b t then allow else refuse_for r (tokens_at r b t)))"

text \<open>The oldest entries go until there is room.\<close>

fun evict_oldest :: "int \<Rightarrow> 'a list \<Rightarrow> 'a list" where
  "evict_oldest n [] = []"
| "evict_oldest n (x # xs) = (if n \<le> int (length (x # xs)) then evict_oldest n xs else x # xs)"

definition make_room :: "rate_options \<Rightarrow> int \<Rightarrow> (string, bucket) js_map \<Rightarrow> (string, bucket) js_map" where
  "make_room r t bs = (if ro_max r \<le> int (length bs) then evict_oldest (ro_max r) (sweep_buckets r t bs) else bs)"

definition swept_limiter :: "rate_options \<Rightarrow> int \<Rightarrow> limiter \<Rightarrow> limiter" where
  "swept_limiter r t L =
     (if bucket_sweep_ms < t - rl_swept L then \<lparr>rl_buckets = sweep_buckets r t (rl_buckets L), rl_swept = t\<rparr> else L)"

definition take_token :: "rate_options \<Rightarrow> string \<Rightarrow> int \<Rightarrow> limiter \<Rightarrow> rate_verdict \<times> limiter" where
  "take_token r key t L0 =
     (if \<not> limiter_enabled r then (allow, L0)
      else (let L = swept_limiter r t L0;
                (b, bs) = (case map_of (rl_buckets L) key of
                    Some b \<Rightarrow> (b, rl_buckets L)
                  | None \<Rightarrow> (\<lparr>bk_tokens = of_int (ro_burst r), bk_last = t\<rparr>, make_room r t (rl_buckets L)));
                tokens = tokens_at r b t
            in if 1 \<le> tokens then (allow, L\<lparr>rl_buckets := AList.update key \<lparr>bk_tokens = tokens - 1, bk_last = t\<rparr> bs\<rparr>)
               else (refuse_for r tokens, L\<lparr>rl_buckets := AList.update key \<lparr>bk_tokens = tokens, bk_last = t\<rparr> bs\<rparr>)))"

section \<open>Who a request is from\<close>

datatype client_identity = KnownClient string bool | UnknownClient

definition xff_entries :: "string \<Rightarrow> string list" where
  "xff_entries xff = filter (\<lambda>e. e \<noteq> []) (map js_trim (js_split CHR '','' xff))"

definition forwarded_for :: "string \<Rightarrow> int \<Rightarrow> string option" where
  "forwarded_for xff hops = (let es = xff_entries xff; i = max 0 (int (length es) - hops) in
     if es = [] then None else if i < int (length es) then Some (es ! nat i) else None)"

text \<open>\<open>KnownClient key forwarded\<close>; an empty header or peer is absent, as in the source.\<close>

definition resolve_client_identity :: "string option \<Rightarrow> string option \<Rightarrow> bool \<Rightarrow> int \<Rightarrow> client_identity" where
  "resolve_client_identity xff peer trustProxy hops =
     (let forwarded = (case xff of None \<Rightarrow> None | Some [] \<Rightarrow> None | Some x \<Rightarrow> forwarded_for x (max 1 hops)) in
      case (if trustProxy then forwarded else None) of
        Some k \<Rightarrow> KnownClient k True
      | None \<Rightarrow> (case peer of
          Some (c # cs) \<Rightarrow> KnownClient (c # cs) False
        | _ \<Rightarrow> (case forwarded of Some k \<Rightarrow> KnownClient k True | None \<Rightarrow> UnknownClient)))"

definition caller_ip :: "(string \<Rightarrow> string option) \<Rightarrow> string option \<Rightarrow> string option \<Rightarrow> bool \<Rightarrow> int \<Rightarrow> string option" where
  "caller_ip headers header peer trustProxy hops =
     (let plain = (case resolve_client_identity (headers ''x-forwarded-for'') peer trustProxy hops of
            KnownClient k f \<Rightarrow> Some k | UnknownClient \<Rightarrow> None);
          nonempty = (\<lambda>v. case v of Some (c # cs) \<Rightarrow> Some (c # cs) | _ \<Rightarrow> None)
      in case nonempty header of
        None \<Rightarrow> plain
      | Some h \<Rightarrow>
          (case (if h = ''cf-connecting-ip'' then nonempty (map_option js_trim (headers ''cf-connecting-ipv6'')) else None) of
             Some v6 \<Rightarrow> Some v6
           | None \<Rightarrow> nonempty (map_option (\<lambda>v. js_trim (hd (js_split CHR '','' v))) (headers h))))"

section \<open>The gate's middleware\<close>

datatype limited = Passed | TooMany int

definition rate_limit ::
    "rate_options \<Rightarrow> bool \<Rightarrow> int \<Rightarrow> (string \<Rightarrow> bool) option \<Rightarrow> string \<Rightarrow> string option \<Rightarrow> string option \<Rightarrow> int \<Rightarrow> limiter \<Rightarrow> limited \<times> limiter" where
  "rate_limit r trustProxy hops skipHost host xff peer t L =
     (if \<not> limiter_enabled r then (Passed, L)
      else if (case skipHost of None \<Rightarrow> False | Some f \<Rightarrow> f host) then (Passed, L)
      else (case resolve_client_identity xff peer trustProxy hops of
          UnknownClient \<Rightarrow> (Passed, L)
        | KnownClient key f \<Rightarrow> (case take_token r key t L of
            (v, L') \<Rightarrow> (if rv_allowed v then Passed else TooMany (max 1 (rv_retry v)), L'))))"

section \<open>Lemmas\<close>

text \<open>Buckets as they occur: one per key, never in the future, never over the capacity or in debt.\<close>

definition limiter_ok :: "rate_options \<Rightarrow> int \<Rightarrow> limiter \<Rightarrow> bool" where
  "limiter_ok r now L \<longleftrightarrow> distinct (map fst (rl_buckets L)) \<and>
     (\<forall>(k, b) \<in> set (rl_buckets L). bk_last b \<le> now \<and> 0 \<le> bk_tokens b \<and> bk_tokens b \<le> of_int (ro_burst r))"

text \<open>The abstract state: what a client may spend at a time. A client without a bucket has a full one.\<close>

definition client_level :: "rate_options \<Rightarrow> limiter \<Rightarrow> string \<Rightarrow> int \<Rightarrow> rat" where
  "client_level r L k t = (case map_of (rl_buckets L) k of None \<Rightarrow> of_int (ro_burst r) | Some b \<Rightarrow> tokens_at r b t)"

definition refilled :: "rate_options \<Rightarrow> rat \<Rightarrow> int \<Rightarrow> rat" where
  "refilled r x d = min (of_int (ro_burst r)) (x + of_int d * refill_per_ms r)"

definition level_verdict :: "rate_options \<Rightarrow> rat \<Rightarrow> rate_verdict" where
  "level_verdict r x = (if 1 \<le> x then allow else refuse_for r x)"

definition level_after :: "rat \<Rightarrow> rat" where
  "level_after x = (if 1 \<le> x then x - 1 else x)"

lemma refill_pos: "limiter_enabled r \<Longrightarrow> 0 < refill_per_ms r"
  by (simp add: limiter_enabled_def refill_per_ms_def)

lemma tokens_later:
  assumes "limiter_enabled r" "t \<le> t'"
  shows "tokens_at r b t' = refilled r (tokens_at r b t) (t' - t)"
proof -
  have "0 \<le> of_int (t' - t) * refill_per_ms r" using refill_pos [OF assms(1)] assms(2) by (intro mult_nonneg_nonneg) simp_all
  moreover have "of_int (t' - bk_last b) * refill_per_ms r = of_int (t - bk_last b) * refill_per_ms r + of_int (t' - t) * refill_per_ms r"
    by (simp add: algebra_simps)
  ultimately show ?thesis unfolding tokens_at_def refilled_def by linarith
qed

lemma tokens_full:
  assumes "limiter_enabled r" "0 \<le> bk_tokens b" "of_int (ro_burst r) / refill_per_ms r < of_int (t - bk_last b)" "t \<le> t'"
  shows "tokens_at r b t' = of_int (ro_burst r)"
proof -
  have p: "0 < refill_per_ms r" by (rule refill_pos [OF assms(1)])
  have "of_int (ro_burst r) < of_int (t - bk_last b) * refill_per_ms r" using assms(3) p by (simp only: pos_divide_less_eq)
  also have "\<dots> \<le> of_int (t' - bk_last b) * refill_per_ms r" using assms(4) p by (intro mult_right_mono) simp_all
  finally show ?thesis using assms(2) unfolding tokens_at_def by linarith
qed

lemma limiter_okD:
  assumes "limiter_ok r now L" "map_of (rl_buckets L) k = Some b"
  shows "bk_last b \<le> now \<and> 0 \<le> bk_tokens b \<and> bk_tokens b \<le> of_int (ro_burst r)"
  using assms map_of_SomeD [OF assms(2)] unfolding limiter_ok_def by fastforce

lemma map_of_sweep_buckets:
  assumes "distinct (map fst bs)"
  shows "map_of (sweep_buckets r t bs) k = (case map_of bs k of None \<Rightarrow> None
    | Some b \<Rightarrow> if of_int (ro_burst r) / refill_per_ms r < of_int (t - bk_last b) then None else Some b)"
proof (cases "map_of bs k")
  case None
  then have "k \<notin> fst ` set (sweep_buckets r t bs)" by (auto simp: sweep_buckets_def map_of_eq_None_iff)
  then have "map_of (sweep_buckets r t bs) k = None" by (simp add: map_of_eq_None_iff)
  then show ?thesis unfolding None by simp
next
  case (Some b)
  have "distinct (map fst (sweep_buckets r t bs))" using assms by (simp add: sweep_buckets_def distinct_map_filter)
  moreover have "(k, b) \<in> set (sweep_buckets r t bs) \<longleftrightarrow> \<not> of_int (ro_burst r) / refill_per_ms r < of_int (t - bk_last b)"
    using map_of_SomeD [OF Some] by (simp add: sweep_buckets_def)
  moreover have "k \<notin> fst ` set (sweep_buckets r t bs)" if "of_int (ro_burst r) / refill_per_ms r < of_int (t - bk_last b)"
  proof
    assume "k \<in> fst ` set (sweep_buckets r t bs)"
    then obtain b' where b': "(k, b') \<in> set bs" "(k, b') \<in> set (sweep_buckets r t bs)" by (auto simp: sweep_buckets_def)
    with assms Some have "b' = b" by (metis map_of_is_SomeI option.inject)
    with b' that show False by (simp add: sweep_buckets_def)
  qed
  ultimately show ?thesis using Some by (auto simp: map_of_eq_None_iff intro: map_of_is_SomeI)
qed

lemma sweep_level:
  assumes "limiter_enabled r" "limiter_ok r t L" "t \<le> t'"
  shows "client_level r (L\<lparr>rl_buckets := sweep_buckets r t (rl_buckets L)\<rparr>) k t' = client_level r L k t'"
proof (cases "map_of (rl_buckets L) k")
  case None
  then show ?thesis using assms(2) by (simp add: client_level_def map_of_sweep_buckets limiter_ok_def)
next
  case (Some b)
  with limiter_okD [OF assms(2) Some] tokens_full [OF assms(1) _ _ assms(3)] assms(2)
  show ?thesis by (simp add: client_level_def map_of_sweep_buckets limiter_ok_def)
qed

lemma sweep_ok: "limiter_ok r t L \<Longrightarrow> limiter_ok r t (L\<lparr>rl_buckets := sweep_buckets r t (rl_buckets L)\<rparr>)"
  by (auto simp: limiter_ok_def sweep_buckets_def distinct_map_filter)

lemma swept_limiter_facts:
  assumes "limiter_enabled r" "limiter_ok r t L"
  shows "limiter_ok r t (swept_limiter r t L)" "t \<le> t' \<Longrightarrow> client_level r (swept_limiter r t L) k t' = client_level r L k t'"
    "fst ` set (rl_buckets (swept_limiter r t L)) \<subseteq> fst ` set (rl_buckets L)"
proof -
  have e: "client_level r (M\<lparr>rl_swept := s\<rparr>) k t' = client_level r M k t'" "limiter_ok r t (M\<lparr>rl_swept := s\<rparr>) = limiter_ok r t M" for M s
    by (simp_all add: client_level_def limiter_ok_def)
  have s: "swept_limiter r t L = (if bucket_sweep_ms < t - rl_swept L then (L\<lparr>rl_buckets := sweep_buckets r t (rl_buckets L)\<rparr>)\<lparr>rl_swept := t\<rparr> else L)"
    by (simp add: swept_limiter_def)
  show "limiter_ok r t (swept_limiter r t L)" "t \<le> t' \<Longrightarrow> client_level r (swept_limiter r t L) k t' = client_level r L k t'"
    unfolding s using assms sweep_ok sweep_level by (simp_all add: e)
  show "fst ` set (rl_buckets (swept_limiter r t L)) \<subseteq> fst ` set (rl_buckets L)" by (auto simp: swept_limiter_def sweep_buckets_def)
qed

lemma evict_oldest_suffix: "suffix (evict_oldest n xs) xs"
proof (induction xs)
  case (Cons x xs)
  then have "suffix (evict_oldest n xs) (x # xs)" by (rule suffix_ConsI)
  then show ?case by simp
qed simp

lemma evict_oldest_length: "evict_oldest n xs = [] \<or> int (length (evict_oldest n xs)) < n"
  by (induction xs) auto

lemma evict_oldest_id: "int (length xs) < n \<Longrightarrow> evict_oldest n xs = xs"
  by (cases xs) auto

lemma make_room_subset: "set (make_room r t bs) \<subseteq> set bs"
  using set_mono_suffix [OF evict_oldest_suffix [of "ro_max r" "sweep_buckets r t bs"]]
  by (auto simp: make_room_def sweep_buckets_def)

lemma make_room_distinct:
  assumes "distinct (map fst bs)"
  shows "distinct (map fst (make_room r t bs))"
proof -
  have "distinct (map fst (sweep_buckets r t bs))" using assms by (simp add: sweep_buckets_def distinct_map_filter)
  moreover have "distinct (map fst ys) \<Longrightarrow> distinct (map fst xs)" if "suffix xs ys" for xs ys :: "(string \<times> bucket) list"
    using that by (auto simp: suffix_def)
  ultimately show ?thesis using assms evict_oldest_suffix [of "ro_max r" "sweep_buckets r t bs"] by (simp add: make_room_def)
qed

lemma make_room_length: "make_room r t bs = [] \<or> int (length (make_room r t bs)) < ro_max r"
  using evict_oldest_length [of "ro_max r" "sweep_buckets r t bs"] by (auto simp: make_room_def)
text \<open>What a spend does to the abstract state. \<open>K\<close> bounds the clients there are.\<close>

lemma take_token_level:
  assumes en: "limiter_enabled r" and ok: "limiter_ok r t L" and burst: "0 \<le> ro_burst r"
    and K: "fst ` set (rl_buckets L) \<subseteq> K" "finite K" "int (card K) \<le> ro_max r" "k \<in> K"
    and take: "take_token r k t L = (v, L')"
  shows "v = level_verdict r (client_level r L k t) \<and> limiter_ok r t L' \<and> fst ` set (rl_buckets L') \<subseteq> K \<and>
    (\<forall>t' \<ge> t. client_level r L' k t' = refilled r (level_after (client_level r L k t)) (t' - t)) \<and>
    (\<forall>k' t'. k' \<noteq> k \<longrightarrow> t \<le> t' \<longrightarrow> client_level r L' k' t' = client_level r L k' t')"
proof -
  let ?M = "swept_limiter r t L" and ?cap = "of_int (ro_burst r) :: rat"
  note M = swept_limiter_facts [OF en ok]
  define b bs where bb: "b = (case map_of (rl_buckets ?M) k of Some b \<Rightarrow> b | None \<Rightarrow> \<lparr>bk_tokens = ?cap, bk_last = t\<rparr>)"
    "bs = (case map_of (rl_buckets ?M) k of Some b \<Rightarrow> rl_buckets ?M | None \<Rightarrow> make_room r t (rl_buckets ?M))"
  have bs: "bs = rl_buckets ?M"
  proof (cases "map_of (rl_buckets ?M) k")
    case None
    then have "fst ` set (rl_buckets ?M) \<subseteq> K - {k}" using M(3) K(1) by (auto simp: map_of_eq_None_iff)
    then have "card (fst ` set (rl_buckets ?M)) \<le> card (K - {k})" using K(2) by (intro card_mono) auto
    also have "\<dots> < card K" using K(2,4) by (rule card_Diff1_less)
    finally have "int (length (rl_buckets ?M)) < ro_max r"
      using M(1) K(3) distinct_card [of "map fst (rl_buckets ?M)"] by (simp add: limiter_ok_def)
    with None show ?thesis by (simp add: bb make_room_def)
  qed (simp add: bb)
  have pair: "(case map_of (rl_buckets ?M) k of Some b \<Rightarrow> (b, rl_buckets ?M) | None \<Rightarrow> (\<lparr>bk_tokens = ?cap, bk_last = t\<rparr>, make_room r t (rl_buckets ?M))) = (b, bs)"
    by (simp add: bb split: option.split)
  have lev: "tokens_at r b t = client_level r L k t"
    using M(2) [of t k] by (cases "map_of (rl_buckets ?M) k") (simp_all add: bb client_level_def tokens_at_def)
  let ?x = "client_level r L k t"
  have b01: "bk_last b \<le> t \<and> 0 \<le> bk_tokens b"
    using limiter_okD [OF M(1)] burst by (cases "map_of (rl_buckets ?M) k") (simp_all add: bb)
  have x: "0 \<le> ?x \<and> ?x \<le> ?cap"
    using b01 burst refill_pos [OF en] unfolding lev [symmetric] tokens_at_def by (auto intro!: add_nonneg_nonneg mult_nonneg_nonneg)
  let ?b = "\<lparr>bk_tokens = level_after ?x, bk_last = t\<rparr>"
  have L': "v = level_verdict r ?x \<and> L' = ?M\<lparr>rl_buckets := AList.update k ?b (rl_buckets ?M)\<rparr>"
    using take en unfolding take_token_def Let_def pair prod.case lev
    by (auto simp: bs level_verdict_def level_after_def split: if_splits)
  have la: "0 \<le> level_after ?x \<and> level_after ?x \<le> ?cap" using x by (simp add: level_after_def)
  have d: "distinct (map fst (rl_buckets L'))" using M(1) L' by (simp add: limiter_ok_def distinct_update)
  have "limiter_ok r t L'"
  proof -
    have "bk_last c \<le> t \<and> 0 \<le> bk_tokens c \<and> bk_tokens c \<le> ?cap" if c: "(i, c) \<in> set (rl_buckets L')" for i c
    proof -
      have "map_of (rl_buckets L') i = Some c" using d c by (rule map_of_is_SomeI)
      then have "c = ?b \<or> map_of (rl_buckets ?M) i = Some c" using L' by (auto simp: map_of_update split: if_splits)
      with la limiter_okD [OF M(1)] show ?thesis by auto
    qed
    with d show ?thesis by (auto simp: limiter_ok_def)
  qed
  moreover have "fst ` set (rl_buckets L') \<subseteq> K" using L' M(3) K(1,4) by (auto simp: keys_update)
  moreover have "client_level r L' k t' = refilled r (level_after ?x) (t' - t)" for t'
    using L' by (simp add: client_level_def map_of_update tokens_at_def refilled_def)
  moreover have "client_level r L' k' t' = client_level r L k' t'" if "k' \<noteq> k" "t \<le> t'" for k' t'
    using L' M(2) [OF that(2)] that(1) by (simp add: client_level_def map_of_update)
  ultimately show ?thesis using L' by blast
qed

lemma level_later:
  assumes "limiter_enabled r" "t \<le> t'"
  shows "client_level r L k t' = refilled r (client_level r L k t) (t' - t)"
  using tokens_later [OF assms] refill_pos [OF assms(1)] assms(2)
  by (auto simp: client_level_def refilled_def min_def mult_nonneg_nonneg split: option.split)

section \<open>Runs\<close>

fun take_all :: "rate_options \<Rightarrow> (int \<times> string) list \<Rightarrow> limiter \<Rightarrow> rate_verdict list \<times> limiter" where
  "take_all r [] L = ([], L)"
| "take_all r ((t, k) # xs) L = (case take_token r k t L of (v, L1) \<Rightarrow> apfst (Cons v) (take_all r xs L1))"

text \<open>The answers one client got in a run.\<close>

fun answers_to :: "string \<Rightarrow> (int \<times> string) list \<Rightarrow> rate_verdict list \<Rightarrow> rate_verdict list" where
  "answers_to k ((t, k') # xs) (v # vs) = (if k' = k then v # answers_to k xs vs else answers_to k xs vs)"
| "answers_to k xs vs = []"

lemma take_all_append: "take_all r (xs @ ys) L = (case take_all r xs L of (vs, L1) \<Rightarrow> apfst (append vs) (take_all r ys L1))"
  by (induction r xs L rule: take_all.induct) (auto simp: prod_eq_iff split: prod.splits)

lemma take_all_length: "length (fst (take_all r xs L)) = length xs"
  by (induction r xs L rule: take_all.induct) (auto split: prod.splits)

lemma limiter_ok_later: "limiter_ok r t L \<Longrightarrow> t \<le> t' \<Longrightarrow> limiter_ok r t' L"
  by (fastforce simp: limiter_ok_def)

lemma take_all_ok:
  assumes "limiter_enabled r" "0 \<le> ro_burst r" "finite K" "int (card K) \<le> ro_max r"
    and "limiter_ok r now L" "fst ` set (rl_buckets L) \<subseteq> K" "sorted (now # map fst xs)" "snd ` set xs \<subseteq> K" "\<forall>x \<in> set xs. fst x \<le> t'" "now \<le> t'"
  shows "limiter_ok r t' (snd (take_all r xs L)) \<and> fst ` set (rl_buckets (snd (take_all r xs L))) \<subseteq> K"
  using assms(5-10)
proof (induction xs arbitrary: now L)
  case Nil
  then show ?case using limiter_ok_later by auto
next
  case (Cons x xs)
  obtain t k where x: "x = (t, k)" by fastforce
  obtain v L1 where v: "take_token r k t L = (v, L1)" by fastforce
  have "limiter_ok r t L" using Cons.prems(1,3) x limiter_ok_later by auto
  from take_token_level [OF assms(1) this assms(2) Cons.prems(2) assms(3,4) _ v] Cons.prems(4) x
  have "limiter_ok r t L1" "fst ` set (rl_buckets L1) \<subseteq> K" by auto
  from Cons.IH [OF this] Cons.prems x v show ?case by simp
qed

lemma answers_alone:
  assumes "limiter_enabled r" "0 \<le> ro_burst r" "finite K" "int (card K) \<le> ro_max r"
    and "limiter_ok r now L" "fst ` set (rl_buckets L) \<subseteq> K" "limiter_ok r now M" "fst ` set (rl_buckets M) \<subseteq> K"
    and "sorted (now # map fst xs)" "snd ` set xs \<subseteq> K" "\<forall>t \<ge> now. client_level r L k t = client_level r M k t"
  shows "answers_to k xs (fst (take_all r xs L)) = fst (take_all r (filter (\<lambda>(t, k'). k' = k) xs) M)"
  using assms(5-11)
proof (induction xs arbitrary: now L M)
  case (Cons x xs)
  obtain t k' where x: "x = (t, k')" by fastforce
  obtain v L1 where v: "take_token r k' t L = (v, L1)" by fastforce
  have le: "now \<le> t" and in_K: "k' \<in> K" using Cons.prems(5,6) x by auto
  have L: "limiter_ok r t L" and M: "limiter_ok r t M" using Cons.prems(1,3) le limiter_ok_later by auto
  note step = take_token_level [OF assms(1) L assms(2) Cons.prems(2) assms(3,4) in_K v]
  have rest: "sorted (t # map fst xs)" "snd ` set xs \<subseteq> K" using Cons.prems(5,6) x by auto
  show ?case
  proof (cases "k' = k")
    case True
    obtain v' M1 where v': "take_token r k' t M = (v', M1)" by fastforce
    note step' = take_token_level [OF assms(1) M assms(2) Cons.prems(4) assms(3,4) in_K v']
    have "client_level r L k t = client_level r M k t" using Cons.prems(7) le by blast
    then have "v = v'" "\<forall>t' \<ge> t. client_level r L1 k t' = client_level r M1 k t'" using step step' True by auto
    with Cons.IH [of t L1 M1] step step' rest x v v' True show ?thesis by (simp add: case_prod_beta)
  next
    case False
    then have "\<forall>t' \<ge> t. client_level r L1 k t' = client_level r M k t'" using step Cons.prems(7) le by auto
    with Cons.IH [of t L1 M] step M Cons.prems(4) rest x v False show ?thesis by (simp add: case_prod_beta)
  qed
qed simp

lemma refilled_le: "refilled r x d \<le> x + of_int d * refill_per_ms r"
  by (simp add: refilled_def)

lemma allowed_le:
  assumes "limiter_enabled r" "0 \<le> ro_burst r" "finite K" "int (card K) \<le> ro_max r"
    and "limiter_ok r now L" "fst ` set (rl_buckets L) \<subseteq> K" "sorted (now # map fst xs)" "snd ` set xs \<subseteq> K" "\<forall>x \<in> set xs. fst x \<le> t'" "now \<le> t'"
  shows "rat_of_nat (length (filter rv_allowed (answers_to k xs (fst (take_all r xs L))))) \<le>
    client_level r L k now + of_int (t' - now) * refill_per_ms r"
  using assms(5-10)
proof (induction xs arbitrary: now L)
  case Nil
  have "0 \<le> client_level r L k now"
    using limiter_okD [OF Nil.prems(1), of k] assms(2) refill_pos [OF assms(1)]
    by (auto simp: client_level_def tokens_at_def intro!: add_nonneg_nonneg mult_nonneg_nonneg split: option.split)
  moreover have "0 \<le> of_int (t' - now) * refill_per_ms r" using Nil.prems(6) refill_pos [OF assms(1)] by (intro mult_nonneg_nonneg) simp_all
  ultimately show ?case by simp
next
  case (Cons x xs)
  obtain t k' where x: "x = (t, k')" by fastforce
  obtain v L1 where v: "take_token r k' t L = (v, L1)" by fastforce
  have le: "now \<le> t" "t \<le> t'" and in_K: "k' \<in> K" using Cons.prems(3,4,5) x by auto
  have L: "limiter_ok r t L" using Cons.prems(1) le limiter_ok_later by auto
  note step = take_token_level [OF assms(1) L assms(2) Cons.prems(2) assms(3,4) in_K v]
  let ?n = "rat_of_nat (length (filter rv_allowed (answers_to k xs (fst (take_all r xs L1)))))"
  have ih: "?n \<le> client_level r L1 k t + of_int (t' - t) * refill_per_ms r"
    using Cons.IH [of t L1] step Cons.prems x le by auto
  have now: "client_level r L k t \<le> client_level r L k now + of_int (t - now) * refill_per_ms r"
    unfolding level_later [OF assms(1) le(1)] by (rule refilled_le)
  have t: "of_int (t - now) * refill_per_ms r + of_int (t' - t) * refill_per_ms r = of_int (t' - now) * refill_per_ms r"
    by (simp add: algebra_simps)
  show ?case
  proof (cases "k' = k")
    case True
    have "client_level r L1 k t = refilled r (level_after (client_level r L k t)) 0" using step True by simp
    then have "client_level r L1 k t \<le> level_after (client_level r L k t)" by (simp add: refilled_def)
    with ih now t step True x v show ?thesis
      by (auto simp: case_prod_beta level_verdict_def level_after_def allow_def refuse_for_def split: if_splits)
  next
    case False
    then have "client_level r L1 k t = client_level r L k t" using step by simp
    with ih now t False x v show ?thesis by (simp add: case_prod_beta)
  qed
qed

lemma fresh_ok: "limiter_ok r t fresh_limiter" "rl_buckets fresh_limiter = []"
  by (simp_all add: limiter_ok_def fresh_limiter_def)

lemma make_room_keys: "k \<notin> fst ` set bs \<Longrightarrow> k \<notin> fst ` set (make_room r t bs)"
  using make_room_subset [of r t bs] by blast

lemma take_token_size:
  assumes "int (length (rl_buckets L)) \<le> max 1 (ro_max r)"
  shows "int (length (rl_buckets (snd (take_token r k t L)))) \<le> max 1 (ro_max r)"
proof -
  let ?bs = "rl_buckets (swept_limiter r t L)"
  have s: "int (length ?bs) \<le> max 1 (ro_max r)"
  proof -
    have "length ?bs \<le> length (rl_buckets L)" by (simp add: swept_limiter_def sweep_buckets_def)
    with assms show ?thesis by linarith
  qed
  have new: "int (length (AList.update k b ?bs)) \<le> max 1 (ro_max r)" if "map_of ?bs k = Some c" for b c
    using s that by (simp add: length_update) (metis map_of_SomeD fst_conv image_eqI)
  have old: "int (length (AList.update k b (make_room r t ?bs))) \<le> max 1 (ro_max r)" if n: "map_of ?bs k = None" for b
  proof -
    have "k \<notin> fst ` set (make_room r t ?bs)" using n make_room_keys by (simp add: map_of_eq_None_iff)
    then show ?thesis using make_room_length [of r t ?bs] by (auto simp: length_update)
  qed
  show ?thesis using assms new old by (cases "map_of ?bs k") (auto simp: take_token_def Let_def)
qed

lemma client_level_nonneg:
  assumes "limiter_enabled r" "0 \<le> ro_burst r" "limiter_ok r t L"
  shows "0 \<le> client_level r L k t"
  using limiter_okD [OF assms(3), of k] assms(2) refill_pos [OF assms(1)]
  by (auto simp: client_level_def tokens_at_def intro!: add_nonneg_nonneg mult_nonneg_nonneg split: option.split)

section \<open>Properties\<close>

text \<open>Nobody spends another client's allowance. While the number of clients stays within the bucket
  ceiling, the answers a client gets in any run of requests, sweeps included, are the answers it would get
  if it were alone.\<close>

theorem client_limited_alone:
  assumes "limiter_enabled r" "0 \<le> ro_burst r" "sorted (map fst xs)" "int (card (snd ` set xs)) \<le> ro_max r"
  shows "answers_to k xs (fst (take_all r xs fresh_limiter)) = fst (take_all r (filter (\<lambda>(t, k'). k' = k) xs) fresh_limiter)"
proof (cases xs)
  case (Cons x ys)
  show ?thesis
    by (rule answers_alone [where K = "snd ` set xs" and now = "fst x"]) (use assms Cons in \<open>auto simp: fresh_ok\<close>)
qed simp


text \<open>Memory stays bounded. However many clients ask, at whatever times, the limiter never holds more
  buckets than its ceiling (or one).\<close>

theorem buckets_bounded:
  "int (length (rl_buckets (snd (take_all r xs fresh_limiter)))) \<le> max 1 (ro_max r)"
proof -
  have "int (length (rl_buckets L)) \<le> max 1 (ro_max r) \<Longrightarrow> int (length (rl_buckets (snd (take_all r xs L)))) \<le> max 1 (ro_max r)" for L
  proof (induction xs arbitrary: L)
    case (Cons x xs)
    obtain t k where x: "x = (t, k)" by fastforce
    have "int (length (rl_buckets (snd (take_token r k t L)))) \<le> max 1 (ro_max r)" by (rule take_token_size [OF Cons.prems])
    from Cons.IH [OF this] show ?case by (simp add: x case_prod_beta)
  qed simp
  then show ?thesis by (simp add: fresh_ok)
qed

text \<open>The retry hint is exact. A client that was refused and told to wait a number of seconds is let
  through after exactly that long, if it asked nothing in between, and is still refused one second earlier.\<close>

theorem retry_after_exact:
  assumes "limiter_enabled r" "1 \<le> ro_burst r" "limiter_ok r t L" "take_token r k t L = (v, L')" "\<not> rv_allowed v"
  shows "rv_allowed (peek_token r k (t + 1000 * rv_retry v) L') \<and> \<not> rv_allowed (peek_token r k (t + 1000 * (rv_retry v - 1)) L') \<and> 1 \<le> rv_retry v"
proof -
  let ?x = "bk_tokens (the (map_of (rl_buckets L') k))" and ?q = "refill_per_ms r"
  have q: "0 < ?q" by (rule refill_pos [OF assms(1)])
  obtain b where b: "map_of (rl_buckets L') k = Some b" "bk_last b = t" "bk_tokens b < 1" "v = refuse_for r (bk_tokens b)"
    using assms(1,4,5) by (auto simp: take_token_def Let_def map_of_update allow_def split: option.splits if_splits)
  let ?n = "rv_retry v"
  have n: "?n = \<lceil>(1 - bk_tokens b) / ?q / 1000\<rceil>" using b(4) by (simp add: refuse_for_def)
  have pos: "0 < (1 - bk_tokens b) / ?q / 1000" using b(3) q by simp
  have "(1 - bk_tokens b) / ?q / 1000 \<le> of_int ?n" unfolding n by (rule le_of_int_ceiling)
  then have up: "1 - bk_tokens b \<le> of_int (1000 * ?n) * ?q" using q by (simp add: field_simps)
  have "of_int (?n - 1) < (1 - bk_tokens b) / ?q / 1000" unfolding n by (simp add: ceiling_correct)
  then have down: "of_int (1000 * (?n - 1)) * ?q < 1 - bk_tokens b" using q by (simp add: field_simps)
  have "1 \<le> ?n" unfolding n using pos by (simp add: one_le_ceiling)
  with up down b assms(1,2) show ?thesis
    by (auto simp: peek_token_def tokens_at_def allow_def refuse_for_def)
qed

lemma js_split_snoc: "js_split c (s @ c # t) = js_split c s @ js_split c t"
proof (induction s)
  case (Cons x s)
  then show ?case by (cases "js_split c s") (auto split: list.splits)
qed simp

lemma xff_entries_append: "xff_entries (s @ CHR '','' # t) = xff_entries s @ xff_entries t"
  by (simp add: xff_entries_def js_split_snoc)

lemma forwarded_for_nth:
  assumes "1 \<le> hops" "hops \<le> int (length (xff_entries s))"
  shows "forwarded_for s hops = Some (xff_entries s ! nat (int (length (xff_entries s)) - hops))"
  using assms by (auto simp: forwarded_for_def Let_def)

text \<open>A client cannot choose its bucket. Behind a trusted proxy that is as many hops deep as it was
  told, whatever a client writes in front of the trail leaves its identity the address the outermost trusted
  hop saw, which is the entry that many places from the right.\<close>

theorem forged_trail_ignored:
  assumes "1 \<le> hops" "hops \<le> int (length (xff_entries trail))"
  shows "resolve_client_identity (Some (forged @ CHR '','' # trail)) peer True hops =
    KnownClient (xff_entries trail ! nat (int (length (xff_entries trail)) - hops)) True"
proof -
  let ?s = "forged @ CHR '','' # trail" and ?n = "length (xff_entries trail)" and ?m = "length (xff_entries forged)"
  have "nat (int (?m + ?n) - hops) = ?m + nat (int ?n - hops)" using assms(2) by linarith
  then have "forwarded_for ?s hops = Some (xff_entries trail ! nat (int ?n - hops))"
    using forwarded_for_nth [of hops ?s] assms by (simp add: xff_entries_append nth_append)
  moreover have "(case ?s of [] \<Rightarrow> None | y # ys \<Rightarrow> forwarded_for ?s (max 1 hops)) = forwarded_for ?s hops"
    using assms(1) by (cases forged) (simp_all add: max_def)
  ultimately show ?thesis using assms(1) by (cases forged) (simp_all add: resolve_client_identity_def max_def)
qed

definition sample_rate :: rate_options where
  "sample_rate = \<lparr>ro_rpm = 60, ro_burst = 2, ro_max = 5\<rparr>"

theorem client_limited_alone_witness:
  "answers_to ''a'' [(0, ''a''), (1, ''b''), (2, ''a'')] (fst (take_all sample_rate [(0, ''a''), (1, ''b''), (2, ''a'')] fresh_limiter)) =
     fst (take_all sample_rate [(0, ''a''), (2, ''a'')] fresh_limiter)"
proof -
  have e: "filter (\<lambda>(t, k'). k' = ''a'') [(0::int, ''a''), (1, ''b''), (2, ''a'')] = [(0, ''a''), (2, ''a'')]" by simp
  show ?thesis
    unfolding e [symmetric] by (rule client_limited_alone) (simp_all add: sample_rate_def limiter_enabled_def card_insert_if)
qed


theorem forged_trail_ignored_witness:
  "resolve_client_identity (Some ''6.6.6.6,1.2.3.4'') None True 1 = KnownClient ''1.2.3.4'' True"
proof -
  have e: "xff_entries ''1.2.3.4'' = [''1.2.3.4'']" by code_simp
  from forged_trail_ignored [of 1 "''1.2.3.4''" "''6.6.6.6''" None] show ?thesis by (simp add: e)
qed

lemma sample_spent_bucket: "take_token sample_rate ''a'' 0 \<lparr>rl_buckets = [(''a'', \<lparr>bk_tokens = 0, bk_last = 0\<rparr>)], rl_swept = 0\<rparr> =
   (\<lparr>rv_allowed = False, rv_retry = 1\<rparr>, \<lparr>rl_buckets = [(''a'', \<lparr>bk_tokens = 0, bk_last = 0\<rparr>)], rl_swept = 0\<rparr>)"
  by (simp add: take_token_def limiter_enabled_def sample_rate_def swept_limiter_def bucket_sweep_ms_def tokens_at_def refuse_for_def refill_per_ms_def Let_def)

theorem retry_after_exact_witness:
  "rv_allowed (peek_token sample_rate ''a'' 1000 (snd (take_token sample_rate ''a'' 0
     \<lparr>rl_buckets = [(''a'', \<lparr>bk_tokens = 0, bk_last = 0\<rparr>)], rl_swept = 0\<rparr>)))"
proof -
  let ?L = "\<lparr>rl_buckets = [(''a'', \<lparr>bk_tokens = 0, bk_last = 0\<rparr>)], rl_swept = 0\<rparr>"
  have "limiter_enabled sample_rate" "1 \<le> ro_burst sample_rate" by (simp_all add: sample_rate_def limiter_enabled_def)
  moreover have "limiter_ok sample_rate 0 ?L" by (simp add: limiter_ok_def sample_rate_def)
  ultimately show ?thesis using retry_after_exact [OF _ _ _ sample_spent_bucket] unfolding sample_spent_bucket by simp
qed
end
