(* ===== verification/AuthThrottle.thy ===== *)
theory AuthThrottle
  imports RateLimit
begin

text \<open>
  The console's budget for failed sign-ins, \<open>packages/dashboard/src/authThrottle.ts\<close> with
  \<open>guess.ts\<close>: a check before the sign-in handler, a charge after it. The handler itself is the
  outcome it reports. A request is two events, so several may be in flight at once.
\<close>

section \<open>Model\<close>

record auth_request =
  aq_xff :: "string option"
  aq_peer :: "string option"
  aq_authorization :: "string option"
  aq_method :: string
  aq_path :: string
  aq_form_username :: json

text \<open>What the handlers behind the throttle answered and marked: the account signed in to, and a rejected
  guess with the account it named.\<close>

record auth_outcome =
  ao_status :: nat
  ao_signed_in :: "string option"
  ao_rejected :: "string option option"

record throttle_options =
  to_address :: rate_options
  to_account :: rate_options
  to_trust_proxy :: bool
  to_hops :: int
  to_decode :: "string \<Rightarrow> string"

record throttle =
  th_addresses :: limiter
  th_accounts :: limiter
  th_known :: "(string, string list) js_map"

definition account_fail_rpm :: int where "account_fail_rpm = 2"
definition account_fail_burst :: int where "account_fail_burst = 20"
definition known_addresses_per_account :: nat where "known_addresses_per_account = 20"
definition known_accounts :: nat where "known_accounts = 1000"
definition shared_unidentified_key :: string where "shared_unidentified_key = '' unidentified''"

definition fresh_throttle :: throttle where
  "fresh_throttle = \<lparr>th_addresses = fresh_limiter, th_accounts = fresh_limiter, th_known = []\<rparr>"

definition normalize_username :: "string \<Rightarrow> string" where
  "normalize_username raw = js_lower (js_trim raw)"

definition attempted_username :: "throttle_options \<Rightarrow> auth_request \<Rightarrow> string option" where
  "attempted_username T q =
     (case aq_authorization q of
        Some h \<Rightarrow> if prefix ''Basic '' h
          then (let decoded = to_decode T (drop 6 h); name = takeWhile (\<lambda>c. c \<noteq> CHR '':'') decoded in
            if name \<noteq> [] \<and> name \<noteq> decoded then Some (normalize_username name) else None)
          else if aq_method q = ''POST'' \<and> aq_path q = ''/login''
          then (case aq_form_username q of JString s \<Rightarrow> if js_trim s \<noteq> [] then Some (normalize_username s) else None | _ \<Rightarrow> None)
          else None
      | None \<Rightarrow> if aq_method q = ''POST'' \<and> aq_path q = ''/login''
          then (case aq_form_username q of JString s \<Rightarrow> if js_trim s \<noteq> [] then Some (normalize_username s) else None | _ \<Rightarrow> None)
          else None)"

text \<open>A name that normalises to nothing is no account.\<close>

definition named :: "string option \<Rightarrow> string option" where
  "named a = (case a of Some (c # cs) \<Rightarrow> Some (c # cs) | _ \<Rightarrow> None)"

definition is_known :: "throttle \<Rightarrow> string \<Rightarrow> string \<Rightarrow> bool" where
  "is_known S account address \<longleftrightarrow> (case map_of (th_known S) account of None \<Rightarrow> False | Some as \<Rightarrow> address \<in> set as)"

definition remember :: "string \<Rightarrow> string \<Rightarrow> throttle \<Rightarrow> throttle" where
  "remember account address S =
     (let old = (case map_of (th_known S) account of None \<Rightarrow> [] | Some as \<Rightarrow> as);
          added = removeAll address old @ [address];
          kept = (if length added > known_addresses_per_account then tl added else added);
          known = AList.delete account (th_known S) @ [(account, kept)]
      in S\<lparr>th_known := (if length known > known_accounts then tl known else known)\<rparr>)"

definition who_of :: "throttle_options \<Rightarrow> auth_request \<Rightarrow> client_identity" where
  "who_of T q = resolve_client_identity (aq_xff q) (aq_peer q) (to_trust_proxy T) (to_hops T)"

definition bucket_of :: "throttle_options \<Rightarrow> auth_request \<Rightarrow> string" where
  "bucket_of T q = (case who_of T q of KnownClient k f \<Rightarrow> k | UnknownClient \<Rightarrow> shared_unidentified_key)"

datatype auth_gate = Admitted | HeldAddress int | HeldAccount int

text \<open>The check, before the handlers.\<close>

definition auth_check :: "throttle_options \<Rightarrow> auth_request \<Rightarrow> int \<Rightarrow> throttle \<Rightarrow> auth_gate" where
  "auth_check T q t S =
     (if \<not> limiter_enabled (to_address T) then Admitted
      else (let key = bucket_of T q; budget = peek_token (to_address T) key t (th_addresses S) in
        if \<not> rv_allowed budget then HeldAddress (max 1 (rv_retry budget))
        else (case named (attempted_username T q) of
            None \<Rightarrow> Admitted
          | Some account \<Rightarrow>
              if limiter_enabled (to_account T) \<and> \<not> (who_of T q \<noteq> UnknownClient \<and> is_known S account key)
              then (let held = peek_token (to_account T) account t (th_accounts S) in
                if \<not> rv_allowed held then HeldAccount (max 1 (rv_retry held)) else Admitted)
              else Admitted)))"

definition basic_rejected :: "auth_request \<Rightarrow> auth_outcome \<Rightarrow> bool" where
  "basic_rejected q r \<longleftrightarrow> ao_status r = 401 \<and> named (aq_authorization q) \<noteq> None"

definition guess_rejected :: "auth_request \<Rightarrow> auth_outcome \<Rightarrow> bool" where
  "guess_rejected q r \<longleftrightarrow> basic_rejected q r \<or> ao_rejected r \<noteq> None"

definition guess_target :: "throttle_options \<Rightarrow> auth_request \<Rightarrow> auth_outcome \<Rightarrow> string option" where
  "guess_target T q r = named (case ao_rejected r of
     Some (Some a) \<Rightarrow> Some a
   | _ \<Rightarrow> if basic_rejected q r then attempted_username T q else None)"

text \<open>The bookkeeping, after them.\<close>

definition auth_settle :: "throttle_options \<Rightarrow> auth_request \<Rightarrow> auth_outcome \<Rightarrow> int \<Rightarrow> throttle \<Rightarrow> throttle" where
  "auth_settle T q r t S =
     (if \<not> limiter_enabled (to_address T) then S
      else (let key = bucket_of T q;
                S1 = (case named (ao_signed_in r) of
                    Some a \<Rightarrow> if who_of T q \<noteq> UnknownClient then remember (normalize_username a) key S else S
                  | None \<Rightarrow> S)
            in if \<not> guess_rejected q r then S1
               else (let S2 = S1\<lparr>th_addresses := snd (take_token (to_address T) key t (th_addresses S1))\<rparr> in
                 case guess_target T q r of
                   None \<Rightarrow> S2
                 | Some a \<Rightarrow> S2\<lparr>th_accounts := snd (take_token (to_account T) (normalize_username a) t (th_accounts S2))\<rparr>)))"

text \<open>Requests as they reach the throttle. \<open>Arrives\<close> is the check of one request, \<open>Leaves\<close> the bookkeeping
  of one that was let through.\<close>

datatype auth_event = Arrives auth_request int | Leaves auth_request auth_outcome int

fun auth_run :: "throttle_options \<Rightarrow> auth_event list \<Rightarrow> throttle \<Rightarrow> auth_gate list \<times> throttle" where
  "auth_run T [] S = ([], S)"
| "auth_run T (Arrives q t # es) S = apfst (Cons (auth_check T q t S)) (auth_run T es S)"
| "auth_run T (Leaves q r t # es) S = auth_run T es (auth_settle T q r t S)"

text \<open>One request after the other: a request that was held has no second event.\<close>

fun one_by_one :: "throttle_options \<Rightarrow> (auth_request \<times> auth_outcome \<times> int \<times> int) list \<Rightarrow> throttle \<Rightarrow> auth_gate list \<times> throttle" where
  "one_by_one T [] S = ([], S)"
| "one_by_one T ((q, r, t, t') # xs) S =
     (let g = auth_check T q t S in apfst (Cons g) (one_by_one T xs (if g = Admitted then auth_settle T q r t' S else S)))"

section \<open>Lemmas\<close>

lemma peek_level:
  assumes "limiter_enabled r" "1 \<le> ro_burst r"
  shows "rv_allowed (peek_token r k t L) \<longleftrightarrow> 1 \<le> client_level r L k t"
  using assms by (simp add: peek_token_def client_level_def allow_def refuse_for_def split: option.split)

lemma admitted_level:
  assumes "limiter_enabled (to_address T)" "1 \<le> ro_burst (to_address T)" "auth_check T q t S = Admitted"
  shows "1 \<le> client_level (to_address T) (th_addresses S) (bucket_of T q) t"
  using assms(3) peek_level [OF assms(1,2)] assms(1) by (simp add: auth_check_def Let_def split: if_splits)

lemma remember_addresses [simp]: "th_addresses (remember a k S) = th_addresses S" "th_accounts (remember a k S) = th_accounts S"
  by (simp_all add: remember_def Let_def)

lemma settle_addresses:
  assumes "limiter_enabled (to_address T)"
  shows "th_addresses (auth_settle T q r t S) =
    (if guess_rejected q r then snd (take_token (to_address T) (bucket_of T q) t (th_addresses S)) else th_addresses S)"
  using assms by (simp add: auth_settle_def Let_def split: option.split)

text \<open>The rejected guesses of one address that reached the handlers.\<close>

fun guesses_through :: "throttle_options \<Rightarrow> string \<Rightarrow> (auth_request \<times> auth_outcome \<times> int \<times> int) list \<Rightarrow> auth_gate list \<Rightarrow> nat" where
  "guesses_through T k ((q, r, t, t') # xs) (g # gs) =
     (if g = Admitted \<and> bucket_of T q = k \<and> guess_rejected q r then 1 else 0) + guesses_through T k xs gs"
| "guesses_through T k xs gs = 0"

text \<open>The times of a sequential run.\<close>

definition run_times :: "(auth_request \<times> auth_outcome \<times> int \<times> int) list \<Rightarrow> int list" where
  "run_times xs = concat (map (\<lambda>(q, r, t, t'). [t, t']) xs)"

lemma guesses_le:
  assumes en: "limiter_enabled (to_address T)" and burst: "1 \<le> ro_burst (to_address T)" and K: "finite K" "int (card K) \<le> ro_max (to_address T)"
    and "limiter_ok (to_address T) now (th_addresses S)" "fst ` set (rl_buckets (th_addresses S)) \<subseteq> K" "sorted (now # run_times xs)"
      "\<forall>(q, r, t, t') \<in> set xs. bucket_of T q \<in> K" "\<forall>u \<in> set (run_times xs). u \<le> til" "now \<le> til"
  shows "rat_of_nat (guesses_through T k xs (fst (one_by_one T xs S))) \<le>
    client_level (to_address T) (th_addresses S) k now + of_int (til - now) * refill_per_ms (to_address T)"
  using assms(5-10)
proof (induction xs arbitrary: now S)
  case Nil
  have "0 \<le> client_level (to_address T) (th_addresses S) k now" using client_level_nonneg [OF en _ Nil.prems(1)] burst by simp
  moreover have "0 \<le> of_int (til - now) * refill_per_ms (to_address T)" using Nil.prems(6) refill_pos [OF en] by (intro mult_nonneg_nonneg) simp_all
  ultimately show ?case by simp
next
  case (Cons x xs)
  obtain q r t t' where x: "x = (q, r, t, t')" by (cases x)
  let ?r = "to_address T" and ?q = "refill_per_ms (to_address T)"
  let ?lev = "\<lambda>S u. client_level ?r (th_addresses S) k u"
  define S1 where "S1 = (if auth_check T q t S = Admitted then auth_settle T q r t' S else S)"
  define hit where "hit \<longleftrightarrow> auth_check T q t S = Admitted \<and> guess_rejected q r"
  have le: "now \<le> t" "t \<le> t'" "t' \<le> til" using Cons.prems(3,5) x by (auto simp: run_times_def)
  have in_K: "bucket_of T q \<in> K" using Cons.prems(4) x by auto
  have ok: "limiter_ok ?r t' (th_addresses S)" using Cons.prems(1) le limiter_ok_later by (meson order_trans)
  have S1: "th_addresses S1 = (if hit then snd (take_token ?r (bucket_of T q) t' (th_addresses S)) else th_addresses S)"
    using settle_addresses [OF en] by (simp add: S1_def hit_def)
  obtain v L where vL: "take_token ?r (bucket_of T q) t' (th_addresses S) = (v, L)" by fastforce
  note step = take_token_level [OF en ok _ Cons.prems(2) K in_K vL]
  have st: "limiter_ok ?r t' (th_addresses S1) \<and> fst ` set (rl_buckets (th_addresses S1)) \<subseteq> K"
    using S1 vL step ok Cons.prems(2) burst by auto
  have ih: "rat_of_nat (guesses_through T k xs (fst (one_by_one T xs S1))) \<le> ?lev S1 t' + of_int (til - t') * ?q"
    using Cons.IH [of t' S1] st Cons.prems(3,4,5) le x by (auto simp: run_times_def)
  have up: "?lev S t' \<le> ?lev S now + of_int (t' - now) * ?q"
    unfolding level_later [OF en order_trans [OF le(1,2)]] by (rule refilled_le)
  have split: "of_int (t' - now) * ?q + of_int (til - t') * ?q = of_int (til - now) * ?q" by (simp add: algebra_simps)
  have run: "guesses_through T k (x # xs) (fst (one_by_one T (x # xs) S)) =
      (if hit \<and> bucket_of T q = k then 1 else 0) + guesses_through T k xs (fst (one_by_one T xs S1))"
    by (simp add: x S1_def hit_def Let_def)
  have "(if hit \<and> bucket_of T q = k then 1 else 0) + ?lev S1 t' \<le> ?lev S t'"
  proof (cases "hit \<and> bucket_of T q = k")
    case True
    have "1 \<le> ?lev S t" using admitted_level [OF en burst] True hit_def by auto
    then have one: "1 \<le> ?lev S t'"
      using level_later [OF en le(2), of "th_addresses S" k] refill_pos [OF en] le(2) burst
      by (auto simp: refilled_def intro!: add_increasing2 mult_nonneg_nonneg)
    have "?lev S1 t' = refilled ?r (level_after (?lev S t')) 0" using step S1 vL True burst by simp
    with one show ?thesis using refilled_le [of ?r "level_after (?lev S t')" 0] True by (simp add: level_after_def)
  next
    case False
    then show ?thesis using step S1 vL burst by (cases hit) auto
  qed
  with ih up split run show ?case by (auto split: if_splits)
qed

lemma settle_known:
  assumes "named (ao_signed_in r) = None"
  shows "th_known (auth_settle T q r t S) = th_known S"
  using assms by (simp add: auth_settle_def Let_def split: option.split)

text \<open>What the guesses of others leave of one client.\<close>

lemma others_run:
  assumes en: "limiter_enabled (to_address T)" and burst: "0 \<le> ro_burst (to_address T)" and K: "finite K" "int (card K) \<le> ro_max (to_address T)"
    and "limiter_ok (to_address T) now (th_addresses S)" "fst ` set (rl_buckets (th_addresses S)) \<subseteq> K"
      "sorted (now # map (\<lambda>e. case e of Arrives q t \<Rightarrow> t | Leaves q r t \<Rightarrow> t) es)"
      "\<forall>e \<in> set es. case e of Arrives q t \<Rightarrow> True | Leaves q r t \<Rightarrow> bucket_of T q \<in> K \<and> bucket_of T q \<noteq> k \<and> named (ao_signed_in r) = None"
      "\<forall>e \<in> set es. (case e of Arrives q t \<Rightarrow> t | Leaves q r t \<Rightarrow> t) \<le> til" "now \<le> til"
  shows "th_known (snd (auth_run T es S)) = th_known S \<and>
    client_level (to_address T) (th_addresses (snd (auth_run T es S))) k til = client_level (to_address T) (th_addresses S) k til"
  using assms(5-10)
proof (induction es arbitrary: now S)
  case (Cons e es)
  show ?case
  proof (cases e)
    case (Arrives q t)
    have "th_known (snd (auth_run T es S)) = th_known S \<and>
        client_level (to_address T) (th_addresses (snd (auth_run T es S))) k til = client_level (to_address T) (th_addresses S) k til"
      by (rule Cons.IH [of now]) (use Cons.prems Arrives in auto)
    then show ?thesis by (simp add: Arrives)
  next
    case (Leaves q r t)
    let ?S = "auth_settle T q r t S"
    have le: "now \<le> t" "t \<le> til" and q: "bucket_of T q \<in> K" "bucket_of T q \<noteq> k" "named (ao_signed_in r) = None"
      using Cons.prems(3,4,5) Leaves by auto
    have ok: "limiter_ok (to_address T) t (th_addresses S)" using Cons.prems(1) le limiter_ok_later by blast
    obtain v L where v: "take_token (to_address T) (bucket_of T q) t (th_addresses S) = (v, L)" by fastforce
    note step = take_token_level [OF en ok burst Cons.prems(2) K q(1) v]
    have S: "th_addresses ?S = (if guess_rejected q r then L else th_addresses S)" by (simp add: settle_addresses [OF en] v)
    have "th_known (snd (auth_run T es ?S)) = th_known ?S \<and>
        client_level (to_address T) (th_addresses (snd (auth_run T es ?S))) k til = client_level (to_address T) (th_addresses ?S) k til"
      by (rule Cons.IH [of t]) (use Cons.prems Leaves S step ok in \<open>auto split: if_splits\<close>)
    then show ?thesis using S step le q by (simp add: Leaves settle_known)
  qed
qed simp

lemma prepared_ok: "limiter_ok r t fresh_limiter" "rl_buckets (th_addresses fresh_throttle) = []" "th_addresses fresh_throttle = fresh_limiter"
  by (simp_all add: fresh_ok fresh_throttle_def)

section \<open>Properties\<close>

text \<open>Guessing one at a time is metered. When the requests to the console are handled one after the
  other, whatever else arrives between them, at most the burst plus what the rate gives in the time of the
  run of the rejected guesses from one address reach the sign-in handlers.\<close>

theorem sequential_guesses_bounded:
  assumes "limiter_enabled (to_address T)" "1 \<le> ro_burst (to_address T)" "sorted (t0 # run_times xs @ [t1])"
    and "int (card ((\<lambda>(q, r, t, t'). bucket_of T q) ` set xs)) \<le> ro_max (to_address T)"
  shows "rat_of_nat (guesses_through T k xs (fst (one_by_one T xs fresh_throttle))) \<le>
    of_int (ro_burst (to_address T)) + of_int (ro_rpm (to_address T)) * of_int (t1 - t0) / 60000"
proof -
  let ?K = "(\<lambda>(q, r, t, t'). bucket_of T q) ` set xs"
  have "rat_of_nat (guesses_through T k xs (fst (one_by_one T xs fresh_throttle))) \<le>
      client_level (to_address T) (th_addresses fresh_throttle) k t0 + of_int (t1 - t0) * refill_per_ms (to_address T)"
    by (rule guesses_le [where K = ?K]) (use assms in \<open>auto simp: prepared_ok fresh_ok sorted_append intro: rev_image_eqI\<close>)
  then show ?thesis by (simp add: client_level_def prepared_ok fresh_ok refill_per_ms_def mult.commute)
qed

definition sample_throttle :: throttle_options where
  "sample_throttle = \<lparr>to_address = \<lparr>ro_rpm = 20, ro_burst = 10, ro_max = 50000\<rparr>,
     to_account = \<lparr>ro_rpm = account_fail_rpm, ro_burst = account_fail_burst, ro_max = 50000\<rparr>, to_trust_proxy = False, to_hops = 1,
     to_decode = (\<lambda>s. ''ops:'' @ s)\<rparr>"

definition sample_guess :: auth_request where
  "sample_guess = \<lparr>aq_xff = None, aq_peer = Some ''203.0.113.7'', aq_authorization = Some ''Basic b3Bz'', aq_method = ''GET'', aq_path = ''/'',
     aq_form_username = JUndefined\<rparr>"

definition wrong_password :: auth_outcome where
  "wrong_password = \<lparr>ao_status = 401, ao_signed_in = None, ao_rejected = None\<rparr>"

lemma sample_account: "attempted_username sample_throttle sample_guess = Some ''ops''"
  by (simp add: attempted_username_def sample_guess_def sample_throttle_def normalize_username_def js_trim_def js_is_space_def js_lower_def js_lower_char_def)

lemma sample_admitted: "auth_check sample_throttle sample_guess t fresh_throttle = Admitted"
  by (simp add: auth_check_def sample_account named_def Let_def peek_token_def allow_def fresh_throttle_def fresh_limiter_def)

text \<open>Guesses in flight together are not. The check spends nothing and the charge comes after the
  handlers have answered, so a budget of ten guesses lets any number of them through when they arrive before
  the first one is answered.\<close>

theorem concurrent_guesses_unmetered:
  "guess_rejected sample_guess wrong_password \<and> ro_burst (to_address sample_throttle) = 10 \<and>
   fst (auth_run sample_throttle (replicate n (Arrives sample_guess 0) @ replicate n (Leaves sample_guess wrong_password 1)) fresh_throttle) =
     replicate n Admitted"
proof -
  let ?leave = "replicate n (Leaves sample_guess wrong_password 1)"
  have leave: "fst (auth_run sample_throttle (replicate m (Leaves sample_guess wrong_password 1)) S) = []" for m S
    by (induction m arbitrary: S) simp_all
  have "fst (auth_run sample_throttle (replicate m (Arrives sample_guess 0) @ ?leave) fresh_throttle) = replicate m Admitted" for m
    by (induction m) (simp_all add: leave sample_admitted)
  then show ?thesis
    by (simp add: guess_rejected_def basic_rejected_def named_def sample_guess_def wrong_password_def sample_throttle_def)
qed

text \<open>Guessers cannot lock the operator out. An address that has signed in to an account is let through
  to it as long as its own budget lasts, however many guesses at the account arrive from other addresses,
  in whatever order and overlap.\<close>

theorem known_address_never_held:
  assumes "limiter_enabled (to_address T)" "1 \<le> ro_burst (to_address T)" "finite K" "int (card K) \<le> ro_max (to_address T)"
    and "limiter_ok (to_address T) now (th_addresses S)" "fst ` set (rl_buckets (th_addresses S)) \<subseteq> K"
    and "sorted (now # map (\<lambda>e. case e of Arrives q t \<Rightarrow> t | Leaves q r t \<Rightarrow> t) es @ [til])"
    and "\<forall>e \<in> set es. case e of Arrives q t \<Rightarrow> True | Leaves q r t \<Rightarrow> bucket_of T q \<in> K \<and> bucket_of T q \<noteq> bucket_of T me \<and> named (ao_signed_in r) = None"
    and "who_of T me \<noteq> UnknownClient" "attempted_username T me = Some account" "is_known S account (bucket_of T me)"
    and "rv_allowed (peek_token (to_address T) (bucket_of T me) til (th_addresses S))"
  shows "auth_check T me til (snd (auth_run T es S)) = Admitted"
proof -
  let ?S = "snd (auth_run T es S)"
  have til: "now \<le> til" "\<forall>e \<in> set es. (case e of Arrives q t \<Rightarrow> t | Leaves q r t \<Rightarrow> t) \<le> til"
    using assms(7) by (auto simp: sorted_append)
  have o: "th_known ?S = th_known S \<and> client_level (to_address T) (th_addresses ?S) (bucket_of T me) til =
      client_level (to_address T) (th_addresses S) (bucket_of T me) til"
    by (rule others_run [where K = K and now = now]) (use assms(1-8) til in \<open>auto simp: sorted_append\<close>)
  have "rv_allowed (peek_token (to_address T) (bucket_of T me) til (th_addresses ?S))"
    using assms(12) o peek_level [OF assms(1,2)] by simp
  moreover have "is_known ?S account (bucket_of T me)" using assms(11) o by (simp add: is_known_def)
  ultimately show ?thesis using assms(1,9,10) by (cases account) (simp_all add: auth_check_def Let_def named_def)
qed

definition other_guess :: auth_request where
  "other_guess = sample_guess\<lparr>aq_peer := Some ''198.51.100.9''\<rparr>"

lemma sample_buckets: "bucket_of sample_throttle sample_guess = ''203.0.113.7''" "bucket_of sample_throttle other_guess = ''198.51.100.9''"
  "who_of sample_throttle sample_guess = KnownClient ''203.0.113.7'' False"
  by (simp_all add: bucket_of_def who_of_def sample_throttle_def sample_guess_def other_guess_def resolve_client_identity_def)

lemma sample_limits: "limiter_enabled (to_address sample_throttle)" "ro_burst (to_address sample_throttle) = 10" "ro_rpm (to_address sample_throttle) = 20"
  "ro_max (to_address sample_throttle) = 50000"
  by (simp_all add: sample_throttle_def limiter_enabled_def)

theorem sequential_guesses_bounded_witness:
  "rat_of_nat (guesses_through sample_throttle ''203.0.113.7'' (replicate 30 (sample_guess, wrong_password, 0, 0))
     (fst (one_by_one sample_throttle (replicate 30 (sample_guess, wrong_password, 0, 0)) fresh_throttle))) \<le> 10"
proof -
  have t: "run_times (replicate n (sample_guess, wrong_password, 0, 0)) = replicate (2 * n) 0" for n
    by (induction n) (simp_all add: run_times_def)
  have "rat_of_nat (guesses_through sample_throttle ''203.0.113.7'' (replicate 30 (sample_guess, wrong_password, 0, 0))
     (fst (one_by_one sample_throttle (replicate 30 (sample_guess, wrong_password, 0, 0)) fresh_throttle))) \<le>
    of_int (ro_burst (to_address sample_throttle)) + of_int (ro_rpm (to_address sample_throttle)) * of_int (0 - 0) / 60000"
    by (rule sequential_guesses_bounded) (simp_all only: t sample_limits, simp_all add: sorted_append)
  then show ?thesis by (simp add: sample_limits)
qed

theorem known_address_never_held_witness:
  "auth_check sample_throttle sample_guess 5 (snd (auth_run sample_throttle
     [Arrives other_guess 1, Leaves other_guess wrong_password 2] (remember ''ops'' ''203.0.113.7'' fresh_throttle))) = Admitted"
proof (rule known_address_never_held [where K = "{''198.51.100.9''}" and now = 0 and account = "''ops''"])
  show "is_known (remember ''ops'' ''203.0.113.7'' fresh_throttle) ''ops'' (bucket_of sample_throttle sample_guess)"
    by (simp add: is_known_def remember_def Let_def fresh_throttle_def sample_buckets known_accounts_def known_addresses_per_account_def)
  show "rv_allowed (peek_token (to_address sample_throttle) (bucket_of sample_throttle sample_guess) 5 (th_addresses (remember ''ops'' ''203.0.113.7'' fresh_throttle)))"
    by (simp add: peek_token_def allow_def prepared_ok fresh_ok)
qed (simp_all add: sample_limits sample_buckets sample_account prepared_ok fresh_ok named_def wrong_password_def)
end
