(* ===== verification/RslTerms.thy ===== *)
theory RslTerms
  imports RslPattern
begin

text \<open>
  What a published licence says about one URL, \<open>packages/sdk/src/rsl/terms.ts\<close> over the document of
  \<open>rsl/types.ts\<close>: the scopes that apply, most specific first, the verdict on each use and each class of
  user, the regions, and the offer a read is made under. \<open>new URL\<close> in \<open>matchTarget\<close> is a parameter that
  gives the path and query of a URL, or nothing when it does not parse.
\<close>

section \<open>The document\<close>

datatype rsl_usage = UseAll | UseAiAll | UseAiTrain | UseAiInput | UseAiIndex | UseSearch

datatype user_class = Commercial | NonCommercial | Education | Government | Personal

datatype payment_type = PayPurchase | PaySubscription | PayTraining | PayCrawl | PayUse | PayContribution | PayAttribution | PayFree

record rsl_accepts =
  ac_type :: string
  ac_meta :: "string option"

record rsl_amount =
  am_value :: rat
  am_currency :: string

record rsl_payment =
  pm_type :: payment_type
  pm_amount :: "rsl_amount option"
  pm_accepts :: "rsl_accepts list"
  pm_standard :: "string option"
  pm_custom :: "string option"

record rsl_constraints =
  cn_usage :: "rsl_usage list"
  cn_user :: "user_class list"
  cn_geo :: "string list"

record rsl_license =
  li_permits :: rsl_constraints
  li_prohibits :: rsl_constraints
  li_payment :: "rsl_payment option"
  li_contact :: "string option"
  li_terms :: "string option"
  li_raw :: "string option"

record rsl_content =
  ct_url :: string
  ct_server :: "string option"
  ct_encrypted :: "bool option"
  ct_lastmod :: "string option"
  ct_licenses :: "rsl_license list"

type_synonym rsl_document = "rsl_content list"

record rsl_offer =
  of_type :: payment_type
  of_amount :: "rsl_amount option"
  of_accepts :: "rsl_accepts list"
  of_scope :: string
  of_license :: "string option"

datatype rsl_obligation = InlineTerms | LicenseServer

record rsl_terms =
  tm_scopes :: "string list"
  tm_usage :: "(rsl_usage \<times> bool) list"
  tm_user :: "(user_class \<times> bool) list"
  tm_allow :: "string list"
  tm_deny :: "string list"
  tm_read :: "rsl_offer option"
  tm_obligation :: rsl_obligation
  tm_server :: "string option"
  tm_contact :: "string option"

section \<open>Scopes and verdicts\<close>

text \<open>\<open>s ? s : undefined\<close>: an absent and an empty text are both falsy.\<close>

definition truthy_text :: "string option \<Rightarrow> string option" where
  "truthy_text s = (case s of None \<Rightarrow> None | Some t \<Rightarrow> if t = [] then None else Some t)"

definition rsl_uniq :: "'a list \<Rightarrow> 'a list" where
  "rsl_uniq xs = rev (remdups (rev xs))"

definition scope_covers :: "string option \<Rightarrow> string \<Rightarrow> rsl_content \<Rightarrow> bool" where
  "scope_covers assoc path c \<longleftrightarrow> (if ct_url c = [] then assoc = Some path else matches_pattern (ct_url c) path)"

definition scope_rank :: "rsl_content \<times> nat \<Rightarrow> int \<times> int" where
  "scope_rank x = (- int (specificity (ct_url (fst x))), - int (snd x))"

definition applicable :: "rsl_document \<Rightarrow> string \<Rightarrow> string option \<Rightarrow> rsl_content list" where
  "applicable doc path assoc =
     map fst (sort_key scope_rank (filter (\<lambda>x. scope_covers assoc path (fst x)) (zip doc [0..<length doc])))"

fun umbrella :: "rsl_usage \<Rightarrow> rsl_usage list" where
  "umbrella UseAll = [UseAiAll, UseAiTrain, UseAiInput, UseAiIndex, UseSearch]"
| "umbrella UseAiAll = [UseAiTrain, UseAiInput, UseAiIndex]"
| "umbrella u = []"

definition usage_covers :: "rsl_usage list \<Rightarrow> rsl_usage \<Rightarrow> bool" where
  "usage_covers declared token \<longleftrightarrow> token \<in> set declared \<or> list_ex (\<lambda>d. token \<in> set (umbrella d)) declared"

definition grants_usage :: "rsl_usage list \<Rightarrow> rsl_usage \<Rightarrow> bool" where
  "grants_usage declared token = usage_covers declared token"

text \<open>One scope: \<open>Some False\<close> at the first licence that prohibits, \<open>Some True\<close> when one permits and none
  prohibits, \<open>None\<close> when it is silent. The loop over the scopes stops at the first that is not.\<close>

fun scope_loop :: "('l \<Rightarrow> bool) \<Rightarrow> ('l \<Rightarrow> bool) \<Rightarrow> 'l list \<Rightarrow> bool option \<Rightarrow> bool option" where
  "scope_loop prohibited granted [] permitted = permitted"
| "scope_loop prohibited granted (l # ls) permitted =
     (if prohibited l then Some False else scope_loop prohibited granted ls (if granted l then Some True else permitted))"

fun scopes_loop :: "('l \<Rightarrow> bool) \<Rightarrow> ('l \<Rightarrow> bool) \<Rightarrow> 'l list list \<Rightarrow> bool option" where
  "scopes_loop prohibited granted [] = None"
| "scopes_loop prohibited granted (s # ss) = (case scope_loop prohibited granted s None of
     Some v \<Rightarrow> Some v | None \<Rightarrow> scopes_loop prohibited granted ss)"

definition user_verdict :: "rsl_content list \<Rightarrow> user_class \<Rightarrow> bool option" where
  "user_verdict scopes token = scopes_loop (\<lambda>l. token \<in> set (cn_user (li_prohibits l))) (\<lambda>l. token \<in> set (cn_user (li_permits l)))
     (map ct_licenses scopes)"

definition usage_verdict :: "rsl_content list \<Rightarrow> rsl_usage \<Rightarrow> bool option" where
  "usage_verdict scopes token = scopes_loop (\<lambda>l. usage_covers (cn_usage (li_prohibits l)) token)
     (\<lambda>l. usage_covers (cn_usage (li_permits l)) token) (map ct_licenses scopes)"

definition priced_grants :: "rsl_content \<Rightarrow> (rsl_license \<times> rsl_payment) list" where
  "priced_grants c = concat (map (\<lambda>l. case li_payment l of None \<Rightarrow> []
     | Some p \<Rightarrow> if usage_covers (cn_usage (li_permits l)) UseAiInput then [(l, p)] else []) (ct_licenses c))"

fun read_offer :: "rsl_content list \<Rightarrow> (rsl_offer \<times> rsl_content) option" where
  "read_offer [] = None"
| "read_offer (c # cs) = (case priced_grants c of [] \<Rightarrow> read_offer cs
     | g # gs \<Rightarrow> (let (l, p) = (case find (\<lambda>x. pm_type (snd x) = PayFree) (g # gs) of Some x \<Rightarrow> x | None \<Rightarrow> g) in
         Some (\<lparr>of_type = pm_type p, of_amount = pm_amount p, of_accepts = pm_accepts p, of_scope = ct_url c,
           of_license = truthy_text (li_raw l)\<rparr>, c)))"

definition verdicts :: "('t \<Rightarrow> bool option) \<Rightarrow> 't list \<Rightarrow> ('t \<times> bool) list" where
  "verdicts f ts = concat (map (\<lambda>t. case f t of None \<Rightarrow> [] | Some v \<Rightarrow> [(t, v)]) ts)"

definition terms_for_url :: "(string \<Rightarrow> string option) \<Rightarrow> rsl_document \<Rightarrow> string \<Rightarrow> string option \<Rightarrow> rsl_terms option" where
  "terms_for_url matchTarget doc url assoc = (case matchTarget url of None \<Rightarrow> None
     | Some path \<Rightarrow> (case applicable doc path assoc of [] \<Rightarrow> None
       | s # ss \<Rightarrow> (let scopes = s # ss; found = read_offer scopes;
            governing = (case found of Some (_, c) \<Rightarrow> c | None \<Rightarrow> s);
            licences = concat (map ct_licenses scopes);
            server = truthy_text (ct_server governing) in
          Some \<lparr>tm_scopes = map ct_url scopes,
            tm_usage = verdicts (usage_verdict scopes) [UseAiInput, UseAiIndex, UseAiTrain, UseSearch, UseAiAll, UseAll],
            tm_user = verdicts (user_verdict scopes) [Commercial, NonCommercial, Education, Government, Personal],
            tm_allow = rsl_uniq (concat (map (\<lambda>l. cn_geo (li_permits l)) licences)),
            tm_deny = rsl_uniq (concat (map (\<lambda>l. cn_geo (li_prohibits l)) licences)),
            tm_read = map_option fst found,
            tm_obligation = (if server = None then InlineTerms else LicenseServer),
            tm_server = server,
            tm_contact = (case filter (\<lambda>x. x \<noteq> None) (map (\<lambda>l. truthy_text (li_contact l)) (ct_licenses governing)) of
                [] \<Rightarrow> None | x # _ \<Rightarrow> x)\<rparr>)))"

text \<open>\<open>x402Offer\<close>: the parser of the metadata is a parameter; \<open>Some (None, None)\<close> when it does not parse.\<close>

definition x402_media_type :: string where "x402_media_type = ''application/x402+json''"

definition x402_offer :: "(string \<Rightarrow> json option) \<Rightarrow> rsl_terms \<Rightarrow> (string option \<times> string option) option" where
  "x402_offer parse t = (case tm_read t of None \<Rightarrow> None
     | Some offer \<Rightarrow> (case find (\<lambda>a. js_lower (ac_type a) = x402_media_type) (of_accepts offer) of None \<Rightarrow> None
       | Some a \<Rightarrow> (case truthy_text (ac_meta a) of None \<Rightarrow> Some (None, None)
         | Some txt \<Rightarrow> (case parse txt of None \<Rightarrow> Some (None, None)
           | Some j \<Rightarrow> (let text = (\<lambda>k. case json_prop j k of JString s \<Rightarrow> Some s | _ \<Rightarrow> None) in Some (text ''scheme'', text ''network''))))))"

section \<open>The first of a sorted list\<close>

lemma find_sorted:
  fixes k :: "'a \<Rightarrow> 'k::linorder"
  assumes "inj_on k (set xs)"
  shows "find P (sort_key k xs) = Some x \<longleftrightarrow> x \<in> set xs \<and> P x \<and> (\<forall>y \<in> set xs. P y \<longrightarrow> k x \<le> k y)"
proof -
  let ?ys = "sort_key k xs"
  have least: "x \<in> set xs \<and> P x \<and> (\<forall>y \<in> set xs. P y \<longrightarrow> k x \<le> k y)" if f: "find P ?ys = Some x" for x
  proof -
    from f obtain i where i: "i < length ?ys" "P (?ys ! i)" "x = ?ys ! i" "\<And>j. j < i \<Longrightarrow> \<not> P (?ys ! j)"
      by (auto simp: find_Some_iff)
    have "x \<in> set xs" using i(1,3) by (metis nth_mem set_sort)
    moreover have "k x \<le> k y" if "y \<in> set xs" "P y" for y
    proof -
      have "y \<in> set ?ys" using that(1) by simp
      then obtain j where j: "j < length ?ys" "y = ?ys ! j" by (metis in_set_conv_nth)
      then have "i \<le> j" using i(4) that(2) not_less by blast
      then show ?thesis using sorted_nth_mono [OF sorted_sort_key [of k xs], of i j] j i(1,3) by simp
    qed
    ultimately show ?thesis using i by blast
  qed
  show ?thesis
  proof
    assume r: "x \<in> set xs \<and> P x \<and> (\<forall>y \<in> set xs. P y \<longrightarrow> k x \<le> k y)"
    then have "find P ?ys \<noteq> None" by (auto simp: find_None_iff)
    then obtain x' where x': "find P ?ys = Some x'" by auto
    from least [OF x'] r have "k x = k x'" "x' \<in> set xs" by (auto intro: antisym)
    with r assms x' show "find P ?ys = Some x" by (auto dest: inj_onD)
  qed (rule least)
qed

section \<open>The scope that speaks\<close>

text \<open>What one scope says, without the loop: a prohibition wins over a grant, whatever their order.\<close>

definition scope_says :: "('l \<Rightarrow> bool) \<Rightarrow> ('l \<Rightarrow> bool) \<Rightarrow> 'l list \<Rightarrow> bool option" where
  "scope_says prohibited granted ls =
     (if list_ex prohibited ls then Some False else if list_ex granted ls then Some True else None)"

lemma scope_loop_says:
  "scope_loop prohibited granted ls permitted =
     (if list_ex prohibited ls then Some False else if list_ex granted ls then Some True else permitted)"
  by (induction ls arbitrary: permitted) auto

lemma scopes_loop_find:
  "scopes_loop prohibited granted (map f cs) =
     (case find (\<lambda>c. scope_says prohibited granted (f c) \<noteq> None) cs of None \<Rightarrow> None
      | Some c \<Rightarrow> scope_says prohibited granted (f c))"
  by (induction cs) (auto simp: scope_loop_says scope_says_def split: option.splits)

definition says_usage :: "rsl_content \<Rightarrow> rsl_usage \<Rightarrow> bool option" where
  "says_usage c t = scope_says (\<lambda>l. usage_covers (cn_usage (li_prohibits l)) t) (\<lambda>l. usage_covers (cn_usage (li_permits l)) t) (ct_licenses c)"

definition says_user :: "rsl_content \<Rightarrow> user_class \<Rightarrow> bool option" where
  "says_user c t = scope_says (\<lambda>l. t \<in> set (cn_user (li_prohibits l))) (\<lambda>l. t \<in> set (cn_user (li_permits l))) (ct_licenses c)"

text \<open>The scope at place \<open>i\<close> of the document comes before the one at place \<open>j\<close>.\<close>

definition outranks :: "rsl_document \<Rightarrow> nat \<Rightarrow> nat \<Rightarrow> bool" where
  "outranks doc i j \<longleftrightarrow> specificity (ct_url (doc ! i)) > specificity (ct_url (doc ! j)) \<or>
     specificity (ct_url (doc ! i)) = specificity (ct_url (doc ! j)) \<and> i > j"

text \<open>The scope at place \<open>i\<close> is the one of those that apply and satisfy \<open>P\<close> that comes first.\<close>

definition governs :: "rsl_document \<Rightarrow> string \<Rightarrow> string option \<Rightarrow> (rsl_content \<Rightarrow> bool) \<Rightarrow> nat \<Rightarrow> bool" where
  "governs doc path assoc P i \<longleftrightarrow> i < length doc \<and> scope_covers assoc path (doc ! i) \<and> P (doc ! i) \<and>
     (\<forall>j < length doc. scope_covers assoc path (doc ! j) \<and> P (doc ! j) \<longrightarrow> j = i \<or> outranks doc i j)"

lemma find_map: "find P (map f xs) = map_option f (find (P \<circ> f) xs)"
  by (induction xs) auto

lemma applicable_find:
  "find P (applicable doc path assoc) = Some c \<longleftrightarrow> (\<exists>i. c = doc ! i \<and> governs doc path assoc P i)"
proof -
  define xs where "xs = filter (\<lambda>x. scope_covers assoc path (fst x)) (zip doc [0..<length doc])"
  have mem: "x \<in> set xs \<longleftrightarrow> (\<exists>i < length doc. x = (doc ! i, i) \<and> scope_covers assoc path (doc ! i))" for x
    by (auto simp: xs_def in_set_zip)
  have inj: "inj_on scope_rank (set xs)"
  proof (rule inj_onI)
    fix x y assume "x \<in> set xs" "y \<in> set xs" and e: "scope_rank x = scope_rank y"
    then obtain i j where "x = (doc ! i, i)" "y = (doc ! j, j)" unfolding mem by blast
    with e show "x = y" by (simp add: scope_rank_def)
  qed
  have le: "scope_rank (doc ! i, i) \<le> scope_rank (doc ! j, j) \<longleftrightarrow> j = i \<or> outranks doc i j" for i j
    by (auto simp: scope_rank_def less_eq_prod_def outranks_def)
  have first: "find (P \<circ> fst) (sort_key scope_rank xs) = Some (doc ! i, i) \<longleftrightarrow> governs doc path assoc P i" for i
  proof -
    have "(\<forall>y \<in> set xs. P (fst y) \<longrightarrow> scope_rank (doc ! i, i) \<le> scope_rank y) \<longleftrightarrow>
        (\<forall>j < length doc. scope_covers assoc path (doc ! j) \<and> P (doc ! j) \<longrightarrow> j = i \<or> outranks doc i j)"
      unfolding Ball_def mem le [symmetric] by auto
    then show ?thesis unfolding find_sorted [OF inj] governs_def mem by auto
  qed
  have found: "\<exists>i. x = (doc ! i, i)" if "find (P \<circ> fst) (sort_key scope_rank xs) = Some x" for x
    using that unfolding find_sorted [OF inj] mem by blast
  have "find P (applicable doc path assoc) = map_option fst (find (P \<circ> fst) (sort_key scope_rank xs))"
    by (simp add: applicable_def find_map xs_def)
  with first found show ?thesis by (cases "find (P \<circ> fst) (sort_key scope_rank xs)") fastforce+
qed

lemma find_says:
  "(case find (\<lambda>c. h c \<noteq> None) (applicable doc path assoc) of None \<Rightarrow> None | Some c \<Rightarrow> h c) = Some b \<longleftrightarrow>
     (\<exists>i. governs doc path assoc (\<lambda>c. h c \<noteq> None) i \<and> h (doc ! i) = Some b)"
proof (cases "find (\<lambda>c. h c \<noteq> None) (applicable doc path assoc)")
  case None
  have "\<not> governs doc path assoc (\<lambda>c. h c \<noteq> None) i" for i
  proof
    assume "governs doc path assoc (\<lambda>c. h c \<noteq> None) i"
    then have "find (\<lambda>c. h c \<noteq> None) (applicable doc path assoc) = Some (doc ! i)" unfolding applicable_find by blast
    with None show False by simp
  qed
  then show ?thesis unfolding None by simp
next
  case (Some c)
  have one: "doc ! i = c" if "governs doc path assoc (\<lambda>c. h c \<noteq> None) i" for i
  proof -
    have "find (\<lambda>c. h c \<noteq> None) (applicable doc path assoc) = Some (doc ! i)" unfolding applicable_find using that by blast
    with Some show ?thesis by simp
  qed
  obtain i where i: "c = doc ! i" "governs doc path assoc (\<lambda>c. h c \<noteq> None) i" using Some unfolding applicable_find by blast
  show ?thesis unfolding Some option.case using one i by metis
qed

lemma usage_verdict_governs:
  "usage_verdict (applicable doc path assoc) t = Some b \<longleftrightarrow>
     (\<exists>i. governs doc path assoc (\<lambda>c. says_usage c t \<noteq> None) i \<and> says_usage (doc ! i) t = Some b)"
  using find_says [where h = "\<lambda>c. says_usage c t"] unfolding usage_verdict_def scopes_loop_find says_usage_def .

lemma user_verdict_governs:
  "user_verdict (applicable doc path assoc) t = Some b \<longleftrightarrow>
     (\<exists>i. governs doc path assoc (\<lambda>c. says_user c t \<noteq> None) i \<and> says_user (doc ! i) t = Some b)"
  using find_says [where h = "\<lambda>c. says_user c t"] unfolding user_verdict_def scopes_loop_find says_user_def .

text \<open>The licences a scope makes an offer from: they grant \<open>ai-input\<close> and state a payment.\<close>

definition offers :: "rsl_content \<Rightarrow> rsl_license \<Rightarrow> rsl_payment \<Rightarrow> bool" where
  "offers c l p \<longleftrightarrow> l \<in> set (ct_licenses c) \<and> li_payment l = Some p \<and> usage_covers (cn_usage (li_permits l)) UseAiInput"

lemma priced_grants_set: "(l, p) \<in> set (priced_grants c) \<longleftrightarrow> offers c l p"
  by (force simp: priced_grants_def offers_def split: option.splits if_splits)

lemma read_offer_find:
  "read_offer cs = (case find (\<lambda>c. priced_grants c \<noteq> []) cs of None \<Rightarrow> None | Some c \<Rightarrow> read_offer [c])"
  by (induction cs) (auto split: list.splits)

lemma read_offer_one:
  assumes "read_offer [c] = Some (r, c')"
  obtains l p where "c' = c" "offers c l p" "r = \<lparr>of_type = pm_type p, of_amount = pm_amount p, of_accepts = pm_accepts p,
      of_scope = ct_url c, of_license = truthy_text (li_raw l)\<rparr>"
    "\<And>l' p'. offers c l' p' \<Longrightarrow> pm_type p' = PayFree \<Longrightarrow> pm_type p = PayFree"
proof (cases "priced_grants c")
  case Nil
  with assms show ?thesis by simp
next
  case (Cons g gs)
  define x where "x = (case find (\<lambda>x. pm_type (snd x) = PayFree) (g # gs) of Some x \<Rightarrow> x | None \<Rightarrow> g)"
  obtain l p where x: "x = (l, p)" by (cases x)
  have r: "c' = c" "r = \<lparr>of_type = pm_type p, of_amount = pm_amount p, of_accepts = pm_accepts p,
      of_scope = ct_url c, of_license = truthy_text (li_raw l)\<rparr>"
    using assms unfolding read_offer.simps Cons list.case x_def [symmetric] x by auto
  have "x \<in> set (g # gs) \<and> ((\<exists>y \<in> set (g # gs). pm_type (snd y) = PayFree) \<longrightarrow> pm_type (snd x) = PayFree)"
  proof (cases "find (\<lambda>x. pm_type (snd x) = PayFree) (g # gs)")
    case None
    then have "x = g" unfolding x_def by simp
    moreover have "\<not> (\<exists>y \<in> set (g # gs). pm_type (snd y) = PayFree)" using None unfolding find_None_iff by blast
    ultimately show ?thesis by simp
  next
    case (Some y)
    then have "x = y" unfolding x_def by simp
    moreover have "y \<in> set (g # gs)" "pm_type (snd y) = PayFree" using Some unfolding find_Some_iff by (metis nth_mem, metis)
    ultimately show ?thesis by blast
  qed
  then have g: "(l, p) \<in> set (priced_grants c)" "(\<exists>y \<in> set (priced_grants c). pm_type (snd y) = PayFree) \<longrightarrow> pm_type p = PayFree"
    unfolding x Cons by simp_all
  have "pm_type p = PayFree" if "offers c l' p'" "pm_type p' = PayFree" for l' p'
  proof -
    have "(l', p') \<in> set (priced_grants c)" using that(1) by (simp add: priced_grants_set)
    with that(2) g(2) show ?thesis by (metis snd_conv)
  qed
  moreover have "offers c l p" using g(1) by (simp add: priced_grants_set)
  ultimately have "offers c l p" "\<And>l' p'. offers c l' p' \<Longrightarrow> pm_type p' = PayFree \<Longrightarrow> pm_type p = PayFree" by blast+
  with r that show ?thesis by blast
qed

lemma read_offer_governs:
  assumes "read_offer (applicable doc path assoc) = Some (r, c)"
  obtains i l p where "c = doc ! i" "governs doc path assoc (\<lambda>c. \<exists>l p. offers c l p) i" "offers (doc ! i) l p"
    "r = \<lparr>of_type = pm_type p, of_amount = pm_amount p, of_accepts = pm_accepts p, of_scope = ct_url (doc ! i),
       of_license = truthy_text (li_raw l)\<rparr>"
    "\<And>l' p'. offers (doc ! i) l' p' \<Longrightarrow> pm_type p' = PayFree \<Longrightarrow> pm_type p = PayFree"
proof -
  have e: "priced_grants c \<noteq> [] \<longleftrightarrow> (\<exists>l p. offers c l p)" for c
    by (metis priced_grants_set list.set_intros(1) list.exhaust prod.exhaust empty_iff empty_set)
  from assms obtain c0 where f: "find (\<lambda>c. priced_grants c \<noteq> []) (applicable doc path assoc) = Some c0" "read_offer [c0] = Some (r, c)"
    by (subst (asm) read_offer_find) (auto split: option.splits)
  from f(1) obtain i where i: "c0 = doc ! i" "governs doc path assoc (\<lambda>c. \<exists>l p. offers c l p) i"
    unfolding applicable_find e by blast
  from f(2) show ?thesis by (rule read_offer_one) (use i that in blast)
qed

lemma verdicts_map: "map_of (verdicts f ts) t = (if t \<in> set ts then f t else None)"
  by (induction ts) (auto simp: verdicts_def split: option.splits)

lemma terms_cases:
  assumes "terms_for_url matchTarget doc url assoc = Some T"
  obtains path where "matchTarget url = Some path" "applicable doc path assoc \<noteq> []"
    "tm_scopes T = map ct_url (applicable doc path assoc)"
    "\<And>t. map_of (tm_usage T) t = usage_verdict (applicable doc path assoc) t"
    "\<And>t. map_of (tm_user T) t = user_verdict (applicable doc path assoc) t"
    "tm_read T = map_option fst (read_offer (applicable doc path assoc))"
    "tm_server T = truthy_text (ct_server (case read_offer (applicable doc path assoc) of Some (_, c) \<Rightarrow> c
       | None \<Rightarrow> hd (applicable doc path assoc)))"
    "tm_obligation T = LicenseServer \<longleftrightarrow> tm_server T \<noteq> None"
proof -
  from assms obtain path s ss where p: "matchTarget url = Some path" "applicable doc path assoc = s # ss"
    by (auto simp: terms_for_url_def split: option.splits list.splits)
  have u: "t \<in> set [UseAiInput, UseAiIndex, UseAiTrain, UseSearch, UseAiAll, UseAll]" for t by (cases t) auto
  have k: "t \<in> set [Commercial, NonCommercial, Education, Government, Personal]" for t by (cases t) auto
  show ?thesis
    by (rule that [of path], unfold p(2) list.sel)
      (use assms p u k in \<open>auto simp: terms_for_url_def Let_def verdicts_map simp del: read_offer.simps split: if_splits\<close>)
qed

section \<open>Properties\<close>

text \<open>C29: each use is answered by the scope that comes first among those that apply to the URL and say
  anything about that use: a narrower scope before a broader one, a later one before an earlier one of the
  same width; a prohibition in it wins over any grant in it, \<open>all\<close> and \<open>ai-all\<close> included, and a broader
  scope is heard only where every narrower one is silent. A use no scope mentions stays unanswered.\<close>

theorem use_answered_by_first_scope:
  assumes "terms_for_url matchTarget doc url assoc = Some T" "matchTarget url = Some path"
  shows "map_of (tm_usage T) use = Some verdict \<longleftrightarrow>
    (\<exists>i. governs doc path assoc (\<lambda>c. says_usage c use \<noteq> None) i \<and> says_usage (doc ! i) use = Some verdict)"
  using assms(1) by (rule terms_cases) (use assms(2) in \<open>simp add: usage_verdict_governs\<close>)

text \<open>The offer a read is made under comes from the first scope that applies, grants \<open>ai-input\<close> and states
  a payment for it; it is one of the payments that scope states for such a licence, a free one whenever it
  states a free one; silence on the price is never read as free; and the licence server of that scope, if
  it names one, binds.\<close>

theorem offer_from_granting_scope:
  assumes "terms_for_url matchTarget doc url assoc = Some T" "matchTarget url = Some path" "tm_read T = Some r"
  shows "\<exists>i l p. governs doc path assoc (\<lambda>c. \<exists>l p. offers c l p) i \<and> offers (doc ! i) l p \<and>
    of_type r = pm_type p \<and> of_amount r = pm_amount p \<and> of_scope r = ct_url (doc ! i) \<and>
    (of_type r = PayFree \<longleftrightarrow> (\<exists>l' p'. offers (doc ! i) l' p' \<and> pm_type p' = PayFree)) \<and>
    tm_server T = truthy_text (ct_server (doc ! i)) \<and> (tm_obligation T = LicenseServer \<longleftrightarrow> tm_server T \<noteq> None)"
  using assms(1)
proof (rule terms_cases)
  fix path'
  assume p: "matchTarget url = Some path'" and rd: "tm_read T = map_option fst (read_offer (applicable doc path' assoc))"
    and sv: "tm_server T = truthy_text (ct_server (case read_offer (applicable doc path' assoc) of Some (_, c) \<Rightarrow> c
      | None \<Rightarrow> hd (applicable doc path' assoc)))"
    and ob: "tm_obligation T = LicenseServer \<longleftrightarrow> tm_server T \<noteq> None"
  have path: "path' = path" using p assms(2) by simp
  from rd assms(3) have "map_option fst (read_offer (applicable doc path assoc)) = Some r" unfolding path by simp
  then obtain c where o': "read_offer (applicable doc path assoc) = Some (r, c)"
    by (cases "read_offer (applicable doc path assoc)") auto
  from o' show ?thesis
  proof (rule read_offer_governs)
    fix i l p
    assume c: "c = doc ! i" and g: "governs doc path assoc (\<lambda>c. \<exists>l p. offers c l p) i" and l: "offers (doc ! i) l p"
      and r: "r = \<lparr>of_type = pm_type p, of_amount = pm_amount p, of_accepts = pm_accepts p, of_scope = ct_url (doc ! i),
         of_license = truthy_text (li_raw l)\<rparr>"
      and free: "\<And>l' p'. offers (doc ! i) l' p' \<Longrightarrow> pm_type p' = PayFree \<Longrightarrow> pm_type p = PayFree"
    have "of_type r = PayFree \<longleftrightarrow> (\<exists>l' p'. offers (doc ! i) l' p' \<and> pm_type p' = PayFree)"
      using l free unfolding r by auto
    moreover have "tm_server T = truthy_text (ct_server (doc ! i))" using sv o' c by (simp add: path)
    ultimately show ?thesis using g l ob
      by (intro exI [of _ i] exI [of _ l] exI [of _ p]) (simp add: r)
  qed
qed

section \<open>Witnesses\<close>

definition sample_license :: "rsl_usage list \<Rightarrow> rsl_usage list \<Rightarrow> rsl_payment option \<Rightarrow> rsl_license" where
  "sample_license permits prohibits pay = \<lparr>li_permits = \<lparr>cn_usage = permits, cn_user = [], cn_geo = []\<rparr>,
     li_prohibits = \<lparr>cn_usage = prohibits, cn_user = [], cn_geo = []\<rparr>, li_payment = pay, li_contact = None, li_terms = None, li_raw = None\<rparr>"

definition sample_price :: "payment_type \<Rightarrow> rat option \<Rightarrow> rsl_payment" where
  "sample_price ty v = \<lparr>pm_type = ty, pm_amount = map_option (\<lambda>x. \<lparr>am_value = x, am_currency = ''USD''\<rparr>) v,
     pm_accepts = [], pm_standard = None, pm_custom = None\<rparr>"

text \<open>Search is free everywhere, a read costs 0.001; an article costs 0.002 and may not be trained on.\<close>

definition sample_document :: rsl_document where
  "sample_document =
    [\<lparr>ct_url = ''/'', ct_server = None, ct_encrypted = None, ct_lastmod = None,
      ct_licenses = [sample_license [UseSearch] [] (Some (sample_price PayFree None)), sample_license [UseAiAll] [] (Some (sample_price PayCrawl (Some (1/1000))))]\<rparr>,
     \<lparr>ct_url = ''/a/*'', ct_server = None, ct_encrypted = None, ct_lastmod = None,
      ct_licenses = [sample_license [UseAiInput] [UseAiTrain] (Some (sample_price PayCrawl (Some (2/1000))))]\<rparr>]"

lemma sample_applicable: "applicable sample_document ''/a/x'' None = rev sample_document"
  by code_simp

lemma sample_terms:
  obtains T where "terms_for_url Some sample_document ''/a/x'' None = Some T"
    "map_of (tm_usage T) UseAiTrain = Some False" "map_of (tm_usage T) UseSearch = Some True"
    "tm_read T = Some \<lparr>of_type = PayCrawl, of_amount = Some \<lparr>am_value = 2/1000, am_currency = ''USD''\<rparr>, of_accepts = [], of_scope = ''/a/*'',
       of_license = None\<rparr>"
proof -
  have "rev sample_document \<noteq> []" by (simp add: sample_document_def)
  then obtain s ss where a: "applicable sample_document ''/a/x'' None = s # ss" unfolding sample_applicable by (cases "rev sample_document") auto
  then obtain T where T: "terms_for_url Some sample_document ''/a/x'' None = Some T" by (simp add: terms_for_url_def Let_def)
  from T show ?thesis
  proof (rule terms_cases)
    fix path
    assume "Some ''/a/x'' = Some path" and u: "\<And>t. map_of (tm_usage T) t = usage_verdict (applicable sample_document path None) t"
      and r: "tm_read T = map_option fst (read_offer (applicable sample_document path None))"
    then have p: "path = ''/a/x''" by simp
    show ?thesis
      by (rule that [OF T]; unfold u r p sample_applicable)
        (simp_all add: sample_document_def usage_verdict_def usage_covers_def sample_license_def sample_price_def
          priced_grants_def truthy_text_def)
  qed
qed

theorem use_answered_by_first_scope_witness:
  "(\<exists>i. governs sample_document ''/a/x'' None (\<lambda>c. says_usage c UseAiTrain \<noteq> None) i \<and> says_usage (sample_document ! i) UseAiTrain = Some False) \<and>
   (\<exists>i. governs sample_document ''/a/x'' None (\<lambda>c. says_usage c UseSearch \<noteq> None) i \<and> says_usage (sample_document ! i) UseSearch = Some True)"
  by (rule sample_terms) (use use_answered_by_first_scope [of Some sample_document "''/a/x''" None _ "''/a/x''"] in blast)

theorem offer_from_granting_scope_witness:
  "\<exists>i l p. governs sample_document ''/a/x'' None (\<lambda>c. \<exists>l p. offers c l p) i \<and> offers (sample_document ! i) l p \<and> pm_type p = PayCrawl \<and>
    pm_amount p = Some \<lparr>am_value = 2/1000, am_currency = ''USD''\<rparr>"
proof (rule sample_terms)
  fix T
  assume T: "terms_for_url Some sample_document ''/a/x'' None = Some T"
    and r: "tm_read T = Some \<lparr>of_type = PayCrawl, of_amount = Some \<lparr>am_value = 2/1000, am_currency = ''USD''\<rparr>, of_accepts = [], of_scope = ''/a/*'',
       of_license = None\<rparr>"
  from offer_from_granting_scope [OF T refl r] show ?thesis by (simp, metis)
qed

end
