(* ===== verification/BuyerPolicy.thy ===== *)
theory BuyerPolicy
  imports RslTerms
begin

text \<open>
  What the buying agent may spend on, \<open>packages/wayfarer/src/decide.ts\<close> and \<open>origin-policy.ts\<close>: the origin
  check, the one spend gate every paying path goes through, and the greedy decision over the appraised
  candidates. \<open>new URL\<close> is a parameter. A refusal carries its reason as a constructor; the sentence made
  of it is left out. Prices and budgets are exact rationals.
\<close>

section \<open>Where the money goes\<close>

text \<open>The parts of a parsed URL the code reads: \<open>host\<close>, which has the port, and \<open>hostname\<close>.\<close>

record web_url =
  wu_host :: string
  wu_hostname :: string

type_synonym url_parser = "string \<Rightarrow> web_url option"

definition norm_host :: "string option \<Rightarrow> string option" where
  "norm_host host = (case host of None \<Rightarrow> None | Some h \<Rightarrow> truthy_text (Some (js_lower (js_trim h))))"

text \<open>\<open>encodeURIComponent\<close> of a character: itself when unreserved, else its UTF-8 bytes in capital hexadecimal.\<close>

definition hex_upper :: "nat \<Rightarrow> char" where
  "hex_upper n = ''0123456789ABCDEF'' ! n"

definition percent_byte :: "nat \<Rightarrow> string" where
  "percent_byte b = [CHR ''%'', hex_upper (b div 16), hex_upper (b mod 16)]"

definition encode_char :: "char \<Rightarrow> string" where
  "encode_char c = (let n = of_char c :: nat in
     if is_digit c \<or> CHR ''A'' \<le> c \<and> c \<le> CHR ''Z'' \<or> CHR ''a'' \<le> c \<and> c \<le> CHR ''z'' \<or> c \<in> set ''-_.!~*()'' \<or> c = CHR 0x27 then [c]
     else if n < 128 then percent_byte n
     else percent_byte (192 + n div 64) @ percent_byte (128 + n mod 64))"

definition encode_component :: "string \<Rightarrow> string" where
  "encode_component s = concat (map encode_char s)"

definition trim_base :: "string \<Rightarrow> string" where
  "trim_base s = rev (dropWhile (\<lambda>c. c = CHR ''/'') (rev s))"

definition essay_url :: "string option \<Rightarrow> string \<Rightarrow> string option" where
  "essay_url gateBase slug = (case truthy_text gateBase of None \<Rightarrow> None
     | Some g \<Rightarrow> if slug = [] then None else Some (trim_base g @ ''/essays/'' @ encode_component slug))"

definition pay_url_of :: "url_parser \<Rightarrow> string option \<Rightarrow> string option \<Rightarrow> string \<Rightarrow> string option" where
  "pay_url_of U url gateBase slug =
     find (\<lambda>u. U u \<noteq> None) (concat (map (\<lambda>x. case truthy_text x of None \<Rightarrow> [] | Some u \<Rightarrow> [u]) [url, essay_url gateBase slug]))"

definition pay_host_of :: "url_parser \<Rightarrow> string option \<Rightarrow> string option \<Rightarrow> string \<Rightarrow> string option" where
  "pay_host_of U url gateBase slug = (case pay_url_of U url gateBase slug of None \<Rightarrow> None
     | Some u \<Rightarrow> map_option (\<lambda>x. js_lower (wu_hostname x)) (U u))"

definition host_of :: "url_parser \<Rightarrow> string \<Rightarrow> string option" where
  "host_of U u = map_option (\<lambda>x. js_lower (wu_host x)) (U u)"

datatype origin_verdict = OriginOk | InvalidTarget | InvalidGate | OffGate

definition authorize_origin :: "url_parser \<Rightarrow> string \<Rightarrow> string option \<Rightarrow> string list option \<Rightarrow> origin_verdict" where
  "authorize_origin U target gate allowDomains = (case host_of U target of None \<Rightarrow> InvalidTarget
     | Some host \<Rightarrow>
        (let rest = (if allowDomains \<noteq> None then OriginOk else if gate = None then OriginOk else OffGate) in
         case gate of None \<Rightarrow> rest
         | Some g \<Rightarrow> (case host_of U g of None \<Rightarrow> InvalidGate
             | Some gateHost \<Rightarrow> if host = gateHost then OriginOk else rest)))"

section \<open>The spend gate\<close>

record licence_verdict =
  lv_terms :: rsl_terms
  lv_token :: bool
  lv_failure :: "string option"
  lv_x402 :: bool

record decision_policy =
  dp_floor :: rat
  dp_max_paid :: nat
  dp_allow :: "string list option"
  dp_deny :: "string list option"
  dp_domain_cap :: "nat option"
  dp_approval :: "rat option"
  dp_kill :: bool
  dp_tolerance :: "rat option"
  dp_class :: "user_class option"
  dp_region :: "string option"

definition default_policy :: decision_policy where
  "default_policy = \<lparr>dp_floor = 35/100, dp_max_paid = 5, dp_allow = None, dp_deny = None, dp_domain_cap = None, dp_approval = None,
     dp_kill = False, dp_tolerance = Some (25/100), dp_class = None, dp_region = None\<rparr>"

datatype spend_reason = KillSwitch | HostDenied | HostUnknown | HostNotAllowed | AiInputProhibited | AiInputNotGranted
  | ClassProhibited | ClassNotGranted | RegionExcluded | RegionNotGranted | LicenceServerUnmet | OverPublished
  | MaxPaid | DomainCap | OverBudget | OverApproval

datatype spend_verdict = SpendOk | SpendSkip spend_reason | SpendApprove spend_reason

definition host_list :: "string list \<Rightarrow> string list" where
  "host_list hs = concat (map (\<lambda>h. case norm_host (Some h) of None \<Rightarrow> [] | Some x \<Rightarrow> [x]) hs)"

definition norm_region :: "string option \<Rightarrow> string option" where
  "norm_region r = (case r of None \<Rightarrow> None
     | Some s \<Rightarrow> truthy_text (Some (map (\<lambda>c. if CHR ''a'' \<le> c \<and> c \<le> CHR ''z'' then char_of (of_char c - 32 :: nat) else c) (js_trim s))))"

text \<open>The part of the gate that asks the publisher's terms; \<open>None\<close> when they have nothing to object.\<close>

definition licence_gate :: "decision_policy \<Rightarrow> rat \<Rightarrow> licence_verdict \<Rightarrow> spend_verdict option" where
  "licence_gate policy priceUsdc v =
     (let t = lv_terms v; klass = dp_class policy; region = norm_region (dp_region policy);
          user = map_of (tm_user t); named = filter (\<lambda>e. snd e) (tm_user t) in
      if map_of (tm_usage t) UseAiInput = Some False then Some (SpendSkip AiInputProhibited)
      else if map_of (tm_usage t) UseAiInput \<noteq> Some True then Some (SpendSkip AiInputNotGranted)
      else if (case klass of None \<Rightarrow> False | Some k \<Rightarrow> user k = Some False) then Some (SpendSkip ClassProhibited)
      else if named \<noteq> [] \<and> (case klass of None \<Rightarrow> True | Some k \<Rightarrow> user k \<noteq> Some True) then Some (SpendSkip ClassNotGranted)
      else if (case region of None \<Rightarrow> False | Some r \<Rightarrow> r \<in> set (tm_deny t)) then Some (SpendSkip RegionExcluded)
      else if tm_allow t \<noteq> [] \<and> (case region of None \<Rightarrow> True | Some r \<Rightarrow> r \<notin> set (tm_allow t)) then Some (SpendSkip RegionNotGranted)
      else if tm_obligation t = LicenseServer \<and> \<not> lv_token v \<and> \<not> lv_x402 v then Some (SpendSkip LicenceServerUnmet)
      else (case (tm_read t, dp_tolerance policy) of
          (Some r, Some tolerance) \<Rightarrow> (case of_amount r of
              Some a \<Rightarrow> if am_currency a = ''USD'' \<and> priceUsdc > am_value a * (1 + tolerance) then Some (SpendApprove OverPublished) else None
            | None \<Rightarrow> None)
        | _ \<Rightarrow> None))"

record spend_input =
  si_host :: "string option"
  si_price :: rat
  si_paid_host :: "nat option"
  si_paid :: "nat option"
  si_remaining :: "rat option"
  si_licence :: "licence_verdict option"

definition caps_gate :: "decision_policy \<Rightarrow> string option \<Rightarrow> spend_input \<Rightarrow> spend_verdict" where
  "caps_gate policy host x =
     (if (case si_paid x of None \<Rightarrow> False | Some n \<Rightarrow> n \<ge> dp_max_paid policy) then SpendSkip MaxPaid
      else if (case dp_domain_cap policy of None \<Rightarrow> False
          | Some cap \<Rightarrow> host \<noteq> None \<and> (case si_paid_host x of None \<Rightarrow> 0 | Some n \<Rightarrow> n) \<ge> cap) then SpendSkip DomainCap
      else if (case si_remaining x of None \<Rightarrow> False | Some r \<Rightarrow> si_price x > r) then SpendSkip OverBudget
      else if (case dp_approval policy of None \<Rightarrow> False | Some t \<Rightarrow> si_price x \<ge> t) then SpendApprove OverApproval
      else SpendOk)"

definition spend_gate :: "decision_policy \<Rightarrow> spend_input \<Rightarrow> spend_verdict" where
  "spend_gate policy x =
     (let host = norm_host (si_host x);
          denied = host_list (case dp_deny policy of None \<Rightarrow> [] | Some hs \<Rightarrow> hs) in
      if dp_kill policy then SpendSkip KillSwitch
      else if (case host of None \<Rightarrow> False | Some h \<Rightarrow> h \<in> set denied) then SpendSkip HostDenied
      else if (case dp_allow policy of None \<Rightarrow> False
          | Some hs \<Rightarrow> (case host of None \<Rightarrow> True | Some h \<Rightarrow> h \<notin> set (host_list hs)))
        then SpendSkip (if host = None then HostUnknown else HostNotAllowed)
      else (case si_licence x of None \<Rightarrow> caps_gate policy host x
        | Some v \<Rightarrow> (case licence_gate policy (si_price x) v of Some r \<Rightarrow> r | None \<Rightarrow> caps_gate policy host x)))"

section \<open>The decision\<close>

record appraised =
  ap_slug :: string
  ap_title :: string
  ap_url :: "string option"
  ap_price :: rat
  ap_relevance :: rat

datatype buy_action = Pay | Skip decide_reason | Cache | Approve spend_reason
  and decide_reason = BelowFloor | NoPayUrl | OffTheGate | BadOrigin | ByGate spend_reason

record buy_decision =
  bd_of :: appraised
  bd_action :: buy_action

text \<open>The sort key of \<open>b.relevance / b.price - a.relevance / a.price\<close>: a price of zero divides to infinity,
  which comes first; two infinities differ by \<open>NaN\<close>, which the sort reads as equal. The quotient of zero by
  zero, for which the comparison is not an order, is put last.\<close>

definition density_key :: "appraised \<Rightarrow> int \<times> rat" where
  "density_key c = (if ap_price c = 0 then (if ap_relevance c > 0 then 0 else 2, 0) else (1, - (ap_relevance c / ap_price c)))"

definition rank_candidates :: "appraised list \<Rightarrow> appraised list" where
  "rank_candidates cs = sort_key density_key cs"

record decide_context =
  cx_prior :: "(string \<times> nat) list"
  cx_gate :: "string option"
  cx_licences :: "string \<Rightarrow> licence_verdict option"

record decide_state =
  ds_remaining :: rat
  ds_paid :: nat
  ds_hosts :: "(string, nat) js_map"

definition paid_hosts_of :: "(string \<times> nat) list \<Rightarrow> (string, nat) js_map" where
  "paid_hosts_of prior = foldl (\<lambda>m (h, n). AList.update (case norm_host (Some h) of Some x \<Rightarrow> x | None \<Rightarrow> h) n m) [] prior"

definition host_count :: "decide_state \<Rightarrow> string option \<Rightarrow> nat" where
  "host_count s host = (case host of None \<Rightarrow> 0 | Some h \<Rightarrow> (case map_of (ds_hosts s) h of None \<Rightarrow> 0 | Some n \<Rightarrow> n))"

definition origin_skip :: "url_parser \<Rightarrow> decide_context \<Rightarrow> decision_policy \<Rightarrow> appraised \<Rightarrow> decide_reason option" where
  "origin_skip U cx policy c =
     (case pay_url_of U (ap_url c) (cx_gate cx) (ap_slug c) of
        None \<Rightarrow> if pay_host_of U None (cx_gate cx) ''_'' \<noteq> None \<and> dp_allow policy = None then Some NoPayUrl else None
      | Some u \<Rightarrow> (case authorize_origin U u (cx_gate cx) (dp_allow policy) of
          OriginOk \<Rightarrow> None | OffGate \<Rightarrow> Some OffTheGate | _ \<Rightarrow> Some BadOrigin))"

definition gate_input :: "url_parser \<Rightarrow> decide_context \<Rightarrow> appraised \<Rightarrow> decide_state \<Rightarrow> spend_input" where
  "gate_input U cx c s =
     (let host = pay_host_of U (ap_url c) (cx_gate cx) (ap_slug c) in
      \<lparr>si_host = host, si_price = ap_price c, si_paid_host = Some (host_count s host), si_paid = Some (ds_paid s),
       si_remaining = Some (ds_remaining s),
       si_licence = (case pay_url_of U (ap_url c) (cx_gate cx) (ap_slug c) of None \<Rightarrow> None | Some u \<Rightarrow> cx_licences cx u)\<rparr>)"

definition decide_step :: "url_parser \<Rightarrow> string set \<Rightarrow> decision_policy \<Rightarrow> decide_context \<Rightarrow> appraised \<Rightarrow> decide_state \<Rightarrow> buy_action \<times> decide_state" where
  "decide_step U cached policy cx c s =
     (if ap_slug c \<in> cached then (Cache, s)
      else if ap_relevance c < dp_floor policy then (Skip BelowFloor, s)
      else (case origin_skip U cx policy c of Some r \<Rightarrow> (Skip r, s)
        | None \<Rightarrow> (case spend_gate policy (gate_input U cx c s) of
            SpendSkip r \<Rightarrow> (Skip (ByGate r), s)
          | SpendApprove r \<Rightarrow> (Approve r, s)
          | SpendOk \<Rightarrow> (Pay, \<lparr>ds_remaining = ds_remaining s - ap_price c, ds_paid = Suc (ds_paid s),
              ds_hosts = (case pay_host_of U (ap_url c) (cx_gate cx) (ap_slug c) of None \<Rightarrow> ds_hosts s
                | Some h \<Rightarrow> AList.update h (host_count s (Some h) + 1) (ds_hosts s))\<rparr>))))"

fun decide_loop :: "url_parser \<Rightarrow> string set \<Rightarrow> decision_policy \<Rightarrow> decide_context \<Rightarrow> appraised list \<Rightarrow> decide_state \<Rightarrow>
    buy_decision list \<times> decide_state" where
  "decide_loop U cached policy cx [] s = ([], s)"
| "decide_loop U cached policy cx (c # cs) s =
     (case decide_step U cached policy cx c s of (a, s1) \<Rightarrow>
        (case decide_loop U cached policy cx cs s1 of (ds, s2) \<Rightarrow> (\<lparr>bd_of = c, bd_action = a\<rparr> # ds, s2)))"

definition decide_start :: "rat \<Rightarrow> decide_context \<Rightarrow> decide_state" where
  "decide_start budget cx = \<lparr>ds_remaining = budget, ds_paid = 0, ds_hosts = paid_hosts_of (cx_prior cx)\<rparr>"

definition decide_buys :: "url_parser \<Rightarrow> appraised list \<Rightarrow> rat \<Rightarrow> string set \<Rightarrow> decision_policy \<Rightarrow> decide_context \<Rightarrow> buy_decision list" where
  "decide_buys U cs budget cached policy cx = fst (decide_loop U cached policy cx (rank_candidates cs) (decide_start budget cx))"

section \<open>The gate's answer\<close>

lemma licence_gate_refuses: "licence_gate policy p v \<noteq> Some SpendOk"
  by (simp add: licence_gate_def Let_def split: option.split)

lemma spend_gate_Ok:
  assumes "spend_gate policy x = SpendOk"
  shows "\<not> dp_kill policy"
    "case dp_deny policy of None \<Rightarrow> True | Some hs \<Rightarrow> (case norm_host (si_host x) of None \<Rightarrow> True | Some h \<Rightarrow> h \<notin> set (host_list hs))"
    "case dp_allow policy of None \<Rightarrow> True | Some hs \<Rightarrow> (case norm_host (si_host x) of None \<Rightarrow> False | Some h \<Rightarrow> h \<in> set (host_list hs))"
    "case si_licence x of None \<Rightarrow> True | Some v \<Rightarrow> licence_gate policy (si_price x) v = None"
    "caps_gate policy (norm_host (si_host x)) x = SpendOk"
proof -
  from assms show k: "\<not> dp_kill policy" by (auto simp: spend_gate_def Let_def)
  from assms show "case dp_deny policy of None \<Rightarrow> True | Some hs \<Rightarrow> (case norm_host (si_host x) of None \<Rightarrow> True | Some h \<Rightarrow> h \<notin> set (host_list hs))"
    by (auto simp: spend_gate_def Let_def split: option.split if_splits)
  from assms show "case dp_allow policy of None \<Rightarrow> True | Some hs \<Rightarrow> (case norm_host (si_host x) of None \<Rightarrow> False | Some h \<Rightarrow> h \<in> set (host_list hs))"
    by (auto simp: spend_gate_def Let_def split: option.split if_splits)
  have r: "(case si_licence x of None \<Rightarrow> caps_gate policy (norm_host (si_host x)) x
      | Some v \<Rightarrow> (case licence_gate policy (si_price x) v of Some r \<Rightarrow> r | None \<Rightarrow> caps_gate policy (norm_host (si_host x)) x)) = SpendOk"
    using assms by (simp add: spend_gate_def Let_def split: if_splits)
  then show "case si_licence x of None \<Rightarrow> True | Some v \<Rightarrow> licence_gate policy (si_price x) v = None"
    "caps_gate policy (norm_host (si_host x)) x = SpendOk"
    using licence_gate_refuses by (auto split: option.splits)
qed

lemma licence_gate_None:
  assumes "licence_gate policy p v = None"
  shows "map_of (tm_usage (lv_terms v)) UseAiInput = Some True"
    "case dp_class policy of None \<Rightarrow> filter snd (tm_user (lv_terms v)) = []
       | Some k \<Rightarrow> map_of (tm_user (lv_terms v)) k \<noteq> Some False \<and> (filter snd (tm_user (lv_terms v)) = [] \<or> map_of (tm_user (lv_terms v)) k = Some True)"
    "tm_obligation (lv_terms v) = LicenseServer \<Longrightarrow> lv_token v \<or> lv_x402 v"
    "tm_read (lv_terms v) = Some r \<Longrightarrow> of_amount r = Some a \<Longrightarrow> am_currency a = ''USD'' \<Longrightarrow> dp_tolerance policy = Some tol \<Longrightarrow>
      p \<le> am_value a * (1 + tol)"
  using assms by (auto simp: licence_gate_def Let_def split: option.splits if_splits)

lemma caps_gate_Ok:
  assumes "caps_gate policy host x = SpendOk"
  shows "si_paid x = Some n \<Longrightarrow> n < dp_max_paid policy"
    "si_paid_host x = Some m \<Longrightarrow> dp_domain_cap policy = Some cap \<Longrightarrow> host \<noteq> None \<Longrightarrow> m < cap"
    "si_remaining x = Some r \<Longrightarrow> si_price x \<le> r"
    "dp_approval policy = Some t \<Longrightarrow> si_price x < t"
  using assms by (auto simp: caps_gate_def split: option.splits if_splits)

lemma decide_step_Pay:
  assumes "decide_step U cached policy cx c s = (Pay, s')"
  shows "ap_slug c \<notin> cached" "dp_floor policy \<le> ap_relevance c" "origin_skip U cx policy c = None"
    "spend_gate policy (gate_input U cx c s) = SpendOk"
    "ds_remaining s' = ds_remaining s - ap_price c" "ds_paid s' = Suc (ds_paid s)"
    "ds_hosts s' = (case pay_host_of U (ap_url c) (cx_gate cx) (ap_slug c) of None \<Rightarrow> ds_hosts s
       | Some h \<Rightarrow> AList.update h (host_count s (Some h) + 1) (ds_hosts s))"
  using assms by (auto simp: decide_step_def split: if_splits option.splits spend_verdict.splits)

lemma decide_step_other:
  assumes "decide_step U cached policy cx c s = (a, s')" "a \<noteq> Pay"
  shows "s' = s"
  using assms by (auto simp: decide_step_def split: if_splits option.splits spend_verdict.splits)

section \<open>Runs of the loop\<close>

definition paid_of :: "buy_decision list \<Rightarrow> appraised list" where
  "paid_of ds = map bd_of (filter (\<lambda>d. bd_action d = Pay) ds)"

lemma decide_loop_of: "map bd_of (fst (decide_loop U cached policy cx cs s)) = cs"
  by (induction cs arbitrary: s) (auto split: prod.splits, metis fst_conv)

text \<open>Every paid candidate was paid in some state of the loop.\<close>

lemma decide_loop_paid:
  "d \<in> set (fst (decide_loop U cached policy cx cs s)) \<Longrightarrow> bd_action d = Pay \<Longrightarrow> \<exists>t t'. decide_step U cached policy cx (bd_of d) t = (Pay, t')"
proof (induction cs arbitrary: s)
  case (Cons c cs)
  obtain a s1 where st: "decide_step U cached policy cx c s = (a, s1)" by fastforce
  obtain ds s2 where lp: "decide_loop U cached policy cx cs s1 = (ds, s2)" by fastforce
  from Cons.prems(1) st lp consider "d = \<lparr>bd_of = c, bd_action = a\<rparr>" | "d \<in> set ds" by auto
  then show ?case
  proof cases
    case 1
    with st Cons.prems(2) show ?thesis by auto
  next
    case 2
    with Cons.IH [of s1] lp Cons.prems(2) show ?thesis by simp
  qed
qed simp

lemma decide_loop_sums:
  assumes "decide_loop U cached policy cx cs s = (ds, s')"
  shows "ds_remaining s' = ds_remaining s - sum_list (map ap_price (paid_of ds)) \<and> ds_paid s' = ds_paid s + length (paid_of ds) \<and>
    host_count s' (Some h) = host_count s (Some h) + length (filter (\<lambda>c. pay_host_of U (ap_url c) (cx_gate cx) (ap_slug c) = Some h) (paid_of ds))"
  using assms
proof (induction cs arbitrary: s ds)
  case Nil
  then show ?case by (simp add: paid_of_def)
next
  case (Cons c cs)
  obtain a s1 where st: "decide_step U cached policy cx c s = (a, s1)" by fastforce
  from Cons.prems st obtain ds1 where lp: "decide_loop U cached policy cx cs s1 = (ds1, s')" and d: "ds = \<lparr>bd_of = c, bd_action = a\<rparr> # ds1"
    by (auto split: prod.splits)
  note ih = Cons.IH [OF lp]
  show ?case
  proof (cases "a = Pay")
    case True
    note f = decide_step_Pay [OF st [unfolded True]]
    have "host_count s1 (Some h) = host_count s (Some h) + (if pay_host_of U (ap_url c) (cx_gate cx) (ap_slug c) = Some h then 1 else 0)"
      using f(7) by (auto simp: host_count_def map_of_update split: option.splits)
    with ih f(5,6) d True show ?thesis by (simp add: paid_of_def)
  next
    case False
    with decide_step_other [OF st False] ih d show ?thesis by (simp add: paid_of_def)
  qed
qed

text \<open>The limits: what is left never turns negative, and a cap holds for a run that started within it.\<close>

definition within_limits :: "decision_policy \<Rightarrow> string \<Rightarrow> nat \<Rightarrow> nat \<Rightarrow> decide_state \<Rightarrow> bool" where
  "within_limits policy h paid before s \<longleftrightarrow> 0 \<le> ds_remaining s \<and> ds_paid s \<le> max paid (dp_max_paid policy) \<and>
     (case dp_domain_cap policy of None \<Rightarrow> True | Some cap \<Rightarrow> host_count s (Some h) \<le> max before cap)"

lemma decide_step_limits:
  assumes "decide_step U cached policy cx c s = (a, s1)" "within_limits policy h paid before s" "norm_host (Some h) \<noteq> None"
  shows "within_limits policy h paid before s1"
proof (cases "a = Pay")
  case True
  note f = decide_step_Pay [OF assms(1) [unfolded True]]
  note g = caps_gate_Ok [OF spend_gate_Ok(5) [OF f(4)]]
  let ?host = "pay_host_of U (ap_url c) (cx_gate cx) (ap_slug c)"
  have "host_count s1 (Some h) \<le> max before cap" if cap: "dp_domain_cap policy = Some cap" for cap
  proof (cases "?host = Some h")
    case h: True
    then have "host_count s (Some h) < cap" using g(2) [OF _ cap] assms(3) by (simp add: gate_input_def Let_def)
    with f(7) h show ?thesis by (simp add: host_count_def map_of_update)
  next
    case False
    with f(7) have "host_count s1 (Some h) = host_count s (Some h)" by (auto simp: host_count_def map_of_update split: option.splits)
    with assms(2) cap show ?thesis by (simp add: within_limits_def)
  qed
  moreover have "ds_paid s < dp_max_paid policy" "ap_price c \<le> ds_remaining s"
    using g(1,3) by (simp_all add: gate_input_def Let_def)
  ultimately show ?thesis using f(5,6) by (simp add: within_limits_def le_max_iff_disj split: option.split)
next
  case False
  with decide_step_other [OF assms(1) False] assms(2) show ?thesis by simp
qed

lemma decide_loop_limits:
  assumes "decide_loop U cached policy cx cs s = (ds, s')" "within_limits policy h paid before s" "norm_host (Some h) \<noteq> None"
  shows "within_limits policy h paid before s'"
  using assms(1,2)
proof (induction cs arbitrary: s ds)
  case (Cons c cs)
  obtain a s1 where st: "decide_step U cached policy cx c s = (a, s1)" by fastforce
  with Cons.prems obtain ds1 where "decide_loop U cached policy cx cs s1 = (ds1, s')" by (auto split: prod.splits)
  with Cons.IH decide_step_limits [OF st Cons.prems(2) assms(3)] show ?case by blast
qed simp

lemma paid_step:
  assumes "d \<in> set (decide_buys U cs budget cached policy cx)" "bd_action d = Pay"
  obtains s where "origin_skip U cx policy (bd_of d) = None" "spend_gate policy (gate_input U cx (bd_of d) s) = SpendOk"
    "dp_floor policy \<le> ap_relevance (bd_of d)"
proof -
  from decide_loop_paid [OF assms(1) [unfolded decide_buys_def] assms(2)] obtain t t'
    where "decide_step U cached policy cx (bd_of d) t = (Pay, t')" by blast
  from decide_step_Pay [OF this] that show ?thesis by blast
qed

lemma origin_skip_None:
  assumes "origin_skip U cx policy c = None" "dp_allow policy = None"
  shows "case (cx_gate cx, pay_url_of U (ap_url c) (cx_gate cx) (ap_slug c)) of
       (Some g, Some u) \<Rightarrow> host_of U u = host_of U g | _ \<Rightarrow> pay_host_of U None (cx_gate cx) ''_'' = None"
  using assms by (auto simp: origin_skip_def authorize_origin_def pay_host_of_def pay_url_of_def essay_url_def truthy_text_def Let_def
      split: option.splits if_splits origin_verdict.splits)

section \<open>Properties\<close>

text \<open>Nothing is paid against the operator's policy or the publisher's terms. A candidate that is paid
  meets the relevance floor; the kill switch is off; the host the money goes to, taken from the URL that
  will be fetched, is not on the deny list and is on the allow list when there is one; without an allow
  list its host and port are those of the configured gate; where terms are published they grant
  \<open>ai-input\<close>, are not addressed to another class of user, and a licence server they name is satisfied; and
  the price is below the approval threshold.\<close>

theorem paid_is_authorised:
  assumes "d \<in> set (decide_buys U cs budget cached policy cx)" "bd_action d = Pay" "c = bd_of d"
    "host = pay_host_of U (ap_url c) (cx_gate cx) (ap_slug c)" "url = pay_url_of U (ap_url c) (cx_gate cx) (ap_slug c)"
  shows "\<not> dp_kill policy \<and> dp_floor policy \<le> ap_relevance c \<and>
    (case dp_deny policy of None \<Rightarrow> True | Some hs \<Rightarrow> (case norm_host host of None \<Rightarrow> True | Some h \<Rightarrow> h \<notin> set (host_list hs))) \<and>
    (case dp_allow policy of
        Some hs \<Rightarrow> (case norm_host host of None \<Rightarrow> False | Some h \<Rightarrow> h \<in> set (host_list hs))
      | None \<Rightarrow> (case (cx_gate cx, url) of (Some g, Some u) \<Rightarrow> host_of U u = host_of U g | _ \<Rightarrow> pay_host_of U None (cx_gate cx) ''_'' = None)) \<and>
    (case url of None \<Rightarrow> True | Some u \<Rightarrow> (case cx_licences cx u of None \<Rightarrow> True
      | Some v \<Rightarrow> map_of (tm_usage (lv_terms v)) UseAiInput = Some True \<and>
          (case dp_class policy of None \<Rightarrow> filter snd (tm_user (lv_terms v)) = []
            | Some k \<Rightarrow> map_of (tm_user (lv_terms v)) k \<noteq> Some False) \<and>
          (tm_obligation (lv_terms v) = InlineTerms \<or> lv_token v \<or> lv_x402 v))) \<and>
    (case dp_approval policy of None \<Rightarrow> True | Some t \<Rightarrow> ap_price c < t)"
proof -
  from paid_step [OF assms(1,2)] obtain s where o': "origin_skip U cx policy c = None"
    and g: "spend_gate policy (gate_input U cx c s) = SpendOk" and f: "dp_floor policy \<le> ap_relevance c"
    unfolding assms(3) by blast
  note ok = spend_gate_Ok [OF g]
  have x: "si_host (gate_input U cx c s) = host" "si_price (gate_input U cx c s) = ap_price c"
    "si_licence (gate_input U cx c s) = (case url of None \<Rightarrow> None | Some u \<Rightarrow> cx_licences cx u)"
    by (simp_all add: gate_input_def Let_def assms(4,5))
  have allow: "case dp_allow policy of
        Some hs \<Rightarrow> (case norm_host host of None \<Rightarrow> False | Some h \<Rightarrow> h \<in> set (host_list hs))
      | None \<Rightarrow> (case (cx_gate cx, url) of (Some g, Some u) \<Rightarrow> host_of U u = host_of U g | _ \<Rightarrow> pay_host_of U None (cx_gate cx) ''_'' = None)"
    using ok(3) origin_skip_None [OF o'] unfolding x(1) assms(5) [symmetric] by (cases "dp_allow policy") simp_all
  have lic: "case url of None \<Rightarrow> True | Some u \<Rightarrow> (case cx_licences cx u of None \<Rightarrow> True
      | Some v \<Rightarrow> map_of (tm_usage (lv_terms v)) UseAiInput = Some True \<and>
          (case dp_class policy of None \<Rightarrow> filter snd (tm_user (lv_terms v)) = []
            | Some k \<Rightarrow> map_of (tm_user (lv_terms v)) k \<noteq> Some False) \<and>
          (tm_obligation (lv_terms v) = InlineTerms \<or> lv_token v \<or> lv_x402 v))"
  proof (cases "case url of None \<Rightarrow> None | Some u \<Rightarrow> cx_licences cx u")
    case None
    then show ?thesis by (auto split: option.splits)
  next
    case (Some v)
    with ok(4) have n: "licence_gate policy (ap_price c) v = None" unfolding x by simp
    have "tm_obligation (lv_terms v) = InlineTerms \<or> lv_token v \<or> lv_x402 v"
      using licence_gate_None(3) [OF n] by (cases "tm_obligation (lv_terms v)") auto
    with Some licence_gate_None(1,2) [OF n] show ?thesis by (auto split: option.splits)
  qed
  have "case dp_approval policy of None \<Rightarrow> True | Some t \<Rightarrow> ap_price c < t"
    using caps_gate_Ok(4) [OF ok(5)] by (simp add: x split: option.split)
  with allow lic f ok(1,2) show ?thesis unfolding x(1) by blast
qed

text \<open>The plan stays within its limits. Whatever the candidates, the prices of those to be paid add up to
  no more than the budget, there are no more of them than the cap, no host gets more than the cap per
  host lets it have on top of what it was paid before, and every candidate is decided exactly once.\<close>

theorem plan_within_limits:
  assumes "0 \<le> budget" "norm_host (Some h) \<noteq> None"
  shows "sum_list (map ap_price (paid_of (decide_buys U cs budget cached policy cx))) \<le> budget \<and>
    length (paid_of (decide_buys U cs budget cached policy cx)) \<le> dp_max_paid policy \<and>
    (case dp_domain_cap policy of None \<Rightarrow> True | Some cap \<Rightarrow>
      host_count (decide_start budget cx) (Some h) +
        length (filter (\<lambda>c. pay_host_of U (ap_url c) (cx_gate cx) (ap_slug c) = Some h) (paid_of (decide_buys U cs budget cached policy cx)))
      \<le> max (host_count (decide_start budget cx) (Some h)) cap) \<and>
    mset (map bd_of (decide_buys U cs budget cached policy cx)) = mset cs"
proof -
  let ?s0 = "decide_start budget cx"
  obtain ds s' where lp: "decide_loop U cached policy cx (rank_candidates cs) ?s0 = (ds, s')" by fastforce
  have ds: "decide_buys U cs budget cached policy cx = ds" by (simp add: decide_buys_def lp)
  have "within_limits policy h 0 (host_count ?s0 (Some h)) ?s0"
    using assms(1) by (simp add: within_limits_def decide_start_def split: option.split)
  from decide_loop_limits [OF lp this assms(2)] have w: "within_limits policy h 0 (host_count ?s0 (Some h)) s'" .
  have z: "ds_paid ?s0 = 0" "ds_remaining ?s0 = budget" by (simp_all add: decide_start_def)
  have "map bd_of ds = rank_candidates cs" using decide_loop_of [of U cached policy cx "rank_candidates cs" ?s0] by (simp add: lp)
  then have "mset (map bd_of ds) = mset cs" by (simp add: rank_candidates_def)
  with decide_loop_sums [OF lp, of h] w z show ?thesis unfolding ds within_limits_def by (auto split: option.splits)
qed

section \<open>Witnesses\<close>

definition sample_parser :: url_parser where
  "sample_parser u = (if prefix ''https://gate.example/'' u then Some \<lparr>wu_host = ''gate.example'', wu_hostname = ''gate.example''\<rparr>
     else if prefix ''https://other.example/'' u then Some \<lparr>wu_host = ''other.example'', wu_hostname = ''other.example''\<rparr> else None)"

definition sample_context :: decide_context where
  "sample_context = \<lparr>cx_prior = [], cx_gate = Some ''https://gate.example/'', cx_licences = (\<lambda>u. None)\<rparr>"

definition sample_candidate :: "string \<Rightarrow> rat \<Rightarrow> appraised" where
  "sample_candidate slug price = \<lparr>ap_slug = slug, ap_title = slug, ap_url = None, ap_price = price, ap_relevance = 1\<rparr>"

definition sample_off_gate :: appraised where
  "sample_off_gate = \<lparr>ap_slug = ''x'', ap_title = ''x'', ap_url = Some ''https://other.example/x'', ap_price = 1/100, ap_relevance = 1\<rparr>"

text \<open>Three candidates: the cheap one on the gate is paid, the one elsewhere is skipped, the dear one is over budget.\<close>

lemma sample_plan:
  "decide_buys sample_parser [sample_candidate ''b'' (2/10), sample_off_gate, sample_candidate ''a'' (1/10)] (2/10) {} default_policy sample_context =
    [\<lparr>bd_of = sample_off_gate, bd_action = Skip OffTheGate\<rparr>, \<lparr>bd_of = sample_candidate ''a'' (1/10), bd_action = Pay\<rparr>,
     \<lparr>bd_of = sample_candidate ''b'' (2/10), bd_action = Skip (ByGate OverBudget)\<rparr>]"
  by code_simp

lemma sample_pay_url: "pay_url_of sample_parser None (Some ''https://gate.example/'') ''a'' = Some ''https://gate.example/essays/a''"
  by code_simp

theorem paid_is_authorised_witness:
  "dp_floor default_policy \<le> ap_relevance (sample_candidate ''a'' (1/10)) \<and>
    host_of sample_parser ''https://gate.example/essays/a'' = host_of sample_parser ''https://gate.example/''"
proof -
  let ?d = "\<lparr>bd_of = sample_candidate ''a'' (1/10), bd_action = Pay\<rparr>"
  have d: "?d \<in> set (decide_buys sample_parser [sample_candidate ''b'' (2/10), sample_off_gate, sample_candidate ''a'' (1/10)] (2/10) {}
      default_policy sample_context)" unfolding sample_plan by simp
  have f: "cx_gate sample_context = Some ''https://gate.example/''" "ap_url (sample_candidate ''a'' (1/10)) = None"
    "ap_slug (sample_candidate ''a'' (1/10)) = ''a''" "dp_allow default_policy = None"
    by (simp_all add: sample_context_def sample_candidate_def default_policy_def)
  from paid_is_authorised [OF d _ refl refl refl] show ?thesis by (simp add: f sample_pay_url)
qed

theorem plan_within_limits_witness:
  "sum_list (map ap_price (paid_of (decide_buys sample_parser [sample_candidate ''b'' (2/10), sample_off_gate, sample_candidate ''a'' (1/10)]
      (2/10) {} default_policy sample_context))) \<le> 2/10"
proof -
  have "norm_host (Some ''gate.example'') \<noteq> None" by code_simp
  from plan_within_limits [OF _ this, of "2/10"] show ?thesis by simp
qed

end
