(* ===== verification/BuyerPay.thy ===== *)
theory BuyerPay
  imports BuyerPolicy Settle Attribution
begin

text \<open>
  How the buying agent pays, \<open>packages/wayfarer/src/buyer.ts\<close>, \<open>paidFetch.ts\<close> and the priced and paying loops
  of \<open>agent.ts\<close>: the probe of a gate, the guards before signing, the paid fetch and what its answer means,
  and the run that spends a budget over the plan of \<open>BuyerPolicy\<close>. A gate is untrusted, so what it sends is
  parsed JSON of any shape (an array in the place of an amount is left out). The network, the decoders of
  base64 and JSON and the signer are parameters; the content of a read, the held licences and the log are
  left out. A thrown exception that nothing catches is a value of its own.
\<close>

section \<open>What a gate quotes\<close>

record quoted =
  qu_price :: rat
  qu_atomic :: json
  qu_nonce :: json
  qu_req :: json
  qu_legs :: "json option"
  qu_resource :: json

definition json_falsy :: "json \<Rightarrow> bool" where
  "json_falsy j \<longleftrightarrow> j \<in> {JUndefined, JNull, JBool False, JNumber 0, JString []}"

text \<open>\<open>x?.[0]\<close> and \<open>x.length\<close> of a parsed value.\<close>

definition json_first :: "json \<Rightarrow> json" where
  "json_first j = (case j of JArray (x # _) \<Rightarrow> x | JString (c # _) \<Rightarrow> JString [c] | JObject fs \<Rightarrow> json_field fs ''0'' | _ \<Rightarrow> JUndefined)"

definition json_length_above_one :: "json \<Rightarrow> bool" where
  "json_length_above_one j = (case j of JArray js \<Rightarrow> length js > 1 | JString s \<Rightarrow> length s > 1
     | JObject fs \<Rightarrow> (case json_field fs ''length'' of JNumber q \<Rightarrow> q > 1 | _ \<Rightarrow> False) | _ \<Rightarrow> False)"

definition many_legs :: "json option \<Rightarrow> bool" where
  "many_legs legs = (case legs of None \<Rightarrow> False | Some j \<Rightarrow> \<not> json_falsy j \<and> json_length_above_one j)"

text \<open>\<open>BigInt(x)\<close>; \<open>None\<close> is the exception.\<close>

definition bigint_of :: "json \<Rightarrow> int option" where
  "bigint_of j = (case j of JString s \<Rightarrow> js_bigint s | JBool b \<Rightarrow> Some (if b then 1 else 0)
     | JNumber q \<Rightarrow> if of_int \<lfloor>q\<rfloor> = q then Some \<lfloor>q\<rfloor> else None | _ \<Rightarrow> None)"

fun sum_amounts :: "json list \<Rightarrow> int option" where
  "sum_amounts [] = Some 0"
| "sum_amounts (l # ls) = (case (bigint_of (json_prop l ''amount''), sum_amounts ls) of (Some a, Some s) \<Rightarrow> Some (a + s) | _ \<Rightarrow> None)"

text \<open>\<open>quotedTotalAtomic\<close>: only an array has \<open>reduce\<close>.\<close>

definition quoted_total :: "quoted \<Rightarrow> int option" where
  "quoted_total q = (if many_legs (qu_legs q)
     then (case qu_legs q of Some (JArray ls) \<Rightarrow> sum_amounts ls | _ \<Rightarrow> None)
     else bigint_of (qu_atomic q))"

definition max_atomic_digits :: nat where "max_atomic_digits = 15"

definition nonnegative_atomic :: "json \<Rightarrow> bool" where
  "nonnegative_atomic j = (case j of JString s \<Rightarrow> all_digits s \<and> length s \<le> max_atomic_digits | _ \<Rightarrow> False)"

record http_reply =
  ht_status :: nat
  ht_header :: "string \<Rightarrow> string option"
  ht_json :: "json option"
  ht_body :: "string option"

text \<open>The network answers the \<open>n\<close>-th request of the run, for a URL and the payment it carries; \<open>None\<close> is a
  request that throws. \<open>dec\<close> is base64 and JSON together.\<close>

record buyer_world =
  bw_reply :: "nat \<Rightarrow> string \<Rightarrow> string option \<Rightarrow> http_reply option"
  bw_decode :: "string \<Rightarrow> json option"
  bw_encode :: "json \<Rightarrow> string"

datatype probe_outcome = ProbeGated quoted | ProbeFree | ProbeNotFound | ProbeUnreachable nat | ProbeMalformed | ProbeThrew

definition header_text :: "http_reply \<Rightarrow> string \<Rightarrow> string option" where
  "header_text r k = truthy_text (ht_header r k)"

definition quote_of :: "json \<Rightarrow> json \<Rightarrow> quoted" where
  "quote_of decoded req = (let legs = json_prop (json_prop (json_prop decoded ''extensions'') ''naulonLegs'') ''legs'' in
     \<lparr>qu_price = (case json_prop req ''amount'' of JString s \<Rightarrow> of_nat (dec_value s) / 1000000 | _ \<Rightarrow> 0),
      qu_atomic = json_prop req ''amount'', qu_nonce = json_prop (json_prop req ''extra'') ''nonce'', qu_req = req,
      qu_legs = (if many_legs (Some legs) then Some legs else None), qu_resource = json_prop decoded ''resource''\<rparr>)"

definition probe_402 :: "buyer_world \<Rightarrow> http_reply \<Rightarrow> probe_outcome" where
  "probe_402 w r = (case header_text r ''payment-required'' of None \<Rightarrow> ProbeMalformed
     | Some header \<Rightarrow> (case bw_decode w header of None \<Rightarrow> ProbeMalformed
       | Some decoded \<Rightarrow>
           if decoded = JNull then ProbeThrew
           else (let req = json_first (json_prop decoded ''accepts'') in
             if json_falsy req then ProbeMalformed
             else if \<not> nonnegative_atomic (json_prop req ''amount'') then ProbeMalformed
             else ProbeGated (quote_of decoded req))))"

definition ok_status :: "nat \<Rightarrow> bool" where "ok_status s \<longleftrightarrow> 200 \<le> s \<and> s < 300"

definition probe :: "buyer_world \<Rightarrow> nat \<Rightarrow> string \<Rightarrow> probe_outcome" where
  "probe w n url = (case bw_reply w n url None of None \<Rightarrow> ProbeUnreachable 0
     | Some r \<Rightarrow> if ht_status r = 402 then probe_402 w r
         else if ht_status r = 404 then ProbeNotFound
         else if ok_status (ht_status r) then ProbeFree
         else ProbeUnreachable (ht_status r))"

section \<open>Guards\<close>

record pay_guard =
  pg_ceiling :: int
  pg_authorize :: "(json \<Rightarrow> bool) option"

text \<open>\<open>tollMovedOrNull\<close>: \<open>None\<close> throws, \<open>Some True\<close> is the refusal.\<close>

definition toll_moved :: "quoted \<Rightarrow> pay_guard option \<Rightarrow> bool option" where
  "toll_moved q guard = (case guard of None \<Rightarrow> Some False
     | Some g \<Rightarrow> map_option (\<lambda>live. \<not> live \<le> pg_ceiling g) (quoted_total q))"

text \<open>What would be signed: the requirement of each leg, or the one requirement of the quote. \<open>None\<close> throws:
  only an array has \<open>map\<close>, and a leg that is \<open>null\<close> has no fields.\<close>

definition json_set :: "string \<Rightarrow> json \<Rightarrow> json \<Rightarrow> json" where
  "json_set k v j = (case j of JObject fs \<Rightarrow> JObject (AList.update k v fs) | _ \<Rightarrow> JObject [(k, v)])"

definition leg_requirement :: "json \<Rightarrow> json \<Rightarrow> json" where
  "leg_requirement req leg = json_set ''amount'' (json_prop leg ''amount'') (json_set ''payTo'' (json_prop leg ''payTo'') req)"

definition signed_requirements :: "quoted \<Rightarrow> json list option" where
  "signed_requirements q = (if many_legs (qu_legs q)
     then (case qu_legs q of Some (JArray ls) \<Rightarrow> if JNull \<in> set ls then None else Some (map (leg_requirement (qu_req q)) ls) | _ \<Rightarrow> None)
     else Some [qu_req q])"

definition guard_payees :: "quoted \<Rightarrow> json list option" where
  "guard_payees q = (if many_legs (qu_legs q)
     then (case qu_legs q of Some (JArray ls) \<Rightarrow> if JNull \<in> set ls then None else Some (map (\<lambda>l. json_prop l ''payTo'') ls) | _ \<Rightarrow> None)
     else Some [json_prop (qu_req q) ''payTo''])"

text \<open>\<open>payeeRefusedOrNull\<close>: \<open>None\<close> throws, \<open>Some True\<close> is the refusal.\<close>

definition payee_refused :: "quoted \<Rightarrow> pay_guard option \<Rightarrow> bool option" where
  "payee_refused q guard = (case guard of None \<Rightarrow> Some False
     | Some g \<Rightarrow> (case pg_authorize g of None \<Rightarrow> Some False
         | Some f \<Rightarrow> map_option (\<lambda>ps. \<not> list_all f ps) (guard_payees q)))"

section \<open>What a failure means\<close>

datatype fetch_error = NotGated | ErrNotFound | TollMoved | InsufficientFunds | Expired | Rejected | OriginError
  | NeedsTopup | GrantExpired | SettlementAmbiguous | PayeeRefused

text \<open>The code and whether a retry may help.\<close>

definition leading_code :: "string \<Rightarrow> string" where
  "leading_code s = takeWhile (\<lambda>c. CHR ''a'' \<le> c \<and> c \<le> CHR ''z'' \<or> c = CHR ''_'') (js_lower s)"

definition topup_codes :: "string list" where
  "topup_codes = [''grant_exceeded'', ''leg_too_large'', ''no_session'', ''sub_cap_exceeded'', ''daily_budget_exceeded'',
     ''insufficient_on_chain'', ''insufficient_gateway_balance'']"

definition rejected_codes :: "string list" where
  "rejected_codes = [''bad_from'', ''chain_mismatch'', ''payee_not_allowed'', ''payee_not_owned'', ''no_gateway_wallet'', ''below_floor'',
     ''nonce_reused'', ''cross_plane'', ''wrong_plane'', ''no_wallet_on_plane'', ''no_signer'', ''wallet_unavailable'', ''account_frozen'',
     ''selling_paused'']"

definition classify_signer_refusal :: "string \<Rightarrow> (fetch_error \<times> bool) option" where
  "classify_signer_refusal msg = (let code = leading_code msg in
     if code \<in> set topup_codes then Some (NeedsTopup, False)
     else if code \<in> set [''funding_unreadable'', ''outstanding_unreadable''] then Some (OriginError, False)
     else if code = ''grant_expired'' then Some (GrantExpired, False)
     else if code \<in> set rejected_codes then Some (Rejected, False)
     else None)"

definition classify_payment_error :: "string \<Rightarrow> fetch_error \<times> bool" where
  "classify_payment_error msg = (let t = js_lower msg in
     if list_ex (\<lambda>p. sublist p t) [''insufficient'', ''exceeds balance'', ''transfer amount exceeds'', ''not enough'', ''balance too low'']
     then (InsufficientFunds, False)
     else if list_ex (\<lambda>p. sublist p t) [''validity_too_short'', ''validity too short'', ''expired'', ''valid before'', ''validbefore'', ''too short'', ''window'']
     then (Expired, True)
     else (Rejected, True))"

definition on_sign_error :: "string \<Rightarrow> fetch_error \<times> bool" where
  "on_sign_error msg = (case classify_signer_refusal msg of Some r \<Rightarrow> r | None \<Rightarrow> classify_payment_error msg)"

section \<open>The paid fetch\<close>

datatype charge_status = ChargeConfirmed | ChargeUnconfirmed

text \<open>A failure carries its code, whether to retry, and whether it is known that nothing was paid.\<close>

datatype fetched_result =
    FetchedOk rat rat charge_status "string option" "string option"
  | FetchedNo fetch_error bool bool
  | FetchedThrew

definition probe_failure :: "probe_outcome \<Rightarrow> fetched_result" where
  "probe_failure p = (case p of ProbeFree \<Rightarrow> FetchedNo NotGated False False | ProbeNotFound \<Rightarrow> FetchedNo ErrNotFound False False
     | ProbeUnreachable _ \<Rightarrow> FetchedNo OriginError True False | ProbeMalformed \<Rightarrow> FetchedNo Rejected True False | _ \<Rightarrow> FetchedThrew)"

text \<open>\<open>decodePaymentResponse\<close> and \<open>receiptOf\<close>.\<close>

definition decode_payment_response :: "buyer_world \<Rightarrow> string option \<Rightarrow> string option option" where
  "decode_payment_response w raw = (case truthy_text raw of None \<Rightarrow> None
     | Some h \<Rightarrow> (case bw_decode w h of
         Some (JObject fs) \<Rightarrow> (let ref = (case json_field fs ''transaction'' of JString t \<Rightarrow> truthy_text (Some t) | _ \<Rightarrow> None) in
           if json_field fs ''success'' = JBool False then None
           else if json_field fs ''success'' \<noteq> JBool True \<and> ref = None then None
           else Some ref)
       | _ \<Rightarrow> None))"

definition receipt_of :: "buyer_world \<Rightarrow> http_reply \<Rightarrow> charge_status \<times> string option" where
  "receipt_of w r = (case decode_payment_response w (ht_header r ''payment-response'') of
     Some ref \<Rightarrow> (ChargeConfirmed, ref)
   | None \<Rightarrow> (if header_text r ''x-naulon-license'' \<noteq> None then ChargeConfirmed else ChargeUnconfirmed, None))"

text \<open>\<open>assemblePayment\<close> and its kin: sign what is to be signed, one payload bare, more than one as an array.
  The left part is the message of a throw.\<close>

fun sign_all :: "(json \<Rightarrow> string + json) \<Rightarrow> json list \<Rightarrow> string + json list" where
  "sign_all sign [] = Inr []"
| "sign_all sign (r # rs) = bind_sum (sign r) (\<lambda>p. bind_sum (sign_all sign rs) (\<lambda>ps. Inr (p # ps)))"

definition assemble_payment :: "buyer_world \<Rightarrow> (json \<Rightarrow> string + json) \<Rightarrow> quoted \<Rightarrow> string + string" where
  "assemble_payment w sign q = (case signed_requirements q of None \<Rightarrow> Inl ''not a list of legs''
     | Some rs \<Rightarrow> bind_sum (sign_all sign rs) (\<lambda>ps. Inr (bw_encode w (if many_legs (qu_legs q) then JArray ps else hd ps))))"

text \<open>The refusal text of a 402: \<open>body.error ?? "payment rejected"\<close>; \<open>None\<close> throws (a body that is \<open>null\<close>, an
  error that is not a text).\<close>

definition refusal_text :: "http_reply \<Rightarrow> string option" where
  "refusal_text r = (let body = (case ht_json r of None \<Rightarrow> JObject [] | Some j \<Rightarrow> j) in
     if body = JNull then None
     else (case json_prop body ''error'' of JUndefined \<Rightarrow> Some ''payment rejected'' | JNull \<Rightarrow> Some ''payment rejected''
       | JString s \<Rightarrow> Some s | _ \<Rightarrow> None))"

definition paid_answer :: "buyer_world \<Rightarrow> quoted \<Rightarrow> http_reply option \<Rightarrow> fetched_result" where
  "paid_answer w q reply = (case reply of None \<Rightarrow> FetchedNo OriginError True False
     | Some r \<Rightarrow>
         if ht_status r = 402 then (case refusal_text r of None \<Rightarrow> FetchedThrew
           | Some msg \<Rightarrow> (case classify_payment_error msg of (e, retry) \<Rightarrow> FetchedNo e retry True))
         else if \<not> ok_status (ht_status r) then FetchedNo OriginError True True
         else (case ht_body r of None \<Rightarrow> FetchedNo SettlementAmbiguous False False
           | Some _ \<Rightarrow> (case quoted_total q of None \<Rightarrow> FetchedThrew
             | Some t \<Rightarrow> (case receipt_of w r of (charge, ref) \<Rightarrow>
                 FetchedOk (of_int t / 1000000) (qu_price q) charge ref (ht_header r ''x-naulon-license'')))))"

text \<open>\<open>runPaidFetch\<close>: the answer, and the requirements whose signatures were sent, none when nothing was.\<close>

definition run_paid_fetch :: "buyer_world \<Rightarrow> (json \<Rightarrow> string + json) \<Rightarrow> nat \<Rightarrow> string \<Rightarrow> pay_guard option \<Rightarrow> fetched_result \<times> json list" where
  "run_paid_fetch w sign n url guard = (case probe w n url of
     ProbeGated q \<Rightarrow>
       (case toll_moved q guard of None \<Rightarrow> (FetchedThrew, [])
        | Some True \<Rightarrow> (FetchedNo TollMoved True False, [])
        | Some False \<Rightarrow>
            (case payee_refused q guard of None \<Rightarrow> (FetchedThrew, [])
             | Some True \<Rightarrow> (FetchedNo PayeeRefused False False, [])
             | Some False \<Rightarrow>
                 (case assemble_payment w sign q of
                    Inl msg \<Rightarrow> (case on_sign_error msg of (e, retry) \<Rightarrow> (FetchedNo e retry False, []))
                  | Inr payment \<Rightarrow> (paid_answer w q (bw_reply w (Suc n) url (Some payment)),
                      case signed_requirements q of None \<Rightarrow> [] | Some rs \<Rightarrow> rs))))
   | p \<Rightarrow> (probe_failure p, []))"

section \<open>The run\<close>

definition article_url :: "string \<Rightarrow> string \<Rightarrow> string" where
  "article_url base slug = (if suffix ''/'' base then butlast base else base) @ ''/essays/'' @ encode_component slug"

definition price_refused :: "url_parser \<Rightarrow> string option \<Rightarrow> string \<Rightarrow> string \<Rightarrow> decision_policy \<Rightarrow> bool" where
  "price_refused U url gate slug policy = (case pay_url_of U url (Some gate) slug of None \<Rightarrow> True
     | Some target \<Rightarrow> authorize_origin U target (Some gate) (dp_allow policy) \<noteq> OriginOk \<or>
         spend_gate (policy\<lparr>dp_kill := False\<rparr>) \<lparr>si_host = pay_host_of U url (Some gate) slug, si_price = 0, si_paid_host = None, si_paid = None,
           si_remaining = None, si_licence = None\<rparr> \<noteq> SpendOk)"

text \<open>The price loop over the candidates \<open>(slug, url)\<close>: the quotes, and the total of each by slug. \<open>None\<close> is an
  exception, which ends the run.\<close>

fun price_loop :: "url_parser \<Rightarrow> buyer_world \<Rightarrow> string \<Rightarrow> decision_policy \<Rightarrow> nat \<Rightarrow> (string \<times> string option) list \<Rightarrow>
    (string \<times> rat) list \<Rightarrow> (string, int) js_map \<Rightarrow> ((string \<times> rat) list \<times> (string, int) js_map) option" where
  "price_loop U w base policy n [] priced totals = Some (priced, totals)"
| "price_loop U w base policy n ((slug, url) # cs) priced totals =
     (if price_refused U url base slug policy then price_loop U w base policy n cs priced totals
      else (case probe w n (case url of Some u \<Rightarrow> u | None \<Rightarrow> article_url base slug) of
          ProbeThrew \<Rightarrow> None
        | ProbeGated q \<Rightarrow> (case quoted_total q of None \<Rightarrow> None
            | Some t \<Rightarrow> price_loop U w base policy (Suc n) cs (priced @ [(slug, qu_price q)]) (AList.update slug t totals))
        | _ \<Rightarrow> price_loop U w base policy (Suc n) cs priced totals))"

definition remaining_atomic :: "rat \<Rightarrow> rat \<Rightarrow> int" where
  "remaining_atomic budget spent = max 0 (js_round ((budget - spent) * 1000000))"

definition pay_ceiling :: "nat \<Rightarrow> rat \<Rightarrow> rat \<Rightarrow> int option \<Rightarrow> int" where
  "pay_ceiling bps budget spent quotedAtomic = (case quotedAtomic of None \<Rightarrow> remaining_atomic budget spent
     | Some t \<Rightarrow> min (t + (t * int bps) div 10000) (remaining_atomic budget spent))"

record pay_run =
  pr_spent :: rat
  pr_requests :: nat
  pr_results :: "(string \<times> fetched_result \<times> json list) list"

text \<open>The paying loop over the decisions to pay, \<open>(slug, url)\<close>: the spend, the requests made, and for each the
  answer with what was signed and sent. An exception ends the run.\<close>

fun pay_loop :: "buyer_world \<Rightarrow> (json \<Rightarrow> string + json) \<Rightarrow> (string \<Rightarrow> json \<Rightarrow> bool) option \<Rightarrow> nat \<Rightarrow> rat \<Rightarrow> string \<Rightarrow> (string, int) js_map \<Rightarrow>
    (string \<times> string option) list \<Rightarrow> pay_run \<Rightarrow> pay_run" where
  "pay_loop w sign auth bps budget base totals [] s = s"
| "pay_loop w sign auth bps budget base totals ((slug, link) # ds) s =
     (let url = (case link of Some u \<Rightarrow> u | None \<Rightarrow> article_url base slug);
          guard = \<lparr>pg_ceiling = pay_ceiling bps budget (pr_spent s) (map_of totals slug), pg_authorize = map_option (\<lambda>f. f url) auth\<rparr>;
          x = run_paid_fetch w sign (pr_requests s) url (Some guard);
          s1 = s\<lparr>pr_requests := pr_requests s + 2, pr_results := pr_results s @ [(slug, x)]\<rparr> in
      case fst x of
        FetchedThrew \<Rightarrow> s1
      | FetchedNo _ _ _ \<Rightarrow> pay_loop w sign auth bps budget base totals ds s1
      | FetchedOk cost _ _ _ _ \<Rightarrow> pay_loop w sign auth bps budget base totals ds (s1\<lparr>pr_spent := pr_spent s + cost\<rparr>))"

definition pay_start :: "nat \<Rightarrow> pay_run" where
  "pay_start n = \<lparr>pr_spent = 0, pr_requests = n, pr_results = []\<rparr>"

section \<open>What is checked is what is signed\<close>

lemma json_prop_set [simp]: "json_prop (json_set k v j) k' = (if k = k' then v else json_prop j k')"
  by (cases j) (auto simp: json_set_def json_prop_def json_field_def update_conv')

lemma leg_requirement_fields [simp]:
  "json_prop (leg_requirement req leg) ''amount'' = json_prop leg ''amount''"
  "json_prop (leg_requirement req leg) ''payTo'' = json_prop leg ''payTo''"
  by (simp_all add: leg_requirement_def)

lemma sum_amounts_requirements: "sum_amounts (map (leg_requirement req) ls) = sum_amounts ls"
  by (induction ls) simp_all

lemma probe_gated_amount:
  assumes "probe w n url = ProbeGated q"
  shows "qu_atomic q = json_prop (qu_req q) ''amount''"
  using assms
  by (auto simp: probe_def probe_402_def quote_of_def Let_def split: option.splits if_splits)

lemma checked_total_is_signed:
  assumes "quoted_total q = Some t" and "signed_requirements q = Some rs"
    and "qu_atomic q = json_prop (qu_req q) ''amount''"
  shows "sum_amounts rs = Some t"
  using assms
  by (auto simp: quoted_total_def signed_requirements_def sum_amounts_requirements split: if_splits option.splits json.splits)

lemma checked_payees_are_signed:
  assumes "payee_refused q (Some g) = Some False" and "pg_authorize g = Some f" and "signed_requirements q = Some rs"
  shows "list_all (\<lambda>r. f (json_prop r ''payTo'')) rs"
  using assms
  by (auto simp: payee_refused_def guard_payees_def signed_requirements_def list_all_iff split: if_splits option.splits json.splits)

lemma sum_amounts_bounds_each:
  assumes "sum_amounts rs = Some t" and "\<And>r. r \<in> set rs \<Longrightarrow> \<exists>a. bigint_of (json_prop r ''amount'') = Some a \<and> 0 \<le> a"
  shows "0 \<le> t" and "\<And>r. r \<in> set rs \<Longrightarrow> \<exists>a. bigint_of (json_prop r ''amount'') = Some a \<and> 0 \<le> a \<and> a \<le> t"
proof -
  have "0 \<le> t \<and> (\<forall>r\<in>set rs. \<exists>a. bigint_of (json_prop r ''amount'') = Some a \<and> 0 \<le> a \<and> a \<le> t)"
    using assms
  proof (induction rs arbitrary: t)
    case (Cons r rs)
    obtain a u where a: "bigint_of (json_prop r ''amount'') = Some a" and u: "sum_amounts rs = Some u" and t: "t = a + u"
      using Cons.prems(1) by (auto split: option.splits)
    have "0 \<le> a"
      using Cons.prems(2)[of r] a by simp
    moreover have "0 \<le> u \<and> (\<forall>r\<in>set rs. \<exists>a. bigint_of (json_prop r ''amount'') = Some a \<and> 0 \<le> a \<and> a \<le> u)"
      by (rule Cons.IH[OF u]) (simp add: Cons.prems(2))
    ultimately show ?case
      using a t by fastforce
  qed simp
  then show "0 \<le> t" and "\<And>r. r \<in> set rs \<Longrightarrow> \<exists>a. bigint_of (json_prop r ''amount'') = Some a \<and> 0 \<le> a \<and> a \<le> t"
    by blast+
qed

lemma sign_all_signs:
  assumes "sign_all sign rs = Inr ps" and "r \<in> set rs"
  shows "\<exists>p. sign r = Inr p"
  using assms by (induction rs arbitrary: ps) (auto simp: bind_sum_Inr_iff)

lemma assemble_payment_signs:
  assumes "assemble_payment w sign q = Inr payment"
  shows "\<exists>rs. signed_requirements q = Some rs \<and> (\<forall>r\<in>set rs. \<exists>p. sign r = Inr p)"
  using assms
  by (auto simp: assemble_payment_def bind_sum_Inr_iff dest: sign_all_signs split: option.splits)

lemma paid_fetch_sent:
  assumes "run_paid_fetch w sign n url (Some g) = (res, rs)" and "rs \<noteq> [] \<or> (\<exists>c p h l k. res = FetchedOk c p h l k)"
  shows "\<exists>q t payment. probe w n url = ProbeGated q \<and> quoted_total q = Some t \<and> t \<le> pg_ceiling g \<and>
    payee_refused q (Some g) = Some False \<and> signed_requirements q = Some rs \<and> (\<forall>r\<in>set rs. \<exists>p. sign r = Inr p) \<and>
    res = paid_answer w q (bw_reply w (Suc n) url (Some payment))"
proof -
  obtain q where q: "probe w n url = ProbeGated q"
    using assms by (cases "probe w n url") (auto simp: run_paid_fetch_def probe_failure_def)
  have moved: "toll_moved q (Some g) = Some False"
    using assms q by (auto simp: run_paid_fetch_def split: option.splits bool.splits)
  have refused: "payee_refused q (Some g) = Some False"
    using assms q moved by (auto simp: run_paid_fetch_def split: option.splits bool.splits)
  obtain payment where payment: "assemble_payment w sign q = Inr payment"
    using assms q moved refused by (auto simp: run_paid_fetch_def split: sum.splits prod.splits)
  obtain rs' where rs': "signed_requirements q = Some rs'" "\<forall>r\<in>set rs'. \<exists>p. sign r = Inr p"
    using assemble_payment_signs[OF payment] by blast
  have "res = paid_answer w q (bw_reply w (Suc n) url (Some payment))" "rs = rs'"
    using assms(1) by (simp_all add: run_paid_fetch_def q moved refused payment rs')
  moreover obtain t where "quoted_total q = Some t" "t \<le> pg_ceiling g"
    using moved by (auto simp: toll_moved_def)
  ultimately show ?thesis
    using q refused rs' by blast
qed

text \<open>C8: check equals sign. When a guarded fetch sends a payment, what it signed adds up to no more than
  the ceiling, and under a signer that signs no negative amount every single leg is within it; and every
  payee it signed for is one the caller authorised.\<close>

theorem guarded_payment_sound:
  assumes "run_paid_fetch w sign n url (Some \<lparr>pg_ceiling = c, pg_authorize = Some f\<rparr>) = (res, rs)" and "rs \<noteq> []"
    and "\<And>r p. sign r = Inr p \<Longrightarrow> \<exists>a. bigint_of (json_prop r ''amount'') = Some a \<and> 0 \<le> a"
  shows "\<exists>t. sum_amounts rs = Some t \<and> t \<le> c \<and>
    list_all (\<lambda>r. f (json_prop r ''payTo'') \<and> (\<exists>a. bigint_of (json_prop r ''amount'') = Some a \<and> 0 \<le> a \<and> a \<le> t)) rs"
proof -
  obtain q t where q: "probe w n url = ProbeGated q" "quoted_total q = Some t" "t \<le> c"
    and ok: "payee_refused q (Some \<lparr>pg_ceiling = c, pg_authorize = Some f\<rparr>) = Some False" "signed_requirements q = Some rs"
    and signs: "\<forall>r\<in>set rs. \<exists>p. sign r = Inr p"
    using paid_fetch_sent[OF assms(1)] assms(2) by auto
  have total: "sum_amounts rs = Some t"
    by (rule checked_total_is_signed[OF q(2) ok(2) probe_gated_amount[OF q(1)]])
  have nonneg: "\<exists>a. bigint_of (json_prop r ''amount'') = Some a \<and> 0 \<le> a" if "r \<in> set rs" for r
    using signs assms(3) that by blast
  have "list_all (\<lambda>r. f (json_prop r ''payTo'')) rs"
    by (rule checked_payees_are_signed[OF ok(1) _ ok(2)]) simp
  moreover have "list_all (\<lambda>r. \<exists>a. bigint_of (json_prop r ''amount'') = Some a \<and> 0 \<le> a \<and> a \<le> t) rs"
    using sum_amounts_bounds_each(2)[OF total] nonneg by (simp add: list_all_iff)
  ultimately show ?thesis
    using total q(3) by (auto simp: list_all_iff)
qed

section \<open>The budget of a run\<close>

text \<open>What one entry of the run signed and sent, and the part of it that was answered with a read.\<close>

definition signed_total :: "string \<times> fetched_result \<times> json list \<Rightarrow> int" where
  "signed_total x = (case sum_amounts (snd (snd x)) of Some t \<Rightarrow> t | None \<Rightarrow> 0)"

definition read_outlay :: "string \<times> fetched_result \<times> json list \<Rightarrow> int" where
  "read_outlay x = (case fst (snd x) of FetchedOk _ _ _ _ _ \<Rightarrow> signed_total x | _ \<Rightarrow> 0)"

lemma js_round_whole: "js_round (of_int i) = i"
  unfolding js_round_def by (rule floor_unique) simp_all

lemma remaining_atomic_whole: "remaining_atomic (of_int b / 1000000) (of_int s / 1000000) = max 0 (b - s)"
proof -
  have "(of_int b / 1000000 - of_int s / 1000000) * 1000000 = (of_int (b - s) :: rat)"
    by (simp add: algebra_simps)
  then show ?thesis
    by (simp only: remaining_atomic_def js_round_whole)
qed

lemma pay_ceiling_le_remaining: "pay_ceiling bps budget spent t \<le> remaining_atomic budget spent"
  by (simp add: pay_ceiling_def split: option.split)

lemma paid_answer_cost:
  assumes "paid_answer w q reply = FetchedOk c p h l k" and "quoted_total q = Some t"
  shows "c = of_int t / 1000000"
  using assms by (auto simp: paid_answer_def split: option.splits if_splits prod.splits)

lemma paid_fetch_total:
  assumes "run_paid_fetch w sign n url (Some g) = (res, rs)"
    and "\<And>r p. sign r = Inr p \<Longrightarrow> \<exists>a. bigint_of (json_prop r ''amount'') = Some a \<and> 0 \<le> a"
  shows "0 \<le> signed_total (slug, res, rs) \<and> signed_total (slug, res, rs) \<le> max 0 (pg_ceiling g) \<and>
    (\<forall>c p h l k. res = FetchedOk c p h l k \<longrightarrow> c = of_int (signed_total (slug, res, rs)) / 1000000)"
proof (cases "rs \<noteq> [] \<or> (\<exists>c p h l k. res = FetchedOk c p h l k)")
  case True
  obtain q t payment where q: "probe w n url = ProbeGated q" "quoted_total q = Some t" "t \<le> pg_ceiling g"
      "signed_requirements q = Some rs" "\<forall>r\<in>set rs. \<exists>p. sign r = Inr p"
      "res = paid_answer w q (bw_reply w (Suc n) url (Some payment))"
    using paid_fetch_sent[OF assms(1) True] by blast
  have total: "sum_amounts rs = Some t"
    by (rule checked_total_is_signed[OF q(2) q(4) probe_gated_amount[OF q(1)]])
  have "0 \<le> t"
    by (rule sum_amounts_bounds_each(1)[OF total]) (use q(5) assms(2) in blast)
  then show ?thesis
    using q(3) paid_answer_cost[OF _ q(2)] by (auto simp: signed_total_def total q(6))
next
  case False
  then show ?thesis
    by (auto simp: signed_total_def)
qed

lemma run_spend:
  assumes "\<And>r p. sign r = Inr p \<Longrightarrow> \<exists>a. bigint_of (json_prop r ''amount'') = Some a \<and> 0 \<le> a"
    and "pr_spent s = of_int (sum_list (map read_outlay (pr_results s))) / 1000000"
    and "0 \<le> sum_list (map read_outlay (pr_results s))" and "sum_list (map read_outlay (pr_results s)) \<le> b"
    and "list_all (\<lambda>x. signed_total x \<le> b) (pr_results s)"
    and "r = pay_loop w sign auth bps (of_int b / 1000000) base totals ds s"
  shows "pr_spent r = of_int (sum_list (map read_outlay (pr_results r))) / 1000000 \<and>
    0 \<le> sum_list (map read_outlay (pr_results r)) \<and> sum_list (map read_outlay (pr_results r)) \<le> b \<and>
    list_all (\<lambda>x. signed_total x \<le> b) (pr_results r)"
  using assms(2-)
proof (induction ds arbitrary: s)
  case Nil
  then show ?case by simp
next
  case (Cons d ds)
  obtain slug link where d: "d = (slug, link)"
    by (cases d)
  define url where "url = (case link of Some u \<Rightarrow> u | None \<Rightarrow> article_url base slug)"
  define g where "g = \<lparr>pg_ceiling = pay_ceiling bps (of_int b / 1000000) (pr_spent s) (map_of totals slug), pg_authorize = map_option (\<lambda>f. f url) auth\<rparr>"
  obtain res rs where x: "run_paid_fetch w sign (pr_requests s) url (Some g) = (res, rs)"
    by fastforce
  define S where "S = sum_list (map read_outlay (pr_results s))"
  have S: "pr_spent s = of_int S / 1000000" "0 \<le> S" "S \<le> b"
    using Cons.prems(1-3) by (simp_all add: S_def)
  have ceiling: "pg_ceiling g \<le> b - S"
    using pay_ceiling_le_remaining[of bps "of_int b / 1000000" "pr_spent s" "map_of totals slug"] S(3)
    by (simp add: g_def S(1) remaining_atomic_whole)
  have paid: "0 \<le> signed_total (slug, res, rs) \<and> signed_total (slug, res, rs) \<le> max 0 (pg_ceiling g) \<and>
      (\<forall>c p h l k. res = FetchedOk c p h l k \<longrightarrow> c = of_int (signed_total (slug, res, rs)) / 1000000)"
    by (rule paid_fetch_total[OF x]) (rule assms(1))
  have total: "0 \<le> signed_total (slug, res, rs)" "signed_total (slug, res, rs) \<le> b - S"
      "\<And>c p h l k. res = FetchedOk c p h l k \<Longrightarrow> c = of_int (signed_total (slug, res, rs)) / 1000000"
    using paid ceiling S(3) by (simp_all add: max_def split: if_splits)
  define s1 where "s1 = s\<lparr>pr_requests := pr_requests s + 2, pr_results := pr_results s @ [(slug, res, rs)]\<rparr>"
  have step: "pay_loop w sign auth bps (of_int b / 1000000) base totals (d # ds) s = (case res of
      FetchedThrew \<Rightarrow> s1
    | FetchedNo _ _ _ \<Rightarrow> pay_loop w sign auth bps (of_int b / 1000000) base totals ds s1
    | FetchedOk c _ _ _ _ \<Rightarrow> pay_loop w sign auth bps (of_int b / 1000000) base totals ds (s1\<lparr>pr_spent := pr_spent s + c\<rparr>))"
    unfolding d pay_loop.simps Let_def url_def[symmetric] g_def[symmetric] x s1_def[symmetric] fst_conv ..
  have signed: "list_all (\<lambda>x. signed_total x \<le> b) (pr_results s1)"
    using Cons.prems(4) total(2) S(2) by (simp add: s1_def)
  show ?case
  proof (cases res)
    case (FetchedOk c p h l k)
    have sum: "sum_list (map read_outlay (pr_results (s1\<lparr>pr_spent := pr_spent s + c\<rparr>))) = S + signed_total (slug, res, rs)"
      by (simp add: s1_def S_def read_outlay_def FetchedOk)
    show ?thesis
    proof (rule Cons.IH)
      show "pr_spent (s1\<lparr>pr_spent := pr_spent s + c\<rparr>) =
          of_int (sum_list (map read_outlay (pr_results (s1\<lparr>pr_spent := pr_spent s + c\<rparr>)))) / 1000000"
        unfolding sum using S(1) total(3)[OF FetchedOk] by (simp add: add_divide_distrib)
    qed (use sum total S signed Cons.prems(5) step FetchedOk in simp_all)
  next
    case (FetchedNo e retry unpaid)
    have sum: "sum_list (map read_outlay (pr_results s1)) = S"
      by (simp add: s1_def S_def read_outlay_def FetchedNo)
    show ?thesis
    proof (rule Cons.IH)
      show "pr_spent s1 = of_int (sum_list (map read_outlay (pr_results s1))) / 1000000"
        unfolding sum using S(1) by (simp add: s1_def)
    qed (use sum S signed Cons.prems(5) step FetchedNo in simp_all)
  next
    case FetchedThrew
    have "r = s1"
      using Cons.prems(5) step FetchedThrew by simp
    moreover have "sum_list (map read_outlay (pr_results s1)) = S" "pr_spent s1 = pr_spent s"
      by (simp_all add: s1_def S_def read_outlay_def FetchedThrew)
    ultimately show ?thesis
      using S signed by simp
  qed
qed

text \<open>C7: a run keeps to its budget. For a budget of a whole number of micro-USDC and a signer that signs no
  negative amount, what the run records as spent is exactly what it signed for the reads it was given, that
  is never more than the budget, and no single payment it sends exceeds the budget either, whatever the
  gates quote and answer.\<close>

theorem run_within_budget:
  assumes "0 \<le> b" and "\<And>r p. sign r = Inr p \<Longrightarrow> \<exists>a. bigint_of (json_prop r ''amount'') = Some a \<and> 0 \<le> a"
    and "r = pay_loop w sign auth bps (of_int b / 1000000) base totals ds (pay_start n)"
  shows "pr_spent r = of_int (sum_list (map read_outlay (pr_results r))) / 1000000 \<and>
    0 \<le> pr_spent r \<and> pr_spent r \<le> of_int b / 1000000 \<and> list_all (\<lambda>x. signed_total x \<le> b) (pr_results r)"
proof -
  have "pr_spent r = of_int (sum_list (map read_outlay (pr_results r))) / 1000000 \<and>
    0 \<le> sum_list (map read_outlay (pr_results r)) \<and> sum_list (map read_outlay (pr_results r)) \<le> b \<and>
    list_all (\<lambda>x. signed_total x \<le> b) (pr_results r)"
    by (rule run_spend[OF assms(2) _ _ _ _ assms(3)]) (simp_all add: pay_start_def assms(1))
  then show ?thesis
    by (simp add: divide_right_mono)
qed

section \<open>Gates that answer as told\<close>

text \<open>A network of gates: an unpaid request is answered 402 with what the gate of that URL quotes, a paid one as
  told; the header of a quote is its URL.\<close>

definition quoting_world :: "(string \<Rightarrow> json) \<Rightarrow> http_reply option \<Rightarrow> buyer_world" where
  "quoting_world quotes paid = \<lparr>
     bw_reply = (\<lambda>n url payment. case payment of Some _ \<Rightarrow> paid
       | None \<Rightarrow> Some \<lparr>ht_status = 402, ht_header = (\<lambda>k. if k = ''payment-required'' then Some url else None), ht_json = None, ht_body = None\<rparr>),
     bw_decode = (\<lambda>h. Some (quotes h)), bw_encode = (\<lambda>j. ''p'')\<rparr>"

definition single_quote :: "string \<Rightarrow> string \<Rightarrow> json" where
  "single_quote amount payee = JObject [(''accepts'', JArray [JObject [(''amount'', JString amount), (''payTo'', JString payee)]])]"

definition leg_of :: "string \<Rightarrow> string \<Rightarrow> json" where
  "leg_of amount payee = JObject [(''amount'', JString amount), (''payTo'', JString payee)]"

definition legs_quote :: "json list \<Rightarrow> json" where
  "legs_quote ls = JObject [(''accepts'', JArray [leg_of ''10'' ''author'']), (''extensions'', JObject [(''naulonLegs'', JObject [(''legs'', JArray ls)])])]"

definition whole_signer :: "json \<Rightarrow> string + json" where
  "whole_signer r = (case bigint_of (json_prop r ''amount'') of None \<Rightarrow> Inl ''amount'' | Some a \<Rightarrow> if 0 \<le> a then Inr r else Inl ''amount'')"

lemma whole_signer_signs: "whole_signer r = Inr p \<Longrightarrow> \<exists>a. bigint_of (json_prop r ''amount'') = Some a \<and> 0 \<le> a"
  by (auto simp: whole_signer_def split: option.splits if_splits)

lemma two_legs_sent:
  "run_paid_fetch (quoting_world (\<lambda>u. legs_quote [leg_of ''10'' ''author'', leg_of ''1'' ''operator'']) None) whole_signer 0 ''u''
     (Some \<lparr>pg_ceiling = 11, pg_authorize = Some (\<lambda>p. p \<in> {JString ''author'', JString ''operator''})\<rparr>)
   = (FetchedNo OriginError True False, [leg_of ''10'' ''author'', leg_of ''1'' ''operator''])"
  by code_simp

theorem guarded_payment_sound_witness:
  "\<exists>t. sum_amounts [leg_of ''10'' ''author'', leg_of ''1'' ''operator''] = Some t \<and> t \<le> 11 \<and>
    list_all (\<lambda>r. json_prop r ''payTo'' \<in> {JString ''author'', JString ''operator''} \<and>
      (\<exists>a. bigint_of (json_prop r ''amount'') = Some a \<and> 0 \<le> a \<and> a \<le> t)) [leg_of ''10'' ''author'', leg_of ''1'' ''operator'']"
  by (rule guarded_payment_sound[OF two_legs_sent]) (simp, erule whole_signer_signs)

theorem run_within_budget_witness:
  "\<exists>r. r = pay_loop (quoting_world (\<lambda>u. single_quote ''5'' ''author'') None) whole_signer None 0 (of_int 7 / 1000000) ''g'' []
     [(''a'', Some ''u''), (''b'', Some ''v'')] (pay_start 0) \<and> pr_spent r \<le> of_int 7 / 1000000"
proof -
  define r where "r = pay_loop (quoting_world (\<lambda>u. single_quote ''5'' ''author'') None) whole_signer None 0 (of_int 7 / 1000000) ''g'' []
     [(''a'', Some ''u''), (''b'', Some ''v'')] (pay_start 0)"
  have "pr_spent r = of_int (sum_list (map read_outlay (pr_results r))) / 1000000 \<and>
    0 \<le> pr_spent r \<and> pr_spent r \<le> of_int 7 / 1000000 \<and> list_all (\<lambda>x. signed_total x \<le> 7) (pr_results r)"
    by (rule run_within_budget[OF _ _ r_def]) (simp, erule whole_signer_signs)
  then show ?thesis
    unfolding r_def by blast
qed

section \<open>Answers that are lost\<close>

lemma quoting_world_probe:
  assumes "u \<noteq> []" and "quotes u = single_quote a p" and "nonnegative_atomic (JString a)"
  shows "probe (quoting_world quotes paid) n u = ProbeGated (quote_of (single_quote a p) (leg_of a p))"
  using assms
  by (simp add: probe_def probe_402_def quoting_world_def header_text_def truthy_text_def single_quote_def leg_of_def json_prop_def
    json_field_def json_first_def json_falsy_def Let_def)

lemma single_quote_probe:
  assumes "u \<noteq> []"
  shows "probe (quoting_world (\<lambda>u. single_quote ''5'' ''author'') paid) n u = ProbeGated (quote_of (single_quote ''5'' ''author'') (leg_of ''5'' ''author''))"
proof -
  have "nonnegative_atomic (JString ''5'')"
    by code_simp
  then show ?thesis
    using quoting_world_probe assms by simp
qed

lemma lost_fetch:
  assumes "u \<noteq> []" and "\<And>w q. paid_answer w q paid = FetchedNo e retry False"
  shows "run_paid_fetch (quoting_world (\<lambda>u. single_quote ''5'' ''author'') paid) whole_signer n u (Some \<lparr>pg_ceiling = 5, pg_authorize = None\<rparr>) =
    (FetchedNo e retry False, [leg_of ''5'' ''author''])"
proof -
  have "toll_moved (quote_of (single_quote ''5'' ''author'') (leg_of ''5'' ''author'')) (Some \<lparr>pg_ceiling = 5, pg_authorize = None\<rparr>) = Some False"
    and "signed_requirements (quote_of (single_quote ''5'' ''author'') (leg_of ''5'' ''author'')) = Some [leg_of ''5'' ''author'']"
    and "many_legs (qu_legs (quote_of (single_quote ''5'' ''author'') (leg_of ''5'' ''author''))) = False"
    and "whole_signer (leg_of ''5'' ''author'') = Inr (leg_of ''5'' ''author'')"
    by code_simp+
  moreover have "bw_reply (quoting_world (\<lambda>u. single_quote ''5'' ''author'') paid) m u (Some payment) = paid" for m payment
    by (simp add: quoting_world_def)
  ultimately show ?thesis
    by (simp add: run_paid_fetch_def single_quote_probe[OF assms(1)] payee_refused_def assemble_payment_def assms(2))
qed

lemma lost_rounds:
  assumes "u \<noteq> []" and "\<And>w q. paid_answer w q paid = FetchedNo e retry False" and "pr_spent s = 0"
    and "r = pay_loop (quoting_world (\<lambda>u. single_quote ''5'' ''author'') paid) whole_signer None 0 (1 / 200000) base [] (replicate k (slug, Some u)) s"
  shows "pr_spent r = 0 \<and> sum_list (map signed_total (pr_results r)) = sum_list (map signed_total (pr_results s)) + 5 * int k"
  using assms(3,4)
proof (induction k arbitrary: s)
  case (Suc k)
  have ceiling: "pay_ceiling 0 (1 / 200000) 0 None = 5"
    by code_simp
  have signed: "signed_total (slug, FetchedNo e retry False, [leg_of ''5'' ''author'']) = 5"
    by (simp add: signed_total_def) code_simp
  have "pr_spent r = 0 \<and> sum_list (map signed_total (pr_results r)) = sum_list (map signed_total (pr_results
      (s\<lparr>pr_requests := pr_requests s + 2, pr_results := pr_results s @ [(slug, FetchedNo e retry False, [leg_of ''5'' ''author''])]\<rparr>))) + 5 * int k"
    by (rule Suc.IH) (use Suc.prems in \<open>simp_all add: ceiling lost_fetch[OF assms(1,2)] Let_def\<close>)
  then show ?case
    by (simp add: signed)
qed simp


definition one_host :: url_parser where
  "one_host u = Some \<lparr>wu_host = ''h'', wu_hostname = ''h''\<rparr>"

lemma one_host_prices: "list_all (\<lambda>u. \<not> price_refused one_host (Some u) ''g'' ''a'' default_policy) [''u'', ''u1'', ''u2'']"
  by code_simp

section \<open>The price loop\<close>

text \<open>One gate ends the pricing of all. A candidate that may be priced and whose gate answers 402 with a
  header that decodes to \<open>null\<close>, or with a list of legs one of whose amounts is no integer, throws out of the
  price loop: whatever was priced before it and whatever comes after it, the run ends.\<close>

theorem broken_quote_ends_pricing:
  assumes "\<not> price_refused U (Some url) base slug policy"
    and "bw_reply w n url None = Some r" and "ht_status r = 402" and "header_text r ''payment-required'' = Some h"
    and "bw_decode w h = Some d"
    and "d = JNull \<or> (nonnegative_atomic (json_prop (json_first (json_prop d ''accepts'')) ''amount'') \<and>
      json_prop (json_prop (json_prop d ''extensions'') ''naulonLegs'') ''legs'' = JArray ls \<and> length ls > 1 \<and>
      l \<in> set ls \<and> bigint_of (json_prop l ''amount'') = None)"
  shows "price_loop U w base policy n ((slug, Some url) # cs) priced totals = None"
proof (cases "d = JNull")
  case True
  then have "probe w n url = ProbeThrew"
    using assms by (simp add: probe_def probe_402_def)
  then show ?thesis
    using assms(1) by simp
next
  case False
  define req where "req = json_first (json_prop d ''accepts'')"
  have d: "nonnegative_atomic (json_prop req ''amount'')" "json_prop (json_prop (json_prop d ''extensions'') ''naulonLegs'') ''legs'' = JArray ls"
      "length ls > 1" "l \<in> set ls" "bigint_of (json_prop l ''amount'') = None"
    using assms(6) False by (auto simp: req_def)
  have "\<not> json_falsy req"
    using d(1) by (auto simp: json_falsy_def json_prop_def nonnegative_atomic_def)
  then have gated: "probe w n url = ProbeGated (quote_of d req)"
    using assms(2-5) d(1) False by (simp add: probe_def probe_402_def req_def Let_def)
  have "sum_amounts ls = None"
    using d(4,5) by (induction ls) (auto split: option.splits)
  moreover have "many_legs (Some (JArray ls))"
    using d(3) by (auto simp: many_legs_def json_falsy_def json_length_above_one_def)
  ultimately have "quoted_total (quote_of d req) = None"
    by (simp add: quoted_total_def quote_of_def d(2))
  then show ?thesis
    using assms(1) by (simp add: gated)
qed

theorem broken_quote_ends_pricing_witness:
  "price_loop one_host (quoting_world (\<lambda>u. legs_quote [leg_of ''1.5'' ''author'', leg_of ''1'' ''operator'']) None) ''g'' default_policy 0
    [(''a'', Some ''u''), (''b'', None)] [] [] = None"
proof (rule broken_quote_ends_pricing)
  show "\<not> price_refused one_host (Some ''u'') ''g'' ''a'' default_policy"
    using one_host_prices by simp
  show "bw_reply (quoting_world (\<lambda>u. legs_quote [leg_of ''1.5'' ''author'', leg_of ''1'' ''operator'']) None) 0 ''u'' None =
      Some \<lparr>ht_status = 402, ht_header = (\<lambda>k. if k = ''payment-required'' then Some ''u'' else None),
        ht_json = None, ht_body = None\<rparr>"
    by (simp add: quoting_world_def)
  show "bw_decode (quoting_world (\<lambda>u. legs_quote [leg_of ''1.5'' ''author'', leg_of ''1'' ''operator'']) None) ''u''
      = Some (legs_quote [leg_of ''1.5'' ''author'', leg_of ''1'' ''operator''])"
    by (simp add: quoting_world_def)
  have "nonnegative_atomic (json_prop (json_first (json_prop (legs_quote [leg_of ''1.5'' ''author'', leg_of ''1'' ''operator'']) ''accepts'')) ''amount'')"
    and "bigint_of (json_prop (leg_of ''1.5'' ''author'') ''amount'') = None"
    by code_simp+
  then show "legs_quote [leg_of ''1.5'' ''author'', leg_of ''1'' ''operator''] = JNull \<or>
      (nonnegative_atomic (json_prop (json_first (json_prop (legs_quote [leg_of ''1.5'' ''author'', leg_of ''1'' ''operator'']) ''accepts'')) ''amount'') \<and>
      json_prop (json_prop (json_prop (legs_quote [leg_of ''1.5'' ''author'', leg_of ''1'' ''operator'']) ''extensions'') ''naulonLegs'') ''legs''
        = JArray [leg_of ''1.5'' ''author'', leg_of ''1'' ''operator''] \<and> length [leg_of ''1.5'' ''author'', leg_of ''1'' ''operator''] > 1 \<and>
      leg_of ''1.5'' ''author'' \<in> set [leg_of ''1.5'' ''author'', leg_of ''1'' ''operator''] \<and> bigint_of (json_prop (leg_of ''1.5'' ''author'') ''amount'') = None)"
    by (simp add: legs_quote_def json_prop_def json_field_def)
qed (simp_all add: header_text_def truthy_text_def)

text \<open>Candidates of one slug share one ceiling. The ceiling of a payment is looked up by slug, so when a
  second publisher's candidate has the slug of the first, the first gate may raise its toll past the
  tolerance of its own quote, up to what the second one quoted, and still be paid.\<close>

theorem same_slug_shares_ceiling:
  assumes "\<not> price_refused U (Some u1) base slug policy" and "\<not> price_refused U (Some u2) base slug policy"
    and "probe w n u1 = ProbeGated q1" and "quoted_total q1 = Some t1"
    and "probe w (Suc n) u2 = ProbeGated q2" and "quoted_total q2 = Some t2"
    and "quoted_total live = Some t2" and "0 \<le> t2" and "t2 \<le> remaining_atomic budget spent"
    and "t1 + (t1 * int bps) div 10000 < t2"
  shows "\<exists>priced totals. price_loop U w base policy n [(slug, Some u1), (slug, Some u2)] [] [] = Some (priced, totals) \<and>
    toll_moved live (Some \<lparr>pg_ceiling = pay_ceiling bps budget spent (Some t1), pg_authorize = auth\<rparr>) = Some True \<and>
    toll_moved live (Some \<lparr>pg_ceiling = pay_ceiling bps budget spent (map_of totals slug), pg_authorize = auth\<rparr>) = Some False"
proof -
  have "price_loop U w base policy n [(slug, Some u1), (slug, Some u2)] [] [] = Some ([(slug, qu_price q1), (slug, qu_price q2)], [(slug, t2)])"
    using assms(1-6) by simp
  moreover have "t2 \<le> t2 + (t2 * int bps) div 10000"
    using assms(8) by (simp add: pos_imp_zdiv_nonneg_iff)
  ultimately show ?thesis
    using assms(7,9,10) by (simp add: toll_moved_def pay_ceiling_def)
qed

definition rising_world :: buyer_world where
  "rising_world = quoting_world (\<lambda>u. single_quote (if u = ''u1'' then ''1'' else ''9'') ''author'') None"

theorem same_slug_shares_ceiling_witness:
  "\<exists>priced totals. price_loop one_host rising_world ''g'' default_policy 0
      [(''a'', Some ''u1''), (''a'', Some ''u2'')] [] [] = Some (priced, totals) \<and>
    toll_moved (quote_of (single_quote ''9'' ''author'') (leg_of ''9'' ''author''))
      (Some \<lparr>pg_ceiling = pay_ceiling 200 1 0 (Some 1), pg_authorize = None\<rparr>) = Some True \<and>
    toll_moved (quote_of (single_quote ''9'' ''author'') (leg_of ''9'' ''author''))
      (Some \<lparr>pg_ceiling = pay_ceiling 200 1 0 (map_of totals ''a''), pg_authorize = None\<rparr>) = Some False"
proof (rule same_slug_shares_ceiling)
  show "\<not> price_refused one_host (Some ''u1'') ''g'' ''a'' default_policy"
    and "\<not> price_refused one_host (Some ''u2'') ''g'' ''a'' default_policy"
    using one_host_prices by simp_all
  have "nonnegative_atomic (JString ''1'')" "nonnegative_atomic (JString ''9'')"
    by code_simp+
  then show "probe rising_world 0 ''u1'' = ProbeGated (quote_of (single_quote ''1'' ''author'') (leg_of ''1'' ''author''))"
    and "probe rising_world (Suc 0) ''u2'' = ProbeGated (quote_of (single_quote ''9'' ''author'') (leg_of ''9'' ''author''))"
    by (simp_all add: rising_world_def quoting_world_probe)
  show "quoted_total (quote_of (single_quote ''1'' ''author'') (leg_of ''1'' ''author'')) = Some 1"
    and "quoted_total (quote_of (single_quote ''9'' ''author'') (leg_of ''9'' ''author'')) = Some 9"
    and "quoted_total (quote_of (single_quote ''9'' ''author'') (leg_of ''9'' ''author'')) = Some 9"
    by code_simp+
  show "(9::int) \<le> remaining_atomic 1 0"
    by (simp add: remaining_atomic_def js_round_def)
qed simp_all

end
