(* ===== verification/ConfigSource.thy ===== *)
theory ConfigSource
  imports Naulon_Prelude
begin

text \<open>
  Where an in-app runtime gets the policy it enforces, \<open>packages/enforce/src/enforce/config-source.ts\<close>: the
  document of the control plane, narrowed to the fields this version knows (\<open>narrow\<close>), and the cache that
  holds it per host, with one fetch in flight and the stale document kept on a failure. The answer of the
  control plane is parsed JSON of any shape. Requests interleave at the fetch, so the cache is a step
  relation; the URL parser is a parameter, and the throttled warning is left out (a failure is recorded).
\<close>

section \<open>The document\<close>

record config_doc =
  cd_enforcement :: "(string \<times> json) list"
  cd_armed :: "string list option"
  cd_manifest :: "json option"
  cd_license :: "string option"

text \<open>\<open>new URL(s)\<close>: protocol and hostname, and the host with its port.\<close>

record link_parts =
  up_protocol :: string
  up_hostname :: string
  up_host :: string

type_synonym url_reader = "string \<Rightarrow> link_parts option"

definition loopback_hosts :: "string list" where
  "loopback_hosts = [''localhost'', ''127.0.0.1'', ''[::1]'']"

definition licence_server_url_ok :: "url_reader \<Rightarrow> string \<Rightarrow> bool" where
  "licence_server_url_ok U s = (case U s of None \<Rightarrow> False
     | Some u \<Rightarrow> up_protocol u = ''https:'' \<or> up_protocol u = ''http:'' \<and> up_hostname u \<in> set loopback_hosts)"

definition lower_alnum :: "char \<Rightarrow> bool" where
  "lower_alnum c \<longleftrightarrow> CHR ''a'' \<le> c \<and> c \<le> CHR ''z'' \<or> is_digit c"

text \<open>\<open>OPERATOR_ID\<close>, \<open>FLEET_PUBLISHER_ID\<close> and \<open>FLEET_AGENT_HOST\<close>.\<close>

definition operator_id :: "string \<Rightarrow> bool" where
  "operator_id s \<longleftrightarrow> 1 \<le> length s \<and> length s \<le> 64 \<and> list_all (\<lambda>c. lower_alnum c \<or> c = CHR ''-'') s"

definition fleet_publisher_id :: "string \<Rightarrow> bool" where
  "fleet_publisher_id s \<longleftrightarrow> 1 \<le> length s \<and> length s \<le> 128 \<and>
     list_all (\<lambda>c. lower_alnum c \<or> CHR ''A'' \<le> c \<and> c \<le> CHR ''Z'' \<or> c \<in> set ''._:-'') s"

definition host_label :: "string \<Rightarrow> bool" where
  "host_label s \<longleftrightarrow> 1 \<le> length s \<and> length s \<le> 63 \<and> lower_alnum (hd s) \<and> lower_alnum (last s) \<and>
     list_all (\<lambda>c. lower_alnum c \<or> c = CHR ''-'') s"

definition fleet_agent_host :: "string \<Rightarrow> bool" where
  "fleet_agent_host s \<longleftrightarrow> 4 \<le> length s \<and> length s \<le> 253 \<and> 2 \<le> length (js_split CHR ''.'' s) \<and> list_all host_label (js_split CHR ''.'' s)"

definition is_text :: "(string \<Rightarrow> bool) \<Rightarrow> json \<Rightarrow> bool" where
  "is_text p j = (case j of JString s \<Rightarrow> p s | _ \<Rightarrow> False)"

definition is_array :: "json \<Rightarrow> bool" where
  "is_array j = (case j of JArray _ \<Rightarrow> True | _ \<Rightarrow> False)"

text \<open>The fields of \<open>enforcement\<close> this version knows, and what each must look like to survive.\<close>

definition known_fields :: "url_reader \<Rightarrow> (string \<times> (json \<Rightarrow> bool)) list" where
  "known_fields U =
     [(''articlePrefixes'', is_array), (''gateScope'', json_is_object), (''licenseIdentity'', is_text (\<lambda>_. True)),
      (''seoAllowlist'', is_array), (''crawlerPolicy'', json_is_object), (''termsPolicy'', json_is_object),
      (''licenceServer'', is_text (licence_server_url_ok U)), (''fleetAgent'', is_text fleet_agent_host),
      (''fleetPublisher'', is_text fleet_publisher_id), (''identityMode'', is_text (\<lambda>s. s \<in> {''off'', ''auto''})),
      (''tollMode'', is_text (\<lambda>s. s \<in> {''observe'', ''charge''}))]"

definition kept_fields :: "url_reader \<Rightarrow> json \<Rightarrow> (string \<times> json) list" where
  "kept_fields U e = concat (map (\<lambda>(k, p). if p (json_prop e k) then [(k, json_prop e k)] else []) (known_fields U))"

fun armed_ids :: "json list \<Rightarrow> string list" where
  "armed_ids [] = []"
| "armed_ids (j # js) = (case j of JString s \<Rightarrow> if operator_id s then s # armed_ids js else armed_ids js | _ \<Rightarrow> armed_ids js)"

definition narrow :: "url_reader \<Rightarrow> json \<Rightarrow> config_doc option" where
  "narrow U body = (if \<not> json_is_object body then None
     else (let armed = json_prop (json_prop body ''identity'') ''armed''; manifest = json_prop body ''manifest'' in
       Some \<lparr>cd_enforcement = kept_fields U (json_prop body ''enforcement''),
             cd_armed = (case armed of JArray js \<Rightarrow> Some (armed_ids js) | _ \<Rightarrow> None),
             cd_manifest = (if json_is_object manifest then Some manifest else None),
             cd_license = (case json_prop body ''license'' of JString (c # cs) \<Rightarrow> Some (c # cs) | _ \<Rightarrow> None)\<rparr>))"

section \<open>The cache\<close>

record config_entry =
  ce_doc :: "config_doc option"
  ce_fresh :: int
  ce_flight :: bool

text \<open>What a fetch comes back with: a throw, a status that is not ok, or an ok status with a body (\<open>None\<close>: not
  JSON).\<close>

datatype config_reply = NoReply | NotOk nat | OkBody nat "json option"

record config_source =
  cs_ttl :: int
  cs_retry :: int

record config_state =
  cf_clock :: int
  cf_cache :: "(string, config_entry) js_map"
  cf_asked :: "(string \<times> int) list"
  cf_failures :: "(nat \<times> string \<times> bool) list"

definition entry_of :: "config_state \<Rightarrow> string \<Rightarrow> config_entry" where
  "entry_of s h = (case map_of (cf_cache s) h of None \<Rightarrow> \<lparr>ce_doc = None, ce_fresh = 0, ce_flight = False\<rparr> | Some e \<Rightarrow> e)"

definition set_entry :: "string \<Rightarrow> config_entry \<Rightarrow> config_state \<Rightarrow> config_state" where
  "set_entry h e s = s\<lparr>cf_cache := AList.update h e (cf_cache s)\<rparr>"

text \<open>\<open>load\<close> up to its \<open>await\<close>: \<open>Some\<close> answers at once, \<open>None\<close> waits for the fetch in flight, started if there is
  none.\<close>

definition config_ask :: "string \<Rightarrow> config_state \<Rightarrow> config_doc option option \<times> config_state" where
  "config_ask h s = (let e = entry_of s h in
     if cf_clock s < ce_fresh e then (Some (ce_doc e), set_entry h e s)
     else if ce_flight e then (None, set_entry h e s)
     else (None, set_entry h (e\<lparr>ce_flight := True\<rparr>) (s\<lparr>cf_asked := cf_asked s @ [(h, cf_clock s)]\<rparr>)))"

definition config_fail :: "config_source \<Rightarrow> string \<Rightarrow> nat \<Rightarrow> config_state \<Rightarrow> config_state" where
  "config_fail C h status s = (let e = entry_of s h in
     set_entry h (e\<lparr>ce_fresh := cf_clock s + cs_retry C, ce_flight := False\<rparr>)
       (s\<lparr>cf_failures := cf_failures s @ [(status, h, ce_doc e \<noteq> None)]\<rparr>))"

text \<open>\<open>refresh\<close> from the answer on.\<close>

definition config_arrive :: "config_source \<Rightarrow> url_reader \<Rightarrow> string \<Rightarrow> config_reply \<Rightarrow> config_state \<Rightarrow> config_state" where
  "config_arrive C U h r s = (case r of
     NoReply \<Rightarrow> config_fail C h 0 s
   | NotOk status \<Rightarrow> config_fail C h status s
   | OkBody status None \<Rightarrow> config_fail C h status s
   | OkBody status (Some body) \<Rightarrow> (case narrow U body of
       None \<Rightarrow> config_fail C h status s
     | Some doc \<Rightarrow> set_entry h ((entry_of s h)\<lparr>ce_doc := Some doc, ce_fresh := cf_clock s + cs_ttl C, ce_flight := False\<rparr>) s))"

text \<open>\<open>load\<close> of a resource with nothing else running.\<close>

definition config_load :: "config_source \<Rightarrow> url_reader \<Rightarrow> string \<Rightarrow> config_reply \<Rightarrow> config_state \<Rightarrow> config_doc option \<times> config_state" where
  "config_load C U resource r s = (case U resource of None \<Rightarrow> (None, s)
     | Some u \<Rightarrow> (case config_ask (up_host u) s of
         (Some doc, s') \<Rightarrow> (doc, s')
       | (None, s') \<Rightarrow> (let s2 = config_arrive C U (up_host u) r s' in (ce_doc (entry_of s2 (up_host u)), s2))))"

text \<open>Requests interleave: the clock runs, a request asks, the fetch of a host comes back.\<close>

inductive config_step :: "config_source \<Rightarrow> url_reader \<Rightarrow> config_state \<Rightarrow> config_state \<Rightarrow> bool" for C U where
  Runs: "cf_clock s \<le> t \<Longrightarrow> config_step C U s (s\<lparr>cf_clock := t\<rparr>)"
| Asks: "config_ask h s = (a, s') \<Longrightarrow> config_step C U s s'"
| Arrives: "ce_flight (entry_of s h) \<Longrightarrow> config_step C U s (config_arrive C U h r s)"

abbreviation config_steps where "config_steps C U \<equiv> (config_step C U)\<^sup>*\<^sup>*"

definition config_start :: "int \<Rightarrow> config_state" where
  "config_start t = \<lparr>cf_clock = t, cf_cache = [], cf_asked = [], cf_failures = []\<rparr>"

section \<open>Lemmas\<close>

lemma entry_of_set [simp]: "entry_of (set_entry h e s) h' = (if h = h' then e else entry_of s h')"
  by (simp add: entry_of_def set_entry_def update_conv')

lemma set_entry_same [simp]:
  "cf_clock (set_entry h e s) = cf_clock s" "cf_asked (set_entry h e s) = cf_asked s" "cf_failures (set_entry h e s) = cf_failures s"
  by (simp_all add: set_entry_def)

lemma entry_of_same [simp]:
  "entry_of (s\<lparr>cf_clock := t\<rparr>) h = entry_of s h" "entry_of (s\<lparr>cf_asked := l\<rparr>) h = entry_of s h" "entry_of (s\<lparr>cf_failures := f\<rparr>) h = entry_of s h"
  by (simp_all add: entry_of_def)

lemma config_fail_same [simp]:
  "cf_clock (config_fail C h n s) = cf_clock s" "cf_asked (config_fail C h n s) = cf_asked s"
  "cf_failures (config_fail C h n s) = cf_failures s @ [(n, h, ce_doc (entry_of s h) \<noteq> None)]"
  "entry_of (config_fail C h n s) h' =
     (if h = h' then (entry_of s h)\<lparr>ce_fresh := cf_clock s + cs_retry C, ce_flight := False\<rparr> else entry_of s h')"
  by (simp_all add: config_fail_def Let_def)

lemma config_arrive_entry:
  "cf_clock (config_arrive C U h r s) = cf_clock s" "cf_asked (config_arrive C U h r s) = cf_asked s"
  "\<not> ce_flight (entry_of (config_arrive C U h r s) h)"
  "h' \<noteq> h \<Longrightarrow> entry_of (config_arrive C U h r s) h' = entry_of s h'"
  "cf_clock s + min (cs_ttl C) (cs_retry C) \<le> ce_fresh (entry_of (config_arrive C U h r s) h)"
  by (auto simp: config_arrive_def split: config_reply.split option.split)

text \<open>Each fetch of a host lies a window in the past, or is the one in flight.\<close>

definition sparing :: "config_source \<Rightarrow> config_state \<Rightarrow> bool" where
  "sparing C s \<longleftrightarrow> sorted_wrt (\<lambda>x y. fst x = fst y \<longrightarrow> snd x + min (cs_ttl C) (cs_retry C) \<le> snd y) (cf_asked s) \<and>
     (\<forall>(h, t) \<in> set (cf_asked s). t \<le> cf_clock s \<and>
        (ce_flight (entry_of s h) \<or> t + min (cs_ttl C) (cs_retry C) \<le> ce_fresh (entry_of s h)))"

lemma sparing_ask:
  assumes "sparing C s" and "config_ask h s = (a, s')"
  shows "sparing C s'"
proof (cases "cf_clock s < ce_fresh (entry_of s h) \<or> ce_flight (entry_of s h)")
  case True
  then have "s' = set_entry h (entry_of s h) s"
    using assms(2) by (auto simp: config_ask_def Let_def split: if_splits)
  then show ?thesis
    using assms(1) by (auto simp: sparing_def split: prod.splits)
next
  case False
  then have s': "s' = set_entry h ((entry_of s h)\<lparr>ce_flight := True\<rparr>) (s\<lparr>cf_asked := cf_asked s @ [(h, cf_clock s)]\<rparr>)"
    using assms(2) by (auto simp: config_ask_def Let_def)
  have "t + min (cs_ttl C) (cs_retry C) \<le> cf_clock s" if "(h, t) \<in> set (cf_asked s)" for t
    using that assms(1) False by (fastforce simp: sparing_def)
  then show ?thesis
    using assms(1) unfolding s' by (auto simp: sparing_def sorted_wrt_append split: prod.splits)
qed

lemma sparing_arrive:
  assumes "sparing C s"
  shows "sparing C (config_arrive C U h r s)"
proof -
  have "t + min (cs_ttl C) (cs_retry C) \<le> ce_fresh (entry_of (config_arrive C U h r s) h)" if "(h, t) \<in> set (cf_asked s)" for t
    using that assms config_arrive_entry(5)[of s C U h r] by (fastforce simp: sparing_def)
  then have "ce_flight (entry_of (config_arrive C U h r s) h') \<or> t + min (cs_ttl C) (cs_retry C) \<le> ce_fresh (entry_of (config_arrive C U h r s) h')"
    if "(h', t) \<in> set (cf_asked s)" for h' t
    using that assms config_arrive_entry(4)[of h' h C U r s] by (cases "h' = h") (auto simp: sparing_def)
  then show ?thesis
    using assms by (auto simp: sparing_def config_arrive_entry(1,2))
qed

lemma config_step_sparing: "config_step C U s s' \<Longrightarrow> sparing C s \<Longrightarrow> sparing C s'"
  by (induction rule: config_step.induct) (auto simp: sparing_ask sparing_arrive, auto simp: sparing_def)

text \<open>The control plane is asked sparingly. However requests interleave and whatever comes back, two
  fetches for one host lie at least the shorter of the time to live and the retry delay apart: a failing
  control plane is not asked once per request, and requests that find a fetch in flight start none.\<close>

theorem config_asked_sparingly:
  assumes "config_steps C U (config_start t) s"
  shows "sorted_wrt (\<lambda>x y. fst x = fst y \<longrightarrow> snd x + min (cs_ttl C) (cs_retry C) \<le> snd y) (cf_asked s)"
proof -
  have "sparing C s"
    using assms
  proof (induction rule: rtranclp_induct)
    case base
    show ?case by (simp add: sparing_def config_start_def)
  next
    case (step s s')
    then show ?case by (blast intro: config_step_sparing)
  qed
  then show ?thesis
    by (simp add: sparing_def)
qed

lemma config_step_keeps: "config_step C U s s' \<Longrightarrow> ce_doc (entry_of s h) \<noteq> None \<Longrightarrow> ce_doc (entry_of s' h) \<noteq> None"
  by (induction rule: config_step.induct)
    (auto simp: config_ask_def config_arrive_def Let_def split: if_splits config_reply.splits option.splits)

text \<open>C19: a document once loaded is never lost. It stays through every later step, a failing fetch keeps it as it
  is and reports it as served stale, and only an answer that is a JSON object takes its place, whatever is
  in it: an object with no \<open>enforcement\<close> counts as a policy with nothing set, and is not reported.\<close>

theorem config_stale_if_error:
  assumes "config_steps C U s s'" and "ce_doc (entry_of s h) = Some doc"
  shows "ce_doc (entry_of s' h) \<noteq> None \<and>
    ce_doc (entry_of (config_arrive C U h r s) h) =
      (case r of OkBody n (Some body) \<Rightarrow> if json_is_object body then narrow U body else Some doc | _ \<Rightarrow> Some doc) \<and>
    (cf_failures (config_arrive C U h r s) = cf_failures s \<longleftrightarrow> (\<exists>n body. r = OkBody n (Some body) \<and> json_is_object body)) \<and>
    narrow U (JObject []) = Some \<lparr>cd_enforcement = [], cd_armed = None, cd_manifest = None, cd_license = None\<rparr>"
proof -
  have "ce_doc (entry_of s' h) \<noteq> None"
    using assms(1) assms(2)
  proof (induction rule: rtranclp_induct)
    case (step y z)
    then show ?case using config_step_keeps[of C U y z h] by simp
  qed simp
  moreover have "ce_doc (entry_of (config_arrive C U h r s) h) =
      (case r of OkBody n (Some body) \<Rightarrow> if json_is_object body then narrow U body else Some doc | _ \<Rightarrow> Some doc)"
    using assms(2) by (auto simp: config_arrive_def narrow_def Let_def split: config_reply.split option.split)
  moreover have "cf_failures (config_arrive C U h r s) = cf_failures s \<longleftrightarrow> (\<exists>n body. r = OkBody n (Some body) \<and> json_is_object body)"
    by (auto simp: config_arrive_def narrow_def Let_def split: config_reply.split option.split)
  moreover have "narrow U (JObject []) = Some \<lparr>cd_enforcement = [], cd_armed = None, cd_manifest = None, cd_license = None\<rparr>"
    by (simp add: narrow_def json_is_object_def json_prop_def json_field_def kept_fields_def known_fields_def is_text_def is_array_def)
  ultimately show ?thesis
    by blast
qed

section \<open>Witnesses\<close>

definition sample_source :: config_source where
  "sample_source = \<lparr>cs_ttl = 300, cs_retry = 30\<rparr>"

definition sample_failed :: config_state where
  "sample_failed = config_arrive sample_source (\<lambda>u. None) ''h'' (NotOk 500) (snd (config_ask ''h'' (config_start 1000)))"

definition sample_again :: config_state where
  "sample_again = snd (config_ask ''h'' (sample_failed\<lparr>cf_clock := 1030\<rparr>))"

lemma sample_steps: "config_steps sample_source (\<lambda>u. None) (config_start 1000) sample_again"
proof -
  have "config_step sample_source (\<lambda>u. None) (config_start 1000) (snd (config_ask ''h'' (config_start 1000)))"
    by (rule Asks[where h = "''h''"]) (rule prod.collapse[symmetric])
  moreover have "config_step sample_source (\<lambda>u. None) (snd (config_ask ''h'' (config_start 1000))) sample_failed"
    unfolding sample_failed_def by (rule Arrives) (simp add: config_ask_def config_start_def entry_of_def set_entry_def)
  moreover have "config_step sample_source (\<lambda>u. None) sample_failed (sample_failed\<lparr>cf_clock := 1030\<rparr>)"
    by (rule Runs) (simp add: sample_failed_def config_ask_def config_start_def config_arrive_entry entry_of_def)
  moreover have "config_step sample_source (\<lambda>u. None) (sample_failed\<lparr>cf_clock := 1030\<rparr>) sample_again"
    unfolding sample_again_def by (rule Asks[where h = "''h''"]) (rule prod.collapse[symmetric])
  ultimately show ?thesis
    by (meson converse_rtranclp_into_rtranclp rtranclp.rtrancl_refl)
qed

theorem config_asked_sparingly_witness:
  "cf_asked sample_again = [(''h'', 1000), (''h'', 1030)] \<and> sorted_wrt (\<lambda>x y. fst x \<noteq> fst y \<or> snd x + 30 \<le> snd y) (cf_asked sample_again)"
proof -
  have asked: "cf_asked sample_again = [(''h'', 1000), (''h'', 1030)]"
    by code_simp
  have "sorted_wrt (\<lambda>x y. fst x = fst y \<longrightarrow> snd x + min (cs_ttl sample_source) (cs_retry sample_source) \<le> snd y) (cf_asked sample_again)"
    by (rule config_asked_sparingly[OF sample_steps])
  then have "sorted_wrt (\<lambda>x y. fst x \<noteq> fst y \<or> snd x + 30 \<le> snd y) (cf_asked sample_again)"
    by (rule sorted_wrt_mono_rel[rotated]) (simp add: sample_source_def asked)
  then show ?thesis
    using asked by blast
qed

definition sample_loaded :: config_state where
  "sample_loaded = config_arrive sample_source (\<lambda>u. None) ''h'' (OkBody 200 (Some (JObject [(''enforcement'', JObject [(''tollMode'', JString ''observe'')])])))
     (snd (config_ask ''h'' (config_start 1000)))"

lemma sample_loaded_doc:
  "ce_doc (entry_of sample_loaded ''h'') = Some \<lparr>cd_enforcement = [(''tollMode'', JString ''observe'')], cd_armed = None, cd_manifest = None, cd_license = None\<rparr>"
  by code_simp

theorem config_stale_if_error_witness:
  "ce_doc (entry_of (config_arrive sample_source (\<lambda>u. None) ''h'' (NotOk 503) sample_loaded) ''h'')
     = Some \<lparr>cd_enforcement = [(''tollMode'', JString ''observe'')], cd_armed = None, cd_manifest = None, cd_license = None\<rparr>"
  using config_stale_if_error[OF rtranclp.rtrancl_refl sample_loaded_doc, of sample_source "\<lambda>u. None" "NotOk 503"] by simp

end
