(* ===== verification/Middleware.thy ===== *)
theory Middleware
  imports Decide CrawlerPrice ConfigSource
begin

text \<open>
  The toll inside the publisher's own runtime, \<open>packages/enforce/src/enforce/middleware.ts\<close>, with
  \<open>jwks-cache.ts\<close>, \<open>clientIp.ts\<close>, \<open>headerSafe.ts\<close>, \<open>gateAnswer\<close> (\<open>shared/src/types.ts\<close>),
  \<open>classifyPaymentFailure\<close> (\<open>shared/src/paymentfailure.ts\<close>), \<open>referrerHost\<close> and the licence check of
  \<open>sdk/src/rsl/olp.ts\<close>: what a request gets once \<open>decide\<close> has spoken, what the runtime reports and whom it asks
  about money. One request runs at a time, and what the network answers it is an input; so are the clock, the
  Web Bot Auth verdict, the crawler ranges and the URL parser. The text of a 402 and the log are left out. An exception is \<open>None\<close>.
\<close>

section \<open>The gate's answer\<close>

datatype gate_verdict = VerdictPaid | VerdictRefused | VerdictPending | VerdictUnavailable

definition gate_verdict_of :: "json \<Rightarrow> gate_verdict option" where
  "gate_verdict_of body = (case body of
     JObject fs \<Rightarrow> map_of [(JString ''paid'', VerdictPaid), (JString ''refused'', VerdictRefused),
       (JString ''pending'', VerdictPending), (JString ''unavailable'', VerdictUnavailable)] (json_field fs ''verdict'')
   | _ \<Rightarrow> None)"

definition gate_answer :: "nat \<Rightarrow> json \<Rightarrow> gate_verdict option" where
  "gate_answer status body = (case gate_verdict_of body of Some v \<Rightarrow> Some v
     | None \<Rightarrow> if 400 \<le> status \<and> status < 500 then Some VerdictRefused else None)"

datatype payment_failure = FailInsufficient | FailAuthorization | FailMalformed | FailNetwork | FailSettlement

definition mentions :: "string list \<Rightarrow> string \<Rightarrow> bool" where
  "mentions ps t \<longleftrightarrow> list_ex (\<lambda>p. sublist p t) ps"

definition classify_payment_failure :: "string \<Rightarrow> payment_failure" where
  "classify_payment_failure error = (let t = js_lower error in
     if t = [] then FailSettlement
     else if mentions [''insufficient'', ''exceeds balance'', ''transfer amount exceeds'', ''not enough'', ''balance too low''] t then FailInsufficient
     else if mentions [''malformed'', ''leg count mismatch'', ''missing payer'', ''no settlement legs''] t then FailMalformed
     else if mentions [''no memo predeploy'', ''relayer_private_key'', ''unsupported network'', ''no memo''] t then FailNetwork
     else if mentions [''!= requirements'', ''verification failed'', ''invalid'', ''nonce'', ''expired'', ''valid before'', ''validbefore'', ''too short''] t
       then FailAuthorization
     else FailSettlement)"

definition header_safe :: "string \<Rightarrow> string" where
  "header_safe t = map (\<lambda>c. if (of_char c :: nat) < 32 \<or> 127 \<le> (of_char c :: nat) then CHR '' '' else c) t"

section \<open>The gate's keys\<close>

record key_cache =
  kc_keys :: "jwk list option"
  kc_at :: int

datatype keys_reply = KeysNoAnswer | KeysStatus nat | KeysSet "jwk list"

definition keys_fresh :: "int \<Rightarrow> int \<Rightarrow> key_cache \<Rightarrow> bool" where
  "keys_fresh ttl now c \<longleftrightarrow> kc_keys c \<noteq> None \<and> now - kc_at c < ttl"

text \<open>\<open>refresh\<close>: \<open>Some transient\<close> is a failure, and keeps the last good keys.\<close>

definition keys_refresh :: "int \<Rightarrow> keys_reply \<Rightarrow> key_cache \<Rightarrow> bool option \<times> key_cache" where
  "keys_refresh now r c = (case r of
     KeysNoAnswer \<Rightarrow> (Some True, c)
   | KeysStatus s \<Rightarrow> (Some (500 \<le> s), c)
   | KeysSet ks \<Rightarrow> (None, \<lparr>kc_keys = Some ks, kc_at = now\<rparr>))"

datatype licence_verifier = NoKeysFor | KeysOutage | VerifyWith license_verification

record mw_keys =
  mk_cache :: key_cache
  mk_probed :: bool

text \<open>\<open>preflight\<close> and \<open>resolve\<close> of one request: one fetch of the keys serves both.\<close>

definition preflight :: "int \<Rightarrow> int \<Rightarrow> keys_reply \<Rightarrow> mw_keys \<Rightarrow> mw_keys" where
  "preflight ttl now r k = (if mk_probed k then k
     else if keys_fresh ttl now (mk_cache k) then k\<lparr>mk_probed := True\<rparr>
     else \<lparr>mk_cache = snd (keys_refresh now r (mk_cache k)), mk_probed = True\<rparr>)"

definition resolve_verifier :: "int \<Rightarrow> int \<Rightarrow> keys_reply \<Rightarrow> string option \<Rightarrow> mw_keys \<Rightarrow> licence_verifier \<times> mw_keys" where
  "resolve_verifier ttl now r issuer k = (case issuer of
     Some (c # cs) \<Rightarrow>
       (let (failure, cache) = (if keys_fresh ttl now (mk_cache k) then (None, mk_cache k) else keys_refresh now r (mk_cache k)) in
        (if kc_keys cache = None \<and> failure = Some True then KeysOutage
         else (case kc_keys cache of None \<Rightarrow> NoKeysFor | Some ks \<Rightarrow> VerifyWith \<lparr>lv_jwks = ks, lv_issuer = c # cs\<rparr>),
         k\<lparr>mk_cache := cache\<rparr>))
   | _ \<Rightarrow> (NoKeysFor, k))"

section \<open>The caller's address\<close>

datatype ip_preset = Vercel | Netlify | Cloudflare
datatype client_ip_option = IpPreset ip_preset | IpNone | IpHeader string

definition preset_headers :: "ip_preset \<Rightarrow> string list" where
  "preset_headers p = (case p of Vercel \<Rightarrow> [''x-vercel-forwarded-for'', ''x-real-ip'']
     | Netlify \<Rightarrow> [''x-nf-client-connection-ip''] | Cloudflare \<Rightarrow> [''cf-connecting-ipv6'', ''cf-connecting-ip''])"

definition first_entry :: "raw_request \<Rightarrow> string \<Rightarrow> string option" where
  "first_entry raw h = (case header raw h of None \<Rightarrow> None
     | Some v \<Rightarrow> (case js_trim (hd (js_split CHR '','' v)) of [] \<Rightarrow> None | c # cs \<Rightarrow> Some (c # cs)))"

fun first_of :: "raw_request \<Rightarrow> string list \<Rightarrow> string option" where
  "first_of raw [] = None"
| "first_of raw (h # hs) = (case first_entry raw h of Some v \<Rightarrow> Some v | None \<Rightarrow> first_of raw hs)"

definition appendable :: "string list" where
  "appendable = [''x-forwarded-for'', ''forwarded'']"

text \<open>\<open>platform\<close> is what \<open>detect\<close> finds in the environment, \<open>socket\<close> what the Node adapter left on the request.\<close>

definition sdk_client_ip :: "raw_request \<Rightarrow> client_ip_option option \<Rightarrow> ip_preset option \<Rightarrow> string option \<Rightarrow> string option" where
  "sdk_client_ip raw opt platform socket = (case opt of
     Some IpNone \<Rightarrow> None
   | Some (IpHeader h) \<Rightarrow> if js_lower h \<in> set appendable then None else first_entry raw (js_lower h)
   | _ \<Rightarrow> (case (case opt of Some (IpPreset p) \<Rightarrow> Some p | _ \<Rightarrow> platform) of
       Some p \<Rightarrow> first_of raw (preset_headers p)
     | None \<Rightarrow> (case socket of Some (c # cs) \<Rightarrow>
           Some (if prefix ''::ffff:'' (c # cs) then drop 7 (c # cs) else c # cs)
         | _ \<Rightarrow> None)))"

section \<open>What is reported and sent\<close>

datatype report_verdict = ReportFree | ReportReread | ReportDenied | ReportBlocked

datatype served_because = Unpriced | FreeByTerms | FreeByFleet | GateUnavailable

record report_agent =
  ra_ua :: "string option"
  ra_reason :: string
  ra_verified :: bool
  ra_agent :: "string option"
  ra_sig_invalid :: bool

record mw_report =
  rp_resource :: string
  rp_slug :: string
  rp_verdict :: report_verdict
  rp_classified :: caller_kind
  rp_agent :: report_agent
  rp_kind :: "toll_kind option"
  rp_free :: "served_because option"
  rp_referrer :: "string option"
  rp_price_micro :: "int option"
  rp_refusal :: "licence_refusal option"
  rp_check :: "identity_check option"
  rp_operator :: "string option"
  rp_forged :: "string option"
  rp_observe_only :: bool
  rp_budget :: "budget_verdict option"
  rp_payment_presented :: bool

text \<open>A call that may move money, with the key it carries.\<close>

datatype gate_call = VerifyCall string string string "settlement_leg list" | CheckCall string string string "(string \<times> string \<times> string option) option"

record mw_response =
  rs_status :: nat
  rs_offer :: "json option"
  rs_headers :: "(string \<times> string) list"
  rs_text :: "string option"
  rs_failure :: "payment_failure option"

text \<open>\<open>response: null\<close> passes the request to the site, with headers for its answer.\<close>

record mw_result =
  mr_response :: "mw_response option"
  mr_headers :: "(string \<times> string) list"

record mw_outcome =
  mo_result :: "mw_result option"
  mo_reports :: "mw_report list"
  mo_calls :: "gate_call list"

datatype hosted_reply = VerifyTimedOut | VerifyThrew | VerifyAnswered nat "json option"

datatype check_reply = CheckThrew | CheckAnswered nat "json option"

definition agent_block :: "observation \<Rightarrow> report_agent" where
  "agent_block obs = \<lparr>ra_ua = ob_agent_ua obs, ra_reason = ob_reason obs, ra_verified = ob_verified obs,
     ra_agent = ob_verified_agent obs, ra_sig_invalid = ob_sig_invalid obs\<rparr>"

definition max_reported_digits :: nat where "max_reported_digits = 15"

definition charged_micro_of :: "string option \<Rightarrow> int option" where
  "charged_micro_of raw = (case raw of None \<Rightarrow> None
     | Some s \<Rightarrow> if all_digits s \<and> length s \<le> max_reported_digits then Some (int (dec_value s)) else None)"

text \<open>The same function on a figure that did not come as a text: a number is tested as it prints, and has no length.\<close>

definition reported_micro :: "json \<Rightarrow> int option" where
  "reported_micro j = (case j of JString s \<Rightarrow> charged_micro_of (Some s)
     | JNumber q \<Rightarrow> if of_int \<lfloor>q\<rfloor> = q \<and> 0 \<le> q \<and> q < 10 ^ 21 then Some \<lfloor>q\<rfloor> else None
     | _ \<Rightarrow> None)"

definition signature_of :: "raw_request \<Rightarrow> (string \<times> string \<times> string option) option" where
  "signature_of raw = (case (header raw ''signature-input'', header raw ''signature'') of
     (Some (i # is), Some (g # gs)) \<Rightarrow> Some (i # is, g # gs, case header raw ''signature-agent'' of Some (a # as) \<Rightarrow> Some (a # as) | _ \<Rightarrow> None)
   | _ \<Rightarrow> None)"

definition origin_of :: "url_reader \<Rightarrow> string \<Rightarrow> (string \<times> string) option" where
  "origin_of U s = map_option (\<lambda>u. (up_protocol u, up_host u)) (U s)"

definition same_origin :: "url_reader \<Rightarrow> string \<Rightarrow> string \<Rightarrow> bool" where
  "same_origin U a b \<longleftrightarrow> origin_of U a \<noteq> None \<and> origin_of U a = origin_of U b"

definition without_port :: "string \<Rightarrow> string" where
  "without_port h = (let d = rev (takeWhile is_digit (rev h)); r = take (length h - length d) h in
     if d \<noteq> [] \<and> r \<noteq> [] \<and> last r = CHR '':'' then butlast r else h)"

definition referrer_host :: "url_reader \<Rightarrow> string option \<Rightarrow> string \<Rightarrow> string option" where
  "referrer_host U referer own = (case referer of
     Some (c # cs) \<Rightarrow> (case U (c # cs) of None \<Rightarrow> None
       | Some u \<Rightarrow> (let h = js_lower (up_hostname u) in if h = [] \<or> h = without_port (js_lower own) then None else Some h))
   | _ \<Rightarrow> None)"

definition resolve_publisher :: "(string \<times> json) list option \<Rightarrow> (string \<times> json) list option \<Rightarrow> (string \<times> json) list option" where
  "resolve_publisher local_doc remote = (case remote of
     Some (f # fs) \<Rightarrow> Some (fold (\<lambda>(k, v). AList.update k v) (f # fs) (case local_doc of None \<Rightarrow> [] | Some l \<Rightarrow> l))
   | _ \<Rightarrow> local_doc)"

section \<open>The licence server\<close>

text \<open>\<open>join\<close> is the URL with its path extended by \<open>/introspect\<close>.\<close>

definition introspect_endpoint :: "url_reader \<Rightarrow> (string \<Rightarrow> string) \<Rightarrow> string \<Rightarrow> string option" where
  "introspect_endpoint U join server = (if licence_server_url_ok U server then Some (join server) else None)"

record licence_answer =
  la_active :: bool
  la_permitted :: bool
  la_error :: "string option"
  la_reason :: "string option"
  la_license :: "string option"
  la_charged :: "string option"

text \<open>A failure carries its status, 0 for no answer, and the description, which only a server's own error and
  the fixed texts of the client determine.\<close>

datatype introspection = Introspected licence_answer | IntrospectFailed nat string

definition payload_text :: "json \<Rightarrow> string \<Rightarrow> string option" where
  "payload_text j k = (case json_prop j k of JString (c # cs) \<Rightarrow> Some (c # cs) | _ \<Rightarrow> None)"

definition read_introspection :: "check_reply \<Rightarrow> introspection" where
  "read_introspection r = (case r of
     CheckThrew \<Rightarrow> IntrospectFailed 0 ''no answer''
   | CheckAnswered status (Some (JObject fs)) \<Rightarrow>
       if \<not> (200 \<le> status \<and> status < 300) then
         IntrospectFailed status (case json_field fs ''error'' of JString e \<Rightarrow> e | _ \<Rightarrow> ''HTTP '' @ nat_string 10 status)
       else (let p = JObject fs; active = (json_prop p ''active'' = JBool True) in
         Introspected \<lparr>la_active = active, la_permitted = active \<and> json_prop p ''permitted'' = JBool True,
           la_error = payload_text p ''error'', la_reason = payload_text p ''reason'', la_license = payload_text p ''license_jws'',
           la_charged = (case payload_text p ''charged_micro'' of Some c \<Rightarrow> if all_digits c then Some c else None | None \<Rightarrow> None)\<rparr>)
   | CheckAnswered status _ \<Rightarrow> IntrospectFailed status ''response was not a JSON object'')"

section \<open>One request\<close>

record 'k mw_env =
  me_urls :: url_reader
  me_join :: "string \<Rightarrow> string"
  me_text :: "json \<Rightarrow> string"
  me_verify_url :: string
  me_api_key :: string
  me_local :: "(string \<times> json) list option"
  me_read :: "(string \<times> json) list \<Rightarrow> publisher_config"
  me_serve_license :: bool
  me_serve_manifest :: bool
  me_observe :: bool
  me_client_ip :: "client_ip_option option"
  me_platform :: "ip_preset option"
  me_keys_ttl :: int
  me_decide :: "'k decide_env"

record mw_request =
  mq_raw :: raw_request
  mq_method :: string
  mq_socket :: "string option"

text \<open>What the rest of the world says to one request.\<close>

record mw_world =
  wd_now :: nat
  wd_config :: "config_doc option"
  wd_keys :: keys_reply
  wd_ranges :: "compiled_ranges option"
  wd_bot :: bot_auth
  wd_quote :: "string \<Rightarrow> toll_kind \<Rightarrow> string option \<Rightarrow> string option \<Rightarrow> toll_error + quote option"
  wd_verify :: hosted_reply
  wd_check :: check_reply

record mw_state =
  ms_keys :: mw_keys
  ms_decide :: decide_state

record report_extra =
  rx_kind :: "toll_kind option"
  rx_free :: "served_because option"
  rx_referrer :: "string option"
  rx_price :: "rat option"
  rx_observe_only :: bool
  rx_budget :: "budget_verdict option"
  rx_payment :: bool

definition no_extra :: report_extra where
  "no_extra = \<lparr>rx_kind = None, rx_free = None, rx_referrer = None, rx_price = None, rx_observe_only = False, rx_budget = None, rx_payment = False\<rparr>"

definition mw_reports :: "'k mw_env \<Rightarrow> mw_request \<Rightarrow> observation \<Rightarrow> report_verdict \<Rightarrow> report_extra \<Rightarrow> mw_report list" where
  "mw_reports E req obs v x = (if \<not> me_observe E then [] else
     [\<lparr>rp_resource = rw_external_url (mq_raw req), rp_slug = ob_slug obs, rp_verdict = v, rp_classified = ob_classified obs,
       rp_agent = agent_block obs, rp_kind = rx_kind x,
       rp_free = (if ob_classified obs = Agent then rx_free x else None),
       rp_referrer = (if ob_classified obs = Human then rx_referrer x else None),
       rp_price_micro = map_option (\<lambda>p. js_round (p * 1000000)) (rx_price x),
       rp_refusal = ob_licence_refusal obs, rp_check = map_option ir_check (ob_identity obs),
       rp_operator = map_option ic_operator_id (Option.bind (ob_identity obs) deciding_claim),
       rp_forged = ob_forged_from obs, rp_observe_only = rx_observe_only x, rp_budget = rx_budget x,
       rp_payment_presented = rx_payment x\<rparr>])"

definition passed :: "(string \<times> string) list \<Rightarrow> mw_result option" where
  "passed hs = Some \<lparr>mr_response = None, mr_headers = hs\<rparr>"

definition sent :: "mw_response \<Rightarrow> mw_result option" where
  "sent r = Some \<lparr>mr_response = Some r, mr_headers = []\<rparr>"

definition ask_micro :: "ask \<Rightarrow> int option" where
  "ask_micro a = ask_micro_of (leg_amounts (ask_legs a)) (q_price (ask_quote a)) (map pl_amount (q_extra_legs (ask_quote a)))"

definition declared_budget :: "mw_request \<Rightarrow> int \<Rightarrow> budget_verdict option" where
  "declared_budget req m = crawler_budget_verdict
     (declared_crawler_budget (header (mq_raw req) ''crawler-max-price'') (header (mq_raw req) ''crawler-exact-price'')) m"

text \<open>\<open>refusal\<close>: the 402 that offers the read.\<close>

definition offer_402 :: "ask \<Rightarrow> payment_failure option \<Rightarrow> (string \<times> string) list \<Rightarrow> mw_result option" where
  "offer_402 a failure hs = Option.bind (Option.bind (ask_micro a) format_crawler_price) (\<lambda>price.
     sent \<lparr>rs_status = 402, rs_offer = ask_body a,
       rs_headers = [(''crawler-price'', price), (''cache-control'', ''no-store''), (''vary'', ''Accept, User-Agent'')] @ hs, rs_text = None, rs_failure = failure\<rparr>)"

definition budget_text :: "budget_verdict option \<Rightarrow> string" where
  "budget_text b = (case b of None \<Rightarrow> [] | Some Within \<Rightarrow> ''; within crawler budget'' | Some Over \<Rightarrow> ''; over crawler budget'')"

definition verdict_header :: "string \<Rightarrow> string \<times> string" where
  "verdict_header t = (''x-naulon-verdict'', header_safe t)"

definition payment_required :: "'k mw_env \<Rightarrow> mw_request \<Rightarrow> bool \<Rightarrow> ask \<Rightarrow> observation \<Rightarrow> string option \<Rightarrow> gate_call list \<Rightarrow> mw_outcome" where
  "payment_required E req observing a obs verdict calls = (case ask_micro a of
     None \<Rightarrow> \<lparr>mo_result = None, mo_reports = [], mo_calls = calls\<rparr>
   | Some m \<Rightarrow> (let b = declared_budget req m in
       \<lparr>mo_result = (if observing then passed [(''cache-control'', ''no-store'')]
          else offer_402 a None [verdict_header (case verdict of Some v \<Rightarrow> v | None \<Rightarrow> ''agent ('' @ ob_reason obs @ '')'' @ budget_text b)]),
        mo_reports = mw_reports E req obs ReportDenied
          (no_extra\<lparr>rx_kind := Some (ask_kind a), rx_price := Some (q_price (ask_quote a)), rx_budget := b, rx_observe_only := observing\<rparr>),
        mo_calls = calls\<rparr>))"

definition retry_later :: "string \<Rightarrow> mw_result option" where
  "retry_later verdict = sent \<lparr>rs_status = 503, rs_offer = None,
     rs_headers = [(''retry-after'', ''2''), (''cache-control'', ''no-store''), verdict_header verdict], rs_text = None, rs_failure = None\<rparr>"

definition served_on_gate_failure :: "'k mw_env \<Rightarrow> mw_request \<Rightarrow> toll_kind \<Rightarrow> observation \<Rightarrow> string \<Rightarrow> bool \<Rightarrow> gate_call list \<Rightarrow> mw_outcome" where
  "served_on_gate_failure E req kind obs step reported calls =
     \<lparr>mo_result = passed [(''cache-control'', ''no-store''), verdict_header (''served free ('' @ step @ '' unavailable)'')],
      mo_reports = (if reported then mw_reports E req obs ReportFree (no_extra\<lparr>rx_kind := Some kind, rx_free := Some GateUnavailable\<rparr>) else []),
      mo_calls = calls\<rparr>"

text \<open>A charge figure as a header, none when there is no figure; \<open>None\<close> throws.\<close>

definition charged_header :: "int option \<Rightarrow> (string \<times> string) list option" where
  "charged_header charged = (case charged of None \<Rightarrow> Some [] | Some m \<Rightarrow> map_option (\<lambda>t. [(''crawler-charged'', t)]) (format_crawler_price m))"

definition text_header :: "string \<Rightarrow> string option \<Rightarrow> (string \<times> string) list" where
  "text_header k v = (case v of Some (c # cs) \<Rightarrow> [(k, c # cs)] | _ \<Rightarrow> [])"

definition licence_refused :: "string \<Rightarrow> string" where
  "licence_refused why = ''licence refused ('' @ why @ '')''"

text \<open>A presented RSL licence.\<close>

definition answer_licence :: "'k mw_env \<Rightarrow> mw_request \<Rightarrow> mw_world \<Rightarrow> bool \<Rightarrow> string option \<Rightarrow> string \<Rightarrow> ask \<Rightarrow> observation \<Rightarrow> mw_outcome" where
  "answer_licence E req W observing server token a obs =
     (case server of
        Some (c # cs) \<Rightarrow>
          if observing \<or> mq_method req \<noteq> ''GET'' then payment_required E req observing a obs None []
          else if \<not> same_origin (me_urls E) (c # cs) (me_verify_url E)
            then payment_required E req observing a obs (Some (licence_refused ''untrusted_licence_server'')) []
          else (let (checked, calls) = (case introspect_endpoint (me_urls E) (me_join E) (c # cs) of
                  None \<Rightarrow> (IntrospectFailed 400 ''server is not an https URL'', [])
                | Some url \<Rightarrow> (read_introspection (wd_check W), [CheckCall url (me_api_key E) token (signature_of (mq_raw req))])) in
            case checked of
              Introspected l \<Rightarrow>
                if la_permitted l then (let charged = charged_micro_of (la_charged l) in
                  \<lparr>mo_result = Option.bind (charged_header charged) (\<lambda>ch. passed
                     ([verdict_header (if charged \<noteq> None then ''agent paid (licence)'' else ''agent reread (licence)'')] @
                      text_header ''x-naulon-license'' (la_license l) @ ch)),
                   mo_reports = (if charged = None then mw_reports E req obs ReportReread (no_extra\<lparr>rx_kind := Some (ask_kind a)\<rparr>) else []),
                   mo_calls = calls\<rparr>)
                else (let why = (case la_error l of Some e \<Rightarrow> e | None \<Rightarrow> if la_active l then ''not_permitted'' else ''invalid_token'') in
                  if why \<in> {''in_flight'', ''server_error''} then
                    \<lparr>mo_result = retry_later (licence_refused why),
                     mo_reports = mw_reports E req obs ReportDenied (no_extra\<lparr>rx_kind := Some (ask_kind a), rx_price := Some (q_price (ask_quote a))\<rparr>),
                     mo_calls = calls\<rparr>
                  else payment_required E req observing a obs (Some (licence_refused why)) calls)
            | IntrospectFailed status description \<Rightarrow>
                if description \<in> {''in_flight'', ''server_error''} then
                  \<lparr>mo_result = retry_later (licence_refused description),
                   mo_reports = mw_reports E req obs ReportDenied (no_extra\<lparr>rx_kind := Some (ask_kind a), rx_price := Some (q_price (ask_quote a))\<rparr>),
                   mo_calls = calls\<rparr>
                else if status = 0 \<or> 500 \<le> status \<or> 200 \<le> status \<and> status < 300 then
                  served_on_gate_failure E req (ask_kind a) obs ''licence check'' True calls
                else payment_required E req observing a obs (Some (licence_refused ''licence_check_failed'')) calls)
      | _ \<Rightarrow> payment_required E req observing a obs None [])"

definition object_or_empty :: "json option \<Rightarrow> json" where
  "object_or_empty j = (case j of Some (JObject fs) \<Rightarrow> JObject fs | _ \<Rightarrow> JObject [])"

text \<open>A presented payment: the hosted gate settles it.\<close>

definition answer_payment :: "'k mw_env \<Rightarrow> mw_request \<Rightarrow> mw_world \<Rightarrow> bool \<Rightarrow> string \<Rightarrow> ask \<Rightarrow> observation \<Rightarrow> mw_outcome" where
  "answer_payment E req W observing payment a obs =
     (if observing then (case ask_micro a of
          None \<Rightarrow> \<lparr>mo_result = None, mo_reports = [], mo_calls = []\<rparr>
        | Some m \<Rightarrow> \<lparr>mo_result = passed [(''cache-control'', ''no-store'')],
            mo_reports = mw_reports E req obs ReportDenied (no_extra\<lparr>rx_kind := Some (ask_kind a), rx_price := Some (q_price (ask_quote a)),
              rx_observe_only := True, rx_payment := True, rx_budget := declared_budget req m\<rparr>),
            mo_calls = []\<rparr>)
      else (let calls = [VerifyCall (me_verify_url E) (me_api_key E) payment (ask_legs a)] in
        case wd_verify W of
          VerifyTimedOut \<Rightarrow> served_on_gate_failure E req (ask_kind a) obs ''settlement'' False calls
        | VerifyThrew \<Rightarrow> served_on_gate_failure E req (ask_kind a) obs ''settlement'' True calls
        | VerifyAnswered status answer \<Rightarrow> (let body = object_or_empty answer in
            (case gate_answer status body of
               Some VerdictPaid \<Rightarrow>
                 \<lparr>mo_result = Option.bind (charged_header (reported_micro (json_prop body ''chargedMicro'')))
                    (\<lambda>ch. passed (text_header ''payment-response'' (payload_text body ''responseHeader'') @
                      text_header ''x-naulon-license'' (payload_text body ''licenseJws'') @ ch)),
                  mo_reports = [], mo_calls = calls\<rparr>
             | Some VerdictRefused \<Rightarrow> \<lparr>mo_result = offer_402 a (Some (classify_payment_failure
                   (case payload_text body ''error'' of Some e \<Rightarrow> e | None \<Rightarrow> ''payment rejected''))) [], mo_reports = [], mo_calls = calls\<rparr>
             | Some VerdictPending \<Rightarrow> \<lparr>mo_result = retry_later ''settlement pending'', mo_reports = [], mo_calls = calls\<rparr>
             | Some VerdictUnavailable \<Rightarrow> served_on_gate_failure E req (ask_kind a) obs ''settlement'' False calls
             | None \<Rightarrow> served_on_gate_failure E req (ask_kind a) obs ''settlement'' True calls))))"

definition because_of :: "free_reason option \<Rightarrow> served_because option" where
  "because_of b = map_option (\<lambda>r. case r of ByFleet \<Rightarrow> FreeByFleet | ByTerms \<Rightarrow> FreeByTerms) b"

definition refused_403 :: "string \<Rightarrow> mw_result option" where
  "refused_403 t = sent \<lparr>rs_status = 403, rs_offer = None, rs_headers = [], rs_text = Some t, rs_failure = None\<rparr>"

definition answer_decision :: "'k mw_env \<Rightarrow> mw_request \<Rightarrow> mw_world \<Rightarrow> bool \<Rightarrow> string option \<Rightarrow> decision \<Rightarrow> mw_outcome" where
  "answer_decision E req W observing server d = (case d of
     PassNonArticle \<Rightarrow> \<lparr>mo_result = passed [], mo_reports = [], mo_calls = []\<rparr>
   | PassUnknown obs \<Rightarrow> \<lparr>mo_result = passed [],
       mo_reports = (case obs of None \<Rightarrow> [] | Some o' \<Rightarrow> mw_reports E req o' ReportFree (no_extra\<lparr>rx_free := Some Unpriced\<rparr>)), mo_calls = []\<rparr>
   | FreeRead v because obs \<Rightarrow> \<lparr>mo_result = passed [],
       mo_reports = (if v = ''fleet-pull'' then [] else mw_reports E req obs ReportFree (no_extra\<lparr>rx_free := because_of because,
         rx_referrer := referrer_host (me_urls E) (header (mq_raw req) ''referer'')
           (case me_urls E (rw_external_url (mq_raw req)) of None \<Rightarrow> [] | Some u \<Rightarrow> up_host u)\<rparr>)), mo_calls = []\<rparr>
   | RereadFree kind obs \<Rightarrow> \<lparr>mo_result = passed [], mo_reports = mw_reports E req obs ReportReread (no_extra\<lparr>rx_kind := Some kind\<rparr>), mo_calls = []\<rparr>
   | Blocked f obs \<Rightarrow> \<lparr>mo_result = refused_403 ''This crawler is refused by the publisher.'', mo_reports = mw_reports E req obs ReportBlocked no_extra, mo_calls = []\<rparr>
   | Prohibited term reason obs \<Rightarrow> \<lparr>mo_result = refused_403 (reason @ ''.''), mo_reports = mw_reports E req obs ReportBlocked no_extra, mo_calls = []\<rparr>
   | LicencePresented token a signer obs \<Rightarrow> answer_licence E req W observing server token a obs
   | PaymentRequired a obs \<Rightarrow> payment_required E req observing a obs None []
   | PaymentPresented payment a obs \<Rightarrow> answer_payment E req W observing payment a obs)"

text \<open>A licence nobody could verify because the keys never arrived.\<close>

definition outage_read :: "decision \<Rightarrow> (toll_kind \<times> observation) option" where
  "outage_read d = (case d of
     PaymentRequired a obs \<Rightarrow> if ob_licence_refusal obs = Some NoVerifier then Some (ask_kind a, obs) else None
   | PaymentPresented p a obs \<Rightarrow> if ob_licence_refusal obs = Some NoVerifier then Some (ask_kind a, obs) else None
   | _ \<Rightarrow> None)"

definition served_document :: "'k mw_env \<Rightarrow> mw_request \<Rightarrow> mw_world \<Rightarrow> mw_response option" where
  "served_document E req W = (let asked = (\<lambda>path. mq_method req \<in> {''GET'', ''HEAD''} \<and> rw_pathname (mq_raw req) = path);
       document = (\<lambda>age t. Some \<lparr>rs_status = 200, rs_offer = None, rs_headers = [(''cache-control'', age), (''access-control-allow-origin'', ''*'')],
         rs_text = (if mq_method req = ''HEAD'' then None else Some t), rs_failure = None\<rparr>) in
     case (if me_serve_license E \<and> asked ''/license.xml'' then Option.bind (wd_config W) cd_license else None) of
       Some t \<Rightarrow> document ''public, max-age=86400'' t
     | None \<Rightarrow> (case (if me_serve_manifest E \<and> asked ''/.well-known/x402'' then Option.bind (wd_config W) cd_manifest else None) of
         Some j \<Rightarrow> document ''public, max-age=60, s-maxage=300'' (me_text E j)
       | None \<Rightarrow> None))"

definition text_field :: "(string \<times> json) list \<Rightarrow> string \<Rightarrow> string option" where
  "text_field p k = (case json_field p k of JString s \<Rightarrow> Some s | _ \<Rightarrow> None)"

definition observing_site :: "(string \<times> json) list \<Rightarrow> bool" where
  "observing_site p \<longleftrightarrow> json_field p ''tollMode'' = JString ''observe''"

definition mw_input :: "'k mw_env \<Rightarrow> mw_request \<Rightarrow> mw_world \<Rightarrow> (string \<times> json) list \<Rightarrow> bool \<Rightarrow> license_verification option \<Rightarrow> decide_input" where
  "mw_input E req W p claims verification =
     \<lparr>di_requester = \<lparr>rqr_raw = mq_raw req, rqr_publisher = (me_read E p)\<lparr>pb_observe := observing_site p\<rparr>, rqr_bot_auth = wd_bot W,
        rqr_via_ingress = False,
        rqr_identity = (if claims then Some \<lparr>ctx_ranges = wd_ranges W,
            ctx_client_ip = sdk_client_ip (mq_raw req) (me_client_ip E) (me_platform E) (mq_socket req), ctx_now = int (wd_now W),
            id_armed = (\<lambda>i. i \<in> set (case Option.bind (wd_config W) cd_armed of None \<Rightarrow> [] | Some xs \<Rightarrow> xs))\<rparr> else None)\<rparr>,
      di_path = rw_target (mq_raw req), di_now = wd_now W, di_quote = wd_quote W, di_verification = verification,
      di_clock1 = int (wd_now W), di_clock2 = int (wd_now W)\<rparr>"

definition answer_tolled :: "'k mw_env \<Rightarrow> mw_request \<Rightarrow> mw_world \<Rightarrow> (string \<times> json) list \<Rightarrow> licence_verifier \<Rightarrow> decide_error + decision \<Rightarrow> mw_outcome" where
  "answer_tolled E req W p verifier d = (case d of
     Inl _ \<Rightarrow> \<lparr>mo_result = None, mo_reports = [], mo_calls = []\<rparr>
   | Inr d \<Rightarrow> (case (if verifier = KeysOutage \<and> \<not> observing_site p then outage_read d else None) of
       Some (kind, obs) \<Rightarrow> served_on_gate_failure E req kind obs ''licence keys'' True []
     | None \<Rightarrow> answer_decision E req W (observing_site p) (text_field p ''licenceServer'') d))"

definition names_a_crawler :: "raw_request \<Rightarrow> bool" where
  "names_a_crawler raw \<longleftrightarrow> claims_in (case header raw ''user-agent'' of None \<Rightarrow> [] | Some u \<Rightarrow> u) (claim_table None) \<noteq> []"

definition naulon_middleware :: "'k mw_env \<Rightarrow> mw_state \<Rightarrow> mw_request \<Rightarrow> mw_world \<Rightarrow> mw_outcome \<times> mw_state" where
  "naulon_middleware E st req W = (case served_document E req W of
     Some r \<Rightarrow> (\<lparr>mo_result = sent r, mo_reports = [], mo_calls = []\<rparr>, st)
   | None \<Rightarrow>
       (let now = int (wd_now W); claims = names_a_crawler (mq_raw req);
            licensed = (case header (mq_raw req) ''x-naulon-license'' of Some (c # cs) \<Rightarrow> True | _ \<Rightarrow> False);
            k1 = (if claims \<or> licensed then preflight (me_keys_ttl E) now (wd_keys W) (ms_keys st) else ms_keys st) in
        case resolve_publisher (me_local E) (map_option cd_enforcement (wd_config W)) of
          None \<Rightarrow> (\<lparr>mo_result = passed [], mo_reports = [], mo_calls = []\<rparr>, st\<lparr>ms_keys := k1\<rparr>)
        | Some p \<Rightarrow>
            (let (verifier, k2) = (if licensed then resolve_verifier (me_keys_ttl E) now (wd_keys W) (text_field p ''licenseIdentity'') k1 else (NoKeysFor, k1));
                 verification = (case verifier of VerifyWith v \<Rightarrow> Some v | _ \<Rightarrow> None);
                 (d, ds) = decide (me_decide E) (ms_decide st) (mw_input E req W p claims verification) in
             (answer_tolled E req W p verifier d, \<lparr>ms_keys = k2, ms_decide = ds\<rparr>))))"

section \<open>Lemmas\<close>

lemma payment_required_calls [simp]: "mo_calls (payment_required E req observing a obs v calls) = calls"
  by (simp add: payment_required_def Let_def split: option.split)

lemma served_on_gate_failure_calls [simp]: "mo_calls (served_on_gate_failure E req kind obs step rep calls) = calls"
  by (simp add: served_on_gate_failure_def)

text \<open>What a request can be sent: nothing, a document, a refusal, an offer or a request to retry; and whether what
  passes carries a receipt.\<close>

definition receipt_headers :: "string list" where
  "receipt_headers = [''payment-response'', ''x-naulon-license'', ''crawler-charged'']"

definition receipted :: "mw_outcome \<Rightarrow> bool" where
  "receipted out = (case mo_result out of None \<Rightarrow> False | Some r \<Rightarrow> list_ex (\<lambda>h. fst h \<in> set receipt_headers) (mr_headers r))"

definition sent_status :: "mw_outcome \<Rightarrow> nat option" where
  "sent_status out = Option.bind (mo_result out) (\<lambda>r. map_option rs_status (mr_response r))"

lemma payment_required_shape:
  "\<not> receipted (payment_required E req observing a obs v calls)"
  "observing \<Longrightarrow> sent_status (payment_required E req observing a obs v calls) = None"
  "sent_status (payment_required E req observing a obs v calls) \<in> {None, Some 402}"
  "length (mo_reports (payment_required E req observing a obs v calls)) \<le> 1"
  by (auto simp: payment_required_def Let_def receipted_def sent_status_def passed_def sent_def offer_402_def mw_reports_def
      verdict_header_def receipt_headers_def split: option.split bind_split)

lemma served_on_gate_failure_shape:
  "\<not> receipted (served_on_gate_failure E req kind obs step rep calls)"
  "sent_status (served_on_gate_failure E req kind obs step rep calls) = None"
  "mo_result (served_on_gate_failure E req kind obs step rep calls) \<noteq> None"
  "length (mo_reports (served_on_gate_failure E req kind obs step rep calls)) \<le> 1"
  by (auto simp: served_on_gate_failure_def receipted_def receipt_headers_def sent_status_def passed_def mw_reports_def verdict_header_def)

lemma simple_shapes:
  "\<not> receipted \<lparr>mo_result = passed [], mo_reports = rs, mo_calls = cs\<rparr>"
  "\<not> receipted \<lparr>mo_result = passed [(''cache-control'', v)], mo_reports = rs, mo_calls = cs\<rparr>"
  "\<not> receipted \<lparr>mo_result = sent r, mo_reports = rs, mo_calls = cs\<rparr>"
  "\<not> receipted \<lparr>mo_result = retry_later t, mo_reports = rs, mo_calls = cs\<rparr>"
  "\<not> receipted \<lparr>mo_result = refused_403 t, mo_reports = rs, mo_calls = cs\<rparr>"
  "\<not> receipted \<lparr>mo_result = offer_402 a f hs, mo_reports = rs, mo_calls = cs\<rparr>"
  "\<not> receipted \<lparr>mo_result = None, mo_reports = rs, mo_calls = cs\<rparr>"
  by (auto simp: receipted_def passed_def sent_def retry_later_def refused_403_def offer_402_def receipt_headers_def split: bind_split option.split)

lemma simple_status:
  "sent_status \<lparr>mo_result = passed hs, mo_reports = rs, mo_calls = cs\<rparr> = None"
  "sent_status \<lparr>mo_result = None, mo_reports = rs, mo_calls = cs\<rparr> = None"
  "sent_status \<lparr>mo_result = refused_403 t, mo_reports = rs, mo_calls = cs\<rparr> = Some 403"
  "sent_status \<lparr>mo_result = retry_later t, mo_reports = rs, mo_calls = cs\<rparr> = Some 503"
  by (simp_all add: sent_status_def passed_def refused_403_def retry_later_def sent_def)

lemma mw_reports_length [simp]: "length (mw_reports E req obs v x) \<le> 1" "length (mw_reports E req obs v x) \<le> Suc 0"
  by (simp_all add: mw_reports_def)

lemmas mw_shapes = payment_required_shape served_on_gate_failure_shape simple_shapes simple_status
  payment_required_shape(4)[unfolded One_nat_def] served_on_gate_failure_shape(4)[unfolded One_nat_def]

lemma observing_answer:
  "mo_calls (answer_decision E req W True server d) = [] \<and> \<not> receipted (answer_decision E req W True server d) \<and>
    sent_status (answer_decision E req W True server d) \<in> {None, Some 403}"
  by (cases d) (auto simp: answer_decision_def answer_licence_def answer_payment_def mw_shapes split: option.split list.split)

text \<open>The call a licence check makes.\<close>

definition guarded_call :: "'k mw_env \<Rightarrow> gate_call \<Rightarrow> bool" where
  "guarded_call E c = (case c of
     VerifyCall url key payment legs \<Rightarrow> url = me_verify_url E \<and> key = me_api_key E
   | CheckCall url key token sig \<Rightarrow> key = me_api_key E \<and>
       (\<exists>server. url = me_join E server \<and> licence_server_url_ok (me_urls E) server \<and> same_origin (me_urls E) server (me_verify_url E)))"

text \<open>The answer of the gate that settled the read.\<close>

definition settled_answer :: "mw_world \<Rightarrow> gate_call \<Rightarrow> bool" where
  "settled_answer W c = (case c of
     VerifyCall _ _ _ _ \<Rightarrow> (case wd_verify W of VerifyAnswered s b \<Rightarrow> gate_answer s (object_or_empty b) = Some VerdictPaid | _ \<Rightarrow> False)
   | CheckCall _ _ _ _ \<Rightarrow> (case read_introspection (wd_check W) of Introspected l \<Rightarrow> la_permitted l | _ \<Rightarrow> False))"

lemma answer_payment_calls:
  "mo_calls (answer_payment E req W observing payment a obs) =
    (if observing then [] else [VerifyCall (me_verify_url E) (me_api_key E) payment (ask_legs a)])"
  by (auto simp: answer_payment_def Let_def split: option.split hosted_reply.split gate_verdict.split)

lemma answer_payment_receipt:
  "receipted (answer_payment E req W observing payment a obs) \<Longrightarrow>
    \<not> observing \<and> (\<exists>s b. wd_verify W = VerifyAnswered s b \<and> gate_answer s (object_or_empty b) = Some VerdictPaid)"
  by (auto simp: answer_payment_def Let_def mw_shapes split: option.splits hosted_reply.splits gate_verdict.splits if_splits)

lemma answer_payment_reports:
  "length (mo_reports (answer_payment E req W observing payment a obs)) \<le> 1"
  by (auto simp: answer_payment_def Let_def mw_shapes split: option.split hosted_reply.split gate_verdict.split)

lemma answer_licence_guarded:
  "length (mo_calls (answer_licence E req W observing server token a obs)) \<le> 1 \<and>
    list_all (guarded_call E) (mo_calls (answer_licence E req W observing server token a obs)) \<and>
    length (mo_reports (answer_licence E req W observing server token a obs)) \<le> 1"
proof (cases server)
  case (Some s)
  then show ?thesis
    by (cases s) (auto simp: answer_licence_def introspect_endpoint_def guarded_call_def Let_def mw_shapes
        split: introspection.split)
qed (simp add: answer_licence_def mw_shapes)

lemma answer_licence_receipt:
  assumes "receipted (answer_licence E req W observing server token a obs)"
  shows "\<exists>c. mo_calls (answer_licence E req W observing server token a obs) = [c] \<and> settled_answer W c"
proof (cases server)
  case None
  then show ?thesis using assms by (simp add: answer_licence_def mw_shapes)
next
  case (Some s)
  then show ?thesis
    using assms by (cases s) (auto simp: answer_licence_def introspect_endpoint_def settled_answer_def Let_def mw_shapes
        split: introspection.splits if_splits)
qed

lemma answer_decision_guarded:
  "length (mo_calls (answer_decision E req W observing server d)) \<le> 1 \<and>
    list_all (guarded_call E) (mo_calls (answer_decision E req W observing server d)) \<and>
    length (mo_reports (answer_decision E req W observing server d)) \<le> 1"
  by (cases d) (auto simp: answer_decision_def answer_licence_guarded[unfolded One_nat_def] answer_payment_calls answer_payment_reports[unfolded One_nat_def]
      guarded_call_def mw_shapes split: option.split)

lemma answer_decision_receipt:
  assumes "receipted (answer_decision E req W observing server d)"
  shows "\<exists>c. mo_calls (answer_decision E req W observing server d) = [c] \<and> settled_answer W c"
  using assms
  by (cases d) (auto simp: answer_decision_def mw_shapes answer_payment_calls settled_answer_def dest: answer_licence_receipt answer_payment_receipt)

lemma middleware_cases:
  obtains (Document) r where "served_document E req W = Some r" "fst (naulon_middleware E st req W) = \<lparr>mo_result = sent r, mo_reports = [], mo_calls = []\<rparr>"
  | (Unscoped) "served_document E req W = None" "resolve_publisher (me_local E) (map_option cd_enforcement (wd_config W)) = None"
      "fst (naulon_middleware E st req W) = \<lparr>mo_result = passed [], mo_reports = [], mo_calls = []\<rparr>"
  | (Tolled) p verifier d where "served_document E req W = None"
      "resolve_publisher (me_local E) (map_option cd_enforcement (wd_config W)) = Some p"
      "fst (naulon_middleware E st req W) = answer_tolled E req W p verifier d"
  unfolding naulon_middleware_def Let_def
  by (cases "served_document E req W"; cases "resolve_publisher (me_local E) (map_option cd_enforcement (wd_config W))")
    (auto simp: case_prod_beta)

lemma served_document_status: "served_document E req W = Some r \<Longrightarrow> rs_status r = 200"
  by (auto simp: served_document_def Let_def split: option.splits if_splits)

section \<open>Properties\<close>

text \<open>C13: a site that observes charges nothing. When the policy in force says \<open>observe\<close>, no request makes a call
  that could move money, whatever the reader presents; the reader gets the page, a public document or the
  site's own refusal, never an offer or a request to retry, and no receipt.\<close>

theorem observing_never_charges:
  assumes "resolve_publisher (me_local E) (map_option cd_enforcement (wd_config W)) = Some p" and "observing_site p"
    and "out = fst (naulon_middleware E st req W)"
  shows "mo_calls out = [] \<and> \<not> receipted out \<and> sent_status out \<in> {None, Some 200, Some 403}"
proof (cases rule: middleware_cases[of E req W st])
  case (Document r)
  then show ?thesis
    using assms(3) served_document_status[of E req W r] by (simp add: mw_shapes) (simp add: sent_status_def sent_def)
next
  case Unscoped
  then show ?thesis using assms(1) by simp
next
  case (Tolled p' verifier d)
  then have p: "p' = p" using assms(1) by simp
  show ?thesis
  proof (cases d)
    case (Inl e)
    then show ?thesis using Tolled(3) assms(3) by (simp add: answer_tolled_def mw_shapes)
  next
    case (Inr b)
    have "out = answer_decision E req W True (text_field p ''licenceServer'') b"
      using Tolled(3) assms(2,3) by (simp add: answer_tolled_def Inr p)
    then show ?thesis
      using observing_answer[of E req W "text_field p ''licenceServer''" b] by auto
  qed
qed

lemma middleware_guarded:
  "length (mo_calls (fst (naulon_middleware E st req W))) \<le> 1 \<and>
    list_all (guarded_call E) (mo_calls (fst (naulon_middleware E st req W))) \<and>
    length (mo_reports (fst (naulon_middleware E st req W))) \<le> 1"
proof (cases rule: middleware_cases[of E req W st])
  case (Tolled p verifier d)
  then show ?thesis
    using answer_decision_guarded[of E req W "observing_site p" "text_field p ''licenceServer''", unfolded One_nat_def]
    by (cases d) (auto simp: answer_tolled_def mw_shapes split: option.split)
qed simp_all

text \<open>C18: every call that could move money is guarded. A request makes at most one such call; the site's key goes
  only to the gate that settles, or to a licence server of the same origin over a transport that may carry
  it; and a request is reported at most once.\<close>

theorem money_calls_guarded:
  "length (mo_calls (fst (naulon_middleware E st req W))) \<le> 1 \<and>
    list_all (guarded_call E) (mo_calls (fst (naulon_middleware E st req W))) \<and>
    length (mo_reports (fst (naulon_middleware E st req W))) \<le> 1"
  by (rule middleware_guarded)

text \<open>C17: a receipt needs a settlement. Whenever what passes to the reader carries a receipt, a licence or a
  charged amount, the runtime made exactly one call and the gate answered it with a payment settled or a
  licence that permits the read.\<close>

theorem receipt_needs_settlement:
  assumes "receipted (fst (naulon_middleware E st req W))"
  shows "\<exists>c. mo_calls (fst (naulon_middleware E st req W)) = [c] \<and> guarded_call E c \<and> settled_answer W c"
proof (cases rule: middleware_cases[of E req W st])
  case (Tolled p verifier d)
  obtain b where d: "d = Inr b" and ans: "fst (naulon_middleware E st req W) = answer_decision E req W (observing_site p) (text_field p ''licenceServer'') b"
    using Tolled(3) assms by (cases d) (auto simp: answer_tolled_def mw_shapes split: option.splits)
  obtain c where "mo_calls (fst (naulon_middleware E st req W)) = [c]" "settled_answer W c"
    using answer_decision_receipt[of E req W "observing_site p" "text_field p ''licenceServer''" b] assms unfolding ans by blast
  then show ?thesis
    using middleware_guarded[of E st req W] by simp
qed (use assms in \<open>simp_all add: mw_shapes\<close>)

text \<open>What the gate said to a presented payment, \<open>None\<close> when it gave no verdict.\<close>

definition verify_verdict :: "mw_world \<Rightarrow> gate_verdict option" where
  "verify_verdict W = (case wd_verify W of VerifyAnswered s b \<Rightarrow> gate_answer s (object_or_empty b) | _ \<Rightarrow> None)"

lemma no_verdict_serves:
  assumes "verify_verdict W \<in> {None, Some VerdictUnavailable}"
  shows "\<exists>rep. answer_payment E req W False payment a obs =
    served_on_gate_failure E req (ask_kind a) obs ''settlement'' rep [VerifyCall (me_verify_url E) (me_api_key E) payment (ask_legs a)]"
  using assms by (auto simp: verify_verdict_def answer_payment_def Let_def split: hosted_reply.splits)

lemma no_verdict_status:
  assumes "verify_verdict W \<in> {None, Some VerdictUnavailable}" and "wd_verify W = VerifyAnswered s b" and "400 \<le> s" and "s < 500"
  shows "gate_verdict_of (object_or_empty b) = Some VerdictUnavailable"
  using assms by (auto simp: verify_verdict_def gate_answer_def split: option.splits)

text \<open>C12: a failure of the gate serves the read. On a site that charges, a presented payment the gate gave no
  verdict on (no answer, a timeout, a failed server, or its own word that it could not decide) is answered
  with the page, with no receipt and no offer; a status between 400 and 499 is never such a failure by
  itself. So is a licence nobody could check because the keys never arrived.\<close>

theorem gate_failure_serves:
  assumes "\<not> observing_site p" and "d = PaymentPresented payment a obs \<and> verify_verdict W \<in> {None, Some VerdictUnavailable} \<or>
      d = PaymentRequired a obs \<and> verifier = KeysOutage \<and> ob_licence_refusal obs = Some NoVerifier"
    and "out = answer_tolled E req W p verifier (Inr d)"
  shows "mo_result out \<noteq> None \<and> sent_status out = None \<and> \<not> receipted out \<and>
    list_all (\<lambda>r. rp_verdict r = ReportFree) (mo_reports out) \<and>
    (case wd_verify W of VerifyAnswered s b \<Rightarrow> mo_calls out = [] \<or> s < 400 \<or> 500 \<le> s \<or> gate_verdict_of (object_or_empty b) = Some VerdictUnavailable | _ \<Rightarrow> True)"
proof -
  obtain kind step rep calls where out: "out = served_on_gate_failure E req kind obs step rep calls"
    and calls: "calls = [] \<or> verify_verdict W \<in> {None, Some VerdictUnavailable}"
  proof (cases "d = PaymentPresented payment a obs")
    case True
    then have v: "verify_verdict W \<in> {None, Some VerdictUnavailable}"
      using assms(2) by auto
    obtain rep where "answer_payment E req W False payment a obs =
        served_on_gate_failure E req (ask_kind a) obs ''settlement'' rep [VerifyCall (me_verify_url E) (me_api_key E) payment (ask_legs a)]"
      using no_verdict_serves[OF v] by blast
    then show ?thesis
      using that v assms(1,3) True by (auto simp: answer_tolled_def outage_read_def answer_decision_def split: if_splits)
  next
    case False
    then show ?thesis
      using that assms by (auto simp: answer_tolled_def outage_read_def)
  qed
  have same: "mo_calls out = calls"
    by (simp add: out)
  have "case wd_verify W of VerifyAnswered s b \<Rightarrow> mo_calls out = [] \<or> s < 400 \<or> 500 \<le> s \<or> gate_verdict_of (object_or_empty b) = Some VerdictUnavailable | _ \<Rightarrow> True"
  proof (cases "wd_verify W")
    case (VerifyAnswered s b)
    have "mo_calls out = [] \<or> gate_verdict_of (object_or_empty b) = Some VerdictUnavailable" if "400 \<le> s" "s < 500"
      using no_verdict_status[OF _ VerifyAnswered that] calls same by blast
    then show ?thesis
      using VerifyAnswered by (cases "400 \<le> s \<and> s < 500") auto
  qed simp_all
  moreover have "list_all (\<lambda>r. rp_verdict r = ReportFree) (mo_reports out)"
    by (simp add: out served_on_gate_failure_def mw_reports_def)
  ultimately show ?thesis
    by (simp add: out mw_shapes)
qed

section \<open>Witnesses\<close>

definition sample_site :: "unit mw_env" where
  "sample_site = \<lparr>me_urls = (\<lambda>u. Some \<lparr>up_protocol = ''https:'', up_hostname = ''g'', up_host = ''g''\<rparr>), me_join = (\<lambda>u. u), me_text = (\<lambda>j. []),
     me_verify_url = ''https://g/verify'', me_api_key = ''nln_live_k'', me_local = Some [(''licenseIdentity'', JString ''i'')],
     me_read = (\<lambda>p. sample_publisher), me_serve_license = True, me_serve_manifest = True, me_observe = True, me_client_ip = None,
     me_platform = None, me_keys_ttl = 600, me_decide = sample_env\<rparr>"

definition sample_agent :: "string \<Rightarrow> mw_request" where
  "sample_agent token = \<lparr>mq_raw = \<lparr>rw_headers = [(''user-agent'', ''curl''), (''payment-signature'', token)],
     rw_pathname = ''/blog/post'', rw_target = ''/blog/post'', rw_external_url = ''https://a.b/blog/post''\<rparr>, mq_method = ''GET'', mq_socket = None\<rparr>"

definition sample_world :: "(string \<times> json) list \<Rightarrow> hosted_reply \<Rightarrow> mw_world" where
  "sample_world remote reply = \<lparr>wd_now = 0, wd_config = Some \<lparr>cd_enforcement = remote, cd_armed = None, cd_manifest = None, cd_license = None\<rparr>,
     wd_keys = KeysNoAnswer, wd_ranges = None, wd_bot = BotAbsent, wd_quote = di_quote (sample_input []), wd_verify = reply, wd_check = CheckThrew\<rparr>"

definition sample_mw_state :: mw_state where
  "sample_mw_state = \<lparr>ms_keys = \<lparr>mk_cache = \<lparr>kc_keys = None, kc_at = 0\<rparr>, mk_probed = False\<rparr>, ms_decide = sample_state\<rparr>"

theorem observing_never_charges_witness:
  "mo_calls (fst (naulon_middleware sample_site sample_mw_state (sample_agent ''sig'')
     (sample_world [(''tollMode'', JString ''observe'')] VerifyThrew))) = []"
proof -
  have r: "resolve_publisher (me_local sample_site) (map_option cd_enforcement (wd_config (sample_world [(''tollMode'', JString ''observe'')] VerifyThrew)))
      = Some [(''licenseIdentity'', JString ''i''), (''tollMode'', JString ''observe'')]"
    by (simp add: sample_site_def sample_world_def resolve_publisher_def)
  have "observing_site [(''licenseIdentity'', JString ''i''), (''tollMode'', JString ''observe'')]"
    by (simp add: observing_site_def json_field_def)
  from observing_never_charges[OF r this refl, of sample_mw_state "sample_agent ''sig''"] show ?thesis
    by blast
qed

abbreviation sample_settled :: mw_world where
  "sample_settled \<equiv> sample_world [] (VerifyAnswered 200 (Some (JObject [(''verdict'', JString ''paid''), (''responseHeader'', JString ''r'')])))"

abbreviation sample_paying :: decide_input where
  "sample_paying \<equiv> mw_input sample_site (sample_agent ''sig'') sample_settled [(''licenseIdentity'', JString ''i'')] False None"

lemma sample_paying_machine: "classify_requester (di_requester sample_paying) ''post'' = Machine (observed (di_requester sample_paying) ''post'') None"
  by code_simp

lemma sample_presents: "\<exists>a obs st'. decide sample_env sample_state sample_paying = (Inr (PaymentPresented ''sig'' a obs), st')"
proof -
  obtain q where q: "di_quote sample_paying ''post'' TollRead (Some ''/blog/post'') None = Inr (Some q)" "q_payees q \<noteq> []" "q_extra_legs q = []"
    "q_price q = 1 / 100" "sum_list (map share (q_payees q)) = 1" "\<forall>p \<in> set (q_payees q). 0 \<le> share p"
    using sample_quote[of "[]"] by (auto simp: mw_input_def sample_world_def)
  have f: "total_micro (map pl_amount (q_extra_legs q)) = Some 0" by (simp add: q(3))
  obtain ch where ch: "build_402 (de_build sample_env) q ''https://a.b/blog/post'' 0 (route_template_of (di_requester sample_paying)) = Inr ch"
    using build_402_asks [OF q(2,5,6) _ f, of "de_build sample_env" "''https://a.b/blog/post''" 0 "route_template_of (di_requester sample_paying)"] q(4)
    by auto
  have r: "rqr_raw (di_requester sample_paying) = mq_raw (sample_agent ''sig'')" "di_now sample_paying = 0" "di_path sample_paying = ''/blog/post''"
    "rqr_publisher (di_requester sample_paying) = sample_publisher\<lparr>pb_observe := False\<rparr>"
    by (simp_all add: mw_input_def sample_agent_def sample_world_def sample_site_def observing_site_def json_field_def)
  have hs: "header (mq_raw (sample_agent ''sig'')) ''payment-signature'' = Some ''sig''" "header (mq_raw (sample_agent ''sig'')) ''x-naulon-license'' = None"
    "header (mq_raw (sample_agent ''sig'')) ''x-naulon-kind'' = None" "rw_target (mq_raw (sample_agent ''sig'')) = ''/blog/post''"
    "rw_external_url (mq_raw (sample_agent ''sig'')) = ''https://a.b/blog/post''"
    by (simp_all add: sample_agent_def header_def)
  obtain cache where sl: "slug_for_scope (ds_cache sample_state) ''/blog/post'' (pb_scope (sample_publisher\<lparr>pb_observe := False\<rparr>)) = (Some (Some ''post''), cache)"
    using sample_slug by (cases "slug_for_scope (ds_cache sample_state) ''/blog/post'' (pb_scope sample_publisher)") auto
  have "decide sample_env sample_state sample_paying = (Inr (PaymentPresented ''sig'' \<lparr>ask_legs = ch_legs ch, ask_body = Some (ch_body ch), ask_quote = q,
      ask_kind = TollRead\<rparr> (observed (di_requester sample_paying) ''post'')), sample_state\<lparr>ds_cache := cache, ds_reread := ds_reread sample_state\<rparr>)"
    unfolding decide_def r(3,4) sl
    by (simp add: sample_paying_machine licence_step_def priced_step_def Let_def r hs toll_kind_of_def priced_agent_def q(1,2) ch)
  then show ?thesis by blast
qed

lemma sample_not_crawler: "names_a_crawler (mq_raw (sample_agent ''sig'')) = False"
  by code_simp

lemma sample_paid: "receipted (fst (naulon_middleware sample_site sample_mw_state (sample_agent ''sig'') sample_settled))"
proof -
  obtain a obs st' where d: "decide sample_env sample_state sample_paying = (Inr (PaymentPresented ''sig'' a obs), st')"
    using sample_presents by blast
  have doc: "served_document sample_site (sample_agent ''sig'') sample_settled = None"
    by code_simp
  have licence: "header (mq_raw (sample_agent ''sig'')) ''x-naulon-license'' = None"
    by code_simp
  have p: "resolve_publisher (me_local sample_site) (map_option cd_enforcement (wd_config sample_settled)) = Some [(''licenseIdentity'', JString ''i'')]"
    by (simp add: sample_site_def sample_world_def resolve_publisher_def)
  have o': "observing_site [(''licenseIdentity'', JString ''i'')] = False"
    by (simp add: observing_site_def json_field_def)
  have e: "me_decide sample_site = sample_env" "ms_decide sample_mw_state = sample_state"
    by (simp_all add: sample_site_def sample_mw_state_def)
  have "fst (naulon_middleware sample_site sample_mw_state (sample_agent ''sig'') sample_settled) =
      answer_payment sample_site (sample_agent ''sig'') sample_settled False ''sig'' a obs"
    by (simp add: naulon_middleware_def doc p licence sample_not_crawler e d o' answer_tolled_def answer_decision_def)
  moreover have "gate_answer 200 (JObject [(''verdict'', JString ''paid''), (''responseHeader'', JString ''r'')]) = Some VerdictPaid"
    by code_simp
  moreover have "payload_text (JObject [(''verdict'', JString ''paid''), (''responseHeader'', JString ''r'')]) ''responseHeader'' = Some ''r''"
    by code_simp
  moreover have "reported_micro (json_prop (JObject [(''verdict'', JString ''paid''), (''responseHeader'', JString ''r'')]) ''chargedMicro'') = None"
    by code_simp
  ultimately show ?thesis
    by (simp add: answer_payment_def sample_world_def object_or_empty_def receipted_def passed_def charged_header_def text_header_def receipt_headers_def)
qed

theorem receipt_needs_settlement_witness:
  "\<exists>c. mo_calls (fst (naulon_middleware sample_site sample_mw_state (sample_agent ''sig'')
     (sample_world [] (VerifyAnswered 200 (Some (JObject [(''verdict'', JString ''paid''), (''responseHeader'', JString ''r'')])))))) = [c] \<and>
     guarded_call sample_site c"
  using receipt_needs_settlement[OF sample_paid] by blast

definition sample_ask :: ask where
  "sample_ask = \<lparr>ask_legs = [], ask_body = None, ask_quote = \<lparr>q_slug = ''s'', q_title = ''t'', q_kind = TollRead, q_price = 1, q_payees = [], q_extra_legs = [],
     q_coauthor_split = False, q_memo_id = None, q_network = None, q_priced_for = None, q_payment_mode = None, q_buyer_links = None\<rparr>, ask_kind = TollRead\<rparr>"

theorem gate_failure_serves_witness:
  "sent_status (answer_tolled sample_site (sample_agent ''sig'') (sample_world [] (VerifyAnswered 503 None)) [] NoKeysFor
     (Inr (PaymentPresented ''sig'' sample_ask (bare_obs ''s'' ''r'')))) = None"
proof -
  have v: "verify_verdict (sample_world [] (VerifyAnswered 503 None)) \<in> {None, Some VerdictUnavailable}"
    by code_simp
  have "\<not> observing_site []"
    by (simp add: observing_site_def json_field_def)
  from gate_failure_serves[OF this _ refl, of "PaymentPresented ''sig'' sample_ask (bare_obs ''s'' ''r'')" "''sig''" sample_ask "bare_obs ''s'' ''r''"
      "sample_world [] (VerifyAnswered 503 None)" NoKeysFor sample_site "sample_agent ''sig''"]
  show ?thesis
    using v by blast
qed

end
