(* ===== verification/Origin.thy ===== *)
theory Origin
  imports Middleware
begin

text \<open>
  What the gate asks of a site and does with its answer: \<open>proxyToOrigin\<close>, \<open>forwardHeaders\<close> and \<open>materializeBody\<close> of
  \<open>packages/tollgate/src/app.ts\<close>, \<open>cacheHeaders.ts\<close>, the shaping of a body for an agent (\<open>deliver.ts\<close> with the
  content negotiation of \<open>packages/extract/src/index.ts\<close>). The answer of the site, the article extractor, the URL
  library and the gate's signature are inputs; bytes and text are the same thing here. A thrown error is \<open>None\<close>.
\<close>

section \<open>Bodies\<close>

text \<open>A body arrives in reads; no body at all is \<open>None\<close>. Header names are lower case, as \<open>Headers\<close> keeps them.\<close>

datatype body_read = Chunk string | ReadFails | DeadlinePasses

record origin_reply =
  or_status :: nat
  or_headers :: "(string, string) js_map"
  or_reads :: "body_read list option"

definition max_prefetch_bytes :: nat where "max_prefetch_bytes = 8 * 1024 * 1024"

fun drain_reads :: "nat \<Rightarrow> body_read list \<Rightarrow> string option" where
  "drain_reads seen [] = Some []"
| "drain_reads seen (Chunk c # rs) = (if seen + length c > max_prefetch_bytes then None
     else map_option (\<lambda>rest. c @ rest) (drain_reads (seen + length c) rs))"
| "drain_reads seen (ReadFails # rs) = None"
| "drain_reads seen (DeadlinePasses # rs) = None"

definition null_body_status :: "nat list" where "null_body_status = [204, 205, 304]"

definition connection_headers :: "string list" where
  "connection_headers = [''connection'', ''keep-alive'', ''proxy-authenticate'', ''proxy-authorization'', ''te'', ''trailer'',
     ''transfer-encoding'', ''upgrade'', ''content-length'']"

definition without_headers :: "string list \<Rightarrow> (string, string) js_map \<Rightarrow> (string, string) js_map" where
  "without_headers ks hs = filter (\<lambda>h. fst h \<notin> set ks) hs"

text \<open>\<open>materializeBody\<close>: the response with its bytes in hand. One that cannot carry a body comes back as it was.\<close>

definition materialize_body :: "origin_reply \<Rightarrow> (origin_reply \<times> string) option" where
  "materialize_body r = (case or_reads r of None \<Rightarrow> Some (r, [])
     | Some rs \<Rightarrow> if or_status r \<in> set null_body_status then Some (r, [])
         else map_option (\<lambda>body. (r\<lparr>or_headers := without_headers connection_headers (or_headers r), or_reads := Some [Chunk body]\<rparr>, body))
           (drain_reads 0 rs))"

section \<open>Responses\<close>

text \<open>The explanations a 402 carries as text are left out: its offer stands for them.\<close>

datatype gate_body = Streamed | Bytes string | NoText

record gate_response =
  gr_status :: nat
  gr_offer :: "json option"
  gr_headers :: "(string, string) js_map"
  gr_body :: gate_body

text \<open>\<open>new Response(body, init)\<close> with a body that is not null: the statuses without one are refused.\<close>

definition response_with :: "nat \<Rightarrow> string \<Rightarrow> (string, string) js_map \<Rightarrow> gate_response option" where
  "response_with status body hs = (if status \<in> set null_body_status then None
     else Some \<lparr>gr_status = status, gr_offer = None, gr_headers = hs, gr_body = Bytes body\<rparr>)"

definition from_origin :: "origin_reply \<Rightarrow> gate_response" where
  "from_origin r = \<lparr>gr_status = or_status r, gr_offer = None, gr_headers = or_headers r, gr_body = Streamed\<rparr>"

definition ok_range :: "nat \<Rightarrow> bool" where "ok_range s \<longleftrightarrow> 200 \<le> s \<and> s < 300"

definition put_header :: "string \<Rightarrow> string \<Rightarrow> (string, string) js_map \<Rightarrow> (string, string) js_map" where
  "put_header k v hs = AList.update k v hs"

definition with_verdict :: "string \<Rightarrow> gate_response \<Rightarrow> gate_response" where
  "with_verdict v r = r\<lparr>gr_headers := put_header ''x-naulon-verdict'' (header_safe v) (gr_headers r)\<rparr>"

section \<open>Cache headers\<close>

definition vary_names :: "string \<Rightarrow> (string, string) js_map \<Rightarrow> bool" where
  "vary_names k hs \<longleftrightarrow> (case map_of hs ''vary'' of None \<Rightarrow> False
     | Some v \<Rightarrow> list_ex (\<lambda>x. js_trim x = ''*'' \<or> js_lower (js_trim x) = k) (js_split CHR '','' v))"

definition vary_on :: "string \<Rightarrow> string \<Rightarrow> (string, string) js_map \<Rightarrow> (string, string) js_map" where
  "vary_on k spelled hs = (if vary_names k hs then hs
     else put_header ''vary'' (case map_of hs ''vary'' of Some (c # cs) \<Rightarrow> (c # cs) @ '', '' @ spelled | _ \<Rightarrow> spelled) hs)"

definition vary_on_accept :: "(string, string) js_map \<Rightarrow> (string, string) js_map" where
  "vary_on_accept hs = vary_on ''accept'' ''Accept'' hs"

definition stamp_cache :: "bool \<Rightarrow> (string, string) js_map \<Rightarrow> (string, string) js_map" where
  "stamp_cache no_store hs = (let v = vary_on ''user-agent'' ''User-Agent'' hs in
     if no_store then put_header ''cache-control'' ''no-store'' v else v)"

definition stamped :: "bool \<Rightarrow> gate_response \<Rightarrow> gate_response" where
  "stamped no_store r = r\<lparr>gr_headers := stamp_cache no_store (gr_headers r)\<rparr>"

section \<open>The request to the site\<close>

definition strip_headers :: "string list" where
  "strip_headers = [''connection'', ''keep-alive'', ''proxy-authenticate'', ''proxy-authorization'', ''te'', ''trailer'',
     ''transfer-encoding'', ''upgrade'', ''payment-signature'', ''payment-required'', ''payment-response'', ''x-naulon-agent'',
     ''x-naulon-kind'', ''x-naulon-verdict'', ''x-naulon-license'', ''x-naulon-proof'', ''x-naulon-origin-auth'',
     ''x-naulon-publisher'', ''x-naulon-edge-auth'', ''forwarded'', ''x-forwarded-for'', ''x-forwarded-proto'', ''x-forwarded-host'',
     ''x-real-ip'']"

definition kept_upstream :: "string \<times> string \<Rightarrow> bool" where
  "kept_upstream h \<longleftrightarrow> fst h \<notin> set strip_headers \<and>
     \<not> (fst h = ''authorization'' \<and> parse_licence_authorization (Some (snd h)) \<noteq> None)"

text \<open>The site as the gate knows it, with what the gate found out about the request. \<open>gs_resolve\<close> is
  \<open>new URL(path, origin)\<close> and \<open>gs_signed\<close> the input, signature and agent of the gate's own signature.\<close>

record gate_site =
  gs_urls :: url_reader
  gs_resolve :: "string \<Rightarrow> string \<Rightarrow> string option"
  gs_origin :: string
  gs_secret :: "string option"
  gs_id :: string
  gs_signed :: "(string \<times> string \<times> string) option"
  gs_proto :: string
  gs_caller_ip :: string

definition forward_headers :: "gate_site \<Rightarrow> string \<Rightarrow> raw_request \<Rightarrow> (string, string) js_map" where
  "forward_headers S host raw = (let out = filter kept_upstream (rw_headers raw) in
     put_header ''host'' host (put_header ''x-forwarded-host'' (case header raw ''host'' of Some h \<Rightarrow> h | None \<Rightarrow> host)
       (put_header ''x-forwarded-proto'' (gs_proto S) (put_header ''x-forwarded-for'' (gs_caller_ip S) out))))"

definition pull_headers :: "gate_site \<Rightarrow> link_parts \<Rightarrow> raw_request \<Rightarrow> (string, string) js_map" where
  "pull_headers S u raw = (let out = forward_headers S (up_host u) raw;
       https = (up_protocol u = ''https:'');
       kept = (case gs_secret S of Some (c # cs) \<Rightarrow> if https then put_header ''x-naulon-origin-auth'' (c # cs) out else out | _ \<Rightarrow> out) in
     case gs_signed S of
       Some (i, g, a) \<Rightarrow> if https then put_header ''signature-agent'' a (put_header ''signature'' g (put_header ''signature-input'' i
         (put_header ''x-naulon-publisher'' (gs_id S) kept))) else kept
     | None \<Rightarrow> kept)"

text \<open>What a request does that others can see: a fetch of a URL with its headers, a body read in full, a payment
  settled, a row written (and whether it only observes), a charge reported.\<close>

datatype observed_verdict = ServedFree | AgentReread | DeniedRead | BlockedRead | PaymentFailedRead | Unservable | PaidRead

datatype charge_outcome = OutcomeSettled "string option" | OutcomeUnpaid | OutcomeAmbiguous

datatype gate_event = Fetched string "(string, string) js_map" | BodyRead | SettleTried string
  | Wrote observed_verdict bool | Reported string charge_outcome

definition proxied :: "origin_reply \<Rightarrow> origin_reply" where
  "proxied r = r\<lparr>or_headers := without_headers [''content-encoding'', ''content-length''] (or_headers r)\<rparr>"

text \<open>\<open>proxyToOrigin\<close>: a target off the site's own origin is refused and nothing is fetched.\<close>

definition proxy_to_origin :: "gate_site \<Rightarrow> raw_request \<Rightarrow> origin_reply option \<Rightarrow> origin_reply option \<times> gate_event list" where
  "proxy_to_origin S raw reply = (case (gs_urls S (gs_origin S), gs_resolve S (rw_target raw) (gs_origin S)) of
       (Some u, Some target) \<Rightarrow>
         if \<not> same_origin (gs_urls S) target (gs_origin S)
         then (Some \<lparr>or_status = 400, or_headers = [], or_reads = Some [Chunk ''Bad request.'']\<rparr>, [])
         else (map_option proxied reply, [Fetched target (pull_headers S u raw)])
     | _ \<Rightarrow> (None, []))"

section \<open>Shaping a body for an agent\<close>

definition media_type :: "string option \<Rightarrow> string" where
  "media_type ct = js_lower (js_trim (hd (js_split CHR '';'' (case ct of None \<Rightarrow> [] | Some s \<Rightarrow> s))))"

definition is_html :: "string option \<Rightarrow> bool" where
  "is_html ct \<longleftrightarrow> media_type ct \<in> {''text/html'', ''application/xhtml+xml''}"

definition is_markdown :: "string option \<Rightarrow> bool" where
  "is_markdown ct \<longleftrightarrow> media_type ct = ''text/markdown''"

definition quality_of :: "string list \<Rightarrow> rat" where
  "quality_of params = (case find (\<lambda>p. prefix ''q='' (js_lower p)) (map js_trim params) of
     None \<Rightarrow> 1
   | Some p \<Rightarrow> (case js_number (drop 2 p) of None \<Rightarrow> 0 | Some q \<Rightarrow> q))"

definition rank_part :: "rat \<times> rat \<Rightarrow> string \<Rightarrow> rat \<times> rat" where
  "rank_part acc part = (case js_split CHR '';'' (js_trim part) of
     [] \<Rightarrow> acc
   | ty # params \<Rightarrow> (let q = quality_of params; t = js_lower (js_trim ty) in
       if t = ''text/markdown'' then (max (fst acc) q, snd acc)
       else if t \<in> {''text/html'', ''application/xhtml+xml''} then (fst acc, max (snd acc) q) else acc))"

definition prefers_markdown :: "string option \<Rightarrow> bool" where
  "prefers_markdown accept = (case accept of None \<Rightarrow> False
     | Some a \<Rightarrow> a \<noteq> [] \<and> (case foldl rank_part (0, 0) (js_split CHR '','' a) of (markdown, html) \<Rightarrow> 0 < markdown \<and> html < markdown))"

fun split_spaces :: "string \<Rightarrow> string list" where
  "split_spaces [] = [[]]"
| "split_spaces (c # cs) = (if js_is_space c then [] # split_spaces cs else (c # hd (split_spaces cs)) # tl (split_spaces cs))"

definition describe_markdown :: "string \<Rightarrow> (string \<times> json) list" where
  "describe_markdown t = [(''words'', JNumber (of_nat (length (filter (\<lambda>w. w \<noteq> []) (split_spaces t))))),
     (''approxTokens'', JNumber (of_nat ((length t + 3) div 4)))]"

text \<open>\<open>dv_extract\<close> is the article extractor on a page and its URL, \<open>dv_encode\<close> JSON text in base64url.\<close>

record deliverer =
  dv_extract :: "string \<Rightarrow> string \<Rightarrow> (string \<times> (string \<times> json) list) option"
  dv_encode :: "json \<Rightarrow> string"

definition with_body :: "origin_reply \<Rightarrow> string \<Rightarrow> string option \<Rightarrow> gate_response option" where
  "with_body r body content_type = (let hs = without_headers [''content-length''] (or_headers r);
       hs' = (case content_type of None \<Rightarrow> hs
         | Some t \<Rightarrow> without_headers [''etag'', ''last-modified'', ''content-md5''] (put_header ''content-type'' t hs)) in
     response_with (or_status r) body (vary_on_accept hs'))"

definition set_header :: "string \<Rightarrow> string \<Rightarrow> gate_response \<Rightarrow> gate_response" where
  "set_header k v r = r\<lparr>gr_headers := put_header k v (gr_headers r)\<rparr>"

definition deliver_for_agent :: "deliverer \<Rightarrow> origin_reply \<times> string \<Rightarrow> string option \<Rightarrow> string \<Rightarrow> (gate_response \<times> string) option" where
  "deliver_for_agent D m accept url = (case m of (r, source) \<Rightarrow>
     (let ct = map_of (or_headers r) ''content-type'';
          as_served = (\<lambda>f. map_option (\<lambda>g. (f g, source)) (with_body r source None)) in
      if \<not> prefers_markdown accept then as_served id
      else if is_markdown ct then as_served (\<lambda>g. set_header ''x-naulon-article'' (dv_encode D (JObject (describe_markdown source)))
        (set_header ''x-naulon-extraction'' ''passthrough'' g))
      else if \<not> is_html ct then as_served (set_header ''x-naulon-extraction'' ''raw'')
      else (case dv_extract D source url of
          None \<Rightarrow> as_served (set_header ''x-naulon-extraction'' ''raw'')
        | Some (markdown, meta) \<Rightarrow> map_option (\<lambda>g. (set_header ''x-naulon-article'' (dv_encode D (JObject meta))
              (set_header ''x-naulon-extraction'' ''gate'' g), markdown))
            (with_body r markdown (Some ''text/markdown; charset=utf-8'')))))"

section \<open>Lemmas\<close>

lemma map_of_put_header [simp]: "map_of (put_header k v hs) k' = (if k' = k then Some v else map_of hs k')"
  by (simp add: put_header_def map_of_update)

lemma response_with_iff: "response_with s b hs = Some g \<longleftrightarrow> s \<notin> set null_body_status \<and> g = \<lparr>gr_status = s, gr_offer = None, gr_headers = hs, gr_body = Bytes b\<rparr>"
  by (auto simp: response_with_def)

lemma materialize_facts:
  "materialize_body r = Some (r', body) \<Longrightarrow> or_status r' = or_status r"
  by (auto simp: materialize_body_def split: option.splits if_splits)

text \<open>What the size cap means: the bytes in hand are all the reads in order, at most the cap of them.\<close>

lemma drain_reads_Some:
  "drain_reads seen rs = Some body \<Longrightarrow> seen \<le> max_prefetch_bytes \<Longrightarrow>
     rs = map Chunk (map (\<lambda>r. case r of Chunk c \<Rightarrow> c | _ \<Rightarrow> []) rs) \<and>
     body = concat (map (\<lambda>r. case r of Chunk c \<Rightarrow> c | _ \<Rightarrow> []) rs) \<and> seen + length body \<le> max_prefetch_bytes"
proof (induction seen rs arbitrary: body rule: drain_reads.induct)
  case (2 seen c rs)
  from "2.prems" obtain rest where r: "\<not> seen + length c > max_prefetch_bytes" "drain_reads (seen + length c) rs = Some rest" "body = c @ rest"
    by (auto split: if_splits)
  have "seen + length c \<le> max_prefetch_bytes" using r(1) by simp
  from "2.IH" [OF r(1) r(2) this] r(3) show ?case by auto
qed auto

lemma deliver_status:
  "deliver_for_agent D (r, source) accept url = Some (g, bytes) \<Longrightarrow> gr_status g = or_status r \<and> gr_body g = Bytes bytes \<and> gr_offer g = None \<and>
     or_status r \<notin> set null_body_status"
  by (auto simp: deliver_for_agent_def with_body_def Let_def response_with_iff set_header_def split: if_splits option.splits)

lemma deliver_null_body:
  "or_status r \<in> set null_body_status \<Longrightarrow> deliver_for_agent D (r, source) accept url = None"
  by (cases "deliver_for_agent D (r, source) accept url") (auto dest: deliver_status)

text \<open>A stamped answer names the user agent among what it varies on.\<close>

lemma js_split_last_part: "x \<in> set (js_split c t) \<Longrightarrow> x \<in> set (tl (js_split c (v @ c # t)))"
proof (induction v)
  case (Cons a v)
  then show ?case by (auto split: list.splits)
qed simp

lemma stamp_names_user_agent: "vary_names ''user-agent'' (stamp_cache b hs)"
proof -
  have u: "js_lower (js_trim '' User-Agent'') = ''user-agent''" "js_lower (js_trim ''User-Agent'') = ''user-agent''" by code_simp+
  have v: "vary_names ''user-agent'' (vary_on ''user-agent'' ''User-Agent'' hs)"
  proof (cases "vary_names ''user-agent'' hs")
    case False
    show ?thesis
    proof (cases "\<exists>c cs. map_of hs ''vary'' = Some (c # cs)")
      case True
      then obtain c cs where c: "map_of hs ''vary'' = Some (c # cs)" by blast
      have "'' User-Agent'' \<in> set (js_split CHR '','' '' User-Agent'')" by (simp add: js_split_notin)
      then have "'' User-Agent'' \<in> set (js_split CHR '','' ((c # cs) @ CHR '','' # '' User-Agent''))"
        by (rule list.set_sel(2) [OF js_split_nonempty js_split_last_part])
      then show ?thesis using False c u(1) by (auto simp: vary_on_def vary_names_def list_ex_iff)
    next
      case None: False
      then have "vary_on ''user-agent'' ''User-Agent'' hs = put_header ''vary'' ''User-Agent'' hs"
        using False by (auto simp: vary_on_def split: option.splits list.splits)
      then show ?thesis using u(2) by (simp add: vary_names_def js_split_notin)
    qed
  qed (simp add: vary_on_def)
  moreover have "map_of (stamp_cache b hs) ''vary'' = map_of (vary_on ''user-agent'' ''User-Agent'' hs) ''vary''"
    by (simp add: stamp_cache_def Let_def)
  ultimately show ?thesis by (simp add: vary_names_def)
qed

lemma stamp_no_store: "map_of (stamp_cache True hs) ''cache-control'' = Some ''no-store''"
  by (simp add: stamp_cache_def Let_def)

text \<open>What never reaches a site.\<close>

definition buyer_secrets :: "string list" where
  "buyer_secrets = [''payment-signature'', ''x-naulon-license'', ''x-naulon-proof'', ''x-naulon-edge-auth'']"

definition keeps_buyer_secrets :: "(string, string) js_map \<Rightarrow> bool" where
  "keeps_buyer_secrets hs \<longleftrightarrow> (list_all (\<lambda>h. fst h \<notin> set buyer_secrets \<and>
     (fst h = ''authorization'' \<longrightarrow> parse_licence_authorization (Some (snd h)) = None)) hs)"

lemma keeps_put_header:
  "keeps_buyer_secrets hs \<Longrightarrow> k \<notin> set buyer_secrets \<Longrightarrow> k \<noteq> ''authorization'' \<Longrightarrow> keeps_buyer_secrets (put_header k v hs)"
  by (induction hs) (auto simp: keeps_buyer_secrets_def put_header_def)

lemma pull_keeps_secrets: "keeps_buyer_secrets (pull_headers S u raw)"
proof -
  have f: "keeps_buyer_secrets (filter kept_upstream hs)" for hs
    by (auto simp: keeps_buyer_secrets_def kept_upstream_def list_all_iff buyer_secrets_def strip_headers_def)
  have o': "keeps_buyer_secrets (forward_headers S h raw)" for h
    unfolding forward_headers_def Let_def by (intro keeps_put_header f) (simp_all add: buyer_secrets_def)
  show ?thesis unfolding pull_headers_def Let_def
    by (auto split: option.split list.split intro!: keeps_put_header o' simp: buyer_secrets_def)
qed

text \<open>The secret of a site and the gate's signature leave it over https only, and never because a caller sent them.\<close>

definition gate_credentials :: "string list" where
  "gate_credentials = [''x-naulon-origin-auth'', ''x-naulon-publisher'']"

lemma forward_no_credentials: "k \<in> set gate_credentials \<Longrightarrow> map_of (forward_headers S h raw) k = None"
proof -
  assume k: "k \<in> set gate_credentials"
  have "map_of (filter kept_upstream hs) k = None" for hs
    using k by (auto simp: map_of_eq_None_iff kept_upstream_def gate_credentials_def strip_headers_def)
  then show ?thesis using k unfolding forward_headers_def Let_def by (auto simp: gate_credentials_def)
qed

lemma pull_credentials:
  "map_of (pull_headers S u raw) ''x-naulon-origin-auth'' =
     (if up_protocol u = ''https:'' \<and> gs_secret S \<noteq> Some [] then gs_secret S else None)"
  "map_of (pull_headers S u raw) ''x-naulon-publisher'' =
     (if up_protocol u = ''https:'' \<and> gs_signed S \<noteq> None then Some (gs_id S) else None)"
proof -
  have n: "map_of (forward_headers S (up_host u) raw) ''x-naulon-origin-auth'' = None"
    "map_of (forward_headers S (up_host u) raw) ''x-naulon-publisher'' = None"
    by (simp_all add: forward_no_credentials gate_credentials_def)
  show "map_of (pull_headers S u raw) ''x-naulon-origin-auth'' =
     (if up_protocol u = ''https:'' \<and> gs_secret S \<noteq> Some [] then gs_secret S else None)"
    using n by (auto simp: pull_headers_def Let_def split: option.split list.split)
  show "map_of (pull_headers S u raw) ''x-naulon-publisher'' =
     (if up_protocol u = ''https:'' \<and> gs_signed S \<noteq> None then Some (gs_id S) else None)"
    using n by (auto simp: pull_headers_def Let_def split: option.split list.split)
qed

lemma proxy_events:
  "proxy_to_origin S raw reply = (r, ev) \<Longrightarrow>
     ev = [] \<and> (r = None \<or> (\<exists>b. r = Some b \<and> or_status b = 400)) \<or>
     (\<exists>u target. gs_urls S (gs_origin S) = Some u \<and> gs_resolve S (rw_target raw) (gs_origin S) = Some target \<and>
        same_origin (gs_urls S) target (gs_origin S) \<and> ev = [Fetched target (pull_headers S u raw)] \<and> r = map_option proxied reply)"
  by (auto simp: proxy_to_origin_def split: option.splits if_splits)

end
