(* ===== verification/ContentExits.thy ===== *)
theory ContentExits
  imports Origin
begin

text \<open>
  Routes that hand out article text beside the article pages: the exits of \<open>packages/enforce/src/content-exits.ts\<close>
  (the WordPress REST interface and the feeds, what each strips) and the gate's use of them,
  \<open>packages/tollgate/src/contentExit.ts\<close>. \<open>JSON.parse\<close> and \<open>JSON.stringify\<close> are parameters; a regular expression
  is written out as the search it performs.
\<close>

section \<open>Recognising an exit\<close>

text \<open>A URL as the URL library takes it apart: the decoded parameters keep their order and repetitions.\<close>

record exit_url =
  xu_pathname :: string
  xu_params :: "(string \<times> string) list"

fun single_slashes :: "string \<Rightarrow> string" where
  "single_slashes (a # b # s) = (if a = CHR ''/'' \<and> b = CHR ''/'' then single_slashes (b # s) else a # single_slashes (b # s))"
| "single_slashes s = s"

definition rest_prefixes :: "string list" where
  "rest_prefixes = [''/wp-json'', ''/index.php/wp-json'']"

definition route_of :: "exit_url \<Rightarrow> string option" where
  "route_of u = (let path = js_lower (single_slashes (xu_pathname u)) in
     case find (\<lambda>p. prefix (p @ ''/wp/v2/'') path) rest_prefixes of
       Some p \<Rightarrow> Some (drop (length p) path)
     | None \<Rightarrow> (let rest = js_lower (single_slashes (case map_of (xu_params u) ''rest_route'' of None \<Rightarrow> [] | Some v \<Rightarrow> v)) in
         if prefix ''/wp/v2/'' rest then Some rest else None))"

definition comments_route :: "string \<Rightarrow> bool" where
  "comments_route r \<longleftrightarrow> prefix ''/wp/v2/comments'' r \<and> (case drop (length ''/wp/v2/comments'') r of [] \<Rightarrow> True | c # _ \<Rightarrow> c = CHR ''/'')"

definition legacy_feed_file :: "string \<Rightarrow> bool" where
  "legacy_feed_file s \<longleftrightarrow> js_lower s \<in> {''wp-rss.php'', ''wp-rss2.php'', ''wp-atom.php'', ''wp-rdf.php''}"

definition feed_matches :: "exit_url \<Rightarrow> bool" where
  "feed_matches u \<longleftrightarrow> map_of (xu_params u) ''feed'' \<noteq> None \<or>
     (let segments = filter (\<lambda>s. s \<noteq> []) (js_split CHR ''/'' (xu_pathname u)) in
      list_ex (\<lambda>s. js_lower s = ''feed'') segments \<or> legacy_feed_file (if segments = [] then [] else last segments))"

section \<open>Stripping a REST payload\<close>

text \<open>\<open>stripBodies\<close>: the rendered content of every object becomes its excerpt.\<close>

definition rendered_of :: "json \<Rightarrow> string option" where
  "rendered_of j = (case json_prop j ''rendered'' of JString s \<Rightarrow> Some s | _ \<Rightarrow> None)"

definition teaser_of :: "(string \<times> json) list \<Rightarrow> string" where
  "teaser_of fs = (case rendered_of (json_field fs ''excerpt'') of None \<Rightarrow> [] | Some s \<Rightarrow> s)"

definition protect :: "string \<Rightarrow> json \<Rightarrow> json" where
  "protect teaser j = (case j of
     JObject fs \<Rightarrow> JObject (AList.update ''protected'' (JBool True) (AList.update ''rendered'' (JString teaser) fs))
   | _ \<Rightarrow> j)"

fun strip_bodies :: "json \<Rightarrow> json" where
  "strip_bodies (JArray js) = JArray (map strip_bodies js)"
| "strip_bodies (JObject fs) = JObject (map (\<lambda>(k, v). (k,
     if k = ''replies'' then v
     else if k = ''content'' \<and> rendered_of v \<noteq> None then protect (teaser_of fs) v
     else strip_bodies v)) fs)"
| "strip_bodies j = j"

text \<open>\<open>JSONP.exec\<close>: the leading comment if any, the name and what the call holds.\<close>

definition identifier_start :: "char \<Rightarrow> bool" where
  "identifier_start c \<longleftrightarrow> c \<in> set ''_$'' \<or> ascii_alnum c \<and> \<not> is_digit c"

definition identifier_part :: "char \<Rightarrow> bool" where
  "identifier_part c \<longleftrightarrow> c \<in> set ''_$.'' \<or> ascii_alnum c"

definition call_argument :: "string \<Rightarrow> string option" where
  "call_argument s = (let r = dropWhile js_is_space (rev s);
       r' = dropWhile js_is_space (case r of c # cs \<Rightarrow> if c = CHR '';'' then cs else r | [] \<Rightarrow> []) in
     case r' of c # cs \<Rightarrow> if c = CHR '')'' then Some (rev cs) else None | [] \<Rightarrow> None)"

definition jsonp_parts :: "string \<Rightarrow> (string \<times> string \<times> string) option" where
  "jsonp_parts body = (let t = dropWhile js_is_space body;
       pre = (if prefix ''/**/'' t then ''/**/'' else []);
       t' = dropWhile js_is_space (drop (length pre) t);
       name = takeWhile identifier_part t' in
     if name \<noteq> [] \<and> identifier_start (hd name) \<and> prefix ''('' (drop (length name) t')
     then map_option (\<lambda>x. (pre, name, x)) (call_argument (drop (length name + 1) t')) else None)"

record json_text =
  jt_parse :: "string \<Rightarrow> json option"
  jt_text :: "json \<Rightarrow> string"

definition jsonp_of :: "string \<Rightarrow> string \<Rightarrow> (string \<times> string \<times> string) option" where
  "jsonp_of content_type body = (if sublist ''javascript'' (js_lower content_type) then jsonp_parts body else None)"

definition in_call :: "(string \<times> string \<times> string) option \<Rightarrow> string \<Rightarrow> string" where
  "in_call jsonp t = (case jsonp of None \<Rightarrow> t | Some (pre, name, x) \<Rightarrow> pre @ name @ ''('' @ t @ '')'')"

definition strip_rest :: "json_text \<Rightarrow> string \<Rightarrow> string \<Rightarrow> exit_url \<Rightarrow> string option" where
  "strip_rest J body content_type u =
     (if comments_route (case route_of u of None \<Rightarrow> [] | Some r \<Rightarrow> r) then Some body
      else (let jsonp = jsonp_of content_type body in
        if jsonp = None \<and> \<not> sublist ''json'' (js_lower content_type) then None
        else map_option (\<lambda>j. in_call jsonp (jt_text J (strip_bodies j)))
          (jt_parse J (case jsonp of None \<Rightarrow> body | Some (pre, name, x) \<Rightarrow> x))))"

section \<open>Stripping a feed\<close>

text \<open>\<open>s.replace(re, "")\<close> with a global pattern: \<open>m\<close> gives what follows a match that starts here.\<close>

function remove_all :: "(string \<Rightarrow> string option) \<Rightarrow> string \<Rightarrow> string" where
  "remove_all m [] = []"
| "remove_all m (c # cs) = (case m (c # cs) of
     Some rest \<Rightarrow> if length rest \<le> length cs then remove_all m rest else c # remove_all m cs
   | None \<Rightarrow> c # remove_all m cs)"
  by pat_completeness auto
termination by (relation "measure (\<lambda>(m, s). length s)") auto

definition js_word_char :: "char \<Rightarrow> bool" where
  "js_word_char c \<longleftrightarrow> ascii_alnum c \<or> c = CHR ''_''"

text \<open>An opening tag: its attributes and what follows; \<open>barred\<close> is what may not follow the name.\<close>

definition open_tag :: "string \<Rightarrow> (char \<Rightarrow> bool) \<Rightarrow> string \<Rightarrow> (string \<times> string) option" where
  "open_tag name barred s = (let t = drop (length name) s in
     if prefix name (js_lower s) \<and> t \<noteq> [] \<and> \<not> js_word_char (hd t) \<and> \<not> barred (hd t) then
       (case dropWhile (\<lambda>c. c \<noteq> CHR ''>'') t of [] \<Rightarrow> None | _ # rest \<Rightarrow> Some (takeWhile (\<lambda>c. c \<noteq> CHR ''>'') t, rest))
     else None)"

fun after_first :: "string \<Rightarrow> string \<Rightarrow> string option" where
  "after_first close [] = None"
| "after_first close (c # cs) = (if prefix close (js_lower (c # cs)) then Some (drop (length close) (c # cs)) else after_first close cs)"

definition paired_element :: "string \<Rightarrow> (char \<Rightarrow> bool) \<Rightarrow> string \<Rightarrow> string \<Rightarrow> string option" where
  "paired_element name barred close s = Option.bind (open_tag name barred s) (\<lambda>(attrs, rest). after_first close rest)"

definition closed_element :: "string \<Rightarrow> (char \<Rightarrow> bool) \<Rightarrow> string \<Rightarrow> string option" where
  "closed_element name barred s = Option.bind (open_tag name barred s) (\<lambda>(attrs, rest). if suffix ''/'' attrs then Some rest else None)"

definition tag_within :: "string \<Rightarrow> string \<Rightarrow> bool" where
  "tag_within name s \<longleftrightarrow> list_ex (\<lambda>t. prefix name t \<and> (case drop (length name) t of [] \<Rightarrow> False | c # _ \<Rightarrow> js_is_space c \<or> c = CHR ''>'')) (suffixes s)"

definition looks_like_feed :: "string \<Rightarrow> string \<Rightarrow> bool" where
  "looks_like_feed body content_type \<longleftrightarrow>
     list_ex (\<lambda>w. sublist w (js_lower content_type)) [''xml'', ''rss'', ''atom'', ''rdf''] \<or>
     (let h = js_lower (take 512 body) in
      prefix ''<?xml'' (dropWhile js_is_space h) \<or> list_ex (\<lambda>t. tag_within t h) [''<rss'', ''<feed'', ''<rdf:rdf''])"

definition strip_feed :: "string \<Rightarrow> string \<Rightarrow> string option" where
  "strip_feed body content_type = (if \<not> looks_like_feed body content_type then None
     else Some (remove_all (closed_element ''<content'' (\<lambda>c. c = CHR '':''))
       (remove_all (paired_element ''<content'' (\<lambda>c. c = CHR '':'') ''</content>'')
         (remove_all (closed_element ''<content:encoded'' (\<lambda>c. False))
           (remove_all (paired_element ''<content:encoded'' (\<lambda>c. False) ''</content:encoded>'') body)))))"

section \<open>The exits\<close>

record content_exit =
  xe_id :: string
  xe_matches :: "exit_url \<Rightarrow> bool"
  xe_strip :: "string \<Rightarrow> string \<Rightarrow> exit_url \<Rightarrow> string option"
  xe_fail_closed :: bool

definition wordpress_rest :: "json_text \<Rightarrow> content_exit" where
  "wordpress_rest J = \<lparr>xe_id = ''wordpress-rest'', xe_matches = (\<lambda>u. route_of u \<noteq> None), xe_strip = strip_rest J, xe_fail_closed = True\<rparr>"

definition wordpress_feed :: content_exit where
  "wordpress_feed = \<lparr>xe_id = ''wordpress-feed'', xe_matches = feed_matches, xe_strip = (\<lambda>b t u. strip_feed b t), xe_fail_closed = False\<rparr>"

definition content_exits :: "json_text \<Rightarrow> content_exit list" where
  "content_exits J = [wordpress_rest J, wordpress_feed]"

definition content_exit_for :: "json_text \<Rightarrow> exit_url \<Rightarrow> content_exit option" where
  "content_exit_for J u = find (\<lambda>e. xe_matches e u) (content_exits J)"

text \<open>\<open>throughContentExit\<close>; \<open>free\<close> is whether the requester reads the article page free. \<open>None\<close> is an exception.\<close>

definition exit_refusal :: "nat \<Rightarrow> string \<Rightarrow> gate_response" where
  "exit_refusal status name = stamped True \<lparr>gr_status = status, gr_offer = None, gr_headers = [(''x-naulon-exit'', name @ ''; unreadable'')], gr_body = NoText\<rparr>"

definition through_content_exit :: "json_text \<Rightarrow> exit_url \<Rightarrow> bool \<Rightarrow> origin_reply \<Rightarrow> gate_response option" where
  "through_content_exit J u free r = (case content_exit_for J u of None \<Rightarrow> Some (from_origin r)
     | Some e \<Rightarrow> if free then Some (stamped False (from_origin r))
         else (case materialize_body r of None \<Rightarrow> Some (exit_refusal 502 (xe_id e))
           | Some (b, body) \<Rightarrow> (case xe_strip e body (case map_of (or_headers b) ''content-type'' of None \<Rightarrow> [] | Some t \<Rightarrow> t) u of
               None \<Rightarrow> if ok_range (or_status b) \<and> js_trim body \<noteq> [] \<and> xe_fail_closed e then Some (exit_refusal 403 (xe_id e))
                 else map_option (stamped True) (response_with (or_status b) body (or_headers b))
             | Some t \<Rightarrow> map_option (stamped True) (response_with (or_status b) t (put_header ''x-naulon-exit'' (xe_id e)
                 (without_headers [''content-length'', ''content-encoding'', ''etag'', ''last-modified''] (or_headers b)))))))"

section \<open>Lemmas\<close>

text \<open>No article text: outside the comments, whatever an object renders as its content is its excerpt.\<close>

fun only_teasers :: "json \<Rightarrow> bool" where
  "only_teasers (JArray js) \<longleftrightarrow> list_all only_teasers js"
| "only_teasers (JObject fs) \<longleftrightarrow> list_all (\<lambda>(k, v). k = ''replies'' \<or>
     (if k = ''content'' \<and> rendered_of v \<noteq> None then rendered_of v = Some (teaser_of fs) else only_teasers v)) fs"
| "only_teasers j \<longleftrightarrow> True"

lemma strip_field:
  "json_field (map (\<lambda>(k, v). (k, f k v)) fs) x = (case map_of fs x of None \<Rightarrow> JUndefined | Some v \<Rightarrow> f x v)"
  by (induction fs) (auto simp: json_field_def)

lemma strip_string_iff: "strip_bodies j = JString s \<longleftrightarrow> j = JString s"
  by (cases j) auto

lemma rendered_strip [simp]: "rendered_of (strip_bodies j) = rendered_of j"
proof (cases j)
  case (JObject fs)
  have "json_field (map (\<lambda>(k, v). (k, if k = ''replies'' then v
     else if k = ''content'' \<and> rendered_of v \<noteq> None then protect (teaser_of fs) v else strip_bodies v)) fs) ''rendered'' =
     (case map_of fs ''rendered'' of None \<Rightarrow> JUndefined | Some v \<Rightarrow> strip_bodies v)"
    by (subst strip_field) (auto split: option.split)
  then show ?thesis using JObject strip_string_iff
    by (auto simp: rendered_of_def json_prop_def json_field_def split: option.splits json.splits)
qed (simp_all add: rendered_of_def json_prop_def)

lemma rendered_protect: "rendered_of v \<noteq> None \<Longrightarrow> rendered_of (protect t v) = Some t"
  by (cases v) (auto simp: rendered_of_def json_prop_def json_field_def protect_def map_of_update)

lemma teaser_strip:
  "teaser_of (map (\<lambda>(k, v). (k, if k = ''replies'' then v
     else if k = ''content'' \<and> rendered_of v \<noteq> None then protect (teaser_of fs) v else strip_bodies v)) fs) = teaser_of fs"
  unfolding teaser_of_def by (subst strip_field) (simp add: json_field_def split: option.split)

lemma strip_only_teasers: "only_teasers (strip_bodies j)"
proof (induction j rule: strip_bodies.induct)
  case (2 fs)
  show ?case unfolding strip_bodies.simps only_teasers.simps teaser_strip list_all_iff
  proof (intro ballI)
    fix e
    assume "e \<in> set (map (\<lambda>(k, v). (k, if k = ''replies'' then v
       else if k = ''content'' \<and> rendered_of v \<noteq> None then protect (teaser_of fs) v else strip_bodies v)) fs)"
    then obtain k v where kv: "(k, v) \<in> set fs" "e = (k, if k = ''replies'' then v
       else if k = ''content'' \<and> rendered_of v \<noteq> None then protect (teaser_of fs) v else strip_bodies v)" by auto
    consider "k = ''replies''" | "k \<noteq> ''replies''" "k = ''content''" "rendered_of v \<noteq> None" | "k \<noteq> ''replies''" "\<not> (k = ''content'' \<and> rendered_of v \<noteq> None)" by blast
    then show "case e of (k, v) \<Rightarrow> k = ''replies'' \<or>
       (if k = ''content'' \<and> rendered_of v \<noteq> None then rendered_of v = Some (teaser_of fs) else only_teasers v)"
    proof cases
      case 2
      then show ?thesis using kv(2) rendered_protect by auto
    next
      case 3
      then have "e = (k, strip_bodies v)" using kv(2) by auto
      moreover have "only_teasers (strip_bodies v)" using "2.IH" [OF kv(1) refl] 3 by auto
      ultimately show ?thesis using 3 by auto
    qed (use kv(2) in auto)
  qed
qed (auto simp: list_all_iff)


lemma in_call_around: "\<exists>pre post. \<forall>t. in_call jsonp t = pre @ t @ post"
proof (cases jsonp)
  case None
  have "\<forall>t. in_call jsonp t = [] @ t @ []" using None by (simp add: in_call_def)
  then show ?thesis by blast
next
  case (Some x)
  obtain pre name y where x: "x = (pre, name, y)" by (cases x)
  have "\<forall>t. in_call jsonp t = (pre @ name @ ''('') @ t @ '')''" unfolding Some x by (simp add: in_call_def)
  then show ?thesis by blast
qed

lemma strip_rest_shape:
  assumes "strip_rest J body ct u = Some t" "route_of u = Some r" "\<not> comments_route r"
  shows "\<exists>pre j post. t = pre @ jt_text J (strip_bodies j) @ post"
proof -
  obtain j where "t = in_call (jsonp_of ct body) (jt_text J (strip_bodies j))"
    using assms by (auto simp: strip_rest_def Let_def split: if_splits)
  then show ?thesis using in_call_around [of "jsonp_of ct body"] by metis
qed

lemma through_exit:
  assumes "content_exit_for J u = Some e" "through_content_exit J u False reply = Some g"
  shows "(gr_body g = NoText \<and> gr_status g \<in> {502, 403}) \<or>
    (\<exists>b body. materialize_body reply = Some (b, body) \<and> gr_status g = or_status reply \<and> or_status reply \<notin> set null_body_status \<and>
       (case xe_strip e body (case map_of (or_headers b) ''content-type'' of None \<Rightarrow> [] | Some t \<Rightarrow> t) u of
          None \<Rightarrow> gr_body g = Bytes body \<and> \<not> (ok_range (or_status reply) \<and> js_trim body \<noteq> [] \<and> xe_fail_closed e)
        | Some t \<Rightarrow> gr_body g = Bytes t \<and> map_of (gr_headers g) ''x-naulon-exit'' = Some (xe_id e)))"
proof (cases "materialize_body reply")
  case None
  then show ?thesis using assms by (auto simp: through_content_exit_def exit_refusal_def stamped_def)
next
  case (Some x)
  obtain b body where x: "x = (b, body)" by (cases x)
  have s: "or_status b = or_status reply" using Some x materialize_facts by blast
  have h: "map_of (stamp_cache True hs) ''x-naulon-exit'' = map_of hs ''x-naulon-exit''" for hs
    by (simp add: stamp_cache_def vary_on_def Let_def)
  show ?thesis using assms Some x s
    by (auto simp: through_content_exit_def exit_refusal_def stamped_def response_with_iff h split: option.splits if_splits)
qed

lemma through_exit_read:
  assumes "content_exit_for J u = Some e" "through_content_exit J u False reply = Some g"
  shows "(gr_body g = NoText \<and> gr_status g \<in> {502, 403}) \<or> (\<exists>ct body. gr_status g = or_status reply \<and>
       (case xe_strip e body ct u of
          None \<Rightarrow> gr_body g = Bytes body \<and> \<not> (ok_range (or_status reply) \<and> js_trim body \<noteq> [] \<and> xe_fail_closed e)
        | Some t \<Rightarrow> gr_body g = Bytes t \<and> map_of (gr_headers g) ''x-naulon-exit'' = Some (xe_id e)))"
  using through_exit [OF assms] by fast

lemma exit_simps [simp]:
  "xe_id (wordpress_rest J) = ''wordpress-rest''" "xe_strip (wordpress_rest J) = strip_rest J" "xe_fail_closed (wordpress_rest J)"
  by (simp_all add: wordpress_rest_def)

lemma content_exit_for_if:
  "content_exit_for J u = (if route_of u \<noteq> None then Some (wordpress_rest J) else if feed_matches u then Some wordpress_feed else None)"
  by (simp add: content_exit_for_def content_exits_def wordpress_rest_def wordpress_feed_def)

section \<open>Properties\<close>


definition sample_json :: json_text where
  "sample_json = \<lparr>jt_parse = (\<lambda>s. Some (JArray [JObject [(''content'', JObject [(''rendered'', JString s)]),
       (''excerpt'', JObject [(''rendered'', JString ''Teaser'')])]])),
     jt_text = (\<lambda>j. case j of JArray (k # _) \<Rightarrow> (case rendered_of (json_prop k ''content'') of None \<Rightarrow> [] | Some s \<Rightarrow> s) | _ \<Rightarrow> [])\<rparr>"

definition sample_posts :: origin_reply where
  "sample_posts = \<lparr>or_status = 200, or_headers = [(''content-type'', ''application/json'')], or_reads = Some [Chunk ''Full '', Chunk ''text'']\<rparr>"


text \<open>C26: the door can be walked around. The route is read from the first \<open>rest_route\<close> parameter, while PHP keeps the
  last one of a repeated name: a query that repeats it is no exit for the gate, whatever route the last one names, and
  the answer of the site goes out whole.\<close>

theorem repeated_route_escapes:
  "through_content_exit J \<lparr>xu_pathname = ''/'', xu_params = [(''rest_route'', ''/''), (''rest_route'', route)]\<rparr> False reply = Some (from_origin reply)"
proof -
  have "route_of \<lparr>xu_pathname = ''/'', xu_params = [(''rest_route'', ''/''), (''rest_route'', route)]\<rparr> = None"
    by (simp add: route_of_def rest_prefixes_def Let_def js_lower_def)
  moreover have "\<not> feed_matches \<lparr>xu_pathname = ''/'', xu_params = [(''rest_route'', ''/''), (''rest_route'', route)]\<rparr>"
    by (simp add: feed_matches_def legacy_feed_file_def js_lower_def)
  ultimately show ?thesis by (simp add: through_content_exit_def content_exit_for_if)
qed

text \<open>C25: an answer without a body breaks a stripped exit. When the site answers an exit with a status that carries no
  body (204, 205 or the 304 of a conditional request), the gate builds a response with an empty text under that
  status, which the runtime refuses: every requester who does not read free gets an exception instead.\<close>

theorem bodyless_exit_throws:
  assumes "content_exit_for J u = Some e" "or_status reply = 204 \<or> or_status reply = 205 \<or> or_status reply = 304"
  shows "through_content_exit J u False reply = None"
proof -
  have n: "or_status reply \<in> set null_body_status" using assms(2) by (auto simp: null_body_status_def)
  have "materialize_body reply = Some (reply, [])" using n by (simp add: materialize_body_def split: option.split)
  then show ?thesis using n assms(1) by (simp add: through_content_exit_def response_with_def js_trim_def split: option.split)
qed

theorem bodyless_exit_throws_witness:
  "through_content_exit sample_json \<lparr>xu_pathname = ''/feed/'', xu_params = []\<rparr> False
     \<lparr>or_status = 304, or_headers = [(''etag'', ''x'')], or_reads = None\<rparr> = None"
proof -
  have "route_of \<lparr>xu_pathname = ''/feed/'', xu_params = []\<rparr> = None" "feed_matches \<lparr>xu_pathname = ''/feed/'', xu_params = []\<rparr>" by code_simp+
  then have "content_exit_for sample_json \<lparr>xu_pathname = ''/feed/'', xu_params = []\<rparr> = Some wordpress_feed" by (simp add: content_exit_for_if)
  then show ?thesis by (rule bodyless_exit_throws) simp
qed

end
