(* ===== verification/Serve.thy ===== *)
theory Serve
  imports Settle ContentExits
begin

text \<open>
  The gate that stands before a site, the toll handler \<open>serveGated\<close> of \<open>packages/tollgate/src/app.ts\<close> with the
  outcome of \<open>settle.ts\<close> (\<open>settleAndAttribute\<close>): in which order a paid read fetches, reads and settles, what it
  answers and writes down, and what a licence authority is told. The origin, the licence authority, the minting of
  a licence and the libraries are inputs; the rail is that of \<open>Settle\<close>. The text of a 402, the stored event and the
  log are left out. An exception is \<open>None\<close>.
\<close>

section \<open>Settling\<close>

text \<open>\<open>settleAndAttribute\<close>: once the payment is taken nothing turns it into a refusal. \<open>mint\<close> gives the licence and
  the id of the event, \<open>None\<close> when attribution throws.\<close>

datatype tail_outcome = Charged json "(string option \<times> string) option" "forgone_leg list"
  | NotCharged "stage option" bool verify_error | ChargeThrew

definition settle_and_attribute ::
    "'c settle_env \<Rightarrow> (paid \<Rightarrow> (string option \<times> string) option) \<Rightarrow> string \<Rightarrow> settlement_leg list \<Rightarrow> int \<Rightarrow> string option \<Rightarrow>
       'c settle_state \<Rightarrow> tail_outcome \<times> 'c settle_state" where
  "settle_and_attribute E mint payment legs now publisher st =
     (case verify_and_settle E payment (ManyLegs (map Inr legs)) now publisher False st of
        (Refusal r, st') \<Rightarrow> (NotCharged (rf_stage r) (rf_unavailable r) (rf_error r), st')
      | (Paid p, st') \<Rightarrow> (Charged (pd_receipt p) (mint p) (case pd_forgone p of None \<Rightarrow> [] | Some f \<Rightarrow> f), st')
      | (Crashed, st') \<Rightarrow> (ChargeThrew, st'))"

section \<open>Serving\<close>

record 'c gate_env =
  ge_settle :: "'c settle_env"
  ge_mint :: "paid \<Rightarrow> (string option \<times> string) option"
  ge_deliver :: deliverer
  ge_json :: json_text
  ge_now :: int

datatype authority_verdict = ChargeOn string string | HeldLicence | LicenceRefused nat string

text \<open>One request, and what the world answers it: the origin (\<open>None\<close> is a fetch that throws), and the licence
  authority, if there is one (\<open>Some None\<close> throws).\<close>

record gate_request =
  gq_raw :: raw_request
  gq_method :: string
  gq_url :: string
  gq_parts :: exit_url
  gq_origin :: "origin_reply option"
  gq_authority :: "authority_verdict option option"

record 'c gate_result =
  gt_response :: "gate_response option"
  gt_events :: "gate_event list"
  gt_rail :: "'c settle_state"

definition gate_text :: "nat \<Rightarrow> string \<Rightarrow> gate_response" where
  "gate_text status v = with_verdict v \<lparr>gr_status = status, gr_offer = None, gr_headers = [], gr_body = NoText\<rparr>"

definition reported :: "string option \<Rightarrow> charge_outcome \<Rightarrow> gate_event list" where
  "reported grant o' = (case grant of None \<Rightarrow> [] | Some g \<Rightarrow> [Reported g o'])"

definition safe_method :: "string \<Rightarrow> bool" where "safe_method m \<longleftrightarrow> m \<in> {''GET'', ''HEAD''}"

text \<open>The fetch before the settle: what was fetched is in hand, or the charge is off.\<close>

datatype prefetch = NotFetched | PrefetchThrew | Unreadable | NotOkOrigin origin_reply | InHand gate_response

definition prefetch_read :: "'c gate_env \<Rightarrow> gate_site \<Rightarrow> gate_request \<Rightarrow> prefetch \<times> gate_event list" where
  "prefetch_read E S q = (if \<not> safe_method (gq_method q) then (NotFetched, [])
     else (case proxy_to_origin S (gq_raw q) (gq_origin q) of
         (None, ev) \<Rightarrow> (PrefetchThrew, ev)
       | (Some r, ev) \<Rightarrow>
           if \<not> ok_range (or_status r) then (NotOkOrigin r, ev)
           else (case materialize_body r of None \<Rightarrow> (Unreadable, ev)
             | Some m \<Rightarrow> (case deliver_for_agent (ge_deliver E) m (header (gq_raw q) ''accept'') (gq_url q) of
                   None \<Rightarrow> (PrefetchThrew, ev @ [BodyRead])
                 | Some (g, bytes) \<Rightarrow> (InHand g, ev @ [BodyRead])))))"

text \<open>What is served after the settle: the body in hand, or for an unsafe method the origin's, fetched now.\<close>

definition held_response :: "gate_site \<Rightarrow> gate_request \<Rightarrow> prefetch \<Rightarrow> gate_response option \<times> gate_event list" where
  "held_response S q p = (case p of
     InHand g \<Rightarrow> (Some g, [])
   | _ \<Rightarrow> (case proxy_to_origin S (gq_raw q) (gq_origin q) of (r, ev) \<Rightarrow> (map_option from_origin r, ev)))"

definition priced_offer :: "ask \<Rightarrow> int option \<Rightarrow> gate_response option" where
  "priced_offer a m = Option.bind (Option.bind m format_crawler_price) (\<lambda>price.
     Some \<lparr>gr_status = 402, gr_offer = ask_body a, gr_headers = [(''crawler-price'', price), (''vary'', ''Accept'')], gr_body = NoText\<rparr>)"

definition charged_response :: "'c gate_env \<Rightarrow> ask \<Rightarrow> observation \<Rightarrow> json \<Rightarrow> (string option \<times> string) option \<Rightarrow> forgone_leg list \<Rightarrow> gate_response \<Rightarrow> gate_response option" where
  "charged_response E a obs receipt minted forgone r =
     map_option (\<lambda>amount. stamped True (with_verdict (''agent paid ('' @ ob_reason obs @ '')'') (set_header ''crawler-charged'' amount
         ((case Option.bind minted fst of Some (c # cs) \<Rightarrow> set_header ''x-naulon-license'' (c # cs) | _ \<Rightarrow> id)
           (set_header ''payment-response'' (jt_text (ge_json E) receipt) r)))))
       (Option.bind (settled_charged_micro (leg_amounts (ask_legs a)) (map fl_amount forgone)) format_crawler_price)"

definition settle_stage :: "'c gate_env \<Rightarrow> gate_site \<Rightarrow> gate_request \<Rightarrow> string \<Rightarrow> ask \<Rightarrow> observation \<Rightarrow> string option \<Rightarrow> prefetch \<Rightarrow> gate_event list \<Rightarrow>
    'c settle_state \<Rightarrow> 'c gate_result" where
  "settle_stage E S q payment a obs grant p ev st =
     (case settle_and_attribute (ge_settle E) (ge_mint E) payment (ask_legs a) (ge_now E) (Some (gs_id S)) st of
        (ChargeThrew, st') \<Rightarrow> \<lparr>gt_response = None, gt_events = ev @ [SettleTried payment] @ reported grant OutcomeAmbiguous, gt_rail = st'\<rparr>
      | (NotCharged stage unavailable e, st') \<Rightarrow>
          if unavailable then (case held_response S q p of (r, ev2) \<Rightarrow>
            \<lparr>gt_response = map_option (\<lambda>r. stamped True (with_verdict ''served free (payment rail unavailable)'' r)) r,
             gt_events = ev @ [SettleTried payment, Wrote ServedFree False] @ reported grant OutcomeUnpaid @ ev2, gt_rail = st'\<rparr>)
          else \<lparr>gt_response = map_option (stamped True) (priced_offer a (total_micro (leg_amounts (ask_legs a)))),
                gt_events = ev @ [SettleTried payment] @ reported grant (if stage = Some VerifyStage then OutcomeUnpaid else OutcomeAmbiguous) @
                  [Wrote PaymentFailedRead False],
                gt_rail = st'\<rparr>
      | (Charged receipt minted forgone, st') \<Rightarrow> (case held_response S q p of (r, ev2) \<Rightarrow>
          \<lparr>gt_response = Option.bind r (charged_response E a obs receipt minted forgone),
           gt_events = ev @ [SettleTried payment] @ reported grant (OutcomeSettled (map_option snd minted)) @ [Wrote PaidRead False] @ ev2,
           gt_rail = st'\<rparr>))"

text \<open>\<open>settleAndServe\<close>: a read of a safe method is fetched and read before anything is settled.\<close>

definition settle_and_serve :: "'c gate_env \<Rightarrow> gate_site \<Rightarrow> gate_request \<Rightarrow> string \<Rightarrow> ask \<Rightarrow> observation \<Rightarrow> string option \<Rightarrow>
    'c settle_state \<Rightarrow> 'c gate_result" where
  "settle_and_serve E S q payment a obs grant st = (case prefetch_read E S q of
     (PrefetchThrew, ev) \<Rightarrow> \<lparr>gt_response = None, gt_events = ev @ reported grant OutcomeUnpaid, gt_rail = st\<rparr>
   | (Unreadable, ev) \<Rightarrow> \<lparr>gt_response = Some (stamped True (gate_text 502 ''agent not charged: origin body could not be read'')),
       gt_events = ev @ [Wrote Unservable False] @ reported grant OutcomeUnpaid, gt_rail = st\<rparr>
   | (NotOkOrigin r, ev) \<Rightarrow> \<lparr>gt_response = Some (stamped True (with_verdict (''agent not charged: origin could not serve ('' @ nat_string 10 (or_status r) @ '')'') (from_origin r))),
       gt_events = ev @ [Wrote Unservable False] @ reported grant OutcomeUnpaid, gt_rail = st\<rparr>
   | (p, ev) \<Rightarrow> settle_stage E S q payment a obs grant p ev st)"

text \<open>\<open>serveReread\<close>.\<close>

definition serve_reread :: "'c gate_env \<Rightarrow> gate_site \<Rightarrow> gate_request \<Rightarrow> string \<Rightarrow> 'c settle_state \<Rightarrow> 'c gate_result" where
  "serve_reread E S q verdict st = (case proxy_to_origin S (gq_raw q) (gq_origin q) of
     (None, ev) \<Rightarrow> \<lparr>gt_response = None, gt_events = ev, gt_rail = st\<rparr>
   | (Some r, ev) \<Rightarrow>
       if \<not> ok_range (or_status r) \<or> \<not> prefers_markdown (header (gq_raw q) ''accept'') then
         \<lparr>gt_response = Some (stamped True (with_verdict verdict
             (from_origin (if ok_range (or_status r) then r\<lparr>or_headers := vary_on_accept (or_headers r)\<rparr> else r)))),
          gt_events = ev @ [Wrote AgentReread False], gt_rail = st\<rparr>
       else (case materialize_body r of
           None \<Rightarrow> \<lparr>gt_response = Some (stamped True (gate_text 502 ''agent reread: origin body unreadable'')),
              gt_events = ev @ [Wrote AgentReread False], gt_rail = st\<rparr>
         | Some m \<Rightarrow> (case deliver_for_agent (ge_deliver E) m (header (gq_raw q) ''accept'') (gq_url q) of
             None \<Rightarrow> \<lparr>gt_response = None, gt_events = ev @ [BodyRead], gt_rail = st\<rparr>
           | Some (g, bytes) \<Rightarrow> \<lparr>gt_response = Some (stamped True (with_verdict verdict g)),
               gt_events = ev @ [BodyRead, Wrote AgentReread False], gt_rail = st\<rparr>)))"

text \<open>\<open>serveLicence\<close>: a refusal that can still be bought carries the offer. A price that will not format throws.\<close>

definition refuse_licence :: "'c settle_state \<Rightarrow> ask \<Rightarrow> nat \<Rightarrow> string \<Rightarrow> 'c gate_result" where
  "refuse_licence st a status error =
     (let base = [(''x-naulon-verdict'', header_safe (licence_refused error))] @
          (if status = 401 then [(''www-authenticate'', ''License error='' @ quoted error)] else []);
          retry = (if status = 503 then [(''retry-after'', ''2'')] else []);
          refusal = (\<lambda>offer hs. \<lparr>gt_response = Some (stamped True \<lparr>gr_status = status, gr_offer = offer, gr_headers = base @ hs @ retry, gr_body = NoText\<rparr>),
            gt_events = [Wrote DeniedRead False], gt_rail = st\<rparr>) in
      if status = 402 \<or> error = ''licence_server_unavailable'' then
        (case Option.bind (total_micro (leg_amounts (ask_legs a))) format_crawler_price of
           None \<Rightarrow> \<lparr>gt_response = None, gt_events = [], gt_rail = st\<rparr>
         | Some price \<Rightarrow> refusal (ask_body a) [(''crawler-price'', price)])
      else refusal None [])"

definition serve_licence :: "'c gate_env \<Rightarrow> gate_site \<Rightarrow> gate_request \<Rightarrow> ask \<Rightarrow> observation \<Rightarrow> authority_verdict option \<Rightarrow> 'c settle_state \<Rightarrow> 'c gate_result" where
  "serve_licence E S q a obs answer st = (case answer of
     None \<Rightarrow> refuse_licence st a 503 ''licence_server_unavailable''
   | Some (LicenceRefused status error) \<Rightarrow> refuse_licence st a status error
   | Some HeldLicence \<Rightarrow> serve_reread E S q ''agent reread (licence)'' st
   | Some (ChargeOn payment grant) \<Rightarrow> settle_and_serve E S q payment a obs (Some grant) st)"

section \<open>The handler\<close>

definition gate_proxied :: "gate_site \<Rightarrow> gate_request \<Rightarrow> gate_event list \<Rightarrow> (gate_response \<Rightarrow> gate_response) \<Rightarrow> 'c settle_state \<Rightarrow> 'c gate_result" where
  "gate_proxied S q wrote f st = (case proxy_to_origin S (gq_raw q) (gq_origin q) of (r, ev) \<Rightarrow>
     \<lparr>gt_response = map_option (\<lambda>r. f (from_origin r)) r, gt_events = wrote @ ev, gt_rail = st\<rparr>)"

definition gate_offer :: "gate_site \<Rightarrow> bool \<Rightarrow> gate_request \<Rightarrow> ask \<Rightarrow> observation \<Rightarrow> 'c settle_state \<Rightarrow> 'c gate_result" where
  "gate_offer S observing q a obs st = (case ask_micro a of None \<Rightarrow> \<lparr>gt_response = None, gt_events = [], gt_rail = st\<rparr>
     | Some m \<Rightarrow> if observing then gate_proxied S q [Wrote DeniedRead True] (\<lambda>r. stamped True (with_verdict (''observed ('' @ ob_reason obs @ '')'') r)) st
         else \<lparr>gt_response = map_option (\<lambda>r. stamped True (with_verdict (''agent ('' @ ob_reason obs @ '')'' @
                  budget_text (declared_budget \<lparr>mq_raw = gq_raw q, mq_method = gq_method q, mq_socket = None\<rparr> m)) r)) (priced_offer a (Some m)),
               gt_events = [Wrote DeniedRead False], gt_rail = st\<rparr>)"

definition gate_passthrough :: "'c gate_env \<Rightarrow> gate_site \<Rightarrow> gate_request \<Rightarrow> bool \<Rightarrow> gate_event list \<Rightarrow> 'c settle_state \<Rightarrow> 'c gate_result" where
  "gate_passthrough E S q free wrote st = (case proxy_to_origin S (gq_raw q) (gq_origin q) of (r, ev) \<Rightarrow>
     \<lparr>gt_response = Option.bind r (through_content_exit (ge_json E) (gq_parts q) free), gt_events = wrote @ ev, gt_rail = st\<rparr>)"

definition term_text :: "prohibited_term \<Rightarrow> string" where
  "term_text t = (case t of TermAiInput \<Rightarrow> ''ai-input'' | TermAiTrain \<Rightarrow> ''ai-train'' | TermSearch \<Rightarrow> ''search'')"

definition answer_gated :: "'c gate_env \<Rightarrow> gate_site \<Rightarrow> bool \<Rightarrow> gate_request \<Rightarrow> bool \<Rightarrow> decision \<Rightarrow> 'c settle_state \<Rightarrow> 'c gate_result" where
  "answer_gated E S observing q free d st = (case d of
     PassNonArticle \<Rightarrow> gate_passthrough E S q free [] st
   | PassUnknown obs \<Rightarrow> gate_passthrough E S q free (case obs of None \<Rightarrow> [] | Some _ \<Rightarrow> [Wrote ServedFree False]) st
   | FreeRead v because obs \<Rightarrow> gate_proxied S q [Wrote ServedFree False] (\<lambda>r. stamped False (with_verdict v r)) st
   | Blocked f obs \<Rightarrow> \<lparr>gt_response = Some (stamped True (gate_text 403 (''blocked ('' @ quoted f @ '')''))), gt_events = [Wrote BlockedRead False], gt_rail = st\<rparr>
   | Prohibited term reason obs \<Rightarrow> \<lparr>gt_response = Some (stamped True (gate_text 403 (''prohibited ('' @ term_text term @ '')''))),
       gt_events = [Wrote BlockedRead False], gt_rail = st\<rparr>
   | RereadFree kind obs \<Rightarrow> serve_reread E S q ''agent reread (license)'' st
   | LicencePresented token a signer obs \<Rightarrow>
       (case gq_authority q of
          Some answer \<Rightarrow> if gq_method q = ''GET'' \<and> \<not> observing then serve_licence E S q a obs answer st else gate_offer S observing q a obs st
        | None \<Rightarrow> gate_offer S observing q a obs st)
   | PaymentRequired a obs \<Rightarrow> gate_offer S observing q a obs st
   | PaymentPresented payment a obs \<Rightarrow>
       (if observing then (case ask_micro a of None \<Rightarrow> \<lparr>gt_response = None, gt_events = [], gt_rail = st\<rparr>
          | Some m \<Rightarrow> gate_proxied S q [Wrote DeniedRead True] (\<lambda>r. stamped True (with_verdict ''observed (payment not taken)'' r)) st)
        else settle_and_serve E S q payment a obs None st))"

text \<open>\<open>serveGated\<close>. A suspended site is proxied as it is.\<close>

definition reads_free :: "standing \<Rightarrow> bool" where
  "reads_free s = (case s of Settled d \<Rightarrow> (case d of FreeRead _ _ _ \<Rightarrow> True | _ \<Rightarrow> False) | Machine _ _ \<Rightarrow> False)"

definition serve_gated :: "'c gate_env \<Rightarrow> gate_site \<Rightarrow> bool \<Rightarrow> gate_request \<Rightarrow> 'k decide_env \<Rightarrow> decide_state \<Rightarrow> decide_input \<Rightarrow>
    'c settle_state \<Rightarrow> 'c gate_result \<times> decide_state" where
  "serve_gated E S suspended q D ds inp st =
     (let q' = q\<lparr>gq_raw := rqr_raw (di_requester inp)\<rparr> in
      if suspended then (gate_proxied S q' [] (with_verdict ''suspended (degraded passthrough)'') st, ds)
      else (case decide D ds inp of
          (Inl _, ds') \<Rightarrow> (\<lparr>gt_response = None, gt_events = [], gt_rail = st\<rparr>, ds')
        | (Inr d, ds') \<Rightarrow> (answer_gated E S (pb_observe (rqr_publisher (di_requester inp))) q'
            (reads_free (classify_requester (di_requester inp) (di_path inp))) d st, ds')))"

section \<open>Lemmas\<close>

definition settles :: "gate_event list \<Rightarrow> string list" where
  "settles ev = List.map_filter (\<lambda>e. case e of SettleTried p \<Rightarrow> Some p | _ \<Rightarrow> None) ev"

definition charge_reports :: "gate_event list \<Rightarrow> (string \<times> charge_outcome) list" where
  "charge_reports ev = List.map_filter (\<lambda>e. case e of Reported g o' \<Rightarrow> Some (g, o') | _ \<Rightarrow> None) ev"

definition fetches :: "gate_event list \<Rightarrow> (string \<times> (string, string) js_map) list" where
  "fetches ev = List.map_filter (\<lambda>e. case e of Fetched u hs \<Rightarrow> Some (u, hs) | _ \<Rightarrow> None) ev"

lemma map_filter_simps' [simp]:
  "List.map_filter f [] = []"
  "List.map_filter f (x # xs) = (case f x of None \<Rightarrow> List.map_filter f xs | Some y \<Rightarrow> y # List.map_filter f xs)"
  by (simp_all add: List.map_filter_simps)

lemma map_filter_append' [simp]: "List.map_filter f (xs @ ys) = List.map_filter f xs @ List.map_filter f ys"
  by (induction xs) (auto split: option.split)

lemmas event_lists = settles_def charge_reports_def fetches_def

lemma reported_lists [simp]:
  "settles (reported grant o') = []" "fetches (reported grant o') = []"
  "charge_reports (reported grant o') = (case grant of None \<Rightarrow> [] | Some g \<Rightarrow> [(g, o')])"
  by (auto simp: event_lists reported_def split: option.split)

lemma event_append [simp]:
  "settles (a @ b) = settles a @ settles b" "charge_reports (a @ b) = charge_reports a @ charge_reports b" "fetches (a @ b) = fetches a @ fetches b"
  by (simp_all add: event_lists)

lemma event_cons [simp]:
  "settles [] = []" "settles (Fetched u hs # b) = settles b" "settles (BodyRead # b) = settles b" "settles (SettleTried p # b) = p # settles b"
  "settles (Wrote v w # b) = settles b" "settles (Reported g o' # b) = settles b"
  "charge_reports [] = []" "charge_reports (Fetched u hs # b) = charge_reports b" "charge_reports (BodyRead # b) = charge_reports b"
  "charge_reports (SettleTried p # b) = charge_reports b" "charge_reports (Wrote v w # b) = charge_reports b"
  "charge_reports (Reported g o' # b) = (g, o') # charge_reports b"
  "fetches [] = []" "fetches (Fetched u hs # b) = (u, hs) # fetches b" "fetches (BodyRead # b) = fetches b" "fetches (SettleTried p # b) = fetches b"
  "fetches (Wrote v w # b) = fetches b" "fetches (Reported g o' # b) = fetches b"
  by (simp_all add: event_lists)

text \<open>What a fetch of the site shows of itself.\<close>

definition pinned :: "gate_site \<Rightarrow> string \<times> (string, string) js_map \<Rightarrow> bool" where
  "pinned S f \<longleftrightarrow> same_origin (gs_urls S) (fst f) (gs_origin S) \<and> keeps_buyer_secrets (snd f) \<and>
     (map_of (snd f) ''x-naulon-origin-auth'' = None \<or>
       (map_of (snd f) ''x-naulon-origin-auth'' = gs_secret S \<and> map_option up_protocol (gs_urls S (gs_origin S)) = Some ''https:''))"

lemma proxy_lists:
  assumes "proxy_to_origin S raw reply = (r, ev)"
  shows "settles ev = []" "charge_reports ev = []" "list_all (pinned S) (fetches ev)"
proof -
  have "settles ev = [] \<and> charge_reports ev = [] \<and> list_all (pinned S) (fetches ev)"
    using proxy_events [OF assms] by (auto simp: pinned_def pull_keeps_secrets pull_credentials)
  then show "settles ev = []" "charge_reports ev = []" "list_all (pinned S) (fetches ev)" by auto
qed

lemma prefetch_lists:
  assumes "prefetch_read E S q = (p, ev)"
  shows "settles ev = []" "charge_reports ev = []" "list_all (pinned S) (fetches ev)"
proof -
  obtain r ev0 where p: "proxy_to_origin S (gq_raw q) (gq_origin q) = (r, ev0)" by fastforce
  have "ev = [] \<or> ev = ev0 \<or> ev = ev0 @ [BodyRead]"
    using assms p by (auto simp: prefetch_read_def split: if_splits option.splits)
  then show "settles ev = []" "charge_reports ev = []" "list_all (pinned S) (fetches ev)"
    using proxy_lists [OF p] by auto
qed

lemma held_lists:
  assumes "held_response S q p = (r, ev)"
  shows "settles ev = []" "charge_reports ev = []" "list_all (pinned S) (fetches ev)"
proof -
  obtain r0 ev0 where p: "proxy_to_origin S (gq_raw q) (gq_origin q) = (r0, ev0)" by fastforce
  have "ev = [] \<or> ev = ev0" using assms p by (auto simp: held_response_def split: prefetch.splits)
  then show "settles ev = []" "charge_reports ev = []" "list_all (pinned S) (fetches ev)"
    using proxy_lists [OF p] by auto
qed


text \<open>Where a charge ends. Either it was called off before the settle, or the settle ran.\<close>

lemma settle_and_serve_cases:
  "(\<exists>ev tail. settle_and_serve E S q payment a obs grant st =
      \<lparr>gt_response = gt_response (settle_and_serve E S q payment a obs grant st), gt_events = ev @ tail @ reported grant OutcomeUnpaid, gt_rail = st\<rparr> \<and>
      prefetch_read E S q = (fst (prefetch_read E S q), ev) \<and> (tail = [] \<or> tail = [Wrote Unservable False])) \<or>
   (\<exists>p ev. prefetch_read E S q = (p, ev) \<and> (p = NotFetched \<or> (\<exists>g. p = InHand g)) \<and>
      settle_and_serve E S q payment a obs grant st = settle_stage E S q payment a obs grant p ev st)"
proof -
  obtain p ev where p: "prefetch_read E S q = (p, ev)" by fastforce
  show ?thesis by (cases p) (auto simp: settle_and_serve_def p)
qed

lemma prefetch_safe:
  assumes "safe_method (gq_method q)" "prefetch_read E S q = (p, ev)" "p = NotFetched \<or> (\<exists>g. p = InHand g)"
  shows "\<exists>reply m g bytes target hs. p = InHand g \<and> gq_origin q = Some reply \<and> ok_range (or_status reply) \<and> materialize_body (proxied reply) = Some m \<and>
    deliver_for_agent (ge_deliver E) m (header (gq_raw q) ''accept'') (gq_url q) = Some (g, bytes) \<and> ev = [Fetched target hs, BodyRead]"
proof -
  obtain r0 ev0 where x: "proxy_to_origin S (gq_raw q) (gq_origin q) = (r0, ev0)" by fastforce
  from assms x obtain r m g bytes where r: "r0 = Some r" "ok_range (or_status r)" "materialize_body r = Some m"
    "deliver_for_agent (ge_deliver E) m (header (gq_raw q) ''accept'') (gq_url q) = Some (g, bytes)" "p = InHand g" "ev = ev0 @ [BodyRead]"
    by (auto simp: prefetch_read_def split: if_splits option.splits)
  have "\<exists>reply target hs. gq_origin q = Some reply \<and> r = proxied reply \<and> ev0 = [Fetched target hs]"
    using proxy_events [OF x] r(1,2) by (cases "gq_origin q") (auto simp: ok_range_def)
  then obtain reply target hs where o: "gq_origin q = Some reply" "r = proxied reply" "ev0 = [Fetched target hs]" by blast
  have "or_status r = or_status reply" using o(2) by (simp add: proxied_def)
  then have "ok_range (or_status reply)" "materialize_body (proxied reply) = Some m" "ev = [Fetched target hs, BodyRead]"
    using r(2,3,6) o(2,3) by simp_all
  with r(4,5) o(1) show ?thesis by blast
qed

text \<open>The rail of a settle that charged nothing is as it was.\<close>

lemma tail_untouched:
  assumes "settle_and_attribute F mint payment legs now publisher st = (NotCharged stage unavailable e, st')" "stage = Some VerifyStage \<or> unavailable"
  shows "st' = st"
proof -
  obtain r where r: "verify_and_settle F payment (ManyLegs (map Inr legs)) now publisher False st = (Refusal r, st')" "rf_stage r = stage" "rf_unavailable r = unavailable"
    using assms(1) by (auto simp: settle_and_attribute_def split: prod.splits verify_result.splits)
  from refusal_untouched [OF r(1)] r(2,3) assms(2) show ?thesis by (auto split: if_splits)
qed

lemma settle_stage_events:
  assumes "settle_and_attribute (ge_settle E) (ge_mint E) payment (ask_legs a) (ge_now E) (Some (gs_id S)) st = (out, st')"
    "held_response S q p = (r2, ev2)"
  shows "gt_rail (settle_stage E S q payment a obs grant p ev st) = st'"
    "gt_events (settle_stage E S q payment a obs grant p ev st) = ev @ [SettleTried payment] @ (case out of
       ChargeThrew \<Rightarrow> reported grant OutcomeAmbiguous
     | NotCharged stage unavailable e \<Rightarrow> if unavailable then [Wrote ServedFree False] @ reported grant OutcomeUnpaid @ ev2
         else reported grant (if stage = Some VerifyStage then OutcomeUnpaid else OutcomeAmbiguous) @ [Wrote PaymentFailedRead False]
     | Charged receipt minted forgone \<Rightarrow> reported grant (OutcomeSettled (map_option snd minted)) @ [Wrote PaidRead False] @ ev2)"
  using assms by (simp_all add: settle_stage_def split: tail_outcome.split)

lemma settle_stage_lists:
  assumes "prefetch_read E S q = (p, ev)"
  shows "settles (gt_events (settle_stage E S q payment a obs grant p ev st)) = [payment]"
    "list_all (pinned S) (fetches (gt_events (settle_stage E S q payment a obs grant p ev st)))"
proof -
  obtain out st' where s: "settle_and_attribute (ge_settle E) (ge_mint E) payment (ask_legs a) (ge_now E) (Some (gs_id S)) st = (out, st')" by fastforce
  obtain r2 ev2 where h: "held_response S q p = (r2, ev2)" by fastforce
  note pl = prefetch_lists [OF assms] held_lists [OF h]
  show "settles (gt_events (settle_stage E S q payment a obs grant p ev st)) = [payment]"
    "list_all (pinned S) (fetches (gt_events (settle_stage E S q payment a obs grant p ev st)))"
    unfolding settle_stage_events [OF s h] using pl by (cases out; simp)+
qed

text \<open>What a report tells the licence authority, checked against the rail.\<close>

definition truthful :: "'c gate_env \<Rightarrow> gate_site \<Rightarrow> string \<Rightarrow> ask \<Rightarrow> 'c settle_state \<Rightarrow> 'c settle_state \<Rightarrow> charge_outcome \<Rightarrow> bool" where
  "truthful E S payment a st st' o' =
     (let v = verify_and_settle (ge_settle E) payment (ManyLegs (map Inr (ask_legs a))) (ge_now E) (Some (gs_id S)) False st in
      case o' of OutcomeUnpaid \<Rightarrow> st' = st
      | OutcomeSettled i \<Rightarrow> (case v of (Paid x, s) \<Rightarrow> st' = s | _ \<Rightarrow> False)
      | OutcomeAmbiguous \<Rightarrow> (case v of (Refusal r, s) \<Rightarrow> st' = s \<and> rf_stage r \<noteq> Some VerifyStage | (Crashed, s) \<Rightarrow> st' = s | _ \<Rightarrow> False))"

lemma settle_stage_reports:
  assumes "prefetch_read E S q = (p, ev)"
  shows "\<exists>o'. charge_reports (gt_events (settle_stage E S q payment a obs grant p ev st)) = (case grant of None \<Rightarrow> [] | Some g \<Rightarrow> [(g, o')]) \<and>
      truthful E S payment a st (gt_rail (settle_stage E S q payment a obs grant p ev st)) o'"
proof -
  obtain out st' where s: "settle_and_attribute (ge_settle E) (ge_mint E) payment (ask_legs a) (ge_now E) (Some (gs_id S)) st = (out, st')" by fastforce
  obtain r2 ev2 where h: "held_response S q p = (r2, ev2)" by fastforce
  note pl = prefetch_lists [OF assms] held_lists [OF h]
  define o' where "o' = (case out of ChargeThrew \<Rightarrow> OutcomeAmbiguous | Charged receipt minted forgone \<Rightarrow> OutcomeSettled (map_option snd minted)
     | NotCharged stage unavailable e \<Rightarrow> if unavailable \<or> stage = Some VerifyStage then OutcomeUnpaid else OutcomeAmbiguous)"
  have "charge_reports (gt_events (settle_stage E S q payment a obs grant p ev st)) = (case grant of None \<Rightarrow> [] | Some g \<Rightarrow> [(g, o')])"
    unfolding settle_stage_events [OF s h] o'_def using pl by (cases out; cases grant) simp_all
  moreover have "truthful E S payment a st st' o'"
  proof (cases "\<exists>stage unavailable e. out = NotCharged stage unavailable e \<and> (stage = Some VerifyStage \<or> unavailable)")
    case True
    then obtain stage unavailable e where o1: "out = NotCharged stage unavailable e" "stage = Some VerifyStage \<or> unavailable" by blast
    have "st' = st" using tail_untouched [OF s [unfolded o1(1)] o1(2)] .
    then show ?thesis using o1 by (auto simp: truthful_def o'_def)
  next
    case False
    then show ?thesis using s
      by (cases out) (auto simp: truthful_def o'_def settle_and_attribute_def Let_def split: prod.splits verify_result.splits)
  qed
  ultimately show ?thesis unfolding settle_stage_events [OF s h] by blast
qed

text \<open>A branch that charges nothing and tells nobody that it did.\<close>

definition quiet :: "gate_site \<Rightarrow> 'c settle_state \<Rightarrow> 'c gate_result \<Rightarrow> bool" where
  "quiet S st out \<longleftrightarrow> gt_rail out = st \<and> settles (gt_events out) = [] \<and> charge_reports (gt_events out) = [] \<and> list_all (pinned S) (fetches (gt_events out))"

lemma quiet_proxied: "settles wrote = [] \<Longrightarrow> charge_reports wrote = [] \<Longrightarrow> fetches wrote = [] \<Longrightarrow> quiet S st (gate_proxied S q wrote f st)"
  by (cases "proxy_to_origin S (gq_raw q) (gq_origin q)") (simp add: gate_proxied_def quiet_def proxy_lists)

lemma quiet_passthrough: "settles wrote = [] \<Longrightarrow> charge_reports wrote = [] \<Longrightarrow> fetches wrote = [] \<Longrightarrow> quiet S st (gate_passthrough E S q free wrote st)"
  by (cases "proxy_to_origin S (gq_raw q) (gq_origin q)") (simp add: gate_passthrough_def quiet_def proxy_lists)

lemma quiet_offer: "quiet S st (gate_offer S observing q a obs st)"
  unfolding gate_offer_def by (auto simp: quiet_proxied split: option.split) (simp_all add: quiet_def)

lemma quiet_reread: "quiet S st (serve_reread E S q v st)"
proof -
  obtain r ev where x: "proxy_to_origin S (gq_raw q) (gq_origin q) = (r, ev)" by fastforce
  show ?thesis using proxy_lists [OF x] by (auto simp: serve_reread_def x quiet_def split: option.split)
qed

lemma quiet_refusal: "quiet S st (refuse_licence st a status error)"
  by (auto simp: refuse_licence_def Let_def quiet_def split: option.split)

lemmas quiet_branches = quiet_proxied quiet_passthrough quiet_offer quiet_reread quiet_refusal

lemma answer_gated_cases:
  "quiet S st (answer_gated E S observing q free d st) \<or>
   (\<not> observing \<and> (\<exists>payment a obs grant. answer_gated E S observing q free d st = settle_and_serve E S q payment a obs grant st))"
proof (cases d)
  case (LicencePresented token a signer obs)
  show ?thesis
    by (cases "gq_authority q") (auto simp: LicencePresented answer_gated_def serve_licence_def quiet_branches split: option.split authority_verdict.split)
next
  case (PaymentPresented payment a obs)
  show ?thesis
  proof (cases observing)
    case True
    then show ?thesis by (auto simp: PaymentPresented answer_gated_def quiet_branches split: option.split) (simp add: quiet_def)
  qed (auto simp: PaymentPresented answer_gated_def)
qed (auto simp: answer_gated_def quiet_branches split: option.split, simp_all add: quiet_def)

lemma serve_gated_cases:
  assumes "serve_gated E S suspended q D ds inp st = (out, ds')"
  shows "quiet S st out \<or> (\<not> suspended \<and> \<not> pb_observe (rqr_publisher (di_requester inp)) \<and>
    (\<exists>payment a obs grant. out = settle_and_serve E S (q\<lparr>gq_raw := rqr_raw (di_requester inp)\<rparr>) payment a obs grant st))"
proof (cases suspended)
  case False
  obtain x s where d: "decide D ds inp = (x, s)" by fastforce
  show ?thesis
  proof (cases x)
    case (Inl e)
    then show ?thesis using assms False d by (auto simp: serve_gated_def Let_def quiet_def)
  next
    case (Inr y)
    then have "out = answer_gated E S (pb_observe (rqr_publisher (di_requester inp))) (q\<lparr>gq_raw := rqr_raw (di_requester inp)\<rparr>)
            (reads_free (classify_requester (di_requester inp) (di_path inp))) y st"
      using assms False d by (auto simp: serve_gated_def Let_def)
    then show ?thesis using answer_gated_cases False by metis
  qed
qed (use assms in \<open>auto simp: serve_gated_def Let_def quiet_proxied\<close>)

lemma held_inhand [simp]: "held_response S q (InHand g) = (Some g, [])"
  by (simp add: held_response_def)

lemma settle_stage_response:
  assumes "gt_response (settle_stage E S q payment a obs grant (InHand g) ev st) = Some y"
  shows "gr_status y = 402 \<or> gr_body y = gr_body g \<and> gr_status y = gr_status g"
proof -
  obtain out st' where s: "settle_and_attribute (ge_settle E) (ge_mint E) payment (ask_legs a) (ge_now E) (Some (gs_id S)) st = (out, st')" by fastforce
  show ?thesis
  proof (cases out)
    case (Charged receipt minted forgone)
    then show ?thesis using assms
      by (auto simp: settle_stage_def s charged_response_def stamped_def with_verdict_def set_header_def split: option.splits list.splits)
  next
    case (NotCharged stage unavailable e)
    then show ?thesis using assms
      by (auto simp: settle_stage_def s stamped_def with_verdict_def priced_offer_def split: if_splits bind_splits)
  qed (use assms in \<open>simp add: settle_stage_def s\<close>)
qed

lemma settle_and_serve_pinned: "list_all (pinned S) (fetches (gt_events (settle_and_serve E S q payment a obs grant st)))"
proof -
  from settle_and_serve_cases [of E S q payment a obs grant st] show ?thesis
  proof
    assume "\<exists>ev tail. settle_and_serve E S q payment a obs grant st =
        \<lparr>gt_response = gt_response (settle_and_serve E S q payment a obs grant st), gt_events = ev @ tail @ reported grant OutcomeUnpaid, gt_rail = st\<rparr> \<and>
        prefetch_read E S q = (fst (prefetch_read E S q), ev) \<and> (tail = [] \<or> tail = [Wrote Unservable False])"
    then obtain ev tail where t: "settle_and_serve E S q payment a obs grant st =
        \<lparr>gt_response = gt_response (settle_and_serve E S q payment a obs grant st), gt_events = ev @ tail @ reported grant OutcomeUnpaid, gt_rail = st\<rparr>"
        "prefetch_read E S q = (fst (prefetch_read E S q), ev)" "tail = [] \<or> tail = [Wrote Unservable False]" by blast
    show ?thesis by (subst t(1)) (use t(3) prefetch_lists(3) [OF t(2)] in auto)
  next
    assume "\<exists>p ev. prefetch_read E S q = (p, ev) \<and> (p = NotFetched \<or> (\<exists>g. p = InHand g)) \<and>
        settle_and_serve E S q payment a obs grant st = settle_stage E S q payment a obs grant p ev st"
    then show ?thesis using settle_stage_lists(2) by metis
  qed
qed

lemma settle_and_serve_reports:
  "\<exists>o'. charge_reports (gt_events (settle_and_serve E S q payment a obs (Some grant) st)) = [(grant, o')] \<and>
     truthful E S payment a st (gt_rail (settle_and_serve E S q payment a obs (Some grant) st)) o'"
proof -
  from settle_and_serve_cases [of E S q payment a obs "Some grant" st] show ?thesis
  proof
    assume "\<exists>ev tail. settle_and_serve E S q payment a obs (Some grant) st =
        \<lparr>gt_response = gt_response (settle_and_serve E S q payment a obs (Some grant) st), gt_events = ev @ tail @ reported (Some grant) OutcomeUnpaid, gt_rail = st\<rparr> \<and>
        prefetch_read E S q = (fst (prefetch_read E S q), ev) \<and> (tail = [] \<or> tail = [Wrote Unservable False])"
    then obtain ev tail where t: "settle_and_serve E S q payment a obs (Some grant) st =
        \<lparr>gt_response = gt_response (settle_and_serve E S q payment a obs (Some grant) st), gt_events = ev @ tail @ reported (Some grant) OutcomeUnpaid, gt_rail = st\<rparr>"
        "prefetch_read E S q = (fst (prefetch_read E S q), ev)" "tail = [] \<or> tail = [Wrote Unservable False]" by blast
    have "charge_reports (ev @ tail @ reported (Some grant) OutcomeUnpaid) = [(grant, OutcomeUnpaid)]" using t(3) prefetch_lists(2) [OF t(2)] by auto
    then have "charge_reports (gt_events (settle_and_serve E S q payment a obs (Some grant) st)) = [(grant, OutcomeUnpaid)]"
      "gt_rail (settle_and_serve E S q payment a obs (Some grant) st) = st" by (subst t(1), simp)+
    then show ?thesis by (intro exI [of _ OutcomeUnpaid]) (simp add: truthful_def Let_def)
  next
    assume "\<exists>p ev. prefetch_read E S q = (p, ev) \<and> (p = NotFetched \<or> (\<exists>g. p = InHand g)) \<and>
        settle_and_serve E S q payment a obs (Some grant) st = settle_stage E S q payment a obs (Some grant) p ev st"
    then obtain p ev where p: "prefetch_read E S q = (p, ev)"
      "settle_and_serve E S q payment a obs (Some grant) st = settle_stage E S q payment a obs (Some grant) p ev st" by blast
    show ?thesis using settle_stage_reports [OF p(1), of payment a obs "Some grant" st] unfolding p(2) by simp
  qed
qed

text \<open>Stamped answers.\<close>

lemma stamped_headers:
  "vary_names ''user-agent'' (gr_headers (stamped b r))" "map_of (gr_headers (stamped True r)) ''cache-control'' = Some ''no-store''"
  "k \<noteq> ''vary'' \<Longrightarrow> k \<noteq> ''cache-control'' \<Longrightarrow> map_of (gr_headers (stamped b r)) k = map_of (gr_headers r) k"
  "gr_status (stamped b r) = gr_status r" "gr_offer (stamped b r) = gr_offer r"
  by (simp_all add: stamped_def stamp_names_user_agent stamp_no_store) (simp add: stamp_cache_def vary_on_def Let_def)

definition unshared :: "gate_response option \<Rightarrow> bool" where
  "unshared r \<longleftrightarrow> (r = None \<or> (\<exists>b. r = Some (stamped True b)))"

lemma unshared_simps [simp]:
  "unshared None" "unshared (Some (stamped True b))" "unshared (map_option (\<lambda>r. stamped True (f r)) x)" "unshared (map_option (stamped True) z)"
  by (auto simp: unshared_def) (cases x; cases z; auto)+

lemma unshared_charged: "unshared (Option.bind r (charged_response E a obs receipt minted forgone))"
  by (cases r) (simp_all add: charged_response_def)

lemma settle_and_serve_unshared: "unshared (gt_response (settle_and_serve E S q payment a obs grant st))"
proof -
  have s: "unshared (gt_response (settle_stage E S q payment a obs grant p ev st))" for p ev
    by (auto simp: settle_stage_def unshared_charged split: tail_outcome.split prod.split)
  show ?thesis by (auto simp: settle_and_serve_def s split: prefetch.split prod.split)
qed

lemma reread_unshared: "unshared (gt_response (serve_reread E S q v st))"
  by (auto simp: serve_reread_def split: option.split prod.split)

lemma offer_unshared: "unshared (gt_response (gate_offer S observing q a obs st))"
  by (auto simp: gate_offer_def gate_proxied_def split: option.split prod.split)

lemma licence_unshared: "unshared (gt_response (serve_licence E S q a obs answer st))"
  by (auto simp: serve_licence_def refuse_licence_def Let_def reread_unshared settle_and_serve_unshared split: option.split authority_verdict.split)

lemma exit_unshared:
  assumes "content_exit_for J u \<noteq> None"
  shows "(\<exists>b. through_content_exit J u free r = Some (stamped False b) \<and> free) \<or> unshared (through_content_exit J u free r)"
  using assms by (auto simp: through_content_exit_def exit_refusal_def split: option.split)

section \<open>Properties\<close>

text \<open>C9: money moves only for content in hand. For a GET or a HEAD the gate either settles nothing and leaves the
  rail as it was, or the site charges and is not suspended and the request did, in this order: fetch the page, read
  the whole body of a 2xx answer, settle once; and what goes back is a 402 or the bytes that were in hand, under the
  status of the origin.\<close>

theorem charge_needs_content:
  assumes "serve_gated E S suspended q D ds inp st = (out, ds')" "safe_method (gq_method q)"
  shows "(settles (gt_events out) = [] \<and> gt_rail out = st) \<or>
    (\<not> suspended \<and> \<not> pb_observe (rqr_publisher (di_requester inp)) \<and>
     (\<exists>payment rest target hs reply m g bytes. gt_events out = [Fetched target hs, BodyRead, SettleTried payment] @ rest \<and> settles rest = [] \<and>
        gq_origin q = Some reply \<and> ok_range (or_status reply) \<and> materialize_body (proxied reply) = Some m \<and>
        deliver_for_agent (ge_deliver E) m (header (rqr_raw (di_requester inp)) ''accept'') (gq_url q) = Some (g, bytes) \<and>
        (gt_response out = None \<or> (\<exists>y. gt_response out = Some y \<and> (gr_status y = 402 \<or> gr_body y = Bytes bytes \<and> gr_status y = or_status reply)))))"
proof -
  let ?q = "q\<lparr>gq_raw := rqr_raw (di_requester inp)\<rparr>"
  consider "quiet S st out" | payment a obs grant where "\<not> suspended" "\<not> pb_observe (rqr_publisher (di_requester inp))"
      "out = settle_and_serve E S ?q payment a obs grant st" using serve_gated_cases [OF assms(1)] by blast
  then show ?thesis
  proof cases
    case 1
    then show ?thesis by (simp add: quiet_def)
  next
    case (2 payment a obs grant)
    from settle_and_serve_cases [of E S ?q payment a obs grant st] show ?thesis
    proof
      assume "\<exists>ev tail. settle_and_serve E S ?q payment a obs grant st =
        \<lparr>gt_response = gt_response (settle_and_serve E S ?q payment a obs grant st), gt_events = ev @ tail @ reported grant OutcomeUnpaid, gt_rail = st\<rparr> \<and>
        prefetch_read E S ?q = (fst (prefetch_read E S ?q), ev) \<and> (tail = [] \<or> tail = [Wrote Unservable False])"
      then obtain ev tail where t: "settle_and_serve E S ?q payment a obs grant st =
        \<lparr>gt_response = gt_response (settle_and_serve E S ?q payment a obs grant st), gt_events = ev @ tail @ reported grant OutcomeUnpaid, gt_rail = st\<rparr>"
        "prefetch_read E S ?q = (fst (prefetch_read E S ?q), ev)" "tail = [] \<or> tail = [Wrote Unservable False]" by blast
      have "settles (gt_events out) = [] \<and> gt_rail out = st"
        unfolding 2(3) by (subst (1 2) t(1)) (use t(3) prefetch_lists(1) [OF t(2)] in auto)
      then show ?thesis ..
    next
      assume "\<exists>p ev. prefetch_read E S ?q = (p, ev) \<and> (p = NotFetched \<or> (\<exists>g. p = InHand g)) \<and>
        settle_and_serve E S ?q payment a obs grant st = settle_stage E S ?q payment a obs grant p ev st"
      then obtain p ev where p: "prefetch_read E S ?q = (p, ev)" "p = NotFetched \<or> (\<exists>g. p = InHand g)"
        "out = settle_stage E S ?q payment a obs grant p ev st" using 2(3) by metis
      have "safe_method (gq_method ?q)" using assms(2) by simp
      from prefetch_safe [OF this p(1,2)] obtain reply m g bytes target hs where r: "p = InHand g" "gq_origin ?q = Some reply" "ok_range (or_status reply)"
        "materialize_body (proxied reply) = Some m" "deliver_for_agent (ge_deliver E) m (header (gq_raw ?q) ''accept'') (gq_url ?q) = Some (g, bytes)"
        "ev = [Fetched target hs, BodyRead]" by blast
      obtain o1 s1 where s: "settle_and_attribute (ge_settle E) (ge_mint E) payment (ask_legs a) (ge_now E) (Some (gs_id S)) st = (o1, s1)" by fastforce
      obtain rest where e: "gt_events out = [Fetched target hs, BodyRead, SettleTried payment] @ rest"
        unfolding p(3) r(1,6) settle_stage_events(2) [OF s held_inhand] by simp
      have "settles rest = []" using settle_stage_lists(1) [OF p(1), of payment a obs grant st] e unfolding p(3) [symmetric] by simp
      moreover have "gr_body g = Bytes bytes \<and> gr_status g = or_status reply"
        using deliver_status [of "ge_deliver E" "fst m" "snd m"] r(5) materialize_facts [of "proxied reply" "fst m" "snd m"] r(4) by (simp add: proxied_def)
      moreover have "gt_response out = None \<or> (\<exists>y. gt_response out = Some y \<and> (gr_status y = 402 \<or> gr_body y = gr_body g \<and> gr_status y = gr_status g))"
        using settle_stage_response [of E S ?q payment a obs grant g ev st] unfolding p(3) r(1) by (cases "gt_response (settle_stage E S ?q payment a obs grant (InHand g) ev st)") auto
      ultimately show ?thesis using 2(1,2) e r by (auto simp del: split_paired_Ex)
    qed
  qed
qed


text \<open>C10: a licence authority hears about every charge it granted, once, and hears the truth. When it answers with a
  charge, the gate reports exactly one outcome for the grant: unpaid only when the rail is as it was, settled only
  when the payment was taken, and in doubt only when the settle was tried and refused after the broadcast, or crashed.\<close>

theorem charge_reported_once:
  "\<exists>o'. charge_reports (gt_events (serve_licence E S q a obs (Some (ChargeOn payment grant)) st)) = [(grant, o')] \<and>
     truthful E S payment a st (gt_rail (serve_licence E S q a obs (Some (ChargeOn payment grant)) st)) o'"
  unfolding serve_licence_def by (simp add: settle_and_serve_reports)


definition passes_through :: "decision \<Rightarrow> bool" where
  "passes_through d \<longleftrightarrow> (case d of PassNonArticle \<Rightarrow> True | PassUnknown _ \<Rightarrow> True | _ \<Rightarrow> False)"

definition free_read :: "decision \<Rightarrow> bool" where
  "free_read d \<longleftrightarrow> (case d of FreeRead _ _ _ \<Rightarrow> True | _ \<Rightarrow> False)"

text \<open>C23: no cache gives one caller the answer of another. Every answer on an article page, and every answer of a
  content exit, varies on the user agent, and forbids storing unless its receiver reads free.\<close>

theorem answers_not_shared:
  assumes "gt_response (answer_gated E S observing q free d st) = Some y"
    "\<not> passes_through d \<or> content_exit_for (ge_json E) (gq_parts q) \<noteq> None"
  shows "vary_names ''user-agent'' (gr_headers y) \<and>
    (map_of (gr_headers y) ''cache-control'' = Some ''no-store'' \<or> free_read d \<or> (passes_through d \<and> free))"
proof -
  let ?r = "gt_response (answer_gated E S observing q free d st)"
  have p: "(\<exists>b. gt_response (gate_passthrough E S q free w st) = Some (stamped False b) \<and> free) \<or> unshared (gt_response (gate_passthrough E S q free w st))"
    if "content_exit_for (ge_json E) (gq_parts q) \<noteq> None" for w
    using exit_unshared [OF that, of free]
    by (cases "proxy_to_origin S (gq_raw q) (gq_origin q)"; cases "fst (proxy_to_origin S (gq_raw q) (gq_origin q))") (auto simp: gate_passthrough_def)
  have "unshared ?r \<or> (\<exists>b. ?r = Some (stamped False b)) \<and> (free_read d \<or> (passes_through d \<and> free))"
  proof (cases d)
    case PassNonArticle
    then show ?thesis using p [of "[]"] assms(2) by (auto simp: answer_gated_def passes_through_def)
  next
    case (PassUnknown obs)
    then show ?thesis using p assms(2) by (auto simp: answer_gated_def passes_through_def split: option.split)
  next
    case (FreeRead v because obs)
    then show ?thesis
      by (cases "proxy_to_origin S (gq_raw q) (gq_origin q)"; cases "fst (proxy_to_origin S (gq_raw q) (gq_origin q))")
        (auto simp: answer_gated_def gate_proxied_def free_read_def)
  qed (auto simp: answer_gated_def reread_unshared offer_unshared licence_unshared settle_and_serve_unshared gate_proxied_def split: option.split prod.split)
  then show ?thesis using assms(1) stamped_headers(1,2) by (auto simp: unshared_def)
qed

text \<open>Whether a decision brings money with it.\<close>

definition presents :: "decision \<Rightarrow> bool" where
  "presents d \<longleftrightarrow> (case d of PaymentPresented _ _ _ \<Rightarrow> True | LicencePresented _ _ _ _ \<Rightarrow> True | _ \<Rightarrow> False)"


section \<open>Witnesses\<close>

definition sample_gate :: gate_site where
  "sample_gate = \<lparr>gs_urls = (\<lambda>u. Some \<lparr>up_protocol = ''https:'', up_hostname = ''o'', up_host = ''o''\<rparr>), gs_resolve = (\<lambda>p o'. Some (o' @ p)),
     gs_origin = ''https://o'', gs_secret = Some ''s'', gs_id = ''p'', gs_signed = None, gs_proto = ''https'', gs_caller_ip = ''192.0.2.1''\<rparr>"

definition sample_gate_env :: "string list gate_env" where
  "sample_gate_env = \<lparr>ge_settle = sample_settle_env, ge_mint = (\<lambda>p. None), ge_deliver = \<lparr>dv_extract = (\<lambda>h u. None), dv_encode = (\<lambda>j. [])\<rparr>,
     ge_json = sample_json, ge_now = 0\<rparr>"

definition sample_read :: gate_request where
  "sample_read = \<lparr>gq_raw = mq_raw (sample_agent ''sig''), gq_method = ''GET'', gq_url = ''https://a.b/blog/post'',
     gq_parts = \<lparr>xu_pathname = ''/blog/post'', xu_params = []\<rparr>, gq_origin = Some \<lparr>or_status = 200, or_headers = [], or_reads = Some [Chunk ''text'']\<rparr>,
     gq_authority = None\<rparr>"

lemma sample_in_hand: "\<exists>g ev. prefetch_read sample_gate_env sample_gate sample_read = (InHand g, ev)"
proof -
  have m: "materialize_body (proxied \<lparr>or_status = 200, or_headers = [], or_reads = Some [Chunk ''text'']\<rparr>) =
      Some (\<lparr>or_status = 200, or_headers = [], or_reads = Some [Chunk ''text'']\<rparr>, ''text'')"
    by (simp add: materialize_body_def proxied_def without_headers_def null_body_status_def max_prefetch_bytes_def)
  have p: "proxy_to_origin sample_gate (gq_raw sample_read) (gq_origin sample_read) =
      (Some (proxied \<lparr>or_status = 200, or_headers = [], or_reads = Some [Chunk ''text'']\<rparr>),
       [Fetched ''https://o/blog/post'' (pull_headers sample_gate \<lparr>up_protocol = ''https:'', up_hostname = ''o'', up_host = ''o''\<rparr> (gq_raw sample_read))])"
    by (simp add: proxy_to_origin_def sample_gate_def sample_read_def sample_agent_def same_origin_def origin_of_def)
  have a: "header (gq_raw sample_read) ''accept'' = None" by (simp add: sample_read_def sample_agent_def header_def)
  show ?thesis
    by (simp add: prefetch_read_def p m a) (simp add: sample_read_def safe_method_def ok_range_def proxied_def deliver_for_agent_def prefers_markdown_def
        with_body_def response_with_def null_body_status_def without_headers_def)
qed

theorem charge_needs_content_witness:
  "\<exists>out ds'. serve_gated sample_gate_env sample_gate False sample_read sample_env sample_state sample_paying sample_rail = (out, ds') \<and>
     settles (gt_events out) = [''sig''] \<and> (\<exists>target hs rest. gt_events out = [Fetched target hs, BodyRead, SettleTried ''sig''] @ rest)"
proof -
  obtain a obs st' where d: "decide sample_env sample_state sample_paying = (Inr (PaymentPresented ''sig'' a obs), st')"
    using sample_presents by blast
  have r: "rqr_raw (di_requester sample_paying) = mq_raw (sample_agent ''sig'')" "pb_observe (rqr_publisher (di_requester sample_paying)) = False"
    by (simp_all add: mw_input_def sample_site_def observing_site_def json_field_def)
  have q: "sample_read\<lparr>gq_raw := mq_raw (sample_agent ''sig'')\<rparr> = sample_read" by (simp add: sample_read_def)
  define out where "out = settle_and_serve sample_gate_env sample_gate sample_read ''sig'' a obs None sample_rail"
  have s: "serve_gated sample_gate_env sample_gate False sample_read sample_env sample_state sample_paying sample_rail = (out, st')"
    by (simp add: serve_gated_def Let_def d r q answer_gated_def out_def)
  obtain g ev where h: "prefetch_read sample_gate_env sample_gate sample_read = (InHand g, ev)" using sample_in_hand by blast
  have "out = settle_stage sample_gate_env sample_gate sample_read ''sig'' a obs None (InHand g) ev sample_rail"
    by (simp add: out_def settle_and_serve_def h)
  then have l: "settles (gt_events out) = [''sig'']" using settle_stage_lists(1) [OF h] by simp
  have "safe_method (gq_method sample_read)" by (simp add: sample_read_def safe_method_def)
  from charge_needs_content [OF s this] l obtain payment rest target hs where e: "gt_events out = [Fetched target hs, BodyRead, SettleTried payment] @ rest" by auto
  then have "payment = ''sig''" using l by simp
  with e s l show ?thesis by blast
qed

theorem answers_not_shared_witness:
  "\<exists>y. gt_response (answer_gated sample_gate_env sample_gate False sample_read False (Blocked ''GPTBot'' (bare_obs ''s'' ''r'')) sample_rail) = Some y \<and>
     vary_names ''user-agent'' (gr_headers y) \<and> map_of (gr_headers y) ''cache-control'' = Some ''no-store''"
proof -
  obtain y where y: "gt_response (answer_gated sample_gate_env sample_gate False sample_read False (Blocked ''GPTBot'' (bare_obs ''s'' ''r'')) sample_rail) = Some y"
    by (simp add: answer_gated_def)
  have "\<not> passes_through (Blocked ''GPTBot'' (bare_obs ''s'' ''r'')) \<or> content_exit_for (ge_json sample_gate_env) (gq_parts sample_read) \<noteq> None"
    by (simp add: passes_through_def)
  from answers_not_shared [OF y this] y show ?thesis by (simp add: free_read_def passes_through_def)
qed


end
