(* ===== verification/Outbound.thy ===== *)
theory Outbound
  imports IpRange
begin

text \<open>
  Requests to an address somebody else chose, \<open>packages/sdk/src/crawl/net.ts\<close>: the table of blocked
  ranges, the lookup that checks what a name resolves to at the moment of connecting, and
  \<open>guardedRequest\<close> with its cap and its deadline. Addresses are read as \<open>node:net\<close> reads them; the URL
  parser, the answers of the name service and what comes back over the wire are parameters. A body is
  a string of bytes.
\<close>

section \<open>Addresses and the block list\<close>

text \<open>\<open>isIPv4\<close> and \<open>isIPv6\<close>: the grammar of \<open>IpRange\<close> without leading zeros in a dotted part.\<close>

definition plain_octet :: "string \<Rightarrow> bool" where
  "plain_octet p \<longleftrightarrow> length p = 1 \<or> \<not> prefix ''0'' p"

definition net_v4 :: "string \<Rightarrow> int option" where
  "net_v4 s = (if list_all plain_octet (js_split CHR ''.'' s) then parse_v4 s else None)"

definition net_v6 :: "string \<Rightarrow> int option" where
  "net_v6 s = (if CHR '':'' \<in> set s \<and> (CHR ''.'' \<in> set s \<longrightarrow> net_v4 (after_last_colon s) \<noteq> None) then parse_v6 s else None)"

definition net_address :: "string \<Rightarrow> parsed_ip option" where
  "net_address s = (case net_v4 s of Some v \<Rightarrow> Some \<lparr>ip_family = IPv4, ip_value = v\<rparr>
     | None \<Rightarrow> map_option (\<lambda>v. \<lparr>ip_family = IPv6, ip_value = v\<rparr>) (net_v6 s))"

definition no_zone :: "string \<Rightarrow> string" where
  "no_zone s = takeWhile (\<lambda>c. c \<noteq> CHR ''%'') s"

definition literal_of :: "string \<Rightarrow> string" where
  "literal_of host = no_zone (unbracket host)"

definition blocked_ranges :: "string list" where
  "blocked_ranges =
    [''0.0.0.0/8'', ''10.0.0.0/8'', ''100.64.0.0/10'', ''127.0.0.0/8'', ''169.254.0.0/16'', ''172.16.0.0/12'',
     ''192.0.0.0/24'', ''192.0.2.0/24'', ''192.168.0.0/16'', ''198.18.0.0/15'', ''198.51.100.0/24'',
     ''203.0.113.0/24'', ''224.0.0.0/4'', ''240.0.0.0/4'',
     ''::/96'', ''64:ff9b::/96'', ''64:ff9b:1::/48'', ''100::/64'', ''2001::/32'', ''2001:db8::/32'', ''2002::/16'',
     ''fc00::/7'', ''fe80::/10'', ''ff00::/8'']"

text \<open>\<open>list.addSubnet(addr, Number(bits), family)\<close>; it throws when \<open>addr\<close> is not of that family.\<close>

definition add_subnet :: "string \<Rightarrow> cidr option" where
  "add_subnet r = (case js_split CHR ''/'' r of
     addr # bits # _ \<Rightarrow> (case net_address addr of
         Some ip \<Rightarrow> if ip_family ip = (if CHR '':'' \<in> set addr then IPv6 else IPv4) then Some (cidr_of ip (dec_value bits)) else None
       | None \<Rightarrow> None)
   | _ \<Rightarrow> None)"

definition blocked_rules :: "cidr option list" where
  "blocked_rules = map add_subnet blocked_ranges"

text \<open>\<open>BlockList.check\<close>: addresses are compared, not spellings; an address of the other family is compared
  through the IPv4-mapped form \<open>::ffff:a.b.c.d\<close>.\<close>

definition rule_covers :: "parsed_ip \<Rightarrow> cidr \<Rightarrow> bool" where
  "rule_covers ip c = (let inside = (\<lambda>v. cidr_start c \<le> v \<and> v \<le> cidr_end c) in
     if ip_family ip = cidr_family c then inside (ip_value ip)
     else if ip_family ip = IPv4 then inside (0xffff00000000 + ip_value ip)
     else is_mapped ip \<and> inside (ip_value (unmap ip)))"

definition blocklist_check :: "cidr option list \<Rightarrow> parsed_ip \<Rightarrow> bool" where
  "blocklist_check rules ip = list_ex (\<lambda>r. case r of None \<Rightarrow> False | Some c \<Rightarrow> rule_covers ip c) rules"

definition is_blocked_target :: "string \<Rightarrow> bool" where
  "is_blocked_target host = (case net_address (literal_of host) of None \<Rightarrow> False | Some ip \<Rightarrow> blocklist_check blocked_rules ip)"

definition is_ip_literal :: "string \<Rightarrow> bool" where
  "is_ip_literal host \<longleftrightarrow> net_address (literal_of host) \<noteq> None"

definition loopback_rules :: "cidr option list" where
  "loopback_rules = [add_subnet ''127.0.0.0/8'', add_subnet ''::1/128'']"

definition is_loopback_hostname :: "string \<Rightarrow> bool" where
  "is_loopback_hostname hostname = (let h = literal_of (js_lower hostname) in
     h = ''localhost'' \<or> (case net_address h of None \<Rightarrow> False | Some ip \<Rightarrow> blocklist_check loopback_rules ip))"

section \<open>The guarded lookup\<close>

text \<open>\<open>guardedLookup\<close>: what the name service answers (an error or addresses), checked before the socket
  sees it. The first offending address is the one the message names.\<close>

definition blocked_message :: "string \<Rightarrow> string" where
  "blocked_message a = ''blocked target (private/loopback): '' @ a"

definition guarded_lookup :: "bool \<Rightarrow> bool \<Rightarrow> string + string list \<Rightarrow> string + string list" where
  "guarded_lookup allowPrivate wantAll answer = (case answer of Inl err \<Rightarrow> Inl err
     | Inr addresses \<Rightarrow>
         (case find (\<lambda>a. \<not> allowPrivate \<and> is_blocked_target a) addresses of
            Some a \<Rightarrow> Inl (blocked_message a)
          | None \<Rightarrow> if wantAll then Inr addresses
              else (case addresses of [] \<Rightarrow> Inl ''dns resolution returned no address'' | a # _ \<Rightarrow> Inr [a])))"

section \<open>The request\<close>

datatype guarded_refusal = BadUrl | NotHttps | Blocked | TooLarge | Timeout | Unreachable

datatype guarded_response =
    GuardedOk int string "(string \<times> string) list"
  | GuardedNo guarded_refusal string

record request_options =
  ro_method :: "string option"
  ro_headers :: "(string \<times> string) list"
  ro_body :: "string option"
  ro_timeout :: "nat option"
  ro_max :: "nat option"
  ro_truncate :: bool
  ro_private :: bool

record url_parts =
  u_protocol :: string
  u_user :: string
  u_pass :: string
  u_hostname :: string

text \<open>What the socket reports, in order. A header without a value is \<open>None\<close>, one sent twice is a list.\<close>

datatype wire_event = Data string | WireEnd | ResponseError string | RequestError string | Deadline

record wire_reply =
  wr_status :: "int option"
  wr_headers :: "(string \<times> string list option) list"
  wr_events :: "wire_event list"

text \<open>The platform and the network: \<open>new URL\<close>, the answer to the \<open>n\<close>-th lookup of the run, the number of
  addresses the socket tries, whether it asks for all of them, what comes back, and UTF-8 decoding.\<close>

type_synonym outgoing = "string \<times> (string \<times> string) list \<times> string option"

record outside =
  o_url :: "string \<Rightarrow> url_parts option"
  o_dns :: "nat \<Rightarrow> string \<Rightarrow> string + string list"
  o_all :: bool
  o_tries :: "string list \<Rightarrow> nat"
  o_reply :: "string list \<Rightarrow> outgoing \<Rightarrow> wire_reply"
  o_utf8 :: "string \<Rightarrow> string"

text \<open>The handlers of one exchange. \<open>done\<close> keeps the first answer.\<close>

record exchange =
  ex_chunks :: "string list"
  ex_size :: nat
  ex_answer :: "guarded_response option"

definition settle_once :: "guarded_response \<Rightarrow> exchange \<Rightarrow> exchange" where
  "settle_once r x = (case ex_answer x of None \<Rightarrow> x\<lparr>ex_answer := Some r\<rparr> | Some _ \<Rightarrow> x)"

definition reply_headers :: "(string \<times> string list option) list \<Rightarrow> (string \<times> string) list" where
  "reply_headers hs = foldl (\<lambda>m (k, v). case v of None \<Rightarrow> m | Some vs \<Rightarrow> AList.update (js_lower k) (js_join '', '' vs) m) [] hs"

definition unreachable_or_blocked :: "string \<Rightarrow> guarded_refusal" where
  "unreachable_or_blocked msg = (if prefix ''blocked target'' msg then Blocked else Unreachable)"

definition digits_of :: "nat \<Rightarrow> string" where
  "digits_of n = nat_string 10 n"

fun on_wire :: "(string \<Rightarrow> string) \<Rightarrow> nat \<Rightarrow> bool \<Rightarrow> nat \<Rightarrow> wire_reply \<Rightarrow> wire_event \<Rightarrow> exchange \<Rightarrow> exchange" where
  "on_wire utf8 cap trunc timeoutMs w (Data chunk) x =
     (if ex_size x \<ge> cap then x
      else (let x = x\<lparr>ex_size := ex_size x + length chunk\<rparr> in
        if ex_size x > cap \<and> \<not> trunc
        then settle_once (GuardedNo TooLarge (''more than '' @ digits_of cap @ '' bytes'')) x
        else x\<lparr>ex_chunks := ex_chunks x @ [chunk]\<rparr>))"
| "on_wire utf8 cap trunc timeoutMs w WireEnd x =
     settle_once (GuardedOk (case wr_status w of None \<Rightarrow> 0 | Some s \<Rightarrow> s) (utf8 (take cap (concat (ex_chunks x)))) (reply_headers (wr_headers w))) x"
| "on_wire utf8 cap trunc timeoutMs w (ResponseError msg) x = settle_once (GuardedNo Unreachable msg) x"
| "on_wire utf8 cap trunc timeoutMs w (RequestError msg) x = settle_once (GuardedNo (unreachable_or_blocked msg) msg) x"
| "on_wire utf8 cap trunc timeoutMs w Deadline x =
     settle_once (GuardedNo Timeout (''timeout after '' @ digits_of timeoutMs @ ''ms'')) x"

definition run_exchange :: "(string \<Rightarrow> string) \<Rightarrow> nat \<Rightarrow> bool \<Rightarrow> nat \<Rightarrow> wire_reply \<Rightarrow> exchange" where
  "run_exchange utf8 cap trunc timeoutMs w =
     foldl (\<lambda>x e. on_wire utf8 cap trunc timeoutMs w e x) \<lparr>ex_chunks = [], ex_size = 0, ex_answer = None\<rparr> (wr_events w @ [Deadline])"

text \<open>\<open>u.hostname.replace(/^\[|\]$/g, "")\<close>, and the host the transport dials.\<close>

definition bare_host :: "string \<Rightarrow> string" where
  "bare_host h = (let a = (if prefix ''['' h then tl h else h) in if suffix '']'' a then butlast a else a)"

definition dial_host :: "string \<Rightarrow> string" where
  "dial_host h = (if prefix ''['' h then butlast (tl h) else h)"

text \<open>\<open>http(s).request\<close>: an address is dialled as it stands, a name goes through \<open>lookup\<close> and the socket
  tries the addresses it gets. The result is the answer, the addresses dialled, and the lookups made.\<close>

definition transport :: "outside \<Rightarrow> nat \<Rightarrow> bool \<Rightarrow> string \<Rightarrow> (string + string list) \<times> nat" where
  "transport w n allowPrivate host =
     (if is_ip_literal host then (Inr [host], n)
      else (map_sum id (\<lambda>xs. take (o_tries w xs) xs) (guarded_lookup allowPrivate (o_all w) (o_dns w n host)), Suc n))"

definition the_answer :: "exchange \<Rightarrow> guarded_response" where
  "the_answer x = (case ex_answer x of Some r \<Rightarrow> r | None \<Rightarrow> GuardedNo Timeout [])"

definition outgoing_of :: "request_options \<Rightarrow> outgoing" where
  "outgoing_of opts = (case ro_method opts of None \<Rightarrow> ''GET'' | Some m \<Rightarrow> m, ro_headers opts, ro_body opts)"

definition guarded_request :: "outside \<Rightarrow> nat \<Rightarrow> request_options \<Rightarrow> string \<Rightarrow> guarded_response \<times> string list \<times> nat" where
  "guarded_request w n opts rawUrl =
     (let cap = (case ro_max opts of None \<Rightarrow> 64 * 1024 | Some k \<Rightarrow> k);
          timeoutMs = (case ro_timeout opts of None \<Rightarrow> 10000 | Some t \<Rightarrow> t) in
      case o_url w rawUrl of
        None \<Rightarrow> (GuardedNo BadUrl ''not a URL'', [], n)
      | Some u \<Rightarrow>
          if u_user u \<noteq> [] \<or> u_pass u \<noteq> [] then (GuardedNo BadUrl ''credentials in a URL are refused'', [], n)
          else if u_protocol u \<noteq> ''https:'' \<and> \<not> (u_protocol u = ''http:'' \<and> ro_private opts)
          then (GuardedNo NotHttps (u_protocol u @ '' is refused, https only''), [], n)
          else (let host = bare_host (u_hostname u) in
            if \<not> ro_private opts \<and> is_ip_literal host \<and> is_blocked_target host
            then (GuardedNo Blocked (blocked_message host), [], n)
            else (case transport w n (ro_private opts) (dial_host (u_hostname u)) of
                (Inl msg, n') \<Rightarrow> (GuardedNo (unreachable_or_blocked msg) msg, [], n')
              | (Inr dialled, n') \<Rightarrow>
                  (the_answer (run_exchange (o_utf8 w) cap (ro_truncate opts) timeoutMs (o_reply w dialled (outgoing_of opts))), dialled, n'))))"

text \<open>\<open>guardedFetch\<close>: the request behind \<open>fetch\<close>. It throws on a refusal and on another method, and so does
  \<open>new Response\<close> on a status outside 200 to 599 and on a body with the status 205.\<close>

datatype fetched = FetchThrew | Fetched int "string option" "(string \<times> string) list"

fun guarded_fetch :: "outside \<Rightarrow> nat \<Rightarrow> request_options \<Rightarrow> outgoing \<Rightarrow> string \<Rightarrow> fetched \<times> string list \<times> nat" where
  "guarded_fetch w n defaults (method, headers, body) url =
     (if method \<noteq> ''GET'' \<and> method \<noteq> ''POST'' then (FetchThrew, [], n)
      else (case guarded_request w n
          \<lparr>ro_method = Some method, ro_headers = headers, ro_body = (if method = ''POST'' then body else None),
           ro_timeout = Some (case ro_timeout defaults of None \<Rightarrow> 10000 | Some t \<Rightarrow> t),
           ro_max = Some (case ro_max defaults of None \<Rightarrow> 1024 * 1024 | Some k \<Rightarrow> k),
           ro_truncate = False, ro_private = ro_private defaults\<rparr> url of
        (GuardedNo refusal detail, dialled, n') \<Rightarrow> (FetchThrew, dialled, n')
      | (GuardedOk status text hs, dialled, n') \<Rightarrow>
          (if status < 200 \<or> status > 599 \<or> status = 205 then FetchThrew
           else Fetched status (if status = 204 \<or> status = 304 then None else Some text) (filter (\<lambda>(k, v). k \<noteq> ''set-cookie'') hs), dialled, n')))"

section \<open>What the block list covers\<close>

definition blocked_blocks :: "(ip_fam \<times> int \<times> nat) list" where
  "blocked_blocks =
    [(IPv4, 0, 8), (IPv4, 0x0a000000, 8), (IPv4, 0x64400000, 10), (IPv4, 0x7f000000, 8), (IPv4, 0xa9fe0000, 16),
     (IPv4, 0xac100000, 12), (IPv4, 0xc0000000, 24), (IPv4, 0xc0000200, 24), (IPv4, 0xc0a80000, 16),
     (IPv4, 0xc6120000, 15), (IPv4, 0xc6336400, 24), (IPv4, 0xcb007100, 24), (IPv4, 0xe0000000, 4), (IPv4, 0xf0000000, 4),
     (IPv6, 0, 96), (IPv6, 0x64ff9b * 2 ^ 96, 96), (IPv6, 0x64ff9b0001 * 2 ^ 80, 48), (IPv6, 0x100 * 2 ^ 112, 64),
     (IPv6, 0x20010000 * 2 ^ 96, 32), (IPv6, 0x20010db8 * 2 ^ 96, 32), (IPv6, 0x2002 * 2 ^ 112, 16),
     (IPv6, 0xfc * 2 ^ 120, 7), (IPv6, 0xfe8 * 2 ^ 116, 10), (IPv6, 0xff * 2 ^ 120, 8)]"

lemma v6_texts_again: "expand_groups ''64:ff9b:1::'' = Some ([''64'', ''ff9b'', ''1''] @ replicate 5 ''0'')"
  "expand_groups ''2001::'' = Some (''2001'' # replicate 7 ''0'')"
  "expand_groups ''2002::'' = Some (''2002'' # replicate 7 ''0'')"
  by code_simp+

lemma hex_2002: "hex_group_re ''2002''" "hex_value ''2002'' = 0x2002"
  by (simp_all add: hex_group_re_def hex_value_def hex_digit_value_def is_hex_char_def is_digit_def
      digit_value_def js_lower_char_def less_eq_char_def)

lemma replicate_five: "replicate 5 x = [x, x, x, x, x]"
  by (simp add: eval_nat_numeral)

lemma blocked_v6:
  "parse_raw ''64:ff9b:1::'' = Some \<lparr>ip_family = IPv6, ip_value = 0x64ff9b0001 * 2 ^ 80\<rparr>"
  "parse_raw ''2001::'' = Some \<lparr>ip_family = IPv6, ip_value = 0x20010000 * 2 ^ 96\<rparr>"
  "parse_raw ''2002::'' = Some \<lparr>ip_family = IPv6, ip_value = 0x2002 * 2 ^ 112\<rparr>"
    apply (rule parse_raw_v6 [OF _ _ v6_texts_again(1)]; simp add: v6_groups_code hex_words replicate_zeros replicate_five v6_chars)
   apply (rule parse_raw_v6 [OF _ _ v6_texts_again(2)]; simp add: v6_groups_code hex_words replicate_zeros v6_chars)
  apply (rule parse_raw_v6 [OF _ _ v6_texts_again(3)]; simp add: v6_groups_code hex_words hex_2002 replicate_zeros v6_chars)
  done

text \<open>An IPv6 text without dots and zone, and a dotted IPv4 text, as rules of the list.\<close>

lemma net_address_v6:
  assumes "parse_raw s = Some \<lparr>ip_family = IPv6, ip_value = v\<rparr>" "CHR '':'' \<in> set s" "list_all (\<lambda>c. is_hex_char c \<or> c = CHR '':'') s"
  shows "net_address s = Some \<lparr>ip_family = IPv6, ip_value = v\<rparr>"
proof -
  have c: "\<forall>c \<in> set s. is_hex_char c \<or> c = CHR '':''" using assms(3) by (simp add: list_all_iff)
  have "\<not> js_is_space CHR '':''" by (simp add: js_is_space_def)
  then have t: "js_trim s = s" using c digit_not_sep(4) by (intro js_trim_plain) (auto simp: list_all_iff)
  have n: "CHR ''['' \<notin> set s" "CHR ''.'' \<notin> set s" using c digit_not_sep(2) by fastforce+
  then have "\<not> prefix ''['' s" unfolding prefix_def by (metis append_Cons list.set_intros(1))
  then have "parse_v6 s = Some v" using assms(1,2) t by (auto simp: parse_raw_def unbracket_def split: if_splits)
  moreover have "net_v4 s = None" using n(2) by (simp add: net_v4_def parse_v4_def js_split_notin)
  ultimately show ?thesis using assms(2) n(2) by (simp add: net_address_def net_v6_def)
qed

lemma add_subnet_v6:
  assumes "net_address a = Some \<lparr>ip_family = IPv6, ip_value = v\<rparr>" "CHR ''/'' \<notin> set a" "CHR '':'' \<in> set a" "CHR ''/'' \<notin> set l"
    "dec_value l = n"
  shows "add_subnet (a @ CHR ''/'' # l) = Some (block IPv6 v n)"
  using assms by (simp add: add_subnet_def js_split_append js_split_notin block_def)

lemma blocked_v4_rules:
  "add_subnet ''0.0.0.0/8'' = Some (block IPv4 0 8)"
  "add_subnet ''10.0.0.0/8'' = Some (block IPv4 0x0a000000 8)"
  "add_subnet ''100.64.0.0/10'' = Some (block IPv4 0x64400000 10)"
  "add_subnet ''127.0.0.0/8'' = Some (block IPv4 0x7f000000 8)"
  "add_subnet ''169.254.0.0/16'' = Some (block IPv4 0xa9fe0000 16)"
  "add_subnet ''172.16.0.0/12'' = Some (block IPv4 0xac100000 12)"
  "add_subnet ''192.0.0.0/24'' = Some (block IPv4 0xc0000000 24)"
  "add_subnet ''192.0.2.0/24'' = Some (block IPv4 0xc0000200 24)"
  "add_subnet ''192.168.0.0/16'' = Some (block IPv4 0xc0a80000 16)"
  "add_subnet ''198.18.0.0/15'' = Some (block IPv4 0xc6120000 15)"
  "add_subnet ''198.51.100.0/24'' = Some (block IPv4 0xc6336400 24)"
  "add_subnet ''203.0.113.0/24'' = Some (block IPv4 0xcb007100 24)"
  "add_subnet ''224.0.0.0/4'' = Some (block IPv4 0xe0000000 4)"
  "add_subnet ''240.0.0.0/4'' = Some (block IPv4 0xf0000000 4)"
  by code_simp+

lemmas blocked_v6_texts = reserved_v6_1 reserved_v6_3 blocked_v6(1) reserved_v6_4 blocked_v6(2) reserved_v6_5 blocked_v6(3)
  reserved_v6_6 reserved_v6_7 reserved_v6_8

lemma blocked_lengths: "dec_value ''96'' = 96" "dec_value ''48'' = 48" "dec_value ''64'' = 64" "dec_value ''32'' = 32"
  "dec_value ''16'' = 16" "dec_value ''7'' = 7" "dec_value ''10'' = 10" "dec_value ''8'' = 8"
  by (simp_all add: dec_value_def digit_value_def)

lemma blocked_v6_rules:
  "add_subnet ''::/96'' = Some (block IPv6 (0) 96)"
  "add_subnet ''64:ff9b::/96'' = Some (block IPv6 (0x64ff9b * 2 ^ 96) 96)"
  "add_subnet ''64:ff9b:1::/48'' = Some (block IPv6 (0x64ff9b0001 * 2 ^ 80) 48)"
  "add_subnet ''100::/64'' = Some (block IPv6 (0x100 * 2 ^ 112) 64)"
  "add_subnet ''2001::/32'' = Some (block IPv6 (0x20010000 * 2 ^ 96) 32)"
  "add_subnet ''2001:db8::/32'' = Some (block IPv6 (0x20010db8 * 2 ^ 96) 32)"
  "add_subnet ''2002::/16'' = Some (block IPv6 (0x2002 * 2 ^ 112) 16)"
  "add_subnet ''fc00::/7'' = Some (block IPv6 (0xfc * 2 ^ 120) 7)"
  "add_subnet ''fe80::/10'' = Some (block IPv6 (0xfe8 * 2 ^ 116) 10)"
  "add_subnet ''ff00::/8'' = Some (block IPv6 (0xff * 2 ^ 120) 8)"
  using add_subnet_v6 [OF net_address_v6 [OF blocked_v6_texts(1)] _ _ _ blocked_lengths(1)]
    add_subnet_v6 [OF net_address_v6 [OF blocked_v6_texts(2)] _ _ _ blocked_lengths(1)]
    add_subnet_v6 [OF net_address_v6 [OF blocked_v6_texts(3)] _ _ _ blocked_lengths(2)]
    add_subnet_v6 [OF net_address_v6 [OF blocked_v6_texts(4)] _ _ _ blocked_lengths(3)]
    add_subnet_v6 [OF net_address_v6 [OF blocked_v6_texts(5)] _ _ _ blocked_lengths(4)]
    add_subnet_v6 [OF net_address_v6 [OF blocked_v6_texts(6)] _ _ _ blocked_lengths(4)]
    add_subnet_v6 [OF net_address_v6 [OF blocked_v6_texts(7)] _ _ _ blocked_lengths(5)]
    add_subnet_v6 [OF net_address_v6 [OF blocked_v6_texts(8)] _ _ _ blocked_lengths(6)]
    add_subnet_v6 [OF net_address_v6 [OF blocked_v6_texts(9)] _ _ _ blocked_lengths(7)]
    add_subnet_v6 [OF net_address_v6 [OF blocked_v6_texts(10)] _ _ _ blocked_lengths(8)]
  by (simp_all add: v6_chars)

lemma blocked_rules_blocks: "blocked_rules = map (\<lambda>(f, v, n). Some (block f v n)) blocked_blocks"
  using blocked_v6_rules by (simp add: blocked_rules_def blocked_ranges_def blocked_blocks_def blocked_v4_rules)

text \<open>The address a rule is compared with: an IPv4-mapped address counts as the IPv4 address inside it.\<close>

definition canonical :: "parsed_ip \<Rightarrow> parsed_ip" where
  "canonical ip = (if is_mapped ip then unmap ip else ip)"

lemma parse_v6_range: "parse_v6 s = Some v \<Longrightarrow> 0 \<le> v \<and> v < 2 ^ 128"
  using v6_value_range [of _ _ v] parse_v4_range by (auto simp: parse_v6_def Let_def split: if_splits option.splits)

lemma net_address_ok: "net_address s = Some ip \<Longrightarrow> ip_ok ip"
  using parse_v4_range [of s] parse_v6_range [of s]
  by (auto simp: net_address_def net_v4_def net_v6_def ip_ok_def split: option.splits if_splits)

lemma blocked_blocks_facts:
  assumes "(f, v, n) \<in> set blocked_blocks"
  shows "ip_ok \<lparr>ip_family = f, ip_value = v\<rparr>" "n \<le> ip_bits f"
    "f = IPv6 \<Longrightarrow> n \<le> 96 \<and> drop_bit (96 - n) 0xffff \<noteq> drop_bit (128 - n) v"
proof -
  have "list_all (\<lambda>(f, v, n). ip_ok \<lparr>ip_family = f, ip_value = v\<rparr> \<and> n \<le> ip_bits f \<and>
      (f = IPv6 \<longrightarrow> n \<le> 96 \<and> drop_bit (96 - n) 0xffff \<noteq> drop_bit (128 - n) v)) blocked_blocks"
    by (simp add: blocked_blocks_def ip_ok_def)
  with assms show "ip_ok \<lparr>ip_family = f, ip_value = v\<rparr>" "n \<le> ip_bits f"
    "f = IPv6 \<Longrightarrow> n \<le> 96 \<and> drop_bit (96 - n) 0xffff \<noteq> drop_bit (128 - n) v"
    by (auto simp: list_all_iff)
qed

text \<open>No IPv6 block of the table holds an IPv4-mapped address.\<close>

lemma mapped_outside:
  assumes "(IPv6, v, n) \<in> set blocked_blocks" "drop_bit 32 m = 0xffff"
  shows "\<not> in_block IPv6 v n \<lparr>ip_family = IPv6, ip_value = m\<rparr>"
proof -
  have n: "n \<le> 96" "drop_bit (96 - n) 0xffff \<noteq> drop_bit (128 - n) v" using blocked_blocks_facts(3) [OF assms(1)] by auto
  then have "128 - n = (96 - n) + 32" by simp
  then have "drop_bit (128 - n) m = drop_bit (96 - n) (drop_bit 32 m)" by (simp only: drop_bit_drop_bit)
  with n assms(2) show ?thesis by (simp add: in_block_def)
qed

lemma rule_covers_block:
  assumes "(f, v, n) \<in> set blocked_blocks" "ip_ok ip"
  shows "rule_covers ip (block f v n) \<longleftrightarrow> in_block f v n (canonical ip)"
proof -
  have hit: "(f = ip_family x \<and> cidr_start (block f v n) \<le> ip_value x \<and> ip_value x \<le> cidr_end (block f v n)) = in_block f v n x" for x
    using cidr_hit [where base = "\<lparr>ip_family = f, ip_value = v\<rparr>" and bits = n and x = x] blocked_blocks_facts(1,2) [OF assms(1)]
    by (simp add: block_def cidr_of_def Let_def)
  have fam: "cidr_family (block f v n) = f" by (simp add: block_def cidr_of_def Let_def)
  consider (four) "ip_family ip = IPv4" | (mapped) "ip_family ip = IPv6" "is_mapped ip" | (six) "ip_family ip = IPv6" "\<not> is_mapped ip"
    by (cases "ip_family ip") auto
  then show ?thesis
  proof cases
    case four
    then have c: "canonical ip = ip" by (simp add: canonical_def is_mapped_def)
    show ?thesis
    proof (cases f)
      case IPv4
      with four hit [of ip] fam c show ?thesis by (simp add: rule_covers_def)
    next
      case IPv6
      let ?m = "0xffff00000000 + ip_value ip"
      have r: "0 \<le> ip_value ip" "ip_value ip < 4294967296" using assms(2) four by (simp_all add: ip_ok_def)
      have "(ip_value ip + 65535 * 4294967296) div 4294967296 = 65535 + ip_value ip div 4294967296" by (rule div_mult_self1) simp
      then have "?m div 4294967296 = 65535" using r by (simp add: add.commute)
      then have "drop_bit 32 ?m = 0xffff" by (simp add: drop_bit_eq_div)
      then have "\<not> in_block IPv6 v n \<lparr>ip_family = IPv6, ip_value = ?m\<rparr>" using mapped_outside assms(1) IPv6 by blast
      with four IPv6 hit [of "\<lparr>ip_family = IPv6, ip_value = ?m\<rparr>"] fam c show ?thesis
        by (simp add: rule_covers_def in_block_def)
    qed
  next
    case mapped
    then have c: "canonical ip = unmap ip" by (simp add: canonical_def)
    show ?thesis
    proof (cases f)
      case IPv4
      with mapped hit [of "unmap ip"] fam c show ?thesis by (simp add: rule_covers_def unmap_def)
    next
      case IPv6
      have "\<not> in_block IPv6 v n ip" using mapped mapped_outside [of v n "ip_value ip"] assms(1) IPv6
        by (simp add: is_mapped_def in_block_def)
      with mapped IPv6 hit [of ip] fam c show ?thesis by (simp add: rule_covers_def in_block_def unmap_def)
    qed
  next
    case six
    then have c: "canonical ip = ip" by (simp add: canonical_def)
    with six hit [of ip] fam show ?thesis by (cases f) (simp_all add: rule_covers_def in_block_def)
  qed
qed

lemma blocklist_blocks:
  assumes "ip_ok ip"
  shows "blocklist_check blocked_rules ip \<longleftrightarrow> list_ex (\<lambda>(f, v, n). in_block f v n (canonical ip)) blocked_blocks"
proof -
  have "blocklist_check blocked_rules ip \<longleftrightarrow> (\<exists>(f, v, n) \<in> set blocked_blocks. rule_covers ip (block f v n))"
    by (force simp: blocklist_check_def blocked_rules_blocks list_ex_iff)
  also have "\<dots> \<longleftrightarrow> (\<exists>(f, v, n) \<in> set blocked_blocks. in_block f v n (canonical ip))"
    using rule_covers_block [OF _ assms] by (intro bex_cong) auto
  finally show ?thesis by (simp add: list_ex_iff)
qed

text \<open>What the block list promises, over the numeric table: a target is public when no block holds the
  address it spells.\<close>

definition public_target :: "string \<Rightarrow> bool" where
  "public_target a = (case net_address (literal_of a) of None \<Rightarrow> True
     | Some ip \<Rightarrow> list_all (\<lambda>(f, v, n). \<not> in_block f v n (canonical ip)) blocked_blocks)"

lemma blocked_iff_not_public: "is_blocked_target a \<longleftrightarrow> \<not> public_target a"
proof (cases "net_address (literal_of a)")
  case None
  then show ?thesis by (simp add: is_blocked_target_def public_target_def)
next
  case (Some ip)
  with blocklist_blocks [OF net_address_ok [OF Some]] show ?thesis
    by (simp add: is_blocked_target_def public_target_def list_all_iff list_ex_iff case_prod_beta)
qed

section \<open>Connecting\<close>

text \<open>\<open>new URL\<close> spells an IPv6 hostname in brackets, and no other.\<close>

definition brackets_pair :: "string \<Rightarrow> bool" where
  "brackets_pair h \<longleftrightarrow> prefix ''['' h = suffix '']'' h"

definition url_brackets :: "outside \<Rightarrow> string \<Rightarrow> bool" where
  "url_brackets w rawUrl = (case o_url w rawUrl of None \<Rightarrow> True | Some u \<Rightarrow> brackets_pair (u_hostname u))"

lemma bare_is_dial: "brackets_pair h \<Longrightarrow> bare_host h = dial_host h"
proof (cases h)
  case (Cons c t)
  assume b: "brackets_pair h"
  show ?thesis
  proof (cases "c = CHR ''[''")
    case True
    with b Cons have "suffix '']'' (CHR ''['' # t)" by (simp add: brackets_pair_def)
    then have "suffix '']'' t" by (auto simp: suffix_def Cons_eq_append_conv)
    with True Cons show ?thesis by (simp add: bare_host_def dial_host_def)
  next
    case False
    with b Cons have "\<not> suffix '']'' h" "\<not> prefix ''['' h" by (auto simp: brackets_pair_def)
    then show ?thesis by (simp add: bare_host_def dial_host_def)
  qed
qed (simp add: bare_host_def dial_host_def)

lemma guarded_lookup_public:
  assumes "guarded_lookup False wantAll answer = Inr xs"
  shows "list_all public_target xs"
  using assms
  by (auto simp: guarded_lookup_def list_all_iff find_None_iff blocked_iff_not_public split: sum.splits option.splits if_splits list.splits)

lemma transport_public:
  assumes "transport w n False host = (Inr xs, n')" "is_ip_literal host \<longrightarrow> \<not> is_blocked_target host"
  shows "list_all public_target xs"
proof (cases "is_ip_literal host")
  case True
  with assms show ?thesis by (auto simp: transport_def blocked_iff_not_public)
next
  case False
  with assms(1) obtain ys where "guarded_lookup False (o_all w) (o_dns w n host) = Inr ys" "xs = take (o_tries w ys) ys"
    by (cases "guarded_lookup False (o_all w) (o_dns w n host)") (auto simp: transport_def)
  with guarded_lookup_public show ?thesis by (metis list_all_append append_take_drop_id)
qed

lemma request_dials_public:
  assumes "\<not> ro_private opts" "url_brackets w rawUrl" "guarded_request w n opts rawUrl = (r, dialled, n')"
  shows "list_all public_target dialled"
  using assms transport_public [of w n] bare_is_dial
  by (auto simp: guarded_request_def url_brackets_def Let_def split: option.splits if_splits prod.splits sum.splits)

lemma request_dials_https:
  assumes "\<not> ro_private opts" "guarded_request w n opts rawUrl = (r, dialled, n')"
  shows "dialled = [] \<or> (\<exists>u. o_url w rawUrl = Some u \<and> u_protocol u = ''https:'' \<and> u_user u = [] \<and> u_pass u = [])"
  using assms by (auto simp: guarded_request_def Let_def split: option.splits if_splits)

section \<open>Receiving\<close>

text \<open>The chunks that arrive before anything else does.\<close>

fun received :: "wire_event list \<Rightarrow> string list" where
  "received (Data c # es) = c # received es"
| "received es = []"

lemma answer_stays: "ex_answer x = Some r \<Longrightarrow> ex_answer (on_wire utf8 cap trunc t w e x) = Some r"
  by (cases e) (simp_all add: settle_once_def Let_def)

lemma answers_stay: "ex_answer x = Some r \<Longrightarrow> ex_answer (foldl (\<lambda>x e. on_wire utf8 cap trunc t w e x) x es) = Some r"
  by (induction es arbitrary: x) (simp_all add: answer_stays)

definition filling :: "nat \<Rightarrow> bool \<Rightarrow> string list \<Rightarrow> exchange \<Rightarrow> bool" where
  "filling cap trunc cs x \<longleftrightarrow> (case ex_answer x of
     Some r \<Rightarrow> (\<exists>m. r = GuardedNo TooLarge m)
   | None \<Rightarrow> prefix (ex_chunks x) cs \<and> ex_size x = length (concat (ex_chunks x)) \<and> (trunc \<or> ex_size x \<le> cap) \<and>
       (ex_chunks x = cs \<or> cap \<le> ex_size x \<and> length (ex_chunks x) < length cs))"

lemma filling_data:
  assumes "filling cap trunc cs x"
  shows "filling cap trunc (cs @ [c]) (on_wire utf8 cap trunc t w (Data c) x)"
proof (cases "ex_answer x")
  case None
  with assms show ?thesis by (auto simp: filling_def settle_once_def Let_def)
next
  case (Some r)
  with assms answer_stays [OF Some] show ?thesis by (simp add: filling_def del: on_wire.simps)
qed

lemma filling_all:
  "filling cap trunc cs x \<Longrightarrow> filling cap trunc (cs @ ds) (foldl (\<lambda>x e. on_wire utf8 cap trunc t w e x) x (map Data ds))"
proof (induction ds arbitrary: cs x)
  case (Cons d ds)
  show ?case using Cons.IH [OF filling_data [OF Cons.prems]] by simp
qed simp

lemma received_split: "\<exists>e rest. es @ [Deadline] = map Data (received es) @ e # rest \<and> (\<forall>c. e \<noteq> Data c)"
  by (induction es rule: received.induct) auto

text \<open>An answered body: a beginning of what was received, no longer than the cap.\<close>

lemma answered_body:
  assumes "the_answer (run_exchange utf8 cap trunc t w) = GuardedOk s b hs"
  obtains cs where "prefix cs (received (wr_events w))" "b = utf8 (take cap (concat cs))"
    "trunc \<or> length (concat cs) \<le> cap" "cs = received (wr_events w) \<or> cap \<le> length (concat cs) \<and> length cs < length (received (wr_events w))"
proof -
  let ?step = "\<lambda>x e. on_wire utf8 cap trunc t w e x" and ?x0 = "\<lparr>ex_chunks = [], ex_size = 0, ex_answer = None\<rparr>"
  obtain e rest where split: "wr_events w @ [Deadline] = map Data (received (wr_events w)) @ e # rest" and e: "\<And>c. e \<noteq> Data c"
    using received_split by metis
  define x where "x = foldl ?step ?x0 (map Data (received (wr_events w)))"
  have "filling cap trunc [] ?x0" by (simp add: filling_def)
  then have f: "filling cap trunc (received (wr_events w)) x" unfolding x_def by (metis filling_all append_Nil)
  have run: "run_exchange utf8 cap trunc t w = foldl ?step (?step x e) rest" by (simp add: run_exchange_def split x_def)
  have ok: "ex_answer (?step x e) = Some (GuardedOk s b hs)"
  proof -
    have "ex_answer (?step x e) \<noteq> None" using e by (cases e; cases "ex_answer x") (auto simp: settle_once_def)
    then obtain r where r: "ex_answer (?step x e) = Some r" by auto
    with assms show ?thesis unfolding run the_answer_def by (simp add: answers_stay)
  qed
  have n: "ex_answer x = None"
  proof (rule ccontr)
    assume "ex_answer x \<noteq> None"
    then obtain r where "ex_answer x = Some r" by auto
    with f answer_stays [OF this] ok show False by (auto simp: filling_def)
  qed
  from ok e n have "b = utf8 (take cap (concat (ex_chunks x)))" by (cases e) (auto simp: settle_once_def)
  with that [of "ex_chunks x"] f n show ?thesis by (auto simp: filling_def)
qed

section \<open>Properties\<close>

text \<open>\<open>isBlockedTarget\<close> says yes exactly for the spellings of an address in one of the twenty-four
  blocks of the table, whatever the spelling: brackets, a zone, a compressed or dotted IPv6 form; an
  IPv4-mapped address is blocked exactly when the IPv4 address inside it is; a name never is.\<close>

theorem blocked_target_exact:
  "is_blocked_target host \<longleftrightarrow> (case net_address (literal_of host) of None \<Rightarrow> False
     | Some ip \<Rightarrow> list_ex (\<lambda>(f, v, n). in_block f v n (if is_mapped ip then unmap ip else ip)) blocked_blocks)"
proof (cases "net_address (literal_of host)")
  case (Some ip)
  from blocklist_blocks [OF net_address_ok [OF Some]] Some show ?thesis
    by (simp add: is_blocked_target_def canonical_def)
qed (simp add: is_blocked_target_def)

text \<open>C21: without \<open>allowPrivate\<close>, no request ever connects to a private, loopback, link-local or otherwise
  reserved address, whatever the name service answers and however its answers change between the
  lookups; and a request that connects at all goes to an https URL without credentials.\<close>

theorem guarded_dials_public:
  assumes "\<not> ro_private opts" "url_brackets w rawUrl" "guarded_request w n opts rawUrl = (r, dialled, n')"
  shows "list_all public_target dialled \<and>
    (dialled = [] \<or> (\<exists>u. o_url w rawUrl = Some u \<and> u_protocol u = ''https:'' \<and> u_user u = [] \<and> u_pass u = []))"
  using request_dials_public [OF assms] request_dials_https [OF assms(1,3)] by blast

text \<open>An answered body is never longer than the cap and is the beginning of what was received; when an
  overflow is to be refused and no run of chunks ends exactly at the cap, it is all of what was received.\<close>

theorem answered_body_bounded:
  assumes "the_answer (run_exchange utf8 cap trunc t w) = GuardedOk s b hs"
  shows "\<exists>bytes. b = utf8 bytes \<and> length bytes \<le> cap \<and> prefix bytes (concat (received (wr_events w))) \<and>
    (trunc \<or> (\<exists>k < length (received (wr_events w)). length (concat (take k (received (wr_events w)))) = cap) \<or>
      bytes = concat (received (wr_events w)))"
  using assms
proof (rule answered_body)
  fix cs
  assume p: "prefix cs (received (wr_events w))" and b: "b = utf8 (take cap (concat cs))" "trunc \<or> length (concat cs) \<le> cap"
    and e: "cs = received (wr_events w) \<or> cap \<le> length (concat cs) \<and> length cs < length (received (wr_events w))"
  from p obtain zs where z: "received (wr_events w) = cs @ zs" by (auto simp: prefix_def)
  have "prefix (take cap (concat cs)) (concat (received (wr_events w)))" unfolding z by (simp add: take_is_prefix)
  moreover have "trunc \<or> (\<exists>k < length (received (wr_events w)). length (concat (take k (received (wr_events w)))) = cap) \<or>
      take cap (concat cs) = concat (received (wr_events w))"
  proof (cases "trunc \<or> cs = received (wr_events w)")
    case True
    with b(2) show ?thesis by auto
  next
    case False
    with e b(2) have "length (concat cs) = cap" "length cs < length (received (wr_events w))" by auto
    then show ?thesis by (intro disjI2 disjI1 exI [of _ "length cs"]) (simp add: z)
  qed
  ultimately show ?thesis using b(1) by (intro exI [of _ "take cap (concat cs)"]) simp
qed

text \<open>The refusal of an overflow has a gap at the chunk boundary: when the bytes received so far are
  exactly the cap, everything after them is dropped in silence and the request is answered as complete,
  with the body cut at the cap, although \<open>overflow\<close> says it is to be refused.\<close>

theorem boundary_overflow_accepted:
  "the_answer (run_exchange utf8 (length c) False t
      \<lparr>wr_status = Some 200, wr_headers = hs, wr_events = Data c # map Data ds @ [WireEnd]\<rparr>) =
    GuardedOk 200 (utf8 c) (reply_headers hs)"
proof -
  let ?w = "\<lparr>wr_status = Some 200, wr_headers = hs, wr_events = Data c # map Data ds @ [WireEnd]\<rparr>"
  have rest: "foldl (\<lambda>x e. on_wire utf8 (length c) False t w e x) x (map Data es) = x" if "ex_size x = length c" for w x es
    using that by (induction es) simp_all
  define x where "x = on_wire utf8 (length c) False t ?w (Data c) \<lparr>ex_chunks = [], ex_size = 0, ex_answer = None\<rparr>"
  have x: "ex_size x = length c" "ex_answer x = None" "concat (ex_chunks x) = c" by (cases c; simp add: x_def)+
  have "run_exchange utf8 (length c) False t ?w =
      on_wire utf8 (length c) False t ?w Deadline (on_wire utf8 (length c) False t ?w WireEnd x)"
    by (simp add: run_exchange_def x_def [symmetric] rest [OF x(1)] del: on_wire.simps)
  with x show ?thesis by (simp add: settle_once_def the_answer_def)
qed

section \<open>Witnesses\<close>

text \<open>A name that resolves to a public address the first time and to the metadata service afterwards.\<close>

definition sample_outside :: outside where
  "sample_outside = \<lparr>
     o_url = (\<lambda>s. if s = ''https://h.example/'' then Some \<lparr>u_protocol = ''https:'', u_user = [], u_pass = [], u_hostname = ''h.example''\<rparr> else None),
     o_dns = (\<lambda>n h. Inr [if n = 0 then ''8.8.4.4'' else ''169.254.169.254'']), o_all = True, o_tries = length,
     o_reply = (\<lambda>dialled sent. \<lparr>wr_status = Some 200, wr_headers = [], wr_events = [Data ''ok'', WireEnd]\<rparr>), o_utf8 = id\<rparr>"

definition sample_options :: request_options where
  "sample_options = \<lparr>ro_method = None, ro_headers = [], ro_body = None, ro_timeout = None, ro_max = Some 8, ro_truncate = False, ro_private = False\<rparr>"

lemma sample_literals: "net_address (literal_of ''8.8.4.4'') = Some \<lparr>ip_family = IPv4, ip_value = 0x08080404\<rparr>"
  "net_address (literal_of ''169.254.169.254'') = Some \<lparr>ip_family = IPv4, ip_value = 0xa9fea9fe\<rparr>"
  "net_address (literal_of ''h.example'') = None"
  by code_simp+

lemma sample_addresses: "is_blocked_target ''8.8.4.4'' = False" "is_blocked_target ''169.254.169.254'' = True"
  "is_ip_literal ''h.example'' = False"
  by (simp_all add: blocked_iff_not_public public_target_def sample_literals is_ip_literal_def blocked_blocks_def in_block_def
      canonical_def is_mapped_def)

lemma sample_request:
  "guarded_request sample_outside 0 sample_options ''https://h.example/'' = (GuardedOk 200 ''ok'' [], [''8.8.4.4''], 1)"
  "fst (guarded_request sample_outside 1 sample_options ''https://h.example/'') = GuardedNo Blocked (blocked_message ''169.254.169.254'')"
  by (simp_all add: guarded_request_def sample_outside_def sample_options_def bare_host_def dial_host_def suffix_def transport_def
      sample_addresses guarded_lookup_def run_exchange_def settle_once_def the_answer_def reply_headers_def Let_def
      unreachable_or_blocked_def blocked_message_def)

theorem guarded_dials_public_witness:
  "list_all public_target [''8.8.4.4''] \<and>
    guarded_request sample_outside 0 sample_options ''https://h.example/'' = (GuardedOk 200 ''ok'' [], [''8.8.4.4''], 1) \<and>
    fst (guarded_request sample_outside 1 sample_options ''https://h.example/'') = GuardedNo Blocked (blocked_message ''169.254.169.254'')"
proof -
  have "url_brackets sample_outside ''https://h.example/''"
    by (simp add: url_brackets_def sample_outside_def brackets_pair_def suffix_def)
  moreover have "\<not> ro_private sample_options" by (simp add: sample_options_def)
  ultimately show ?thesis using guarded_dials_public [OF _ _ sample_request(1)] sample_request by blast
qed

theorem answered_body_bounded_witness:
  "\<exists>bytes. ''ok'' = id bytes \<and> length bytes \<le> 8 \<and> prefix bytes ''ok'' \<and> (False \<or> (\<exists>k < 1. length (concat (take k [''ok''])) = 8) \<or> bytes = ''ok'')"
  using answered_body_bounded [of id 8 False 10000 "\<lparr>wr_status = Some 200, wr_headers = [], wr_events = [Data ''ok'', WireEnd]\<rparr>" 200 "''ok''" "[]"]
  by (simp add: run_exchange_def settle_once_def the_answer_def reply_headers_def Let_def)

end
