(* ===== verification/Webhooks.thy ===== *)
theory Webhooks
  imports IpRange
begin

text \<open>
  Webhook delivery, \<open>packages/shared/src/webhooks\<close>: the endpoints of the gate
  (\<open>tollgate/src/webhookEnvStore.ts\<close>), the delivery store in memory and as a journal, the dispatch of an
  event and the sweep that sends what is due. The sender is a parameter; a journal line is a record or
  text that will not parse. The journal is read as it stands on the file, so its cache is left out.
\<close>

section \<open>Data\<close>

datatype webhook_channel = RawHook | SlackHook | DiscordHook | TeamsHook

datatype delivery_status = DeliveryPending | Delivered | DeliveryFailed | Exhausted

record endpoint =
  ep_id :: string
  ep_owner :: string
  ep_channel :: webhook_channel
  ep_host :: "string option"
  ep_url :: string
  ep_secret :: "string option"
  ep_events :: "string list"
  ep_enabled :: bool
  ep_detailed :: bool
  ep_failures :: nat
  ep_disabled_at :: "int option"
  ep_disabled_reason :: "string option"
  ep_created :: int

record delivery =
  dv_id :: string
  dv_endpoint :: string
  dv_type :: string
  dv_event :: string
  dv_host :: "string option"
  dv_payload :: json
  dv_status :: delivery_status
  dv_attempts :: nat
  dv_next :: "rat option"
  dv_last :: "int option"
  dv_code :: "int option"
  dv_body :: "string option"
  dv_error :: "string option"
  dv_created :: int

record new_delivery =
  nd_endpoint :: string
  nd_type :: string
  nd_event :: string
  nd_host :: "string option"
  nd_payload :: json
  nd_next :: "rat option"

definition delivery_of :: "string \<Rightarrow> int \<Rightarrow> new_delivery \<Rightarrow> delivery" where
  "delivery_of i now d = \<lparr>dv_id = i, dv_endpoint = nd_endpoint d, dv_type = nd_type d, dv_event = nd_event d, dv_host = nd_host d,
     dv_payload = nd_payload d, dv_status = DeliveryPending, dv_attempts = 0, dv_next = nd_next d, dv_last = None, dv_code = None,
     dv_body = None, dv_error = None, dv_created = now\<rparr>"

section \<open>Endpoints\<close>

record endpoint_spec =
  es_url :: string
  es_secret :: "string option"
  es_host :: "string option"
  es_events :: "string list"

definition env_endpoint :: "nat \<Rightarrow> endpoint_spec \<Rightarrow> endpoint" where
  "env_endpoint i e = \<lparr>ep_id = ''env:'' @ nat_string 10 i, ep_owner = ''self-host'', ep_channel = RawHook, ep_host = es_host e,
     ep_url = es_url e, ep_secret = es_secret e, ep_events = es_events e, ep_enabled = True, ep_detailed = False, ep_failures = 0,
     ep_disabled_at = None, ep_disabled_reason = None, ep_created = 0\<rparr>"

definition env_endpoints :: "endpoint_spec list \<Rightarrow> endpoint list" where
  "env_endpoints specs = map (\<lambda>(i, e). env_endpoint i e) (enumerate 0 specs)"

definition list_deliverable :: "string \<Rightarrow> endpoint list \<Rightarrow> endpoint list" where
  "list_deliverable type eps = filter (\<lambda>e. ep_enabled e \<and> type \<in> set (ep_events e)) eps"

definition get_endpoint :: "string \<Rightarrow> endpoint list \<Rightarrow> endpoint option" where
  "get_endpoint i eps = find (\<lambda>e. ep_id e = i) eps"

text \<open>A mutation of the first row with an id.\<close>

fun alter_first :: "('a \<Rightarrow> bool) \<Rightarrow> ('a \<Rightarrow> 'a) \<Rightarrow> 'a list \<Rightarrow> 'a list" where
  "alter_first P f [] = []"
| "alter_first P f (x # xs) = (if P x then f x # xs else x # alter_first P f xs)"

definition bump_failures :: "string \<Rightarrow> endpoint list \<Rightarrow> nat \<times> endpoint list" where
  "bump_failures i eps = (case get_endpoint i eps of
     None \<Rightarrow> (0, eps)
   | Some e \<Rightarrow> (Suc (ep_failures e), alter_first (\<lambda>e. ep_id e = i) (\<lambda>e. e\<lparr>ep_failures := Suc (ep_failures e)\<rparr>) eps))"

definition reset_failures :: "string \<Rightarrow> endpoint list \<Rightarrow> endpoint list" where
  "reset_failures i eps = alter_first (\<lambda>e. ep_id e = i) (\<lambda>e. e\<lparr>ep_failures := 0\<rparr>) eps"

definition auto_disable :: "string \<Rightarrow> string \<Rightarrow> int \<Rightarrow> endpoint list \<Rightarrow> endpoint list" where
  "auto_disable i reason t eps =
     alter_first (\<lambda>e. ep_id e = i) (\<lambda>e. e\<lparr>ep_enabled := False, ep_disabled_at := Some t, ep_disabled_reason := Some reason\<rparr>) eps"

section \<open>The delivery stores\<close>

text \<open>What is due, and how a claim chooses: unleased rows first by when they are due.\<close>

definition is_due :: "int \<Rightarrow> delivery \<Rightarrow> bool" where
  "is_due now d \<longleftrightarrow> dv_status d = DeliveryPending \<and> (case dv_next d of None \<Rightarrow> False | Some t \<Rightarrow> t \<le> of_int now)"

definition due_key :: "delivery \<Rightarrow> rat" where
  "due_key d = (case dv_next d of None \<Rightarrow> 0 | Some t \<Rightarrow> t)"

definition leased_until :: "int \<Rightarrow> int \<Rightarrow> (string, int) js_map \<Rightarrow> delivery \<Rightarrow> bool" where
  "leased_until now leaseMs claims d \<longleftrightarrow> (case map_of claims (dv_id d) of None \<Rightarrow> False | Some c \<Rightarrow> \<not> c \<le> now - leaseMs)"

definition claimable :: "int \<Rightarrow> nat \<Rightarrow> int \<Rightarrow> (string, int) js_map \<Rightarrow> delivery list \<Rightarrow> delivery list" where
  "claimable now limit leaseMs claims rows =
     take limit (sort_key due_key (filter (\<lambda>d. \<not> leased_until now leaseMs claims d) (filter (is_due now) rows)))"

definition claim_all :: "int \<Rightarrow> delivery list \<Rightarrow> (string, int) js_map \<Rightarrow> (string, int) js_map" where
  "claim_all now ls claims = foldl (\<lambda>m d. AList.update (dv_id d) now m) claims ls"

definition same_event :: "new_delivery \<Rightarrow> delivery \<Rightarrow> bool" where
  "same_event d r \<longleftrightarrow> dv_endpoint r = nd_endpoint d \<and> dv_event r = nd_event d"

definition list_due :: "int \<Rightarrow> nat \<Rightarrow> delivery list \<Rightarrow> delivery list" where
  "list_due now limit rows = take limit (sort_key due_key (filter (is_due now) rows))"

definition list_for_endpoint :: "string \<Rightarrow> int option \<Rightarrow> nat \<Rightarrow> delivery list \<Rightarrow> delivery list" where
  "list_for_endpoint e cursor limit rows = take limit (sort_key (\<lambda>d. - dv_created d)
     (filter (\<lambda>d. dv_endpoint d = e \<and> (case cursor of None \<Rightarrow> True | Some c \<Rightarrow> dv_created d < c)) rows))"

definition dead_lettered :: "string list option \<Rightarrow> nat \<Rightarrow> delivery list \<Rightarrow> delivery list" where
  "dead_lettered hosts limit rows = take limit (sort_key (\<lambda>d. - (case dv_last d of Some t \<Rightarrow> t | None \<Rightarrow> dv_created d))
     (filter (\<lambda>d. case hosts of None \<Rightarrow> True | Some hs \<Rightarrow> (case dv_host d of None \<Rightarrow> False | Some h \<Rightarrow> h \<in> set hs))
       (filter (\<lambda>d. dv_status d = Exhausted) rows)))"

text \<open>In memory.\<close>

record memory_deliveries =
  md_rows :: "delivery list"
  md_claims :: "(string, int) js_map"

definition memory_enqueue :: "string \<Rightarrow> int \<Rightarrow> new_delivery \<Rightarrow> memory_deliveries \<Rightarrow> delivery \<times> memory_deliveries" where
  "memory_enqueue i now d s = (case find (same_event d) (md_rows s) of
     Some r \<Rightarrow> (r, s)
   | None \<Rightarrow> (let r = delivery_of i now d in (r, s\<lparr>md_rows := md_rows s @ [r]\<rparr>)))"

definition memory_claim :: "int \<Rightarrow> nat \<Rightarrow> int \<Rightarrow> memory_deliveries \<Rightarrow> delivery list \<times> memory_deliveries" where
  "memory_claim now limit leaseMs s =
     (let ls = claimable now limit leaseMs (md_claims s) (md_rows s) in (ls, s\<lparr>md_claims := claim_all now ls (md_claims s)\<rparr>))"

definition memory_record :: "string \<Rightarrow> (delivery \<Rightarrow> delivery) \<Rightarrow> memory_deliveries \<Rightarrow> memory_deliveries" where
  "memory_record i patch s = (if find (\<lambda>d. dv_id d = i) (md_rows s) = None then s
     else \<lparr>md_rows = alter_first (\<lambda>d. dv_id d = i) patch (md_rows s), md_claims = AList.delete i (md_claims s)\<rparr>)"

definition revived :: "int \<Rightarrow> delivery \<Rightarrow> delivery" where
  "revived now d = d\<lparr>dv_status := DeliveryPending, dv_next := Some (of_int now)\<rparr>"

definition memory_revive :: "string \<Rightarrow> int \<Rightarrow> memory_deliveries \<Rightarrow> bool \<times> memory_deliveries" where
  "memory_revive i now s = (case find (\<lambda>d. dv_id d = i) (md_rows s) of
     None \<Rightarrow> (False, s)
   | Some d \<Rightarrow> if dv_status d \<noteq> Exhausted then (False, s) else (True, memory_record i (revived now) s))"

text \<open>In a journal: appended lines, the last one of an id counts, and a rewrite when there are too many.\<close>

datatype journal_line = Row delivery | Torn | BlankLine

record journal_store =
  js_lines :: "journal_line list"
  js_claims :: "(string, int) js_map"

record journal_options =
  jo_compact_at :: nat
  jo_keep :: nat

definition default_journal :: journal_options where
  "default_journal = \<lparr>jo_compact_at = 5000, jo_keep = 1000\<rparr>"

fun replay_line :: "(string, delivery) js_map \<Rightarrow> journal_line \<Rightarrow> (string, delivery) js_map" where
  "replay_line m (Row d) = AList.update (dv_id d) d m"
| "replay_line m Torn = m"
| "replay_line m BlankLine = m"

definition replay_journal :: "journal_line list \<Rightarrow> (string, delivery) js_map" where
  "replay_journal ls = foldl replay_line [] ls"

definition journal_rows :: "journal_store \<Rightarrow> delivery list" where
  "journal_rows s = map snd (replay_journal (js_lines s))"

definition line_count :: "journal_line list \<Rightarrow> nat" where
  "line_count ls = length (filter (\<lambda>l. l \<noteq> BlankLine) ls)"

definition compacted :: "journal_options \<Rightarrow> delivery list \<Rightarrow> delivery list" where
  "compacted Q rows =
     (let keep = filter (\<lambda>d. dv_status d \<noteq> Delivered) rows;
          delivered = take (jo_keep Q) (sort_key (\<lambda>d. - dv_created d) (filter (\<lambda>d. dv_status d = Delivered) rows))
      in sort_key dv_created (keep @ delivered))"

definition compact :: "journal_options \<Rightarrow> journal_line list \<Rightarrow> journal_line list" where
  "compact Q ls = map Row (compacted Q (map snd (replay_journal ls)))"

definition append_row :: "journal_options \<Rightarrow> delivery \<Rightarrow> journal_store \<Rightarrow> journal_store" where
  "append_row Q d s = (let ls = js_lines s @ [Row d] in
     s\<lparr>js_lines := (if jo_compact_at Q < line_count ls then compact Q ls else ls)\<rparr>)"

definition journal_enqueue :: "journal_options \<Rightarrow> string \<Rightarrow> int \<Rightarrow> new_delivery \<Rightarrow> journal_store \<Rightarrow> delivery \<times> journal_store" where
  "journal_enqueue Q i now d s = (case find (same_event d) (journal_rows s) of
     Some r \<Rightarrow> (r, s)
   | None \<Rightarrow> (let r = delivery_of i now d in (r, append_row Q r s)))"

definition journal_claim :: "int \<Rightarrow> nat \<Rightarrow> int \<Rightarrow> journal_store \<Rightarrow> delivery list \<times> journal_store" where
  "journal_claim now limit leaseMs s =
     (let ls = claimable now limit leaseMs (js_claims s) (journal_rows s) in (ls, s\<lparr>js_claims := claim_all now ls (js_claims s)\<rparr>))"

definition journal_record :: "journal_options \<Rightarrow> string \<Rightarrow> (delivery \<Rightarrow> delivery) \<Rightarrow> journal_store \<Rightarrow> journal_store" where
  "journal_record Q i patch s = (case map_of (replay_journal (js_lines s)) i of
     None \<Rightarrow> s
   | Some d \<Rightarrow> append_row Q (patch d) (s\<lparr>js_claims := AList.delete i (js_claims s)\<rparr>))"

definition journal_revive :: "journal_options \<Rightarrow> string \<Rightarrow> int \<Rightarrow> journal_store \<Rightarrow> bool \<times> journal_store" where
  "journal_revive Q i now s = (case map_of (replay_journal (js_lines s)) i of
     None \<Rightarrow> (False, s)
   | Some d \<Rightarrow> if dv_status d \<noteq> Exhausted then (False, s)
       else (True, append_row Q (revived now d) (s\<lparr>js_claims := AList.delete i (js_claims s)\<rparr>)))"

section \<open>Dispatch and sweep\<close>

definition backoff_offsets :: "int list" where
  "backoff_offsets = [5000, 5 * 60000, 30 * 60000, 2 * 3600000, 5 * 3600000, 10 * 3600000, 10 * 3600000]"

definition max_attempts :: nat where "max_attempts = length backoff_offsets + 1"
definition claim_limit :: nat where "claim_limit = 200"
definition delivery_lease_ms :: int where "delivery_lease_ms = 600000"

record webhook_event =
  we_owner :: string
  we_host :: "string option"
  we_type :: string
  we_event :: string
  we_payload :: json
  we_payload_for :: "(bool \<Rightarrow> json) option"

definition text_present :: "string option \<Rightarrow> bool" where
  "text_present v \<longleftrightarrow> (case v of Some (c # cs) \<Rightarrow> True | _ \<Rightarrow> False)"

definition wants_event :: "(webhook_channel \<Rightarrow> bool) option \<Rightarrow> webhook_event \<Rightarrow> endpoint \<Rightarrow> bool" where
  "wants_event enabled e x \<longleftrightarrow> \<not> (text_present (ep_host x) \<and> text_present (we_host e) \<and> ep_host x \<noteq> we_host e) \<and>
     (case enabled of None \<Rightarrow> True | Some f \<Rightarrow> f (ep_channel x))"

definition delivery_for :: "int \<Rightarrow> webhook_event \<Rightarrow> endpoint \<Rightarrow> new_delivery" where
  "delivery_for now e x = \<lparr>nd_endpoint = ep_id x, nd_type = we_type e, nd_event = we_event e, nd_host = we_host e,
     nd_payload = (case we_payload_for e of Some f \<Rightarrow> f (ep_detailed x) | None \<Rightarrow> we_payload e), nd_next = Some (of_int now)\<rparr>"

text \<open>\<open>fresh k\<close> is the id drawn for the \<open>k\<close>-th endpoint.\<close>

definition dispatch_event ::
    "(string \<Rightarrow> int \<Rightarrow> new_delivery \<Rightarrow> 's \<Rightarrow> delivery \<times> 's) \<Rightarrow> (nat \<Rightarrow> string) \<Rightarrow> (webhook_channel \<Rightarrow> bool) option \<Rightarrow> endpoint list \<Rightarrow>
       int \<Rightarrow> webhook_event \<Rightarrow> 's \<Rightarrow> 's" where
  "dispatch_event enqueue fresh enabled eps now e s =
     foldl (\<lambda>s (k, x). if wants_event enabled e x then snd (enqueue (fresh k) now (delivery_for now e x) s) else s) s
       (enumerate 0 (list_deliverable (we_type e) eps))"

record send_result =
  sr_ok :: bool
  sr_code :: "int option"
  sr_body :: "string option"
  sr_error :: "string option"
  sr_blocked :: bool
  sr_retry :: "rat option"

datatype send_reply = SendReply send_result | SendThrew string

definition send_outcome :: "send_reply \<Rightarrow> send_result" where
  "send_outcome r = (case r of SendReply x \<Rightarrow> x
   | SendThrew m \<Rightarrow> \<lparr>sr_ok = False, sr_code = None, sr_body = None, sr_error = Some m, sr_blocked = False, sr_retry = None\<rparr>)"

definition disabled_patch :: "int \<Rightarrow> delivery \<Rightarrow> delivery" where
  "disabled_patch now d = d\<lparr>dv_status := DeliveryFailed, dv_error := Some ''endpoint disabled'', dv_next := None, dv_last := Some now\<rparr>"

text \<open>The row an attempt leaves: \<open>tries\<close> is the number of attempts it read, plus one.\<close>

definition attempt_patch :: "send_result \<Rightarrow> nat \<Rightarrow> int \<Rightarrow> delivery \<Rightarrow> delivery" where
  "attempt_patch r tries now d =
     (if sr_ok r then d\<lparr>dv_status := Delivered, dv_attempts := tries, dv_next := None, dv_last := Some now, dv_code := sr_code r,
        dv_body := sr_body r, dv_error := None\<rparr>
      else if sr_blocked r then d\<lparr>dv_status := DeliveryFailed, dv_attempts := tries, dv_next := None, dv_last := Some now,
        dv_code := sr_code r, dv_error := sr_error r\<rparr>
      else if length backoff_offsets \<le> tries - 1 then d\<lparr>dv_status := Exhausted, dv_attempts := tries, dv_next := None,
        dv_last := Some now, dv_code := sr_code r, dv_error := sr_error r\<rparr>
      else d\<lparr>dv_status := DeliveryPending, dv_attempts := tries,
        dv_next := Some (of_int now + max (of_int (backoff_offsets ! (tries - 1))) (case sr_retry r of None \<Rightarrow> 0 | Some t \<Rightarrow> t)),
        dv_last := Some now, dv_code := sr_code r, dv_error := sr_error r\<rparr>)"

record ('s, 'w) hooks =
  hk_store :: 's
  hk_endpoints :: "endpoint list"
  hk_world :: 'w

definition finish_attempt ::
    "(string \<Rightarrow> (delivery \<Rightarrow> delivery) \<Rightarrow> 's \<Rightarrow> 's) \<Rightarrow> (endpoint \<Rightarrow> delivery \<Rightarrow> int \<Rightarrow> 'w \<Rightarrow> send_reply \<times> 'w) \<Rightarrow> nat \<Rightarrow> int \<Rightarrow>
       delivery \<times> endpoint option \<Rightarrow> ('s, 'w) hooks \<Rightarrow> delivery_status \<times> ('s, 'w) hooks" where
  "finish_attempt put send threshold now x H = (case x of (d, e) \<Rightarrow>
     case (case e of Some y \<Rightarrow> if ep_enabled y then Some y else None | None \<Rightarrow> None) of
       None \<Rightarrow> (DeliveryFailed, H\<lparr>hk_store := put (dv_id d) (disabled_patch now) (hk_store H)\<rparr>)
     | Some y \<Rightarrow> (case send y d now (hk_world H) of (reply, w) \<Rightarrow>
         (let r = send_outcome reply; tries = Suc (dv_attempts d);
              H1 = H\<lparr>hk_world := w, hk_store := put (dv_id d) (attempt_patch r tries now) (hk_store H)\<rparr>
          in if sr_ok r then (Delivered, H1\<lparr>hk_endpoints := reset_failures (ep_id y) (hk_endpoints H1)\<rparr>)
             else if sr_blocked r then (DeliveryFailed, H1)
             else (let (n, eps) = bump_failures (ep_id y) (hk_endpoints H1);
                       eps' = (if threshold \<le> n then auto_disable (ep_id y) ''auto: sustained delivery failure'' now eps else eps)
                   in (if length backoff_offsets \<le> tries - 1 then Exhausted else DeliveryPending, H1\<lparr>hk_endpoints := eps'\<rparr>)))))"

record sweep_summary =
  su_attempted :: nat
  su_delivered :: nat
  su_exhausted :: nat

definition count_status :: "delivery_status \<Rightarrow> sweep_summary \<Rightarrow> sweep_summary" where
  "count_status x u = u\<lparr>su_attempted := Suc (su_attempted u),
     su_delivered := (if x = Delivered then Suc (su_delivered u) else su_delivered u),
     su_exhausted := (if x = Exhausted then Suc (su_exhausted u) else su_exhausted u)\<rparr>"

text \<open>The attempts of a chunk run at the same time: each reads its endpoint, then each send is folded in.\<close>

definition run_chunk ::
    "(string \<Rightarrow> (delivery \<Rightarrow> delivery) \<Rightarrow> 's \<Rightarrow> 's) \<Rightarrow> (endpoint \<Rightarrow> delivery \<Rightarrow> int \<Rightarrow> 'w \<Rightarrow> send_reply \<times> 'w) \<Rightarrow> nat \<Rightarrow> int \<Rightarrow>
       delivery list \<Rightarrow> sweep_summary \<times> ('s, 'w) hooks \<Rightarrow> sweep_summary \<times> ('s, 'w) hooks" where
  "run_chunk put send threshold now ds acc =
     foldl (\<lambda>(u, H) x. case finish_attempt put send threshold now x H of (r, H') \<Rightarrow> (count_status r u, H')) acc
       (map (\<lambda>d. (d, get_endpoint (dv_endpoint d) (hk_endpoints (snd acc)))) ds)"

fun run_chunks ::
    "(string \<Rightarrow> (delivery \<Rightarrow> delivery) \<Rightarrow> 's \<Rightarrow> 's) \<Rightarrow> (endpoint \<Rightarrow> delivery \<Rightarrow> int \<Rightarrow> 'w \<Rightarrow> send_reply \<times> 'w) \<Rightarrow> nat \<Rightarrow> nat \<Rightarrow> int \<Rightarrow>
       delivery list \<Rightarrow> sweep_summary \<times> ('s, 'w) hooks \<Rightarrow> sweep_summary \<times> ('s, 'w) hooks" where
  "run_chunks put send threshold c now [] acc = acc"
| "run_chunks put send threshold c now (d # ds) acc =
     run_chunks put send threshold c now (drop c ds) (run_chunk put send threshold now (d # take c ds) acc)"

text \<open>\<open>c\<close> is one less than the concurrency, which is at least one.\<close>

definition sweep_deliveries ::
    "(int \<Rightarrow> nat \<Rightarrow> int \<Rightarrow> 's \<Rightarrow> delivery list \<times> 's) \<Rightarrow> (string \<Rightarrow> (delivery \<Rightarrow> delivery) \<Rightarrow> 's \<Rightarrow> 's) \<Rightarrow>
       (endpoint \<Rightarrow> delivery \<Rightarrow> int \<Rightarrow> 'w \<Rightarrow> send_reply \<times> 'w) \<Rightarrow> nat \<Rightarrow> nat \<Rightarrow> int \<Rightarrow> ('s, 'w) hooks \<Rightarrow> sweep_summary \<times> ('s, 'w) hooks" where
  "sweep_deliveries claim put send threshold c now H =
     (case claim now claim_limit delivery_lease_ms (hk_store H) of (due, s) \<Rightarrow>
       run_chunks put send threshold c now due (\<lparr>su_attempted = 0, su_delivered = 0, su_exhausted = 0\<rparr>, H\<lparr>hk_store := s\<rparr>))"

text \<open>Sweeps one after the other at the given times, and whether each comes when every row that is waiting
  is due.\<close>

fun sweeps ::
    "(int \<Rightarrow> nat \<Rightarrow> int \<Rightarrow> 's \<Rightarrow> delivery list \<times> 's) \<Rightarrow> (string \<Rightarrow> (delivery \<Rightarrow> delivery) \<Rightarrow> 's \<Rightarrow> 's) \<Rightarrow>
       (endpoint \<Rightarrow> delivery \<Rightarrow> int \<Rightarrow> 'w \<Rightarrow> send_reply \<times> 'w) \<Rightarrow> nat \<Rightarrow> nat \<Rightarrow> int list \<Rightarrow> ('s, 'w) hooks \<Rightarrow> sweep_summary list \<times> ('s, 'w) hooks" where
  "sweeps claim put send threshold c [] H = ([], H)"
| "sweeps claim put send threshold c (t # ts) H =
     (case sweep_deliveries claim put send threshold c t H of (u, H1) \<Rightarrow> apfst (Cons u) (sweeps claim put send threshold c ts H1))"

fun timely ::
    "('s \<Rightarrow> delivery list) \<Rightarrow> (int \<Rightarrow> nat \<Rightarrow> int \<Rightarrow> 's \<Rightarrow> delivery list \<times> 's) \<Rightarrow> (string \<Rightarrow> (delivery \<Rightarrow> delivery) \<Rightarrow> 's \<Rightarrow> 's) \<Rightarrow>
       (endpoint \<Rightarrow> delivery \<Rightarrow> int \<Rightarrow> 'w \<Rightarrow> send_reply \<times> 'w) \<Rightarrow> nat \<Rightarrow> nat \<Rightarrow> int list \<Rightarrow> ('s, 'w) hooks \<Rightarrow> bool" where
  "timely rows claim put send threshold c [] H \<longleftrightarrow> True"
| "timely rows claim put send threshold c (t # ts) H \<longleftrightarrow>
     list_all (\<lambda>d. dv_status d \<noteq> DeliveryPending \<or> is_due t d) (rows (hk_store H)) \<and>
     timely rows claim put send threshold c ts (snd (sweep_deliveries claim put send threshold c t H))"

section \<open>The interface\<close>

text \<open>What is still owed of a row.\<close>

definition if_owed :: "delivery option \<Rightarrow> delivery option" where
  "if_owed r = (case r of None \<Rightarrow> None | Some d \<Rightarrow> if dv_status d = Delivered then None else Some d)"

definition free_lease :: "int \<Rightarrow> int \<Rightarrow> int option \<Rightarrow> bool" where
  "free_lease now leaseMs c \<longleftrightarrow> (case c of None \<Rightarrow> True | Some t \<Rightarrow> t \<le> now - leaseMs)"

text \<open>What a sweep relies on: the rows still owed, the leases on them, a claim that hands out due rows once,
  and a record that changes the row it names and ends its lease.\<close>

locale delivery_store =
  fixes owed :: "'s \<Rightarrow> string \<Rightarrow> delivery option"
    and leases :: "'s \<Rightarrow> string \<Rightarrow> int option"
    and claim :: "int \<Rightarrow> nat \<Rightarrow> int \<Rightarrow> 's \<Rightarrow> delivery list \<times> 's"
    and put :: "string \<Rightarrow> (delivery \<Rightarrow> delivery) \<Rightarrow> 's \<Rightarrow> 's"
    and ok :: "'s \<Rightarrow> bool"
  assumes owed_finite: "ok s \<Longrightarrow> finite (dom (owed s))"
    and owed_row: "ok s \<Longrightarrow> owed s i = Some d \<Longrightarrow> dv_id d = i \<and> dv_status d \<noteq> Delivered"
    and claim_law: "ok s \<Longrightarrow> claim now n leaseMs s = (ls, s') \<Longrightarrow> ok s' \<and> owed s' = owed s \<and> distinct (map dv_id ls) \<and>
      (\<forall>d \<in> set ls. owed s (dv_id d) = Some d \<and> is_due now d \<and> free_lease now leaseMs (leases s (dv_id d))) \<and>
      leases s' = (\<lambda>i. if i \<in> dv_id ` set ls then Some now else leases s i)"
    and claim_some: "ok s \<Longrightarrow> 0 < n \<Longrightarrow> owed s i = Some d \<Longrightarrow> is_due now d \<Longrightarrow> free_lease now leaseMs (leases s i) \<Longrightarrow>
      fst (claim now n leaseMs s) \<noteq> []"
    and put_law: "ok s \<Longrightarrow> owed s i = Some d \<Longrightarrow> dv_id (p d) = i \<Longrightarrow>
      ok (put i p s) \<and> owed (put i p s) = (owed s)(i := if_owed (Some (p d))) \<and> leases (put i p s) = (leases s)(i := None)"

text \<open>How many attempts a row may still get: a revived one gets one more.\<close>

definition attempts_left :: "delivery option \<Rightarrow> nat" where
  "attempts_left r = (case r of None \<Rightarrow> 0 | Some d \<Rightarrow> if dv_status d = DeliveryPending then max 1 (max_attempts - dv_attempts d) else 0)"

lemma attempt_patch_left:
  "dv_id (attempt_patch r (Suc (dv_attempts d)) now d) = dv_id d \<and>
   (dv_status d = DeliveryPending \<longrightarrow> attempts_left (if_owed (Some (attempt_patch r (Suc (dv_attempts d)) now d))) < attempts_left (Some d))"
  by (auto simp: attempt_patch_def attempts_left_def if_owed_def max_attempts_def backoff_offsets_def)

lemma disabled_patch_left:
  "dv_id (disabled_patch now d) = dv_id d \<and> attempts_left (if_owed (Some (disabled_patch now d))) = 0"
  by (simp add: disabled_patch_def attempts_left_def if_owed_def)

lemma finish_attempt_store:
  "\<exists>p. hk_store (snd (finish_attempt put send threshold now (d, e) H)) = put (dv_id d) p (hk_store H) \<and> dv_id (p d) = dv_id d \<and>
     (dv_status d = DeliveryPending \<longrightarrow> attempts_left (if_owed (Some (p d))) < attempts_left (Some d))"
proof (cases "case e of Some y \<Rightarrow> if ep_enabled y then Some y else None | None \<Rightarrow> None")
  case None
  have "dv_status d = DeliveryPending \<longrightarrow> 0 < attempts_left (Some d)" by (simp add: attempts_left_def less_max_iff_disj)
  with None disabled_patch_left [of now d] show ?thesis
    by (intro exI [of _ "disabled_patch now"]) (simp add: finish_attempt_def)
next
  case (Some y)
  obtain reply w where s: "send y d now (hk_world H) = (reply, w)" by fastforce
  have "hk_store (snd (finish_attempt put send threshold now (d, e) H)) =
      put (dv_id d) (attempt_patch (send_outcome reply) (Suc (dv_attempts d)) now) (hk_store H)"
    unfolding finish_attempt_def prod.case Some option.case s by (simp add: Let_def case_prod_beta)
  with attempt_patch_left show ?thesis by blast
qed

lemma distinct_map_split:
  "distinct (map f (xs @ ys)) \<Longrightarrow> distinct (map f xs) \<and> distinct (map f ys) \<and> f ` set xs \<inter> f ` set ys = {}"
  by auto

context delivery_store begin

definition remaining :: "'s \<Rightarrow> nat" where
  "remaining s = (\<Sum>i \<in> dom (owed s). attempts_left (owed s i))"

lemma remaining_update:
  assumes "finite (dom (owed s))" "owed s i = Some d" "owed s' = (owed s)(i := r)"
  shows "remaining s' + attempts_left (Some d) = remaining s + attempts_left r"
proof -
  let ?D = "dom (owed s) - {i}"
  have 1: "remaining s = attempts_left (Some d) + (\<Sum>j \<in> ?D. attempts_left (owed s j))"
    unfolding remaining_def using assms(1,2) by (subst sum.remove [of _ i]) auto
  have 2: "(\<Sum>j \<in> ?D. attempts_left (owed s' j)) = (\<Sum>j \<in> ?D. attempts_left (owed s j))"
    unfolding assms(3) by (intro sum.cong) auto
  have "remaining s' = attempts_left r + (\<Sum>j \<in> ?D. attempts_left (owed s' j))"
  proof (cases r)
    case None
    then have "dom (owed s') = ?D" unfolding assms(3) by auto
    with None show ?thesis by (simp add: remaining_def attempts_left_def)
  next
    case (Some x)
    then have "dom (owed s') = insert i ?D" "owed s' i = Some x" unfolding assms(3) by (auto simp: assms(2))
    with Some assms(1) show ?thesis by (simp add: remaining_def sum.insert_remove)
  qed
  with 1 2 show ?thesis by simp
qed

lemma attempt_store:
  assumes "ok (hk_store H)" "owed (hk_store H) (dv_id d) = Some d" "is_due t d"
    and "H' = snd (finish_attempt put send threshold now (d, e) H)"
  shows "ok (hk_store H') \<and> remaining (hk_store H') < remaining (hk_store H) \<and>
    (\<forall>j. j \<noteq> dv_id d \<longrightarrow> owed (hk_store H') j = owed (hk_store H) j) \<and> leases (hk_store H') = (leases (hk_store H))(dv_id d := None)"
proof -
  obtain p where p: "hk_store H' = put (dv_id d) p (hk_store H)" "dv_id (p d) = dv_id d" "attempts_left (if_owed (Some (p d))) < attempts_left (Some d)"
    using finish_attempt_store [of put send threshold now d e H] assms(3,4) by (auto simp: is_due_def)
  note l = put_law [where p = p, OF assms(1,2) p(2)]
  have "remaining (hk_store H') + attempts_left (Some d) = remaining (hk_store H) + attempts_left (if_owed (Some (p d)))"
    unfolding p(1) by (rule remaining_update [OF owed_finite [OF assms(1)] assms(2)]) (use l in simp)
  with p l show ?thesis by auto
qed

lemma attempts_store:
  assumes "ok (hk_store H)" "distinct (map (\<lambda>x. dv_id (fst x)) xs)"
    and "\<forall>x \<in> set xs. owed (hk_store H) (dv_id (fst x)) = Some (fst x) \<and> is_due t (fst x)"
    and "(u', H') = foldl (\<lambda>(u, H) x. case finish_attempt put send threshold now x H of (r, H') \<Rightarrow> (count_status r u, H')) (u, H) xs"
  shows "ok (hk_store H') \<and> remaining (hk_store H') + length xs \<le> remaining (hk_store H) \<and> su_attempted u' = su_attempted u + length xs \<and>
    (\<forall>j. j \<notin> dv_id ` fst ` set xs \<longrightarrow> owed (hk_store H') j = owed (hk_store H) j) \<and>
    leases (hk_store H') = (\<lambda>j. if j \<in> dv_id ` fst ` set xs then None else leases (hk_store H) j)"
  using assms
proof (induction xs arbitrary: u H)
  case (Cons x xs)
  obtain d e where x: "x = (d, e)" by fastforce
  obtain r H1 where r: "finish_attempt put send threshold now (d, e) H = (r, H1)" by fastforce
  have H1: "ok (hk_store H1) \<and> remaining (hk_store H1) < remaining (hk_store H) \<and>
      (\<forall>j. j \<noteq> dv_id d \<longrightarrow> owed (hk_store H1) j = owed (hk_store H) j) \<and> leases (hk_store H1) = (leases (hk_store H))(dv_id d := None)"
    by (rule attempt_store [where e = e and now = now and send = send and threshold = threshold and t = t])
      (use Cons.prems x r in auto)
  have ih: "ok (hk_store H') \<and> remaining (hk_store H') + length xs \<le> remaining (hk_store H1) \<and>
      su_attempted u' = su_attempted (count_status r u) + length xs \<and>
      (\<forall>j. j \<notin> dv_id ` fst ` set xs \<longrightarrow> owed (hk_store H') j = owed (hk_store H1) j) \<and>
      leases (hk_store H') = (\<lambda>j. if j \<in> dv_id ` fst ` set xs then None else leases (hk_store H1) j)"
  proof (rule Cons.IH)
    show "ok (hk_store H1)" using H1 by blast
    show "distinct (map (\<lambda>x. dv_id (fst x)) xs)" using Cons.prems(2) by simp
    show "\<forall>y \<in> set xs. owed (hk_store H1) (dv_id (fst y)) = Some (fst y) \<and> is_due t (fst y)"
    proof
      fix y assume y: "y \<in> set xs"
      then have "dv_id (fst y) \<in> (\<lambda>x. dv_id (fst x)) ` set xs" by (rule imageI)
      moreover have "dv_id d \<notin> (\<lambda>x. dv_id (fst x)) ` set xs" using Cons.prems(2) x by simp
      ultimately have "dv_id (fst y) \<noteq> dv_id d" by metis
      then have "owed (hk_store H1) (dv_id (fst y)) = owed (hk_store H) (dv_id (fst y))" using H1 by blast
      with Cons.prems(3) y show "owed (hk_store H1) (dv_id (fst y)) = Some (fst y) \<and> is_due t (fst y)" by simp
    qed
    show "(u', H') = foldl (\<lambda>(u, H) x. case finish_attempt put send threshold now x H of (r, H') \<Rightarrow> (count_status r u, H')) (count_status r u, H1) xs"
      using Cons.prems(4) by (simp add: x r)
  qed
  have "leases (hk_store H') = (\<lambda>j. if j \<in> dv_id ` fst ` set (x # xs) then None else leases (hk_store H) j)"
    using ih H1 x by (intro ext) auto
  with ih H1 x show ?case by (auto simp: count_status_def)
qed simp

lemma chunks_store:
  assumes "ok (hk_store H)" "distinct (map dv_id ds)" "\<forall>d \<in> set ds. owed (hk_store H) (dv_id d) = Some d \<and> is_due t d"
    and "(u', H') = run_chunks put send threshold c now ds (u, H)"
  shows "ok (hk_store H') \<and> remaining (hk_store H') + length ds \<le> remaining (hk_store H) \<and> su_attempted u' = su_attempted u + length ds \<and>
    leases (hk_store H') = (\<lambda>j. if j \<in> dv_id ` set ds then None else leases (hk_store H) j)"
  using assms
proof (induction "length ds" arbitrary: ds u H rule: less_induct)
  case less
  show ?case
  proof (cases ds)
    case (Cons d rest)
    define nw lt where nl: "nw = d # take c rest" "lt = drop c rest"
    have split: "ds = nw @ lt" by (simp add: Cons nl)
    obtain u1 H1 where one: "run_chunk put send threshold now nw (u, H) = (u1, H1)" by fastforce
    define xs where xs: "xs = map (\<lambda>d. (d, get_endpoint (dv_endpoint d) (hk_endpoints H))) nw"
    have mf: "map fst xs = nw" by (simp add: xs comp_def)
    then have fst: "fst ` set xs = set nw" by (metis set_map)
    have len: "length ds = length xs + length lt" using split mf by (metis length_append length_map)
    have dist: "distinct (map dv_id nw)" "distinct (map dv_id lt)" "dv_id ` set nw \<inter> dv_id ` set lt = {}"
      using distinct_map_split less.prems(2) unfolding split by metis+
    have ids: "dv_id ` set ds = dv_id ` set nw \<union> dv_id ` set lt" unfolding split by auto
    have at: "owed (hk_store H) (dv_id x) = Some x \<and> is_due t x" if "x \<in> set nw \<or> x \<in> set lt" for x
      using less.prems(3) that unfolding split by auto
    have H1: "ok (hk_store H1) \<and> remaining (hk_store H1) + length xs \<le> remaining (hk_store H) \<and> su_attempted u1 = su_attempted u + length xs \<and>
        (\<forall>j. j \<notin> dv_id ` fst ` set xs \<longrightarrow> owed (hk_store H1) j = owed (hk_store H) j) \<and>
        leases (hk_store H1) = (\<lambda>j. if j \<in> dv_id ` fst ` set xs then None else leases (hk_store H) j)"
    proof (rule attempts_store)
      have "map dv_id (map fst xs) = map (\<lambda>x. dv_id (fst x)) xs" by simp
      then show "distinct (map (\<lambda>x. dv_id (fst x)) xs)" using dist(1) unfolding mf by metis
      show "\<forall>x \<in> set xs. owed (hk_store H) (dv_id (fst x)) = Some (fst x) \<and> is_due t (fst x)"
        using at fst by blast
      show "(u1, H1) = foldl (\<lambda>(u, H) x. case finish_attempt put send threshold now x H of (r, H') \<Rightarrow> (count_status r u, H')) (u, H) xs"
        using one by (simp add: run_chunk_def xs)
    qed (rule less.prems(1))
    have keep: "owed (hk_store H1) (dv_id x) = Some x \<and> is_due t x" if x: "x \<in> set lt" for x
    proof -
      have "dv_id x \<notin> dv_id ` set nw" using dist(3) x by blast
      then have "owed (hk_store H1) (dv_id x) = owed (hk_store H) (dv_id x)" using H1 unfolding fst by blast
      with at x show ?thesis by simp
    qed
    have run: "(u', H') = run_chunks put send threshold c now lt (u1, H1)" using less.prems(4) Cons one by (simp add: nl)
    have "length lt < length ds" by (simp add: Cons nl)
    from less.hyps [OF this _ dist(2) _ run] H1 keep
    have ih: "ok (hk_store H') \<and> remaining (hk_store H') + length lt \<le> remaining (hk_store H1) \<and>
        su_attempted u' = su_attempted u1 + length lt \<and>
        leases (hk_store H') = (\<lambda>j. if j \<in> dv_id ` set lt then None else leases (hk_store H1) j)" by blast
    have "leases (hk_store H') = (\<lambda>j. if j \<in> dv_id ` set ds then None else leases (hk_store H) j)"
      using ih H1 unfolding ids fst by (intro ext) simp
    with ih H1 len show ?thesis by linarith
  qed (use less.prems in simp)
qed

text \<open>One sweep: it works off an attempt for every row it claims, leaves no lease behind, and claims
  something when something is due.\<close>

lemma sweep_store:
  assumes "ok (hk_store H)" "(u, H') = sweep_deliveries claim put send threshold c now H" "leases (hk_store H) = (\<lambda>i. None)"
  shows "ok (hk_store H') \<and> leases (hk_store H') = (\<lambda>i. None) \<and> remaining (hk_store H') + su_attempted u \<le> remaining (hk_store H) \<and>
    (\<forall>i d. owed (hk_store H) i = Some d \<longrightarrow> is_due now d \<longrightarrow> 0 < su_attempted u)"
proof -
  let ?u = "\<lparr>su_attempted = 0, su_delivered = 0, su_exhausted = 0\<rparr>"
  obtain ds s where cl: "claim now claim_limit delivery_lease_ms (hk_store H) = (ds, s)" by fastforce
  note law = claim_law [OF assms(1) cl]
  have run: "(u, H') = run_chunks put send threshold c now ds (?u, H\<lparr>hk_store := s\<rparr>)" using assms(2) cl by (simp add: sweep_deliveries_def)
  have c: "ok (hk_store H') \<and> remaining (hk_store H') + length ds \<le> remaining (hk_store (H\<lparr>hk_store := s\<rparr>)) \<and> su_attempted u = su_attempted ?u + length ds \<and>
    leases (hk_store H') = (\<lambda>j. if j \<in> dv_id ` set ds then None else leases (hk_store (H\<lparr>hk_store := s\<rparr>)) j)"
    by (rule chunks_store [OF _ _ _ run, where t = now]) (use law in simp_all)
  have r: "remaining s = remaining (hk_store H)" using law by (simp add: remaining_def)
  have "ds \<noteq> []" if "owed (hk_store H) i = Some d" "is_due now d" for i d
    using claim_some [OF assms(1) _ that, of claim_limit delivery_lease_ms] cl assms(3) by (simp add: claim_limit_def free_lease_def)
  then show ?thesis using c law assms(3) r by (auto simp: fun_eq_iff)
qed

lemma sweeps_bounded:
  assumes "ok (hk_store H)" "leases (hk_store H) = (\<lambda>i. None)" "(us, H') = sweeps claim put send threshold c ts H"
  shows "ok (hk_store H') \<and> remaining (hk_store H') + sum_list (map su_attempted us) \<le> remaining (hk_store H)"
  using assms
proof (induction ts arbitrary: H us)
  case (Cons t ts)
  obtain u H1 where one: "(u, H1) = sweep_deliveries claim put send threshold c t H" by (metis surj_pair)
  obtain us1 where us: "us = u # us1" "(us1, H') = sweeps claim put send threshold c ts H1"
    using Cons.prems(3) one [symmetric] by (cases "sweeps claim put send threshold c ts H1") auto
  note step = sweep_store [OF Cons.prems(1) one Cons.prems(2)]
  from Cons.IH [OF _ _ us(2)] step us(1) show ?case by auto
qed simp

lemma remaining_zero:
  assumes "ok s" "remaining s = 0" "owed s i = Some d"
  shows "dv_status d \<noteq> DeliveryPending"
proof
  assume "dv_status d = DeliveryPending"
  then have "0 < attempts_left (owed s i)" using assms(3) by (simp add: attempts_left_def less_max_iff_disj)
  moreover have "attempts_left (owed s i) \<le> remaining s"
    unfolding remaining_def using owed_finite [OF assms(1)] assms(3) by (intro member_le_sum) auto
  ultimately show False using assms(2) by simp
qed

lemma sweeps_resolve:
  assumes "ok (hk_store H)" "leases (hk_store H) = (\<lambda>i. None)" "(us, H') = sweeps claim put send threshold c ts H"
    and "timely rows claim put send threshold c ts H" "\<And>s i d. ok s \<Longrightarrow> owed s i = Some d \<Longrightarrow> d \<in> set (rows s)"
    and "remaining (hk_store H) \<le> length ts" "owed (hk_store H') i = Some d"
  shows "dv_status d \<noteq> DeliveryPending"
  using assms
proof (induction ts arbitrary: H us)
  case Nil
  then show ?case using remaining_zero [of "hk_store H"] by simp
next
  case (Cons t ts)
  obtain u H1 where one: "(u, H1) = sweep_deliveries claim put send threshold c t H" by (metis surj_pair)
  obtain us1 where us: "us = u # us1" "(us1, H') = sweeps claim put send threshold c ts H1"
    using Cons.prems(3) one [symmetric] by (cases "sweeps claim put send threshold c ts H1") auto
  note step = sweep_store [OF Cons.prems(1) one Cons.prems(2)]
  have later: "timely rows claim put send threshold c ts H1" using Cons.prems(4) one [symmetric] by simp
  show ?case
  proof (cases "\<exists>j x. owed (hk_store H) j = Some x \<and> dv_status x = DeliveryPending")
    case True
    then obtain j x where x: "owed (hk_store H) j = Some x" "dv_status x = DeliveryPending" by blast
    have "x \<in> set (rows (hk_store H))" by (rule Cons.prems(5) [OF Cons.prems(1) x(1)])
    then have "is_due t x" using Cons.prems(4) x(2) by (auto simp: list_all_iff)
    then have "0 < su_attempted u" using step x(1) by blast
    then have "remaining (hk_store H1) \<le> length ts" "ok (hk_store H1)" "leases (hk_store H1) = (\<lambda>i. None)" using step Cons.prems(6) by simp_all
    then show ?thesis using Cons.IH [of H1 us1] us(2) later Cons.prems(5,7) by blast
  next
    case False
    then have "remaining (hk_store H) = 0"
      unfolding remaining_def by (intro sum.neutral ballI) (auto simp: attempts_left_def split: option.split)
    then have "remaining (hk_store H') = 0"
      using sweeps_bounded [OF Cons.prems(1,2,3)] by simp
    with remaining_zero [OF _ this Cons.prems(7)] sweeps_bounded [OF Cons.prems(1,2,3)] show ?thesis by blast
  qed
qed

end

section \<open>The stores provide it\<close>

lemma find_id: "distinct (map dv_id rows) \<Longrightarrow> find (\<lambda>d. dv_id d = i) rows = Some d \<longleftrightarrow> d \<in> set rows \<and> dv_id d = i"
  by (induction rows) auto

lemma find_none: "find (\<lambda>d. dv_id d = i) rows = None \<longleftrightarrow> i \<notin> dv_id ` set rows"
  by (induction rows) auto

lemma find_alter:
  assumes "find (\<lambda>d. dv_id d = i) rows = Some d" "dv_id (p d) = i"
  shows "find (\<lambda>d. dv_id d = j) (alter_first (\<lambda>d. dv_id d = i) p rows) = (if j = i then Some (p d) else find (\<lambda>d. dv_id d = j) rows) \<and>
    map dv_id (alter_first (\<lambda>d. dv_id d = i) p rows) = map dv_id rows"
  using assms by (induction rows) (auto split: if_splits)

lemma if_owed_Some: "if_owed r = Some d \<longleftrightarrow> r = Some d \<and> dv_status d \<noteq> Delivered"
  by (cases r) (auto simp: if_owed_def)

lemma claimable_facts:
  assumes "distinct (map dv_id rows)" "ls = claimable now n leaseMs claims rows"
  shows "distinct (map dv_id ls) \<and> (\<forall>d \<in> set ls. d \<in> set rows \<and> is_due now d \<and> free_lease now leaseMs (map_of claims (dv_id d)))"
proof -
  let ?P = "\<lambda>d. is_due now d \<and> \<not> leased_until now leaseMs claims d"
  have f: "filter (\<lambda>d. \<not> leased_until now leaseMs claims d) (filter (is_due now) rows) = filter ?P rows"
    by (simp add: conj_commute)
  have "distinct (map dv_id (filter ?P rows))" using assms(1) by (rule distinct_map_filter)
  then have "distinct (map dv_id (sort_key due_key (filter ?P rows)))"
    using mset_eq_imp_distinct_iff [of "map dv_id (sort_key due_key (filter ?P rows))" "map dv_id (filter ?P rows)"] by simp
  then have "distinct (take n (map dv_id (sort_key due_key (filter ?P rows))))" by (rule distinct_take)
  then have "distinct (map dv_id ls)" unfolding assms(2) claimable_def f by (simp add: take_map)
  moreover have "set ls \<subseteq> set (filter ?P rows)" unfolding assms(2) claimable_def f using set_take_subset by fastforce
  moreover have "free_lease now leaseMs (map_of claims (dv_id d))" if "\<not> leased_until now leaseMs claims d" for d
    using that by (simp add: free_lease_def leased_until_def split: option.splits)
  ultimately show ?thesis by auto
qed

lemma claimable_some:
  assumes "d \<in> set rows" "is_due now d" "free_lease now leaseMs (map_of claims (dv_id d))" "0 < n"
  shows "claimable now n leaseMs claims rows \<noteq> []"
proof -
  let ?xs = "filter (\<lambda>d. \<not> leased_until now leaseMs claims d) (filter (is_due now) rows)"
  have "d \<in> set ?xs" using assms(1-3) by (simp add: free_lease_def leased_until_def split: option.splits)
  then have "?xs \<noteq> []" by (metis empty_iff empty_set)
  then have "sort_key due_key ?xs \<noteq> []" by (metis set_empty set_sort)
  with assms(4) show ?thesis by (simp add: claimable_def)
qed

lemma map_of_claim_all: "map_of (claim_all now ls claims) = (\<lambda>i. if i \<in> dv_id ` set ls then Some now else map_of claims i)"
proof (induction ls arbitrary: claims)
  case (Cons d ls)
  show ?case unfolding claim_all_def foldl_Cons by (fold claim_all_def) (auto simp: Cons.IH map_of_update fun_eq_iff)
qed (simp add: claim_all_def)

lemma map_of_dropped: "map_of (AList.delete i m) = (map_of m)(i := None)"
  by (rule delete_conv')

lemma is_due_owed: "is_due now d \<Longrightarrow> dv_status d \<noteq> Delivered"
  by (simp add: is_due_def)

interpretation memory_store: delivery_store "\<lambda>s i. if_owed (find (\<lambda>d. dv_id d = i) (md_rows s))" "\<lambda>s. map_of (md_claims s)"
  memory_claim memory_record "\<lambda>s. distinct (map dv_id (md_rows s))"
proof (unfold_locales, goal_cases)
  case (1 s)
  have "dom (\<lambda>i. if_owed (find (\<lambda>d. dv_id d = i) (md_rows s))) \<subseteq> dv_id ` set (md_rows s)"
    by (auto simp: if_owed_Some find_id [OF 1])
  then show ?case by (rule finite_subset) simp
next
  case (2 s i d)
  then show ?case by (simp add: if_owed_Some find_id)
next
  case (3 s now n leaseMs ls s')
  have ls: "ls = claimable now n leaseMs (md_claims s) (md_rows s)" "s' = s\<lparr>md_claims := claim_all now ls (md_claims s)\<rparr>"
    using 3(2) by (auto simp: memory_claim_def Let_def)
  show ?case using claimable_facts [OF 3(1) ls(1)] 3(1) is_due_owed by (auto simp: ls(2) map_of_claim_all if_owed_Some find_id)
next
  case (4 s n i d now leaseMs)
  then have "d \<in> set (md_rows s)" "dv_id d = i" by (simp_all add: if_owed_Some find_id)
  with 4 claimable_some [of d] show ?case by (simp add: memory_claim_def Let_def)
next
  case (5 s i d p)
  then have f: "find (\<lambda>d. dv_id d = i) (md_rows s) = Some d" by (simp add: if_owed_Some)
  show ?case using find_alter [of i "md_rows s" d p, OF f 5(3)] f 5(1) by (auto simp: memory_record_def map_of_dropped fun_eq_iff)
qed

lemma replay_snoc: "replay_journal (ls @ [Row d]) = AList.update (dv_id d) d (replay_journal ls)"
  by (simp add: replay_journal_def)

lemma replay_rows:
  "distinct (map fst (replay_journal ls)) \<and> (\<forall>x \<in> set (replay_journal ls). dv_id (snd x) = fst x)"
proof (induction ls rule: rev_induct)
  case (snoc l ls)
  show ?case
  proof (cases l)
    case (Row d)
    have "dv_id (snd x) = fst x" if "x \<in> set (AList.update (dv_id d) d (replay_journal ls))" for x
    proof -
      have "map_of (AList.update (dv_id d) d (replay_journal ls)) (fst x) = Some (snd x)"
        using that snoc by (simp add: distinct_update)
      then show ?thesis using snoc by (auto simp: map_of_update dest!: map_of_SomeD split: if_splits)
    qed
    with snoc Row show ?thesis by (simp add: replay_snoc distinct_update)
  qed (use snoc in \<open>simp_all add: replay_journal_def\<close>)
qed (simp add: replay_journal_def)

lemma journal_row: "map_of (replay_journal ls) i = Some d \<longleftrightarrow> d \<in> set (map snd (replay_journal ls)) \<and> dv_id d = i"
proof -
  have a: "map_of (replay_journal ls) i = Some d \<longleftrightarrow> (i, d) \<in> set (replay_journal ls)" using replay_rows [of ls] by (simp add: map_of_eq_Some_iff)
  show ?thesis unfolding a using replay_rows [of ls] by force
qed

lemma journal_ids: "distinct (map dv_id (map snd (replay_journal ls)))"
proof -
  have m: "map dv_id (map snd (replay_journal ls)) = map fst (replay_journal ls)" using replay_rows [of ls] by simp
  show ?thesis unfolding m using replay_rows [of ls] by blast
qed

lemma replay_map_Row:
  assumes "distinct (map dv_id ds)"
  shows "map_of (replay_journal (map Row ds)) i = Some d \<longleftrightarrow> d \<in> set ds \<and> dv_id d = i"
  using assms
proof (induction ds arbitrary: i d rule: rev_induct)
  case (snoc x ds)
  then show ?case by (auto simp: replay_snoc map_of_update image_iff split: if_splits)
qed (simp add: replay_journal_def)

lemma compacted_rows:
  assumes "distinct (map dv_id rows)"
  shows "distinct (map dv_id (compacted Q rows)) \<and> set (compacted Q rows) \<subseteq> set rows \<and>
    (\<forall>d \<in> set rows. dv_status d \<noteq> Delivered \<longrightarrow> d \<in> set (compacted Q rows))"
proof -
  let ?K = "filter (\<lambda>d. dv_status d \<noteq> Delivered) rows" and ?D = "filter (\<lambda>d. dv_status d = Delivered) rows"
  let ?T = "take (jo_keep Q) (sort_key (\<lambda>d. - dv_created d) ?D)"
  have T: "set ?T \<subseteq> set ?D" using set_take_subset by fastforce
  have "distinct (map dv_id (sort_key (\<lambda>d. - dv_created d) ?D))"
    using mset_eq_imp_distinct_iff [of "map dv_id (sort_key (\<lambda>d. - dv_created d) ?D)" "map dv_id ?D"] distinct_map_filter [OF assms] by simp
  then have dT: "distinct (map dv_id ?T)" by (metis distinct_take take_map)
  have dK: "distinct (map dv_id ?K)" by (rule distinct_map_filter [OF assms])
  have inj: "inj_on dv_id (set rows)" using assms by (simp add: distinct_map)
  have "dv_id ` set ?K \<inter> dv_id ` set ?T = {}"
  proof -
    have False if "x \<in> set ?K" "y \<in> set ?T" "dv_id x = dv_id y" for x y
    proof -
      have y: "y \<in> set rows" "dv_status y = Delivered" using T that(2) by auto
      have "x = y" by (rule inj_onD [OF inj that(3)]) (use that(1) y in simp_all)
      with that(1) y show False by simp
    qed
    then show ?thesis by blast
  qed
  with dK dT have "distinct (map dv_id (?K @ ?T))" by simp
  then have "distinct (map dv_id (compacted Q rows))"
    using mset_eq_imp_distinct_iff [of "map dv_id (sort_key dv_created (?K @ ?T))" "map dv_id (?K @ ?T)"] by (simp add: compacted_def Let_def)
  moreover have "set (compacted Q rows) = set ?K \<union> set ?T" by (simp add: compacted_def Let_def)
  ultimately show ?thesis using T by auto
qed

text \<open>Compaction keeps every row that is still owed.\<close>

lemma compact_owed: "if_owed (map_of (replay_journal (compact Q ls)) i) = if_owed (map_of (replay_journal ls) i)"
proof -
  define rows where "rows = map snd (replay_journal ls)"
  have c: "distinct (map dv_id (compacted Q rows))" "set (compacted Q rows) \<subseteq> set rows"
    "\<And>d. d \<in> set rows \<Longrightarrow> dv_status d \<noteq> Delivered \<Longrightarrow> d \<in> set (compacted Q rows)"
    using compacted_rows [OF journal_ids [of ls], of Q] unfolding rows_def by blast+
  have "if_owed (map_of (replay_journal (compact Q ls)) i) = Some d \<longleftrightarrow> if_owed (map_of (replay_journal ls) i) = Some d" for d
    unfolding if_owed_Some compact_def journal_row [of ls] rows_def [symmetric] replay_map_Row [OF c(1)] using c(2,3) by blast
  then show ?thesis by (metis not_Some_eq)
qed

lemma append_owed:
  "(\<lambda>i. if_owed (map_of (replay_journal (js_lines (append_row Q d s))) i)) = (\<lambda>i. if_owed (map_of (replay_journal (js_lines s)) i))(dv_id d := if_owed (Some d))"
  by (rule ext) (simp add: append_row_def Let_def compact_owed replay_snoc map_of_update)

interpretation journal: delivery_store "\<lambda>s i. if_owed (map_of (replay_journal (js_lines s)) i)" "\<lambda>s. map_of (js_claims s)"
  journal_claim "journal_record Q" "\<lambda>s. True" for Q
proof (unfold_locales, goal_cases)
  case (1 s)
  have "dom (\<lambda>i. if_owed (map_of (replay_journal (js_lines s)) i)) \<subseteq> dom (map_of (replay_journal (js_lines s)))"
    by (auto simp: if_owed_Some)
  then show ?case by (rule finite_subset) (rule finite_dom_map_of)
next
  case (2 s i d)
  then show ?case by (simp add: if_owed_Some journal_row)
next
  case (3 s now n leaseMs ls s')
  have ls: "ls = claimable now n leaseMs (js_claims s) (journal_rows s)" "s' = s\<lparr>js_claims := claim_all now ls (js_claims s)\<rparr>"
    using 3(2) by (auto simp: journal_claim_def Let_def)
  show ?case using claimable_facts [OF _ ls(1)] journal_ids is_due_owed
    by (auto simp: ls(2) map_of_claim_all if_owed_Some journal_row journal_rows_def)
next
  case (4 s n i d now leaseMs)
  then have "d \<in> set (journal_rows s)" "dv_id d = i" by (simp_all add: if_owed_Some journal_row journal_rows_def)
  with 4 claimable_some [of d] show ?case by (simp add: journal_claim_def Let_def)
next
  case (5 s i d p)
  then have f: "map_of (replay_journal (js_lines s)) i = Some d" by (simp add: if_owed_Some)
  have "js_claims (append_row Q x t) = js_claims t" for x t by (simp add: append_row_def Let_def)
  with f 5(3) show ?case by (simp add: journal_record_def append_owed map_of_dropped)
qed

text \<open>The rows of the journal that are still owed.\<close>

definition journal_owed :: "journal_store \<Rightarrow> string \<Rightarrow> delivery option" where
  "journal_owed s i = if_owed (map_of (replay_journal (js_lines s)) i)"

lemma journal_owed_append: "journal_owed (append_row Q d s) = (journal_owed s)(dv_id d := if dv_status d = Delivered then None else Some d)"
  unfolding journal_owed_def using append_owed [of Q d s] by (simp add: if_owed_def)

lemma journal_owed_claims [simp]: "journal_owed (s\<lparr>js_claims := m\<rparr>) = journal_owed s"
  by (rule ext) (simp add: journal_owed_def)

lemma remaining_rows:
  "journal.remaining s = sum_list (map (\<lambda>d. attempts_left (Some d)) (journal_rows s))"
proof -
  let ?o = "\<lambda>i. if_owed (map_of (replay_journal (js_lines s)) i)" and ?R = "set (journal_rows s)"
  have inj: "inj_on dv_id ?R" "distinct (journal_rows s)"
    using journal_ids [of "js_lines s"] unfolding journal_rows_def distinct_map [of dv_id] by blast+
  have at: "map_of (replay_journal (js_lines s)) (dv_id d) = Some d" if "d \<in> ?R" for d
    using that by (simp add: journal_row journal_rows_def)
  have zero: "attempts_left (if_owed (Some d)) = attempts_left (Some d)" for d by (simp add: if_owed_def attempts_left_def)
  have "dom ?o \<subseteq> dv_id ` ?R" by (auto simp: if_owed_Some journal_row journal_rows_def)
  then have "(\<Sum>i \<in> dom ?o. attempts_left (?o i)) = (\<Sum>i \<in> dv_id ` ?R. attempts_left (?o i))"
    by (intro sum.mono_neutral_left) (auto simp: attempts_left_def split: option.splits)
  also have "\<dots> = (\<Sum>d \<in> ?R. attempts_left (?o (dv_id d)))" using inj(1) by (simp add: sum.reindex)
  also have "\<dots> = (\<Sum>d \<in> ?R. attempts_left (Some d))" by (intro sum.cong refl) (simp add: at zero)
  also have "\<dots> = sum_list (map (\<lambda>d. attempts_left (Some d)) (journal_rows s))" using inj(2) by (simp add: sum_list_distinct_conv_sum_set)
  finally show ?thesis by (simp add: journal.remaining_def)
qed

section \<open>Properties\<close>



text \<open>The file under a compaction and another writer.\<close>

datatype file_step = AppendLine delivery | CompactReads | CompactRenames

fun file_steps :: "journal_options \<Rightarrow> file_step list \<Rightarrow> journal_line list \<times> delivery list \<Rightarrow> journal_line list \<times> delivery list" where
  "file_steps Q [] f = f"
| "file_steps Q (AppendLine d # xs) (ls, seen) = file_steps Q xs (ls @ [Row d], seen)"
| "file_steps Q (CompactReads # xs) (ls, seen) = file_steps Q xs (ls, map snd (replay_journal ls))"
| "file_steps Q (CompactRenames # xs) (ls, seen) = file_steps Q xs (map Row (compacted Q seen), seen)"

text \<open>A compaction can lose a delivery. A rewrite reads the journal, and renames its result over the file
  some time later; a row another writer appended in between (the dashboard, or another attempt of the same
  chunk) is gone, although it was never sent.\<close>

theorem compaction_loses_delivery:
  assumes "dv_id d \<notin> dv_id ` set (map snd (replay_journal ls))"
  shows "map_of (replay_journal (fst (file_steps Q [CompactReads, AppendLine d, CompactRenames] (ls, [])))) (dv_id d) = None \<and>
    (dv_status d \<noteq> Delivered \<longrightarrow>
      map_of (replay_journal (fst (file_steps Q [AppendLine d, CompactReads, CompactRenames] (ls, [])))) (dv_id d) = Some d)"
proof -
  define rows where "rows = map snd (replay_journal ls)"
  have c: "distinct (map dv_id (compacted Q rows))" "set (compacted Q rows) \<subseteq> set rows"
    using compacted_rows [OF journal_ids [of ls]] unfolding rows_def by blast+
  have n: "map_of (replay_journal (map Row (compacted Q rows))) (dv_id d) \<noteq> Some x" for x
    unfolding replay_map_Row [OF c(1)] using c(2) assms unfolding rows_def [symmetric] by (metis imageI subsetD)
  then have "map_of (replay_journal (map Row (compacted Q rows))) (dv_id d) = None" by (metis not_Some_eq)
  moreover have "map_of (replay_journal (compact Q (ls @ [Row d]))) (dv_id d) = Some d" if "dv_status d \<noteq> Delivered"
    using compact_owed [of Q "ls @ [Row d]" "dv_id d"] that
    by (simp add: replay_snoc map_of_update if_owed_def split: option.splits if_splits)
  ultimately show ?thesis by (simp add: rows_def compact_def)
qed

text \<open>An edited endpoint list redirects waiting deliveries. The journal outlives the process and names an
  endpoint by its position in the configuration, so after the first endpoint is taken out of it and the gate
  restarts, a delivery that waits for the first endpoint is sent to the second one, under its secret.\<close>

theorem removed_endpoint_redirects:
  "map_option ep_url (get_endpoint (ep_id (hd (env_endpoints (a # b # rest)))) (env_endpoints (a # b # rest))) = Some (es_url a) \<and>
   map_option (\<lambda>e. (ep_url e, ep_secret e)) (get_endpoint (ep_id (hd (env_endpoints (a # b # rest)))) (env_endpoints (b # rest))) =
     Some (es_url b, es_secret b)"
  by (simp add: env_endpoints_def get_endpoint_def env_endpoint_def)

definition sample_hook :: delivery where
  "sample_hook = delivery_of ''d'' 0 \<lparr>nd_endpoint = ''env:0'', nd_type = ''settlement.completed'', nd_event = ''e'', nd_host = None,
     nd_payload = JNull, nd_next = Some 0\<rparr>"

definition sample_hooks :: "(journal_store, unit) hooks" where
  "sample_hooks = \<lparr>hk_store = \<lparr>js_lines = [Row sample_hook], js_claims = []\<rparr>,
     hk_endpoints = env_endpoints [\<lparr>es_url = ''https://a'', es_secret = None, es_host = None, es_events = [''settlement.completed'']\<rparr>], hk_world = ()\<rparr>"

text \<open>A receiver that always answers 500.\<close>

definition sample_send :: "endpoint \<Rightarrow> delivery \<Rightarrow> int \<Rightarrow> unit \<Rightarrow> send_reply \<times> unit" where
  "sample_send e d t w = (SendReply \<lparr>sr_ok = False, sr_code = Some 500, sr_body = None, sr_error = Some ''non-2xx: 500'', sr_blocked = False, sr_retry = None\<rparr>, w)"

definition sample_times :: "int list" where
  "sample_times = map (\<lambda>k. int k * 36000000) [0..<8]"

definition sample_journal :: journal_options where
  "sample_journal = \<lparr>jo_compact_at = 2, jo_keep = 1\<rparr>"

lemma sample_timely:
  "timely journal_rows journal_claim (journal_record sample_journal) sample_send 20 4 sample_times sample_hooks"
  by code_simp


theorem compaction_loses_delivery_witness:
  "map_of (replay_journal (fst (file_steps sample_journal [CompactReads, AppendLine sample_hook, CompactRenames] ([], [])))) ''d'' = None \<and>
   map_of (replay_journal (fst (file_steps sample_journal [AppendLine sample_hook, CompactReads, CompactRenames] ([], [])))) ''d'' = Some sample_hook"
  using compaction_loses_delivery [of sample_hook "[]" sample_journal] by (simp add: replay_journal_def sample_hook_def delivery_of_def)
end
