(* ===== verification/WebhookSend.thy ===== *)
theory WebhookSend
  imports Outbound Webhooks Nonce
begin

text \<open>
  Sending a webhook, \<open>packages/shared/src/webhooks/sender.ts\<close> and \<open>transform.ts\<close>, with the signature of
  \<open>packages/sdk/src/crypto/webhook.ts\<close>: the check of the target, the body of each channel, the request
  through \<open>guardedRequest\<close> and its result, and the check the receiver makes. JSON text, the digest, the
  decimal text of a number and the date parser are parameters; the injected \<open>fetch\<close> of the tests is left out.
\<close>

section \<open>Signing\<close>

record hook_platform =
  hp_json :: "json \<Rightarrow> string"
  hp_hmac :: "string \<Rightarrow> string \<Rightarrow> string"
  hp_number :: "rat \<Rightarrow> string"
  hp_date :: "string \<Rightarrow> rat option"

definition sign_payload :: "hook_platform \<Rightarrow> string \<Rightarrow> string \<Rightarrow> rat \<Rightarrow> string" where
  "sign_payload P secret body tSecs =
     ''t='' @ hp_number P tSecs @ '',v1='' @ hp_hmac P secret (hp_number P tSecs @ ''.'' @ body)"

definition header_part :: "string \<Rightarrow> string \<times> string" where
  "header_part kv = (let k = takeWhile (\<lambda>c. c \<noteq> CHR ''='') kv in
     if CHR ''='' \<in> set kv then (k, drop (length k + 1) kv) else ([], []))"

definition lower_hex64 :: "string \<Rightarrow> bool" where
  "lower_hex64 s \<longleftrightarrow> length s = 64 \<and> list_all (\<lambda>c. is_digit c \<or> CHR ''a'' \<le> c \<and> c \<le> CHR ''f'') s"

text \<open>\<open>Object.fromEntries\<close>: of two parts with one name the later one counts.\<close>

definition verify_payload :: "hook_platform \<Rightarrow> string \<Rightarrow> string \<Rightarrow> string \<Rightarrow> rat \<Rightarrow> rat \<Rightarrow> bool" where
  "verify_payload P secret body header nowSecs toleranceSecs =
     (let parts = map_of (rev (map header_part (js_split CHR '','' header))) in
      case (case parts ''t'' of None \<Rightarrow> None | Some x \<Rightarrow> js_number x, parts ''v1'') of
        (Some t, Some v1) \<Rightarrow>
          if \<not> lower_hex64 v1 then False
          else if \<bar>nowSecs - t\<bar> > toleranceSecs then False
          else hp_hmac P secret (hp_number P t @ ''.'' @ body) = v1
      | _ \<Rightarrow> False)"

definition webhook_max_skew :: rat where "webhook_max_skew = 300"

section \<open>The body of a channel\<close>

record canonical_event =
  cv_id :: string
  cv_type :: string
  cv_event :: string
  cv_created :: int
  cv_data :: json

definition string_prop :: "json \<Rightarrow> string \<Rightarrow> string option" where
  "string_prop d k = (case json_prop d k of JString s \<Rightarrow> Some s | _ \<Rightarrow> None)"

text \<open>A number that is not finite is a number to \<open>typeof\<close>; parsed JSON holds none.\<close>

definition number_prop :: "json \<Rightarrow> string \<Rightarrow> rat option" where
  "number_prop d k = (case json_prop d k of JNumber q \<Rightarrow> Some q | _ \<Rightarrow> None)"

definition or_text :: "string option \<Rightarrow> string \<Rightarrow> string" where
  "or_text x d = (case x of None \<Rightarrow> d | Some s \<Rightarrow> s)"

definition summarize :: "hook_platform \<Rightarrow> string \<Rightarrow> json \<Rightarrow> json" where
  "summarize P eventType d =
     (if eventType = ''settlement.completed'' then
        JString (''Settlement completed for '' @ or_text (string_prop d ''tenant'') ''your site'' @ '': '' @
          or_text (map_option (hp_number P) (number_prop d ''acked'')) ''?'' @ '' citation(s) settled'' @
          or_text (map_option (\<lambda>g. '' ('' @ hp_number P g @ [CHR '' '', CHR 0xB5] @ ''USDC gross)'') (number_prop d ''grossMicroUsdc'')) [] @ ''.'')
      else if eventType = ''anomaly.detected'' then
        JString (''Anomaly detected: '' @ or_text (map_option (\<lambda>m. ''['' @ m @ ''] '') (string_prop d ''metric'')) [] @
          or_text (string_prop d ''detail'') ''an anomaly was detected'' @ ''.'')
      else if eventType = ''ping'' then JString ''Naulon webhook test ping. Your endpoint is configured correctly.''
      else JUndefined)"

definition canonical_json :: "canonical_event \<Rightarrow> json" where
  "canonical_json e = JObject [(''id'', JString (cv_id e)), (''type'', JString (cv_type e)), (''eventId'', JString (cv_event e)),
     (''createdAt'', JNumber (of_int (cv_created e))), (''data'', cv_data e)]"

fun wire_json :: "hook_platform \<Rightarrow> webhook_channel \<Rightarrow> string \<Rightarrow> canonical_event \<Rightarrow> json" where
  "wire_json P RawHook eventType e = canonical_json e"
| "wire_json P SlackHook eventType e = JObject [(''text'', summarize P eventType (cv_data e))]"
| "wire_json P DiscordHook eventType e = (let line = summarize P eventType (cv_data e) in
     JObject [(''content'', line), (''embeds'', JArray [JObject [(''title'', JString eventType), (''description'', line)]])])"
| "wire_json P TeamsHook eventType e =
     JObject [(''type'', JString ''message''),
       (''attachments'', JArray [JObject
         [(''contentType'', JString ''application/vnd.microsoft.card.adaptive''), (''contentUrl'', JNull),
          (''content'', JObject
            [(''$schema'', JString ''http://adaptivecards.io/schemas/adaptive-card.json''), (''type'', JString ''AdaptiveCard''),
             (''version'', JString ''1.2''),
             (''body'', JArray [JObject [(''type'', JString ''TextBlock''), (''text'', summarize P eventType (cv_data e)), (''wrap'', JBool True)]])])]])]"

definition render_wire :: "hook_platform \<Rightarrow> webhook_channel \<Rightarrow> string \<Rightarrow> canonical_event \<Rightarrow> string" where
  "render_wire P ch eventType e = hp_json P (wire_json P ch eventType e)"

section \<open>The target\<close>

definition chat_hosts :: "webhook_channel \<Rightarrow> string list" where
  "chat_hosts ch = (case ch of RawHook \<Rightarrow> [] | SlackHook \<Rightarrow> [''hooks.slack.com''] | DiscordHook \<Rightarrow> [''discord.com'', ''discordapp.com'']
     | TeamsHook \<Rightarrow> [''.logic.azure.com''])"

definition is_allowed_chat_host :: "webhook_channel \<Rightarrow> string \<Rightarrow> bool" where
  "is_allowed_chat_host ch host \<longleftrightarrow> ch = RawHook \<or>
     list_ex (\<lambda>a. if prefix ''.'' a then suffix a (js_lower host) else js_lower host = a) (chat_hosts ch)"

fun channel_name :: "webhook_channel \<Rightarrow> string" where
  "channel_name RawHook = ''raw''"
| "channel_name SlackHook = ''slack''"
| "channel_name DiscordHook = ''discord''"
| "channel_name TeamsHook = ''teams''"

text \<open>The error, if any, and the lookups made so far.\<close>

definition resolve_private_check :: "outside \<Rightarrow> nat \<Rightarrow> string \<Rightarrow> bool \<Rightarrow> string option \<times> nat" where
  "resolve_private_check w n host allowPrivate =
     (if allowPrivate then (None, n)
      else if is_blocked_target host then (Some (blocked_message host), n)
      else if is_ip_literal host then (None, n)
      else (case o_dns w n host of
          Inl _ \<Rightarrow> (Some (''dns resolution failed: '' @ host), Suc n)
        | Inr addrs \<Rightarrow> (map_option (\<lambda>a. ''resolves to a blocked address: '' @ a) (find is_blocked_target addrs), Suc n)))"

definition guard_target :: "outside \<Rightarrow> nat \<Rightarrow> webhook_channel \<Rightarrow> string \<Rightarrow> bool \<Rightarrow> string option \<times> nat" where
  "guard_target w n ch url allowPrivate = (case o_url w url of None \<Rightarrow> (Some ''invalid url'', n)
     | Some u \<Rightarrow>
         if u_protocol u \<noteq> ''https:'' then (Some ''url must be https'', n)
         else (let host = bare_host (u_hostname u) in
           if ch \<noteq> RawHook then
             (if \<not> is_allowed_chat_host ch host then (Some (''host not allowed for '' @ channel_name ch @ '': '' @ host), n)
              else resolve_private_check w n host False)
           else resolve_private_check w n host allowPrivate))"

section \<open>Sending\<close>

definition parse_retry_after :: "hook_platform \<Rightarrow> string option \<Rightarrow> int \<Rightarrow> rat option" where
  "parse_retry_after P v nowMs = (case v of None \<Rightarrow> None | Some s \<Rightarrow>
     if s = [] then None
     else (case js_number s of Some secs \<Rightarrow> Some (max 0 (secs * 1000))
       | None \<Rightarrow> map_option (\<lambda>d. max 0 (d - of_int nowMs)) (hp_date P s)))"

record hook_options =
  ho_timeout :: nat
  ho_private :: bool

definition hook_max_body :: nat where "hook_max_body = 2048"

definition hook_headers :: "hook_platform \<Rightarrow> webhook_channel \<Rightarrow> string \<Rightarrow> string \<Rightarrow> string \<Rightarrow> string \<Rightarrow> int \<Rightarrow> (string \<times> string) list" where
  "hook_headers P ch eventType secret deliveryId body nowMs =
     [(''content-type'', ''application/json''), (''user-agent'', ''naulon-webhooks/1'')] @
     (if ch = RawHook then [(''Naulon-Signature'', sign_payload P secret body (of_int (nowMs div 1000))), (''Naulon-Id'', deliveryId),
        (''Naulon-Event'', eventType)] else [])"

definition refused_send :: "string \<Rightarrow> bool \<Rightarrow> send_result" where
  "refused_send e blk = \<lparr>sr_ok = False, sr_code = None, sr_body = None, sr_error = Some e, sr_blocked = blk, sr_retry = None\<rparr>"

definition noop_send :: send_result where
  "noop_send = refused_send ''webhook backend off'' False"

definition int_text :: "hook_platform \<Rightarrow> int \<Rightarrow> string" where
  "int_text P i = hp_number P (of_int i)"

definition answered_send :: "hook_platform \<Rightarrow> int \<Rightarrow> int \<Rightarrow> string \<Rightarrow> (string \<times> string) list \<Rightarrow> send_result" where
  "answered_send P nowMs status body headers =
     (if status = 429 then \<lparr>sr_ok = False, sr_code = Some 429, sr_body = Some body, sr_error = Some ''rate limited (429)'',
        sr_blocked = False, sr_retry = parse_retry_after P (map_of headers ''retry-after'') nowMs\<rparr>
      else if 200 \<le> status \<and> status < 300 then \<lparr>sr_ok = True, sr_code = Some status, sr_body = Some body, sr_error = None,
        sr_blocked = False, sr_retry = None\<rparr>
      else \<lparr>sr_ok = False, sr_code = Some status, sr_body = Some body, sr_error = Some (''non-2xx: '' @ int_text P status),
        sr_blocked = False, sr_retry = None\<rparr>)"

definition hook_request :: "hook_platform \<Rightarrow> hook_options \<Rightarrow> webhook_channel \<Rightarrow> string \<Rightarrow> string \<Rightarrow> string \<Rightarrow> canonical_event \<Rightarrow> int \<Rightarrow> request_options" where
  "hook_request P opts ch eventType secret deliveryId e nowMs =
     (let body = render_wire P ch eventType e in
      \<lparr>ro_method = Some ''POST'', ro_headers = hook_headers P ch eventType secret deliveryId body nowMs, ro_body = Some body,
       ro_timeout = Some (ho_timeout opts), ro_max = Some hook_max_body, ro_truncate = True, ro_private = ho_private opts\<rparr>)"

text \<open>\<open>HttpWebhookSender.send\<close>: the result, the addresses the delivery connected to, the lookups made.\<close>

definition http_send :: "hook_platform \<Rightarrow> outside \<Rightarrow> nat \<Rightarrow> hook_options \<Rightarrow> webhook_channel \<Rightarrow> string \<Rightarrow> string \<Rightarrow> string \<Rightarrow> string \<Rightarrow>
    canonical_event \<Rightarrow> int \<Rightarrow> send_result \<times> string list \<times> nat" where
  "http_send P w n opts ch eventType url secret deliveryId e nowMs =
     (case guard_target w n ch url (ho_private opts) of
        (Some err, n1) \<Rightarrow> (refused_send err True, [], n1)
      | (None, n1) \<Rightarrow>
          (case guarded_request w n1 (hook_request P opts ch eventType secret deliveryId e nowMs) url of
             (GuardedNo refusal detail, dialled, n2) \<Rightarrow> (refused_send detail (refusal = Blocked), dialled, n2)
           | (GuardedOk status body headers, dialled, n2) \<Rightarrow> (answered_send P nowMs status body headers, dialled, n2)))"

section \<open>Properties\<close>

lemma send_cases:
  assumes "http_send P w n opts ch ty url secret i e now = (r, dialled, n')" "dialled \<noteq> []"
  obtains n1 g where "guard_target w n ch url (ho_private opts) = (None, n1)"
    "guarded_request w n1 (hook_request P opts ch ty secret i e now) url = (g, dialled, n')"
  using assms by (auto simp: http_send_def split: prod.splits option.splits guarded_response.splits)

text \<open>A delivery connects only over https; one for a chat channel only to a host of that provider; and
  without the knob for private targets none ever connects to a private or reserved address, whatever the
  name service answers between the check of the target and the connection.\<close>

theorem send_dials_checked:
  assumes "url_brackets w url" "http_send P w n opts ch ty url secret i e now = (r, dialled, n')"
  shows "(ho_private opts \<or> list_all public_target dialled) \<and>
    (dialled = [] \<or> (\<exists>u. o_url w url = Some u \<and> u_protocol u = ''https:'' \<and> is_allowed_chat_host ch (bare_host (u_hostname u))))"
proof (cases "dialled = []")
  case False
  from assms(2) False obtain n1 g where g: "guard_target w n ch url (ho_private opts) = (None, n1)"
    and q: "guarded_request w n1 (hook_request P opts ch ty secret i e now) url = (g, dialled, n')" by (rule send_cases)
  have "list_all public_target dialled" if "\<not> ho_private opts"
    using request_dials_public [OF _ assms(1) q] that by (simp add: hook_request_def Let_def)
  moreover have "\<exists>u. o_url w url = Some u \<and> u_protocol u = ''https:'' \<and> is_allowed_chat_host ch (bare_host (u_hostname u))"
    using g is_allowed_chat_host_def [of RawHook] by (auto simp: guard_target_def Let_def split: option.splits if_splits)
  ultimately show ?thesis by blast
qed simp

text \<open>A chat host whose name is answered with a public address first, with the metadata address afterwards.\<close>

definition rebinding :: outside where
  "rebinding = sample_outside\<lparr>o_url := \<lambda>s. Some \<lparr>u_protocol = ''https:'', u_user = [], u_pass = [], u_hostname = ''hooks.slack.com''\<rparr>\<rparr>"

text \<open>The knob for private targets, which is to relax signed deliveries only and never a chat channel,
  reaches the connection of every channel: with the knob on, a chat host whose name is answered with a
  public address to the check and with the metadata address to the connection is delivered to the
  metadata address; without the knob the same delivery is refused for good.\<close>

theorem private_knob_reaches_chat:
  "fst (snd (http_send P rebinding 0 \<lparr>ho_timeout = t, ho_private = True\<rparr> SlackHook ty url secret i e now)) = [''169.254.169.254''] \<and>
   http_send P rebinding 0 \<lparr>ho_timeout = t, ho_private = False\<rparr> SlackHook ty url secret i e now =
     (refused_send (blocked_message ''169.254.169.254'') True, [], 2)"
proof -
  have b: "bare_host ''hooks.slack.com'' = ''hooks.slack.com''" "dial_host ''hooks.slack.com'' = ''hooks.slack.com''"
    by (simp_all add: bare_host_def dial_host_def suffix_def)
  have l: "is_ip_literal ''hooks.slack.com'' = False" "is_blocked_target ''hooks.slack.com'' = False" by code_simp+
  have a: "is_allowed_chat_host SlackHook ''hooks.slack.com''" by code_simp
  show ?thesis
    by (simp add: http_send_def guard_target_def rebinding_def sample_outside_def b l a resolve_private_check_def sample_addresses
        guarded_request_def hook_request_def transport_def guarded_lookup_def unreachable_or_blocked_def blocked_message_def
        refused_send_def Let_def split: guarded_response.splits)
qed

lemma plain_split:
  assumes "CHR '','' \<notin> set a" "CHR '','' \<notin> set b"
  shows "js_split CHR '','' (a @ CHR '','' # b) = [a, b]"
  using assms by (simp add: js_split_append js_split_notin)

lemma number_chars: "CHR '','' \<notin> set (nat_string 10 t)"
  using nat_string_digits(1) [of t] by (auto simp: list_all_iff is_digit_def less_eq_char_def)

text \<open>C35: what \<open>signPayload\<close> writes, \<open>verifyPayload\<close> accepts: for every secret, body and second, as long as
  the clocks of the two ends differ by no more than the tolerance.\<close>

theorem signed_payload_verifies:
  assumes "hp_number P (of_nat t) = nat_string 10 t" "lower_hex64 (hp_hmac P secret (nat_string 10 t @ ''.'' @ body))"
    and "\<bar>now - of_nat t\<bar> \<le> tolerance"
  shows "verify_payload P secret body (sign_payload P secret body (of_nat t)) now tolerance"
proof -
  let ?h = "hp_hmac P secret (nat_string 10 t @ ''.'' @ body)"
  have c: "CHR '','' \<notin> set ?h" using assms(2) by (auto simp: lower_hex64_def list_all_iff is_digit_def less_eq_char_def)
  have "sign_payload P secret body (of_nat t) = (''t='' @ nat_string 10 t) @ CHR '','' # ''v1='' @ ?h"
    by (simp add: sign_payload_def assms(1))
  then have s: "js_split CHR '','' (sign_payload P secret body (of_nat t)) = [''t='' @ nat_string 10 t, ''v1='' @ ?h]"
    using plain_split [of "''t='' @ nat_string 10 t" "''v1='' @ ?h"] number_chars c by simp
  have "js_number (nat_string 10 t) = Some (of_nat t)"
    using js_number_digits [of "nat_string 10 t"] nat_string_digits [of t] by (simp add: all_digits_def)
  with s assms show ?thesis by (simp add: verify_payload_def header_part_def)
qed

section \<open>Witnesses\<close>

definition sample_platform :: hook_platform where
  "sample_platform = \<lparr>hp_json = (\<lambda>j. ''{}''), hp_hmac = (\<lambda>secret s. replicate 64 (if secret = ''k'' then CHR ''a'' else CHR ''b'')),
     hp_number = (\<lambda>q. nat_string 10 (nat \<lfloor>q\<rfloor>)), hp_date = (\<lambda>s. None)\<rparr>"

theorem signed_payload_verifies_witness:
  "verify_payload sample_platform ''k'' ''{}'' (sign_payload sample_platform ''k'' ''{}'' 1700) 1900 webhook_max_skew"
  using signed_payload_verifies [of sample_platform 1700 "''k''" "''{}''" 1900 webhook_max_skew]
  by (simp add: sample_platform_def lower_hex64_def webhook_max_skew_def is_digit_def less_eq_char_def list_all_iff)

theorem send_dials_checked_witness:
  "list_all public_target [''8.8.4.4''] \<and>
    fst (snd (http_send sample_platform (sample_outside\<lparr>o_dns := \<lambda>n h. Inr [''8.8.4.4'']\<rparr>) 0 \<lparr>ho_timeout = 5000, ho_private = False\<rparr>
      RawHook ''ping'' ''https://h.example/'' ''k'' ''d1'' \<lparr>cv_id = ''d1'', cv_type = ''ping'', cv_event = ''e1'', cv_created = 0, cv_data = JNull\<rparr> 5000)) =
      [''8.8.4.4'']"
proof -
  let ?w = "sample_outside\<lparr>o_dns := \<lambda>n h. Inr [''8.8.4.4'']\<rparr>" and ?o = "\<lparr>ho_timeout = 5000, ho_private = False\<rparr>"
    and ?e = "\<lparr>cv_id = ''d1'', cv_type = ''ping'', cv_event = ''e1'', cv_created = 0, cv_data = JNull\<rparr>"
  have u: "url_brackets ?w ''https://h.example/''" by (simp add: url_brackets_def sample_outside_def brackets_pair_def suffix_def)
  have b: "is_blocked_target ''h.example'' = False" by code_simp
  have d: "fst (snd (http_send sample_platform ?w 0 ?o RawHook ''ping'' ''https://h.example/'' ''k'' ''d1'' ?e 5000)) = [''8.8.4.4'']"
    by (simp add: http_send_def guard_target_def sample_outside_def b bare_host_def dial_host_def suffix_def resolve_private_check_def
        sample_addresses guarded_request_def hook_request_def transport_def guarded_lookup_def Let_def split: guarded_response.splits)
  obtain r n' where s: "http_send sample_platform ?w 0 ?o RawHook ''ping'' ''https://h.example/'' ''k'' ''d1'' ?e 5000 = (r, [''8.8.4.4''], n')"
    using d by (metis prod.collapse)
  from send_dials_checked [OF u s] d show ?thesis by simp
qed

end
